(* ===== verification/Prelude.thy ===== *)
theory Prelude
  imports
    Complex_Main
    "HOL-Library.AList"
    "HOL-Library.Char_ord"
    "HOL-Library.List_Lexorder"
    "HOL-Library.Sublist"
begin

text \<open>
  Shared vocabulary of the development: the Python values and string operations the
  agent's code uses, exceptions as values, and the generic lemmas on lists, insertion
  ordered dictionaries and results that the component theories build on.

  Conventions.  A Python \<open>str\<close> is a list of characters; only the ASCII behaviour of
  the case and whitespace functions is modelled, characters from 128 on pass through.
  A Python \<open>int\<close> is an \<open>int\<close>, a \<open>float\<close> a \<open>real\<close> (rounding is not modelled), a
  \<open>dict\<close> an association list in insertion order (\<open>AList.update\<close> keeps the position of
  an existing key and appends a new one, as Python does).
\<close>

named_theorems py_simps \<open>unfolding rules for the Python vocabulary\<close>
named_theorems model_defs \<open>definitions of small model operations\<close>
named_theorems inv_intros \<open>preservation lemmas of component invariants\<close>

section \<open>Exceptions and results\<close>

datatype py_exc =
    ValueError string
  | KeyError string
  | TypeError string
  | AttributeError string
  | IndexError string
  | RuntimeError string
  | TimeoutError
  | CancelledError
  | StuckError string
  | PermissionError string
  | FileNotFoundError string
  | NotADirectoryError string
  | ConfigError string
  | BrainSelectionError string
  | FrameTooLargeError nat
  | FrameParseError string
  | DatabaseError string
  | OtherError string

type_synonym 'a res = "py_exc + 'a"

fun rbind :: "'a res \<Rightarrow> ('a \<Rightarrow> 'b res) \<Rightarrow> 'b res" where
  "rbind (Inl e) f = Inl e"
| "rbind (Inr x) f = f x"

lemma rbind_Inr_iff [simp]: "rbind m f = Inr y \<longleftrightarrow> (\<exists>x. m = Inr x \<and> f x = Inr y)"
  by (cases m) auto

lemma rbind_Inl_iff: "rbind m f = Inl e \<longleftrightarrow> m = Inl e \<or> (\<exists>x. m = Inr x \<and> f x = Inl e)"
  by (cases m) auto

lemma rbind_assoc: "rbind (rbind m f) g = rbind m (\<lambda>x. rbind (f x) g)"
  by (cases m) auto

text \<open>A comprehension or loop that stops at the first exception.\<close>

fun rmap :: "('a \<Rightarrow> 'b res) \<Rightarrow> 'a list \<Rightarrow> 'b list res" where
  "rmap f [] = Inr []"
| "rmap f (x # xs) = rbind (f x) (\<lambda>y. rbind (rmap f xs) (\<lambda>ys. Inr (y # ys)))"

lemma rmap_Inr_length: "rmap f xs = Inr ys \<Longrightarrow> length ys = length xs"
  by (induction xs arbitrary: ys) auto

lemma rmap_Inr_set: "rmap f xs = Inr ys \<Longrightarrow> y \<in> set ys \<Longrightarrow> \<exists>x\<in>set xs. f x = Inr y"
  by (induction xs arbitrary: ys) auto

text \<open>
  The exception classes an \<open>except\<close> clause catches.  \<open>CancelledError\<close> derives from
  \<open>BaseException\<close>, so \<open>except Exception\<close> lets it pass; \<open>ConfigError\<close> is a
  \<open>ValueError\<close> and \<open>BrainSelectionError\<close> a \<open>RuntimeError\<close>.
\<close>

fun is_Exception :: "py_exc \<Rightarrow> bool" where
  "is_Exception CancelledError = False"
| "is_Exception _ = True"

fun is_ValueError :: "py_exc \<Rightarrow> bool" where
  "is_ValueError (ValueError _) = True"
| "is_ValueError (ConfigError _) = True"
| "is_ValueError _ = False"

fun is_KeyError :: "py_exc \<Rightarrow> bool" where
  "is_KeyError (KeyError _) = True"
| "is_KeyError _ = False"

section \<open>JSON-like values\<close>

text \<open>What \<open>json.loads\<close>, \<open>yaml.safe_load\<close> and the \<open>dict[str, Any]\<close> parameters hold.\<close>

datatype json =
    JNull
  | JBool bool
  | JInt int
  | JFloat real
  | JStr string
  | JList "json list"
  | JObj "(string \<times> json) list"

type_synonym 'v dict = "(string \<times> 'v) list"
type_synonym params = "json dict"

abbreviation dget :: "'v dict \<Rightarrow> string \<Rightarrow> 'v option" where
  "dget \<equiv> map_of"

definition dget_or :: "'v dict \<Rightarrow> string \<Rightarrow> 'v \<Rightarrow> 'v" where
  "dget_or d k dflt = (case dget d k of None \<Rightarrow> dflt | Some v \<Rightarrow> v)"

definition dindex :: "'v dict \<Rightarrow> string \<Rightarrow> 'v res" where
  "dindex d k = (case dget d k of None \<Rightarrow> Inl (KeyError k) | Some v \<Rightarrow> Inr v)"

fun truthy :: "json \<Rightarrow> bool" where
  "truthy JNull = False"
| "truthy (JBool b) = b"
| "truthy (JInt i) = (i \<noteq> 0)"
| "truthy (JFloat r) = (r \<noteq> 0)"
| "truthy (JStr s) = (s \<noteq> [])"
| "truthy (JList xs) = (xs \<noteq> [])"
| "truthy (JObj d) = (d \<noteq> [])"

definition jor :: "json \<Rightarrow> json \<Rightarrow> json" where
  "jor v w = (if truthy v then v else w)"

lemma dget_or_simps [simp]:
  "dget_or [] k v = v"
  "dget_or ((k', x) # d) k v = (if k' = k then x else dget_or d k v)"
  by (auto simp: dget_or_def)

lemma dindex_simps [simp]:
  "dindex [] k = Inl (KeyError k)"
  "dindex ((k', x) # d) k = (if k' = k then Inr x else dindex d k)"
  by (auto simp: dindex_def)

lemma dindex_Inr_iff: "dindex d k = Inr v \<longleftrightarrow> dget d k = Some v"
  by (auto simp: dindex_def split: option.splits)

section \<open>Strings\<close>

abbreviation chr_nl :: char where "chr_nl \<equiv> CHR 0x0A"

definition ordc :: "char \<Rightarrow> nat" where
  "ordc c = of_char c"

definition is_space :: "char \<Rightarrow> bool" where
  "is_space c = (ordc c \<in> {9, 10, 11, 12, 13, 28, 29, 30, 31, 32})"

definition is_digit :: "char \<Rightarrow> bool" where
  "is_digit c = (48 \<le> ordc c \<and> ordc c \<le> 57)"

definition lower_char :: "char \<Rightarrow> char" where
  "lower_char c = (if 65 \<le> ordc c \<and> ordc c \<le> 90 then char_of (ordc c + 32) else c)"

definition lower :: "string \<Rightarrow> string" where
  "lower s = map lower_char s"

definition lstrip :: "string \<Rightarrow> string" where
  "lstrip s = dropWhile is_space s"

definition strip :: "string \<Rightarrow> string" where
  "strip s = rev (dropWhile is_space (rev (dropWhile is_space s)))"

text \<open>\<open>str.split(c)\<close> with a one-character separator: never the empty list.\<close>

fun split_on :: "char \<Rightarrow> string \<Rightarrow> string list" where
  "split_on c [] = [[]]"
| "split_on c (x # xs) =
     (if x = c then [] # split_on c xs
      else (case split_on c xs of [] \<Rightarrow> [[x]] | w # ws \<Rightarrow> (x # w) # ws))"

fun join :: "string \<Rightarrow> string list \<Rightarrow> string" where
  "join sep [] = []"
| "join sep [x] = x"
| "join sep (x # y # ys) = x @ sep @ join sep (y # ys)"

text \<open>\<open>str.split()\<close> on runs of whitespace.\<close>

function words :: "string \<Rightarrow> string list" where
  "words s = (case dropWhile is_space s of
      [] \<Rightarrow> []
    | c # cs \<Rightarrow> takeWhile (\<lambda>x. \<not> is_space x) (c # cs)
                # words (dropWhile (\<lambda>x. \<not> is_space x) (c # cs)))"
  by pat_completeness auto
termination
proof (relation "measure length", simp, goal_cases)
  case (1 s c cs)
  then have "\<not> is_space c"
    by (metis dropWhile_eq_Cons_conv)
  moreover have "length (dropWhile is_space s) \<le> length s"
    by (rule length_dropWhile_le)
  ultimately show ?case
    using 1 length_dropWhile_le[of "\<lambda>x. \<not> is_space x" cs] by simp
qed

declare words.simps [simp del]

definition startswith :: "string \<Rightarrow> string \<Rightarrow> bool" where
  "startswith s p = (take (length p) s = p)"

fun contains :: "string \<Rightarrow> string \<Rightarrow> bool" where
  "contains [] p = (p = [])"
| "contains (x # xs) p = (startswith (x # xs) p \<or> contains xs p)"

lemma startswith_prefix: "startswith s p \<longleftrightarrow> prefix p s"
  by (metis append_eq_conv_conj append_take_drop_id prefix_def startswith_def)

lemma contains_sublist: "contains s p \<longleftrightarrow> sublist p s"
  by (induction s) (auto simp: startswith_prefix sublist_Cons_right)

lemma split_on_nonempty [simp]: "split_on c s \<noteq> []"
  by (induction s) (auto split: list.splits)

lemma join_Cons_hd: "join sep ((x # w) # ws) = x # join sep (w # ws)"
  by (cases ws) auto

lemma join_split_on: "join [c] (split_on c s) = s"
proof (induction s)
  case (Cons x xs)
  then show ?case
    by (auto simp: join_Cons_hd split: list.splits)
qed simp

lemma split_on_no_sep: "w \<in> set (split_on c s) \<Longrightarrow> c \<notin> set w"
  by (induction s arbitrary: w) (auto split: list.splits if_splits)

lemma split_on_join:
  "ws \<noteq> [] \<Longrightarrow> (\<And>w. w \<in> set ws \<Longrightarrow> c \<notin> set w) \<Longrightarrow> split_on c (join [c] ws) = ws"
proof (induction "[c]" ws rule: join.induct)
  case (2 x)
  have "c \<notin> set x \<Longrightarrow> split_on c x = [x]" by (induction x) auto
  with 2 show ?case by simp
next
  case (3 x y ys)
  have *: "c \<notin> set x \<Longrightarrow> split_on c (x @ c # t) = x # split_on c t" for t
    by (induction x) auto
  from 3 show ?case by (simp add: *)
qed simp

lemma lower_idem [simp]: "lower (lower s) = lower s"
proof -
  have "lower_char (lower_char c) = lower_char c" for c
    by (auto simp: lower_char_def ordc_def)
  then show ?thesis by (simp add: lower_def)
qed

lemma lower_append [simp]: "lower (s @ t) = lower s @ lower t"
  by (simp add: lower_def)

lemma length_lower [simp]: "length (lower s) = length s"
  by (simp add: lower_def)

section \<open>Numbers as text\<close>

fun nat_digits :: "nat \<Rightarrow> string" where
  "nat_digits n = (if n < 10 then [char_of (48 + n)]
                   else nat_digits (n div 10) @ [char_of (48 + n mod 10)])"

declare nat_digits.simps [simp del]

definition int_str :: "int \<Rightarrow> string" where
  "int_str i = (if i < 0 then ''-'' @ nat_digits (nat (- i)) else nat_digits (nat i))"

definition nat_str :: "nat \<Rightarrow> string" where
  "nat_str n = nat_digits n"

definition digits_val :: "string \<Rightarrow> nat" where
  "digits_val s = foldl (\<lambda>a c. 10 * a + (ordc c - 48)) 0 s"

text \<open>
  \<open>int(s)\<close> on a string: surrounding whitespace, an optional sign, then digits in which
  single underscores may separate two digits.
\<close>

fun digits_ok :: "string \<Rightarrow> bool" where
  "digits_ok [] = False"
| "digits_ok [c] = is_digit c"
| "digits_ok (c # d # cs) =
     (is_digit c \<and> (if d = CHR ''_'' then digits_ok cs else digits_ok (d # cs)))"

definition unsigned_int :: "string \<Rightarrow> nat option" where
  "unsigned_int s =
     (if digits_ok s then Some (digits_val (filter (\<lambda>c. c \<noteq> CHR ''_'') s)) else None)"

definition parse_int :: "string \<Rightarrow> int option" where
  "parse_int s = (case strip s of
      [] \<Rightarrow> None
    | c # cs \<Rightarrow>
        if c = CHR ''-'' then map_option (\<lambda>n. - int n) (unsigned_int cs)
        else if c = CHR ''+'' then map_option int (unsigned_int cs)
        else map_option int (unsigned_int (c # cs)))"

definition trunc :: "real \<Rightarrow> int" where
  "trunc r = (if r < 0 then - \<lfloor>- r\<rfloor> else \<lfloor>r\<rfloor>)"

text \<open>Python's \<open>int(v)\<close>, \<open>bool(v)\<close> on the values above.\<close>

fun py_int :: "json \<Rightarrow> int res" where
  "py_int (JInt i) = Inr i"
| "py_int (JBool b) = Inr (if b then 1 else 0)"
| "py_int (JFloat r) = Inr (trunc r)"
| "py_int (JStr s) = (case parse_int s of
      None \<Rightarrow> Inl (ValueError ''invalid literal for int()'') | Some i \<Rightarrow> Inr i)"
| "py_int _ = Inl (TypeError ''int() argument must be a string or a number'')"

lemma is_digit_char_of: "n < 10 \<Longrightarrow> is_digit (char_of (48 + n :: nat))"
  by (simp add: is_digit_def ordc_def)

lemma nat_digits_is_digit: "c \<in> set (nat_digits n) \<Longrightarrow> is_digit c"
proof (induction n rule: nat_digits.induct)
  case (1 n)
  then show ?case
    by (subst (asm) (2) nat_digits.simps) (auto split: if_splits intro: is_digit_char_of)
qed

lemma nat_digits_nonempty [simp]: "nat_digits n \<noteq> []"
  by (subst nat_digits.simps) simp

lemma digits_val_snoc: "digits_val (s @ [c]) = 10 * digits_val s + (ordc c - 48)"
  by (simp add: digits_val_def)

lemma digits_val_nat_digits: "digits_val (nat_digits n) = n"
proof (induction n rule: nat_digits.induct)
  case (1 n)
  show ?case
  proof (cases "n < 10")
    case True
    then show ?thesis
      by (subst nat_digits.simps) (simp add: digits_val_def ordc_def)
  next
    case False
    with 1 have "digits_val (nat_digits (n div 10)) = n div 10" by simp
    with False show ?thesis
      by (subst nat_digits.simps) (simp add: digits_val_snoc ordc_def)
  qed
qed

lemma is_digit_not_special:
  "is_digit c \<Longrightarrow> c \<noteq> CHR ''_'' \<and> c \<noteq> CHR ''-'' \<and> c \<noteq> CHR ''+'' \<and> \<not> is_space c"
  by (auto simp: is_digit_def is_space_def ordc_def)

lemma digits_ok_all_digits:
  "s \<noteq> [] \<Longrightarrow> (\<And>c. c \<in> set s \<Longrightarrow> is_digit c) \<Longrightarrow> digits_ok s"
proof (induction s rule: digits_ok.induct)
  case (3 c d cs)
  then have "is_digit d" by simp
  with 3 show ?case by (auto dest: is_digit_not_special)
qed auto

lemma strip_ends: "s \<noteq> [] \<Longrightarrow> \<not> is_space (hd s) \<Longrightarrow> \<not> is_space (last s) \<Longrightarrow> strip s = s"
proof -
  assume a: "s \<noteq> []" "\<not> is_space (hd s)" "\<not> is_space (last s)"
  then have "dropWhile is_space s = s" by (cases s) auto
  moreover from a have "dropWhile is_space (rev s) = rev s"
    by (cases s rule: rev_cases) auto
  ultimately show "strip s = s" by (simp add: strip_def)
qed

lemma strip_no_space: "(\<And>c. c \<in> set s \<Longrightarrow> \<not> is_space c) \<Longrightarrow> strip s = s"
proof -
  assume ns: "\<And>c. c \<in> set s \<Longrightarrow> \<not> is_space c"
  have dw: "dropWhile is_space t = t" if "set t \<subseteq> set s" for t
    using that ns by (cases t) auto
  show "strip s = s" by (simp add: strip_def dw)
qed

lemma unsigned_int_nat_digits: "unsigned_int (nat_digits n) = Some n"
proof -
  have f: "filter (\<lambda>c. c \<noteq> CHR ''_'') (nat_digits n) = nat_digits n"
    by (rule filter_True) (auto dest!: nat_digits_is_digit is_digit_not_special)
  have "digits_ok (nat_digits n)"
    by (rule digits_ok_all_digits) (auto intro: nat_digits_is_digit)
  then show ?thesis
    by (simp add: unsigned_int_def f digits_val_nat_digits)
qed

text \<open>Printing and parsing an integer is the identity.\<close>

lemma parse_int_int_str: "parse_int (int_str i) = Some i"
proof -
  have ns: "\<not> is_space c" if "c \<in> set (nat_digits n)" for c n
    using nat_digits_is_digit[OF that] is_digit_not_special by blast
  have st: "strip (nat_digits n) = nat_digits n" for n
    by (rule strip_no_space) (rule ns)
  have st2: "strip (CHR ''-'' # nat_digits n) = CHR ''-'' # nat_digits n" for n
    by (rule strip_no_space) (auto simp: ns is_space_def ordc_def dest: ns)
  show ?thesis
  proof (cases "i < 0")
    case True
    then show ?thesis
      by (simp add: parse_int_def int_str_def st2 unsigned_int_nat_digits)
  next
    case False
    obtain c cs where eq: "nat_digits (nat i) = c # cs"
      by (cases "nat_digits (nat i)") auto
    then have "is_digit c" using nat_digits_is_digit[of c "nat i"] by simp
    then have "c \<noteq> CHR ''-''" "c \<noteq> CHR ''+''" by (auto dest: is_digit_not_special)
    with False show ?thesis
      using st[of "nat i"] unsigned_int_nat_digits[of "nat i"]
      by (simp add: parse_int_def int_str_def eq)
  qed
qed

text \<open>
  \<open>repr\<close> of a string: single quotes unless the text has a single and no double quote;
  backslash, the quote and control characters are escaped.
\<close>

definition hex_digit :: "nat \<Rightarrow> char" where
  "hex_digit n = (if n < 10 then char_of (48 + n) else char_of (87 + n))"

definition repr_char :: "char \<Rightarrow> char \<Rightarrow> string" where
  "repr_char q c =
     (if c = q \<or> c = CHR 0x5C then [CHR 0x5C, c]
      else if ordc c = 10 then [CHR 0x5C, CHR ''n'']
      else if ordc c = 13 then [CHR 0x5C, CHR ''r'']
      else if ordc c = 9 then [CHR 0x5C, CHR ''t'']
      else if ordc c < 32 \<or> ordc c = 127
        then [CHR 0x5C, CHR ''x'', hex_digit (ordc c div 16), hex_digit (ordc c mod 16)]
      else [c])"

definition repr_str :: "string \<Rightarrow> string" where
  "repr_str s =
     (let q = (if CHR 0x27 \<in> set s \<and> CHR 0x22 \<notin> set s then CHR 0x22 else CHR 0x27)
      in [q] @ concat (map (repr_char q) s) @ [q])"

section \<open>Lists\<close>

text \<open>Python slices: \<open>xs[-n:]\<close> (the whole list when \<open>n = 0\<close>), and \<open>xs[i:]\<close> for any \<open>i\<close>.\<close>

definition last_slice :: "nat \<Rightarrow> 'a list \<Rightarrow> 'a list" where
  "last_slice n xs = (if n = 0 then xs else drop (length xs - n) xs)"

definition slice_from :: "int \<Rightarrow> 'a list \<Rightarrow> 'a list" where
  "slice_from i xs =
     (if 0 \<le> i then drop (nat i) xs else drop (length xs - nat (- i)) xs)"

definition slice_to :: "int \<Rightarrow> 'a list \<Rightarrow> 'a list" where
  "slice_to i xs =
     (if 0 \<le> i then take (nat i) xs else take (length xs - nat (- i)) xs)"

lemma length_last_slice: "0 < n \<Longrightarrow> length (last_slice n xs) = min n (length xs)"
  by (simp add: last_slice_def)

lemma set_last_slice: "set (last_slice n xs) \<subseteq> set xs"
  by (auto simp: last_slice_def dest: in_set_dropD)

text \<open>A deque with \<open>maxlen\<close>: appending drops from the front.\<close>

definition push_bounded :: "nat \<Rightarrow> 'a list \<Rightarrow> 'a \<Rightarrow> 'a list" where
  "push_bounded n xs x = (let ys = xs @ [x] in drop (length ys - n) ys)"

lemma length_push_bounded: "length xs \<le> n \<Longrightarrow> length (push_bounded n xs x) = min n (length xs + 1)"
  by (auto simp: push_bounded_def Let_def)

lemma push_bounded_within: "length (push_bounded n xs x) \<le> n"
  by (simp add: push_bounded_def Let_def)

lemma push_bounded_last: "0 < n \<Longrightarrow> push_bounded n xs x = drop (length xs + 1 - n) xs @ [x]"
  by (auto simp: push_bounded_def Let_def)

text \<open>\<open>dict.fromkeys\<close>: first occurrences, in order.\<close>

fun dedup :: "'a list \<Rightarrow> 'a list" where
  "dedup [] = []"
| "dedup (x # xs) = x # filter (\<lambda>y. y \<noteq> x) (dedup xs)"

lemma set_dedup [simp]: "set (dedup xs) = set xs"
  by (induction xs) auto

lemma distinct_dedup [simp]: "distinct (dedup xs)"
  by (induction xs) auto

lemma dedup_eq_Nil [simp]: "dedup xs = [] \<longleftrightarrow> xs = []"
  by (cases xs) auto

lemma dedup_id: "distinct xs \<Longrightarrow> dedup xs = xs"
  by (induction xs) (auto intro!: filter_True)

text \<open>\<open>next((x for x in xs if P x), None)\<close> is \<open>List.find\<close>.\<close>

lemma find_Some_mem: "List.find P xs = Some x \<Longrightarrow> x \<in> set xs \<and> P x"
  by (induction xs) (auto split: if_splits)

lemma find_None: "List.find P xs = None \<longleftrightarrow> (\<forall>x\<in>set xs. \<not> P x)"
  by (induction xs) (auto split: if_splits)

end
