(* ===== verification/Schemas.thy ===== *)
theory Schemas
  imports Prelude
begin

text \<open>
  The data model of \<open>src/src/agent/schemas.py\<close>: the string enumerations with their
  values and the lookup \<open>Enum(value)\<close> that raises on an unknown one, windows, events,
  watch rules, run records and action results.  Pydantic's own validation is not under
  \<open>src/\<close>: \<open>rule_from_dict\<close> takes \<open>EventMatch.model_validate\<close> and \<open>str\<close> on
  containers as parameters.
\<close>

section \<open>String enumerations\<close>

datatype action_kind =
    Screenshot | Terminal_command | Type_text | Key | Mouse_move | Click | Scroll
  | Focus_window | Dispatch | Read_file | Write_file | List_dir | Notify
  | Update_status | Speak | Clipboard_read | Clipboard_write

definition all_action_kinds :: "action_kind list" where
  "all_action_kinds =
     [Screenshot, Terminal_command, Type_text, Key, Mouse_move, Click, Scroll,
      Focus_window, Dispatch, Read_file, Write_file, List_dir, Notify,
      Update_status, Speak, Clipboard_read, Clipboard_write]"

fun ak_value :: "action_kind \<Rightarrow> string" where
  "ak_value Screenshot = ''screenshot''"
| "ak_value Terminal_command = ''terminal_command''"
| "ak_value Type_text = ''type_text''"
| "ak_value Key = ''key''"
| "ak_value Mouse_move = ''mouse_move''"
| "ak_value Click = ''click''"
| "ak_value Scroll = ''scroll''"
| "ak_value Focus_window = ''focus_window''"
| "ak_value Dispatch = ''dispatch''"
| "ak_value Read_file = ''read_file''"
| "ak_value Write_file = ''write_file''"
| "ak_value List_dir = ''list_dir''"
| "ak_value Notify = ''notify''"
| "ak_value Update_status = ''update_status''"
| "ak_value Speak = ''speak''"
| "ak_value Clipboard_read = ''clipboard_read''"
| "ak_value Clipboard_write = ''clipboard_write''"

datatype event_kind =
    EV_workspace | EV_active_window | EV_open_window | EV_close_window
  | EV_move_window | EV_focused_mon | EV_urgent | EV_other

definition all_event_kinds :: "event_kind list" where
  "all_event_kinds =
     [EV_workspace, EV_active_window, EV_open_window, EV_close_window,
      EV_move_window, EV_focused_mon, EV_urgent, EV_other]"

fun ek_value :: "event_kind \<Rightarrow> string" where
  "ek_value EV_workspace = ''workspace''"
| "ek_value EV_active_window = ''activewindow''"
| "ek_value EV_open_window = ''openwindow''"
| "ek_value EV_close_window = ''closewindow''"
| "ek_value EV_move_window = ''movewindow''"
| "ek_value EV_focused_mon = ''focusedmon''"
| "ek_value EV_urgent = ''urgent''"
| "ek_value EV_other = ''other''"

datatype rule_action_kind = RA_dispatch | RA_log | RA_notify | RA_run

definition all_rule_action_kinds :: "rule_action_kind list" where
  "all_rule_action_kinds = [RA_dispatch, RA_log, RA_notify, RA_run]"

fun rak_value :: "rule_action_kind \<Rightarrow> string" where
  "rak_value RA_dispatch = ''dispatch''"
| "rak_value RA_log = ''log''"
| "rak_value RA_notify = ''notify''"
| "rak_value RA_run = ''run''"

datatype run_status = Running | Completed | Errored | Aborted

definition all_run_statuses :: "run_status list" where
  "all_run_statuses = [Running, Completed, Errored, Aborted]"

fun rs_value :: "run_status \<Rightarrow> string" where
  "rs_value Running = ''running''"
| "rs_value Completed = ''completed''"
| "rs_value Errored = ''errored''"
| "rs_value Aborted = ''aborted''"

datatype run_kind = RK_run | RK_plan

definition all_run_kinds :: "run_kind list" where
  "all_run_kinds = [RK_run, RK_plan]"

fun rk_value :: "run_kind \<Rightarrow> string" where
  "rk_value RK_run = ''run''"
| "rk_value RK_plan = ''plan''"

text \<open>\<open>StrEnum(value)\<close>: the member with that value, or \<open>ValueError\<close>.\<close>

definition enum_lookup :: "('a \<Rightarrow> string) \<Rightarrow> 'a list \<Rightarrow> string \<Rightarrow> 'a res" where
  "enum_lookup val members s = (case List.find (\<lambda>m. val m = s) members of
      None \<Rightarrow> Inl (ValueError s) | Some m \<Rightarrow> Inr m)"

text \<open>
  The contract of a string enumeration: its member list is complete and its values are
  pairwise different, so looking a member's value up gives that member back.
\<close>

locale str_enum =
  fixes val :: "'a \<Rightarrow> string" and members :: "'a list"
  assumes members_complete: "m \<in> set members"
    and val_inj: "val m = val m' \<Longrightarrow> m = m'"
begin

lemma lookup_val: "enum_lookup val members (val m) = Inr m"
proof -
  have "List.find (\<lambda>x. val x = val m) members = Some m"
  proof (cases "List.find (\<lambda>x. val x = val m) members")
    case None
    with members_complete[of m] show ?thesis by (auto simp: find_None)
  next
    case (Some x)
    with val_inj show ?thesis by (auto dest: find_Some_mem)
  qed
  then show ?thesis by (simp add: enum_lookup_def)
qed

lemma lookup_sound: "enum_lookup val members s = Inr m \<Longrightarrow> val m = s"
  by (auto simp: enum_lookup_def split: option.splits dest: find_Some_mem)

lemma lookup_error_iff: "enum_lookup val members s = Inl e \<longleftrightarrow> s \<notin> range val \<and> e = ValueError s"
  using members_complete
  by (auto simp: enum_lookup_def find_None split: option.splits dest: find_Some_mem)

lemma lookup_iff: "enum_lookup val members s = Inr m \<longleftrightarrow> s = val m"
  using lookup_val lookup_sound by blast

end

interpretation action_kind: str_enum ak_value all_action_kinds
proof
  show "m \<in> set all_action_kinds" for m by (cases m) (simp_all add: all_action_kinds_def)
  show "ak_value m = ak_value m' \<Longrightarrow> m = m'" for m m' by (cases m; cases m') simp_all
qed

interpretation event_kind: str_enum ek_value all_event_kinds
proof
  show "m \<in> set all_event_kinds" for m by (cases m) (simp_all add: all_event_kinds_def)
  show "ek_value m = ek_value m' \<Longrightarrow> m = m'" for m m' by (cases m; cases m') simp_all
qed

interpretation rule_action_kind: str_enum rak_value all_rule_action_kinds
proof
  show "m \<in> set all_rule_action_kinds" for m by (cases m) (simp_all add: all_rule_action_kinds_def)
  show "rak_value m = rak_value m' \<Longrightarrow> m = m'" for m m' by (cases m; cases m') simp_all
qed

interpretation run_status: str_enum rs_value all_run_statuses
proof
  show "m \<in> set all_run_statuses" for m by (cases m) (simp_all add: all_run_statuses_def)
  show "rs_value m = rs_value m' \<Longrightarrow> m = m'" for m m' by (cases m; cases m') simp_all
qed

interpretation run_kind: str_enum rk_value all_run_kinds
proof
  show "m \<in> set all_run_kinds" for m by (cases m) (simp_all add: all_run_kinds_def)
  show "rk_value m = rk_value m' \<Longrightarrow> m = m'" for m m' by (cases m; cases m') simp_all
qed

text \<open>A \<open>StrEnum\<close> member is a string and is ordered as one.\<close>

instantiation action_kind :: linorder
begin

definition less_eq_action_kind :: "action_kind \<Rightarrow> action_kind \<Rightarrow> bool" where
  "less_eq_action_kind a b = (ak_value a \<le> ak_value b)"

definition less_action_kind :: "action_kind \<Rightarrow> action_kind \<Rightarrow> bool" where
  "less_action_kind a b = (ak_value a < ak_value b)"

instance
proof
  fix a b c :: action_kind
  show "a < b \<longleftrightarrow> a \<le> b \<and> \<not> b \<le> a"
    by (auto simp: less_eq_action_kind_def less_action_kind_def)
  show "a \<le> a" by (simp add: less_eq_action_kind_def)
  show "a \<le> b \<Longrightarrow> b \<le> c \<Longrightarrow> a \<le> c" by (auto simp: less_eq_action_kind_def)
  show "a \<le> b \<Longrightarrow> b \<le> a \<Longrightarrow> a = b"
    by (auto simp: less_eq_action_kind_def intro: action_kind.val_inj)
  show "a \<le> b \<or> b \<le> a" by (auto simp: less_eq_action_kind_def)
qed

end

section \<open>Records\<close>

record window =
  win_address :: string
  win_title :: string
  win_class :: string
  win_workspace_id :: int
  win_at :: "int \<times> int"
  win_size :: "int \<times> int"
  win_floating :: bool
  win_hidden :: bool
  win_pid :: int
  win_monitor :: int

definition win_x :: "window \<Rightarrow> int" where "win_x w = fst (win_at w)"
definition win_y :: "window \<Rightarrow> int" where "win_y w = snd (win_at w)"
definition win_w :: "window \<Rightarrow> int" where "win_w w = fst (win_size w)"
definition win_h :: "window \<Rightarrow> int" where "win_h w = snd (win_size w)"

text \<open>
  \<open>Window.model_dump()\<close>: keys are the field names, so the window class is stored under
  \<open>app_class\<close> and not under its alias \<open>class\<close>.
\<close>

definition window_dump :: "window \<Rightarrow> params" where
  "window_dump w =
     [(''address'', JStr (win_address w)),
      (''title'', JStr (win_title w)),
      (''app_class'', JStr (win_class w)),
      (''workspace_id'', JInt (win_workspace_id w)),
      (''at'', JList [JInt (fst (win_at w)), JInt (snd (win_at w))]),
      (''size'', JList [JInt (fst (win_size w)), JInt (snd (win_size w))]),
      (''floating'', JBool (win_floating w)),
      (''hidden'', JBool (win_hidden w)),
      (''pid'', JInt (win_pid w)),
      (''monitor'', JInt (win_monitor w))]"

record monitor =
  mon_id :: int
  mon_name :: string
  mon_width :: int
  mon_height :: int
  mon_x :: int
  mon_y :: int
  mon_scale :: real
  mon_focused :: bool

record event =
  event_kind :: event_kind
  event_data :: string
  event_raw :: string

record action =
  act_kind :: action_kind
  act_params :: params

record screen_state =
  ss_png :: "nat list"
  ss_width :: int
  ss_height :: int
  ss_active :: "window option"
  ss_windows :: "window list"

record event_match =
  em_class :: "string option"
  em_title :: "string option"

record rule_action =
  ra_kind :: rule_action_kind
  ra_value :: string

record rule =
  rule_on :: event_kind
  rule_match :: event_match
  rule_actions :: "rule_action list"

record run_event =
  ev_seq :: int
  ev_ts :: real
  ev_kind :: string
  ev_payload :: params

record run_summary =
  rn_id :: string
  rn_kind :: run_kind
  rn_task :: string
  rn_brain :: string
  rn_status :: run_status
  rn_started_at :: real
  rn_ended_at :: "real option"
  rn_error :: "string option"

record run_record = run_summary +
  rn_events :: "run_event list"

record action_result =
  res_kind :: string
  res_dispatch :: "string option"
  res_stdout :: "string option"
  res_stderr :: "string option"
  res_returncode :: "int option"
  res_blocked :: "string option"
  res_rejected :: "string option"
  res_truncated :: "bool option"
  res_pre_hash :: "string option"
  res_post_hash :: "string option"

definition action_result_of :: "string \<Rightarrow> action_result" where
  "action_result_of k =
     \<lparr>res_kind = k, res_dispatch = None, res_stdout = None, res_stderr = None,
      res_returncode = None, res_blocked = None, res_rejected = None,
      res_truncated = None, res_pre_hash = None, res_post_hash = None\<rparr>"

definition is_blocked :: "action_result \<Rightarrow> bool" where
  "is_blocked r = (res_blocked r \<noteq> None)"

definition is_rejected :: "action_result \<Rightarrow> bool" where
  "is_rejected r = (res_rejected r \<noteq> None)"

section \<open>Parsing a watch rule\<close>

text \<open>\<open>item.items()\<close> of one entry of the \<open>actions\<close> list.\<close>

fun rule_actions_of :: "(json \<Rightarrow> string) \<Rightarrow> params \<Rightarrow> rule_action list res" where
  "rule_actions_of str [] = Inr []"
| "rule_actions_of str ((k, v) # kvs) =
     rbind (enum_lookup rak_value all_rule_action_kinds k) (\<lambda>kind.
     rbind (rule_actions_of str kvs) (\<lambda>rest.
     Inr (\<lparr>ra_kind = kind, ra_value = str v\<rparr> # rest)))"

fun rule_items :: "(json \<Rightarrow> string) \<Rightarrow> json list \<Rightarrow> rule_action list res" where
  "rule_items str [] = Inr []"
| "rule_items str (JObj kvs # items) =
     rbind (rule_actions_of str kvs) (\<lambda>as.
     rbind (rule_items str items) (\<lambda>rest. Inr (as @ rest)))"
| "rule_items str (_ # items) = Inl (AttributeError ''items'')"

fun event_kind_of :: "json \<Rightarrow> event_kind res" where
  "event_kind_of (JStr s) = enum_lookup ek_value all_event_kinds s"
| "event_kind_of _ = Inl (ValueError ''not a valid EventKind'')"

definition rule_from_dict ::
  "(json \<Rightarrow> event_match res) \<Rightarrow> (json \<Rightarrow> string) \<Rightarrow> params \<Rightarrow> rule res" where
  "rule_from_dict validate str data =
     rbind (case dget_or data ''actions'' (JList []) of
              JList items \<Rightarrow> rule_items str items
            | JObj d \<Rightarrow> (if d = [] then Inr [] else Inl (AttributeError ''items''))
            | JStr s \<Rightarrow> (if s = [] then Inr [] else Inl (AttributeError ''items''))
            | _ \<Rightarrow> Inl (TypeError ''not iterable'')) (\<lambda>actions.
     rbind (dindex data ''on'') (\<lambda>on_v.
     rbind (event_kind_of on_v) (\<lambda>on_k.
     rbind (validate (dget_or data ''match'' (JObj []))) (\<lambda>m.
     Inr \<lparr>rule_on = on_k, rule_match = m, rule_actions = actions\<rparr>))))"

lemma rule_actions_of_kinds:
  "rule_actions_of str kvs = Inr as \<Longrightarrow>
   map (\<lambda>a. rak_value (ra_kind a)) as = map fst kvs \<and> map ra_value as = map (str \<circ> snd) kvs"
  by (induction str kvs arbitrary: as rule: rule_actions_of.induct)
     (auto simp: rule_action_kind.lookup_iff)

lemma rule_items_objects: "rule_items str items = Inr as \<Longrightarrow> i \<in> set items \<Longrightarrow> \<exists>kvs. i = JObj kvs"
  by (induction str items arbitrary: as rule: rule_items.induct) auto

end
