(* ===== verification/Config.thy ===== *)
theory Config
  imports Schemas
begin

text \<open>
  \<open>src/src/agent/config.py\<close>: the typed configuration with its defaults and the strict
  loader of \<open>config.yaml\<close>.  The file is given by the value \<open>yaml.safe_load\<close> returns
  (\<open>None\<close> when it does not exist); \<open>str\<close> on floats and containers and \<open>float\<close> on
  strings are the parameters \<open>other\<close> and \<open>flt\<close>.
\<close>

section \<open>Constants\<close>

definition known_providers :: "string list" where
  "known_providers =
     [''claude'', ''openai'', ''moonshot'', ''groq'', ''together'', ''zai'', ''qwen'']"

definition provider_labels :: "string dict" where
  "provider_labels =
     [(''claude'', ''Claude''), (''openai'', ''OpenAI''), (''moonshot'', ''Kimi''),
      (''groq'', ''Groq''), (''together'', ''Together''), (''zai'', ''Z.AI''),
      (''qwen'', ''Qwen'')]"

definition brain_aliases :: "string dict" where
  "brain_aliases =
     [(''claude'', ''claude''), (''openai'', ''openai''), (''gpt'', ''openai''),
      (''moonshot'', ''moonshot''), (''kimi'', ''moonshot''), (''k2'', ''moonshot''),
      (''groq'', ''groq''), (''together'', ''together''), (''togetherai'', ''together''),
      (''zai'', ''zai''), (''glm'', ''zai''), (''z.ai'', ''zai''),
      (''qwen'', ''qwen''), (''dashscope'', ''qwen'')]"

definition default_max_iter :: nat where "default_max_iter = 20"
definition default_run_timeout :: real where "default_run_timeout = 300"

definition env_whitelist :: "string list" where
  "env_whitelist =
     [''PATH'', ''HOME'', ''USER'', ''DISPLAY'', ''WAYLAND_DISPLAY'', ''XDG_RUNTIME_DIR'',
      ''XDG_SESSION_TYPE'', ''HYPRLAND_INSTANCE_SIGNATURE'', ''DBUS_SESSION_BUS_ADDRESS'',
      ''LANG'', ''LC_ALL'']"

section \<open>Configuration records and their defaults\<close>

record brain_config =
  bc_default :: string
  bc_auto_order :: "string list"
  bc_providers :: "bool dict"

record memory_config =
  mc_enabled :: bool
  mc_recall_k :: int
  mc_embedder_model :: string
  mc_filter_failure :: bool

record decay_config =
  dc_enabled :: bool
  dc_half_life_days :: int
  dc_prune_threshold :: real
  dc_cleanup_interval_s :: int

record learning_config =
  lc_enabled :: bool
  lc_mining_interval_s :: int
  lc_rule_mining :: bool
  lc_allowlist_mining :: bool
  lc_decay :: decay_config

record rate_limit_config =
  rl_gui :: int
  rl_terminal :: int
  rl_other :: int

record terminal_config =
  tc_capture_cap_kb :: int

record voice_core_config =
  vc_enabled :: bool

record integrations_config =
  ic_enabled :: "string list"
  ic_binary_overrides :: "string dict"
  ic_mako_app_name :: string
  ic_voice :: voice_core_config

record context_config =
  cc_budget_tokens :: int
  cc_keep_rounds :: int

record agent_config =
  ag_brain :: brain_config
  ag_memory :: memory_config
  ag_learning :: learning_config
  ag_rate_limit :: rate_limit_config
  ag_terminal :: terminal_config
  ag_integrations :: integrations_config
  ag_context :: context_config
  ag_audit_log :: bool
  ag_path :: string

definition all_enabled :: "bool dict" where
  "all_enabled = map (\<lambda>p. (p, True)) known_providers"

definition default_brain_config :: brain_config where
  "default_brain_config =
     \<lparr>bc_default = ''auto'', bc_auto_order = known_providers, bc_providers = all_enabled\<rparr>"

definition default_memory_config :: memory_config where
  "default_memory_config =
     \<lparr>mc_enabled = True, mc_recall_k = 3,
      mc_embedder_model = ''intfloat/multilingual-e5-large'', mc_filter_failure = True\<rparr>"

definition default_decay_config :: decay_config where
  "default_decay_config =
     \<lparr>dc_enabled = True, dc_half_life_days = 90, dc_prune_threshold = 1 / 10,
      dc_cleanup_interval_s = 3600\<rparr>"

definition default_learning_config :: learning_config where
  "default_learning_config =
     \<lparr>lc_enabled = True, lc_mining_interval_s = 300, lc_rule_mining = True,
      lc_allowlist_mining = True, lc_decay = default_decay_config\<rparr>"

definition default_rate_limit_config :: rate_limit_config where
  "default_rate_limit_config = \<lparr>rl_gui = 30, rl_terminal = 10, rl_other = 60\<rparr>"

definition default_integrations_config :: integrations_config where
  "default_integrations_config =
     \<lparr>ic_enabled = [], ic_binary_overrides = [], ic_mako_app_name = ''hyprland-agent'',
      ic_voice = \<lparr>vc_enabled = False\<rparr>\<rparr>"

definition default_context_config :: context_config where
  "default_context_config = \<lparr>cc_budget_tokens = 160000, cc_keep_rounds = 3\<rparr>"

definition default_agent_config :: "string \<Rightarrow> agent_config" where
  "default_agent_config path =
     \<lparr>ag_brain = default_brain_config, ag_memory = default_memory_config,
      ag_learning = default_learning_config, ag_rate_limit = default_rate_limit_config,
      ag_terminal = \<lparr>tc_capture_cap_kb = 64\<rparr>, ag_integrations = default_integrations_config,
      ag_context = default_context_config, ag_audit_log = False, ag_path = path\<rparr>"

definition is_enabled :: "brain_config \<Rightarrow> string \<Rightarrow> bool" where
  "is_enabled cfg provider = dget_or (bc_providers cfg) provider False"

section \<open>Value conversions\<close>

fun py_str :: "(json \<Rightarrow> string) \<Rightarrow> json \<Rightarrow> string" where
  "py_str other (JStr s) = s"
| "py_str other (JInt i) = int_str i"
| "py_str other (JBool b) = (if b then ''True'' else ''False'')"
| "py_str other JNull = ''None''"
| "py_str other v = other v"

fun py_float :: "(string \<Rightarrow> real option) \<Rightarrow> json \<Rightarrow> real res" where
  "py_float flt (JFloat r) = Inr r"
| "py_float flt (JInt i) = Inr (of_int i)"
| "py_float flt (JBool b) = Inr (if b then 1 else 0)"
| "py_float flt (JStr s) = (case flt s of
      None \<Rightarrow> Inl (ValueError ''could not convert string to float'') | Some r \<Rightarrow> Inr r)"
| "py_float flt _ = Inl (TypeError ''float() argument must be a string or a real number'')"

text \<open>\<open>raw = data.get(key, {}) or {}\<close>, which must be a mapping.\<close>

definition subsection_of :: "params \<Rightarrow> string \<Rightarrow> string \<Rightarrow> params res" where
  "subsection_of data key name =
     (case jor (dget_or data key (JObj [])) (JObj []) of
        JObj d \<Rightarrow> Inr d
      | _ \<Rightarrow> Inl (ConfigError (name @ '' must be a mapping'')))"

definition clamp_int :: "params \<Rightarrow> string \<Rightarrow> int \<Rightarrow> int \<Rightarrow> int option \<Rightarrow> int res" where
  "clamp_int raw key dflt lo hi =
     rbind (py_int (dget_or raw key (JInt dflt))) (\<lambda>value.
       if value < lo
       then Inl (ConfigError (key @ '' must be >= '' @ int_str lo @ '', got '' @ int_str value))
       else case hi of
         None \<Rightarrow> Inr value
       | Some h \<Rightarrow>
           if value > h
           then Inl (ConfigError (key @ '' must be <= '' @ int_str h @ '', got '' @ int_str value))
           else Inr value)"

section \<open>Section loaders\<close>

fun normalize_provider :: "json \<Rightarrow> string res" where
  "normalize_provider (JStr name) =
     (let provider = dget_or brain_aliases (lower name) (lower name)
      in if provider \<in> set known_providers then Inr provider
         else Inl (ConfigError (''Unknown provider '' @ repr_str name)))"
| "normalize_provider _ = Inl (ConfigError ''Provider names must be strings'')"

declare normalize_provider.simps [simp del]

fun provider_flags :: "bool dict \<Rightarrow> params \<Rightarrow> bool dict res" where
  "provider_flags en [] = Inr en"
| "provider_flags en ((name, cfg) # rest) =
     rbind (normalize_provider (JStr name)) (\<lambda>provider.
       case cfg of
         JBool b \<Rightarrow> provider_flags (AList.update provider b en) rest
       | JObj d \<Rightarrow>
           (case dget_or d ''enabled'' (JBool True) of
              JBool b \<Rightarrow> provider_flags (AList.update provider b en) rest
            | _ \<Rightarrow> Inl (ConfigError (''brain.providers.'' @ name @ ''.enabled must be true or false'')))
       | _ \<Rightarrow> Inl (ConfigError (''brain.providers.'' @ name @ '' must be a mapping or boolean'')))"

definition load_brain_config :: "params \<Rightarrow> brain_config res" where
  "load_brain_config data =
     rbind (subsection_of data ''brain'' ''brain'') (\<lambda>raw.
     rbind (case dget_or raw ''default'' (JStr ''auto'') of
              JStr d \<Rightarrow> (if lower d = ''auto'' then Inr ''auto''
                          else normalize_provider (JStr (lower d)))
            | _ \<Rightarrow> Inl (ConfigError ''brain.default must be a string'')) (\<lambda>dflt.
     rbind (case dget_or raw ''auto_order'' (JList (map JStr known_providers)) of
              JList items \<Rightarrow> rmap normalize_provider items
            | _ \<Rightarrow> Inl (ConfigError ''brain.auto_order must be a list'')) (\<lambda>order.
       if dedup order = []
       then Inl (ConfigError ''brain.auto_order must contain at least one provider'')
       else
     rbind (subsection_of raw ''providers'' ''brain.providers'') (\<lambda>raw_providers.
     rbind (provider_flags all_enabled raw_providers) (\<lambda>en.
     Inr \<lparr>bc_default = dflt, bc_auto_order = dedup order, bc_providers = en\<rparr>)))))"

definition load_memory_config :: "(json \<Rightarrow> string) \<Rightarrow> params \<Rightarrow> memory_config res" where
  "load_memory_config other data =
     rbind (subsection_of data ''memory'' ''memory'') (\<lambda>raw.
     rbind (clamp_int raw ''recall_k'' 3 1 None) (\<lambda>k.
     Inr \<lparr>mc_enabled = truthy (dget_or raw ''enabled'' (JBool True)),
          mc_recall_k = k,
          mc_embedder_model =
            py_str other (dget_or raw ''embedder_model'' (JStr ''intfloat/multilingual-e5-large'')),
          mc_filter_failure = truthy (dget_or raw ''filter_failure_in_recall'' (JBool True))\<rparr>))"

definition load_decay_config :: "(string \<Rightarrow> real option) \<Rightarrow> params \<Rightarrow> decay_config res" where
  "load_decay_config flt raw_parent =
     rbind (subsection_of raw_parent ''decay'' ''learning.decay'') (\<lambda>raw.
     rbind (py_float flt (dget_or raw ''prune_threshold'' (JFloat (1 / 10)))) (\<lambda>prune.
       if prune < 0 \<or> prune > 1
       then Inl (ConfigError ''learning.decay.prune_threshold must be 0.0..1.0'')
       else
     rbind (clamp_int raw ''half_life_days'' 90 1 None) (\<lambda>half.
     rbind (clamp_int raw ''cleanup_interval_s'' 3600 1 None) (\<lambda>cleanup.
     Inr \<lparr>dc_enabled = truthy (dget_or raw ''enabled'' (JBool True)),
          dc_half_life_days = half, dc_prune_threshold = prune,
          dc_cleanup_interval_s = cleanup\<rparr>))))"

definition load_learning_config :: "(string \<Rightarrow> real option) \<Rightarrow> params \<Rightarrow> learning_config res" where
  "load_learning_config flt data =
     rbind (subsection_of data ''learning'' ''learning'') (\<lambda>raw.
     rbind (clamp_int raw ''mining_interval_s'' 300 1 None) (\<lambda>iv.
     rbind (load_decay_config flt raw) (\<lambda>decay.
     Inr \<lparr>lc_enabled = truthy (dget_or raw ''enabled'' (JBool True)),
          lc_mining_interval_s = iv,
          lc_rule_mining = truthy (dget_or raw ''rule_mining_enabled'' (JBool True)),
          lc_allowlist_mining = truthy (dget_or raw ''allowlist_mining_enabled'' (JBool True)),
          lc_decay = decay\<rparr>)))"

definition load_rate_limit_config :: "params \<Rightarrow> rate_limit_config res" where
  "load_rate_limit_config data =
     rbind (subsection_of data ''rate_limit'' ''rate_limit'') (\<lambda>raw.
     rbind (clamp_int raw ''gui_actions_per_minute'' 30 0 None) (\<lambda>gui.
     rbind (clamp_int raw ''terminal_commands_per_minute'' 10 0 None) (\<lambda>term.
     rbind (clamp_int raw ''other_actions_per_minute'' 60 0 None) (\<lambda>oth.
     Inr \<lparr>rl_gui = gui, rl_terminal = term, rl_other = oth\<rparr>))))"

definition load_terminal_config :: "params \<Rightarrow> terminal_config res" where
  "load_terminal_config data =
     rbind (subsection_of data ''terminal'' ''terminal'') (\<lambda>raw.
     rbind (clamp_int raw ''capture_cap_kb'' 64 1 None) (\<lambda>cap.
     Inr \<lparr>tc_capture_cap_kb = cap\<rparr>))"

definition load_integrations_config :: "(json \<Rightarrow> string) \<Rightarrow> params \<Rightarrow> integrations_config res" where
  "load_integrations_config other data =
     rbind (subsection_of data ''integrations'' ''integrations'') (\<lambda>raw.
       case List.find (\<lambda>kv. fst kv \<notin> {''enabled'', ''binary_overrides'', ''mako_app_name'', ''voice''}) raw of
         Some (key, _) \<Rightarrow>
           Inl (ConfigError (''integrations.'' @ repr_str key @ '' is not a recognised key''))
       | None \<Rightarrow>
     rbind (case dget_or raw ''enabled'' (JList []) of
              JList es \<Rightarrow> Inr (map (py_str other) es)
            | _ \<Rightarrow> Inl (ConfigError ''integrations.enabled must be a list of integration names''))
       (\<lambda>enabled.
     rbind (subsection_of raw ''binary_overrides'' ''integrations.binary_overrides'') (\<lambda>ovr.
     rbind (subsection_of raw ''voice'' ''integrations.voice'') (\<lambda>raw_voice.
     Inr \<lparr>ic_enabled = enabled,
          ic_binary_overrides = map (\<lambda>(k, v). (k, py_str other v)) ovr,
          ic_mako_app_name = py_str other (dget_or raw ''mako_app_name'' (JStr ''hyprland-agent'')),
          ic_voice = \<lparr>vc_enabled = truthy (dget_or raw_voice ''enabled'' (JBool False))\<rparr>\<rparr>))))"

definition load_context_config :: "params \<Rightarrow> context_config res" where
  "load_context_config data =
     rbind (subsection_of data ''context'' ''context'') (\<lambda>raw.
     rbind (clamp_int raw ''budget_tokens'' 160000 1 None) (\<lambda>budget.
     rbind (clamp_int raw ''keep_rounds'' 3 0 None) (\<lambda>keep.
     Inr \<lparr>cc_budget_tokens = budget, cc_keep_rounds = keep\<rparr>)))"

definition read_mapping :: "string \<Rightarrow> json option \<Rightarrow> params res" where
  "read_mapping path file = (case file of
      None \<Rightarrow> Inr []
    | Some v \<Rightarrow> (case jor v (JObj []) of
        JObj d \<Rightarrow> Inr d
      | _ \<Rightarrow> Inl (ConfigError (path @ '' must contain a YAML mapping''))))"

definition load_config ::
  "(json \<Rightarrow> string) \<Rightarrow> (string \<Rightarrow> real option) \<Rightarrow> string \<Rightarrow> json option \<Rightarrow> agent_config res" where
  "load_config other flt path file =
     rbind (read_mapping path file) (\<lambda>data.
     rbind (case dget_or data ''audit_log'' (JBool False) of
              JBool b \<Rightarrow> Inr b
            | _ \<Rightarrow> Inl (ConfigError ''audit_log must be true or false'')) (\<lambda>audit.
     rbind (load_brain_config data) (\<lambda>brain.
     rbind (load_memory_config other data) (\<lambda>memory.
     rbind (load_learning_config flt data) (\<lambda>learning.
     rbind (load_rate_limit_config data) (\<lambda>rate.
     rbind (load_terminal_config data) (\<lambda>terminal.
     rbind (load_integrations_config other data) (\<lambda>integ.
     rbind (load_context_config data) (\<lambda>context.
     Inr \<lparr>ag_brain = brain, ag_memory = memory, ag_learning = learning,
          ag_rate_limit = rate, ag_terminal = terminal, ag_integrations = integ,
          ag_context = context, ag_audit_log = audit, ag_path = path\<rparr>)))))))))"

section \<open>What a loaded configuration guarantees\<close>

definition brain_config_ok :: "brain_config \<Rightarrow> bool" where
  "brain_config_ok b \<longleftrightarrow>
     (bc_default b = ''auto'' \<or> bc_default b \<in> set known_providers) \<and>
     bc_auto_order b \<noteq> [] \<and> distinct (bc_auto_order b) \<and>
     set (bc_auto_order b) \<subseteq> set known_providers \<and>
     fst ` set (bc_providers b) = set known_providers"

definition config_ok :: "agent_config \<Rightarrow> bool" where
  "config_ok c \<longleftrightarrow>
     brain_config_ok (ag_brain c) \<and>
     1 \<le> mc_recall_k (ag_memory c) \<and>
     1 \<le> lc_mining_interval_s (ag_learning c) \<and>
     1 \<le> dc_half_life_days (lc_decay (ag_learning c)) \<and>
     0 \<le> dc_prune_threshold (lc_decay (ag_learning c)) \<and>
     dc_prune_threshold (lc_decay (ag_learning c)) \<le> 1 \<and>
     1 \<le> dc_cleanup_interval_s (lc_decay (ag_learning c)) \<and>
     0 \<le> rl_gui (ag_rate_limit c) \<and> 0 \<le> rl_terminal (ag_rate_limit c) \<and>
     0 \<le> rl_other (ag_rate_limit c) \<and>
     1 \<le> tc_capture_cap_kb (ag_terminal c) \<and>
     1 \<le> cc_budget_tokens (ag_context c) \<and> 0 \<le> cc_keep_rounds (ag_context c)"

lemma clamp_int_bounds:
  "clamp_int raw key d lo hi = Inr v \<Longrightarrow> lo \<le> v \<and> (\<forall>h. hi = Some h \<longrightarrow> v \<le> h)"
  by (auto simp: clamp_int_def split: if_splits option.splits)

lemma normalize_provider_known: "normalize_provider v = Inr p \<Longrightarrow> p \<in> set known_providers"
  by (cases v) (auto simp: normalize_provider.simps Let_def split: if_splits)

lemma normalize_provider_canonical:
  "p \<in> set known_providers \<Longrightarrow> normalize_provider (JStr p) = Inr p"
proof -
  have "list_all (\<lambda>p. normalize_provider (JStr p) = Inr p) known_providers"
    by code_simp
  then show "p \<in> set known_providers \<Longrightarrow> normalize_provider (JStr p) = Inr p"
    by (simp add: list_all_iff)
qed

lemma brain_aliases_known: "snd ` set brain_aliases \<subseteq> set known_providers"
  by (simp add: brain_aliases_def known_providers_def)

lemma provider_flags_dom:
  "provider_flags en ps = Inr en' \<Longrightarrow> fst ` set en = set known_providers \<Longrightarrow>
   fst ` set en' = set known_providers"
proof (induction en ps arbitrary: en' rule: provider_flags.induct)
  case (2 en name cfg rest)
  from "2.prems"(1) obtain p where p: "normalize_provider (JStr name) = Inr p" by auto
  then have upd: "fst ` set (AList.update p b en) = set known_providers" for b
    using "2.prems"(2) normalize_provider_known[OF p] dom_update[of p b en] by auto
  show ?case
  proof (cases cfg)
    case (JObj d)
    with 2 p upd show ?thesis
      by (cases "dget_or d ''enabled'' (JBool True)") (auto simp: p)
  qed (use 2 p upd in auto)
qed auto

lemma load_brain_config_ok: "load_brain_config data = Inr b \<Longrightarrow> brain_config_ok b"
proof -
  assume a: "load_brain_config data = Inr b"
  then obtain raw dflt order rp en where
    d: "(case dget_or raw ''default'' (JStr ''auto'') of
           JStr d \<Rightarrow> (if lower d = ''auto'' then Inr ''auto'' else normalize_provider (JStr (lower d)))
         | _ \<Rightarrow> Inl (ConfigError ''brain.default must be a string'')) = Inr dflt"
    and o: "(case dget_or raw ''auto_order'' (JList (map JStr known_providers)) of
              JList items \<Rightarrow> rmap normalize_provider items
            | _ \<Rightarrow> Inl (ConfigError ''brain.auto_order must be a list'')) = Inr order"
    and ne: "order \<noteq> []"
    and en: "provider_flags all_enabled rp = Inr en"
    and b: "b = \<lparr>bc_default = dflt, bc_auto_order = dedup order, bc_providers = en\<rparr>"
    by (auto simp: load_brain_config_def split: if_splits)
  have "dflt = ''auto'' \<or> dflt \<in> set known_providers"
    using d by (auto split: json.splits if_splits dest: normalize_provider_known)
  moreover have "set order \<subseteq> set known_providers"
    using o by (auto split: json.splits dest!: rmap_Inr_set normalize_provider_known)
  moreover have "fst ` set en = set known_providers"
    using provider_flags_dom[OF en] by (simp add: all_enabled_def image_image)
  ultimately show ?thesis using ne by (simp add: brain_config_ok_def b)
qed

lemma load_decay_config_ok:
  "load_decay_config flt raw = Inr d \<Longrightarrow>
   1 \<le> dc_half_life_days d \<and> 0 \<le> dc_prune_threshold d \<and> dc_prune_threshold d \<le> 1 \<and>
   1 \<le> dc_cleanup_interval_s d"
  by (auto simp: load_decay_config_def split: if_splits dest!: clamp_int_bounds)

lemma load_config_ok: "load_config other flt path file = Inr c \<Longrightarrow> config_ok c"
  by (auto simp: load_config_def config_ok_def load_memory_config_def load_learning_config_def
      load_rate_limit_config_def load_terminal_config_def load_context_config_def
      dest!: clamp_int_bounds load_brain_config_ok load_decay_config_ok)


lemma subsection_of_empty [simp]: "subsection_of [] key name = Inr []"
  by (simp add: subsection_of_def jor_def)

lemma rmap_normalize_known:
  "set ps \<subseteq> set known_providers \<Longrightarrow> rmap normalize_provider (map JStr ps) = Inr ps"
  by (induction ps) (auto simp: normalize_provider_canonical)

lemma load_config_missing:
  "load_config other flt path None = Inr (default_agent_config path)"
proof -
  have "distinct known_providers" by (simp add: known_providers_def)
  then have dd: "dedup known_providers = known_providers" by (rule dedup_id)
  have lb: "load_brain_config [] = Inr default_brain_config"
    using dd rmap_normalize_known[of known_providers]
    by (simp add: load_brain_config_def default_brain_config_def lower_def lower_char_def ordc_def)
       (simp add: known_providers_def)
  show ?thesis
    by (simp add: load_config_def read_mapping_def lb load_memory_config_def
        load_learning_config_def load_decay_config_def load_rate_limit_config_def
        load_terminal_config_def load_integrations_config_def load_context_config_def clamp_int_def
        default_agent_config_def default_memory_config_def default_learning_config_def
        default_decay_config_def default_rate_limit_config_def default_integrations_config_def
        default_context_config_def)
qed


text \<open>
  Without a configuration file the agent runs on its defaults: loading gives exactly the
  records of the dataclasses' default values, so the loader's own fallbacks agree with them.
\<close>

theorem missing_config_is_default:
  "load_config other flt path None = Inr (default_agent_config path)"
  by (rule load_config_missing)

end
