(* ===== verification/Fnmatch.thy ===== *)
theory Fnmatch
  imports Prelude
begin

text \<open>
  Python's \<open>fnmatch.fnmatch\<close> on a POSIX system (no case folding), which the allowlist
  and the rule matcher call: the shell patterns \<open>*\<close>, \<open>?\<close>, \<open>[seq]\<close> and \<open>[!seq]\<close>,
  with an unclosed bracket standing for itself.  A pattern is parsed into tokens and the
  tokens are matched against the whole string.
\<close>

datatype gtok = GStar | GAny | GLit char | GSet bool "(char \<times> char) list"

text \<open>The ranges of a bracket expression, read from left to right.\<close>

fun class_ranges :: "string \<Rightarrow> (char \<times> char) list" where
  "class_ranges (a # d # b # cs) =
     (if d = CHR ''-'' then (a, b) # class_ranges cs else (a, a) # class_ranges (d # b # cs))"
| "class_ranges (a # cs) = (a, a) # class_ranges cs"
| "class_ranges [] = []"

definition class_tok :: "string \<Rightarrow> gtok" where
  "class_tok stuff = (case stuff of
      [] \<Rightarrow> GSet False []
    | c # cs \<Rightarrow> if c = CHR ''!'' then GSet True (class_ranges cs)
                else GSet False (class_ranges (c # cs)))"

text \<open>
  The text after \<open>[\<close>, split at its closing bracket: a \<open>!\<close> and then a \<open>]\<close> in first
  position belong to the set.
\<close>

definition split_class :: "string \<Rightarrow> (string \<times> string) option" where
  "split_class cs =
     (let n = (if take 1 cs = ''!'' then 1 else 0);
          m = (if take 1 (drop n cs) = '']'' then n + 1 else n);
          body = takeWhile (\<lambda>c. c \<noteq> CHR '']'') (drop m cs)
      in case dropWhile (\<lambda>c. c \<noteq> CHR '']'') (drop m cs) of
           [] \<Rightarrow> None
         | _ # rest \<Rightarrow> Some (take m cs @ body, rest))"

lemma split_class_shorter:
  assumes "split_class cs = Some (stuff, rest)"
  shows "length rest < length cs"
proof -
  obtain m c where "dropWhile (\<lambda>c. c \<noteq> CHR '']'') (drop m cs) = c # rest"
    using assms by (auto simp: split_class_def Let_def split: list.splits if_splits)
  then have "length (c # rest) \<le> length (drop m cs)"
    by (metis length_dropWhile_le)
  then show ?thesis by simp
qed

function parse_glob :: "string \<Rightarrow> gtok list" where
  "parse_glob [] = []"
| "parse_glob (c # cs) =
     (if c = CHR ''*'' then GStar # parse_glob cs
      else if c = CHR ''?'' then GAny # parse_glob cs
      else if c = CHR ''['' then
        (case split_class cs of
           None \<Rightarrow> GLit c # parse_glob cs
         | Some (stuff, rest) \<Rightarrow> class_tok stuff # parse_glob rest)
      else GLit c # parse_glob cs)"
  by pat_completeness auto
termination
  by (relation "measure length") (auto dest: split_class_shorter)

fun tok_ok :: "gtok \<Rightarrow> char \<Rightarrow> bool" where
  "tok_ok GStar c = False"
| "tok_ok GAny c = True"
| "tok_ok (GLit d) c = (c = d)"
| "tok_ok (GSet neg rs) c = (neg \<noteq> (\<exists>(a, b) \<in> set rs. ordc a \<le> ordc c \<and> ordc c \<le> ordc b))"

fun glob_match :: "gtok list \<Rightarrow> string \<Rightarrow> bool" where
  "glob_match [] s = (s = [])"
| "glob_match (GStar # ts) [] = glob_match ts []"
| "glob_match (GStar # ts) (c # cs) = (glob_match ts (c # cs) \<or> glob_match (GStar # ts) cs)"
| "glob_match (t # ts) [] = False"
| "glob_match (t # ts) (c # cs) = (tok_ok t c \<and> glob_match ts cs)"

definition fnmatch :: "string \<Rightarrow> string \<Rightarrow> bool" where
  "fnmatch name pat = glob_match (parse_glob pat) name"

section \<open>The meaning of a pattern\<close>

text \<open>
  Reference semantics: the strings of a token list are the concatenations of what its
  tokens stand for, any string for a star and one accepted character otherwise.
\<close>

inductive glob_lang :: "gtok list \<Rightarrow> string \<Rightarrow> bool" where
  gl_nil: "glob_lang [] []"
| gl_star: "glob_lang ts s \<Longrightarrow> glob_lang (GStar # ts) (u @ s)"
| gl_tok: "tok_ok t c \<Longrightarrow> glob_lang ts s \<Longrightarrow> glob_lang (t # ts) (c # s)"

inductive_cases glob_lang_NilE: "glob_lang [] s"
inductive_cases glob_lang_ConsE: "glob_lang (t # ts) s"
inductive_simps glob_lang_Nil_iff: "glob_lang [] s"

lemma glob_match_star_append: "glob_match ts s \<Longrightarrow> glob_match (GStar # ts) (u @ s)"
proof (induction u)
  case Nil
  then show ?case by (cases s) auto
qed auto

lemma glob_lang_match: "glob_lang ts s \<Longrightarrow> glob_match ts s"
proof (induction rule: glob_lang.induct)
  case (gl_tok t c ts s)
  then show ?case by (cases t) auto
qed (auto intro: glob_match_star_append)

lemma glob_match_lang: "glob_match ts s \<Longrightarrow> glob_lang ts s"
proof (induction ts s rule: glob_match.induct)
  case (2 ts)
  then show ?case using gl_star[of ts "[]" "[]"] by simp
next
  case (3 ts c cs)
  show ?case
  proof (cases "glob_match ts (c # cs)")
    case True
    with 3 show ?thesis using gl_star[of ts "c # cs" "[]"] by simp
  next
    case False
    with 3 have "glob_lang (GStar # ts) cs" by simp
    then obtain u s where "cs = u @ s" "glob_lang ts s"
      by (auto elim: glob_lang_ConsE)
    then show ?thesis using gl_star[of ts s "c # u"] by simp
  qed
qed (auto intro: glob_lang.intros)

lemma glob_match_iff: "glob_match ts s \<longleftrightarrow> glob_lang ts s"
  using glob_match_lang glob_lang_match by blast

section \<open>Patterns the code uses\<close>

lemma parse_glob_star [simp]: "parse_glob ''*'' = [GStar]"
  by simp

lemma fnmatch_star: "fnmatch s ''*''"
  by (simp add: fnmatch_def glob_match_iff) (metis append_Nil2 gl_nil gl_star)

definition plain_char :: "char \<Rightarrow> bool" where
  "plain_char c = (c \<noteq> CHR ''*'' \<and> c \<noteq> CHR ''?'' \<and> c \<noteq> CHR ''['')"

lemma parse_glob_plain: "list_all plain_char p \<Longrightarrow> parse_glob p = map GLit p"
  by (induction p) (auto simp: plain_char_def)

lemma glob_match_literals: "glob_match (map GLit p) s \<longleftrightarrow> s = p"
proof (induction p arbitrary: s)
  case (Cons a p)
  then show ?case by (cases s) auto
qed simp

text \<open>A pattern without meta characters matches exactly itself.\<close>

lemma fnmatch_plain: "list_all plain_char p \<Longrightarrow> fnmatch s p \<longleftrightarrow> s = p"
  by (simp add: fnmatch_def parse_glob_plain glob_match_literals)

lemma parse_glob_append_plain: "list_all plain_char p \<Longrightarrow> parse_glob (p @ q) = map GLit p @ parse_glob q"
  by (induction p) (auto simp: plain_char_def)

lemma glob_match_literals_append:
  "glob_match (map GLit p @ ts) s \<longleftrightarrow> (\<exists>t. s = p @ t \<and> glob_match ts t)"
proof (induction p arbitrary: s)
  case (Cons a p)
  then show ?case by (cases s) auto
qed simp

text \<open>\<open>prefix*\<close> matches the strings that start with the prefix.\<close>

lemma fnmatch_prefix_star:
  assumes "list_all plain_char p"
  shows "fnmatch s (p @ ''*'') \<longleftrightarrow> prefix p s"
  using assms fnmatch_star[unfolded fnmatch_def]
  by (auto simp: fnmatch_def parse_glob_append_plain glob_match_literals_append prefix_def)

end
