(* ===== verification/Safety.thy ===== *)
theory Safety
  imports Schemas Fnmatch
begin

text \<open>
  The safety gates of \<open>src/src/agent/safety\<close>: the window allowlist with its miss counter
  (\<open>allowlist.py\<close>), the confirmation gate (\<open>confirm.py\<close>) and the kill switch flag
  (\<open>killswitch.py\<close>).  \<open>yaml.safe_load\<close> is not under \<open>src/\<close>: the allowlist file is
  given by the value it parses to, \<open>None\<close> when the file does not exist.
\<close>

section \<open>Allowlist\<close>

definition always_deny :: "string list" where
  "always_deny = [''1password'', ''_1password'', ''keepassxc'', ''gnome-keyring'']"

text \<open>The miss counter: \<open>Counter[(app_class, title)]\<close>.\<close>

type_synonym misses = "((string \<times> string) \<times> nat) list"

definition count_miss :: "window \<Rightarrow> misses \<Rightarrow> misses" where
  "count_miss w m =
     (let k = (win_class w, win_title w)
      in AList.update k (Suc (case map_of m k of None \<Rightarrow> 0 | Some n \<Rightarrow> n)) m)"

definition drain_misses :: "misses \<Rightarrow> misses \<times> misses" where
  "drain_misses m = (m, [])"

definition load_rules :: "json option \<Rightarrow> json res" where
  "load_rules file = (case file of
      None \<Rightarrow> Inr (JList [])
    | Some v \<Rightarrow>
        (case (if truthy v then v else JObj []) of
           JObj d \<Rightarrow> Inr (dget_or d ''allow'' (JList []))
         | _ \<Rightarrow> Inl (AttributeError ''get'')))"

fun lower_pat :: "json \<Rightarrow> string res" where
  "lower_pat (JStr s) = Inr (lower s)"
| "lower_pat _ = Inl (AttributeError ''lower'')"

fun rule_hit :: "window \<Rightarrow> json \<Rightarrow> bool res" where
  "rule_hit w (JObj r) =
     rbind (lower_pat (dget_or r ''class'' (JStr ''*''))) (\<lambda>cp.
       if fnmatch (lower (win_class w)) cp
       then rbind (lower_pat (dget_or r ''title'' (JStr ''*''))) (\<lambda>tp.
              Inr (fnmatch (lower (win_title w)) tp))
       else Inr False)"
| "rule_hit w _ = Inl (AttributeError ''get'')"

fun any_rule_hit :: "window \<Rightarrow> json list \<Rightarrow> bool res" where
  "any_rule_hit w [] = Inr False"
| "any_rule_hit w (r # rs) =
     rbind (rule_hit w r) (\<lambda>b. if b then Inr True else any_rule_hit w rs)"

fun iter_rules :: "json \<Rightarrow> json list res" where
  "iter_rules (JList rs) = Inr rs"
| "iter_rules (JObj d) = Inr (map (\<lambda>kv. JStr (fst kv)) d)"
| "iter_rules (JStr s) = Inr (map (\<lambda>c. JStr [c]) s)"
| "iter_rules _ = Inl (TypeError ''not iterable'')"

definition is_allowed :: "json option \<Rightarrow> window \<Rightarrow> misses \<Rightarrow> bool res \<times> misses" where
  "is_allowed file w m =
     (if lower (win_class w) \<in> set always_deny then (Inr False, m)
      else case load_rules file of
        Inl e \<Rightarrow> (Inl e, m)
      | Inr rules \<Rightarrow>
          if \<not> truthy rules then (Inr False, count_miss w m)
          else case rbind (iter_rules rules) (any_rule_hit w) of
                 Inl e \<Rightarrow> (Inl e, m)
               | Inr True \<Rightarrow> (Inr True, m)
               | Inr False \<Rightarrow> (Inr False, count_miss w m))"

definition default_allowlist :: json where
  "default_allowlist = JObj [(''allow'', JList [])]"

definition create_default_config :: "json option \<Rightarrow> json option" where
  "create_default_config file = (case file of None \<Rightarrow> Some default_allowlist | Some v \<Rightarrow> Some v)"

subsection \<open>Properties of the allowlist\<close>

lemma any_rule_hit_True:
  "any_rule_hit w rs = Inr True \<Longrightarrow> \<exists>r\<in>set rs. rule_hit w r = Inr True"
  by (induction rs) (auto split: if_splits)

lemma any_rule_hit_False:
  "any_rule_hit w rs = Inr False \<Longrightarrow> \<forall>r\<in>set rs. rule_hit w r = Inr False"
  by (induction rs) (auto split: if_splits)

lemma is_allowed_True_cases:
  assumes "is_allowed file w m = (Inr True, m')"
  obtains rules rs r where
    "lower (win_class w) \<notin> set always_deny" "load_rules file = Inr rules"
    "iter_rules rules = Inr rs" "r \<in> set rs" "rule_hit w r = Inr True" "m' = m"
  using assms
  by (auto simp: is_allowed_def split: if_splits sum.splits bool.splits dest!: any_rule_hit_True)

text \<open>The wildcard entry admits every window that is not always denied.\<close>

lemma is_allowed_wildcard:
  "lower (win_class w) \<notin> set always_deny \<Longrightarrow>
   is_allowed (Some (JObj [(''allow'', JList (JObj [] # rs))])) w m = (Inr True, m)"
  by (simp add: is_allowed_def load_rules_def lower_def lower_char_def ordc_def fnmatch_star)

text \<open>The counter never holds an always-denied class.\<close>

definition misses_ok :: "misses \<Rightarrow> bool" where
  "misses_ok m \<longleftrightarrow> (\<forall>k\<in>fst ` set m. lower (fst k) \<notin> set always_deny)"

lemma is_allowed_counter:
  "snd (is_allowed file w m) = m \<or>
   snd (is_allowed file w m) = count_miss w m \<and> lower (win_class w) \<notin> set always_deny"
  by (auto simp: is_allowed_def split: sum.splits bool.splits)

lemma count_miss_keys: "fst ` set (count_miss w m) = insert (win_class w, win_title w) (fst ` set m)"
  by (simp add: count_miss_def Let_def dom_update)

lemma is_allowed_misses:
  "fst ` set (snd (is_allowed file w m)) \<subseteq> insert (win_class w, win_title w) (fst ` set m) \<and>
   (misses_ok m \<longrightarrow> misses_ok (snd (is_allowed file w m)))"
proof (cases "snd (is_allowed file w m) = m")
  case False
  then have s: "snd (is_allowed file w m) = count_miss w m" and "lower (win_class w) \<notin> set always_deny"
    using is_allowed_counter[of "file" w m] by simp_all
  then show ?thesis unfolding s misses_ok_def count_miss_keys by simp
qed auto

lemma is_allowed_misses_other:
  "(win_class w, win_title w) \<noteq> k \<Longrightarrow> map_of (snd (is_allowed file w m)) k = map_of m k"
  by (auto simp: is_allowed_def count_miss_def Let_def update_conv' split: sum.splits bool.splits)

text \<open>An allowlist file as the user writes it: one class and title pattern per entry.\<close>

definition allow_file :: "(string \<times> string) list \<Rightarrow> json option" where
  "allow_file ps = Some (JObj [(''allow'', JList (map (\<lambda>(c, t).
     JObj [(''class'', JStr c), (''title'', JStr t)]) ps))])"

lemma any_rule_hit_patterns:
  "any_rule_hit w (map (\<lambda>(c, t). JObj [(''class'', JStr c), (''title'', JStr t)]) ps) =
   Inr (\<exists>(c, t) \<in> set ps. fnmatch (lower (win_class w)) (lower c) \<and>
                           fnmatch (lower (win_title w)) (lower t))"
proof (induction ps)
  case (Cons p ps)
  then show ?case by (cases p) auto
qed simp

lemma is_allowed_patterns:
  "is_allowed (allow_file ps) w m =
     (if lower (win_class w) \<in> set always_deny then (Inr False, m)
      else if \<exists>(c, t) \<in> set ps. glob_lang (parse_glob (lower c)) (lower (win_class w)) \<and>
                              glob_lang (parse_glob (lower t)) (lower (win_title w))
      then (Inr True, m) else (Inr False, count_miss w m))"
proof (cases ps)
  case Nil
  then show ?thesis by (simp add: is_allowed_def allow_file_def load_rules_def)
next
  case (Cons p ps')
  then have ne: "ps \<noteq> []" by simp
  have lr: "load_rules (allow_file ps) =
      Inr (JList (map (\<lambda>(c, t). JObj [(''class'', JStr c), (''title'', JStr t)]) ps))"
    by (simp add: allow_file_def load_rules_def)
  have hit: "any_rule_hit w (map (\<lambda>(c, t). JObj [(''class'', JStr c), (''title'', JStr t)]) ps) =
      Inr (\<exists>(c, t) \<in> set ps. glob_lang (parse_glob (lower c)) (lower (win_class w)) \<and>
                              glob_lang (parse_glob (lower t)) (lower (win_title w)))" (is "_ = Inr ?H")
    by (simp add: any_rule_hit_patterns fnmatch_def glob_match_iff)
  show ?thesis
    using ne hit by (cases ?H) (simp_all add: is_allowed_def lr del: split_paired_Ex)
qed


text \<open>
  Nothing is admitted without a reason: whatever value the allowlist file parses to, when
  a window is admitted its class is not always denied, the file exists and is a mapping, and
  some entry of its \<open>allow\<close> list hits the window.
\<close>

theorem allowed_has_a_rule:
  assumes "fst (is_allowed file w m) = Inr True"
  shows "lower (win_class w) \<notin> set always_deny \<and>
         (\<exists>d rs r. file = Some (JObj d) \<and>
            iter_rules (dget_or d ''allow'' (JList [])) = Inr rs \<and>
            r \<in> set rs \<and> rule_hit w r = Inr True) \<and>
         snd (is_allowed file w m) = m"
proof -
  obtain m' where a: "is_allowed file w m = (Inr True, m')"
    using assms by (cases "is_allowed file w m") auto
  then obtain rules rs r where
    r: "lower (win_class w) \<notin> set always_deny" "load_rules file = Inr rules"
      "iter_rules rules = Inr rs" "r \<in> set rs" "rule_hit w r = Inr True" "m' = m"
    by (rule is_allowed_True_cases)
  have "\<exists>d. file = Some (JObj d) \<and> rules = dget_or d ''allow'' (JList [])"
    using r(2-4) by (auto simp: load_rules_def split: option.splits json.splits if_splits)
  with r a show ?thesis by auto
qed

theorem allowed_has_a_rule_witness:
  "\<exists>w d r. allow_file [(''Kitty'', ''*'')] = Some (JObj d) \<and> win_class w = ''kitty'' \<and>
     dget_or d ''allow'' (JList []) = JList [r] \<and> rule_hit w r = Inr True"
proof -
  let ?w = "\<lparr>win_address = ''0x1'', win_title = ''zsh'', win_class = ''kitty'', win_workspace_id = 1,
     win_at = (0, 0), win_size = (1, 1), win_floating = False, win_hidden = False, win_pid = 1,
     win_monitor = 0\<rparr>"
  have "fst (is_allowed (allow_file [(''Kitty'', ''*'')]) ?w []) = Inr True"
    by code_simp
  from allowed_has_a_rule[OF this] show ?thesis
    by (intro exI[of _ ?w]) (auto simp: allow_file_def)
qed

section \<open>Confirmation gate\<close>

definition destructive_dispatch :: "string list" where
  "destructive_dispatch = [''killactive'', ''closewindow'', ''exit'', ''forcerendererreload'']"

definition is_destructive_dispatch :: "string \<Rightarrow> bool" where
  "is_destructive_dispatch cmd =
     (let first_word = (case words (strip cmd) of [] \<Rightarrow> [] | w # _ \<Rightarrow> lower w)
      in first_word \<in> set destructive_dispatch)"

text \<open>\<open>readline\<close> returned a line, or raised \<open>EOFError\<close> (\<open>None\<close>).\<close>

definition confirm :: "string option \<Rightarrow> bool" where
  "confirm answer = (case answer of
      None \<Rightarrow> False
    | Some line \<Rightarrow> lower (strip line) \<in> {''y'', ''yes''})"

lemma confirm_eof [simp]: "\<not> confirm None"
  by (simp add: confirm_def)

lemma confirm_empty_line: "list_all is_space line \<Longrightarrow> \<not> confirm (Some line)"
proof -
  assume "list_all is_space line"
  then have "dropWhile is_space line = []" by (simp add: list_all_iff)
  then show ?thesis
    by (simp add: confirm_def strip_def lower_def del: dropWhile_eq_Nil_conv)
qed

section \<open>Kill switch\<close>

text \<open>The existence of \<open>CACHE_DIR/STOP\<close>.\<close>

type_synonym stop_flag = bool

definition is_stopped :: "stop_flag \<Rightarrow> bool" where "is_stopped f = f"
definition arm :: "stop_flag \<Rightarrow> stop_flag" where "arm f = True"
definition disarm :: "stop_flag \<Rightarrow> stop_flag" where "disarm f = False"
definition ensure_disarmed :: "stop_flag \<Rightarrow> stop_flag" where "ensure_disarmed f = disarm f"

lemma killswitch_simps [simp]:
  "is_stopped (arm f)" "\<not> is_stopped (disarm f)" "\<not> is_stopped (ensure_disarmed f)"
  by (simp_all add: is_stopped_def arm_def disarm_def ensure_disarmed_def)

end
