(* ===== verification/Tools.thy ===== *)
theory Tools
  imports Config Safety
begin

text \<open>
  The tool layer, \<open>src/src/agent/tools\<close>: keyboard and mouse command lines (\<open>input.py\<close>),
  event lines (\<open>events.py\<close>), Hyprland requests (\<open>hypr.py\<close>), file access
  (\<open>filesystem.py\<close>), agent-owned terminals (\<open>terminal.py\<close>) and subprocess results
  (\<open>_proc.py\<close>).  What the operating system answers (resolved paths, directory walks,
  process exits, socket replies) and what pydantic validates are arguments.
\<close>

section \<open>Subprocesses\<close>

record proc_result =
  pr_returncode :: int
  pr_stdout :: string
  pr_stderr :: string

text \<open>What \<open>proc.communicate\<close> under \<open>wait_for\<close> gave: a timeout, or the process's exit.\<close>

datatype proc_wait = Timed_out | Exited "int option" "string option" "string option"

definition safe_env :: "string dict \<Rightarrow> string dict" where
  "safe_env env = filter (\<lambda>kv. fst kv \<in> set env_whitelist) env"

definition proc_run :: "string list \<Rightarrow> proc_wait \<Rightarrow> proc_result res" where
  "proc_run argv w = (case w of
      Timed_out \<Rightarrow> Inl (RuntimeError ((case argv of [] \<Rightarrow> [] | a # _ \<Rightarrow> a) @ '' timed out''))
    | Exited code out err \<Rightarrow>
        Inr \<lparr>pr_returncode = (case code of None \<Rightarrow> 0 | Some c \<Rightarrow> c),
             pr_stdout = (case out of None \<Rightarrow> [] | Some s \<Rightarrow> s),
             pr_stderr = (case err of None \<Rightarrow> [] | Some s \<Rightarrow> s)\<rparr>)"

text \<open>\<open>input._run\<close>: a non-zero exit raises.\<close>

definition run_checked :: "string list \<Rightarrow> proc_wait \<Rightarrow> unit res" where
  "run_checked argv w = rbind (proc_run argv w) (\<lambda>r.
     if pr_returncode r \<noteq> 0
     then Inl (RuntimeError ((case argv of [] \<Rightarrow> [] | a # _ \<Rightarrow> a) @ '' failed: '' @ pr_stderr r))
     else Inr ())"

lemma safe_env_whitelisted: "k \<in> fst ` set (safe_env env) \<Longrightarrow> k \<in> set env_whitelist"
  by (auto simp: safe_env_def)

lemma dget_safe_env: "dget (safe_env env) k = (if k \<in> set env_whitelist then dget env k else None)"
  by (induction env) (auto simp: safe_env_def)

section \<open>Keyboard and mouse\<close>

definition modifiers :: "string dict" where
  "modifiers = [(''ctrl'', ''ctrl''), (''shift'', ''shift''), (''alt'', ''alt''),
                (''super'', ''super''), (''meta'', ''super'')]"

definition key_names :: "string dict" where
  "key_names =
     [(''enter'', ''Return''), (''return'', ''Return''), (''tab'', ''Tab''),
      (''escape'', ''Escape''), (''esc'', ''Escape''), (''backspace'', ''BackSpace''),
      (''delete'', ''Delete''), (''del'', ''Delete''), (''space'', ''space''),
      (''up'', ''Up''), (''down'', ''Down''), (''left'', ''Left''), (''right'', ''Right''),
      (''home'', ''Home''), (''end'', ''End''), (''pageup'', ''Prior''), (''page_up'', ''Prior''),
      (''pagedown'', ''Next''), (''page_down'', ''Next''), (''insert'', ''Insert''),
      (''f1'', ''F1''), (''f2'', ''F2''), (''f3'', ''F3''), (''f4'', ''F4''), (''f5'', ''F5''),
      (''f6'', ''F6''), (''f7'', ''F7''), (''f8'', ''F8''), (''f9'', ''F9''), (''f10'', ''F10''),
      (''f11'', ''F11''), (''f12'', ''F12'')]"

definition build_key_args :: "string \<Rightarrow> string list" where
  "build_key_args combo =
     (let parts = split_on CHR ''+'' (lower combo);
          held = map (\<lambda>p. dget_or modifiers p p) (butlast parts);
          key = dget_or key_names (last parts) (last parts)
      in concat (map (\<lambda>m. [''-M'', m]) held) @ [''-P'', key] @
         concat (map (\<lambda>m. [''-m'', m]) (rev held)))"

definition type_text_argv :: "string \<Rightarrow> string list" where
  "type_text_argv text = [''wtype'', ''--'', text]"

definition key_argv :: "string \<Rightarrow> string list" where
  "key_argv combo = ''wtype'' # build_key_args combo"

text \<open>\<open>str\<close> is Python's \<open>str\<close> of a parameter.\<close>

definition move_argv :: "(json \<Rightarrow> string) \<Rightarrow> json \<Rightarrow> json \<Rightarrow> string list" where
  "move_argv str x y =
     [''ydotool'', ''mousemove'', ''--absolute'', ''-x'', py_str str x, ''-y'', py_str str y]"

definition click_argv :: "string \<Rightarrow> string list" where
  "click_argv button =
     [''ydotool'', ''click'',
      dget_or [(''left'', ''0xC0''), (''right'', ''0xC1''), (''middle'', ''0xC2'')] button ''0xC0'']"

definition scroll_argv :: "(json \<Rightarrow> string) \<Rightarrow> json \<Rightarrow> json \<Rightarrow> string list" where
  "scroll_argv str amount horizontal =
     [''ydotool'', ''mousemove'', ''--wheel'', (if truthy horizontal then ''1'' else ''0''),
      py_str str amount]"

text \<open>
  The keyboard as \<open>wtype\<close> drives it: \<open>-M m\<close> holds a modifier, \<open>-m m\<close> releases it, \<open>-P k\<close>
  presses a key under the modifiers then held.
\<close>

fun wtype_run :: "string list \<Rightarrow> (string \<times> string list) list \<Rightarrow> string list
                  \<Rightarrow> (string list \<times> (string \<times> string list) list) option" where
  "wtype_run held pressed [] = Some (held, pressed)"
| "wtype_run held pressed [x] = None"
| "wtype_run held pressed (opt # arg # rest) =
     (if opt = ''-M'' then wtype_run (arg # held) pressed rest
      else if opt = ''-m'' then
        (if arg \<in> set held then wtype_run (remove1 arg held) pressed rest else None)
      else if opt = ''-P'' then wtype_run held (pressed @ [(arg, held)]) rest
      else None)"

lemma wtype_hold:
  "wtype_run held pressed (concat (map (\<lambda>m. [''-M'', m]) ms) @ rest)
   = wtype_run (rev ms @ held) pressed rest"
  by (induction ms arbitrary: held) auto

lemma wtype_release:
  "wtype_run (ms @ held) pressed (concat (map (\<lambda>m. [''-m'', m]) ms)) = Some (held, pressed)"
proof (induction ms)
  case (Cons a ms)
  then show ?case by (cases "concat (map (\<lambda>m. [''-m'', m]) ms)") auto
qed simp

lemma wtype_combo:
  "wtype_run [] [] (concat (map (\<lambda>m. [''-M'', m]) held) @ [''-P'', key] @
     concat (map (\<lambda>m. [''-m'', m]) (rev held))) = Some ([], [(key, rev held)])"
proof -
  have step: "wtype_run h [] (''-P'' # k # r) = wtype_run h [(k, h)] r" for h k r by simp
  show ?thesis
    using wtype_release[of "rev held" "[]"]
    by (simp only: wtype_hold append_Cons append_Nil step append_Nil2)
qed

lemma wtype_key_args:
  "wtype_run [] [] (build_key_args combo) =
     (let parts = split_on CHR ''+'' (lower combo)
      in Some ([], [(dget_or key_names (last parts) (last parts),
                     rev (map (\<lambda>p. dget_or modifiers p p) (butlast parts)))]))"
  by (simp only: build_key_args_def Let_def wtype_combo)

section \<open>Event lines\<close>

definition kind_map :: "event_kind dict" where
  "kind_map =
     [(''workspace'', EV_workspace), (''activewindow'', EV_active_window),
      (''openwindow'', EV_open_window), (''closewindow'', EV_close_window),
      (''movewindow'', EV_move_window), (''focusedmon'', EV_focused_mon),
      (''urgent'', EV_urgent)]"

text \<open>\<open>line.partition(">>")\<close>: the text before the first separator and the text after it.\<close>

fun partition_gt :: "string \<Rightarrow> (string \<times> string) option" where
  "partition_gt [] = None"
| "partition_gt [c] = None"
| "partition_gt (c # d # cs) =
     (if c = CHR ''>'' \<and> d = CHR ''>'' then Some ([], cs)
      else map_option (\<lambda>(a, b). (c # a, b)) (partition_gt (d # cs)))"

definition parse_event :: "string \<Rightarrow> event" where
  "parse_event line =
     (let (kind_str, data) = (case partition_gt line of None \<Rightarrow> (line, []) | Some p \<Rightarrow> p)
      in \<lparr>event_kind = dget_or kind_map (strip kind_str) EV_other,
          event_data = strip data, event_raw = line\<rparr>)"

lemma kind_map_value: "k \<noteq> EV_other \<Longrightarrow> dget_or kind_map (ek_value k) EV_other = k"
  by (cases k) (simp_all add: kind_map_def)

lemma partition_gt_append:
  "CHR ''>'' \<notin> set a \<Longrightarrow> partition_gt (a @ ''>>'' @ b) = Some (a, b)"
proof (induction a)
  case (Cons x a)
  then show ?case by (cases "a @ ''>>'' @ b") auto
qed simp

section \<open>Hyprland requests\<close>

definition socket_path :: "string dict \<Rightarrow> string \<Rightarrow> string \<Rightarrow> string res" where
  "socket_path env uid name = (case dget env ''HYPRLAND_INSTANCE_SIGNATURE'' of
      None \<Rightarrow> Inl (RuntimeError ''HYPRLAND_INSTANCE_SIGNATURE not set'')
    | Some sig \<Rightarrow>
        if sig = [] then Inl (RuntimeError ''HYPRLAND_INSTANCE_SIGNATURE not set'')
        else Inr (dget_or env ''XDG_RUNTIME_DIR'' (''/run/user/'' @ uid) @ ''/hypr/'' @ sig @ ''/'' @ name))"

definition workspace_id_of :: "params \<Rightarrow> json res" where
  "workspace_id_of item = (case dget_or item ''workspace'' (JObj []) of
      JObj w \<Rightarrow> Inr (dget_or w ''id'' (JInt 0))
    | _ \<Rightarrow> Inl (AttributeError ''get''))"

text \<open>\<open>validate\<close> is \<open>Window.model_validate\<close>.\<close>

definition window_of_item :: "(params \<Rightarrow> window res) \<Rightarrow> params \<Rightarrow> window res" where
  "window_of_item validate item =
     rbind (workspace_id_of item) (\<lambda>ws. validate (AList.update ''workspace_id'' ws item))"

fun parse_clients :: "(params \<Rightarrow> window res) \<Rightarrow> json \<Rightarrow> window list res" where
  "parse_clients validate (JList items) =
     rmap (\<lambda>i. case i of JObj d \<Rightarrow> window_of_item validate d
                       | _ \<Rightarrow> Inl (AttributeError ''get'')) items"
| "parse_clients validate _ = Inl (TypeError ''not iterable'')"

definition parse_active_window :: "(params \<Rightarrow> window res) \<Rightarrow> json \<Rightarrow> window option res" where
  "parse_active_window validate parsed =
     (if \<not> truthy parsed then Inr None
      else case parsed of
        JObj d \<Rightarrow>
          (if dget d ''address'' = Some (JStr ''0x0'') then Inr None
           else rbind (window_of_item validate d) (\<lambda>w. Inr (Some w)))
      | _ \<Rightarrow> Inl (AttributeError ''get''))"

definition dispatch_request :: "string \<Rightarrow> string" where
  "dispatch_request cmd = ''dispatch '' @ cmd"

definition batch_request :: "string list \<Rightarrow> string" where
  "batch_request cmds = ''[[BATCH]]'' @ join '';'' (map dispatch_request cmds)"

definition active_monitor :: "monitor list \<Rightarrow> monitor option" where
  "active_monitor mons = (case List.find mon_focused mons of
      Some m \<Rightarrow> Some m
    | None \<Rightarrow> (case mons of [] \<Rightarrow> None | m # _ \<Rightarrow> Some m))"

lemma active_monitor_None: "active_monitor mons = None \<longleftrightarrow> mons = []"
  by (auto simp: active_monitor_def split: option.splits list.splits)

lemma active_monitor_mem: "active_monitor mons = Some m \<Longrightarrow> m \<in> set mons"
  by (auto simp: active_monitor_def split: option.splits list.splits dest: find_Some_mem)

section \<open>Files\<close>

text \<open>
  The file system as the operations see it: \<open>Path(p).expanduser().resolve()\<close>, the symlink
  test, the text of the regular files and the directories.
\<close>

record fsys =
  fs_resolve :: "string \<Rightarrow> string"
  fs_symlink :: "string \<Rightarrow> bool"
  fs_files :: "string dict"
  fs_dirs :: "string list"

definition default_read_cap :: nat where "default_read_cap = 65536"

definition resolve_and_check :: "fsys \<Rightarrow> string list \<Rightarrow> string \<Rightarrow> string res" where
  "resolve_and_check fs roots path =
     (let p = fs_resolve fs path
      in if \<not> list_ex (startswith p) roots
         then Inl (PermissionError (''Path '' @ p @ '' is outside allowed prefixes''))
         else if fs_symlink fs p \<and> \<not> list_ex (startswith (fs_resolve fs p)) roots
         then Inl (PermissionError (''Symlink '' @ p @ '' resolves outside allowed prefixes''))
         else Inr p)"

definition truncate_tail :: "nat \<Rightarrow> string \<Rightarrow> string" where
  "truncate_tail cap text =
     (let total = length text
      in if total > cap
         then (let kept = last_slice cap text
               in ''... [truncated, '' @ nat_str total @ '' total chars, showing last '' @
                  nat_str (length kept) @ '']'' @ [chr_nl] @ kept)
         else text)"

text \<open>\<open>read_text\<close> opens in text mode: every line end is read as a newline.\<close>

fun universal_newlines :: "string \<Rightarrow> string" where
  "universal_newlines [] = []"
| "universal_newlines [c] = (if c = CHR 0x0D then [chr_nl] else [c])"
| "universal_newlines (c # d # cs) =
     (if c = CHR 0x0D
      then chr_nl # universal_newlines (if d = chr_nl then cs else d # cs)
      else c # universal_newlines (d # cs))"

definition read_file :: "fsys \<Rightarrow> string \<Rightarrow> string \<Rightarrow> int \<Rightarrow> int \<Rightarrow> nat \<Rightarrow> string res" where
  "read_file fs home path offset limit cap =
     rbind (resolve_and_check fs [home] path) (\<lambda>p.
       case dget (fs_files fs) p of
         None \<Rightarrow> Inl (FileNotFoundError (''Not a file: '' @ p))
       | Some raw \<Rightarrow>
           (let text = universal_newlines raw;
                t1 = (if offset \<noteq> 0 then slice_from offset text else text);
                t2 = (if limit \<noteq> 0 then slice_to limit t1 else t1)
            in Inr (truncate_tail cap t2)))"

text \<open>
  The directories above a resolved path, outermost first; \<open>mkdir(parents=True)\<close> creates those
  that are missing and fails where one is a regular file.
\<close>

definition parents :: "string \<Rightarrow> string list" where
  "parents p = ''/'' # map (\<lambda>i. take i p) (filter (\<lambda>i. p ! i = CHR ''/'') [1..<length p])"

definition mkdir_parents :: "fsys \<Rightarrow> string \<Rightarrow> string list res" where
  "mkdir_parents fs p =
     (if dget (fs_files fs) (last (parents p)) \<noteq> None then Inl (OtherError ''FileExistsError'')
      else if list_ex (\<lambda>d. dget (fs_files fs) d \<noteq> None) (parents p)
      then Inl (NotADirectoryError p)
      else Inr (filter (\<lambda>d. d \<notin> set (fs_dirs fs)) (parents p) @ fs_dirs fs))"

definition write_file :: "fsys \<Rightarrow> string \<Rightarrow> string \<Rightarrow> string \<Rightarrow> bool \<Rightarrow> fsys res" where
  "write_file fs home path content app =
     rbind (resolve_and_check fs [home] path) (\<lambda>p.
     rbind (mkdir_parents fs p) (\<lambda>dirs.
       if p \<in> set dirs then Inl (OtherError ''IsADirectoryError'')
       else (let old = (if app then dget_or (fs_files fs) p [] else [])
             in Inr (fs\<lparr>fs_files := AList.update p (old @ content) (fs_files fs),
                        fs_dirs := dirs\<rparr>))))"

text \<open>
  One step of \<open>os.walk\<close>: a directory, its sub-directories and its files, each file with
  the size \<open>stat\<close> gave or \<open>None\<close> where it raised.
\<close>

type_synonym walk_step = "string \<times> string list \<times> (string \<times> int option) list"

definition rel_name :: "string \<Rightarrow> string \<Rightarrow> string \<Rightarrow> string" where
  "rel_name base rt name =
     (if rt = base then name else drop (length base + 1) rt @ ''/'' @ name)"

definition file_entries :: "string \<Rightarrow> walk_step \<Rightarrow> params list" where
  "file_entries base st = (case st of (rt, dirs, files) \<Rightarrow>
     concat (map (\<lambda>(name, size). case size of
         None \<Rightarrow> []
       | Some n \<Rightarrow> [[(''name'', JStr (rel_name base rt name)), (''type'', JStr ''file''),
                    (''size'', JInt n)]]) files) @
     map (\<lambda>name. [(''name'', JStr (rel_name base rt name)), (''type'', JStr ''dir'')]) dirs)"

definition list_dir ::
  "fsys \<Rightarrow> string \<Rightarrow> (string \<Rightarrow> walk_step list) \<Rightarrow> string \<Rightarrow> bool \<Rightarrow> params list res" where
  "list_dir fs home walk path recursive =
     rbind (resolve_and_check fs [home] path) (\<lambda>p.
       if p \<notin> set (fs_dirs fs) then Inl (NotADirectoryError (''Not a directory: '' @ p))
       else Inr (concat (map (file_entries p)
                  (if recursive then walk p else take 1 (walk p)))))"

lemma resolve_and_check_prefix:
  "resolve_and_check fs roots path = Inr p \<Longrightarrow>
   p = fs_resolve fs path \<and> (\<exists>q\<in>set roots. prefix q p)"
  by (auto simp: resolve_and_check_def Let_def list_ex_iff startswith_prefix split: if_splits)

lemma truncate_tail_short [simp]: "length text \<le> cap \<Longrightarrow> truncate_tail cap text = text"
  by (simp add: truncate_tail_def Let_def)

lemma truncate_tail_suffix:
  "0 < cap \<Longrightarrow> cap < length text \<Longrightarrow>
   \<exists>header. truncate_tail cap text = header @ drop (length text - cap) text"
  by (auto simp: truncate_tail_def Let_def last_slice_def)

lemma resolve_and_check_frame:
  "fs_resolve fs' = fs_resolve fs \<Longrightarrow> fs_symlink fs' = fs_symlink fs \<Longrightarrow>
   resolve_and_check fs' roots path = resolve_and_check fs roots path"
  by (simp add: resolve_and_check_def Let_def)

lemma universal_newlines_id [simp]: "CHR 0x0D \<notin> set s \<Longrightarrow> universal_newlines s = s"
  by (induction s rule: universal_newlines.induct) auto

lemma write_then_read:
  assumes "write_file fs home path content False = Inr fs'" and "length content \<le> cap"
    and "CHR 0x0D \<notin> set content"
  shows "read_file fs' home path 0 0 cap = Inr content"
proof -
  obtain p where p: "resolve_and_check fs [home] path = Inr p"
    and fs': "fs_files fs' = AList.update p content (fs_files fs)"
      "fs_resolve fs' = fs_resolve fs" "fs_symlink fs' = fs_symlink fs"
    using assms(1) by (auto simp: write_file_def Let_def split: if_splits)
  then have "resolve_and_check fs' [home] path = Inr p"
    using resolve_and_check_frame[of fs' fs] by simp
  with fs'(1) assms(2,3) show ?thesis
    by (simp add: read_file_def Let_def update_conv')
qed

lemma append_then_read:
  assumes "write_file fs home path content True = Inr fs'"
    and "resolve_and_check fs [home] path = Inr p" and "dget (fs_files fs) p = Some old"
    and "length (old @ content) \<le> cap" and "CHR 0x0D \<notin> set (old @ content)"
  shows "read_file fs' home path 0 0 cap = Inr (old @ content)"
proof -
  have fs': "fs_files fs' = AList.update p (old @ content) (fs_files fs)"
      "fs_resolve fs' = fs_resolve fs" "fs_symlink fs' = fs_symlink fs"
    using assms(1-3) by (auto simp: write_file_def Let_def dget_or_def split: if_splits)
  then have "resolve_and_check fs' [home] path = Inr p"
    using resolve_and_check_frame[of fs' fs] assms(2) by simp
  with fs'(1) assms(4,5) show ?thesis
    by (simp add: read_file_def Let_def update_conv')
qed

section \<open>Agent-owned terminals\<close>

type_synonym emission = "string \<times> params"

definition clamp_hold_s :: "real \<Rightarrow> real" where
  "clamp_hold_s v = max 0 (min v 30)"

text \<open>\<open>fmt_g\<close> is the \<open>:g\<close> float format.\<close>

definition shell_script :: "(real \<Rightarrow> string) \<Rightarrow> string \<Rightarrow> real \<Rightarrow> string" where
  "shell_script fmt_g command hold_s =
     (if hold_s \<le> 0 then command
      else join [chr_nl]
        [command, ''code=$?'',
         ''printf '' @ [CHR 0x22, CHR 0x5C] @ ''n[hyprland-agent] exit code: %s'' @
           [CHR 0x5C] @ ''n'' @ [CHR 0x22] @ '' '' @ [CHR 0x22] @ ''$code'' @ [CHR 0x22],
         ''sleep '' @ fmt_g hold_s, ''exit $code''])"

text \<open>How waiting for the process ended; an exit carries code, stdout and stderr bytes.\<close>

datatype term_wait = T_timeout | T_cancelled | T_exit int "nat list" "nat list"

definition run_visible ::
  "(real \<Rightarrow> string) \<Rightarrow> string \<Rightarrow> string \<Rightarrow> real \<Rightarrow> real \<Rightarrow> term_wait
   \<Rightarrow> string list \<times> emission list \<times> (int \<times> string \<times> string \<times> nat) res" where
  "run_visible fmt_g command run_id timeout hold_s w =
     (let title = ''hyprland-agent:'' @ run_id;
          hold = clamp_hold_s hold_s;
          argv = [''foot'', ''--title'', title, ''sh'', ''-lc'', shell_script fmt_g command hold];
          started = (''terminal_started'',
            [(''title'', JStr title), (''command'', JStr command), (''hold_s'', JFloat hold),
             (''visible'', JBool True)])
      in case w of
        T_timeout \<Rightarrow> (argv,
          [started, (''terminal_timed_out'', [(''title'', JStr title), (''timeout_s'', JFloat timeout)])],
          Inl TimeoutError)
      | T_cancelled \<Rightarrow> (argv,
          [started, (''terminal_cancelled'', [(''title'', JStr title)])], Inl CancelledError)
      | T_exit code _ _ \<Rightarrow> (argv,
          [started, (''terminal_exited'',
             [(''title'', JStr title), (''returncode'', JInt code), (''visible'', JBool True)])],
          if code \<noteq> 0
          then Inl (RuntimeError (''terminal command exited with status '' @ int_str code))
          else Inr (code, [], [], 0)))"

text \<open>\<open>decode\<close> is \<open>bytes.decode(errors="replace")\<close>.\<close>

definition run_capture ::
  "(nat list \<Rightarrow> string) \<Rightarrow> string \<Rightarrow> string \<Rightarrow> real \<Rightarrow> nat \<Rightarrow> term_wait
   \<Rightarrow> emission list \<times> (int \<times> string \<times> string \<times> nat) res" where
  "run_capture decode command run_id timeout cap w =
     (let title = ''hyprland-agent:'' @ run_id;
          started = (''terminal_started'',
            [(''title'', JStr title), (''command'', JStr command), (''hold_s'', JInt 0),
             (''visible'', JBool False)])
      in case w of
        T_timeout \<Rightarrow>
          ([started, (''terminal_timed_out'', [(''title'', JStr title), (''timeout_s'', JFloat timeout)])],
           Inl TimeoutError)
      | T_cancelled \<Rightarrow>
          ([started, (''terminal_cancelled'', [(''title'', JStr title)])], Inl CancelledError)
      | T_exit code out err \<Rightarrow>
          (let total = length out;
               stdout0 = last_slice cap (decode out);
               stderr = last_slice cap (decode err);
               stdout = (if total > cap
                 then ''... [truncated, '' @ nat_str total @ '' total bytes, showing last '' @
                      nat_str (length stdout0) @ '']'' @ [chr_nl] @ stdout0
                 else stdout0)
           in ([started, (''terminal_exited'',
                  [(''title'', JStr title), (''returncode'', JInt code), (''stdout'', JStr stdout),
                   (''stderr'', JStr stderr), (''visible'', JBool False)])],
               if code \<noteq> 0
               then Inl (RuntimeError (''command exited with status '' @ int_str code @ '': '' @
                                       take 200 stderr))
               else Inr (code, stdout, stderr, total))))"

lemma clamp_hold_bounds: "0 \<le> clamp_hold_s v \<and> clamp_hold_s v \<le> 30"
  by (simp add: clamp_hold_s_def)

lemma clamp_hold_id: "0 \<le> v \<Longrightarrow> v \<le> 30 \<Longrightarrow> clamp_hold_s v = v"
  by (simp add: clamp_hold_s_def)

lemma run_capture_events:
  "fst (hd (fst (run_capture decode c r t cap w))) = ''terminal_started'' \<and>
   length (fst (run_capture decode c r t cap w)) = 2"
  by (auto simp: run_capture_def Let_def split: term_wait.splits)

lemma run_capture_ok:
  assumes "snd (run_capture decode c r t cap w) = Inr (code, stdout, stderr, tot)"
  shows "code = 0 \<and> (\<exists>out err. w = T_exit 0 out err \<and> tot = length out \<and>
           stderr = last_slice cap (decode err) \<and>
           (tot \<le> cap \<longrightarrow> stdout = last_slice cap (decode out)))"
  using assms by (auto simp: run_capture_def Let_def split: term_wait.splits if_splits)

text \<open>Signals to a process group that is to be terminated: polite, then forced.\<close>

datatype signal = SIGTERM | SIGKILL

definition terminate_process :: "int option \<Rightarrow> bool \<Rightarrow> bool \<Rightarrow> bool \<Rightarrow> signal list" where
  "terminate_process returncode gone_at_term exits_in_time gone_at_kill =
     (if returncode \<noteq> None then []
      else if gone_at_term then [SIGTERM]
      else if exits_in_time then [SIGTERM]
      else if gone_at_kill then [SIGTERM, SIGKILL]
      else [SIGTERM, SIGKILL])"

section \<open>Properties\<close>

text \<open>
  A key combination leaves no modifier held.  Driving a keyboard with the arguments of
  \<open>_build_key_args\<close> presses exactly one key, the last part of the combination, while all
  the leading parts are held, and has released every one of them at the end.
\<close>

theorem key_combo_balanced:
  "\<exists>key held. wtype_run [] [] (build_key_args combo) = Some ([], [(key, held)]) \<and>
     length held = length (filter (\<lambda>c. c = CHR ''+'') combo)"
proof -
  have len: "length (split_on CHR ''+'' s) = Suc (length (filter (\<lambda>c. c = CHR ''+'') s))" for s
    by (induction s) (auto split: list.splits)
  have "lower_char c = CHR ''+'' \<longleftrightarrow> c = CHR ''+''" for c
  proof -
    have "ordc (lower_char c) = (if 65 \<le> ordc c \<and> ordc c \<le> 90 then ordc c + 32 else ordc c)"
      by (simp add: lower_char_def ordc_def)
    moreover have plus: "ordc d = 43 \<longleftrightarrow> d = CHR ''+''" for d
      unfolding ordc_def using of_char_eq_iff[of d "CHR ''+''", where 'a = nat] by simp
    ultimately have "lower_char c = CHR ''+'' \<longleftrightarrow>
        (if 65 \<le> ordc c \<and> ordc c \<le> 90 then ordc c + 32 = 43 else ordc c = 43)" by metis
    also have "\<dots> \<longleftrightarrow> ordc c = 43" by auto
    also have "\<dots> \<longleftrightarrow> c = CHR ''+''" by (rule plus)
    finally show ?thesis .
  qed
  then have "length (filter (\<lambda>c. c = CHR ''+'') (lower s)) = length (filter (\<lambda>c. c = CHR ''+'') s)" for s
    by (induction s) (auto simp: lower_def)
  with len show ?thesis by (simp add: wtype_key_args Let_def)
qed

text \<open>
  File access stays under the textual prefix and a write is read back.  What
  \<open>write_file\<close> stored is what \<open>read_file\<close> returns for the same path, up to the read cap, and
  the path written resolves to a text that starts with the home directory.
\<close>

theorem file_roundtrip:
  assumes "write_file fs home path content False = Inr fs'" and "length content \<le> cap"
    and "CHR 0x0D \<notin> set content"
  shows "read_file fs' home path 0 0 cap = Inr content \<and> prefix home (fs_resolve fs path)"
proof -
  obtain p where "resolve_and_check fs [home] path = Inr p"
    using assms(1) by (auto simp: write_file_def Let_def)
  then show ?thesis
    using write_then_read[OF assms] by (auto dest!: resolve_and_check_prefix)
qed

theorem file_roundtrip_witness:
  "\<exists>fs'. write_file \<lparr>fs_resolve = (\<lambda>p. p), fs_symlink = (\<lambda>_. False), fs_files = [], fs_dirs = []\<rparr>
      ''/home/u'' ''/home/u/a'' ''hi'' False = Inr fs' \<and>
    read_file fs' ''/home/u'' ''/home/u/a'' 0 0 10 = Inr ''hi''"
proof -
  let ?fs = "\<lparr>fs_resolve = (\<lambda>p. p), fs_symlink = (\<lambda>_. False), fs_files = [], fs_dirs = []\<rparr>"
  have "mkdir_parents ?fs ''/home/u/a'' = Inr [''/'', ''/home'', ''/home/u'']"
    by code_simp
  then obtain fs' where w: "write_file ?fs ''/home/u'' ''/home/u/a'' ''hi'' False = Inr fs'"
    by (simp add: write_file_def resolve_and_check_def startswith_def Let_def)
  from file_roundtrip[OF w, of 10] w show ?thesis by auto
qed

text \<open>
  The prefix test is on characters, not on path components: a resolved path in a
  sibling directory whose name extends the home directory's is accepted and can be read.
\<close>

theorem sibling_of_home_is_readable:
  assumes "fs_resolve fs path = home @ tl_path" and "\<not> fs_symlink fs (home @ tl_path)"
    and "dget (fs_files fs) (home @ tl_path) = Some text" and "length text \<le> cap"
    and "CHR 0x0D \<notin> set text"
  shows "read_file fs home path 0 0 cap = Inr text"
  using assms
  by (simp add: read_file_def resolve_and_check_def startswith_def)

theorem sibling_of_home_is_readable_witness:
  "read_file \<lparr>fs_resolve = (\<lambda>p. p), fs_symlink = (\<lambda>_. False),
      fs_files = [(''/home/al-backup/key'', ''secret'')], fs_dirs = []\<rparr>
      ''/home/al'' ''/home/al-backup/key'' 0 0 100 = Inr ''secret''"
  by (rule sibling_of_home_is_readable[where tl_path = "''-backup/key''"]) simp_all

text \<open>
  An event line of Hyprland's socket is split at its first \<open>>>\<close>: a line built from the
  name of a known event parses to that event with the trimmed data and the line kept.
\<close>

theorem parse_event_known:
  assumes "k \<noteq> EV_other"
  shows "parse_event (ek_value k @ ''>>'' @ data) =
    \<lparr>event_kind = k, event_data = strip data, event_raw = ek_value k @ ''>>'' @ data\<rparr>"
proof -
  have "CHR ''>'' \<notin> set (ek_value k)" by (cases k) auto
  moreover have "strip (ek_value k) = ek_value k"
    by (rule strip_no_space) (cases k; auto simp: is_space_def ordc_def)
  ultimately show ?thesis
    using kind_map_value[OF assms] partition_gt_append[of "ek_value k" data]
    by (simp add: parse_event_def)
qed

theorem parse_event_known_witness:
  "parse_event ''openwindow>>80a,1,foot,sh'' =
    \<lparr>event_kind = EV_open_window, event_data = strip ''80a,1,foot,sh'',
     event_raw = ''openwindow>>80a,1,foot,sh''\<rparr>"
  using parse_event_known[of EV_open_window "''80a,1,foot,sh''"] by simp

end
