(* ===== verification/Awareness.thy ===== *)
theory Awareness
  imports Config Safety
begin

text \<open>
  What the agent knows of itself and of the desktop while it runs:
  \<open>src/src/agent/awareness\<close> (loop detection, post-action verification, working memory,
  world snapshot), \<open>src/src/agent/introspection/self_model.py\<close> and the prompt context of
  \<open>src/src/agent/brain/context.py\<close>.  Image decoding and the \<open>repr\<close> of a parameter dict
  are arguments.  Non-ASCII punctuation of the prompts is spelled in UTF-8.
\<close>

definition u_arrow :: string where "u_arrow = [CHR 0xE2, CHR 0x86, CHR 0x92]"
definition u_dash :: string where "u_dash = [CHR 0xE2, CHR 0x80, CHR 0x94]"
definition u_times :: string where "u_times = [CHR 0xC3, CHR 0x97]"

section \<open>Loop detection\<close>

text \<open>
  \<open>json.dumps(\<dots>, sort_keys=True)\<close> identifies an action: two texts are equal exactly when
  the values are equal with the keys of every object sorted.
\<close>

fun canon :: "json \<Rightarrow> json" where
  "canon (JList xs) = JList (map canon xs)"
| "canon (JObj d) = JObj (sort_key fst (map (\<lambda>(k, v). (k, canon v)) d))"
| "canon v = v"

definition action_key :: "action \<Rightarrow> json" where
  "action_key a =
     canon (JObj [(''kind'', JStr (ak_value (act_kind a))), (''params'', JObj (act_params a))])"

record loop_detector =
  ld_history :: "json list"
  ld_maxlen :: nat
  ld_threshold :: nat

definition new_loop_detector :: "nat \<Rightarrow> nat \<Rightarrow> loop_detector" where
  "new_loop_detector window repeat_threshold =
     \<lparr>ld_history = [], ld_maxlen = window, ld_threshold = repeat_threshold\<rparr>"

definition default_loop_detector :: loop_detector where
  "default_loop_detector = new_loop_detector 6 3"

definition observe :: "loop_detector \<Rightarrow> action \<Rightarrow> bool \<times> loop_detector" where
  "observe d a =
     (let key = action_key a;
          h = push_bounded (ld_maxlen d) (ld_history d) key
      in (length (filter (\<lambda>k. k = key) h) \<ge> ld_threshold d, d\<lparr>ld_history := h\<rparr>))"

definition reset_loop :: "loop_detector \<Rightarrow> loop_detector" where
  "reset_loop d = d\<lparr>ld_history := []\<rparr>"

fun observe_all :: "loop_detector \<Rightarrow> action list \<Rightarrow> loop_detector" where
  "observe_all d [] = d"
| "observe_all d (a # as) = observe_all (snd (observe d a)) as"

lemma observe_all_append: "observe_all d (as @ bs) = observe_all (observe_all d as) bs"
  by (induction as arbitrary: d) auto

lemma observe_params [simp]:
  "ld_maxlen (snd (observe d a)) = ld_maxlen d"
  "ld_threshold (snd (observe d a)) = ld_threshold d"
  by (simp_all add: observe_def Let_def)

lemma observe_all_params [simp]:
  "ld_maxlen (observe_all d as) = ld_maxlen d"
  "ld_threshold (observe_all d as) = ld_threshold d"
  by (induction as arbitrary: d) auto

lemma push_bounded_drop:
  "push_bounded m (drop (length ks - m) ks) x = drop (Suc (length ks) - m) (ks @ [x])"
proof (cases "m \<le> length ks")
  case True
  show ?thesis
  proof (cases "m = 0")
    case False
    with True have "Suc (length ks) - m = Suc (length ks - m)"
      "Suc m - m = 1" "length (drop (length ks - m) ks) = m" by simp_all
    with False True show ?thesis
      by (cases m) (simp_all add: push_bounded_def Let_def)
  qed (simp add: push_bounded_def)
next
  case False
  then show ?thesis by (simp add: push_bounded_def Let_def)
qed

text \<open>The history is the last \<open>maxlen\<close> keys observed.\<close>

lemma history_observe_all:
  "ld_history d = drop (length ks - ld_maxlen d) ks \<Longrightarrow>
   ld_history (observe_all d as) =
     drop (length ks + length as - ld_maxlen d) (ks @ map action_key as)"
proof (induction as arbitrary: d ks)
  case (Cons a as)
  have h: "ld_history (snd (observe d a)) =
      drop (length (ks @ [action_key a]) - ld_maxlen (snd (observe d a))) (ks @ [action_key a])"
    using Cons.prems by (simp add: observe_def Let_def push_bounded_drop)
  from Cons.IH[OF h] show ?case by simp
qed simp

lemma observe_stuck_iff:
  assumes "ld_history d = []"
  shows "fst (observe (observe_all d as) a) \<longleftrightarrow>
    ld_threshold d \<le> length (filter (\<lambda>k. k = action_key a)
      (drop (Suc (length as) - ld_maxlen d) (map action_key as @ [action_key a])))"
proof -
  have "ld_history (observe_all d as) = drop (length as - ld_maxlen d) (map action_key as)"
    using history_observe_all[of d "[]" as] assms by simp
  then show ?thesis
    using push_bounded_drop[of "ld_maxlen d" "map action_key as"]
    by (simp add: observe_def Let_def)
qed

section \<open>Post-action verification\<close>

definition visual_kinds :: "string list" where
  "visual_kinds = map ak_value [Mouse_move, Click, Scroll, Focus_window, Dispatch]"

definition verifier_needs :: "action_kind \<Rightarrow> bool" where
  "verifier_needs k = (ak_value k \<in> set visual_kinds)"

definition annotate :: "action_result \<Rightarrow> string \<Rightarrow> string \<Rightarrow> action_result" where
  "annotate r pre post = r\<lparr>res_pre_hash := Some pre, res_post_hash := Some post\<rparr>"

text \<open>The 64 comparisons of neighbouring pixels of the 9 by 8 grayscale image.\<close>

definition hash_bits :: "nat list \<Rightarrow> bool list" where
  "hash_bits pixels =
     concat (map (\<lambda>row. map (\<lambda>col. pixels ! (row * 9 + col) > pixels ! (row * 9 + col + 1))
                           [0..<8]) [0..<8])"

definition bits_val :: "bool list \<Rightarrow> nat" where
  "bits_val bs = foldl (\<lambda>a b. 2 * a + (if b then 1 else 0)) 0 bs"

fun hex_digits :: "nat \<Rightarrow> string" where
  "hex_digits n = (if n < 16 then [hex_digit n]
                   else hex_digits (n div 16) @ [hex_digit (n mod 16)])"

declare hex_digits.simps [simp del]

definition zfill :: "nat \<Rightarrow> string \<Rightarrow> string" where
  "zfill n s = replicate (n - length s) CHR ''0'' @ s"

definition phash_of_pixels :: "nat list \<Rightarrow> string" where
  "phash_of_pixels pixels = zfill 16 (hex_digits (bits_val (hash_bits pixels)))"

text \<open>\<open>gray\<close>: \<open>Image.open\<close>, \<open>convert\<close>, \<open>resize\<close> and \<open>tobytes\<close>.\<close>

definition phash :: "(nat list \<Rightarrow> nat list res) \<Rightarrow> nat list \<Rightarrow> string res" where
  "phash gray png = rbind (gray png) (\<lambda>px. Inr (phash_of_pixels px))"

definition hex_val :: "char \<Rightarrow> nat" where
  "hex_val c = (if ordc c < 58 then ordc c - 48 else ordc c - 87)"

definition hex_value :: "string \<Rightarrow> nat" where
  "hex_value s = foldl (\<lambda>a c. 16 * a + hex_val c) 0 s"

lemma hex_val_digit: "n < 16 \<Longrightarrow> hex_val (hex_digit n) = n"
  by (auto simp: hex_val_def hex_digit_def ordc_def)

lemma hex_value_digits: "hex_value (hex_digits n) = n"
proof (induction n rule: hex_digits.induct)
  case (1 n)
  then show ?case
    by (subst hex_digits.simps) (auto simp: hex_value_def hex_val_digit)
qed

lemma hex_value_zfill: "hex_value (zfill n s) = hex_value s"
proof -
  have "foldl (\<lambda>a c. 16 * a + hex_val c) 0 (replicate k CHR ''0'') = 0" for k
    by (induction k) (auto simp: hex_val_def ordc_def)
  then show ?thesis by (simp add: hex_value_def zfill_def)
qed

lemma bits_val_snoc: "bits_val (bs @ [b]) = 2 * bits_val bs + (if b then 1 else 0)"
  by (simp add: bits_val_def)

lemma bits_val_inj: "length bs = length cs \<Longrightarrow> bits_val bs = bits_val cs \<Longrightarrow> bs = cs"
proof (induction bs arbitrary: cs rule: rev_induct)
  case (snoc b bs)
  then obtain c ds where cs: "cs = ds @ [c]" by (cases cs rule: rev_cases) auto
  have "2 * bits_val bs + (if b then 1 else 0) = 2 * bits_val ds + (if c then 1 else 0)"
    using snoc.prems(2) by (simp only: cs bits_val_snoc)
  then have "bits_val bs = bits_val ds \<and> b = c" by (cases b; cases c) (simp, presburger+)
  with snoc cs show ?case by simp
qed simp

lemma bits_val_bound: "bits_val bs < 2 ^ length bs"
  by (induction bs rule: rev_induct) (auto simp: bits_val_snoc bits_val_def)

lemma length_hash_bits: "length (hash_bits px) = 64"
  by (simp add: hash_bits_def length_concat comp_def upt_rec)

lemma length_hex_digits: "n < 16 ^ k \<Longrightarrow> 0 < k \<Longrightarrow> length (hex_digits n) \<le> k"
proof (induction n arbitrary: k rule: hex_digits.induct)
  case (1 n)
  show ?case
  proof (cases "n < 16")
    case True
    with 1 show ?thesis by (subst hex_digits.simps) auto
  next
    case False
    obtain j where k: "k = Suc j" using 1 by (cases k) auto
    have "0 < j" using False 1 k by (cases j) auto
    moreover have "n div 16 < 16 ^ j" using 1 k by (simp add: less_mult_imp_div_less mult.commute)
    ultimately have "length (hex_digits (n div 16)) \<le> j" using "1.IH" False by blast
    with False k show ?thesis by (subst hex_digits.simps) simp
  qed
qed

lemma length_phash: "length (phash_of_pixels px) = 16"
proof -
  have "bits_val (hash_bits px) < 16 ^ 16"
    using bits_val_bound[of "hash_bits px"] by (simp add: length_hash_bits)
  then have "length (hex_digits (bits_val (hash_bits px))) \<le> 16"
    by (rule length_hex_digits) simp
  then show ?thesis by (simp add: phash_of_pixels_def zfill_def)
qed

section \<open>Working memory\<close>

record action_entry =
  ae_kind :: string
  ae_params :: params
  ae_summary :: "string option"

type_synonym working_memory = "action_entry list"

definition max_entries :: nat where "max_entries = 50"

definition wm_record :: "working_memory \<Rightarrow> string \<Rightarrow> params \<Rightarrow> string option \<Rightarrow> working_memory" where
  "wm_record m kind ps summary =
     (let m' = m @ [\<lparr>ae_kind = kind, ae_params = ps, ae_summary = summary\<rparr>]
      in if length m' > max_entries then tl m' else m')"

text \<open>\<open>repr\<close> is \<open>str\<close> of the parameter dict.\<close>

definition render_entry :: "(params \<Rightarrow> string) \<Rightarrow> action_entry \<Rightarrow> string" where
  "render_entry repr e =
     (let summary = (case ae_summary e of
            Some s \<Rightarrow> if s = [] then [] else '' '' @ u_arrow @ '' '' @ s
          | None \<Rightarrow> [])
      in ''- '' @ ae_kind e @ ''('' @ repr (ae_params e) @ '')'' @ summary)"

definition wm_render :: "(params \<Rightarrow> string) \<Rightarrow> working_memory \<Rightarrow> string" where
  "wm_render repr m =
     (if m = [] then []
      else join [chr_nl] (''## Actions taken so far in this run'' #
             map (render_entry repr) (last_slice 10 m)))"

lemma wm_record_bound: "length m \<le> max_entries \<Longrightarrow> length (wm_record m k p s) \<le> max_entries"
  by (auto simp: wm_record_def Let_def max_entries_def)

lemma wm_record_last:
  "last (wm_record m k p s) = \<lparr>ae_kind = k, ae_params = p, ae_summary = s\<rparr>"
proof (cases m)
  case (Cons e es)
  then show ?thesis by (simp add: wm_record_def Let_def)
qed (simp add: wm_record_def max_entries_def)

lemma wm_record_suffix:
  "length m \<le> max_entries \<Longrightarrow>
   wm_record m k p s = drop (Suc (length m) - max_entries)
     (m @ [\<lparr>ae_kind = k, ae_params = p, ae_summary = s\<rparr>])"
  by (cases "length m = max_entries")
     (cases m; auto simp: wm_record_def Let_def max_entries_def drop_Suc)+

section \<open>World snapshot\<close>

record world_snapshot =
  wo_class :: "string option"
  wo_title :: "string option"
  wo_workspace :: "int option"
  wo_monitor_w :: int
  wo_monitor_h :: int
  wo_window_count :: nat
  wo_timestamp :: real
  wo_integrations :: "string dict"

definition snapshot :: "window option \<Rightarrow> int \<Rightarrow> int \<Rightarrow> window list \<Rightarrow> real \<Rightarrow> world_snapshot" where
  "snapshot active mw mh windows now =
     \<lparr>wo_class = map_option win_class active, wo_title = map_option win_title active,
      wo_workspace = map_option win_workspace_id active, wo_monitor_w = mw, wo_monitor_h = mh,
      wo_window_count = length windows, wo_timestamp = now, wo_integrations = []\<rparr>"

definition opt_text :: "string option \<Rightarrow> string" where
  "opt_text s = (case s of None \<Rightarrow> [] | Some t \<Rightarrow> t)"

definition world_render :: "world_snapshot \<Rightarrow> string" where
  "world_render w =
     (if opt_text (wo_class w) = [] \<and> opt_text (wo_title w) = [] then []
      else join [chr_nl]
        ([''## Desktop context''] @
         (if opt_text (wo_class w) \<noteq> []
          then [''Active window: '' @ opt_text (wo_class w) @ '' '' @ u_dash @ '' '' @
                (if opt_text (wo_title w) = [] then ''?'' else opt_text (wo_title w))]
          else []) @
         (case wo_workspace w of None \<Rightarrow> [] | Some i \<Rightarrow> [''Workspace: '' @ int_str i]) @
         [''Display: '' @ int_str (wo_monitor_w w) @ u_times @ int_str (wo_monitor_h w) @
          ''  |  Open windows: '' @ nat_str (wo_window_count w)] @
         (let ready = map fst (filter (\<lambda>ns. snd ns = ''ready'') (wo_integrations w))
          in if ready = [] then []
             else [''Integrations available: '' @ join '', '' (sort ready)])))"

section \<open>Self model and prompt context\<close>

definition capabilities :: "string list" where
  "capabilities = map ak_value all_action_kinds"

definition self_limits :: "int dict" where
  "self_limits = [(''max_iterations'', int default_max_iter),
                  (''run_timeout_s'', trunc default_run_timeout), (''max_hold_s'', 30)]"

definition self_render :: "string \<Rightarrow> string" where
  "self_render brain =
     join [chr_nl]
       [''## Agent self-model'',
        ''Brain: '' @ brain,
        ''Available actions: '' @ join '', '' capabilities,
        ''Loop cap: '' @ int_str (dget_or self_limits ''max_iterations'' 0) @ '' iterations, '' @
          ''run timeout: '' @ int_str (dget_or self_limits ''run_timeout_s'' 0) @ ''s'',
        ''Always-blocked window classes: '' @ join '', '' (sort always_deny),
        ''Safety: allowlist deny-by-default; destructive dispatches require confirmation; '' @
          ''killswitch stops execution at next action boundary.'',
        [],
        ''## Operational guidance'',
        ''When the user names a specific application (e.g. '' @ [CHR 0x27] @ ''apri firefox'' @
          [CHR 0x27] @ '', '' @ [CHR 0x27] @ ''open vscode'' @ [CHR 0x27] @ ''), '' @
          ''launch its binary directly via `terminal_command` '' @
          ''(e.g. `firefox --new-window <url>`, `code <path>`). '' @
          ''Do NOT use generic wrappers like `xdg-open`, `webbrowser.open`, `gnome-open`, '' @
          ''or `kde-open`: those dispatch to the system MIME default and may launch a '' @
          ''different application than the one the user requested.'']"

record brain_context =
  bx_brain :: string
  bx_world :: world_snapshot
  bx_working :: working_memory
  bx_config :: "context_config option"
  bx_recall :: "string dict list"
  bx_reflections :: "string list"

definition render_system_prompt :: "brain_context \<Rightarrow> string" where
  "render_system_prompt c =
     (let world = world_render (bx_world c)
      in join [chr_nl, chr_nl] (self_render (bx_brain c) # (if world = [] then [] else [world])))"

definition recall_line :: "string dict \<Rightarrow> string" where
  "recall_line ep = ''- ['' @ dget_or ep ''outcome'' ''?'' @ ''] '' @ dget_or ep ''task'' [] @
                    '': '' @ dget_or ep ''summary'' []"

definition render_user_preamble :: "(params \<Rightarrow> string) \<Rightarrow> brain_context \<Rightarrow> string" where
  "render_user_preamble repr c =
     (let history = wm_render repr (bx_working c)
      in join [chr_nl, chr_nl]
        ((if history = [] then [] else [history]) @
         (if bx_recall c = [] then []
          else [join [chr_nl] (''## Similar past tasks'' # map recall_line (take 3 (bx_recall c)))]) @
         (if bx_reflections c = [] then []
          else [join [chr_nl] (''## Lessons from past failures'' #
                  map (\<lambda>r. ''- '' @ r) (take 3 (bx_reflections c)))])))"

section \<open>Properties\<close>

text \<open>
  The loop detector reports exactly the repetitions inside its window: observing an
  action after a history is stuck if and only if, among the last six actions including it,
  at least three have the same kind and the same parameters up to key order.
\<close>

theorem loop_detector_exact:
  "fst (observe (observe_all default_loop_detector history) a) \<longleftrightarrow>
     3 \<le> length (filter (\<lambda>b. action_key b = action_key a)
                   (drop (length history - 5) (history @ [a])))"
proof -
  have "drop (Suc (length history) - 6) (map action_key history @ [action_key a]) =
        map action_key (drop (length history - 5) (history @ [a]))"
    by (simp add: drop_map)
  then show ?thesis
    using observe_stuck_iff[of default_loop_detector history a]
    by (simp add: default_loop_detector_def new_loop_detector_def filter_map comp_def)
qed

text \<open>
  The perceptual hash is a faithful 16-digit code of the comparisons: it always has 16
  characters, and two images have the same hash exactly when all 64 neighbour comparisons
  agree.
\<close>

theorem phash_code:
  "length (phash_of_pixels p) = 16 \<and>
   (phash_of_pixels p = phash_of_pixels q \<longleftrightarrow> hash_bits p = hash_bits q)"
proof -
  have val: "hex_value (phash_of_pixels px) = bits_val (hash_bits px)" for px
    by (simp add: phash_of_pixels_def hex_value_zfill hex_value_digits)
  then have "phash_of_pixels p = phash_of_pixels q \<Longrightarrow> bits_val (hash_bits p) = bits_val (hash_bits q)"
    by metis
  then have "phash_of_pixels p = phash_of_pixels q \<Longrightarrow> hash_bits p = hash_bits q"
    using bits_val_inj length_hash_bits by metis
  moreover have "hash_bits p = hash_bits q \<Longrightarrow> phash_of_pixels p = phash_of_pixels q"
    by (simp add: phash_of_pixels_def)
  ultimately show ?thesis using length_phash by blast
qed

text \<open>
  Working memory keeps the newest actions: recording into a memory of at most 50
  entries keeps it at most 50 long, puts the new action last and drops only the oldest.
\<close>

theorem working_memory_recent:
  assumes "length m \<le> 50"
  shows "length (wm_record m k p s) = min 50 (Suc (length m)) \<and>
     wm_record m k p s = drop (Suc (length m) - 50)
       (m @ [\<lparr>ae_kind = k, ae_params = p, ae_summary = s\<rparr>])"
  using wm_record_suffix[of m k p s] assms by (simp add: max_entries_def)

theorem working_memory_recent_witness:
  "length (wm_record [] ''click'' [] None) = 1"
  using working_memory_recent[of "[]" "''click''" "[]" None] by simp

end
