(* ===== verification/Brain.thy ===== *)
theory Brain
  imports Tools Awareness
begin

text \<open>
  \<open>src/src/agent/brain\<close>: the verb to action map (\<open>_action_map.py\<close>), the token estimate and
  the compaction of a conversation (\<open>_common.py\<close>), the tool tables of the two brains and
  their interpretation of tool calls, the decision loop of both (\<open>claude.py\<close>,
  \<open>openai_brain.py\<close>) and the choice of a provider (\<open>router.py\<close>).  The model APIs are not
  under \<open>src/\<close>: a reply is a function of the conversation sent, an argument of the loops.
\<close>

section \<open>Verbs to actions\<close>

definition mk_action :: "action_kind \<Rightarrow> params \<Rightarrow> action" where
  "mk_action k ps = \<lparr>act_kind = k, act_params = ps\<rparr>"

definition point :: "int \<Rightarrow> int \<Rightarrow> params" where
  "point x y = [(''x'', JInt x), (''y'', JInt y)]"

definition computer_actions ::
  "string \<Rightarrow> real \<Rightarrow> real \<Rightarrow> json \<Rightarrow> json \<Rightarrow> string \<Rightarrow> real \<Rightarrow> real \<Rightarrow> real \<Rightarrow> action list" where
  "computer_actions verb x y text combo direction amount scale_x scale_y =
     (let sx = trunc (x * scale_x); sy = trunc (y * scale_y);
          move = mk_action Mouse_move (point sx sy) in
      if verb = ''screenshot'' then [mk_action Screenshot []]
      else if verb \<in> {''left_click'', ''right_click'', ''middle_click''} then
        [move, mk_action Click [(''button'', JStr (take (length verb - 6) verb))]]
      else if verb = ''double_click'' then
        [move, mk_action Click [(''button'', JStr ''left'')], mk_action Click [(''button'', JStr ''left'')]]
      else if verb = ''mouse_move'' then [move]
      else if verb \<in> {''type'', ''type_text''} then [mk_action Type_text [(''text'', text)]]
      else if verb = ''key'' then [mk_action Key [(''combo'', combo)]]
      else if verb = ''scroll'' then
        (let amt = trunc amount;
             signed = (if direction \<in> {''up'', ''left''} then - amt else amt);
             horizontal = direction \<in> {''left'', ''right''}
         in [move, mk_action Scroll [(''amount'', JInt signed), (''horizontal'', JBool horizontal)]])
      else [])"

definition computer_verbs :: "string list" where
  "computer_verbs = [''screenshot'', ''left_click'', ''right_click'', ''middle_click'',
     ''double_click'', ''mouse_move'', ''type'', ''type_text'', ''key'', ''scroll'']"

lemma computer_actions_empty_iff:
  "computer_actions v x y t c d a sx sy = [] \<longleftrightarrow> v \<notin> set computer_verbs"
  by (auto simp: computer_actions_def computer_verbs_def Let_def)

section \<open>Token estimate and compaction\<close>

text \<open>
  A message of a conversation: a dict with a role and a content, or an object of the
  client library (\<open>Msg_object\<close>), which has no \<open>get\<close> method.
\<close>

datatype block =
    B_text string
  | B_image
  | B_tool_text string
  | B_tool_parts "string option list"
  | B_other

datatype content = C_none | C_str string | C_list "block option list" | C_other

datatype message = Msg string content | Msg_object

definition chars_per_token :: nat where "chars_per_token = 4"
definition tokens_per_megapixel :: nat where "tokens_per_megapixel = 1000"

text \<open>\<open>None\<close> in a block list is an entry that is not a dict (or not a text part).\<close>

fun block_tokens :: "block option \<Rightarrow> nat" where
  "block_tokens None = 0"
| "block_tokens (Some (B_text s)) = length s div chars_per_token"
| "block_tokens (Some B_image) = tokens_per_megapixel div 2"
| "block_tokens (Some (B_tool_text s)) = length s div chars_per_token"
| "block_tokens (Some (B_tool_parts ps)) =
     sum_list (map (\<lambda>p. case p of None \<Rightarrow> 0 | Some s \<Rightarrow> length s div chars_per_token) ps)"
| "block_tokens (Some B_other) = 0"

fun content_tokens :: "content \<Rightarrow> nat" where
  "content_tokens C_none = 4"
| "content_tokens (C_str s) = length s div chars_per_token + 4"
| "content_tokens (C_list bs) = sum_list (map block_tokens bs) + 4"
| "content_tokens C_other = 4"

fun estimate_tokens :: "message list \<Rightarrow> nat res" where
  "estimate_tokens [] = Inr 0"
| "estimate_tokens (Msg r c # ms) =
     rbind (estimate_tokens ms) (\<lambda>n. Inr (content_tokens c + n))"
| "estimate_tokens (Msg_object # ms) = Inl (AttributeError ''get'')"

fun role_of :: "message \<Rightarrow> string option" where
  "role_of (Msg r c) = Some r"
| "role_of Msg_object = None"

definition round_starts :: "message list \<Rightarrow> nat list" where
  "round_starts ms = filter (\<lambda>i. role_of (ms ! i) = Some ''user'') [0..<length ms]"

text \<open>\<open>xs[-n]\<close> for \<open>n \<ge> 0\<close>: \<open>xs[-0]\<close> is the first element.\<close>

definition index_neg :: "'a list \<Rightarrow> nat \<Rightarrow> 'a" where
  "index_neg xs n = (if n = 0 then xs ! 0 else xs ! (length xs - n))"

definition compact_messages :: "message list \<Rightarrow> nat \<Rightarrow> int \<Rightarrow> message list res" where
  "compact_messages ms keep_rounds budget =
     rbind (estimate_tokens ms) (\<lambda>n.
       if int n \<le> budget \<or> length ms \<le> 1 then Inr ms
       else (let sys = (if role_of (hd ms) = Some ''system'' then 1 else 0);
                 rest = drop sys ms;
                 starts = round_starts rest
             in if rest = [] \<or> starts = [] then Inr ms
                else (let keep_from = (if length starts > keep_rounds
                                       then index_neg starts keep_rounds else starts ! 0)
                      in Inr (take sys ms @ drop keep_from rest))))"

lemma estimate_tokens_objects:
  "(\<exists>n. estimate_tokens ms = Inr n) \<longleftrightarrow> Msg_object \<notin> set ms"
  by (induction ms rule: estimate_tokens.induct) auto

lemma estimate_tokens_error: "estimate_tokens ms = Inl e \<Longrightarrow> e = AttributeError ''get''"
  by (induction ms rule: estimate_tokens.induct) (auto simp: rbind_Inl_iff)

lemma round_starts_mem: "i \<in> set (round_starts ms) \<Longrightarrow> i < length ms \<and> role_of (ms ! i) = Some ''user''"
  by (auto simp: round_starts_def)

lemma compact_shape:
  assumes "compact_messages ms k budget = Inr out"
  shows "out = ms \<or> (\<exists>sys i. sys \<le> 1 \<and> out = take sys ms @ drop i (drop sys ms) \<and>
           i < length (drop sys ms) \<and> role_of (drop sys ms ! i) = Some ''user'' \<and>
           (sys = 1 \<longleftrightarrow> role_of (hd ms) = Some ''system''))"
proof (cases "out = ms")
  case False
  let ?sys = "if role_of (hd ms) = Some ''system'' then 1 else 0 :: nat"
  let ?rest = "drop ?sys ms"
  let ?st = "round_starts ?rest"
  let ?kf = "if length ?st > k then index_neg ?st k else ?st ! 0"
  from assms False have ne: "?st \<noteq> []" and out: "out = take ?sys ms @ drop ?kf ?rest"
    by (auto simp: compact_messages_def Let_def split: if_splits)
  have "?kf \<in> set ?st"
    using ne by (auto simp: index_neg_def)
  then have "?kf < length ?rest \<and> role_of (?rest ! ?kf) = Some ''user''"
    by (rule round_starts_mem)
  with out show ?thesis
    by (intro disjI2 exI[of _ ?sys] exI[of _ ?kf]) auto
qed simp

lemma compact_within_budget: "estimate_tokens ms = Inr n \<Longrightarrow> int n \<le> b \<Longrightarrow> compact_messages ms k b = Inr ms"
  by (simp add: compact_messages_def)

text \<open>With \<open>keep_rounds = 0\<close> the slice index is \<open>-0\<close>: no round is dropped.\<close>

lemma compact_keep_zero:
  assumes "estimate_tokens ms = Inr n" and "role_of (hd ms) = Some ''user''"
  shows "compact_messages ms 0 b = Inr ms"
proof (cases "length ms \<le> 1")
  case False
  then obtain m m2 ms' where ms: "ms = m # m2 # ms'"
    by (cases ms; cases "tl ms") auto
  have "round_starts ms = 0 # filter (\<lambda>i. role_of (ms ! i) = Some ''user'') [1..<length ms]"
    using assms(2) by (simp add: round_starts_def ms upt_conv_Cons del: upt_Suc)
  with assms show ?thesis
    by (simp add: compact_messages_def Let_def index_neg_def)
qed (use assms in \<open>simp add: compact_messages_def\<close>)

section \<open>Tool tables\<close>

text \<open>A declared tool: its name, the names and JSON types of its parameters, the required ones.\<close>

record tool =
  tl_name :: string
  tl_props :: "string dict"
  tl_required :: "string list"

definition tool :: "string \<Rightarrow> string dict \<Rightarrow> string list \<Rightarrow> tool" where
  "tool n ps req = \<lparr>tl_name = n, tl_props = ps, tl_required = req\<rparr>"

definition xy_props :: "string dict" where
  "xy_props = [(''x'', ''integer''), (''y'', ''integer'')]"

definition openai_pointer_tools :: "tool list" where
  "openai_pointer_tools =
     [tool ''screenshot'' [] [],
      tool ''left_click'' xy_props [''x'', ''y''],
      tool ''right_click'' xy_props [''x'', ''y''],
      tool ''middle_click'' xy_props [''x'', ''y''],
      tool ''double_click'' xy_props [''x'', ''y''],
      tool ''scroll'' (xy_props @ [(''direction'', ''string''), (''amount'', ''integer'')]) [''x'', ''y''],
      tool ''type_text'' [(''text'', ''string'')] [''text''],
      tool ''key'' [(''combo'', ''string'')] [''combo'']]"

definition openai_desktop_tools :: "tool list" where
  "openai_desktop_tools =
     [tool ''terminal_command'' [(''command'', ''string''), (''hold_s'', ''number'')] [''command''],
      tool ''focus_window'' [(''address'', ''string'')] [''address''],
      tool ''list_windows'' [] [],
      tool ''dispatch_hypr'' [(''cmd'', ''string'')] [''cmd''],
      tool ''read_file'' [(''path'', ''string''), (''offset'', ''integer''), (''limit'', ''integer'')] [''path''],
      tool ''write_file'' [(''path'', ''string''), (''content'', ''string''), (''append'', ''boolean'')]
        [''path'', ''content''],
      tool ''list_dir'' [(''path'', ''string''), (''recursive'', ''boolean'')] [''path''],
      tool ''clipboard_read'' [] [],
      tool ''clipboard_write'' [(''text'', ''string'')] [''text'']]"

definition openai_tools :: "tool list" where
  "openai_tools = openai_pointer_tools @ openai_desktop_tools"

definition claude_tools :: "tool list" where
  "claude_tools =
     [tool ''list_windows'' [] [],
      tool ''terminal_command'' [(''command'', ''string''), (''hold_s'', ''number'')] [''command''],
      tool ''focus_window'' [(''address'', ''string'')] [''address''],
      tool ''dispatch_hypr'' [(''cmd'', ''string'')] [''cmd''],
      tool ''read_file'' [(''path'', ''string''), (''offset'', ''integer''), (''limit'', ''integer'')] [''path''],
      tool ''write_file'' [(''path'', ''string''), (''content'', ''string''), (''append'', ''boolean'')]
        [''path'', ''content''],
      tool ''list_dir'' [(''path'', ''string''), (''recursive'', ''boolean'')] [''path''],
      tool ''clipboard_read'' [] [],
      tool ''clipboard_write'' [(''text'', ''string'')] [''text'']]"

section \<open>Interpreting tool calls\<close>

definition terminal_params :: "params \<Rightarrow> params res" where
  "terminal_params args =
     rbind (dindex args ''command'') (\<lambda>c.
       Inr ([(''command'', c)] @
            (case dget args ''hold_s'' of None \<Rightarrow> [] | Some h \<Rightarrow> [(''hold_s'', h)])))"

text \<open>\<open>claude.py\<close>: the custom tools; \<open>wins\<close> is the rendered window list.\<close>

definition handle_custom :: "string \<Rightarrow> string \<Rightarrow> params \<Rightarrow> (string \<times> action list) res" where
  "handle_custom wins name inp =
     (if name = ''list_windows'' then Inr (if wins = [] then ''(no windows)'' else wins, [])
      else if name = ''terminal_command'' then
        rbind (terminal_params inp) (\<lambda>ps. Inr (''terminal command queued'', [mk_action Terminal_command ps]))
      else if name = ''focus_window'' then
        rbind (dindex inp ''address'') (\<lambda>a.
          Inr (''focus queued'', [mk_action Focus_window [(''address'', a)]]))
      else if name = ''dispatch_hypr'' then
        rbind (dindex inp ''cmd'') (\<lambda>c. Inr (''dispatch queued'', [mk_action Dispatch [(''cmd'', c)]]))
      else if name = ''read_file'' then Inr (''Reading file...'', [mk_action Read_file inp])
      else if name = ''write_file'' then Inr (''Writing file...'', [mk_action Write_file inp])
      else if name = ''list_dir'' then Inr (''Listing directory...'', [mk_action List_dir inp])
      else if name = ''clipboard_read'' then Inr (''Reading clipboard...'', [mk_action Clipboard_read []])
      else if name = ''clipboard_write'' then
        rbind (dindex inp ''text'') (\<lambda>t.
          Inr (''Writing clipboard...'', [mk_action Clipboard_write [(''text'', t)]]))
      else Inr (''unknown tool'', []))"

text \<open>The numbers a tool call carries; anything else raises in the multiplication.\<close>

fun number_of :: "json \<Rightarrow> real res" where
  "number_of (JInt i) = Inr (of_int i)"
| "number_of (JFloat r) = Inr r"
| "number_of (JBool b) = Inr (if b then 1 else 0)"
| "number_of _ = Inl (TypeError ''unsupported operand'')"

fun text_or_empty :: "json \<Rightarrow> string" where
  "text_or_empty (JStr s) = s"
| "text_or_empty _ = []"

text \<open>
  \<open>openai_brain.py\<close>: the vision screenshot text \<open>shot\<close> and the rendered window list are
  arguments.  \<open>int(amount)\<close> is evaluated, and can raise, for a scroll only.
\<close>

definition scroll_amount :: "string \<Rightarrow> params \<Rightarrow> real res" where
  "scroll_amount name args =
     (if name = ''scroll''
      then rbind (py_int (dget_or args ''amount'' (JInt 3))) (\<lambda>i. Inr (of_int i))
      else Inr 3)"

definition call_tool ::
  "string \<Rightarrow> string \<Rightarrow> string \<Rightarrow> params \<Rightarrow> real \<Rightarrow> (string \<times> action list) res" where
  "call_tool shot wins name args scale =
     (if name = ''screenshot'' then Inr (shot, [mk_action Screenshot []])
      else
     rbind (number_of (dget_or args ''x'' (JInt 0))) (\<lambda>x.
     rbind (number_of (dget_or args ''y'' (JInt 0))) (\<lambda>y.
     rbind (scroll_amount name args) (\<lambda>amount.
       let acts = computer_actions name x y (dget_or args ''text'' (JStr []))
                    (dget_or args ''combo'' (JStr [])) 
                    (text_or_empty (dget_or args ''direction'' (JStr ''down''))) amount scale scale
       in if acts \<noteq> [] then
            Inr (if dget args ''x'' \<noteq> None \<and> dget args ''y'' \<noteq> None
                 then name @ '' ('' @ int_str (trunc (x * scale)) @ '','' @ int_str (trunc (y * scale)) @ '')''
                 else name, acts)
          else if name = ''terminal_command'' then
            rbind (terminal_params args) (\<lambda>ps.
              Inr (''terminal command queued'', [mk_action Terminal_command ps]))
          else if name = ''focus_window'' then
            rbind (dindex args ''address'') (\<lambda>a.
              Inr (''focus queued'', [mk_action Focus_window [(''address'', a)]]))
          else if name = ''list_windows'' then Inr (if wins = [] then ''(none)'' else wins, [])
          else if name = ''dispatch_hypr'' then
            rbind (dindex args ''cmd'') (\<lambda>c. Inr (''dispatch queued'', [mk_action Dispatch [(''cmd'', c)]]))
          else if name = ''read_file'' then Inr (''Reading file...'', [mk_action Read_file args])
          else if name = ''write_file'' then Inr (''Writing file...'', [mk_action Write_file args])
          else if name = ''list_dir'' then Inr (''Listing directory...'', [mk_action List_dir args])
          else if name = ''clipboard_read'' then Inr (''Reading clipboard...'', [mk_action Clipboard_read []])
          else if name = ''clipboard_write'' then
            rbind (dindex args ''text'') (\<lambda>t.
              Inr (''Writing clipboard...'', [mk_action Clipboard_write [(''text'', t)]]))
          else Inr (''unknown tool'', [])))))"

text \<open>\<open>coordinate\<close> of a Claude computer action: the first two entries of a list.\<close>

fun coord_of :: "json \<Rightarrow> (real \<times> real) res" where
  "coord_of (JList (a # b # _)) =
     rbind (number_of a) (\<lambda>x. rbind (number_of b) (\<lambda>y. Inr (x, y)))"
| "coord_of (JList _) = Inl (IndexError ''list index out of range'')"
| "coord_of (JObj _) = Inl (KeyError ''0'')"
| "coord_of (JStr s) = (if length s < 2 then Inl (IndexError ''string index out of range'')
                        else Inl (TypeError ''cannot multiply sequence by float''))"
| "coord_of _ = Inl (TypeError ''not subscriptable'')"

definition computer_action_to_actions :: "params \<Rightarrow> real \<Rightarrow> real \<Rightarrow> action list res" where
  "computer_action_to_actions a scale_x scale_y =
     rbind (coord_of (dget_or a ''coordinate'' (JList [JInt 0, JInt 0]))) (\<lambda>(x, y).
     rbind (scroll_amount (text_or_empty (dget_or a ''action'' (JStr []))) a) (\<lambda>amount.
     Inr (computer_actions (text_or_empty (dget_or a ''action'' (JStr []))) x y
            (dget_or a ''text'' (JStr [])) (dget_or a ''key'' (JStr []))
            (text_or_empty (dget_or a ''direction'' (JStr ''down''))) amount scale_x scale_y)))"

section \<open>Decision loops\<close>

definition max_loop :: nat where "max_loop = default_max_iter"

text \<open>
  A reply of the Anthropic API: its content blocks and the stop reason; only the tool uses
  matter to the loop.  The SDK's block objects are not dicts, so the estimate skips them.
\<close>

datatype claude_block = Tool_use string params | Text_block

type_synonym claude_reply = "claude_block list \<times> string"

fun claude_blocks :: "string \<Rightarrow> claude_block list \<Rightarrow> (action list \<times> block option list) res" where
  "claude_blocks wins [] = Inr ([], [])"
| "claude_blocks wins (Text_block # bs) = claude_blocks wins bs"
| "claude_blocks wins (Tool_use name inp # bs) =
     rbind (if name = ''computer''
            then rbind (computer_action_to_actions inp 2 2) (\<lambda>as. Inr (''action queued'', as))
            else handle_custom wins name inp) (\<lambda>(txt, as).
     rbind (claude_blocks wins bs) (\<lambda>(rest, results).
       Inr (as @ rest, Some (B_tool_parts [Some txt]) # results)))"

text \<open>\<open>client i ms\<close> is the reply to the conversation \<open>ms\<close> sent in iteration \<open>i\<close>.\<close>

fun claude_loop ::
  "(nat \<Rightarrow> message list \<Rightarrow> claude_reply res) \<Rightarrow> string \<Rightarrow> nat \<Rightarrow> int
   \<Rightarrow> nat \<Rightarrow> message list \<Rightarrow> action list \<Rightarrow> action list res" where
  "claude_loop client wins keep budget 0 ms acts = Inr acts"
| "claude_loop client wins keep budget (Suc n) ms acts =
     rbind (compact_messages ms keep budget) (\<lambda>ms'.
     rbind (client (max_loop - Suc n) ms') (\<lambda>(content, stop).
     rbind (claude_blocks wins content) (\<lambda>(as, results).
       if stop = ''end_turn'' \<or> results = [] then Inr (acts @ as)
       else claude_loop client wins keep budget n
              (ms' @ [Msg ''assistant'' (C_list (map (\<lambda>_. None) content)),
                      Msg ''user'' (C_list results)])
              (acts @ as))))"

definition context_limits :: "context_config option \<Rightarrow> nat \<times> int" where
  "context_limits cfg = (case cfg of
      None \<Rightarrow> (3, 160000) | Some c \<Rightarrow> (nat (cc_keep_rounds c), cc_budget_tokens c))"

definition user_text :: "string \<Rightarrow> string \<Rightarrow> string" where
  "user_text preamble task =
     (if preamble = [] then ''Task: '' @ task
      else preamble @ [chr_nl, chr_nl] @ ''Task: '' @ task)"

definition claude_decide ::
  "(nat \<Rightarrow> message list \<Rightarrow> claude_reply res) \<Rightarrow> string \<Rightarrow> (params \<Rightarrow> string)
   \<Rightarrow> string \<Rightarrow> brain_context \<Rightarrow> action list res" where
  "claude_decide client wins repr task ctx =
     (let (keep, budget) = context_limits (bx_config ctx)
      in claude_loop client wins keep budget max_loop
           [Msg ''user'' (C_list [Some B_image,
              Some (B_text (user_text (render_user_preamble repr ctx) task))])] [])"

text \<open>
  A reply of an OpenAI-compatible API: its tool calls, each with the name and the arguments
  \<open>json.loads\<close> gives (\<open>None\<close> for malformed JSON, which the loop skips).  The library's
  message object is appended to the conversation; \<open>view\<close> says how the next token estimate
  sees it: as a message with \<open>get\<close>, or as an object without it.
\<close>

type_synonym openai_reply = "(string \<times> params option) list"

fun openai_calls :: "string \<Rightarrow> string \<Rightarrow> real \<Rightarrow> openai_reply \<Rightarrow> (action list \<times> message list) res" where
  "openai_calls shot wins scale [] = Inr ([], [])"
| "openai_calls shot wins scale ((name, None) # cs) = openai_calls shot wins scale cs"
| "openai_calls shot wins scale ((name, Some args) # cs) =
     rbind (call_tool shot wins name args scale) (\<lambda>(txt, as).
     rbind (openai_calls shot wins scale cs) (\<lambda>(rest, msgs).
       Inr (as @ rest, Msg ''tool'' (C_str txt) # msgs)))"

fun openai_loop ::
  "(nat \<Rightarrow> message list \<Rightarrow> openai_reply res) \<Rightarrow> (openai_reply \<Rightarrow> message) \<Rightarrow> string \<Rightarrow> string
   \<Rightarrow> nat \<Rightarrow> int \<Rightarrow> nat \<Rightarrow> message list \<Rightarrow> action list \<Rightarrow> action list res" where
  "openai_loop client view shot wins keep budget 0 ms acts = Inr acts"
| "openai_loop client view shot wins keep budget (Suc n) ms acts =
     rbind (compact_messages ms keep budget) (\<lambda>ms'.
     rbind (client (max_loop - Suc n) ms') (\<lambda>reply.
       if reply = [] then Inr acts
       else rbind (openai_calls shot wins 2 reply) (\<lambda>(as, results).
              openai_loop client view shot wins keep budget n
                (ms' @ [view reply] @ results) (acts @ as))))"

definition openai_decide ::
  "(nat \<Rightarrow> message list \<Rightarrow> openai_reply res) \<Rightarrow> (openai_reply \<Rightarrow> message) \<Rightarrow> string \<Rightarrow> string
   \<Rightarrow> (params \<Rightarrow> string) \<Rightarrow> screen_state \<Rightarrow> string \<Rightarrow> brain_context \<Rightarrow> action list res" where
  "openai_decide client view shot wins repr state task ctx =
     (let (keep, budget) = context_limits (bx_config ctx);
          sys = render_system_prompt ctx @ [chr_nl, chr_nl] @ ''Display: '' @
                int_str (trunc (of_int (ss_width state) / 2)) @ ''x'' @
                int_str (trunc (of_int (ss_height state) / 2)) @
                ''. Coordinates are in scaled image space.''
      in openai_loop client view shot wins keep budget max_loop
           [Msg ''system'' (C_str sys),
            Msg ''user'' (C_list [Some B_image,
              Some (B_text (user_text (render_user_preamble repr ctx) task))])] [])"

section \<open>Provider choice\<close>

record provider_config =
  pv_name :: string
  pv_key_env :: string
  pv_model_env :: string
  pv_default_model :: string
  pv_base_url :: "string option"

definition provider :: "string \<Rightarrow> string \<Rightarrow> string \<Rightarrow> string \<Rightarrow> string option \<Rightarrow> provider_config" where
  "provider n k m d u =
     \<lparr>pv_name = n, pv_key_env = k, pv_model_env = m, pv_default_model = d, pv_base_url = u\<rparr>"

definition providers :: "provider_config dict" where
  "providers =
     [(''openai'', provider ''OpenAI'' ''OPENAI_API_KEY'' ''OPENAI_MODEL'' ''gpt-5.2'' None),
      (''moonshot'', provider ''Moonshot'' ''MOONSHOT_API_KEY'' ''MOONSHOT_MODEL'' ''kimi-k2.6''
         (Some ''https://api.moonshot.ai/v1'')),
      (''groq'', provider ''Groq'' ''GROQ_API_KEY'' ''GROQ_MODEL''
         ''meta-llama/llama-4-maverick-17b-128e-instruct'' (Some ''https://api.groq.com/openai/v1'')),
      (''together'', provider ''Together'' ''TOGETHER_API_KEY'' ''TOGETHER_MODEL''
         ''meta-llama/Llama-4-Maverick-17B-128E-Instruct-FP8'' (Some ''https://api.together.xyz/v1'')),
      (''zai'', provider ''Z.AI'' ''ZAI_API_KEY'' ''ZAI_MODEL'' ''glm-4.6v''
         (Some ''https://api.z.ai/api/paas/v4'')),
      (''qwen'', provider ''Qwen'' ''DASHSCOPE_API_KEY'' ''QWEN_MODEL'' ''qwen3-vl-235b-a22b-instruct''
         (Some ''https://dashscope-intl.aliyuncs.com/compatible-mode/v1''))]"

datatype brain = Claude_brain string | Openai_brain string string "string option"

definition canonical_provider :: "string \<Rightarrow> string res" where
  "canonical_provider name =
     (let p = dget_or brain_aliases (lower name) (lower name)
      in if p \<in> set known_providers then Inr p
         else Inl (BrainSelectionError (''Unknown brain provider: '' @ name)))"

definition env_set :: "string dict \<Rightarrow> string \<Rightarrow> bool" where
  "env_set env k = (strip (dget_or env k []) \<noteq> [])"

definition provider_available :: "string dict \<Rightarrow> string \<Rightarrow> (bool \<times> string) res" where
  "provider_available env p =
     (if p = ''claude'' then
        Inr (if env_set env ''ANTHROPIC_API_KEY'' then (True, ''available'')
             else (False, ''ANTHROPIC_API_KEY not set''))
      else rbind (dindex providers p) (\<lambda>cfg.
        Inr (if env_set env (pv_key_env cfg) then (True, pv_key_env cfg @ '' set'')
             else (False, pv_key_env cfg @ '' not set''))))"

definition build_brain :: "string dict \<Rightarrow> string \<Rightarrow> brain res" where
  "build_brain env key =
     rbind (dindex providers key) (\<lambda>cfg.
       let api_key = strip (dget_or env (pv_key_env cfg) [])
       in if api_key = []
          then Inl (RuntimeError (pv_name cfg @ '' brain selected but '' @ pv_key_env cfg @ '' not set. '' @
                 ''Export it or add it to ~/.config/hyprland-agent/env.''))
          else Inr (Openai_brain api_key (dget_or env (pv_model_env cfg) (pv_default_model cfg))
                      (pv_base_url cfg)))"

definition build_provider :: "string dict \<Rightarrow> string \<Rightarrow> brain res" where
  "build_provider env p =
     (if p = ''claude'' then Inr (Claude_brain (dget_or env ''ANTHROPIC_MODEL'' ''claude-opus-4-7''))
      else build_brain env p)"

definition selectable_providers :: "agent_config \<Rightarrow> string list" where
  "selectable_providers cfg =
     filter (Config.is_enabled (ag_brain cfg)) (bc_auto_order (ag_brain cfg))"

fun auto_select :: "string dict \<Rightarrow> agent_config \<Rightarrow> string list \<Rightarrow> string list \<Rightarrow> brain res" where
  "auto_select env cfg checked [] =
     Inl (BrainSelectionError (''No enabled brain provider is available from '' @ ag_path cfg @
            '': '' @ join ''; '' checked))"
| "auto_select env cfg checked (p # ps) =
     (if \<not> Config.is_enabled (ag_brain cfg) p
      then auto_select env cfg (checked @ [p @ '': disabled'']) ps
      else rbind (provider_available env p) (\<lambda>(ok, reason).
             if ok then build_provider env p
             else auto_select env cfg (checked @ [p @ '': '' @ reason]) ps))"

definition quoted :: "string \<Rightarrow> string" where
  "quoted s = [CHR 0x27] @ s @ [CHR 0x27]"

text \<open>\<open>path\<close> is \<open>CONFIG_PATH\<close>, \<open>loaded\<close> what \<open>load_config()\<close> gave.\<close>

definition get_brain ::
  "string dict \<Rightarrow> string \<Rightarrow> agent_config res \<Rightarrow> string option \<Rightarrow> brain res" where
  "get_brain env path loaded override = (case loaded of
      Inl e \<Rightarrow>
        (case e of
           ConfigError m \<Rightarrow> Inl (BrainSelectionError (''Invalid provider config '' @ path @ '': '' @ m))
         | _ \<Rightarrow> Inl e)
    | Inr cfg \<Rightarrow>
        (let dflt = bc_default (ag_brain cfg);
             choice = lower (case override of
               Some o' \<Rightarrow> if o' \<noteq> [] then o' else if dflt \<noteq> [] then dflt else ''auto''
             | None \<Rightarrow> if dflt \<noteq> [] then dflt else ''auto'')
         in if choice \<noteq> ''auto'' then
              rbind (canonical_provider choice) (\<lambda>p.
                if \<not> Config.is_enabled (ag_brain cfg) p
                then Inl (BrainSelectionError (''Brain provider '' @ quoted p @ '' is disabled in '' @ ag_path cfg))
                else rbind (provider_available env p) (\<lambda>(ok, reason).
                  if \<not> ok
                  then Inl (BrainSelectionError (''Brain provider '' @ quoted p @ '' unavailable: '' @ reason))
                  else build_provider env p))
            else auto_select env cfg [] (bc_auto_order (ag_brain cfg))))"

text \<open>
  \<open>anthropic_client\<close>: how the client of a Claude brain is made each time it decides; \<open>base_url\<close> is passed
  only when it is set.
\<close>

record client_options =
  co_api_key :: string
  co_headers :: "string dict"
  co_max_retries :: int
  co_timeout :: real
  co_base_url :: "string option"

definition anthropic_client :: "string dict \<Rightarrow> client_options res" where
  "anthropic_client env =
     (let api_key = strip (dget_or env ''ANTHROPIC_API_KEY'' []);
          base_url = strip (dget_or env ''ANTHROPIC_BASE_URL'' [])
      in if api_key = []
         then Inl (RuntimeError (''ANTHROPIC_API_KEY not set. Export it (or add it to '' @
                ''~/.config/hyprland-agent/env) before using the claude brain.''))
         else Inr \<lparr>co_api_key = api_key, co_headers = [(''anthropic-beta'', ''computer-use-2025-11-24'')],
                co_max_retries = 5, co_timeout = 60, co_base_url = (if base_url = [] then None else Some base_url)\<rparr>)"

lemma provider_available_known:
  assumes "p \<in> set known_providers"
  shows "\<exists>ok r. provider_available env p = Inr (ok, r)"
  using assms by (auto simp: known_providers_def provider_available_def providers_def)

lemma build_provider_available:
  "provider_available env p = Inr (True, r) \<Longrightarrow> \<exists>b. build_provider env p = Inr b"
  by (auto simp: provider_available_def build_provider_def build_brain_def env_set_def Let_def
           split: if_splits)

lemma auto_select_first:
  assumes "set ps \<subseteq> set known_providers"
  shows "(\<exists>m. auto_select env cfg checked ps = Inl (BrainSelectionError m) \<and>
            (\<forall>p\<in>set ps. Config.is_enabled (ag_brain cfg) p \<longrightarrow>
               (\<exists>r. provider_available env p = Inr (False, r)))) \<or>
         (\<exists>pre p post b r. ps = pre @ p # post \<and> Config.is_enabled (ag_brain cfg) p \<and>
            provider_available env p = Inr (True, r) \<and> build_provider env p = Inr b \<and>
            auto_select env cfg checked ps = Inr b \<and>
            (\<forall>q\<in>set pre. Config.is_enabled (ag_brain cfg) q \<longrightarrow>
               (\<exists>r. provider_available env q = Inr (False, r))))"
  using assms
proof (induction ps arbitrary: checked)
  case (Cons p ps)
  obtain ok r where av: "provider_available env p = Inr (ok, r)"
    using Cons.prems provider_available_known by fastforce
  show ?case
  proof (cases "Config.is_enabled (ag_brain cfg) p \<and> ok")
    case True
    then have av': "provider_available env p = Inr (True, r)" using av by simp
    then obtain b where "build_provider env p = Inr b"
      using build_provider_available by blast
    with True av' show ?thesis
      by (intro disjI2 exI[of _ "[]"] exI[of _ p] exI[of _ ps] exI[of _ b] exI[of _ r]) simp
  next
    case False
    obtain checked' where step: "auto_select env cfg checked (p # ps) = auto_select env cfg checked' ps"
      using False av by (cases "Config.is_enabled (ag_brain cfg) p") auto
    have p: "Config.is_enabled (ag_brain cfg) p \<Longrightarrow> \<exists>r. provider_available env p = Inr (False, r)"
      using False av by simp
    have "set ps \<subseteq> set known_providers" using Cons.prems by simp
    from Cons.IH[OF this, of checked'] show ?thesis
    proof (elim disjE exE conjE)
      fix m
      assume "auto_select env cfg checked' ps = Inl (BrainSelectionError m)"
        and "\<forall>q\<in>set ps. Config.is_enabled (ag_brain cfg) q \<longrightarrow> (\<exists>r. provider_available env q = Inr (False, r))"
      then show ?thesis using step p by (intro disjI1 exI[of _ m]) simp
    next
      fix pre q post b r
      assume "ps = pre @ q # post" "Config.is_enabled (ag_brain cfg) q"
        "provider_available env q = Inr (True, r)" "build_provider env q = Inr b"
        "auto_select env cfg checked' ps = Inr b"
        "\<forall>q\<in>set pre. Config.is_enabled (ag_brain cfg) q \<longrightarrow> (\<exists>r. provider_available env q = Inr (False, r))"
      then show ?thesis using step p
        by (intro disjI2 exI[of _ "p # pre"] exI[of _ q] exI[of _ post] exI[of _ b] exI[of _ r]) simp
    qed
  qed
qed simp

lemma trunc_of_int: "trunc (of_int i) = i"
  by (simp add: trunc_def flip: of_int_minus)

lemma call_tool_pointer:
  assumes "n \<in> set computer_verbs" and "hd n \<noteq> CHR ''u''"
    and "number_of (dget_or args ''x'' (JInt 0)) = Inr x"
    and "number_of (dget_or args ''y'' (JInt 0)) = Inr y"
    and "scroll_amount n args = Inr a"
  shows "\<exists>txt acts. call_tool shot wins n args scale = Inr (txt, acts) \<and>
     (n \<noteq> ''list_windows'' \<longrightarrow> acts \<noteq> []) \<and>
     (n \<notin> {''list_windows'', ''screenshot''} \<longrightarrow> txt \<noteq> ''unknown tool'')"
proof -
  have ne: "computer_actions n x y t c d a scale scale \<noteq> []" for t c d
    using assms(1) by (simp add: computer_actions_empty_iff)
  have "n \<noteq> []" using assms(1) by (auto simp: computer_verbs_def)
  then have u: "n @ s \<noteq> ''unknown tool''" for s
    using assms(2) by (cases n) auto
  from u[of "[]"] u show ?thesis
    by (auto simp: call_tool_def assms ne Let_def)
qed

lemma call_tool_desktop:
  assumes "t \<in> set openai_desktop_tools" and "\<forall>k\<in>set (tl_required t). dget args k \<noteq> None"
    and "number_of (dget_or args ''x'' (JInt 0)) = Inr x"
    and "number_of (dget_or args ''y'' (JInt 0)) = Inr y"
    and "scroll_amount (tl_name t) args = Inr a"
  shows "\<exists>txt acts. call_tool shot wins (tl_name t) args scale = Inr (txt, acts) \<and>
     (tl_name t \<noteq> ''list_windows'' \<longrightarrow> acts \<noteq> []) \<and>
     (tl_name t \<notin> {''list_windows'', ''screenshot''} \<longrightarrow> txt \<noteq> ''unknown tool'')"
proof -
  have "tl_name t \<notin> set computer_verbs"
    using assms(1) by (auto simp: openai_desktop_tools_def tool_def computer_verbs_def)
  then have em: "computer_actions (tl_name t) x y e c d a scale scale = []" for e c d
    by (simp add: computer_actions_empty_iff)
  note call = call_tool_def assms(3-5) em Let_def
  from assms(1) consider
      "tl_name t = ''list_windows''"
    | "tl_name t = ''read_file''" | "tl_name t = ''write_file''" | "tl_name t = ''list_dir''"
    | "tl_name t = ''clipboard_read''"
    | "tl_name t = ''terminal_command''" "''command'' \<in> set (tl_required t)"
    | "tl_name t = ''focus_window''" "''address'' \<in> set (tl_required t)"
    | "tl_name t = ''dispatch_hypr''" "''cmd'' \<in> set (tl_required t)"
    | "tl_name t = ''clipboard_write''" "''text'' \<in> set (tl_required t)"
    by (auto simp: openai_desktop_tools_def tool_def)
  then show ?thesis
  proof cases
    case 1 then show ?thesis by (simp add: call[unfolded 1])
  next
    case 2 then show ?thesis by (simp add: call[unfolded 2])
  next
    case 3 then show ?thesis by (simp add: call[unfolded 3])
  next
    case 4 then show ?thesis by (simp add: call[unfolded 4])
  next
    case 5 then show ?thesis by (simp add: call[unfolded 5])
  next
    case 6
    then obtain v where "dget args ''command'' = Some v" using assms(2) by blast
    with 6(1) show ?thesis by (simp add: call[unfolded 6(1)] terminal_params_def dindex_def)
  next
    case 7
    then obtain v where "dget args ''address'' = Some v" using assms(2) by blast
    with 7(1) show ?thesis by (simp add: call[unfolded 7(1)] dindex_def)
  next
    case 8
    then obtain v where "dget args ''cmd'' = Some v" using assms(2) by blast
    with 8(1) show ?thesis by (simp add: call[unfolded 8(1)] dindex_def)
  next
    case 9
    then obtain v where "dget args ''text'' = Some v" using assms(2) by blast
    with 9(1) show ?thesis by (simp add: call[unfolded 9(1)] dindex_def)
  qed
qed

section \<open>Properties\<close>

text \<open>
  The tool table offered to OpenAI-compatible models and the code that interprets the
  calls agree: a call of any declared tool whose arguments include the required ones, with
  numbers for the coordinates and the amount, is carried out, is never answered with
  \<open>unknown tool\<close>, and queues at least one action except for the window listing.
\<close>

theorem openai_tools_handled:
  assumes "t \<in> set openai_tools"
    and "\<forall>k\<in>set (tl_required t). dget args k \<noteq> None"
    and "\<forall>k v. k \<in> {''x'', ''y'', ''amount''} \<longrightarrow> dget args k = Some v \<longrightarrow> (\<exists>i. v = JInt i)"
  shows "\<exists>txt acts. call_tool shot wins (tl_name t) args scale = Inr (txt, acts) \<and>
     (tl_name t \<noteq> ''list_windows'' \<longrightarrow> acts \<noteq> []) \<and>
     (tl_name t \<notin> {''list_windows'', ''screenshot''} \<longrightarrow> txt \<noteq> ''unknown tool'')"
proof -
  have num: "\<exists>r. number_of (dget_or args k (JInt 0)) = Inr r" if "k \<in> {''x'', ''y''}" for k
    using assms(3) that by (cases "dget args k") (fastforce simp: dget_or_def)+
  obtain x y where xy: "number_of (dget_or args ''x'' (JInt 0)) = Inr x"
      "number_of (dget_or args ''y'' (JInt 0)) = Inr y"
    using num[of "''x''"] num[of "''y''"] by auto
  have "\<exists>a. scroll_amount (tl_name t) args = Inr a"
    using assms(3) by (cases "dget args ''amount''") (fastforce simp: scroll_amount_def dget_or_def)+
  then obtain a where a: "scroll_amount (tl_name t) args = Inr a" by blast
  show ?thesis
  proof (cases "t \<in> set openai_pointer_tools")
    case True
    then have "tl_name t \<in> set computer_verbs" and "hd (tl_name t) \<noteq> CHR ''u''"
      by (auto simp: openai_pointer_tools_def tool_def computer_verbs_def)
    then show ?thesis by (rule call_tool_pointer[OF _ _ xy a])
  next
    case False
    then have "t \<in> set openai_desktop_tools" using assms(1) by (simp add: openai_tools_def)
    then show ?thesis by (rule call_tool_desktop[OF _ assms(2) xy a])
  qed
qed

theorem openai_tools_handled_witness:
  "\<exists>txt acts. call_tool [] [] ''terminal_command'' [(''command'', JStr ''ls'')] 2 = Inr (txt, acts) \<and>
     (''terminal_command'' \<noteq> ''list_windows'' \<longrightarrow> acts \<noteq> []) \<and>
     (''terminal_command'' \<notin> {''list_windows'', ''screenshot''} \<longrightarrow> txt \<noteq> ''unknown tool'')"
  using openai_tools_handled[of "tool ''terminal_command'' [(''command'', ''string''), (''hold_s'', ''number'')] [''command'']"
     "[(''command'', JStr ''ls'')]" "[]" "[]" 2]
  by (simp add: openai_tools_def openai_desktop_tools_def tool_def)

text \<open>
  A pointer action stays on the screen: a model that answers with integer coordinates
  inside the half-size image it was shown gets a mouse move to the doubled coordinates,
  which lie inside the real screen.
\<close>

theorem pointer_stays_on_screen:
  assumes "verb \<in> {''left_click'', ''right_click'', ''middle_click'', ''double_click'', ''mouse_move'', ''scroll''}"
    and "0 \<le> x" and "x < trunc (of_int width / 2)" and "0 \<le> y" and "y < trunc (of_int height / 2)"
  shows "\<exists>rest. computer_actions verb (of_int x) (of_int y) txt combo dir amt 2 2 =
       mk_action Mouse_move [(''x'', JInt (2 * x)), (''y'', JInt (2 * y))] # rest \<and>
     0 \<le> 2 * x \<and> 2 * x < width \<and> 0 \<le> 2 * y \<and> 2 * y < height"
proof -
  have tr: "trunc (of_int i * 2) = 2 * i" for i
    using trunc_of_int[of "2 * i"] by (simp add: mult.commute)
  have half: "2 * i < n" if "0 \<le> i" "i < trunc (of_int n / 2)" for i n
  proof (cases "n < 0")
    case False
    then have "trunc (of_int n / 2) = \<lfloor>of_int n / (2::real)\<rfloor>" by (simp add: trunc_def)
    then have "real_of_int i + 1 \<le> of_int n / 2" using that by linarith
    then show ?thesis by linarith
  next
    case True
    then have "trunc (of_int n / 2) \<le> 0" by (simp add: trunc_def)
    with that show ?thesis by linarith
  qed
  show ?thesis
    using assms half by (auto simp: computer_actions_def point_def tr Let_def)
qed

theorem pointer_stays_on_screen_witness:
  "\<exists>rest. computer_actions ''left_click'' (of_int 10) (of_int 20) (JStr []) (JStr []) [] 3 2 2 =
       mk_action Mouse_move [(''x'', JInt (2 * 10)), (''y'', JInt (2 * 20))] # rest \<and>
     0 \<le> 2 * (10::int) \<and> 2 * 10 < (1920::int) \<and> 0 \<le> 2 * (20::int) \<and> 2 * 20 < (1080::int)"
  by (rule pointer_stays_on_screen) (simp_all add: trunc_def)

text \<open>
  Compaction cuts a conversation only at the start of a user round and never loses the
  system prompt: its result is the conversation itself or, after the optional leading
  system message, a suffix that begins with a user message.
\<close>

theorem compaction_keeps_rounds:
  assumes "compact_messages ms keep budget = Inr out"
  shows "out = ms \<or> (\<exists>sys i. sys \<le> 1 \<and> (sys = 1 \<longleftrightarrow> role_of (hd ms) = Some ''system'') \<and>
     out = take sys ms @ drop i (drop sys ms) \<and> i < length (drop sys ms) \<and>
     role_of (drop sys ms ! i) = Some ''user'')"
  using compact_shape[OF assms] by blast

theorem compaction_keeps_rounds_witness:
  "compact_messages [Msg ''user'' C_none, Msg ''user'' C_none] 1 4 = Inr [Msg ''user'' C_none]"
proof -
  have c: "compact_messages [Msg ''user'' C_none, Msg ''user'' C_none] 1 4 = Inr [Msg ''user'' C_none]"
    by code_simp
  from compaction_keeps_rounds[OF c] c show ?thesis by simp
qed

text \<open>
  With \<open>keep_rounds = 0\<close>, which the configuration accepts, compaction drops nothing
  however small the budget: the index \<open>round_starts[-0]\<close> is the first round.
\<close>

theorem keep_zero_rounds_keeps_all:
  assumes "estimate_tokens ms = Inr n" and "role_of (hd ms) = Some ''user''"
  shows "compact_messages ms 0 budget = Inr ms"
  by (rule compact_keep_zero[OF assms])

theorem keep_zero_rounds_keeps_all_witness:
  "compact_messages [Msg ''user'' C_none, Msg ''user'' C_none] 0 1 =
     Inr [Msg ''user'' C_none, Msg ''user'' C_none]"
  by (rule keep_zero_rounds_keeps_all[where n = 8]) simp_all

text \<open>
  Where the client library's message objects have no \<open>get\<close> method, the OpenAI-compatible
  loop fails in its second round: after a first reply with tool calls that all succeed, the
  token estimate of the next iteration raises \<open>AttributeError\<close>, and no action is returned.
\<close>

theorem openai_second_round_fails:
  assumes "client 0 ms = Inr reply" and "reply \<noteq> []" and "view reply = Msg_object"
    and "openai_calls shot wins 2 reply = Inr (acts, results)"
    and "compact_messages ms keep budget = Inr ms"
  shows "openai_loop client view shot wins keep budget max_loop ms [] =
           Inl (AttributeError ''get'')"
proof -
  have ml: "max_loop = Suc (Suc 18)" by (simp add: max_loop_def default_max_iter_def)
  have first: "max_loop - Suc (Suc 18) = 0" by (simp add: ml)
  have "\<nexists>n. estimate_tokens (ms @ [Msg_object] @ results) = Inr n"
    by (simp add: estimate_tokens_objects)
  then have "estimate_tokens (ms @ [Msg_object] @ results) = Inl (AttributeError ''get'')"
    using estimate_tokens_error by (cases "estimate_tokens (ms @ [Msg_object] @ results)") auto
  then have "compact_messages (ms @ [Msg_object] @ results) keep budget = Inl (AttributeError ''get'')"
    by (simp add: compact_messages_def)
  then have "openai_loop client view shot wins keep budget (Suc 18) (ms @ [Msg_object] @ results) acts =
      Inl (AttributeError ''get'')"
    by (simp only: openai_loop.simps rbind.simps)
  then have "openai_loop client view shot wins keep budget (Suc (Suc 18)) ms [] = Inl (AttributeError ''get'')"
    using assms by (simp only: openai_loop.simps first rbind.simps prod.case if_False append_Nil)
  then show ?thesis by (simp only: ml)
qed

theorem openai_second_round_fails_witness:
  "openai_loop (\<lambda>i ms. Inr [(''clipboard_read'', Some [])]) (\<lambda>r. Msg_object) [] [] 3 100 max_loop
     [Msg ''user'' C_none] [] = Inl (AttributeError ''get'')"
  by (rule openai_second_round_fails[where reply = "[(''clipboard_read'', Some [])]"
        and acts = "[mk_action Clipboard_read []]" and results = "[Msg ''tool'' (C_str ''Reading clipboard...'')]"])
     (simp_all add: call_tool_def scroll_amount_def computer_actions_def compact_messages_def Let_def)

text \<open>
  C33: The automatic choice takes the first usable provider: with a loaded configuration it
  returns the brain of the first provider of \<open>auto_order\<close> that is enabled and has its
  credentials set, and raises \<open>BrainSelectionError\<close> only when there is none.
\<close>

theorem auto_picks_first_usable:
  assumes "load_config other flt path file = Inr cfg" and "bc_default (ag_brain cfg) = ''auto''"
  shows "(\<exists>m. get_brain env path (Inr cfg) None = Inl (BrainSelectionError m) \<and>
            (\<forall>p\<in>set (bc_auto_order (ag_brain cfg)). Config.is_enabled (ag_brain cfg) p \<longrightarrow>
               (\<exists>r. provider_available env p = Inr (False, r)))) \<or>
         (\<exists>pre p post b r. bc_auto_order (ag_brain cfg) = pre @ p # post \<and>
            Config.is_enabled (ag_brain cfg) p \<and> provider_available env p = Inr (True, r) \<and>
            build_provider env p = Inr b \<and> get_brain env path (Inr cfg) None = Inr b \<and>
            (\<forall>q\<in>set pre. Config.is_enabled (ag_brain cfg) q \<longrightarrow>
               (\<exists>r. provider_available env q = Inr (False, r))))"
proof -
  have known: "set (bc_auto_order (ag_brain cfg)) \<subseteq> set known_providers"
    using load_config_ok[OF assms(1)] by (simp add: config_ok_def brain_config_ok_def)
  have "lower ''auto'' = ''auto''" by (simp add: lower_def lower_char_def ordc_def)
  then have "get_brain env path (Inr cfg) None =
      auto_select env cfg [] (bc_auto_order (ag_brain cfg))"
    using assms(2) by (simp add: get_brain_def Let_def)
  then show ?thesis using auto_select_first[OF known, of env cfg "[]"] by simp
qed

theorem auto_picks_first_usable_witness:
  "(\<exists>m. get_brain [] ''c'' (Inr (default_agent_config ''c'')) None = Inl (BrainSelectionError m) \<and>
      (\<forall>p\<in>set known_providers. Config.is_enabled default_brain_config p \<longrightarrow>
         (\<exists>r. provider_available [] p = Inr (False, r)))) \<or>
   (\<exists>pre p post b r. known_providers = pre @ p # post \<and>
      Config.is_enabled default_brain_config p \<and> provider_available [] p = Inr (True, r) \<and>
      build_provider [] p = Inr b \<and> get_brain [] ''c'' (Inr (default_agent_config ''c'')) None = Inr b \<and>
      (\<forall>q\<in>set pre. Config.is_enabled default_brain_config q \<longrightarrow>
         (\<exists>r. provider_available [] q = Inr (False, r))))"
  using auto_picks_first_usable[OF load_config_missing, of "''c''" "[]"]
  by (simp add: default_agent_config_def default_brain_config_def)

lemma auto_select_usable:
  "auto_select env cfg checked ps = Inr b \<Longrightarrow>
   \<exists>p r. provider_available env p = Inr (True, r) \<and> build_provider env p = Inr b"
proof (induction ps arbitrary: checked)
  case (Cons p ps)
  show ?case
  proof (cases "Config.is_enabled (ag_brain cfg) p")
    case True
    with Cons.prems obtain ok r where a: "provider_available env p = Inr (ok, r)"
      by (cases "provider_available env p") auto
    with Cons True show ?thesis by (cases ok) auto
  qed (use Cons in simp)
qed simp

text \<open>
  A brain that is chosen can talk to its model: whether it was named or chosen automatically, a Claude
  brain finds the key of its client in the environment it was chosen in, and any other brain carries a
  key that is not blank.
\<close>

theorem chosen_brain_has_its_key:
  assumes "get_brain env path loaded override = Inr b"
  shows "case b of
      Claude_brain m \<Rightarrow> \<exists>c. anthropic_client env = Inr c \<and> co_api_key c \<noteq> []
    | Openai_brain key model base \<Rightarrow> key \<noteq> []"
proof -
  have "\<exists>p r. provider_available env p = Inr (True, r) \<and> build_provider env p = Inr b"
    using assms auto_select_usable
    by (fastforce simp: get_brain_def Let_def rbind_Inr_iff split: sum.splits py_exc.splits if_splits prod.splits)
  then obtain p r where p: "provider_available env p = Inr (True, r)" "build_provider env p = Inr b" by blast
  then show ?thesis
    by (auto simp: provider_available_def build_provider_def build_brain_def anthropic_client_def env_set_def Let_def
        rbind_Inr_iff split: if_splits)
qed

theorem chosen_brain_has_its_key_witness:
  "\<exists>c. anthropic_client [(''ANTHROPIC_API_KEY'', ''k'')] = Inr c \<and> co_api_key c \<noteq> []"
proof -
  have "lower ''claude'' = ''claude''" by (simp add: lower_def lower_char_def ordc_def)
  then have "get_brain [(''ANTHROPIC_API_KEY'', ''k'')] ''c'' (Inr (default_agent_config ''c'')) (Some ''claude'') =
      Inr (Claude_brain ''claude-opus-4-7'')"
    by (simp add: get_brain_def canonical_provider_def brain_aliases_def known_providers_def Config.is_enabled_def
        default_agent_config_def default_brain_config_def provider_available_def env_set_def build_provider_def
        Let_def strip_def is_space_def ordc_def all_enabled_def)
  from chosen_brain_has_its_key[OF this] show ?thesis by simp
qed

end
