(* ===== verification/Regex.thy ===== *)
theory Regex
  imports Prelude
begin

text \<open>
  The part of Python's \<open>re\<close> module that the command sanitiser
  (\<open>src/src/agent/safety/rate_limit.py\<close>) and the text redaction
  (\<open>src/src/agent/voice/redact.py\<close>) use: character classes, sequence, alternation,
  greedy repetition, word boundaries and the end anchor.  \<open>rx_ends r s i\<close> lists the
  positions where a match of \<open>r\<close> begun at \<open>i\<close> can end, in the order the backtracking
  engine tries them, so its head is the match \<open>re\<close> reports.
\<close>

datatype rx =
    REps
  | RCls bool "(char \<times> char) list"
  | RSeq rx rx
  | RAlt rx rx
  | RStar rx
  | RBound
  | REnd

definition in_class :: "bool \<Rightarrow> (char \<times> char) list \<Rightarrow> char \<Rightarrow> bool" where
  "in_class neg rs c = (neg \<noteq> (\<exists>(a, b) \<in> set rs. ordc a \<le> ordc c \<and> ordc c \<le> ordc b))"

definition is_word :: "char \<Rightarrow> bool" where
  "is_word c = in_class False
     [(CHR ''a'', CHR ''z''), (CHR ''A'', CHR ''Z''), (CHR ''0'', CHR ''9''), (CHR ''_'', CHR ''_'')] c"

definition word_at :: "string \<Rightarrow> nat \<Rightarrow> bool" where
  "word_at s i = (i < length s \<and> is_word (s ! i))"

definition bound_at :: "string \<Rightarrow> nat \<Rightarrow> bool" where
  "bound_at s i = ((0 < i \<and> word_at s (i - 1)) \<noteq> word_at s i)"

definition end_at :: "string \<Rightarrow> nat \<Rightarrow> bool" where
  "end_at s i = (i = length s \<or> (Suc i = length s \<and> s ! i = chr_nl))"

text \<open>Greedy repetition: longer runs first; an empty iteration is not repeated.\<close>

fun star_ends :: "(nat \<Rightarrow> nat list) \<Rightarrow> nat \<Rightarrow> nat \<Rightarrow> nat list" where
  "star_ends f 0 i = [i]"
| "star_ends f (Suc n) i =
     concat (map (star_ends f n) (filter (\<lambda>j. i < j) (f i))) @ [i]"

primrec rx_ends :: "rx \<Rightarrow> string \<Rightarrow> nat \<Rightarrow> nat list" where
  "rx_ends REps s i = [i]"
| "rx_ends (RCls neg rs) s i =
     (if i < length s \<and> in_class neg rs (s ! i) then [Suc i] else [])"
| "rx_ends (RSeq a b) s i = concat (map (rx_ends b s) (rx_ends a s i))"
| "rx_ends (RAlt a b) s i = rx_ends a s i @ rx_ends b s i"
| "rx_ends (RStar a) s i = star_ends (rx_ends a s) (length s - i) i"
| "rx_ends RBound s i = (if bound_at s i then [i] else [])"
| "rx_ends REnd s i = (if end_at s i then [i] else [])"

text \<open>\<open>pattern.search(s)\<close>: the first start position with a match.\<close>

definition rx_search :: "rx \<Rightarrow> string \<Rightarrow> bool" where
  "rx_search r s = list_ex (\<lambda>i. rx_ends r s i \<noteq> []) [0..<Suc (length s)]"

section \<open>Building patterns\<close>

definition r_chr :: "char \<Rightarrow> rx" where "r_chr c = RCls False [(c, c)]"

fun r_str :: "string \<Rightarrow> rx" where
  "r_str [] = REps"
| "r_str [c] = r_chr c"
| "r_str (c # cs) = RSeq (r_chr c) (r_str cs)"

definition r_space :: rx where
  "r_space = RCls False [(CHR 0x09, CHR 0x0D), (CHR 0x1C, CHR 0x20)]"

definition r_nonspace :: rx where
  "r_nonspace = RCls True [(CHR 0x09, CHR 0x0D), (CHR 0x1C, CHR 0x20)]"

definition r_any :: rx where "r_any = RCls True [(chr_nl, chr_nl)]"
definition r_plus :: "rx \<Rightarrow> rx" where "r_plus r = RSeq r (RStar r)"
definition r_opt :: "rx \<Rightarrow> rx" where "r_opt r = RAlt r REps"

fun r_seq :: "rx list \<Rightarrow> rx" where
  "r_seq [] = REps"
| "r_seq [r] = r"
| "r_seq (r # rs) = RSeq r (r_seq rs)"

fun r_times :: "nat \<Rightarrow> rx \<Rightarrow> rx" where
  "r_times 0 r = REps"
| "r_times (Suc n) r = RSeq r (r_times n r)"

definition r_at_least :: "nat \<Rightarrow> rx \<Rightarrow> rx" where
  "r_at_least n r = RSeq (r_times n r) (RStar r)"

section \<open>The engine against a relational semantics\<close>

inductive rx_rel :: "string \<Rightarrow> rx \<Rightarrow> nat \<Rightarrow> nat \<Rightarrow> bool" for s where
  rel_eps: "rx_rel s REps i i"
| rel_cls: "i < length s \<Longrightarrow> in_class neg rs (s ! i) \<Longrightarrow> rx_rel s (RCls neg rs) i (Suc i)"
| rel_seq: "rx_rel s a i j \<Longrightarrow> rx_rel s b j k \<Longrightarrow> rx_rel s (RSeq a b) i k"
| rel_alt1: "rx_rel s a i j \<Longrightarrow> rx_rel s (RAlt a b) i j"
| rel_alt2: "rx_rel s b i j \<Longrightarrow> rx_rel s (RAlt a b) i j"
| rel_star0: "rx_rel s (RStar a) i i"
| rel_star: "rx_rel s a i j \<Longrightarrow> rx_rel s (RStar a) j k \<Longrightarrow> rx_rel s (RStar a) i k"
| rel_bound: "bound_at s i \<Longrightarrow> rx_rel s RBound i i"
| rel_end: "end_at s i \<Longrightarrow> rx_rel s REnd i i"

inductive_cases rel_epsE: "rx_rel s REps i j"
inductive_cases rel_clsE: "rx_rel s (RCls neg rs) i j"
inductive_cases rel_seqE: "rx_rel s (RSeq a b) i j"
inductive_cases rel_altE: "rx_rel s (RAlt a b) i j"
inductive_cases rel_boundE: "rx_rel s RBound i j"
inductive_cases rel_endE: "rx_rel s REnd i j"

lemmas rx_relEs = rel_epsE rel_clsE rel_seqE rel_altE rel_boundE rel_endE

lemma rx_rel_mono: "rx_rel s r i j \<Longrightarrow> i \<le> j \<and> (i \<le> length s \<longrightarrow> j \<le> length s)"
  by (induction rule: rx_rel.induct) auto

lemma star_ends_sound:
  assumes "\<And>i j. j \<in> set (f i) \<Longrightarrow> rx_rel s a i j"
  shows "j \<in> set (star_ends f n i) \<Longrightarrow> rx_rel s (RStar a) i j"
  by (induction n arbitrary: i) (auto intro: rx_rel.intros dest: assms)

lemma star_ends_complete:
  assumes f: "\<And>i j. rx_rel s a i j \<Longrightarrow> i \<le> length s \<Longrightarrow> j \<in> set (f i)"
  shows "rx_rel s (RStar a) i k \<Longrightarrow> i \<le> length s \<Longrightarrow> length s - i \<le> n \<Longrightarrow>
         k \<in> set (star_ends f n i)"
proof (induction "RStar a" i k arbitrary: n rule: rx_rel.induct)
  case (rel_star0 i)
  then show ?case by (cases n) auto
next
  case (rel_star i j k)
  have ij: "i \<le> j" "j \<le> length s"
    using rx_rel_mono[OF rel_star.hyps(1)] rel_star.prems by auto
  show ?case
  proof (cases "i = j")
    case True
    with rel_star show ?thesis by simp
  next
    case False
    then obtain m where n: "n = Suc m"
      using ij rel_star.prems by (cases n) auto
    have "k \<in> set (star_ends f m j)"
      using rel_star.hyps ij rel_star.prems False n by simp
    with n False ij f[OF rel_star.hyps(1)] rel_star.prems show ?thesis by auto
  qed
qed

lemma rx_ends_sound: "j \<in> set (rx_ends r s i) \<Longrightarrow> rx_rel s r i j"
proof (induction r arbitrary: i j)
  case (RSeq a b)
  then obtain m where "m \<in> set (rx_ends a s i)" "j \<in> set (rx_ends b s m)" by auto
  with RSeq.IH show ?case by (blast intro: rel_seq)
next
  case (RStar a)
  then show ?case by (auto intro: star_ends_sound)
qed (auto split: if_splits intro: rx_rel.intros)

lemma rx_ends_complete: "rx_rel s r i j \<Longrightarrow> i \<le> length s \<Longrightarrow> j \<in> set (rx_ends r s i)"
proof (induction r arbitrary: i j)
  case (RSeq a b)
  from RSeq.prems(1) obtain m where m: "rx_rel s a i m" "rx_rel s b m j"
    by (auto elim: rel_seqE)
  then have "m \<le> length s" using rx_rel_mono RSeq.prems(2) by blast
  with m RSeq.IH RSeq.prems(2) have "m \<in> set (rx_ends a s i)" "j \<in> set (rx_ends b s m)"
    by blast+
  then show ?case by auto
next
  case (RStar a)
  then show ?case
    using star_ends_complete[of s a "rx_ends a s"] by simp
qed (auto elim!: rx_relEs)

lemma rx_ends_iff: "i \<le> length s \<Longrightarrow> j \<in> set (rx_ends r s i) \<longleftrightarrow> rx_rel s r i j"
  using rx_ends_sound rx_ends_complete by blast

lemma rx_search_iff: "rx_search r s \<longleftrightarrow> (\<exists>i j. i \<le> length s \<and> rx_rel s r i j)"
proof -
  have "rx_ends r s i \<noteq> [] \<longleftrightarrow> (\<exists>j. rx_rel s r i j)" if "i \<le> length s" for i
    using rx_ends_iff[OF that, of _ r] by (cases "rx_ends r s i") auto
  then show ?thesis
    by (fastforce simp: rx_search_def list_ex_iff simp del: upt_Suc)
qed

section \<open>Words in a text\<close>

lemma rx_rel_chr: "rx_rel s (r_chr c) i j \<longleftrightarrow> i < length s \<and> s ! i = c \<and> j = Suc i"
proof -
  have "ordc a \<le> ordc b \<Longrightarrow> ordc b \<le> ordc a \<Longrightarrow> a = b" for a b
    by (simp add: ordc_def)
  then show ?thesis
    by (auto simp: r_chr_def in_class_def elim!: rel_clsE intro!: rel_cls)
qed

lemma rx_rel_str:
  "i \<le> length s \<Longrightarrow>
   rx_rel s (r_str p) i j \<longleftrightarrow> take (length p) (drop i s) = p \<and> j = i + length p"
proof (induction p arbitrary: i rule: r_str.induct)
  case 1
  then show ?case by (auto intro: rel_eps elim: rel_epsE)
next
  case (2 c)
  show ?case
  proof (cases "i < length s")
    case True
    then have "drop i s = s ! i # drop (Suc i) s" by (simp add: Cons_nth_drop_Suc)
    with True show ?thesis by (auto simp: rx_rel_chr)
  next
    case False
    then show ?thesis by (simp add: rx_rel_chr)
  qed
next
  case (3 c d cs)
  show ?case
  proof (cases "i < length s")
    case True
    then have "drop i s = s ! i # drop (Suc i) s" by (simp add: Cons_nth_drop_Suc)
    with True 3 show ?thesis
      by (auto simp: rx_rel_chr elim!: rel_seqE intro!: rel_seq)
  next
    case False
    with 3 show ?thesis by (auto simp: rx_rel_chr elim!: rel_seqE)
  qed
qed

end
