(* ===== verification/Rate_Limit.thy ===== *)
theory Rate_Limit
  imports Config Regex
begin

text \<open>
  \<open>src/src/agent/safety/rate_limit.py\<close>: the sliding-window limiter per action kind and
  the command sanitiser.  Time stamps are the values \<open>time.monotonic()\<close> returned.
\<close>

section \<open>Sliding-window limiter\<close>

definition gui_kinds :: "string list" where
  "gui_kinds = map ak_value [Type_text, Key, Mouse_move, Click, Scroll]"

definition default_limits :: "(int \<times> int) dict" where
  "default_limits =
     [(ak_value Type_text, (30, 60)), (ak_value Key, (30, 60)), (ak_value Mouse_move, (30, 60)),
      (ak_value Click, (30, 60)), (ak_value Scroll, (30, 60)), (ak_value Terminal_command, (10, 60))]"

definition fallback_limit :: "int \<times> int" where "fallback_limit = (60, 60)"

text \<open>\<open>limits.setdefault("other", \<dots>)\<close> on a dict without that key appends it.\<close>

definition build_limits :: "rate_limit_config option \<Rightarrow> (int \<times> int) dict" where
  "build_limits cfg = (case cfg of
      None \<Rightarrow> default_limits
    | Some c \<Rightarrow>
        map (\<lambda>k. (k, (rl_gui c, 60))) gui_kinds @
        [(ak_value Terminal_command, (rl_terminal c, 60)), (''other'', (rl_other c, 60))])"

record limiter =
  lim_limits :: "(int \<times> int) dict"
  lim_buckets :: "real list dict"

definition new_limiter :: "(int \<times> int) dict option \<Rightarrow> limiter" where
  "new_limiter limits =
     \<lparr>lim_limits = (case limits of
          None \<Rightarrow> default_limits
        | Some l \<Rightarrow> if l = [] then default_limits else l),
      lim_buckets = []\<rparr>"

definition from_config :: "rate_limit_config option \<Rightarrow> limiter" where
  "from_config cfg = new_limiter (Some (build_limits cfg))"

definition limit_window :: "limiter \<Rightarrow> string \<Rightarrow> int \<times> int" where
  "limit_window l kind = (case dget (lim_limits l) kind of
      Some lm \<Rightarrow> lm
    | None \<Rightarrow> dget_or (lim_limits l) ''other'' fallback_limit)"

definition bucket_of :: "limiter \<Rightarrow> string \<Rightarrow> real list" where
  "bucket_of l kind = dget_or (lim_buckets l) kind []"

definition check :: "limiter \<Rightarrow> string \<Rightarrow> real \<Rightarrow> bool \<times> limiter" where
  "check l kind now =
     (let (max_actions, window_s) = limit_window l kind;
          cutoff = now - of_int window_s;
          bucket = dropWhile (\<lambda>t. t \<le> cutoff) (bucket_of l kind)
      in if int (length bucket) \<ge> max_actions
         then (False, l\<lparr>lim_buckets := AList.update kind bucket (lim_buckets l)\<rparr>)
         else (True, l\<lparr>lim_buckets := AList.update kind (bucket @ [now]) (lim_buckets l)\<rparr>))"

definition reconfigure :: "limiter \<Rightarrow> rate_limit_config \<Rightarrow> limiter" where
  "reconfigure l cfg = l\<lparr>lim_limits := build_limits (Some cfg), lim_buckets := []\<rparr>"

definition reset :: "limiter \<Rightarrow> limiter" where
  "reset l = l\<lparr>lim_buckets := []\<rparr>"

subsection \<open>Runs of checks\<close>

text \<open>The calls \<open>check(kind)\<close> of a session, with the times they read, and what they grant.\<close>

fun run_checks :: "limiter \<Rightarrow> (string \<times> real) list \<Rightarrow> limiter" where
  "run_checks l [] = l"
| "run_checks l ((k, t) # cs) = run_checks (snd (check l k t)) cs"

fun granted :: "limiter \<Rightarrow> string \<Rightarrow> (string \<times> real) list \<Rightarrow> real list" where
  "granted l kind [] = []"
| "granted l kind ((k, t) # cs) =
     (let (ok, l') = check l k t
      in (if ok \<and> k = kind then [t] else []) @ granted l' kind cs)"

lemma check_limits [simp]: "lim_limits (snd (check l k t)) = lim_limits l"
  by (auto simp: check_def Let_def split: prod.splits)

lemma limit_window_check [simp]: "limit_window (snd (check l k t)) kind = limit_window l kind"
  by (auto simp: limit_window_def split: option.splits)

lemma bucket_of_check_other:
  "k \<noteq> kind \<Longrightarrow> bucket_of (snd (check l k t)) kind = bucket_of l kind"
  by (auto simp: check_def bucket_of_def dget_or_def Let_def update_conv' split: prod.splits)

lemma check_step:
  assumes "limit_window l k = (mx, w)"
  shows "fst (check l k t) \<longleftrightarrow>
           int (length (dropWhile (\<lambda>x. x \<le> t - of_int w) (bucket_of l k))) < mx"
    and "bucket_of (snd (check l k t)) k =
           dropWhile (\<lambda>x. x \<le> t - of_int w) (bucket_of l k) @
             (if fst (check l k t) then [t] else [])"
  using assms by (auto simp: check_def bucket_of_def dget_or_def Let_def update_conv')

text \<open>
  The times granted so far split into what has left the window of the last call and the
  bucket; no window of the limiter's length holds more than the allowed number.
\<close>

definition in_window :: "real \<Rightarrow> real \<Rightarrow> real list \<Rightarrow> real list" where
  "in_window w T G = filter (\<lambda>t. T - w < t \<and> t \<le> T) G"

definition limiter_inv :: "real \<Rightarrow> nat \<Rightarrow> real \<Rightarrow> real list \<Rightarrow> real list \<Rightarrow> bool" where
  "limiter_inv w mx lst G bucket \<longleftrightarrow>
     (\<forall>t\<in>set G. t \<le> lst) \<and>
     (\<exists>old. G = old @ bucket \<and> (\<forall>t\<in>set old. t \<le> lst - w)) \<and>
     (\<forall>T. length (in_window w T G) \<le> mx)"

lemma in_window_append [simp]: "in_window w T (G @ H) = in_window w T G @ in_window w T H"
  by (simp add: in_window_def)

lemma limiter_inv_init: "limiter_inv w mx t [] []"
  by (simp add: limiter_inv_def in_window_def)

lemma limiter_inv_later: "limiter_inv w mx lst G b \<Longrightarrow> lst \<le> now \<Longrightarrow> limiter_inv w mx now G b"
proof -
  assume a: "limiter_inv w mx lst G b" and le: "lst \<le> now"
  then obtain old where "G = old @ b" "\<forall>t\<in>set old. t \<le> lst - w"
    by (auto simp: limiter_inv_def)
  with le have "\<exists>old. G = old @ b \<and> (\<forall>t\<in>set old. t \<le> now - w)" by fastforce
  moreover have "\<forall>t\<in>set G. t \<le> now"
    using a le by (auto simp: limiter_inv_def intro: order_trans)
  ultimately show ?thesis using a unfolding limiter_inv_def by blast
qed

lemma limiter_inv_evict:
  assumes "limiter_inv w mx now G b"
  shows "limiter_inv w mx now G (dropWhile (\<lambda>t. t \<le> now - w) b)"
proof -
  obtain old where old: "G = old @ b" "\<forall>t\<in>set old. t \<le> now - w"
    using assms by (auto simp: limiter_inv_def)
  let ?P = "\<lambda>t. t \<le> now - w"
  have "G = (old @ takeWhile ?P b) @ dropWhile ?P b"
    using old by simp
  moreover have "\<forall>t\<in>set (old @ takeWhile ?P b). t \<le> now - w"
    using old by (auto dest: set_takeWhileD)
  ultimately show ?thesis
    using assms unfolding limiter_inv_def by blast
qed

lemma limiter_inv_grant:
  assumes inv: "limiter_inv w mx now G b" and room: "length b < mx"
  shows "limiter_inv w mx now (G @ [now]) (b @ [now])"
proof -
  obtain old where old: "G = old @ b" "\<forall>t\<in>set old. t \<le> now - w"
    and le: "\<forall>t\<in>set G. t \<le> now" and bound: "\<And>T. length (in_window w T G) \<le> mx"
    using inv by (auto simp: limiter_inv_def)
  have "length (in_window w T (G @ [now])) \<le> mx" for T
  proof (cases "now \<le> T")
    case True
    then have "in_window w T old = []"
      using old(2) by (fastforce simp: in_window_def filter_empty_conv)
    moreover have "length (in_window w T b) \<le> length b"
      by (simp add: in_window_def)
    moreover have "length (in_window w T [now]) \<le> 1"
      by (simp add: in_window_def)
    ultimately show ?thesis using old(1) room by simp
  next
    case False
    then have "in_window w T [now] = []" by (simp add: in_window_def)
    with bound[of T] show ?thesis by simp
  qed
  moreover have "G @ [now] = old @ (b @ [now])" using old by simp
  ultimately show ?thesis
    using le old(2) unfolding limiter_inv_def by auto
qed

lemma limiter_inv_check:
  assumes "limiter_inv (of_int w) (nat mx) lst G (bucket_of l k)"
    and "lst \<le> t" and "limit_window l k = (mx, w)"
  shows "limiter_inv (of_int w) (nat mx) t (G @ (if fst (check l k t) then [t] else []))
           (bucket_of (snd (check l k t)) k)"
  using limiter_inv_evict[OF limiter_inv_later[OF assms(1,2)]] check_step[OF assms(3), of t]
  by (auto intro: limiter_inv_grant)

lemma granted_window:
  assumes "limiter_inv (of_int w) (nat mx) lst G (bucket_of l kind)"
    and "sorted_wrt (\<le>) (lst # map snd cs)" and "limit_window l kind = (mx, w)"
  shows "length (in_window (of_int w) T (G @ granted l kind cs)) \<le> nat mx"
  using assms
proof (induction cs arbitrary: l lst G)
  case Nil
  then show ?case by (simp add: limiter_inv_def)
next
  case (Cons c cs)
  obtain k t where c: "c = (k, t)" by fastforce
  let ?l = "snd (check l k t)"
  have srt: "lst \<le> t" "sorted_wrt (\<le>) (t # map snd cs)" using Cons.prems(2) c by auto
  show ?case
  proof (cases "k = kind")
    case True
    have "limiter_inv (of_int w) (nat mx) t (G @ (if fst (check l k t) then [t] else []))
           (bucket_of ?l kind)"
      using limiter_inv_check[OF Cons.prems(1) srt(1) Cons.prems(3)] True by simp
    from Cons.IH[OF this srt(2)] Cons.prems(3) True show ?thesis
      by (simp add: c case_prod_beta Let_def)
  next
    case False
    have "limiter_inv (of_int w) (nat mx) t G (bucket_of ?l kind)"
      using limiter_inv_later[OF Cons.prems(1) srt(1)] bucket_of_check_other[OF False] by simp
    from Cons.IH[OF this srt(2)] Cons.prems(3) False show ?thesis
      by (simp add: c case_prod_beta Let_def)
  qed
qed

lemma limit_window_reconfigure_gui:
  "kind \<in> set gui_kinds \<Longrightarrow> limit_window (reconfigure l c) kind = (rl_gui c, 60)"
  by (auto simp: limit_window_def reconfigure_def build_limits_def gui_kinds_def)

lemma limit_window_reconfigure_terminal:
  "limit_window (reconfigure l c) (ak_value Terminal_command) = (rl_terminal c, 60)"
  by (simp add: limit_window_def reconfigure_def build_limits_def gui_kinds_def)

text \<open>
  C22: The sliding window holds.  Whatever calls a session makes, at non-decreasing times,
  no time window of the kind's length contains more granted actions of that kind than its
  configured maximum.
\<close>

theorem rate_limit_window:
  assumes "sorted (map snd calls)" and "bucket_of l kind = []"
    and "limit_window l kind = (max_actions, window_s)"
  shows "length (filter (\<lambda>t. T - of_int window_s < t \<and> t \<le> T) (granted l kind calls))
         \<le> nat max_actions"
proof (cases calls)
  case (Cons c cs)
  have "sorted_wrt (\<le>) (snd c # map snd calls)" using assms(1) Cons by auto
  moreover have "limiter_inv (of_int window_s) (nat max_actions) (snd c) [] (bucket_of l kind)"
    using assms(2) by (simp add: limiter_inv_init)
  ultimately show ?thesis
    using granted_window[of window_s max_actions "snd c" "[]" l kind calls T] assms(3)
    by (simp add: in_window_def)
qed simp

theorem rate_limit_window_witness:
  "length (filter (\<lambda>t. 5 - of_int 60 < t \<and> t \<le> 5)
     (granted (reconfigure (from_config None) \<lparr>rl_gui = 1, rl_terminal = 2, rl_other = 3\<rparr>)
        ''click'' [(''click'', 1), (''click'', 2), (''key'', 4)])) \<le> nat 1"
proof (rule rate_limit_window)
  show "limit_window (reconfigure (from_config None) \<lparr>rl_gui = 1, rl_terminal = 2, rl_other = 3\<rparr>)
     ''click'' = (1, 60)"
    by (simp add: limit_window_def reconfigure_def build_limits_def gui_kinds_def)
qed (simp_all add: bucket_of_def reconfigure_def)

text \<open>
  A limiter that has room grants.  A check is refused exactly when the unexpired
  grants of its kind already fill the window, so an action kind that was not used within
  its window is never refused while its maximum is positive.
\<close>

theorem rate_limit_grants_idle:
  assumes "limit_window l kind = (max_actions, window_s)" and "0 < max_actions"
    and "\<forall>t\<in>set (bucket_of l kind). t \<le> now - of_int window_s"
  shows "fst (check l kind now) \<and> bucket_of (snd (check l kind now)) kind = [now]"
proof -
  have "dropWhile (\<lambda>t. t \<le> now - of_int window_s) (bucket_of l kind) = []"
    using assms(3) by (simp add: dropWhile_eq_Nil_conv)
  then show ?thesis
    using check_step[OF assms(1), of now] assms(2) by (simp del: dropWhile_eq_Nil_conv)
qed

theorem rate_limit_grants_idle_witness:
  "fst (check (from_config None) ''click'' 7) \<and>
   bucket_of (snd (check (from_config None) ''click'' 7)) ''click'' = [7]"
proof (rule rate_limit_grants_idle)
  show "limit_window (from_config None) ''click'' = (30, 60)"
    by (simp add: limit_window_def from_config_def new_limiter_def build_limits_def default_limits_def)
qed (simp_all add: bucket_of_def from_config_def new_limiter_def)

section \<open>Command sanitiser\<close>

text \<open>Each pattern with its source text, which the refusal reason quotes.\<close>

definition pat_pipe_agent :: rx where
  "pat_pipe_agent = r_seq [r_chr CHR ''|'', RStar r_space,
     RAlt (r_str ''hyprland-agent'') (r_str ''agent''), RBound]"

definition pat_background :: rx where
  "pat_background = r_seq [r_chr CHR ''&'', RStar r_space, REnd]"

definition r_letter :: rx where
  "r_letter = RCls False [(CHR ''a'', CHR ''z''), (CHR ''A'', CHR ''Z'')]"

definition pat_rm_root :: rx where
  "pat_rm_root = r_seq [RBound, r_str ''rm'', r_plus r_space,
     r_opt (r_seq [r_chr CHR ''-'', RStar r_letter, r_chr CHR ''f'', RStar r_letter, r_plus r_space]),
     r_chr CHR ''/'', RAlt REnd r_space]"

definition pat_mkfs :: rx where
  "pat_mkfs = r_seq [RBound, r_str ''mkfs'', RBound]"

definition pat_dd :: rx where
  "pat_dd = r_seq [RBound, r_str ''dd'', r_plus r_space, RStar r_any, r_str ''of=/dev/'']"

definition deny_patterns :: "(string \<times> rx) list" where
  "deny_patterns =
     [([CHR 0x5C] @ ''|'' @ [CHR 0x5C] @ ''s*(hyprland-agent|agent)'' @ [CHR 0x5C] @ ''b'',
       pat_pipe_agent),
      (''&'' @ [CHR 0x5C] @ ''s*$'', pat_background),
      ([CHR 0x5C] @ ''brm'' @ [CHR 0x5C] @ ''s+(-[a-zA-Z]*f[a-zA-Z]*'' @ [CHR 0x5C] @ ''s+)?/($|''
         @ [CHR 0x5C] @ ''s)'', pat_rm_root),
      ([CHR 0x5C] @ ''bmkfs'' @ [CHR 0x5C] @ ''b'', pat_mkfs),
      ([CHR 0x5C] @ ''bdd'' @ [CHR 0x5C] @ ''s+.*of=/dev/'', pat_dd)]"

definition sanitize_command :: "string \<Rightarrow> bool \<times> string" where
  "sanitize_command command =
     (let stripped = strip command
      in case List.find (\<lambda>p. rx_search (snd p) stripped) deny_patterns of
           Some p \<Rightarrow> (False, ''blocked pattern: '' @ repr_str (fst p))
         | None \<Rightarrow> (True, []))"

lemma sanitize_safe_iff:
  "fst (sanitize_command c) \<longleftrightarrow> (\<forall>p\<in>set deny_patterns. \<not> rx_search (snd p) (strip c))"
  by (auto simp: sanitize_command_def Let_def find_None split: option.splits dest: find_Some_mem)

lemma sanitize_reason: "sanitize_command c = (False, r) \<Longrightarrow> r \<noteq> []"
  by (auto simp: sanitize_command_def Let_def split: option.splits)

text \<open>A matched \<open>mkfs\<close> is the word between two boundaries; with \<open>&\<close> last the command is refused.\<close>

lemma r_seq3: "rx_rel s (r_seq [a, b, c]) i j \<longleftrightarrow>
    (\<exists>k l. rx_rel s a i k \<and> rx_rel s b k l \<and> rx_rel s c l j)"
  by (auto elim!: rel_seqE intro: rel_seq)

lemma background_refused:
  assumes "strip c = u @ ''&''"
  shows "\<not> fst (sanitize_command c)"
proof -
  let ?s = "u @ ''&''"
  have "rx_rel ?s pat_background (length u) (Suc (length u))"
    unfolding pat_background_def r_seq3
    by (intro exI[of _ "Suc (length u)"] conjI)
       (auto simp: rx_rel_chr end_at_def intro!: rel_star0 rel_end)
  then have "rx_search pat_background (strip c)"
    unfolding rx_search_iff assms
    by (intro exI[of _ "length u"] exI[of _ "Suc (length u)"]) simp
  then show ?thesis by (auto simp: sanitize_safe_iff deny_patterns_def)
qed

lemma mkfs_refused:
  assumes "strip c = u @ ''mkfs'' @ v"
    and "u = [] \<or> \<not> is_word (last u)" and "v = [] \<or> \<not> is_word (hd v)"
  shows "\<not> fst (sanitize_command c)"
proof -
  let ?s = "u @ ''mkfs'' @ v" and ?n = "length u"
  have w: "is_word (CHR ''m'')" "is_word (CHR ''s'')"
    by (simp_all add: is_word_def in_class_def ordc_def)
  have b1: "bound_at ?s ?n"
    using assms(2) w by (cases "u = []") (auto simp: bound_at_def word_at_def nth_append last_conv_nth)
  have b2: "bound_at ?s (?n + 4)"
    using assms(3) w by (cases v) (auto simp: bound_at_def word_at_def nth_append)
  have "rx_rel ?s (r_str ''mkfs'') ?n (?n + 4)"
    by (subst rx_rel_str) auto
  then have "rx_rel ?s pat_mkfs ?n (?n + 4)"
    unfolding pat_mkfs_def r_seq3 using b1 b2 by (blast intro: rel_bound)
  then have "rx_search pat_mkfs (strip c)"
    unfolding rx_search_iff assms by (intro exI[of _ ?n] exI[of _ "?n + 4"]) simp
  then show ?thesis by (auto simp: sanitize_safe_iff deny_patterns_def)
qed

end
