(* ===== verification/Desktop.thy ===== *)
theory Desktop
  imports Brain Rate_Limit
begin

text \<open>
  The desktop as a run of the agent sees it: the process tree (\<open>_process_tree_contains\<close> of
  \<open>orchestrator.py\<close>), the answers of the environment, the trace of what the agent did to the
  desktop, and the operations that thread them, with exceptions as values.
\<close>

section \<open>The process tree\<close>

text \<open>An entry of \<open>/proc\<close>: its name, and its status and command line where they can be read.\<close>

record proc_entry =
  pe_name :: string
  pe_files :: "(string \<times> string) option"

definition line_end :: "char \<Rightarrow> bool" where
  "line_end c = (ordc c \<in> {10, 11, 12, 13, 28, 29, 30})"

fun split_lines :: "string \<Rightarrow> string \<Rightarrow> string list" where
  "split_lines acc [] = (if acc = [] then [] else [acc])"
| "split_lines acc [c] = (if line_end c then [acc] else [acc @ [c]])"
| "split_lines acc (c # d # cs) =
     (if line_end c
      then acc # split_lines [] (if c = CHR 0x0D \<and> d = chr_nl then cs else d # cs)
      else split_lines (acc @ [c]) (d # cs))"

fun ppid_of :: "string list \<Rightarrow> int res" where
  "ppid_of [] = Inr 0"
| "ppid_of (line # rest) =
     (if startswith line ''PPid:'' then
        (case words line of
           _ # w # _ \<Rightarrow> (case parse_int w of
               None \<Rightarrow> Inl (ValueError ''invalid literal for int()'') | Some i \<Rightarrow> Inr i)
         | _ \<Rightarrow> Inl (IndexError ''list index out of range''))
      else ppid_of rest)"

type_synonym proc_table = "(int \<times> int list) list \<times> (int \<times> string) list"

definition children_of :: "(int \<times> int list) list \<Rightarrow> int \<Rightarrow> int list" where
  "children_of ch p = (case map_of ch p of None \<Rightarrow> [] | Some l \<Rightarrow> l)"

definition proc_details :: "string \<Rightarrow> string \<Rightarrow> string \<Rightarrow> string" where
  "proc_details name status cmdline =
     lower (name @ '' '' @ status @ '' '' @ map (\<lambda>c. if c = CHR 0x00 then CHR '' '' else c) cmdline)"

fun scan_proc :: "proc_entry list \<Rightarrow> proc_table \<Rightarrow> proc_table res" where
  "scan_proc [] tab = Inr tab"
| "scan_proc (e # es) (ch, cands) =
     (if pe_name e = [] \<or> \<not> list_all is_digit (pe_name e) then scan_proc es (ch, cands)
      else case pe_files e of
        None \<Rightarrow> scan_proc es (ch, cands)
      | Some (status, cmdline) \<Rightarrow>
          (let pid = int (digits_val (pe_name e))
           in rbind (ppid_of (split_lines [] status)) (\<lambda>ppid.
                scan_proc es
                  (AList.update ppid (children_of ch ppid @ [pid]) ch,
                   AList.update pid (proc_details (pe_name e) status cmdline) cands))))"

definition details_of :: "(int \<times> string) list \<Rightarrow> int \<Rightarrow> string" where
  "details_of cands p = (case map_of cands p of None \<Rightarrow> [] | Some d \<Rightarrow> d)"

definition marked :: "string list \<Rightarrow> (int \<times> string) list \<Rightarrow> int \<Rightarrow> bool" where
  "marked markers cands p = list_ex (contains (details_of cands p)) markers"

text \<open>
  The depth-first search: the head of the list is the top of the stack, so a node's children
  go in front in reverse order.
\<close>

function tree_search ::
  "(int \<times> int list) list \<Rightarrow> (int \<Rightarrow> bool) \<Rightarrow> int list \<Rightarrow> int list \<Rightarrow> bool" where
  "tree_search ch hit [] seen = False"
| "tree_search ch hit (p # st) seen =
     (if p \<in> set seen then tree_search ch hit st seen
      else if hit p then True
      else tree_search ch hit (rev (children_of ch p) @ st) (p # seen))"
  by pat_completeness auto
termination
proof (relation "measures [\<lambda>(ch, _, _, seen). card (fst ` set ch - set seen), \<lambda>(_, _, st, _). length st]",
       simp, simp, goal_cases)
  case (1 ch hit p st seen)
  show ?case
  proof (cases "p \<in> fst ` set ch")
    case True
    then have "fst ` set ch - set (p # seen) \<subset> fst ` set ch - set seen"
      using 1 by auto
    then have "card (fst ` set ch - set (p # seen)) < card (fst ` set ch - set seen)"
      by (intro psubset_card_mono) auto
    then show ?thesis by simp
  next
    case False
    then have "children_of ch p = []"
      by (simp add: children_of_def map_of_eq_None_iff[THEN iffD2])
    moreover have "fst ` set ch - set (p # seen) = fst ` set ch - set seen"
      using False by auto
    ultimately show ?thesis by simp
  qed
qed

definition process_tree_contains :: "proc_entry list \<Rightarrow> int \<Rightarrow> string list \<Rightarrow> bool res" where
  "process_tree_contains proc pid markers =
     rbind (scan_proc proc ([], [])) (\<lambda>(ch, cands).
       Inr (tree_search ch (marked markers cands) [pid] []))"

definition child_rel :: "(int \<times> int list) list \<Rightarrow> (int \<times> int) set" where
  "child_rel ch = {(p, q). q \<in> set (children_of ch p)}"

lemma escapes_seen:
  assumes "(s, q) \<in> (child_rel ch)\<^sup>*" and "s \<in> S" and "q \<notin> S"
    and "child_rel ch `` S \<subseteq> S \<union> T"
  shows "\<exists>t\<in>T - S. (t, q) \<in> (child_rel ch)\<^sup>*"
  using assms(1,2)
proof (induction rule: converse_rtrancl_induct)
  case (step y z)
  then show ?case using assms(4) by (cases "z \<in> S") auto
qed (use assms(3) in simp)

lemma tree_search_iff:
  assumes "\<forall>s\<in>set seen. \<not> hit s" and "child_rel ch `` set seen \<subseteq> set seen \<union> set st"
  shows "tree_search ch hit st seen \<longleftrightarrow> (\<exists>s\<in>set st. \<exists>q. (s, q) \<in> (child_rel ch)\<^sup>* \<and> hit q)"
  using assms
proof (induction ch hit st seen rule: tree_search.induct)
  case (2 ch hit p st seen)
  show ?case
  proof (cases "p \<in> set seen")
    case True
    have sub: "child_rel ch `` set seen \<subseteq> set seen \<union> set st"
      using "2.prems"(2) True by auto
    have "\<exists>s\<in>set st. \<exists>q. (s, q) \<in> (child_rel ch)\<^sup>* \<and> hit q" if "(p, q) \<in> (child_rel ch)\<^sup>*" "hit q" for q
      using escapes_seen[OF that(1) True _ sub] that(2) "2.prems"(1) by blast
    then show ?thesis
      using "2.IH"(1)[OF True "2.prems"(1) sub] True by auto
  next
    case False
    note new = False
    show ?thesis
    proof (cases "hit p")
      case hit: False
      have sub: "child_rel ch `` set (p # seen) \<subseteq> set (p # seen) \<union> set (rev (children_of ch p) @ st)"
        using "2.prems"(2) by (auto simp: child_rel_def)
      have "tree_search ch hit (p # st) seen \<longleftrightarrow>
          (\<exists>s\<in>set (rev (children_of ch p) @ st). \<exists>q. (s, q) \<in> (child_rel ch)\<^sup>* \<and> hit q)"
        using "2.IH"(2)[OF new hit _ sub] "2.prems"(1) new hit by simp
      also have "\<dots> \<longleftrightarrow> (\<exists>s\<in>set (p # st). \<exists>q. (s, q) \<in> (child_rel ch)\<^sup>* \<and> hit q)"
      proof -
        have "(\<exists>q. (p, q) \<in> (child_rel ch)\<^sup>* \<and> hit q) \<longleftrightarrow>
            (\<exists>s\<in>set (children_of ch p). \<exists>q. (s, q) \<in> (child_rel ch)\<^sup>* \<and> hit q)"
        proof
          assume "\<exists>q. (p, q) \<in> (child_rel ch)\<^sup>* \<and> hit q"
          then obtain q where q: "(p, q) \<in> (child_rel ch)\<^sup>*" "hit q" by blast
          with hit obtain s where "(p, s) \<in> child_rel ch" "(s, q) \<in> (child_rel ch)\<^sup>*"
            by (metis converse_rtranclE)
          with q(2) show "\<exists>s\<in>set (children_of ch p). \<exists>q. (s, q) \<in> (child_rel ch)\<^sup>* \<and> hit q"
            by (auto simp: child_rel_def)
        next
          assume "\<exists>s\<in>set (children_of ch p). \<exists>q. (s, q) \<in> (child_rel ch)\<^sup>* \<and> hit q"
          then obtain s q where "(p, s) \<in> child_rel ch" "(s, q) \<in> (child_rel ch)\<^sup>*" "hit q"
            by (auto simp: child_rel_def)
          then show "\<exists>q. (p, q) \<in> (child_rel ch)\<^sup>* \<and> hit q"
            by (blast intro: converse_rtrancl_into_rtrancl)
        qed
        then show ?thesis by auto
      qed
      finally show ?thesis .
    qed (use new in auto)
  qed
qed simp

section \<open>Environment and trace\<close>

text \<open>
  What the agent does to its environment, in order.  \<open>Poll b\<close> is one reading of the kill
  switch; \<open>Query\<close> a reading of the desktop; the others act.
\<close>

datatype fx =
    Poll bool
  | Disarm
  | Query string
  | Emit string params
  | Spawn "string list"
  | Terminal string
  | Dispatch_fx string
  | Confirm string bool
  | Write string
  | Clip_write string
  | Integration action
  | Decide string

text \<open>
  The answers of the environment: each is a function of the number of things done before, so
  that nothing is assumed about how the desktop changes between two readings.
\<close>

record env =
  en_stop :: "nat \<Rightarrow> bool"
  en_now :: "nat \<Rightarrow> real"
  en_active :: "nat \<Rightarrow> window option res"
  en_proc :: "nat \<Rightarrow> proc_entry list"
  en_allowlist :: "nat \<Rightarrow> json option"
  en_screen :: "nat \<Rightarrow> nat list res"
  en_monitors :: "nat \<Rightarrow> monitor list res"
  en_clients :: "nat \<Rightarrow> window list res"
  en_spawn :: "nat \<Rightarrow> string list \<Rightarrow> proc_wait"
  en_term :: "nat \<Rightarrow> string \<Rightarrow> term_wait"
  en_dispatch :: "nat \<Rightarrow> string \<Rightarrow> string res"
  en_answer :: "nat \<Rightarrow> string option"
  en_handle :: "nat \<Rightarrow> action \<Rightarrow> action_result option"
  en_integrations :: "nat \<Rightarrow> string dict"
  en_recall :: "nat \<Rightarrow> string \<Rightarrow> string dict list res"
  en_lessons :: "nat \<Rightarrow> string list res"
  en_decide :: "nat \<Rightarrow> screen_state \<Rightarrow> string \<Rightarrow> brain_context \<Rightarrow> action list res"
  en_gray :: "nat list \<Rightarrow> nat list res"
  en_home :: string
  en_walk :: "nat \<Rightarrow> string \<Rightarrow> walk_step list"
  en_dumps :: "params list \<Rightarrow> string"
  en_str :: "json \<Rightarrow> string"
  en_flt :: "string \<Rightarrow> real option"
  en_fmt :: "real \<Rightarrow> string"
  en_decode :: "nat list \<Rightarrow> string"

text \<open>The state a run threads: the module's rate limiter, the misses, the files, the trace.\<close>

record desk =
  dk_limiter :: limiter
  dk_configured :: bool
  dk_misses :: misses
  dk_fs :: fsys
  dk_trace :: "fx list"

type_synonym 'a act = "desk \<Rightarrow> 'a res \<times> desk"

definition ret :: "'a \<Rightarrow> 'a act" where "ret x s = (Inr x, s)"
definition lift :: "'a res \<Rightarrow> 'a act" where "lift r s = (r, s)"

definition sbind :: "'a act \<Rightarrow> ('a \<Rightarrow> 'b act) \<Rightarrow> 'b act" where
  "sbind m f s = (case m s of (Inl e, s') \<Rightarrow> (Inl e, s') | (Inr x, s') \<Rightarrow> f x s')"

text \<open>\<open>log_fx x\<close> appends to the trace; \<open>ask q f\<close> reads the environment at the present step.\<close>

definition log_fx :: "fx \<Rightarrow> unit act" where
  "log_fx x s = (Inr (), s\<lparr>dk_trace := dk_trace s @ [x]\<rparr>)"

definition ask :: "(nat \<Rightarrow> 'a) \<Rightarrow> 'a act" where
  "ask f s = (Inr (f (length (dk_trace s))), s)"

definition query :: "string \<Rightarrow> (nat \<Rightarrow> 'a res) \<Rightarrow> 'a act" where
  "query what f = sbind (ask f) (\<lambda>r. sbind (log_fx (Query what)) (\<lambda>_. lift r))"

definition with_limiter :: "(limiter \<Rightarrow> 'a \<times> limiter) \<Rightarrow> 'a act" where
  "with_limiter f s = (let (x, l) = f (dk_limiter s) in (Inr x, s\<lparr>dk_limiter := l\<rparr>))"

definition on_state :: "(desk \<Rightarrow> 'a res \<times> desk) \<Rightarrow> 'a act" where
  "on_state f s = (let (r, s') = f s in (r, s'\<lparr>dk_trace := dk_trace s\<rparr>))"

text \<open>\<open>try: m except <these>: h\<close>.\<close>

definition catch :: "'a act \<Rightarrow> (py_exc \<Rightarrow> bool) \<Rightarrow> (py_exc \<Rightarrow> 'a act) \<Rightarrow> 'a act" where
  "catch m these h s = (case m s of
      (Inl e, s') \<Rightarrow> if these e then h e s' else (Inl e, s')
    | (Inr x, s') \<Rightarrow> (Inr x, s'))"

lemma sbind_lift_Inr [simp]: "sbind (lift (Inr x)) f = f x"
  by (simp add: sbind_def lift_def fun_eq_iff)

lemma sbind_ret [simp]: "sbind (ret x) f = f x"
  by (simp add: sbind_def ret_def fun_eq_iff)

text \<open>
  A law on traces: a predicate that holds of the empty trace and of a concatenation when it
  holds of the parts.  \<open>obeys m\<close>: whatever the state, what \<open>m\<close> appends satisfies it.
\<close>

locale trace_law =
  fixes Q :: "fx list \<Rightarrow> bool"
  assumes nil: "Q []" and app: "Q t \<Longrightarrow> Q u \<Longrightarrow> Q (t @ u)"
begin

definition obeys :: "'a act \<Rightarrow> bool" where
  "obeys m \<longleftrightarrow> (\<forall>s. \<exists>t. dk_trace (snd (m s)) = dk_trace s @ t \<and> Q t)"

lemma obeysD: "obeys m \<Longrightarrow> m s = (r, s') \<Longrightarrow> \<exists>t. dk_trace s' = dk_trace s @ t \<and> Q t"
  unfolding obeys_def by (metis snd_conv)

lemma obeysI: "(\<And>s. \<exists>t. dk_trace (snd (m s)) = dk_trace s @ t \<and> Q t) \<Longrightarrow> obeys m"
  by (simp add: obeys_def)

lemma frame: "(\<And>s. dk_trace (snd (m s)) = dk_trace s) \<Longrightarrow> obeys m"
  by (rule obeysI) (simp add: nil)

lemma obeys_ret [intro!]: "obeys (ret x)"
  by (rule frame) (simp add: ret_def)

lemma obeys_lift [intro!]: "obeys (lift r)"
  by (rule frame) (simp add: lift_def)

lemma obeys_ask [intro!]: "obeys (ask f)"
  by (rule frame) (simp add: ask_def)

lemma obeys_with_limiter [intro!]: "obeys (with_limiter f)"
  by (rule frame) (simp add: with_limiter_def split: prod.splits)

lemma obeys_on_state [intro!]: "obeys (on_state f)"
  by (rule frame) (simp add: on_state_def split: prod.splits)

lemma obeys_log: "Q [x] \<Longrightarrow> obeys (log_fx x)"
  by (rule obeysI) (simp add: log_fx_def)

lemma obeys_sbind [intro!]:
  assumes "obeys m" and "\<And>x. obeys (f x)"
  shows "obeys (sbind m f)"
proof (rule obeysI)
  fix s
  obtain r s' where m: "m s = (r, s')" by (cases "m s")
  then obtain t where t: "dk_trace s' = dk_trace s @ t" "Q t"
    using assms(1) obeysD by blast
  show "\<exists>t. dk_trace (snd (sbind m f s)) = dk_trace s @ t \<and> Q t"
  proof (cases r)
    case (Inl e)
    with m t show ?thesis by (auto simp: sbind_def)
  next
    case (Inr x)
    obtain r2 s2 where f: "f x s' = (r2, s2)" by (cases "f x s'")
    then obtain u where "dk_trace s2 = dk_trace s' @ u" "Q u"
      using assms(2) obeysD by blast
    with Inr m t f show ?thesis by (auto simp: sbind_def intro: app)
  qed
qed

lemma obeys_catch [intro!]:
  assumes "obeys m" and "\<And>e. obeys (h e)"
  shows "obeys (catch m these h)"
proof (rule obeysI)
  fix s
  obtain r s' where m: "m s = (r, s')" by (cases "m s")
  then obtain t where t: "dk_trace s' = dk_trace s @ t" "Q t"
    using assms(1) obeysD by blast
  show "\<exists>t. dk_trace (snd (catch m these h s)) = dk_trace s @ t \<and> Q t"
  proof (cases r)
    case (Inl e)
    obtain r2 s2 where h: "h e s' = (r2, s2)" by (cases "h e s'")
    then obtain u where "dk_trace s2 = dk_trace s' @ u" "Q u"
      using assms(2) obeysD by blast
    with Inl m t h show ?thesis by (auto simp: catch_def intro: app)
  next
    case (Inr x)
    with m t show ?thesis by (auto simp: catch_def)
  qed
qed

lemma obeys_query: "Q [Query what] \<Longrightarrow> obeys (query what f)"
  unfolding query_def by (auto intro: obeys_log)

lemma obeys_if [intro!]: "obeys m \<Longrightarrow> obeys n \<Longrightarrow> obeys (if b then m else n)"
  by simp

lemma obeys_option [intro!]:
  "obeys m \<Longrightarrow> (\<And>x. obeys (f x)) \<Longrightarrow> obeys (case v of None \<Rightarrow> m | Some x \<Rightarrow> f x)"
  by (cases v) auto

lemma obeys_prod [intro!]: "(\<And>a b. obeys (f a b)) \<Longrightarrow> obeys (case v of (a, b) \<Rightarrow> f a b)"
  by (cases v) auto

end

end
