(* ===== verification/Orchestrator.thy ===== *)
theory Orchestrator
  imports Desktop
begin

text \<open>
  \<open>src/src/agent/orchestrator.py\<close>: the execution of one action with its guards, the desktop
  state a run starts from, the context handed to the brain, and the two entry points \<open>plan\<close>
  and \<open>run\<close>.  A run's context is its id (\<open>None\<close> where \<open>ctx\<close> is); \<open>ctx.emit\<close> is an entry of
  the trace, and so is every other thing done to the desktop.  The brain is a parameter.
\<close>

section \<open>The keyboard guard\<close>

definition terminal_classes :: "string list" where
  "terminal_classes = [''foot'', ''kitty'', ''alacritty'', ''wezterm'', ''ghostty'']"

definition control_markers :: "string list" where
  "control_markers = [''codex'', ''claude'', ''agent'']"

definition emit_ctx :: "string option \<Rightarrow> string \<Rightarrow> params \<Rightarrow> unit act" where
  "emit_ctx ctx kind payload = (case ctx of None \<Rightarrow> ret () | Some _ \<Rightarrow> log_fx (Emit kind payload))"

definition focused_control_terminal :: "env \<Rightarrow> params option act" where
  "focused_control_terminal E =
     sbind (query ''active_window'' (en_active E)) (\<lambda>active. case active of
       None \<Rightarrow> ret None
     | Some w \<Rightarrow>
         if lower (win_class w) \<notin> set terminal_classes then ret None
         else sbind (query ''proc'' (\<lambda>n. process_tree_contains (en_proc E n) (win_pid w) control_markers))
           (\<lambda>found. ret (if found then Some (window_dump w) else None)))"

definition ensure_keyboard_target_is_safe :: "env \<Rightarrow> string option \<Rightarrow> bool act" where
  "ensure_keyboard_target_is_safe E ctx =
     sbind (focused_control_terminal E) (\<lambda>active. case active of
       None \<Rightarrow> ret True
     | Some w \<Rightarrow>
         sbind (emit_ctx ctx ''blocked''
                  [(''reason'', JStr ''control_terminal_keyboard_target''), (''active'', JObj w)])
           (\<lambda>_. ret False))"

section \<open>One action\<close>

text \<open>Arguments that the code uses as strings: as a path or process argument, or by a method.\<close>

fun str_arg :: "json \<Rightarrow> string res" where
  "str_arg (JStr s) = Inr s"
| "str_arg _ = Inl (TypeError ''expected str'')"

fun str_self :: "string \<Rightarrow> json \<Rightarrow> string res" where
  "str_self meth (JStr s) = Inr s"
| "str_self meth _ = Inl (AttributeError meth)"

fun exc_text :: "py_exc \<Rightarrow> string" where
  "exc_text (PermissionError m) = m"
| "exc_text (FileNotFoundError m) = m"
| "exc_text (NotADirectoryError m) = m"
| "exc_text _ = []"

fun is_file_error :: "py_exc \<Rightarrow> bool" where
  "is_file_error (PermissionError _) = True"
| "is_file_error (FileNotFoundError _) = True"
| "is_file_error (NotADirectoryError _) = True"
| "is_file_error _ = False"

fun is_permission_error :: "py_exc \<Rightarrow> bool" where
  "is_permission_error (PermissionError _) = True"
| "is_permission_error _ = False"

definition nonempty :: "string \<Rightarrow> string option" where
  "nonempty s = (if s = [] then None else Some s)"

definition blocked_result :: "action_kind \<Rightarrow> string \<Rightarrow> action_result" where
  "blocked_result k why = (action_result_of (ak_value k))\<lparr>res_blocked := Some why\<rparr>"

definition stdout_result :: "action_kind \<Rightarrow> string \<Rightarrow> action_result" where
  "stdout_result k text = (action_result_of (ak_value k))\<lparr>res_stdout := Some text\<rparr>"

definition rejected_result :: "action_kind \<Rightarrow> string \<Rightarrow> action_result" where
  "rejected_result k what = (action_result_of (ak_value k))\<lparr>res_rejected := Some what\<rparr>"

definition spawn_checked :: "env \<Rightarrow> string list \<Rightarrow> unit act" where
  "spawn_checked E argv =
     sbind (ask (\<lambda>n. en_spawn E n argv)) (\<lambda>w.
     sbind (log_fx (Spawn argv)) (\<lambda>_. lift (run_checked argv w)))"

definition ask_confirm :: "env \<Rightarrow> string \<Rightarrow> bool act" where
  "ask_confirm E prompt =
     sbind (ask (\<lambda>n. confirm (en_answer E n))) (\<lambda>ok.
     sbind (log_fx (Confirm prompt ok)) (\<lambda>_. ret ok))"

definition hypr_dispatch :: "env \<Rightarrow> action_kind \<Rightarrow> string \<Rightarrow> action_result act" where
  "hypr_dispatch E k cmd =
     sbind (ask (\<lambda>n. en_dispatch E n (dispatch_request cmd))) (\<lambda>r.
     sbind (log_fx (Dispatch_fx cmd)) (\<lambda>_.
     sbind (lift r) (\<lambda>response.
       ret ((action_result_of (ak_value k))\<lparr>res_dispatch := Some response\<rparr>))))"

fun emit_all :: "string option \<Rightarrow> emission list \<Rightarrow> unit act" where
  "emit_all ctx [] = ret ()"
| "emit_all ctx ((k, p) # es) = sbind (emit_ctx ctx k p) (\<lambda>_. emit_all ctx es)"

text \<open>The first emission announces the process, the others follow its end.\<close>

definition run_terminal ::
  "env \<Rightarrow> string option \<Rightarrow> agent_config option \<Rightarrow> string \<Rightarrow> params \<Rightarrow> action_result act" where
  "run_terminal E ctx app command p =
     (let run_id = (case ctx of Some i \<Rightarrow> i | None \<Rightarrow> ''local'');
          visible = truthy (dget_or p ''visible'' (JBool True));
          cap = (case app of Some c \<Rightarrow> nat (tc_capture_cap_kb (ag_terminal c)) * 1024 | None \<Rightarrow> 65536)
      in sbind (lift (py_float (en_flt E) (dget_or p ''hold_s'' (JInt 0)))) (\<lambda>hold_s.
         sbind (ask (\<lambda>n. en_term E n command)) (\<lambda>w.
           let (emissions, outcome) =
                 (if visible then snd (run_visible (en_fmt E) command run_id 300 hold_s w)
                  else run_capture (en_decode E) command run_id 300 cap w)
           in sbind (emit_all ctx (take 1 emissions)) (\<lambda>_.
              sbind (log_fx (Terminal command)) (\<lambda>_.
              if \<not> visible \<and> dget_or p ''stdin'' JNull \<noteq> JNull
                 \<and> str_self ''encode'' (dget_or p ''stdin'' JNull) = Inl (AttributeError ''encode'')
              then lift (Inl (AttributeError ''encode''))
              else sbind (emit_all ctx (drop 1 emissions)) (\<lambda>_.
                   sbind (lift outcome) (\<lambda>(code, out, err, total).
                     ret \<lparr>res_kind = ak_value Terminal_command, res_dispatch = None,
                          res_stdout = nonempty out, res_stderr = nonempty err,
                          res_returncode = Some code, res_blocked = None, res_rejected = None,
                          res_truncated = (if \<not> visible \<and> total > cap then Some True else None),
                          res_pre_hash = None, res_post_hash = None\<rparr>)))))))"

fun click_button :: "json \<Rightarrow> string res" where
  "click_button (JStr s) = Inr s"
| "click_button (JList _) = Inl (TypeError ''unhashable type'')"
| "click_button (JObj _) = Inl (TypeError ''unhashable type'')"
| "click_button _ = Inr []"

definition param :: "params \<Rightarrow> string \<Rightarrow> json act" where
  "param p k = lift (dindex p k)"

definition file_exists :: "fsys \<Rightarrow> string \<Rightarrow> bool" where
  "file_exists fs path =
     (let t = fs_resolve fs path in dget (fs_files fs) t \<noteq> None \<or> t \<in> set (fs_dirs fs))"

definition do_read :: "env \<Rightarrow> params \<Rightarrow> action_result act" where
  "do_read E p =
     catch (sbind (param p ''path'') (\<lambda>pv.
            sbind (lift (py_int (dget_or p ''offset'' (JInt 0)))) (\<lambda>off.
            sbind (lift (py_int (dget_or p ''limit'' (JInt 0)))) (\<lambda>lm.
            sbind (lift (str_arg pv)) (\<lambda>path.
            sbind (on_state (\<lambda>s. (read_file (dk_fs s) (en_home E) path off lm default_read_cap, s)))
              (\<lambda>text. ret (stdout_result Read_file text)))))))
       is_file_error (\<lambda>e. ret (blocked_result Read_file (exc_text e)))"

definition store_write :: "env \<Rightarrow> string \<Rightarrow> string \<Rightarrow> bool \<Rightarrow> unit act" where
  "store_write E path content app =
     sbind (on_state (\<lambda>s. case write_file (dk_fs s) (en_home E) path content app of
              Inl e \<Rightarrow> (Inl e, s) | Inr fs \<Rightarrow> (Inr (), s\<lparr>dk_fs := fs\<rparr>)))
       (\<lambda>_. log_fx (Write path))"

definition do_write :: "env \<Rightarrow> params \<Rightarrow> action_result act" where
  "do_write E p =
     sbind (param p ''path'') (\<lambda>pv.
     sbind (lift (str_arg pv)) (\<lambda>path.
     let app = truthy (dget_or p ''append'' (JBool False)) in
     sbind (on_state (\<lambda>s. (Inr (file_exists (dk_fs s) path \<and> \<not> app), s))) (\<lambda>overwrite.
     sbind (if overwrite then ask_confirm E (''Overwrite file: '' @ path) else ret True) (\<lambda>ok.
     if \<not> ok then ret (rejected_result Write_file path)
     else catch (sbind (param p ''content'') (\<lambda>cv.
                 sbind (lift (str_arg cv)) (\<lambda>content.
                 sbind (store_write E path content app) (\<lambda>_.
                 ret (action_result_of (ak_value Write_file))))))
            is_permission_error (\<lambda>e. ret (blocked_result Write_file (exc_text e)))))))"

definition do_list :: "env \<Rightarrow> params \<Rightarrow> action_result act" where
  "do_list E p =
     catch (sbind (param p ''path'') (\<lambda>pv.
            sbind (lift (str_arg pv)) (\<lambda>path.
            sbind (ask (en_walk E)) (\<lambda>walk.
            sbind (on_state (\<lambda>s. (list_dir (dk_fs s) (en_home E) walk path
                                    (truthy (dget_or p ''recursive'' (JBool False))), s)))
              (\<lambda>entries. ret (stdout_result List_dir (en_dumps E entries)))))))
       is_file_error (\<lambda>e. ret (blocked_result List_dir (exc_text e)))"

definition lazy_limiter :: "agent_config option \<Rightarrow> unit act" where
  "lazy_limiter app = on_state (\<lambda>s. case app of
      None \<Rightarrow> (Inr (), s)
    | Some c \<Rightarrow>
        if dk_configured s then (Inr (), s)
        else (Inr (), s\<lparr>dk_limiter := reconfigure (dk_limiter s) (ag_rate_limit c),
                        dk_configured := True\<rparr>))"

definition keyboard_action ::
  "env \<Rightarrow> string option \<Rightarrow> action_kind \<Rightarrow> string list act \<Rightarrow> action_result act" where
  "keyboard_action E ctx k argv =
     sbind (ensure_keyboard_target_is_safe E ctx) (\<lambda>safe.
       if \<not> safe then ret (blocked_result k ''control_terminal'')
       else sbind argv (\<lambda>a. sbind (spawn_checked E a) (\<lambda>_. ret (action_result_of (ak_value k)))))"

definition do_dispatch :: "env \<Rightarrow> params \<Rightarrow> action_result act" where
  "do_dispatch E p =
     sbind (param p ''cmd'') (\<lambda>cv.
     sbind (lift (str_self ''strip'' cv)) (\<lambda>cmd.
     sbind (if is_destructive_dispatch cmd
            then ask_confirm E (''Hyprland dispatch: '' @ repr_str cmd) else ret True) (\<lambda>ok.
     if \<not> ok then ret (rejected_result Dispatch cmd) else hypr_dispatch E Dispatch cmd)))"

definition perform ::
  "env \<Rightarrow> string option \<Rightarrow> agent_config option \<Rightarrow> action \<Rightarrow> action_result act" where
  "perform E ctx app a =
     (let k = act_kind a; p = act_params a; base = action_result_of (ak_value k) in
      case k of
        Screenshot \<Rightarrow> ret base
      | Terminal_command \<Rightarrow>
          sbind (param p ''command'') (\<lambda>cv.
          sbind (lift (str_self ''strip'' cv)) (\<lambda>command.
            let (safe, reason) = sanitize_command command
            in if \<not> safe then ret (blocked_result k (''unsafe_command: '' @ reason))
               else run_terminal E ctx app command p))
      | Type_text \<Rightarrow> keyboard_action E ctx k
          (sbind (param p ''text'') (\<lambda>t. sbind (lift (str_arg t)) (\<lambda>text. ret (type_text_argv text))))
      | Key \<Rightarrow> keyboard_action E ctx k
          (sbind (param p ''combo'') (\<lambda>c. sbind (lift (str_self ''lower'' c)) (\<lambda>combo. ret (key_argv combo))))
      | Mouse_move \<Rightarrow>
          sbind (param p ''x'') (\<lambda>x. sbind (param p ''y'') (\<lambda>y.
          sbind (spawn_checked E (move_argv (en_str E) x y)) (\<lambda>_. ret base)))
      | Click \<Rightarrow>
          sbind (lift (click_button (dget_or p ''button'' (JStr ''left'')))) (\<lambda>b.
          sbind (spawn_checked E (click_argv b)) (\<lambda>_. ret base))
      | Scroll \<Rightarrow>
          sbind (param p ''amount'') (\<lambda>n.
          sbind (spawn_checked E (scroll_argv (en_str E) n (dget_or p ''horizontal'' (JBool False))))
            (\<lambda>_. ret base))
      | Focus_window \<Rightarrow>
          sbind (param p ''address'') (\<lambda>ad.
            hypr_dispatch E k (''focuswindow address:'' @ py_str (en_str E) ad))
      | Dispatch \<Rightarrow> do_dispatch E p
      | Read_file \<Rightarrow> do_read E p
      | Write_file \<Rightarrow> do_write E p
      | List_dir \<Rightarrow> do_list E p
      | Clipboard_read \<Rightarrow>
          sbind (ask (\<lambda>n. en_spawn E n [''wl-paste'', ''--no-newline''])) (\<lambda>w.
          sbind (log_fx (Query ''clipboard'')) (\<lambda>_.
          sbind (lift (proc_run [''wl-paste'', ''--no-newline''] w)) (\<lambda>r.
            ret (stdout_result k (pr_stdout r)))))
      | Clipboard_write \<Rightarrow>
          sbind (param p ''text'') (\<lambda>t.
          sbind (lift (str_self ''encode'' t)) (\<lambda>text.
          sbind (ask (\<lambda>n. en_spawn E n [''wl-copy''])) (\<lambda>w.
          sbind (log_fx (Clip_write text)) (\<lambda>_.
          sbind (lift (run_checked [''wl-copy''] w)) (\<lambda>_. ret base)))))
      | _ \<Rightarrow>
          (case app of
             None \<Rightarrow> ret base
           | Some c \<Rightarrow>
               sbind (ask (\<lambda>n. en_handle E n a)) (\<lambda>r.
               sbind (log_fx (Integration a)) (\<lambda>_.
               ret (case r of None \<Rightarrow> base | Some x \<Rightarrow> x)))))"

definition execute_action ::
  "env \<Rightarrow> string option \<Rightarrow> agent_config option \<Rightarrow> action \<Rightarrow> action_result act" where
  "execute_action E ctx app a =
     sbind (lazy_limiter app) (\<lambda>_.
     sbind (ask (en_now E)) (\<lambda>now.
     sbind (with_limiter (\<lambda>l. check l (ak_value (act_kind a)) now)) (\<lambda>ok.
       if \<not> ok then ret (blocked_result (act_kind a) ''rate_limited'')
       else perform E ctx app a)))"

section \<open>The state a run starts from\<close>

definition allow_active :: "env \<Rightarrow> window \<Rightarrow> bool act" where
  "allow_active E w =
     sbind (ask (en_allowlist E)) (\<lambda>file.
       on_state (\<lambda>s. let (r, m) = is_allowed file w (dk_misses s) in (r, s\<lparr>dk_misses := m\<rparr>)))"

definition build_state :: "env \<Rightarrow> string option \<Rightarrow> string \<Rightarrow> (screen_state \<times> bool) act" where
  "build_state E ctx task =
     sbind (log_fx Disarm) (\<lambda>_.
     sbind (emit_ctx ctx ''start'' [(''task'', JStr task)]) (\<lambda>_.
     sbind (query ''active_window'' (en_active E)) (\<lambda>active.
     sbind (case active of None \<Rightarrow> ret True | Some w \<Rightarrow> allow_active E w) (\<lambda>allowed.
     case (active, allowed) of
       (Some w, False) \<Rightarrow>
         sbind (emit_ctx ctx ''blocked''
                  [(''reason'', JStr ''window_not_allowlisted''), (''active'', JObj (window_dump w))]) (\<lambda>_.
         ret (\<lparr>ss_png = [], ss_width = 0, ss_height = 0, ss_active = active, ss_windows = []\<rparr>, False))
     | _ \<Rightarrow>
         sbind (query ''screen'' (en_screen E)) (\<lambda>png.
         sbind (query ''monitors'' (en_monitors E)) (\<lambda>mons.
         sbind (query ''clients'' (en_clients E)) (\<lambda>wins.
         let mon = active_monitor mons;
             w = (case mon of Some m \<Rightarrow> mon_width m | None \<Rightarrow> 1920);
             h = (case mon of Some m \<Rightarrow> mon_height m | None \<Rightarrow> 1080)
         in sbind (emit_ctx ctx ''state''
                     [(''active'', case active of Some a \<Rightarrow> JObj (window_dump a) | None \<Rightarrow> JNull)]) (\<lambda>_.
            ret (\<lparr>ss_png = png, ss_width = w, ss_height = h, ss_active = active, ss_windows = wins\<rparr>,
                 True)))))))))"

text \<open>
  \<open>inject_context\<close> of \<open>learning/api.py\<close>, from what the episodic recall and the list of recent
  negative reflections gave: an \<open>Exception\<close> of either only empties its part.
\<close>

definition swallow :: "'a list res \<Rightarrow> 'a list res" where
  "swallow r = (case r of
      Inr xs \<Rightarrow> Inr xs
    | Inl e \<Rightarrow> if is_Exception e then Inr [] else Inl e)"

definition inject_context ::
  "string dict list res \<Rightarrow> string list res \<Rightarrow> string \<Rightarrow> world_snapshot \<Rightarrow> brain_context res" where
  "inject_context recalled lessons brain world =
     rbind (swallow recalled) (\<lambda>eps.
     rbind (swallow lessons) (\<lambda>rows.
       Inr \<lparr>bx_brain = brain, bx_world = world, bx_working = [], bx_config = None,
            bx_recall = eps, bx_reflections = take 3 rows\<rparr>))"

definition assemble_brain_context ::
  "env \<Rightarrow> string \<Rightarrow> agent_config option \<Rightarrow> screen_state \<Rightarrow> string \<Rightarrow> brain_context act" where
  "assemble_brain_context E brain app st task =
     sbind (ask (en_now E)) (\<lambda>now.
     let world = snapshot (ss_active st) (ss_width st) (ss_height st) (ss_windows st) now in
     case app of
       Some c \<Rightarrow>
         sbind (ask (en_integrations E)) (\<lambda>status.
         sbind (ask (\<lambda>n. en_recall E n task)) (\<lambda>recalled.
         sbind (ask (en_lessons E)) (\<lambda>lessons.
         sbind (lift (inject_context recalled lessons brain (world\<lparr>wo_integrations := status\<rparr>)))
           (\<lambda>b. ret (b\<lparr>bx_config := Some (ag_context c)\<rparr>)))))
     | None \<Rightarrow>
         ret \<lparr>bx_brain = brain, bx_world = world, bx_working = [], bx_config = None,
              bx_recall = [], bx_reflections = []\<rparr>)"

section \<open>Plan and run\<close>

definition poll :: "env \<Rightarrow> bool act" where
  "poll E = sbind (ask (\<lambda>n. is_stopped (en_stop E n))) (\<lambda>b. sbind (log_fx (Poll b)) (\<lambda>_. ret b))"

definition decide :: "env \<Rightarrow> screen_state \<Rightarrow> string \<Rightarrow> brain_context \<Rightarrow> action list act" where
  "decide E st task b =
     sbind (ask (\<lambda>n. en_decide E n st task b)) (\<lambda>r.
     sbind (log_fx (Decide task)) (\<lambda>_. lift r))"

definition action_payload :: "action \<Rightarrow> params" where
  "action_payload a = [(''kind'', JStr (ak_value (act_kind a))), (''params'', JObj (act_params a))]"

fun emit_actions :: "string option \<Rightarrow> action list \<Rightarrow> unit act" where
  "emit_actions ctx [] = ret ()"
| "emit_actions ctx (a # as) =
     sbind (emit_ctx ctx ''action'' (action_payload a)) (\<lambda>_. emit_actions ctx as)"

definition plan ::
  "env \<Rightarrow> string \<Rightarrow> string option \<Rightarrow> agent_config option \<Rightarrow> string \<Rightarrow> unit act" where
  "plan E brain ctx app task =
     sbind (build_state E ctx task) (\<lambda>(st, allowed).
     if \<not> allowed then ret ()
     else sbind (poll E) (\<lambda>stopped.
     if stopped then emit_ctx ctx ''killswitch'' []
     else sbind (assemble_brain_context E brain app st task) (\<lambda>b.
          sbind (decide E st task b) (\<lambda>actions.
          sbind (emit_ctx ctx ''actions'' [(''count'', JInt (int (length actions)))]) (\<lambda>_.
          sbind (emit_actions ctx actions) (\<lambda>_.
          emit_ctx ctx ''done'' []))))))"

definition opt_dump :: "string \<Rightarrow> ('a \<Rightarrow> json) \<Rightarrow> 'a option \<Rightarrow> params" where
  "opt_dump k f v = (case v of None \<Rightarrow> [] | Some x \<Rightarrow> [(k, f x)])"

definition result_dump :: "action_result \<Rightarrow> params" where
  "result_dump r =
     [(''kind'', JStr (res_kind r))] @
     opt_dump ''dispatch_response'' JStr (res_dispatch r) @
     opt_dump ''stdout'' JStr (res_stdout r) @ opt_dump ''stderr'' JStr (res_stderr r) @
     opt_dump ''returncode'' JInt (res_returncode r) @
     opt_dump ''blocked'' JStr (res_blocked r) @ opt_dump ''rejected'' JStr (res_rejected r) @
     opt_dump ''truncated'' JBool (res_truncated r) @
     opt_dump ''pre_hash'' JStr (res_pre_hash r) @ opt_dump ''post_hash'' JStr (res_post_hash r)"

definition reported :: "action_result \<Rightarrow> bool" where
  "reported r = list_ex (\<lambda>f. opt_text f \<noteq> [])
     [res_dispatch r, res_blocked r, res_rejected r, res_stdout r, res_stderr r, res_pre_hash r]"

definition pre_hash_of :: "env \<Rightarrow> action_kind \<Rightarrow> nat list \<Rightarrow> string option act" where
  "pre_hash_of E k png =
     (if \<not> verifier_needs k then ret None
      else case phash (en_gray E) png of
        Inr h \<Rightarrow> ret (Some h)
      | Inl e \<Rightarrow> if is_Exception e then ret None else lift (Inl e))"

definition verify_after :: "env \<Rightarrow> string option \<Rightarrow> action_result \<Rightarrow> action_result act" where
  "verify_after E pre r = (case pre of
      None \<Rightarrow> ret r
    | Some h \<Rightarrow>
        catch (sbind (query ''screen'' (en_screen E)) (\<lambda>png.
               sbind (lift (phash (en_gray E) png)) (\<lambda>post. ret (annotate r h post))))
          is_Exception (\<lambda>_. ret r))"

fun run_actions ::
  "env \<Rightarrow> string option \<Rightarrow> agent_config option \<Rightarrow> nat list \<Rightarrow> loop_detector \<Rightarrow> working_memory
   \<Rightarrow> action list \<Rightarrow> unit act" where
  "run_actions E ctx app png det wm [] = emit_ctx ctx ''done'' []"
| "run_actions E ctx app png det wm (a # as) =
     sbind (poll E) (\<lambda>stopped.
     if stopped then emit_ctx ctx ''killswitch'' []
     else sbind (emit_ctx ctx ''action'' (action_payload a)) (\<lambda>_.
          sbind (pre_hash_of E (act_kind a) png) (\<lambda>pre.
          sbind (execute_action E ctx app a) (\<lambda>r0.
          sbind (verify_after E pre r0) (\<lambda>r.
          sbind (if reported r then emit_ctx ctx ''action_result'' (result_dump r) else ret ()) (\<lambda>_.
          let (stuck, det') = observe det a in
          if stuck then
            sbind (emit_ctx ctx ''stuck'' [(''action'', JObj (action_payload a))]) (\<lambda>_.
            lift (Inl (StuckError (''Stuck repeating action: '' @ ak_value (act_kind a)))))
          else run_actions E ctx app png det'
                 (wm_record wm (ak_value (act_kind a)) (act_params a) None) as))))))"

definition run ::
  "env \<Rightarrow> string \<Rightarrow> string option \<Rightarrow> agent_config option \<Rightarrow> string \<Rightarrow> unit act" where
  "run E brain ctx app task =
     sbind (build_state E ctx task) (\<lambda>(st, allowed).
     if \<not> allowed then ret ()
     else sbind (poll E) (\<lambda>stopped.
     if stopped then emit_ctx ctx ''killswitch'' []
     else sbind (assemble_brain_context E brain app st task) (\<lambda>b.
          sbind (decide E st task b) (\<lambda>actions.
          sbind (poll E) (\<lambda>stopped2.
          if stopped2 then emit_ctx ctx ''killswitch'' []
          else sbind (emit_ctx ctx ''actions'' [(''count'', JInt (int (length actions)))]) (\<lambda>_.
               run_actions E ctx app (ss_png st) default_loop_detector (bx_working b) actions))))))"

section \<open>Laws of the trace\<close>

text \<open>
  The interfaces of the laws: what a law must allow for every plan (\<open>plan_law\<close>), every action
  (\<open>action_law\<close>) and every run (\<open>run_law\<close>) to obey it, whatever the environment answers.
\<close>

locale emit_law = trace_law +
  assumes emits: "Q [Emit k p]" and queries: "Q [Query w]"
begin

lemma obeys_emit_ctx [intro!]: "obeys (emit_ctx ctx k p)"
  by (auto simp: emit_ctx_def intro!: obeys_log emits)

lemma obeys_emit_all [intro!]: "obeys (emit_all ctx es)"
  by (induction ctx es rule: emit_all.induct) auto

lemma obeys_ask_for [intro!]: "obeys (query w f)"
  by (intro obeys_query queries)

end

locale plan_law = emit_law +
  assumes polls: "Q [Poll b]" and disarms: "Q [Disarm]" and decides: "Q [Decide task]"
begin

lemma obeys_poll [intro!]: "obeys (poll E)"
  unfolding poll_def by (auto intro!: obeys_log polls)

lemma obeys_build_state [intro!]: "obeys (build_state E ctx task)"
  unfolding build_state_def allow_active_def Let_def
  by (auto intro!: obeys_log disarms split: bool.split)

lemma obeys_assemble [intro!]: "obeys (assemble_brain_context E brain app st task)"
  unfolding assemble_brain_context_def Let_def by auto

lemma obeys_decide [intro!]: "obeys (decide E st task b)"
  unfolding decide_def by (auto intro!: obeys_log decides)

lemma obeys_emit_actions [intro!]: "obeys (emit_actions ctx as)"
  by (induction as) auto

lemma obeys_plan: "obeys (plan E brain ctx app task)"
  unfolding plan_def by auto

end

locale action_law = emit_law +
  assumes spawn: "Q [Spawn argv]"
    and wrote: "Q [Write path]" and clip: "Q [Clip_write text]" and integ: "Q [Integration a]"
    and conf: "Q [Confirm q b]"
    and shell: "fst (sanitize_command c) \<Longrightarrow> Q [Terminal c]"
    and disp: "\<not> is_destructive_dispatch c \<Longrightarrow> Q [Dispatch_fx c]"
    and disp_conf: "Q [Confirm q True, Dispatch_fx c]"

locale run_law = plan_law + action_law

lemma strip_solid:
  assumes "\<not> is_space (hd p)" and "\<not> is_space (last p)" and "p \<noteq> []"
  shows "strip (p @ s) = p @ rev (dropWhile is_space (rev s))"
proof -
  have "dropWhile is_space (p @ s) = p @ s"
    using assms(1,3) by (cases p) auto
  moreover have "dropWhile is_space (rev p) = rev p"
    using assms(2,3) by (cases p rule: rev_cases) auto
  ultimately show ?thesis
    by (cases "list_all is_space s")
       (auto simp: strip_def dropWhile_append list_all_iff dropWhile_eq_Nil_conv)
qed

lemma focuswindow_harmless: "\<not> is_destructive_dispatch (''focuswindow address:'' @ s)"
proof -
  have "\<exists>ws. words (''focuswindow address:'' @ t) = ''focuswindow'' # ws" for t
    by (subst words.simps) (simp add: is_space_def ordc_def)
  then obtain ws where "words (strip (''focuswindow address:'' @ s)) = ''focuswindow'' # ws"
    using strip_solid[of "''focuswindow address:''" s] by (auto simp only: is_space_def ordc_def) auto
  then show ?thesis
    by (simp only: is_destructive_dispatch_def list.case)
       (simp add: destructive_dispatch_def lower_def lower_char_def ordc_def)
qed

lemmas focuswindow_safe [simp] = focuswindow_harmless[simplified]

context action_law
begin

lemma obeys_param [intro!]: "obeys (param p k)"
  unfolding param_def ..

lemma obeys_spawn_checked [intro!]: "obeys (spawn_checked E argv)"
  unfolding spawn_checked_def by (auto intro!: obeys_log spawn)

lemma obeys_ask_confirm [intro!]: "obeys (ask_confirm E prompt)"
  unfolding ask_confirm_def by (auto intro!: obeys_log conf)

lemma obeys_hypr_dispatch: "\<not> is_destructive_dispatch c \<Longrightarrow> obeys (hypr_dispatch E k c)"
  unfolding hypr_dispatch_def by (auto intro!: obeys_log disp)

lemma obeys_keyboard [intro!]: "obeys argv \<Longrightarrow> obeys (keyboard_action E ctx k argv)"
  unfolding keyboard_action_def ensure_keyboard_target_is_safe_def focused_control_terminal_def
  by auto

lemma obeys_do_read [intro!]: "obeys (do_read E p)"
  unfolding do_read_def by auto

lemma obeys_do_write [intro!]: "obeys (do_write E p)"
  unfolding do_write_def store_write_def Let_def by (auto intro!: obeys_log wrote)

lemma obeys_do_list [intro!]: "obeys (do_list E p)"
  unfolding do_list_def by auto

lemma obeys_run_terminal: "fst (sanitize_command c) \<Longrightarrow> obeys (run_terminal E ctx app c p)"
  unfolding run_terminal_def Let_def by (auto intro!: obeys_log shell)

lemma obeys_confirmed_dispatch:
  "obeys (sbind (ask_confirm E q) (\<lambda>ok. if \<not> ok then ret r else hypr_dispatch E k c))"
proof (rule obeysI)
  fix s
  show "\<exists>t. dk_trace (snd (sbind (ask_confirm E q) (\<lambda>ok. if \<not> ok then ret r else hypr_dispatch E k c) s))
          = dk_trace s @ t \<and> Q t"
    by (auto simp: sbind_def ask_confirm_def ask_def log_fx_def ret_def hypr_dispatch_def lift_def
        conf disp_conf split: sum.split)
qed

lemma obeys_do_dispatch [intro!]: "obeys (do_dispatch E p)"
proof -
  have "obeys (sbind (if is_destructive_dispatch c then ask_confirm E q else ret True)
          (\<lambda>ok. if \<not> ok then ret r else hypr_dispatch E k c))" for c q r k
    using obeys_confirmed_dispatch obeys_hypr_dispatch by (cases "is_destructive_dispatch c") simp_all
  then show ?thesis
    unfolding do_dispatch_def by (rule obeys_sbind[OF obeys_param obeys_sbind[OF obeys_lift]])
qed

lemma obeys_perform [intro!]: "obeys (perform E ctx app a)"
proof -
  have "obeys (let (safe, reason) = sanitize_command c
        in if \<not> safe then ret (r reason) else run_terminal E ctx app c p)" for c p and r :: "string \<Rightarrow> action_result"
    by (cases "sanitize_command c") (auto intro: obeys_run_terminal)
  then have t: "obeys (sbind (param p ''command'') (\<lambda>cv. sbind (lift (str_self ''strip'' cv)) (\<lambda>c.
      let (safe, reason) = sanitize_command c
      in if \<not> safe then ret (r reason) else run_terminal E ctx app c p)))" for p and r :: "string \<Rightarrow> action_result"
    by (rule obeys_sbind[OF obeys_param obeys_sbind[OF obeys_lift]])
  show ?thesis
  proof (cases "act_kind a = Terminal_command")
    case True
    then show ?thesis using t by (simp add: perform_def Let_def)
  next
    case False
    then show ?thesis
      by (cases "act_kind a")
         (auto simp: perform_def Let_def intro!: obeys_log queries clip integ obeys_hypr_dispatch)
  qed
qed

lemma obeys_execute [intro!]: "obeys (execute_action E ctx app a)"
  unfolding execute_action_def lazy_limiter_def by auto

lemma obeys_pre_hash [intro!]: "obeys (pre_hash_of E k png)"
  unfolding pre_hash_of_def by (auto split: sum.split)

lemma obeys_verify [intro!]: "obeys (verify_after E pre r)"
  unfolding verify_after_def by auto

end

context run_law
begin

lemma obeys_run_actions [intro!]: "obeys (run_actions E ctx app png det wm as)"
proof (induction as arbitrary: det wm)
  case (Cons a as)
  then have "obeys (let (stuck, det') = observe det a in
      if stuck then
        sbind (emit_ctx ctx k p) (\<lambda>_. lift (Inl e))
      else run_actions E ctx app png det' wm as)" for k p e wm
    by (cases "observe det a") auto
  then show ?case by auto
qed auto

lemma obeys_run: "obeys (run E brain ctx app task)"
  unfolding run_def by auto

end

text \<open>The laws of this program.\<close>

definition sane :: "fx list \<Rightarrow> bool" where
  "sane t \<longleftrightarrow> (\<forall>c. Terminal c \<in> set t \<longrightarrow> fst (sanitize_command c))"

definition confirmed :: "fx list \<Rightarrow> bool" where
  "confirmed t \<longleftrightarrow> (\<forall>u c v. t = u @ Dispatch_fx c # v \<and> is_destructive_dispatch c \<longrightarrow>
     (\<exists>w q. u = w @ [Confirm q True]))"

definition unstopped :: "fx list \<Rightarrow> bool" where
  "unstopped t \<longleftrightarrow> Poll True \<notin> set t"

fun is_passive :: "fx \<Rightarrow> bool" where
  "is_passive (Poll b) = True"
| "is_passive Disarm = True"
| "is_passive (Query w) = True"
| "is_passive (Emit k p) = True"
| "is_passive (Decide task) = True"
| "is_passive _ = False"

lemma confirmed_app: "confirmed t \<Longrightarrow> confirmed u \<Longrightarrow> confirmed (t @ u)"
  unfolding confirmed_def
proof (intro allI impI, elim conjE)
  fix a c v
  assume t: "\<forall>u c v. t = u @ Dispatch_fx c # v \<and> is_destructive_dispatch c \<longrightarrow> (\<exists>w q. u = w @ [Confirm q True])"
    and u: "\<forall>w c v. u = w @ Dispatch_fx c # v \<and> is_destructive_dispatch c \<longrightarrow> (\<exists>x q. w = x @ [Confirm q True])"
    and eq: "t @ u = a @ Dispatch_fx c # v" and d: "is_destructive_dispatch c"
  from eq obtain us where "t = a @ us \<and> us @ u = Dispatch_fx c # v \<or> t @ us = a \<and> u = us @ Dispatch_fx c # v"
    by (auto simp: append_eq_append_conv2)
  then consider (l) "a = t @ us" "u = us @ Dispatch_fx c # v"
    | (r) w where "t = a @ Dispatch_fx c # w"
    by (cases us) auto
  then show "\<exists>w q. a = w @ [Confirm q True]"
  proof cases
    case l
    then show ?thesis using u d by (metis append_assoc)
  qed (use t d in blast)
qed

lemma confirmed_single: "confirmed [x] \<longleftrightarrow> (\<forall>c. x = Dispatch_fx c \<longrightarrow> \<not> is_destructive_dispatch c)"
  by (auto simp: confirmed_def Cons_eq_append_conv)

lemma confirmed_pair: "confirmed [Confirm q True, Dispatch_fx c]"
  by (auto simp: confirmed_def Cons_eq_append_conv)

interpretation sane_law: run_law sane
  by unfold_locales (auto simp: sane_def)

interpretation confirm_law: run_law confirmed
  by unfold_locales (simp_all add: confirmed_app confirmed_single confirmed_pair, simp add: confirmed_def)

interpretation stop_law: action_law unstopped
  by unfold_locales (auto simp: unstopped_def)

interpretation passive_law: plan_law "list_all is_passive"
  by unfold_locales auto

section \<open>Stopping\<close>

definition stop_mark :: "string option \<Rightarrow> fx list" where
  "stop_mark ctx = Poll True # (case ctx of None \<Rightarrow> [] | Some _ \<Rightarrow> [Emit ''killswitch'' []])"

text \<open>\<open>stops ctx m\<close>: if \<open>m\<close> sees the stop flag, that is the last thing it does, and it returns.\<close>

definition stops :: "string option \<Rightarrow> unit act \<Rightarrow> bool" where
  "stops ctx m \<longleftrightarrow> (\<forall>s. \<exists>t. dk_trace (snd (m s)) = dk_trace s @ t \<and>
     (unstopped t \<or> fst (m s) = Inr () \<and> (\<exists>u. t = u @ stop_mark ctx \<and> unstopped u)))"

lemma stopsI: "stop_law.obeys m \<Longrightarrow> stops ctx m"
  unfolding stops_def stop_law.obeys_def by blast

lemma stops_sbind:
  assumes "stop_law.obeys m" and "\<And>x. stops ctx (f x)"
  shows "stops ctx (sbind m f)"
  unfolding stops_def
proof
  fix s :: desk
  obtain r s' where m: "m s = (r, s')" by (cases "m s")
  obtain t where t: "dk_trace s' = dk_trace s @ t" "unstopped t"
    using stop_law.obeysD[OF assms(1) m] by blast
  show "\<exists>t. dk_trace (snd (sbind m f s)) = dk_trace s @ t \<and>
     (unstopped t \<or> fst (sbind m f s) = Inr () \<and> (\<exists>u. t = u @ stop_mark ctx \<and> unstopped u))"
  proof (cases r)
    case (Inl e)
    with m t show ?thesis by (auto simp: sbind_def)
  next
    case (Inr x)
    obtain t2 where t2: "dk_trace (snd (f x s')) = dk_trace s' @ t2"
      "unstopped t2 \<or> fst (f x s') = Inr () \<and> (\<exists>u. t2 = u @ stop_mark ctx \<and> unstopped u)"
      using assms(2)[of x] unfolding stops_def by blast
    have e: "sbind m f s = f x s'" using m Inr by (simp add: sbind_def)
    from t2(2) show ?thesis
    proof
      assume "unstopped t2"
      then show ?thesis
        using t t2(1) by (intro exI[of _ "t @ t2"]) (simp add: e unstopped_def)
    next
      assume "fst (f x s') = Inr () \<and> (\<exists>u. t2 = u @ stop_mark ctx \<and> unstopped u)"
      then obtain u where "fst (f x s') = Inr ()" "t2 = u @ stop_mark ctx" "unstopped u" by blast
      then show ?thesis
        using t t2(1) by (intro exI[of _ "t @ t2"]) (auto simp: e unstopped_def intro!: exI[of _ "t @ u"])
    qed
  qed
qed

lemma stops_poll:
  assumes "stops ctx m"
  shows "stops ctx (sbind (poll E) (\<lambda>b. if b then emit_ctx ctx ''killswitch'' [] else m))"
  unfolding stops_def
proof
  fix s :: desk
  let ?b = "en_stop E (length (dk_trace s))"
  let ?s = "s\<lparr>dk_trace := dk_trace s @ [Poll ?b]\<rparr>"
  have e: "sbind (poll E) (\<lambda>b. if b then emit_ctx ctx ''killswitch'' [] else m) s =
      (if ?b then emit_ctx ctx ''killswitch'' [] ?s else m ?s)"
    by (simp add: poll_def sbind_def ask_def log_fx_def ret_def is_stopped_def)
  show "\<exists>t. dk_trace (snd (sbind (poll E) (\<lambda>b. if b then emit_ctx ctx ''killswitch'' [] else m) s)) = dk_trace s @ t \<and>
     (unstopped t \<or> fst (sbind (poll E) (\<lambda>b. if b then emit_ctx ctx ''killswitch'' [] else m) s) = Inr () \<and>
      (\<exists>u. t = u @ stop_mark ctx \<and> unstopped u))"
  proof (cases ?b)
    case True
    then show ?thesis unfolding e
      by (cases ctx)
         (auto simp: emit_ctx_def log_fx_def ret_def stop_mark_def unstopped_def intro!: exI[of _ "[]"])
  next
    case False
    obtain t where t: "dk_trace (snd (m ?s)) = dk_trace ?s @ t"
      "unstopped t \<or> fst (m ?s) = Inr () \<and> (\<exists>u. t = u @ stop_mark ctx \<and> unstopped u)"
      using assms unfolding stops_def by blast
    from t(2) show ?thesis
    proof
      assume "unstopped t"
      then show ?thesis unfolding e
        using t(1) False by (intro exI[of _ "Poll False # t"]) (simp add: unstopped_def)
    next
      assume "fst (m ?s) = Inr () \<and> (\<exists>u. t = u @ stop_mark ctx \<and> unstopped u)"
      then obtain u where "fst (m ?s) = Inr ()" "t = u @ stop_mark ctx" "unstopped u" by blast
      then show ?thesis unfolding e
        using t(1) False by (auto simp: unstopped_def intro!: exI[of _ "Poll False # u"])
    qed
  qed
qed

lemma stop_law_start:
  "stop_law.obeys (build_state E ctx task)" "stop_law.obeys (assemble_brain_context E brain app st task)"
  "stop_law.obeys (decide E st task b)"
  unfolding build_state_def allow_active_def assemble_brain_context_def decide_def Let_def
  by (auto intro!: stop_law.obeys_log simp: unstopped_def split: bool.split)

lemma stops_run_actions: "stops ctx (run_actions E ctx app png det wm as)"
proof (induction as arbitrary: det wm)
  case Nil
  show ?case by (auto intro!: stopsI)
next
  case (Cons a as)
  have "stops ctx (let (stuck, det') = observe det a in
      if stuck then
        sbind (emit_ctx ctx k p) (\<lambda>_. lift (Inl e))
      else run_actions E ctx app png det' wm as)" for k p e wm
    using Cons.IH by (cases "observe det a") (auto intro!: stopsI)
  then show ?case
    by (simp only: run_actions.simps)
       (intro stops_poll stops_sbind stop_law.obeys_emit_ctx stop_law.obeys_pre_hash
          stop_law.obeys_execute stop_law.obeys_verify stop_law.obeys_if stop_law.obeys_ret)
qed

lemma stops_run: "stops ctx (run E brain ctx app task)"
proof -
  have p: "stops ctx (case v of (st, allowed) \<Rightarrow> if \<not> allowed then ret () else m st)"
    if "\<And>st. stops ctx (m st)" for v :: "screen_state \<times> bool" and m
    using that by (cases v) (auto intro!: stopsI)
  show ?thesis
    unfolding run_def
    by (intro stops_sbind[OF stop_law_start(1)] p stops_poll stops_sbind[OF stop_law_start(2)]
        stops_sbind[OF stop_law_start(3)] stops_sbind[OF stop_law.obeys_emit_ctx] stops_run_actions)
qed

section \<open>A quiet desktop\<close>

text \<open>
  A concrete environment, in which every operation succeeds and the brain proposes the given
  actions; the properties with hypotheses are instantiated on it.
\<close>

definition quiet_env :: "action list \<Rightarrow> env" where
  "quiet_env actions =
     \<lparr>en_stop = (\<lambda>n. False), en_now = (\<lambda>n. 0), en_active = (\<lambda>n. Inr None), en_proc = (\<lambda>n. []),
      en_allowlist = (\<lambda>n. None), en_screen = (\<lambda>n. Inr []), en_monitors = (\<lambda>n. Inr []),
      en_clients = (\<lambda>n. Inr []), en_spawn = (\<lambda>n argv. Exited (Some 0) None None),
      en_term = (\<lambda>n c. T_exit 0 [] []), en_dispatch = (\<lambda>n c. Inr ''ok''),
      en_answer = (\<lambda>n. Some ''y''), en_handle = (\<lambda>n a. None), en_integrations = (\<lambda>n. []),
      en_recall = (\<lambda>n t. Inr []), en_lessons = (\<lambda>n. Inr []),
      en_decide = (\<lambda>n st t b. Inr actions), en_gray = (\<lambda>png. Inl (ValueError ''no image'')),
      en_home = ''/home/u'', en_walk = (\<lambda>n p. []), en_dumps = (\<lambda>es. []), en_str = (\<lambda>j. []),
      en_flt = (\<lambda>s. None), en_fmt = (\<lambda>r. []), en_decode = (\<lambda>bs. [])\<rparr>"

definition fresh_desk :: desk where
  "fresh_desk =
     \<lparr>dk_limiter = new_limiter None, dk_configured = False, dk_misses = [],
      dk_fs = \<lparr>fs_resolve = (\<lambda>p. p), fs_symlink = (\<lambda>p. False), fs_files = [], fs_dirs = []\<rparr>,
      dk_trace = []\<rparr>"


lemma quiet [simp]:
  "en_stop (quiet_env as) n = False" "en_now (quiet_env as) n = 0" "en_active (quiet_env as) n = Inr None"
  "en_screen (quiet_env as) n = Inr []" "en_monitors (quiet_env as) n = Inr []"
  "en_clients (quiet_env as) n = Inr []" "en_decide (quiet_env as) n st t b = Inr as"
  "en_answer (quiet_env as) n = Some ''y''" "en_dispatch (quiet_env as) n c = Inr ''ok''"
  "en_term (quiet_env as) n c = T_exit 0 [] []" "en_gray (quiet_env as) p = Inl (ValueError ''no image'')"
  by (simp_all add: quiet_env_def)

lemma observe_first:
  "observe default_loop_detector a = (False, default_loop_detector\<lparr>ld_history := [action_key a]\<rparr>)"
  by (simp add: observe_def default_loop_detector_def new_loop_detector_def Let_def push_bounded_def)

lemma sanitize_ls: "sanitize_command ''ls'' = (True, [])"
  by code_simp

lemmas act_defs = sbind_def ask_def log_fx_def ret_def lift_def query_def with_limiter_def
  on_state_def catch_def param_def emit_ctx_def

lemmas run_defs = act_defs run_def build_state_def poll_def decide_def assemble_brain_context_def
  execute_action_def lazy_limiter_def pre_hash_of_def verify_after_def is_stopped_def Let_def
  active_monitor_def perform_def dindex_def check_def dget_or_def reported_def verifier_needs_def
  visual_kinds_def phash_def opt_text_def nonempty_def observe_first mk_action_def

lemmas fresh_defs = fresh_desk_def limit_window_def new_limiter_def default_limits_def
  bucket_of_def fallback_limit_def

lemma run_ls:
  "dk_trace (snd (run (quiet_env [mk_action Terminal_command [(''command'', JStr ''ls'')]])
     ''b'' None None ''t'' fresh_desk)) =
   [Disarm, Query ''active_window'', Query ''screen'', Query ''monitors'', Query ''clients'',
    Poll False, Decide ''t'', Poll False, Poll False, Terminal ''ls'']"
  by (simp add: run_defs fresh_defs sanitize_ls run_terminal_def run_visible_def)

lemma run_exit:
  "dk_trace (snd (run (quiet_env [mk_action Dispatch [(''cmd'', JStr ''exit'')]])
     ''b'' None None ''t'' fresh_desk)) =
   [Disarm, Query ''active_window'', Query ''screen'', Query ''monitors'', Query ''clients'',
    Poll False, Decide ''t'', Poll False, Poll False,
    Confirm (''Hyprland dispatch: '' @ repr_str ''exit'') True] @ Dispatch_fx ''exit'' # []"
proof -
  have "is_destructive_dispatch ''exit''" by code_simp
  moreover have "confirm (Some ''y'')" by code_simp
  ultimately show ?thesis
    by (simp add: run_defs fresh_defs do_dispatch_def ask_confirm_def hypr_dispatch_def)
qed

lemma lazy_limiter_frame:
  "\<exists>l c. lazy_limiter app s = (Inr (), s\<lparr>dk_limiter := l, dk_configured := c\<rparr>)"
proof (cases "app = None \<or> dk_configured s")
  case True
  then have "lazy_limiter app s = (Inr (), s)"
    by (auto simp: lazy_limiter_def on_state_def split: option.splits)
  then show ?thesis
    by (intro exI[of _ "dk_limiter s"] exI[of _ "dk_configured s"]) simp
next
  case False
  then obtain c where "app = Some c" "\<not> dk_configured s" by auto
  then have "lazy_limiter app s =
      (Inr (), s\<lparr>dk_limiter := reconfigure (dk_limiter s) (ag_rate_limit c), dk_configured := True\<rparr>)"
    by (simp add: lazy_limiter_def on_state_def)
  then show ?thesis by blast
qed

section \<open>Properties\<close>

text \<open>
  C3: The kill switch is final: once a run has read the stop flag as set, nothing follows but
  the \<open>killswitch\<close> event; no action is performed after it, and the run returns normally, which
  is why its record ends as completed.
\<close>

theorem stop_is_final:
  assumes "run E brain ctx app task s = (r, s')" and "dk_trace s' = dk_trace s @ t"
    and "Poll True \<in> set t"
  shows "r = Inr () \<and> (\<exists>u. Poll True \<notin> set u \<and>
     t = u @ Poll True # (case ctx of None \<Rightarrow> [] | Some _ \<Rightarrow> [Emit ''killswitch'' []]))"
proof -
  obtain t' where "dk_trace s' = dk_trace s @ t'"
    and "unstopped t' \<or> r = Inr () \<and> (\<exists>u. t' = u @ stop_mark ctx \<and> unstopped u)"
    using stops_run[of ctx E brain app task] assms(1) unfolding stops_def by (metis fst_conv snd_conv)
  moreover from this(1) have "t' = t" using assms(2) by simp
  ultimately show ?thesis
    using assms(3) by (auto simp: unstopped_def stop_mark_def)
qed

theorem stop_is_final_witness:
  "run ((quiet_env [])\<lparr>en_stop := \<lambda>n. True\<rparr>) ''b'' (Some ''r'') None ''t'' fresh_desk =
     (Inr (), fresh_desk\<lparr>dk_trace := dk_trace fresh_desk @
        [Disarm, Emit ''start'' [(''task'', JStr ''t'')], Query ''active_window'', Query ''screen'',
         Query ''monitors'', Query ''clients'', Emit ''state'' [(''active'', JNull)], Poll True,
         Emit ''killswitch'' []]\<rparr>) \<and>
   (\<exists>u. Poll True \<notin> set u \<and>
      [Disarm, Emit ''start'' [(''task'', JStr ''t'')], Query ''active_window'', Query ''screen'',
         Query ''monitors'', Query ''clients'', Emit ''state'' [(''active'', JNull)], Poll True,
         Emit ''killswitch'' []] = u @ Poll True # [Emit ''killswitch'' []])"
proof -
  let ?t = "[Disarm, Emit ''start'' [(''task'', JStr ''t'')], Query ''active_window'', Query ''screen'',
         Query ''monitors'', Query ''clients'', Emit ''state'' [(''active'', JNull)], Poll True,
         Emit ''killswitch'' []]"
  have r: "run ((quiet_env [])\<lparr>en_stop := \<lambda>n. True\<rparr>) ''b'' (Some ''r'') None ''t'' fresh_desk =
     (Inr (), fresh_desk\<lparr>dk_trace := dk_trace fresh_desk @ ?t\<rparr>)"
    by (simp add: run_defs fresh_desk_def)
  from stop_is_final[OF r, of ?t] r show ?thesis by simp
qed

text \<open>
  C2: Every command handed to a shell by a run passed the sanitiser, whatever the brain asked
  for and whatever the environment answered.
\<close>

theorem commands_are_sanitised:
  "\<exists>t. dk_trace (snd (run E brain ctx app task s)) = dk_trace s @ t \<and>
     (\<forall>c. Terminal c \<in> set t \<longrightarrow> fst (sanitize_command c))"
  using sane_law.obeys_run[of E brain ctx app task]
  unfolding sane_law.obeys_def sane_def by blast

theorem commands_are_sanitised_witness:
  "Terminal ''ls'' \<in> set (dk_trace (snd (run (quiet_env [mk_action Terminal_command
      [(''command'', JStr ''ls'')]]) ''b'' None None ''t'' fresh_desk))) \<and>
   fst (sanitize_command ''ls'')"
proof -
  have "dk_trace fresh_desk = []" by (simp add: fresh_desk_def)
  with commands_are_sanitised[of "quiet_env [mk_action Terminal_command [(''command'', JStr ''ls'')]]"
      "''b''" None None "''t''" fresh_desk]
  show ?thesis by (auto simp: run_ls)
qed

text \<open>
  C1: A destructive Hyprland dispatch is sent only on the user's word: in the trace of a run
  each is immediately preceded by a confirmation that was given.
\<close>

theorem destructive_needs_confirmation:
  "\<exists>t. dk_trace (snd (run E brain ctx app task s)) = dk_trace s @ t \<and>
     (\<forall>u c v. t = u @ Dispatch_fx c # v \<and> is_destructive_dispatch c \<longrightarrow>
        (\<exists>w q. u = w @ [Confirm q True]))"
  using confirm_law.obeys_run[of E brain ctx app task]
  unfolding confirm_law.obeys_def confirmed_def by blast

theorem destructive_needs_confirmation_witness:
  "\<exists>w q. dk_trace (snd (run (quiet_env [mk_action Dispatch [(''cmd'', JStr ''exit'')]])
      ''b'' None None ''t'' fresh_desk)) = (w @ [Confirm q True]) @ Dispatch_fx ''exit'' # []"
proof -
  have d: "is_destructive_dispatch ''exit''" by code_simp
  have "dk_trace fresh_desk = []" by (simp add: fresh_desk_def)
  with destructive_needs_confirmation[of "quiet_env [mk_action Dispatch [(''cmd'', JStr ''exit'')]]"
      "''b''" None None "''t''" fresh_desk] d run_exit
  show ?thesis by (metis append_Nil)
qed



text \<open>
  C24: A window the allowlist does not admit stops a run before anything is looked at or asked:
  the run returns normally, after the \<open>start\<close> and \<open>blocked\<close> events, with no screenshot taken,
  no brain consulted and no action done.
\<close>

theorem blocked_window_untouched:
  assumes "\<forall>n. en_active E n = Inr (Some w)" and "\<forall>n. en_allowlist E n = file"
    and "is_allowed file w (dk_misses s) = (Inr False, m)"
  shows "run E brain (Some rid) app task s =
     (Inr (), s\<lparr>dk_misses := m,
        dk_trace := dk_trace s @
          [Disarm, Emit ''start'' [(''task'', JStr task)], Query ''active_window'',
           Emit ''blocked'' [(''reason'', JStr ''window_not_allowlisted''),
                             (''active'', JObj (window_dump w))]]\<rparr>)"
  using assms by (simp add: run_def build_state_def allow_active_def act_defs)

theorem blocked_window_untouched_witness:
  "\<exists>w. lower (win_class w) = ''keepassxc'' \<and>
     run ((quiet_env [])\<lparr>en_active := \<lambda>n. Inr (Some w)\<rparr>) ''b'' (Some ''r'') None ''t'' fresh_desk =
     (Inr (), fresh_desk\<lparr>dk_misses := [],
        dk_trace := dk_trace fresh_desk @
          [Disarm, Emit ''start'' [(''task'', JStr ''t'')], Query ''active_window'',
           Emit ''blocked'' [(''reason'', JStr ''window_not_allowlisted''),
                             (''active'', JObj (window_dump w))]]\<rparr>)"
proof -
  let ?w = "\<lparr>win_address = [], win_title = [], win_class = ''KeePassXC'', win_workspace_id = 1,
     win_at = (0, 0), win_size = (1, 1), win_floating = False, win_hidden = False, win_pid = 1,
     win_monitor = 0\<rparr>"
  let ?E = "(quiet_env [])\<lparr>en_active := \<lambda>n. Inr (Some ?w)\<rparr>"
  have l: "lower ''KeePassXC'' = ''keepassxc''" by code_simp
  have "is_allowed None ?w (dk_misses fresh_desk) = (Inr False, [])"
    by (simp add: is_allowed_def l always_deny_def fresh_desk_def)
  moreover have "\<forall>n. en_active ?E n = Inr (Some ?w)" and "\<forall>n. en_allowlist ?E n = None"
    by (simp_all add: quiet_env_def)
  ultimately have "run ?E ''b'' (Some ''r'') None ''t'' fresh_desk =
     (Inr (), fresh_desk\<lparr>dk_misses := [],
        dk_trace := dk_trace fresh_desk @
          [Disarm, Emit ''start'' [(''task'', JStr ''t'')], Query ''active_window'',
           Emit ''blocked'' [(''reason'', JStr ''window_not_allowlisted''),
                             (''active'', JObj (window_dump ?w))]]\<rparr>)"
    by (intro blocked_window_untouched)
  moreover have "lower (win_class ?w) = ''keepassxc''" using l by simp
  ultimately show ?thesis by blast
qed

text \<open>
  C25: The agent does not type into the terminal it is controlled from: while the active window
  is a terminal whose process tree holds a control process, a keyboard action spawns nothing and
  is reported as blocked.
\<close>

theorem keyboard_spares_control_terminal:
  assumes "act_kind a \<in> {Type_text, Key}" and "\<forall>n. en_active E n = Inr (Some w)"
    and "lower (win_class w) \<in> set terminal_classes"
    and "\<forall>n. process_tree_contains (en_proc E n) (win_pid w) control_markers = Inr True"
  shows "\<exists>r s' t. execute_action E ctx app a s = (Inr r, s') \<and>
     res_blocked r \<in> {Some ''control_terminal'', Some ''rate_limited''} \<and>
     dk_trace s' = dk_trace s @ t \<and> filter (\<lambda>x. \<not> is_passive x) t = []"
proof -
  obtain l c where lz: "lazy_limiter app s = (Inr (), s\<lparr>dk_limiter := l, dk_configured := c\<rparr>)"
    using lazy_limiter_frame by blast
  obtain ok l2 where ck: "check l (ak_value (act_kind a)) (en_now E (length (dk_trace s))) = (ok, l2)"
    by (cases "check l (ak_value (act_kind a)) (en_now E (length (dk_trace s)))")
  show ?thesis
  proof (cases ok)
    case False
    then show ?thesis using lz ck
      by (simp add: execute_action_def act_defs Let_def blocked_result_def)
  next
    case True
    have "perform E ctx app a = keyboard_action E ctx (act_kind a) m" if "m = (case act_kind a of
        Type_text \<Rightarrow> sbind (param (act_params a) ''text'') (\<lambda>t. sbind (lift (str_arg t)) (\<lambda>text. ret (type_text_argv text)))
      | _ \<Rightarrow> sbind (param (act_params a) ''combo'') (\<lambda>c. sbind (lift (str_self ''lower'' c)) (\<lambda>combo. ret (key_argv combo))))" for m
      using that assms(1) by (auto simp: perform_def Let_def)
    then obtain m where p: "perform E ctx app a = keyboard_action E ctx (act_kind a) m" by blast
    show ?thesis using lz ck True assms(2-4) p
      by (cases ctx) (simp_all add: execute_action_def keyboard_action_def
          ensure_keyboard_target_is_safe_def focused_control_terminal_def act_defs Let_def blocked_result_def)
  qed
qed

theorem keyboard_spares_control_terminal_witness:
  "\<exists>r s' t. execute_action
     ((quiet_env [])\<lparr>en_active := \<lambda>n. Inr (Some \<lparr>win_address = [], win_title = [], win_class = ''Foot'',
        win_workspace_id = 1, win_at = (0, 0), win_size = (1, 1), win_floating = False,
        win_hidden = False, win_pid = 7, win_monitor = 0\<rparr>),
      en_proc := \<lambda>n. [\<lparr>pe_name = ''7'', pe_files = Some (''PPid: 1'', ''foot'')\<rparr>,
                       \<lparr>pe_name = ''9'', pe_files = Some (''PPid: 7'', ''Claude'')\<rparr>]\<rparr>)
     None None (mk_action Type_text [(''text'', JStr ''y'')]) fresh_desk = (Inr r, s') \<and>
     res_blocked r \<in> {Some ''control_terminal'', Some ''rate_limited''} \<and>
     dk_trace s' = dk_trace fresh_desk @ t \<and> filter (\<lambda>x. \<not> is_passive x) t = []"
proof (rule keyboard_spares_control_terminal[where w = "\<lparr>win_address = [], win_title = [],
    win_class = ''Foot'', win_workspace_id = 1, win_at = (0, 0), win_size = (1, 1),
    win_floating = False, win_hidden = False, win_pid = 7, win_monitor = 0\<rparr>"])
  have "process_tree_contains [\<lparr>pe_name = ''7'', pe_files = Some (''PPid: 1'', ''foot'')\<rparr>,
     \<lparr>pe_name = ''9'', pe_files = Some (''PPid: 7'', ''Claude'')\<rparr>] 7 control_markers = Inr True"
    by code_simp
  moreover have "lower ''Foot'' = ''foot''" by code_simp
  ultimately show "\<forall>n. process_tree_contains (en_proc ((quiet_env [])\<lparr>en_active := \<lambda>n. Inr (Some \<lparr>win_address = [], win_title = [], win_class = ''Foot'',
        win_workspace_id = 1, win_at = (0, 0), win_size = (1, 1), win_floating = False,
        win_hidden = False, win_pid = 7, win_monitor = 0\<rparr>),
      en_proc := \<lambda>n. [\<lparr>pe_name = ''7'', pe_files = Some (''PPid: 1'', ''foot'')\<rparr>,
                       \<lparr>pe_name = ''9'', pe_files = Some (''PPid: 7'', ''Claude'')\<rparr>]\<rparr>) n)
      (win_pid \<lparr>win_address = [], win_title = [],
    win_class = ''Foot'', win_workspace_id = 1, win_at = (0, 0), win_size = (1, 1),
    win_floating = False, win_hidden = False, win_pid = 7, win_monitor = 0\<rparr>) control_markers = Inr True"
    and "lower (win_class \<lparr>win_address = [], win_title = [],
    win_class = ''Foot'', win_workspace_id = 1, win_at = (0, 0), win_size = (1, 1),
    win_floating = False, win_hidden = False, win_pid = 7, win_monitor = 0\<rparr>) \<in> set terminal_classes"
    by (simp_all add: terminal_classes_def)
qed (simp_all add: mk_action_def)

text \<open>
  C26: The process search is exact: it answers \<open>True\<close> precisely when some process reachable from
  the given one along parent links, the process itself included, has a marker in its name,
  status or command line, and it always ends, cycles included.
\<close>

theorem process_search_exact:
  "process_tree_contains proc pid markers = (case scan_proc proc ([], []) of
      Inl e \<Rightarrow> Inl e
    | Inr (ch, cands) \<Rightarrow>
        Inr (\<exists>q. (pid, q) \<in> (child_rel ch)\<^sup>* \<and> (\<exists>m\<in>set markers. contains (details_of cands q) m)))"
proof (cases "scan_proc proc ([], [])")
  case (Inr v)
  moreover have "tree_search ch (marked markers cands) [pid] [] \<longleftrightarrow>
      (\<exists>q. (pid, q) \<in> (child_rel ch)\<^sup>* \<and> (\<exists>m\<in>set markers. contains (details_of cands q) m))" for ch cands
    using tree_search_iff[of "[]" "marked markers cands" ch "[pid]"]
    by (simp add: marked_def list_ex_iff del: tree_search.simps)
  ultimately show ?thesis
    by (cases v) (simp add: process_tree_contains_def del: tree_search.simps)
qed (simp add: process_tree_contains_def)

text \<open>
  Three left clicks at three different places count as being stuck: a click's parameters
  hold the button only, so with the moves between them the third click makes the detector fire
  and the run is aborted although no action was repeated in the same place.
\<close>

theorem three_clicks_are_stuck:
  "fst (observe (observe_all default_loop_detector
       [mk_action Mouse_move (point x1 y1), mk_action Click [(''button'', JStr ''left'')],
        mk_action Mouse_move (point x2 y2), mk_action Click [(''button'', JStr ''left'')],
        mk_action Mouse_move (point x3 y3)])
     (mk_action Click [(''button'', JStr ''left'')])) = True"
proof -
  have "ld_history default_loop_detector = []" "ld_threshold default_loop_detector = 3"
    "ld_maxlen default_loop_detector = 6"
    by (simp_all add: default_loop_detector_def new_loop_detector_def)
  then show ?thesis
    by (simp add: observe_stuck_iff del: observe_all.simps)
qed

end
