(* ===== verification/Migrations.thy ===== *)
theory Migrations
  imports Prelude
begin

text \<open>
  The database schema of \<open>src/src/agent/daemon/store.py\<close> and its migrations: the tables with
  their columns and the \<open>user_version\<close>, \<open>_init_db\<close> with the repair of old \<open>runs\<close> tables, and
  the four versioned migrations.  \<open>vec\<close> says whether the vector extension could be loaded.
\<close>

record schema =
  sc_tables :: "(string \<times> string list) list"
  sc_version :: nat

definition columns :: "schema \<Rightarrow> string \<Rightarrow> string list" where
  "columns s t = dget_or (sc_tables s) t []"

definition has_table :: "schema \<Rightarrow> string \<Rightarrow> bool" where
  "has_table s t = (dget (sc_tables s) t \<noteq> None)"

definition create_table :: "string \<Rightarrow> string list \<Rightarrow> schema \<Rightarrow> schema" where
  "create_table t cs s =
     (if has_table s t then s else s\<lparr>sc_tables := sc_tables s @ [(t, cs)]\<rparr>)"

definition add_column :: "string \<Rightarrow> string \<Rightarrow> schema \<Rightarrow> schema" where
  "add_column t c s =
     (if c \<in> set (columns s t) then s
      else s\<lparr>sc_tables := AList.update t (columns s t @ [c]) (sc_tables s)\<rparr>)"

definition set_version :: "nat \<Rightarrow> schema \<Rightarrow> schema" where
  "set_version n s = s\<lparr>sc_version := n\<rparr>"

definition run_columns :: "string list" where
  "run_columns = [''run_id'', ''kind'', ''task'', ''brain'', ''status'', ''started_at'',
     ''ended_at'', ''error_text'']"

definition event_columns :: "string list" where
  "event_columns = [''run_id'', ''seq'', ''ts'', ''kind'', ''payload_json'']"

definition rebuild_runs_table :: "schema \<Rightarrow> schema res" where
  "rebuild_runs_table s =
     (if has_table s ''runs_new'' then Inl (DatabaseError ''table runs_new already exists'')
      else Inr (s\<lparr>sc_tables := AList.update ''runs'' run_columns (sc_tables s)\<rparr>))"

definition apply_v2 :: "schema \<Rightarrow> schema" where
  "apply_v2 s = set_version 2
     (create_table ''action_outcomes''
        [''run_id'', ''seq'', ''action_kind'', ''params_json'', ''result_kind'', ''stdout'', ''stderr'',
         ''returncode'', ''dispatch_response'', ''pre_state_hash'', ''post_state_hash'', ''duration_ms'']
     (create_table ''feedback'' [''feedback_id'', ''run_id'', ''kind'', ''comment'', ''created_at'']
     (create_table ''run_outcomes''
        [''run_id'', ''outcome'', ''score'', ''source'', ''rationale'', ''decided_at'']
     (add_column ''runs'' ''duration_s''
     (add_column ''runs'' ''action_count''
     (add_column ''runs'' ''iterations'' s))))))"

definition apply_v3 :: "bool \<Rightarrow> schema \<Rightarrow> schema" where
  "apply_v3 vec s = set_version 3
     ((if vec then create_table ''episode_vecs'' [''run_id'', ''embedding''] else id)
     (create_table ''reflections''
        [''reflection_id'', ''run_id'', ''polarity'', ''text'', ''generated_by'', ''created_at'']
     (create_table ''episodes''
        [''run_id'', ''task'', ''task_normalized'', ''outcome'', ''summary'', ''context_class'',
         ''actions_json'', ''created_at''] s)))"

definition apply_v4 :: "bool \<Rightarrow> schema \<Rightarrow> schema" where
  "apply_v4 vec s = set_version 4
     ((if vec then create_table ''skill_vecs'' [''skill_id'', ''embedding''] else id)
     (create_table ''allowlist_proposals''
        [''proposal_id'', ''app_class'', ''title_pat'', ''hit_count'', ''last_seen'', ''status'']
     (create_table ''learned_rules''
        [''rule_id'', ''yaml'', ''confidence'', ''hit_count'', ''source_runs'', ''status'',
         ''proposed_at'', ''decided_at'']
     (create_table ''skill_outcomes'' [''skill_id'', ''run_id'', ''outcome'', ''ts'']
     (create_table ''skills''
        [''skill_id'', ''name'', ''description'', ''actions_json'', ''params_schema'',
         ''source_run_id'', ''created_at'', ''last_used_at'', ''status''] s)))))"

definition apply_v5 :: "schema \<Rightarrow> schema" where
  "apply_v5 s = set_version 5
     (foldl (\<lambda>s t. add_column t ''last_accessed_at'' (add_column t ''decay_score'' s)) s
        [''episodes'', ''reflections'', ''skills''])"

definition init_db :: "bool \<Rightarrow> schema \<Rightarrow> schema res" where
  "init_db vec s0 =
     (let s1 = create_table ''run_events'' event_columns (create_table ''runs'' run_columns s0);
          s2 = add_column ''runs'' ''kind'' (add_column ''runs'' ''error_text'' s1)
      in rbind (if ''dry_run'' \<in> set (columns s2 ''runs'') then rebuild_runs_table s2 else Inr s2) (\<lambda>s3.
         let v = sc_version s3;
             s4 = (if v < 2 then apply_v2 s3 else s3);
             s5 = (if v < 3 then apply_v3 vec s4 else s4);
             s6 = (if v < 4 then apply_v4 vec s5 else s5);
             s7 = (if v < 5 then apply_v5 s6 else s6)
         in Inr s7))"

section \<open>Columns after the operations\<close>

lemma has_table_create [simp]:
  "has_table (create_table t cs s) t' \<longleftrightarrow> t' = t \<or> has_table s t'"
  by (auto simp: has_table_def create_table_def map_add_def split: option.splits)

lemma has_table_add [simp]:
  "has_table (add_column t c s) t' \<longleftrightarrow> has_table s t' \<or> (t' = t \<and> c \<notin> set (columns s t))"
  by (auto simp: has_table_def add_column_def update_conv')

lemma has_table_version [simp]: "has_table (set_version n s) t = has_table s t"
  by (simp add: has_table_def set_version_def)

lemma columns_create:
  "columns (create_table t cs s) t' = (if t' = t \<and> \<not> has_table s t then cs else columns s t')"
  by (auto simp: columns_def has_table_def create_table_def dget_or_def map_add_def
      split: option.splits)

lemma columns_add:
  "columns (add_column t c s) t' =
     (if t' = t \<and> c \<notin> set (columns s t) then columns s t @ [c] else columns s t')"
  by (auto simp: add_column_def columns_def dget_or_def update_conv' split: option.splits)

lemma columns_version [simp]: "columns (set_version n s) t = columns s t"
  by (simp add: columns_def set_version_def)

lemma set_columns_add [simp]:
  "set (columns (add_column t c s) t') = (if t' = t then insert c (set (columns s t)) else set (columns s t'))"
  by (auto simp: columns_add)

lemma version_ops [simp]:
  "sc_version (create_table t cs s) = sc_version s" "sc_version (add_column t c s) = sc_version s"
  "sc_version (set_version n s) = n"
  by (simp_all add: create_table_def add_column_def set_version_def)

definition later_tables :: "string list" where
  "later_tables = [''run_outcomes'', ''feedback'', ''action_outcomes'', ''episodes'', ''reflections'',
     ''skills'', ''skill_outcomes'', ''learned_rules'', ''allowlist_proposals'',
     ''episode_vecs'', ''skill_vecs'', ''runs_new'']"

text \<open>A database before the versioned migrations: fresh, or an old one with its two tables.\<close>

definition pristine :: "schema \<Rightarrow> bool" where
  "pristine s \<longleftrightarrow> sc_version s = 0 \<and> (\<forall>t\<in>set later_tables. \<not> has_table s t) \<and>
     (has_table s ''runs'' \<longrightarrow> {''run_id'', ''task'', ''brain'', ''status'', ''started_at'', ''ended_at''}
        \<subseteq> set (columns s ''runs'')) \<and>
     (has_table s ''run_events'' \<longrightarrow> set event_columns \<subseteq> set (columns s ''run_events''))"

text \<open>The columns the queries of the store name.\<close>

definition required :: "(string \<times> string list) list" where
  "required =
     [(''runs'', run_columns @ [''iterations'', ''action_count'', ''duration_s'']),
      (''run_events'', event_columns),
      (''run_outcomes'', [''run_id'', ''outcome'', ''score'', ''source'', ''rationale'', ''decided_at'']),
      (''feedback'', [''feedback_id'', ''run_id'', ''kind'', ''comment'', ''created_at'']),
      (''episodes'', [''run_id'', ''task'', ''task_normalized'', ''outcome'', ''summary'',
         ''context_class'', ''actions_json'', ''created_at'', ''decay_score'', ''last_accessed_at'']),
      (''reflections'', [''run_id'', ''polarity'', ''text'', ''generated_by'', ''created_at'',
         ''decay_score'', ''last_accessed_at'']),
      (''skills'', [''skill_id'', ''name'', ''description'', ''actions_json'', ''source_run_id'',
         ''created_at'', ''status'', ''decay_score'', ''last_accessed_at'']),
      (''skill_outcomes'', [''skill_id'', ''run_id'', ''outcome'', ''ts'']),
      (''learned_rules'', [''rule_id'', ''yaml'', ''confidence'', ''source_runs'', ''status'',
         ''proposed_at'', ''decided_at'']),
      (''allowlist_proposals'', [''proposal_id'', ''app_class'', ''title_pat'', ''hit_count'',
         ''last_seen'', ''status''])]"

definition complete :: "schema \<Rightarrow> bool" where
  "complete s \<longleftrightarrow> list_all (\<lambda>(t, cs). set cs \<subseteq> set (columns s t)) required"

text \<open>The state before the versioned migrations, from a pristine one.\<close>

definition repaired :: "schema \<Rightarrow> bool" where
  "repaired s \<longleftrightarrow> sc_version s = 0 \<and> (\<forall>t\<in>set later_tables. \<not> has_table s t) \<and>
     has_table s ''runs'' \<and> has_table s ''run_events'' \<and>
     set run_columns \<subseteq> set (columns s ''runs'') \<and> ''dry_run'' \<notin> set (columns s ''runs'') \<and>
     set event_columns \<subseteq> set (columns s ''run_events'')"

lemma columns_rebuild:
  "columns (s\<lparr>sc_tables := AList.update ''runs'' run_columns (sc_tables s)\<rparr>) t =
     (if t = ''runs'' then run_columns else columns s t)"
  "has_table (s\<lparr>sc_tables := AList.update ''runs'' run_columns (sc_tables s)\<rparr>) t \<longleftrightarrow>
     t = ''runs'' \<or> has_table s t"
  by (auto simp: columns_def has_table_def dget_or_def update_conv')

lemma no_table_no_columns: "\<not> has_table s t \<Longrightarrow> columns s t = []"
  by (simp add: has_table_def columns_def dget_or_def)

definition repair_runs :: "schema \<Rightarrow> schema res" where
  "repair_runs s0 =
     (let s1 = create_table ''run_events'' event_columns (create_table ''runs'' run_columns s0);
          s2 = add_column ''runs'' ''kind'' (add_column ''runs'' ''error_text'' s1)
      in if ''dry_run'' \<in> set (columns s2 ''runs'') then rebuild_runs_table s2 else Inr s2)"

definition upgrade :: "bool \<Rightarrow> schema \<Rightarrow> schema" where
  "upgrade vec s3 =
     (let v = sc_version s3;
          s4 = (if v < 2 then apply_v2 s3 else s3);
          s5 = (if v < 3 then apply_v3 vec s4 else s4);
          s6 = (if v < 4 then apply_v4 vec s5 else s5)
      in if v < 5 then apply_v5 s6 else s6)"

lemma init_db_parts: "init_db vec s = rbind (repair_runs s) (\<lambda>s3. Inr (upgrade vec s3))"
  by (simp add: init_db_def repair_runs_def upgrade_def Let_def)

lemma repair_pristine:
  assumes "pristine s"
  shows "\<exists>s3. repair_runs s = Inr s3 \<and> repaired s3"
proof -
  let ?s1 = "create_table ''run_events'' event_columns (create_table ''runs'' run_columns s)"
  let ?s2 = "add_column ''runs'' ''kind'' (add_column ''runs'' ''error_text'' ?s1)"
  have lt: "t \<noteq> ''runs'' \<and> t \<noteq> ''run_events'' \<and> \<not> has_table s t" if "t \<in> set later_tables" for t
    using assms that by (auto simp: pristine_def later_tables_def)
  have ev: "set event_columns \<subseteq> set (columns ?s2 ''run_events'')"
    using assms by (auto simp: pristine_def columns_create columns_add)
  have rn: "set run_columns \<subseteq> set (columns ?s2 ''runs'')"
    using assms by (auto simp: pristine_def columns_create run_columns_def)
  have nt: "\<not> has_table ?s2 t" if "t \<in> set later_tables" for t
    using lt[OF that] by simp
  show ?thesis
  proof (cases "''dry_run'' \<in> set (columns ?s2 ''runs'')")
    case True
    have "\<not> has_table ?s2 ''runs_new''" by (rule nt) (simp add: later_tables_def)
    then have "repair_runs s = Inr (?s2\<lparr>sc_tables := AList.update ''runs'' run_columns (sc_tables ?s2)\<rparr>)"
      using True by (simp add: repair_runs_def rebuild_runs_table_def Let_def)
    moreover have "repaired (?s2\<lparr>sc_tables := AList.update ''runs'' run_columns (sc_tables ?s2)\<rparr>)"
      using assms ev nt lt
      by (simp add: repaired_def columns_rebuild pristine_def) (simp add: run_columns_def)
    ultimately show ?thesis by blast
  next
    case False
    then show ?thesis
      using assms ev rn nt by (simp add: repair_runs_def repaired_def Let_def pristine_def)
  qed
qed

lemma upgrade_complete:
  assumes "repaired s"
  shows "complete (upgrade vec s)" and "sc_version (upgrade vec s) = 5"
    and "repair_runs (upgrade vec s) = Inr (upgrade vec s)"
proof -
  have lt: "\<not> has_table s t" if "t \<in> set later_tables" for t
    using assms that by (simp add: repaired_def)
  have v: "sc_version s = 0" using assms by (simp add: repaired_def)
  have up: "upgrade vec s = apply_v5 (apply_v4 vec (apply_v3 vec (apply_v2 s)))"
    by (simp add: upgrade_def v)
  note steps = up apply_v2_def apply_v3_def apply_v4_def apply_v5_def
  show "sc_version (upgrade vec s) = 5" by (simp add: steps)
  have runs: "columns (upgrade vec s) ''runs'' = columns (apply_v2 s) ''runs''"
    by (simp add: steps columns_create columns_add)
  have "set (columns (apply_v2 s) ''runs'') =
      set (columns s ''runs'') \<union> {''iterations'', ''action_count'', ''duration_s''}"
    by (auto simp: apply_v2_def columns_create)
  with runs have runs: "set (columns (upgrade vec s) ''runs'') =
      set (columns s ''runs'') \<union> {''iterations'', ''action_count'', ''duration_s''}"
    by simp
  have ev: "columns (upgrade vec s) ''run_events'' = columns s ''run_events''"
    by (simp add: steps columns_create columns_add)
  note fresh = lt[unfolded later_tables_def]
  let ?v4 = "apply_v4 vec (apply_v3 vec (apply_v2 s))"
  have five: "set (columns (upgrade vec s) t) = set (columns ?v4 t) \<union>
      (if t \<in> {''episodes'', ''reflections'', ''skills''} then {''decay_score'', ''last_accessed_at''} else {})" for t
    by (auto simp: up apply_v5_def)
  note four = apply_v2_def apply_v3_def apply_v4_def columns_create
  have c2: "columns ?v4 ''run_outcomes'' = [''run_id'', ''outcome'', ''score'', ''source'', ''rationale'', ''decided_at'']"
    "columns ?v4 ''feedback'' = [''feedback_id'', ''run_id'', ''kind'', ''comment'', ''created_at'']"
    using fresh by (simp_all add: four)
  have c3: "columns ?v4 ''episodes'' = [''run_id'', ''task'', ''task_normalized'', ''outcome'', ''summary'',
       ''context_class'', ''actions_json'', ''created_at'']"
    "columns ?v4 ''reflections'' = [''reflection_id'', ''run_id'', ''polarity'', ''text'', ''generated_by'', ''created_at'']"
    using fresh by (simp_all add: four)
  have c4: "columns ?v4 ''skills'' = [''skill_id'', ''name'', ''description'', ''actions_json'', ''params_schema'',
       ''source_run_id'', ''created_at'', ''last_used_at'', ''status'']"
    "columns ?v4 ''skill_outcomes'' = [''skill_id'', ''run_id'', ''outcome'', ''ts'']"
    "columns ?v4 ''learned_rules'' = [''rule_id'', ''yaml'', ''confidence'', ''hit_count'', ''source_runs'', ''status'',
       ''proposed_at'', ''decided_at'']"
    "columns ?v4 ''allowlist_proposals'' = [''proposal_id'', ''app_class'', ''title_pat'', ''hit_count'', ''last_seen'', ''status'']"
    using fresh by (simp_all add: four)
  have base: "set run_columns \<subseteq> set (columns s ''runs'')" "set event_columns \<subseteq> set (columns s ''run_events'')"
    using assms by (simp_all add: repaired_def)
  have r1: "set (run_columns @ [''iterations'', ''action_count'', ''duration_s'']) \<subseteq> set (columns (upgrade vec s) ''runs'')"
    using base(1) by (auto simp: runs)
  have r2: "set event_columns \<subseteq> set (columns (upgrade vec s) ''run_events'')"
    using base(2) by (simp add: ev)
  show "complete (upgrade vec s)"
    unfolding complete_def required_def list.pred_inject prod.case
    by (intro conjI r1 r2 TrueI; simp add: five c2 c3 c4)
  have t: "has_table (upgrade vec s) ''runs''" "has_table (upgrade vec s) ''run_events''"
    using assms by (simp_all add: steps repaired_def)
  have "''error_text'' \<in> set (columns (upgrade vec s) ''runs'')"
    "''kind'' \<in> set (columns (upgrade vec s) ''runs'')" "''dry_run'' \<notin> set (columns (upgrade vec s) ''runs'')"
    using assms runs by (auto simp: repaired_def run_columns_def)
  with t show "repair_runs (upgrade vec s) = Inr (upgrade vec s)"
    by (simp add: repair_runs_def create_table_def add_column_def)
qed

section \<open>Properties\<close>

text \<open>
  Opening the store brings any database from before the versioned migrations, a fresh one
  included and one with the old \<open>dry_run\<close> column included, to version 5 with every column the
  queries name, and opening it again changes nothing.
\<close>

theorem migrations_complete:
  assumes "pristine s"
  shows "\<exists>s'. init_db vec s = Inr s' \<and> sc_version s' = 5 \<and> complete s' \<and>
     init_db vec s' = Inr s'"
proof -
  obtain s3 where s3: "repair_runs s = Inr s3" "repaired s3"
    using repair_pristine[OF assms] by blast
  note up = upgrade_complete[OF s3(2), of vec]
  have "upgrade vec (upgrade vec s3) = upgrade vec s3"
    using up(2) by (simp add: upgrade_def)
  with s3 up show ?thesis by (simp add: init_db_parts)
qed

theorem migrations_complete_witness:
  "\<exists>s'. init_db True \<lparr>sc_tables = [(''runs'', [''run_id'', ''task'', ''brain'', ''status'', ''dry_run'',
      ''started_at'', ''ended_at''])], sc_version = 0\<rparr> = Inr s' \<and> sc_version s' = 5 \<and> complete s' \<and>
     init_db True s' = Inr s'"
  by (rule migrations_complete) (simp add: pristine_def has_table_def later_tables_def columns_def dget_or_def)

text \<open>
  The vector tables are created by the migrations only: a database first opened without the
  vector extension is never given them, so that later openings with the extension, after which
  the store issues vector queries, find no such table.
\<close>

theorem vector_tables_never_added:
  assumes "pristine s" and "init_db False s = Inr s'"
  shows "\<exists>s''. init_db True s' = Inr s'' \<and> \<not> has_table s'' ''episode_vecs'' \<and>
     \<not> has_table s'' ''skill_vecs''"
proof -
  obtain s3 where s3: "repair_runs s = Inr s3" "repaired s3"
    using repair_pristine[OF assms(1)] by blast
  then have s': "s' = upgrade False s3" using assms(2) by (simp add: init_db_parts)
  note up = upgrade_complete[OF s3(2), of False]
  have v: "sc_version s3 = 0" using s3(2) by (simp add: repaired_def)
  have "\<not> has_table s3 ''episode_vecs''" "\<not> has_table s3 ''skill_vecs''"
    using s3(2) by (simp_all add: repaired_def later_tables_def)
  then have "\<not> has_table s' ''episode_vecs''" "\<not> has_table s' ''skill_vecs''"
    by (simp_all add: s' upgrade_def v apply_v2_def apply_v3_def apply_v4_def apply_v5_def)
  moreover have "init_db True s' = Inr s'"
    using up by (simp add: s' init_db_parts) (simp add: upgrade_def)
  ultimately show ?thesis by blast
qed

theorem vector_tables_never_added_witness:
  "\<exists>s' s''. init_db False \<lparr>sc_tables = [], sc_version = 0\<rparr> = Inr s' \<and> init_db True s' = Inr s'' \<and>
     \<not> has_table s'' ''episode_vecs''"
proof -
  have p: "pristine \<lparr>sc_tables = [], sc_version = 0\<rparr>" by (simp add: pristine_def has_table_def)
  obtain s' where s': "init_db False \<lparr>sc_tables = [], sc_version = 0\<rparr> = Inr s'"
    by (simp add: init_db_def Let_def create_table_def has_table_def add_column_def columns_def
        dget_or_def run_columns_def)
  from vector_tables_never_added[OF p s'] s' show ?thesis by blast
qed

end
