(* ===== verification/Store.thy ===== *)
theory Store
  imports Schemas Migrations
begin

text \<open>
  \<open>src/src/agent/daemon/store.py\<close>: the tables of the database as lists of rows in insertion
  order, one operation per method, and the cache of run details.  A statement that violates a
  primary key is an error and changes nothing.  JSON columns hold the value whose text they
  store; \<open>now\<close> is \<open>time.time()\<close>.  Rows that an \<open>ORDER BY\<close> leaves tied keep insertion order.
\<close>

section \<open>Tables\<close>

record run_row =
  rr_id :: string
  rr_kind :: string
  rr_task :: string
  rr_brain :: string
  rr_status :: string
  rr_started :: real
  rr_ended :: "real option"
  rr_error :: "string option"
  rr_iterations :: "int option"
  rr_actions :: "int option"
  rr_duration :: "real option"

record event_row =
  er_run :: string
  er_seq :: int
  er_ts :: real
  er_kind :: string
  er_payload :: params

record outcome_row =
  oc_run :: string
  oc_outcome :: string
  oc_score :: real
  oc_source :: string
  oc_rationale :: "string option"
  oc_decided :: real

record feedback_row =
  fb_id :: int
  fb_run :: string
  fb_kind :: string
  fb_comment :: "string option"
  fb_created :: real

record episode_row =
  ep_run :: string
  ep_task :: string
  ep_normalized :: string
  ep_outcome :: string
  ep_summary :: string
  ep_context :: "string option"
  ep_actions :: string
  ep_created :: real
  ep_decay :: real
  ep_accessed :: "real option"

record reflection_row =
  rf_run :: string
  rf_polarity :: string
  rf_text :: string
  rf_by :: string
  rf_created :: real
  rf_decay :: real
  rf_accessed :: "real option"

record skill_row =
  sk_id :: string
  sk_name :: string
  sk_description :: string
  sk_actions :: string
  sk_source :: "string option"
  sk_created :: real
  sk_status :: string
  sk_decay :: real
  sk_accessed :: "real option"

record skill_outcome_row =
  so_skill :: string
  so_run :: string
  so_outcome :: string
  so_ts :: real

record rule_row =
  lr_id :: string
  lr_yaml :: string
  lr_confidence :: real
  lr_hits :: int
  lr_sources :: string
  lr_status :: string
  lr_proposed :: real
  lr_decided :: "real option"

record proposal_row =
  pr_id :: int
  pr_class :: string
  pr_title :: string
  pr_hits :: int
  pr_seen :: real
  pr_status :: string

record db =
  db_runs :: "run_row list"
  db_events :: "event_row list"
  db_outcomes :: "outcome_row list"
  db_feedback :: "feedback_row list"
  db_feedback_seq :: int
  db_episodes :: "episode_row list"
  db_evecs :: "(string \<times> real list) list"
  db_reflections :: "reflection_row list"
  db_skills :: "skill_row list"
  db_svecs :: "(string \<times> real list) list"
  db_skill_outcomes :: "skill_outcome_row list"
  db_rules :: "rule_row list"
  db_proposals :: "proposal_row list"
  db_proposal_seq :: int

definition empty_db :: db where
  "empty_db =
     \<lparr>db_runs = [], db_events = [], db_outcomes = [], db_feedback = [], db_feedback_seq = 0,
      db_episodes = [], db_evecs = [], db_reflections = [], db_skills = [], db_svecs = [],
      db_skill_outcomes = [], db_rules = [], db_proposals = [], db_proposal_seq = 0\<rparr>"

text \<open>The statements, on a table with a key.\<close>

definition sql_update :: "('r \<Rightarrow> bool) \<Rightarrow> ('r \<Rightarrow> 'r) \<Rightarrow> 'r list \<Rightarrow> 'r list" where
  "sql_update p f rows = map (\<lambda>r. if p r then f r else r) rows"

definition sql_insert :: "('r \<Rightarrow> 'k) \<Rightarrow> 'r \<Rightarrow> 'r list \<Rightarrow> 'r list res" where
  "sql_insert key r rows =
     (if key r \<in> key ` set rows then Inl (DatabaseError ''UNIQUE constraint failed'')
      else Inr (rows @ [r]))"

definition sql_replace :: "('r \<Rightarrow> 'k) \<Rightarrow> 'r \<Rightarrow> 'r list \<Rightarrow> 'r list" where
  "sql_replace key r rows = filter (\<lambda>x. key x \<noteq> key r) rows @ [r]"

definition sql_insert_ignore :: "('r \<Rightarrow> 'k) \<Rightarrow> 'r \<Rightarrow> 'r list \<Rightarrow> 'r list" where
  "sql_insert_ignore key r rows = (if key r \<in> key ` set rows then rows else rows @ [r])"

text \<open>\<open>ON CONFLICT(key) DO UPDATE\<close>: \<open>upd new old\<close> is the updated row.\<close>

definition sql_upsert :: "('r \<Rightarrow> 'k) \<Rightarrow> ('r \<Rightarrow> 'r \<Rightarrow> 'r) \<Rightarrow> 'r \<Rightarrow> 'r list \<Rightarrow> 'r list" where
  "sql_upsert key upd r rows =
     (if key r \<in> key ` set rows then sql_update (\<lambda>x. key x = key r) (upd r) rows else rows @ [r])"

definition sql_find :: "('r \<Rightarrow> 'k) \<Rightarrow> 'k \<Rightarrow> 'r list \<Rightarrow> 'r option" where
  "sql_find key k rows = List.find (\<lambda>r. key r = k) rows"

text \<open>\<open>ORDER BY f DESC LIMIT n\<close>; a negative limit is none.\<close>

definition sql_limit :: "int \<Rightarrow> 'r list \<Rightarrow> 'r list" where
  "sql_limit n rows = (if n < 0 then rows else take (nat n) rows)"

definition order_desc :: "('r \<Rightarrow> 'k::linorder) \<Rightarrow> 'r list \<Rightarrow> 'r list" where
  "order_desc f rows = rev (sort_key f (rev rows))"

section \<open>The store\<close>

definition lru_capacity :: nat where "lru_capacity = 16"

record store =
  st_db :: db
  st_lru :: "(string \<times> run_record) list"
  st_vec_ok :: bool

definition upd_db :: "(db \<Rightarrow> db) \<Rightarrow> store \<Rightarrow> store" where
  "upd_db f s = s\<lparr>st_db := f (st_db s)\<rparr>"

definition lru_pop :: "string \<Rightarrow> store \<Rightarrow> store" where
  "lru_pop i s = s\<lparr>st_lru := filter (\<lambda>e. fst e \<noteq> i) (st_lru s)\<rparr>"

subsection \<open>Runs and events\<close>

definition insert_run :: "run_summary \<Rightarrow> store \<Rightarrow> store res" where
  "insert_run r s = rbind
     (sql_insert rr_id
        \<lparr>rr_id = rn_id r, rr_kind = rk_value (rn_kind r), rr_task = rn_task r, rr_brain = rn_brain r,
         rr_status = rs_value (rn_status r), rr_started = rn_started_at r, rr_ended = rn_ended_at r,
         rr_error = None, rr_iterations = None, rr_actions = None, rr_duration = None\<rparr>
        (db_runs (st_db s)))
     (\<lambda>rows. Inr (upd_db (\<lambda>d. d\<lparr>db_runs := rows\<rparr>) s))"

definition update_run_status ::
  "real \<Rightarrow> string \<Rightarrow> run_status \<Rightarrow> real option \<Rightarrow> string option \<Rightarrow> store \<Rightarrow> store" where
  "update_run_status now i status ended err s =
     (let e = (case ended of None \<Rightarrow> now | Some t \<Rightarrow> t)
      in lru_pop i (upd_db (\<lambda>d. d\<lparr>db_runs := sql_update (\<lambda>r. rr_id r = i)
           (\<lambda>r. r\<lparr>rr_status := rs_value status, rr_ended := Some e, rr_error := err\<rparr>) (db_runs d)\<rparr>) s))"

definition event_key :: "event_row \<Rightarrow> string \<times> int" where
  "event_key e = (er_run e, er_seq e)"

definition append_event :: "string \<Rightarrow> run_event \<Rightarrow> store \<Rightarrow> store res" where
  "append_event i e s = rbind
     (sql_insert event_key
        \<lparr>er_run = i, er_seq = ev_seq e, er_ts = ev_ts e, er_kind = ev_kind e, er_payload = ev_payload e\<rparr>
        (db_events (st_db s)))
     (\<lambda>rows. Inr (lru_pop i (upd_db (\<lambda>d. d\<lparr>db_events := rows\<rparr>) s)))"

definition update_run_metrics ::
  "string \<Rightarrow> int option \<Rightarrow> int option \<Rightarrow> real option \<Rightarrow> store \<Rightarrow> store" where
  "update_run_metrics i iterations actions duration s =
     (if iterations = None \<and> actions = None \<and> duration = None then s
      else lru_pop i (upd_db (\<lambda>d. d\<lparr>db_runs := sql_update (\<lambda>r. rr_id r = i)
        (\<lambda>r. r\<lparr>rr_iterations := (if iterations = None then rr_iterations r else iterations),
               rr_actions := (if actions = None then rr_actions r else actions),
               rr_duration := (if duration = None then rr_duration r else duration)\<rparr>) (db_runs d)\<rparr>) s))"

definition row_to_summary :: "run_row \<Rightarrow> run_summary res" where
  "row_to_summary r =
     rbind (enum_lookup rk_value all_run_kinds (rr_kind r)) (\<lambda>k.
     rbind (enum_lookup rs_value all_run_statuses (rr_status r)) (\<lambda>st.
     Inr \<lparr>rn_id = rr_id r, rn_kind = k, rn_task = rr_task r, rn_brain = rr_brain r, rn_status = st,
          rn_started_at = rr_started r, rn_ended_at = rr_ended r, rn_error = rr_error r\<rparr>))"

definition row_to_event :: "event_row \<Rightarrow> run_event" where
  "row_to_event e =
     \<lparr>ev_seq = er_seq e, ev_ts = er_ts e, ev_kind = er_kind e, ev_payload = er_payload e\<rparr>"

definition list_runs :: "int \<Rightarrow> store \<Rightarrow> run_summary list res" where
  "list_runs n s = rmap row_to_summary (sql_limit n (order_desc rr_started (db_runs (st_db s))))"

text \<open>\<open>get_run\<close> in two steps: the query, and what is done with its answer.\<close>

definition run_with_events :: "run_summary \<Rightarrow> run_event list \<Rightarrow> run_record" where
  "run_with_events r es =
     \<lparr>rn_id = rn_id r, rn_kind = rn_kind r, rn_task = rn_task r, rn_brain = rn_brain r,
      rn_status = rn_status r, rn_started_at = rn_started_at r, rn_ended_at = rn_ended_at r,
      rn_error = rn_error r, rn_events = es\<rparr>"

definition read_run :: "db \<Rightarrow> string \<Rightarrow> run_record option res" where
  "read_run d i = (case sql_find rr_id i (db_runs d) of
      None \<Rightarrow> Inr None
    | Some row \<Rightarrow>
        rbind (row_to_summary row) (\<lambda>r.
          Inr (Some (run_with_events r (map row_to_event
            (sort_key er_seq (filter (\<lambda>e. er_run e = i) (db_events d))))))))"

definition cache_run :: "string \<Rightarrow> run_record \<Rightarrow> store \<Rightarrow> store" where
  "cache_run i r s =
     (let l = (if i \<in> fst ` set (st_lru s) then AList.update i r (st_lru s) else st_lru s @ [(i, r)])
      in s\<lparr>st_lru := (if length l > lru_capacity then tl l else l)\<rparr>)"

definition get_run :: "string \<Rightarrow> store \<Rightarrow> run_record option res \<times> store" where
  "get_run i s = (case map_of (st_lru s) i of
      Some r \<Rightarrow> (Inr (Some r), s\<lparr>st_lru := filter (\<lambda>e. fst e \<noteq> i) (st_lru s) @ [(i, r)]\<rparr>)
    | None \<Rightarrow>
        (case read_run (st_db s) i of
           Inr (Some r) \<Rightarrow> (Inr (Some r), cache_run i r s)
         | v \<Rightarrow> (v, s)))"

subsection \<open>Outcomes, feedback, analytics\<close>

definition upsert_run_outcome ::
  "real \<Rightarrow> string \<Rightarrow> string \<Rightarrow> real \<Rightarrow> string \<Rightarrow> string option \<Rightarrow> store \<Rightarrow> store" where
  "upsert_run_outcome now i outcome score source rationale =
     upd_db (\<lambda>d. d\<lparr>db_outcomes := sql_upsert oc_run (\<lambda>new old. new)
       \<lparr>oc_run = i, oc_outcome = outcome, oc_score = score, oc_source = source,
        oc_rationale = rationale, oc_decided = now\<rparr> (db_outcomes d)\<rparr>)"

definition insert_feedback ::
  "real \<Rightarrow> string \<Rightarrow> string \<Rightarrow> string option \<Rightarrow> store \<Rightarrow> int \<times> store" where
  "insert_feedback now i kind comment s =
     (let n = db_feedback_seq (st_db s) + 1
      in (n, upd_db (\<lambda>d. d\<lparr>db_feedback_seq := n, db_feedback := db_feedback d @
             [\<lparr>fb_id = n, fb_run = i, fb_kind = kind, fb_comment = comment, fb_created = now\<rparr>]\<rparr>) s))"

text \<open>\<open>GROUP BY\<close> with counts, most frequent first.\<close>

definition group_counts :: "string list \<Rightarrow> (string \<times> nat) list" where
  "group_counts ks =
     order_desc snd (map (\<lambda>k. (k, length (filter (\<lambda>x. x = k) ks))) (sort (remdups ks)))"

record analytics =
  an_days :: int
  an_total :: nat
  an_outcomes :: "(string \<times> nat) list"
  an_failures :: "(string \<times> nat) list"

definition recent_outcomes :: "db \<Rightarrow> real \<Rightarrow> (outcome_row \<times> run_row) list" where
  "recent_outcomes d cutoff =
     filter (\<lambda>(o', r). rr_id r = oc_run o' \<and> cutoff \<le> rr_started r)
       (List.product (db_outcomes d) (db_runs d))"

definition list_analytics :: "real \<Rightarrow> int \<Rightarrow> store \<Rightarrow> analytics" where
  "list_analytics now days s =
     (let cutoff = now - of_int (days * 86400);
          joined = recent_outcomes (st_db s) cutoff
      in \<lparr>an_days = days,
          an_total = length (filter (\<lambda>r. cutoff \<le> rr_started r) (db_runs (st_db s))),
          an_outcomes = group_counts (map (\<lambda>(o', r). oc_outcome o') joined),
          an_failures = take 10 (group_counts
            (map (\<lambda>(o', r). rr_task r) (filter (\<lambda>(o', r). oc_outcome o' = ''failure'') joined)))\<rparr>)"

subsection \<open>Episodes and reflections\<close>

definition insert_episode ::
  "real \<Rightarrow> string \<Rightarrow> string \<Rightarrow> string \<Rightarrow> string \<Rightarrow> string option \<Rightarrow> string \<Rightarrow> store \<Rightarrow> store" where
  "insert_episode now i task outcome summary ctx actions =
     upd_db (\<lambda>d. d\<lparr>db_episodes := sql_replace ep_run
       \<lparr>ep_run = i, ep_task = task, ep_normalized = strip (lower task), ep_outcome = outcome,
        ep_summary = summary, ep_context = ctx, ep_actions = actions, ep_created = now,
        ep_decay = 1, ep_accessed = None\<rparr> (db_episodes d)\<rparr>)"

definition insert_episode_vec :: "string \<Rightarrow> real list \<Rightarrow> store \<Rightarrow> store" where
  "insert_episode_vec i v s =
     (if \<not> st_vec_ok s then s
      else upd_db (\<lambda>d. d\<lparr>db_evecs := sql_replace fst (i, v) (db_evecs d)\<rparr>) s)"

text \<open>\<open>vdist\<close> is \<open>vec_distance_cosine\<close> of the vector extension.\<close>

definition query_episodes_by_vec ::
  "(real list \<Rightarrow> real list \<Rightarrow> real) \<Rightarrow> real list \<Rightarrow> int \<Rightarrow> string option \<Rightarrow> store
   \<Rightarrow> (episode_row \<times> real) list" where
  "query_episodes_by_vec vdist v k exclude s =
     (if \<not> st_vec_ok s then []
      else sql_limit k (sort_key snd
        (map (\<lambda>((i, w), e). (e, vdist w v))
          (filter (\<lambda>((i, w), e). ep_run e = i \<and>
                    (case exclude of None \<Rightarrow> True | Some x \<Rightarrow> x = [] \<or> ep_outcome e \<noteq> x))
            (List.product (db_evecs (st_db s)) (db_episodes (st_db s)))))))"

definition get_episode :: "string \<Rightarrow> store \<Rightarrow> episode_row option" where
  "get_episode i s = sql_find ep_run i (db_episodes (st_db s))"

definition insert_reflection ::
  "real \<Rightarrow> string \<Rightarrow> string \<Rightarrow> string \<Rightarrow> string \<Rightarrow> store \<Rightarrow> store" where
  "insert_reflection now i polarity text' by' =
     upd_db (\<lambda>d. d\<lparr>db_reflections := db_reflections d @
       [\<lparr>rf_run = i, rf_polarity = polarity, rf_text = text', rf_by = by', rf_created = now,
         rf_decay = 1, rf_accessed = None\<rparr>]\<rparr>)"

definition list_recent_reflections :: "string \<Rightarrow> int \<Rightarrow> store \<Rightarrow> reflection_row list" where
  "list_recent_reflections polarity n s =
     sql_limit n (order_desc rf_created (filter (\<lambda>r. rf_polarity r = polarity) (db_reflections (st_db s))))"

subsection \<open>Decay\<close>

text \<open>The score of a row last accessed (or created) at \<open>t\<close>, at the time \<open>now\<close>.\<close>

definition decay_score :: "real \<Rightarrow> int \<Rightarrow> real option \<Rightarrow> real \<Rightarrow> real" where
  "decay_score now half_life_days accessed created =
     (1 / 2) powr ((now - (case accessed of Some t \<Rightarrow> t | None \<Rightarrow> created))
                   / of_int (half_life_days * 86400))"

definition rescore_episode :: "real \<Rightarrow> int \<Rightarrow> episode_row \<Rightarrow> episode_row" where
  "rescore_episode now hl r = r\<lparr>ep_decay := decay_score now hl (ep_accessed r) (ep_created r)\<rparr>"

definition rescore_reflection :: "real \<Rightarrow> int \<Rightarrow> reflection_row \<Rightarrow> reflection_row" where
  "rescore_reflection now hl r = r\<lparr>rf_decay := decay_score now hl (rf_accessed r) (rf_created r)\<rparr>"

definition rescore_skill :: "real \<Rightarrow> int \<Rightarrow> skill_row \<Rightarrow> skill_row" where
  "rescore_skill now hl r = r\<lparr>sk_decay := decay_score now hl (sk_accessed r) (sk_created r)\<rparr>"

definition prune_decayed :: "real \<Rightarrow> real \<Rightarrow> int \<Rightarrow> store \<Rightarrow> (string \<times> nat) list \<times> store" where
  "prune_decayed now threshold hl s =
     (let d = st_db s;
          eps = map (rescore_episode now hl) (db_episodes d);
          rfs = map (rescore_reflection now hl) (db_reflections d);
          sks = map (rescore_skill now hl) (db_skills d)
      in ([(''episodes'', length (filter (\<lambda>r. ep_decay r < threshold) eps)),
           (''reflections'', length (filter (\<lambda>r. rf_decay r < threshold) rfs)),
           (''skills'', length (filter (\<lambda>r. sk_decay r < threshold) sks))],
          s\<lparr>st_db := d\<lparr>db_episodes := filter (\<lambda>r. \<not> ep_decay r < threshold) eps,
                       db_reflections := filter (\<lambda>r. \<not> rf_decay r < threshold) rfs,
                       db_skills := filter (\<lambda>r. \<not> sk_decay r < threshold) sks\<rparr>\<rparr>))"

text \<open>\<open>touch_memory\<close> on the tables and key columns there are; \<open>strftime('%s')\<close> is whole seconds.\<close>

definition touch_memory :: "real \<Rightarrow> string \<Rightarrow> string \<Rightarrow> string \<Rightarrow> store \<Rightarrow> store res" where
  "touch_memory now table col i s =
     (let t = of_int \<lfloor>now\<rfloor> in
      if table = ''episodes'' \<and> col = ''run_id'' then
        Inr (upd_db (\<lambda>d. d\<lparr>db_episodes := sql_update (\<lambda>r. ep_run r = i)
               (\<lambda>r. r\<lparr>ep_accessed := Some t, ep_decay := 1\<rparr>) (db_episodes d)\<rparr>) s)
      else if table = ''reflections'' \<and> col = ''run_id'' then
        Inr (upd_db (\<lambda>d. d\<lparr>db_reflections := sql_update (\<lambda>r. rf_run r = i)
               (\<lambda>r. r\<lparr>rf_accessed := Some t, rf_decay := 1\<rparr>) (db_reflections d)\<rparr>) s)
      else if table = ''skills'' \<and> col = ''skill_id'' then
        Inr (upd_db (\<lambda>d. d\<lparr>db_skills := sql_update (\<lambda>r. sk_id r = i)
               (\<lambda>r. r\<lparr>sk_accessed := Some t, sk_decay := 1\<rparr>) (db_skills d)\<rparr>) s)
      else Inl (DatabaseError ''no such column''))"

subsection \<open>Skills, rules, allowlist proposals\<close>

definition insert_skill ::
  "real \<Rightarrow> string \<Rightarrow> string \<Rightarrow> string \<Rightarrow> string \<Rightarrow> string option \<Rightarrow> store \<Rightarrow> store" where
  "insert_skill now i name desc actions source =
     upd_db (\<lambda>d. d\<lparr>db_skills := sql_replace sk_id
       \<lparr>sk_id = i, sk_name = name, sk_description = desc, sk_actions = actions, sk_source = source,
        sk_created = now, sk_status = ''draft'', sk_decay = 1, sk_accessed = None\<rparr> (db_skills d)\<rparr>)"

definition insert_skill_vec :: "string \<Rightarrow> real list \<Rightarrow> store \<Rightarrow> store" where
  "insert_skill_vec i v s =
     (if \<not> st_vec_ok s then s
      else upd_db (\<lambda>d. d\<lparr>db_svecs := sql_replace fst (i, v) (db_svecs d)\<rparr>) s)"

definition update_skill_status :: "string \<Rightarrow> string \<Rightarrow> store \<Rightarrow> store" where
  "update_skill_status i status =
     upd_db (\<lambda>d. d\<lparr>db_skills := sql_update (\<lambda>r. sk_id r = i) (\<lambda>r. r\<lparr>sk_status := status\<rparr>) (db_skills d)\<rparr>)"

definition record_skill_outcome :: "real \<Rightarrow> string \<Rightarrow> string \<Rightarrow> string \<Rightarrow> store \<Rightarrow> store" where
  "record_skill_outcome now i run outcome =
     upd_db (\<lambda>d. d\<lparr>db_skill_outcomes := sql_replace (\<lambda>r. (so_skill r, so_run r))
       \<lparr>so_skill = i, so_run = run, so_outcome = outcome, so_ts = now\<rparr> (db_skill_outcomes d)\<rparr>)"

definition with_status :: "('r \<Rightarrow> string) \<Rightarrow> string option \<Rightarrow> 'r list \<Rightarrow> 'r list" where
  "with_status f status rows = (case status of
      None \<Rightarrow> rows
    | Some x \<Rightarrow> if x = [] then rows else filter (\<lambda>r. f r = x) rows)"

definition list_skills :: "string option \<Rightarrow> int \<Rightarrow> store \<Rightarrow> skill_row list" where
  "list_skills status n s =
     sql_limit n (order_desc sk_created (with_status sk_status status (db_skills (st_db s))))"

definition query_skills_by_vec ::
  "(real list \<Rightarrow> real list \<Rightarrow> real) \<Rightarrow> real list \<Rightarrow> int \<Rightarrow> string \<Rightarrow> store \<Rightarrow> (skill_row \<times> real) list" where
  "query_skills_by_vec vdist v k status s =
     (if \<not> st_vec_ok s then []
      else sql_limit k (sort_key snd
        (map (\<lambda>((i, w), r). (r, vdist w v))
          (filter (\<lambda>((i, w), r). sk_id r = i \<and> sk_status r = status)
            (List.product (db_svecs (st_db s)) (db_skills (st_db s)))))))"

definition insert_learned_rule :: "real \<Rightarrow> string \<Rightarrow> string \<Rightarrow> real \<Rightarrow> string \<Rightarrow> store \<Rightarrow> store" where
  "insert_learned_rule now i yaml confidence sources =
     upd_db (\<lambda>d. d\<lparr>db_rules := sql_insert_ignore lr_id
       \<lparr>lr_id = i, lr_yaml = yaml, lr_confidence = confidence, lr_hits = 0, lr_sources = sources,
        lr_status = ''proposed'', lr_proposed = now, lr_decided = None\<rparr> (db_rules d)\<rparr>)"

definition list_learned_rules :: "string option \<Rightarrow> store \<Rightarrow> rule_row list" where
  "list_learned_rules status s =
     order_desc lr_proposed (with_status lr_status status (db_rules (st_db s)))"

definition update_learned_rule_status :: "real \<Rightarrow> string \<Rightarrow> string \<Rightarrow> store \<Rightarrow> store" where
  "update_learned_rule_status now i status =
     upd_db (\<lambda>d. d\<lparr>db_rules := sql_update (\<lambda>r. lr_id r = i)
       (\<lambda>r. r\<lparr>lr_status := status, lr_decided := Some now\<rparr>) (db_rules d)\<rparr>)"

definition proposal_key :: "proposal_row \<Rightarrow> string \<times> string" where
  "proposal_key p = (pr_class p, pr_title p)"

text \<open>
  The rowid of a new proposal follows the greatest ever given; a conflicting insert keeps the
  row, and counts a hit only while the proposal is pending.
\<close>

definition upsert_allowlist_proposal :: "real \<Rightarrow> string \<Rightarrow> string \<Rightarrow> store \<Rightarrow> store" where
  "upsert_allowlist_proposal now cls title =
     upd_db (\<lambda>d.
       if (cls, title) \<in> proposal_key ` set (db_proposals d)
       then d\<lparr>db_proposals := sql_update (\<lambda>p. proposal_key p = (cls, title) \<and> pr_status p = ''pending'')
              (\<lambda>p. p\<lparr>pr_hits := pr_hits p + 1, pr_seen := now\<rparr>) (db_proposals d)\<rparr>
       else d\<lparr>db_proposal_seq := db_proposal_seq d + 1, db_proposals := db_proposals d @
              [\<lparr>pr_id = db_proposal_seq d + 1, pr_class = cls, pr_title = title, pr_hits = 1,
                pr_seen = now, pr_status = ''pending''\<rparr>]\<rparr>)"

definition list_allowlist_proposals :: "string option \<Rightarrow> store \<Rightarrow> proposal_row list" where
  "list_allowlist_proposals status s =
     order_desc pr_hits (case status of
         None \<Rightarrow> db_proposals (st_db s)
       | Some x \<Rightarrow> filter (\<lambda>p. pr_status p = x) (db_proposals (st_db s)))"

definition update_allowlist_proposal_status :: "int \<Rightarrow> string \<Rightarrow> store \<Rightarrow> store" where
  "update_allowlist_proposal_status i status =
     upd_db (\<lambda>d. d\<lparr>db_proposals := sql_update (\<lambda>p. pr_id p = i)
       (\<lambda>p. p\<lparr>pr_status := status\<rparr>) (db_proposals d)\<rparr>)"

section \<open>The cache\<close>

lemma sql_find_update:
  assumes "\<And>r. key (f r) = key r"
  shows "sql_find key k (sql_update (\<lambda>r. key r = i) f rows) =
     (if k = i then map_option f (sql_find key k rows) else sql_find key k rows)"
  unfolding sql_find_def sql_update_def using assms
  by (induction rows) auto

lemma sql_find_insert:
  "sql_insert key r rows = Inr rows' \<Longrightarrow>
   sql_find key k rows' = (if k = key r then Some r else sql_find key k rows)"
proof -
  assume "sql_insert key r rows = Inr rows'"
  then have rows': "rows' = rows @ [r]" and new: "key r \<notin> key ` set rows"
    by (auto simp: sql_insert_def split: if_splits)
  have "List.find (\<lambda>x. key x = k) (rows @ [r]) = (if k = key r then Some r else List.find (\<lambda>x. key x = k) rows)"
    using new by (induction rows) auto
  with rows' show ?thesis by (simp add: sql_find_def)
qed

lemma sql_find_None: "sql_find key k rows = None \<longleftrightarrow> k \<notin> key ` set rows"
  by (auto simp: sql_find_def find_None)

text \<open>The cache holds what the database would answer, for different runs, within its capacity.\<close>

definition coherent :: "store \<Rightarrow> bool" where
  "coherent s \<longleftrightarrow> distinct (map fst (st_lru s)) \<and> length (st_lru s) \<le> lru_capacity \<and>
     (\<forall>i r. (i, r) \<in> set (st_lru s) \<longrightarrow> read_run (st_db s) i = Inr (Some r))"

text \<open>
  The contract of a write: it changes what is read of the runs in \<open>touched\<close> only, and
  removes those from the cache.
\<close>

locale store_write =
  fixes op :: "store \<Rightarrow> store" and touched :: "string set"
  assumes reads: "j \<notin> touched \<Longrightarrow> read_run (st_db (op s)) j = read_run (st_db s) j"
    and pops: "st_lru (op s) = filter (\<lambda>e. fst e \<notin> touched) (st_lru s)"
begin

lemma keeps_coherent: "coherent s \<Longrightarrow> coherent (op s)"
  using order_trans[OF length_filter_le]
  by (auto simp: coherent_def pops reads distinct_map_filter)

end

lemma read_run_runs:
  "sql_find rr_id j rows = sql_find rr_id j (db_runs d) \<Longrightarrow>
   read_run (d\<lparr>db_runs := rows\<rparr>) j = read_run d j"
  by (simp add: read_run_def split: option.split)

lemma read_run_frame:
  "db_runs d' = db_runs d \<Longrightarrow> db_events d' = db_events d \<Longrightarrow> read_run d' j = read_run d j"
  by (simp add: read_run_def split: option.split)

interpretation status_write: store_write "update_run_status now i status ended err" "{i}"
  for now i status ended err
  by unfold_locales
     (auto simp: update_run_status_def lru_pop_def upd_db_def Let_def sql_find_update intro!: read_run_runs)

interpretation metrics_write: store_write "update_run_metrics i iterations actions duration"
    "if iterations = None \<and> actions = None \<and> duration = None then {} else {i}"
  for i iterations actions duration
  by unfold_locales
     (auto simp: update_run_metrics_def lru_pop_def upd_db_def sql_find_update intro!: read_run_runs)

lemmas other_tables = upd_db_def upsert_run_outcome_def insert_episode_def insert_reflection_def
  insert_skill_def update_skill_status_def record_skill_outcome_def insert_learned_rule_def
  update_learned_rule_status_def upsert_allowlist_proposal_def update_allowlist_proposal_status_def
  insert_episode_vec_def insert_skill_vec_def insert_feedback_def prune_decayed_def Let_def

interpretation outcome_write: store_write "upsert_run_outcome now i oc sc src ra" "{}"
  for now i oc sc src ra
  by unfold_locales (auto simp: other_tables intro!: read_run_frame)

interpretation episode_write: store_write "insert_episode now i task oc sm ctx acts" "{}"
  for now i task oc sm ctx acts
  by unfold_locales (auto simp: other_tables intro!: read_run_frame)

interpretation reflection_write: store_write "insert_reflection now i pol txt by'" "{}"
  for now i pol txt by'
  by unfold_locales (auto simp: other_tables intro!: read_run_frame)

interpretation proposal_write: store_write "upsert_allowlist_proposal now cls title" "{}"
  for now cls title
  by unfold_locales (auto simp: other_tables intro!: read_run_frame)

interpretation prune_write: store_write "\<lambda>s. snd (prune_decayed now th hl s)" "{}"
  for now th hl
  by unfold_locales (auto simp: other_tables intro!: read_run_frame)

interpretation feedback_write: store_write "\<lambda>s. snd (insert_feedback now i k c s)" "{}"
  for now i k c
  by unfold_locales (auto simp: other_tables intro!: read_run_frame)

lemma insert_run_coherent:
  assumes "coherent s" and "insert_run r s = Inr s'"
  shows "coherent s'"
proof -
  obtain rows row where ins: "sql_insert rr_id row (db_runs (st_db s)) = Inr rows"
    and id: "rr_id row = rn_id r" and s': "s' = upd_db (\<lambda>d. d\<lparr>db_runs := rows\<rparr>) s"
    using assms(2) by (fastforce simp: insert_run_def)
  have fresh: "read_run (st_db s) (rn_id r) = Inr None"
    using ins id by (auto simp: read_run_def sql_find_None sql_insert_def split: if_splits option.splits)
  have "read_run (st_db s') j = read_run (st_db s) j" if "j \<noteq> rn_id r" for j
    using sql_find_insert[OF ins] that id by (auto simp: s' upd_db_def intro!: read_run_runs)
  with assms(1) fresh show ?thesis
    unfolding coherent_def by (auto simp: s' upd_db_def) (metis Inr_inject option.distinct(1))
qed

lemma append_event_parts:
  assumes "append_event i e s = Inr s'"
  shows "(i, ev_seq e) \<notin> event_key ` set (db_events (st_db s)) \<and>
     s' = lru_pop i (upd_db (\<lambda>d. d\<lparr>db_events := db_events d @
       [\<lparr>er_run = i, er_seq = ev_seq e, er_ts = ev_ts e, er_kind = ev_kind e, er_payload = ev_payload e\<rparr>]\<rparr>) s)"
  using assms by (auto simp: append_event_def sql_insert_def event_key_def upd_db_def split: if_splits)

lemma append_event_coherent:
  assumes "coherent s" and "append_event i e s = Inr s'"
  shows "coherent s'"
proof -
  note a = append_event_parts[OF assms(2)]
  have "read_run (st_db s') j = read_run (st_db s) j" if "j \<noteq> i" for j
    using that by (auto simp: conjunct2[OF a] read_run_def lru_pop_def upd_db_def split: option.split)
  then show ?thesis
    using assms(1) order_trans[OF length_filter_le]
    by (auto simp: coherent_def conjunct2[OF a] lru_pop_def upd_db_def distinct_map_filter)
qed

lemma get_run_coherent:
  assumes "coherent s"
  shows "fst (get_run i s) = read_run (st_db s) i \<and> coherent (snd (get_run i s)) \<and>
     st_db (snd (get_run i s)) = st_db s"
proof (cases "map_of (st_lru s) i")
  case (Some r)
  then have mem: "(i, r) \<in> set (st_lru s)" by (rule map_of_SomeD)
  have "length (filter (\<lambda>e. fst e \<noteq> i) (st_lru s)) < length (st_lru s)"
    using mem by (intro length_filter_less[of "(i, r)"]) auto
  with Some mem assms show ?thesis
    by (auto simp: get_run_def coherent_def distinct_map_filter)
next
  case None
  note miss = None
  then have new: "i \<notin> fst ` set (st_lru s)" by (simp add: map_of_eq_None_iff)
  show ?thesis
  proof (cases "read_run (st_db s) i")
    case (Inr v)
    show ?thesis
    proof (cases v)
      case (Some r)
      let ?l = "st_lru s @ [(i, r)]"
      have c: "cache_run i r s = s\<lparr>st_lru := (if length ?l > lru_capacity then tl ?l else ?l)\<rparr>"
        using new by (simp add: cache_run_def Let_def)
      have "set (tl ?l) \<subseteq> set ?l" by (cases ?l) auto
      moreover have "distinct (map fst (tl ?l))"
        using assms new by (cases "st_lru s") (auto simp: coherent_def)
      moreover have "distinct (map fst ?l)" using assms new by (simp add: coherent_def)
      moreover have "length (tl ?l) \<le> lru_capacity" using assms by (simp add: coherent_def)
      moreover have "read_run (st_db s) j = Inr (Some q)" if "(j, q) \<in> set ?l" for j q
        using that assms Inr Some by (auto simp: coherent_def)
      ultimately have "coherent (cache_run i r s)"
        unfolding coherent_def c by (auto simp: not_less)
      with miss Inr Some show ?thesis by (simp add: get_run_def c)
    qed (use miss Inr assms in \<open>simp add: get_run_def\<close>)
  qed (use miss assms in \<open>simp add: get_run_def\<close>)
qed

section \<open>Other tables\<close>

lemma keeps_iff:
  assumes "1 \<le> hl" and "0 < th"
  shows "\<not> decay_score now hl accessed created < th \<longleftrightarrow>
     now - (case accessed of Some t \<Rightarrow> t | None \<Rightarrow> created) \<le> of_int (hl * 86400) * log 2 (1 / th)"
proof -
  let ?age = "now - (case accessed of Some t \<Rightarrow> t | None \<Rightarrow> created)"
  let ?x = "?age / of_int (hl * 86400)"
  have pos: "0 < real_of_int (hl * 86400)" using assms(1) by simp
  have "(1 / 2) powr ?x = 2 powr (- ?x)"
    by (simp add: powr_minus_divide powr_divide)
  moreover have "th = 2 powr (log 2 th)" using assms(2) by simp
  ultimately have "\<not> decay_score now hl accessed created < th \<longleftrightarrow> log 2 th \<le> - ?x"
    unfolding decay_score_def by (metis not_less powr_le_cancel_iff one_less_numeral_iff semiring_norm(76))
  also have "\<dots> \<longleftrightarrow> ?x \<le> log 2 (1 / th)"
    using assms(2) by (auto simp: log_divide)
  also have "\<dots> \<longleftrightarrow> ?age \<le> of_int (hl * 86400) * log 2 (1 / th)"
    using pos by (simp add: pos_divide_le_eq mult.commute)
  finally show ?thesis .
qed

lemma frozen_step:
  assumes "p \<in> set (db_proposals (st_db s))" and "pr_status p \<noteq> ''pending''"
  shows "p \<in> set (db_proposals (st_db (upsert_allowlist_proposal now cls title s)))"
  using assms by (auto simp: upsert_allowlist_proposal_def upd_db_def sql_update_def)

definition upsert_all :: "(real \<times> string \<times> string) list \<Rightarrow> store \<Rightarrow> store" where
  "upsert_all ms s = foldl (\<lambda>s (now, cls, title). upsert_allowlist_proposal now cls title s) s ms"

lemma upsert_distinct:
  assumes "distinct (map proposal_key (db_proposals (st_db s)))"
  shows "distinct (map proposal_key (db_proposals (st_db (upsert_allowlist_proposal now cls title s))))"
proof (cases "(cls, title) \<in> proposal_key ` set (db_proposals (st_db s))")
  case True
  have "map proposal_key (sql_update P (\<lambda>p. p\<lparr>pr_hits := pr_hits p + 1, pr_seen := now\<rparr>) ps) =
      map proposal_key ps" for P ps
    by (auto simp: sql_update_def proposal_key_def)
  with assms True show ?thesis
    by (simp add: upsert_allowlist_proposal_def upd_db_def)
next
  case False
  let ?new = "\<lparr>pr_id = db_proposal_seq (st_db s) + 1, pr_class = cls, pr_title = title, pr_hits = 1,
                pr_seen = now, pr_status = ''pending''\<rparr>"
  have "db_proposals (st_db (upsert_allowlist_proposal now cls title s)) = db_proposals (st_db s) @ [?new]"
    using False by (simp add: upsert_allowlist_proposal_def upd_db_def)
  moreover have "proposal_key ?new = (cls, title)" by (simp add: proposal_key_def)
  ultimately show ?thesis using assms False by simp
qed

lemma filter_key_single:
  "distinct (map key xs) \<Longrightarrow> x \<in> set xs \<Longrightarrow> filter (\<lambda>y. key y = key x) xs = [x]"
proof (induction xs)
  case (Cons y ys)
  then show ?case
    by (cases "y = x") (auto simp: filter_empty_conv image_iff intro: filter_False)
qed simp

section \<open>Properties\<close>

text \<open>
  C12: The run cache is transparent: from a coherent store, \<open>get_run\<close> answers what the database
  holds and leaves the store coherent, whether it hits or misses; status and metric updates,
  new events and new runs keep it coherent.
\<close>

theorem run_cache_is_transparent:
  assumes "coherent s"
  shows "fst (get_run i s) = read_run (st_db s) i \<and> coherent (snd (get_run i s)) \<and>
     coherent (update_run_status now i st ended err s) \<and>
     coherent (update_run_metrics i iters acts dur s) \<and>
     (case append_event i e s of Inr s' \<Rightarrow> coherent s' | Inl x \<Rightarrow> True) \<and>
     (case insert_run r s of Inr s' \<Rightarrow> coherent s' | Inl x \<Rightarrow> True)"
  using get_run_coherent[OF assms] status_write.keeps_coherent[OF assms]
    metrics_write.keeps_coherent[OF assms] append_event_coherent[OF assms] insert_run_coherent[OF assms]
  by (auto split: sum.split)

definition sample_run :: run_summary where
  "sample_run = \<lparr>rn_id = ''r1'', rn_kind = RK_run, rn_task = ''t'', rn_brain = ''b'', rn_status = Running,
     rn_started_at = 0, rn_ended_at = None, rn_error = None\<rparr>"

definition sample_event :: run_event where
  "sample_event = \<lparr>ev_seq = 0, ev_ts = 0, ev_kind = ''start'', ev_payload = []\<rparr>"

definition empty_store :: store where
  "empty_store = \<lparr>st_db = empty_db, st_lru = [], st_vec_ok = False\<rparr>"

lemma empty_coherent: "coherent empty_store"
  by (simp add: coherent_def empty_store_def)

theorem run_cache_is_transparent_witness:
  "coherent empty_store \<and> fst (get_run ''r1'' empty_store) = read_run (st_db empty_store) ''r1'' \<and>
   (case insert_run sample_run empty_store of Inr s' \<Rightarrow> coherent s' | Inl x \<Rightarrow> True) \<and>
   insert_run sample_run empty_store \<noteq> Inl (DatabaseError ''UNIQUE constraint failed'')"
  using run_cache_is_transparent[OF empty_coherent] empty_coherent
  by (simp add: insert_run_def sql_insert_def empty_store_def empty_db_def)

text \<open>
  C40: A read of a run that overlaps a write can leave the cache wrong for good: when an event is
  appended between the query of \<open>get_run\<close>, which takes no lock, and the caching of its answer,
  the old record is cached after the invalidation and served to later readers without the event.
\<close>

theorem overlapping_read_caches_stale_run:
  assumes "read_run (st_db s) i = Inr (Some r)" and "map_of (st_lru s) i = None"
    and "append_event i e s = Inr s1"
  shows "fst (get_run i (cache_run i r s1)) = Inr (Some r) \<and> \<not> coherent (cache_run i r s1) \<and>
     (\<exists>r'. read_run (st_db (cache_run i r s1)) i = Inr (Some r') \<and>
       length (rn_events r') = length (rn_events r) + 1)"
proof -
  note a = append_event_parts[OF assms(3)]
  have new: "i \<notin> fst ` set (st_lru s1)"
    by (auto simp: conjunct2[OF a] lru_pop_def upd_db_def)
  then have c: "cache_run i r s1 = s1\<lparr>st_lru := (if length (st_lru s1 @ [(i, r)]) > lru_capacity
      then tl (st_lru s1 @ [(i, r)]) else st_lru s1 @ [(i, r)])\<rparr>"
    by (simp add: cache_run_def Let_def)
  have mem: "(i, r) \<in> set (st_lru (cache_run i r s1))"
    by (cases "st_lru s1") (auto simp: c lru_capacity_def)
  have "map_of (st_lru (cache_run i r s1)) i = Some r"
  proof -
    have ni: "map_of (st_lru s1) i = None" using new by (simp add: map_of_eq_None_iff)
    have tl_none: "map_of (tl (st_lru s1)) i = None"
      using new by (cases "st_lru s1") (auto simp: map_of_eq_None_iff)
    show ?thesis
      using ni tl_none by (cases "st_lru s1") (auto simp: c lru_capacity_def map_add_def)
  qed
  then have served: "fst (get_run i (cache_run i r s1)) = Inr (Some r)"
    by (simp add: get_run_def)
  have db1: "st_db s1 = (st_db s)\<lparr>db_events := db_events (st_db s) @
      [\<lparr>er_run = i, er_seq = ev_seq e, er_ts = ev_ts e, er_kind = ev_kind e, er_payload = ev_payload e\<rparr>]\<rparr>"
    by (simp add: conjunct2[OF a] lru_pop_def upd_db_def)
  obtain row q where row: "sql_find rr_id i (db_runs (st_db s)) = Some row" "row_to_summary row = Inr q"
    and r: "r = run_with_events q (map row_to_event
        (sort_key er_seq (filter (\<lambda>e. er_run e = i) (db_events (st_db s)))))"
    using assms(1) by (auto simp: read_run_def split: option.splits)
  let ?r' = "run_with_events q (map row_to_event
        (sort_key er_seq (filter (\<lambda>e. er_run e = i) (db_events (st_db s1)))))"
  have dbc: "st_db (cache_run i r s1) = st_db s1" by (simp add: c)
  have read: "read_run (st_db (cache_run i r s1)) i = Inr (Some ?r')"
    unfolding dbc using row by (simp add: read_run_def db1)
  have len: "length (rn_events ?r') = length (rn_events r) + 1"
    by (simp add: r db1 run_with_events_def)
  have "?r' \<noteq> r" using len by auto
  have "\<not> coherent (cache_run i r s1)"
  proof
    assume "coherent (cache_run i r s1)"
    then have "read_run (st_db (cache_run i r s1)) i = Inr (Some r)"
      using mem by (simp add: coherent_def)
    with read \<open>?r' \<noteq> r\<close> show False by simp
  qed
  with served read len show ?thesis by blast
qed

theorem overlapping_read_caches_stale_run_witness:
  "\<exists>s r s1 r'. read_run (st_db s) ''r1'' = Inr (Some r) \<and> append_event ''r1'' sample_event s = Inr s1 \<and>
     fst (get_run ''r1'' (cache_run ''r1'' r s1)) = Inr (Some r) \<and>
     read_run (st_db (cache_run ''r1'' r s1)) ''r1'' = Inr (Some r') \<and>
     length (rn_events r') = length (rn_events r) + 1"
proof -
  obtain s where s: "insert_run sample_run empty_store = Inr s"
    by (simp add: insert_run_def sql_insert_def empty_store_def empty_db_def)
  then have db: "db_runs (st_db s) = [\<lparr>rr_id = ''r1'', rr_kind = ''run'', rr_task = ''t'', rr_brain = ''b'',
      rr_status = ''running'', rr_started = 0, rr_ended = None, rr_error = None, rr_iterations = None,
      rr_actions = None, rr_duration = None\<rparr>]" "db_events (st_db s) = []" "st_lru s = []"
    by (auto simp: insert_run_def sql_insert_def empty_store_def empty_db_def sample_run_def upd_db_def)
  have k: "enum_lookup rk_value all_run_kinds ''run'' = Inr RK_run"
    "enum_lookup rs_value all_run_statuses ''running'' = Inr Running"
    using run_kind.lookup_val[of RK_run] run_status.lookup_val[of Running] by simp_all
  obtain r where r: "read_run (st_db s) ''r1'' = Inr (Some r)"
    by (simp add: read_run_def sql_find_def db row_to_summary_def k)
  obtain s1 where s1: "append_event ''r1'' sample_event s = Inr s1"
    by (simp add: append_event_def sql_insert_def db)
  have "map_of (st_lru s) ''r1'' = None" by (simp add: db)
  from overlapping_read_caches_stale_run[OF r this s1] r s1 show ?thesis by blast
qed

text \<open>
  The decay is the half-life rule: pruning keeps exactly the episodes whose last access (or,
  without one, whose creation) is at most \<open>half_life * log2 (1 / threshold)\<close> days old.
\<close>

theorem prune_keeps_recent:
  assumes "1 \<le> hl" and "0 < th"
  shows "map ep_run (db_episodes (st_db (snd (prune_decayed now th hl s)))) =
     map ep_run (filter (\<lambda>r. now - (case ep_accessed r of Some t \<Rightarrow> t | None \<Rightarrow> ep_created r)
                              \<le> of_int (hl * 86400) * log 2 (1 / th)) (db_episodes (st_db s)))"
proof -
  have "map ep_run (filter (\<lambda>r. \<not> ep_decay r < th) (map (rescore_episode now hl) rows)) =
      map ep_run (filter (\<lambda>r. now - (case ep_accessed r of Some t \<Rightarrow> t | None \<Rightarrow> ep_created r)
                              \<le> of_int (hl * 86400) * log 2 (1 / th)) rows)" for rows
    by (induction rows) (simp_all add: rescore_episode_def keeps_iff[OF assms])
  then show ?thesis by (simp add: prune_decayed_def Let_def)
qed

theorem prune_keeps_recent_witness:
  "map ep_run (db_episodes (st_db (snd (prune_decayed 100 (1 / 2) 1
     (insert_episode 50 ''r1'' ''t'' ''success'' ''s'' None ''[]'' empty_store))))) = [''r1'']"
proof -
  have "map ep_run (db_episodes (st_db (snd (prune_decayed 100 (1 / 2) 1
     (insert_episode 50 ''r1'' ''t'' ''success'' ''s'' None ''[]'' empty_store))))) =
    map ep_run (filter (\<lambda>r. 100 - (case ep_accessed r of Some t \<Rightarrow> t | None \<Rightarrow> ep_created r)
       \<le> of_int (1 * 86400) * log 2 (1 / (1 / 2)))
     (db_episodes (st_db (insert_episode 50 ''r1'' ''t'' ''success'' ''s'' None ''[]'' empty_store))))"
    by (rule prune_keeps_recent) simp_all
  then show ?thesis
    by (simp add: insert_episode_def upd_db_def sql_replace_def empty_store_def empty_db_def)
qed

text \<open>
  A decided allowlist proposal stays decided: once it has been approved or rejected, further
  misses of the same window change neither the row nor its count, and no second proposal for
  the same class and title appears.
\<close>

theorem decided_proposal_is_final:
  assumes "distinct (map proposal_key (db_proposals (st_db s)))"
    and "p \<in> set (db_proposals (st_db s))" and "pr_status p \<noteq> ''pending''"
  shows "filter (\<lambda>q. proposal_key q = proposal_key p) (db_proposals (st_db (upsert_all ms s))) = [p]"
proof -
  have "distinct (map proposal_key (db_proposals (st_db (upsert_all ms s)))) \<and>
      p \<in> set (db_proposals (st_db (upsert_all ms s)))"
    unfolding upsert_all_def using assms
  proof (induction ms rule: rev_induct)
    case (snoc m ms)
    then show ?case
      by (cases m) (simp add: upsert_distinct frozen_step)
  qed simp
  then show ?thesis
    by (intro filter_key_single) simp_all
qed

theorem decided_proposal_is_final_witness:
  "filter (\<lambda>q. proposal_key q = (''foot'', ''x''))
     (db_proposals (st_db (upsert_all [(3, ''foot'', ''x''), (4, ''foot'', ''x'')]
       (update_allowlist_proposal_status 1 ''rejected'' (upsert_allowlist_proposal 2 ''foot'' ''x'' empty_store))))) =
   [\<lparr>pr_id = 1, pr_class = ''foot'', pr_title = ''x'', pr_hits = 1, pr_seen = 2, pr_status = ''rejected''\<rparr>]"
  using decided_proposal_is_final[of "update_allowlist_proposal_status 1 ''rejected''
      (upsert_allowlist_proposal 2 ''foot'' ''x'' empty_store)"
    "\<lparr>pr_id = 1, pr_class = ''foot'', pr_title = ''x'', pr_hits = 1, pr_seen = 2, pr_status = ''rejected''\<rparr>"
    "[(3, ''foot'', ''x''), (4, ''foot'', ''x'')]"]
  by (simp add: update_allowlist_proposal_status_def upsert_allowlist_proposal_def upd_db_def
      sql_update_def empty_store_def empty_db_def proposal_key_def)

end
