(* ===== verification/Ipc.thy ===== *)
theory Ipc
  imports Schemas
begin

text \<open>
  \<open>src/src/agent/ipc\<close>: the RPC methods and topics, the frames of the wire protocol with their
  JSON form and its validation (\<open>protocol.py\<close>), the version check, and the newline-delimited
  framing over a byte stream (\<open>framing.py\<close>).  The text form of JSON is a pair of functions
  \<open>dumps\<close> and \<open>loads\<close>; bytes are characters.
\<close>

section \<open>Methods and topics\<close>

datatype rpc_method =
    M_plan_task | M_run_task | M_cancel_run | M_list_runs | M_get_run | M_list_windows
  | M_screenshot | M_reload_rules | M_arm_killswitch | M_daemon_status | M_record_feedback
  | M_runs_analytics | M_learning_list | M_learning_approve | M_learning_reject
  | M_learning_explain | M_memory_search | M_memory_get

definition all_methods :: "rpc_method list" where
  "all_methods =
     [M_plan_task, M_run_task, M_cancel_run, M_list_runs, M_get_run, M_list_windows,
      M_screenshot, M_reload_rules, M_arm_killswitch, M_daemon_status, M_record_feedback,
      M_runs_analytics, M_learning_list, M_learning_approve, M_learning_reject,
      M_learning_explain, M_memory_search, M_memory_get]"

fun method_value :: "rpc_method \<Rightarrow> string" where
  "method_value M_plan_task = ''plan_task''"
| "method_value M_run_task = ''run_task''"
| "method_value M_cancel_run = ''cancel_run''"
| "method_value M_list_runs = ''list_runs''"
| "method_value M_get_run = ''get_run''"
| "method_value M_list_windows = ''list_windows''"
| "method_value M_screenshot = ''screenshot''"
| "method_value M_reload_rules = ''reload_rules''"
| "method_value M_arm_killswitch = ''arm_killswitch''"
| "method_value M_daemon_status = ''daemon_status''"
| "method_value M_record_feedback = ''record_feedback''"
| "method_value M_runs_analytics = ''runs_analytics''"
| "method_value M_learning_list = ''learning_list''"
| "method_value M_learning_approve = ''learning_approve''"
| "method_value M_learning_reject = ''learning_reject''"
| "method_value M_learning_explain = ''learning_explain''"
| "method_value M_memory_search = ''memory_search''"
| "method_value M_memory_get = ''memory_get''"

interpretation rpc_method: str_enum method_value all_methods
proof
  show "m \<in> set all_methods" for m by (cases m) (simp_all add: all_methods_def)
  show "m = m'" if "method_value m = method_value m'" for m m'
    using that by (cases m; cases m'; simp)
qed

datatype topic = T_runs | T_hypr_events | T_logs | T_voice

definition all_topics :: "topic list" where
  "all_topics = [T_runs, T_hypr_events, T_logs, T_voice]"

fun topic_value :: "topic \<Rightarrow> string" where
  "topic_value T_runs = ''runs''"
| "topic_value T_hypr_events = ''hypr_events''"
| "topic_value T_logs = ''logs''"
| "topic_value T_voice = ''voice''"

interpretation topic: str_enum topic_value all_topics
proof
  show "m \<in> set all_topics" for m by (cases m) (simp_all add: all_topics_def)
  show "m = m'" if "topic_value m = topic_value m'" for m m'
    using that by (cases m; cases m'; simp)
qed

section \<open>Frames\<close>

datatype frame =
    Hello string "string list"
  | Request string rpc_method params
  | Response string "params option" "string dict option"
  | Subscribe "topic list"
  | Unsubscribe "topic list"
  | Event topic params
  | Ping
  | Pong

definition jstrs :: "string list \<Rightarrow> json" where
  "jstrs ss = JList (map JStr ss)"

definition jtopics :: "topic list \<Rightarrow> json" where
  "jtopics ts = jstrs (map topic_value ts)"

text \<open>\<open>model_dump_json\<close>, as a JSON value.\<close>

fun frame_json :: "frame \<Rightarrow> params" where
  "frame_json (Hello v cs) =
     [(''type'', JStr ''hello''), (''version'', JStr v), (''capabilities'', jstrs cs)]"
| "frame_json (Request i m p) =
     [(''type'', JStr ''request''), (''id'', JStr i), (''method'', JStr (method_value m)),
      (''params'', JObj p)]"
| "frame_json (Response i r e) =
     [(''type'', JStr ''response''), (''id'', JStr i),
      (''result'', case r of None \<Rightarrow> JNull | Some d \<Rightarrow> JObj d),
      (''error'', case e of None \<Rightarrow> JNull | Some d \<Rightarrow> JObj (map (\<lambda>(k, s). (k, JStr s)) d))]"
| "frame_json (Subscribe ts) = [(''type'', JStr ''subscribe''), (''topics'', jtopics ts)]"
| "frame_json (Unsubscribe ts) = [(''type'', JStr ''unsubscribe''), (''topics'', jtopics ts)]"
| "frame_json (Event t p) =
     [(''type'', JStr ''event''), (''topic'', JStr (topic_value t)), (''payload'', JObj p)]"
| "frame_json Ping = [(''type'', JStr ''ping'')]"
| "frame_json Pong = [(''type'', JStr ''pong'')]"

text \<open>Validation: each field has its declared type, and unknown fields are refused.\<close>

definition schema_error :: "'a res" where
  "schema_error = Inl (FrameParseError ''schema error'')"

fun as_str :: "json \<Rightarrow> string res" where
  "as_str (JStr s) = Inr s"
| "as_str _ = schema_error"

fun as_obj :: "json \<Rightarrow> params res" where
  "as_obj (JObj d) = Inr d"
| "as_obj _ = schema_error"

fun as_strs :: "json \<Rightarrow> string list res" where
  "as_strs (JList js) = rmap as_str js"
| "as_strs _ = schema_error"

fun as_opt :: "(json \<Rightarrow> 'a res) \<Rightarrow> json \<Rightarrow> 'a option res" where
  "as_opt f JNull = Inr None"
| "as_opt f j = rbind (f j) (\<lambda>x. Inr (Some x))"

definition as_str_dict :: "json \<Rightarrow> string dict res" where
  "as_str_dict j = rbind (as_obj j) (rmap (\<lambda>(k, v). rbind (as_str v) (\<lambda>s. Inr (k, s))))"

definition as_method :: "json \<Rightarrow> rpc_method res" where
  "as_method j = rbind (as_str j) (\<lambda>s.
     case enum_lookup method_value all_methods s of Inr m \<Rightarrow> Inr m | Inl _ \<Rightarrow> schema_error)"

definition as_topic :: "json \<Rightarrow> topic res" where
  "as_topic j = rbind (as_str j) (\<lambda>s.
     case enum_lookup topic_value all_topics s of Inr t \<Rightarrow> Inr t | Inl _ \<Rightarrow> schema_error)"

fun as_topics :: "json \<Rightarrow> topic list res" where
  "as_topics (JList js) = rmap as_topic js"
| "as_topics _ = schema_error"

definition field :: "params \<Rightarrow> string \<Rightarrow> (json \<Rightarrow> 'a res) \<Rightarrow> 'a res" where
  "field d k f = (case dget d k of None \<Rightarrow> schema_error | Some j \<Rightarrow> f j)"

definition field_or :: "params \<Rightarrow> string \<Rightarrow> (json \<Rightarrow> 'a res) \<Rightarrow> 'a \<Rightarrow> 'a res" where
  "field_or d k f dflt = (case dget d k of None \<Rightarrow> Inr dflt | Some j \<Rightarrow> f j)"

definition only_keys :: "params \<Rightarrow> string list \<Rightarrow> 'a res \<Rightarrow> 'a res" where
  "only_keys d ks r = (if set (map fst d) \<subseteq> set (''type'' # ks) then r else schema_error)"

definition validate_frame :: "params \<Rightarrow> frame res" where
  "validate_frame d = rbind (field d ''type'' as_str) (\<lambda>t.
     if t = ''hello'' then only_keys d [''version'', ''capabilities'']
       (rbind (field d ''version'' as_str) (\<lambda>v.
        rbind (field_or d ''capabilities'' as_strs []) (\<lambda>cs. Inr (Hello v cs))))
     else if t = ''request'' then only_keys d [''id'', ''method'', ''params'']
       (rbind (field d ''id'' as_str) (\<lambda>i.
        rbind (field d ''method'' as_method) (\<lambda>m.
        rbind (field_or d ''params'' as_obj []) (\<lambda>p. Inr (Request i m p)))))
     else if t = ''response'' then only_keys d [''id'', ''result'', ''error'']
       (rbind (field d ''id'' as_str) (\<lambda>i.
        rbind (field_or d ''result'' (as_opt as_obj) None) (\<lambda>r.
        rbind (field_or d ''error'' (as_opt as_str_dict) None) (\<lambda>e. Inr (Response i r e)))))
     else if t = ''subscribe'' then only_keys d [''topics'']
       (rbind (field d ''topics'' as_topics) (\<lambda>ts. Inr (Subscribe ts)))
     else if t = ''unsubscribe'' then only_keys d [''topics'']
       (rbind (field d ''topics'' as_topics) (\<lambda>ts. Inr (Unsubscribe ts)))
     else if t = ''event'' then only_keys d [''topic'', ''payload'']
       (rbind (field d ''topic'' as_topic) (\<lambda>tp.
        rbind (field d ''payload'' as_obj) (\<lambda>p. Inr (Event tp p))))
     else if t = ''ping'' then only_keys d [] (Inr Ping)
     else if t = ''pong'' then only_keys d [] (Inr Pong)
     else schema_error)"

lemma rmap_as_str [simp]: "rmap as_str (map JStr ss) = Inr ss"
  by (induction ss) auto

lemma as_topic_value [simp]: "as_topic (JStr (topic_value t)) = Inr t"
  by (simp add: as_topic_def topic.lookup_val)

lemma as_method_value [simp]: "as_method (JStr (method_value m)) = Inr m"
  by (simp add: as_method_def rpc_method.lookup_val)

lemma as_topics_jtopics [simp]: "as_topics (jtopics ts) = Inr ts"
proof -
  have "rmap as_topic (map JStr (map topic_value ts)) = Inr ts"
    by (induction ts) auto
  then show ?thesis by (simp add: jtopics_def jstrs_def)
qed

lemma as_str_dict_dump [simp]:
  "as_str_dict (JObj (map (\<lambda>(k, s). (k, JStr s)) d)) = Inr d"
proof -
  have "rmap (\<lambda>(k, v). rbind (as_str v) (\<lambda>s. Inr (k, s))) (map (\<lambda>(k, s). (k, JStr s)) d) = Inr d"
    by (induction d) auto
  then show ?thesis by (simp add: as_str_dict_def)
qed

lemma validate_frame_json: "validate_frame (frame_json f) = Inr f"
  by (cases f) (auto simp: validate_frame_def field_def field_or_def only_keys_def jstrs_def
      split: option.splits)

section \<open>Versions\<close>

definition protocol_version :: string where "protocol_version = ''1.0''"
definition protocol_major :: int where "protocol_major = 1"

definition parse_major :: "string \<Rightarrow> int" where
  "parse_major v = (case parse_int (hd (split_on CHR ''.'' v)) of None \<Rightarrow> - 1 | Some i \<Rightarrow> i)"

definition versions_compatible :: "string \<Rightarrow> string \<Rightarrow> bool" where
  "versions_compatible a b =
     (parse_major a = parse_major b \<and> parse_major b = protocol_major)"

definition make_error_response :: "string \<Rightarrow> string \<Rightarrow> string \<Rightarrow> frame" where
  "make_error_response i message err_code =
     Response i None (Some [(''code'', err_code), (''message'', message)])"

definition make_ok_response :: "string \<Rightarrow> params \<Rightarrow> frame" where
  "make_ok_response i result = Response i (Some result) None"

section \<open>Framing\<close>

definition frame_max_bytes :: nat where "frame_max_bytes = 1024 * 1024"

definition encode_frame :: "(params \<Rightarrow> string) \<Rightarrow> frame \<Rightarrow> string" where
  "encode_frame dumps f = dumps (frame_json f) @ [chr_nl]"

text \<open>\<open>json.loads\<close> of a line: \<open>None\<close> when it is not JSON.\<close>

definition decode_frame :: "(string \<Rightarrow> json option) \<Rightarrow> string \<Rightarrow> frame res" where
  "decode_frame loads line = (case loads line of
      None \<Rightarrow> Inl (FrameParseError ''invalid JSON'')
    | Some (JObj d) \<Rightarrow> validate_frame d
    | Some _ \<Rightarrow> Inl (FrameParseError ''frame must be a JSON object''))"

text \<open>
  \<open>readuntil\<close> of a stream with a buffer limit, on the bytes that arrive until the end of the
  stream: the line with its newline and what is left, or the error, which consumes nothing.
\<close>

definition read_until :: "nat \<Rightarrow> string \<Rightarrow> (string \<times> string) res" where
  "read_until lm bytes =
     (let body = takeWhile (\<lambda>c. c \<noteq> chr_nl) bytes; rest = dropWhile (\<lambda>c. c \<noteq> chr_nl) bytes
      in if length body > lm then Inl (FrameTooLargeError (length body))
         else if rest = [] then Inl (FrameParseError ''connection closed mid-frame'')
         else Inr (body @ [chr_nl], tl rest))"

definition read_frame ::
  "(string \<Rightarrow> json option) \<Rightarrow> nat \<Rightarrow> string \<Rightarrow> (frame res \<times> string) res" where
  "read_frame loads lm bytes =
     rbind (read_until lm bytes) (\<lambda>(line, rest). Inr (decode_frame loads line, rest))"

text \<open>What a reader that skips bad lines gets from a stream, and the error that ends it.\<close>

function read_all :: "(string \<Rightarrow> json option) \<Rightarrow> nat \<Rightarrow> string \<Rightarrow> frame res list \<times> py_exc" where
  "read_all loads lm bytes = (case read_frame loads lm bytes of
      Inl e \<Rightarrow> ([], e)
    | Inr (fr, rest) \<Rightarrow> (let (frs, e) = read_all loads lm rest in (fr # frs, e)))"
  by pat_completeness auto
termination
proof (relation "measure (\<lambda>(_, _, bytes). length bytes)", simp, goal_cases)
  case (1 loads lm bytes b fr rest)
  then have r: "dropWhile (\<lambda>c. c \<noteq> chr_nl) bytes \<noteq> []" "rest = tl (dropWhile (\<lambda>c. c \<noteq> chr_nl) bytes)"
    by (auto simp: read_frame_def read_until_def Let_def split: if_splits)
  have "length (dropWhile (\<lambda>c. c \<noteq> chr_nl) bytes) \<le> length bytes"
    by (rule length_dropWhile_le)
  with r show ?case by (cases "dropWhile (\<lambda>c. c \<noteq> chr_nl) bytes") auto
qed

declare read_all.simps [simp del]

definition wire_ok :: "(params \<Rightarrow> string) \<Rightarrow> (string \<Rightarrow> json option) \<Rightarrow> nat \<Rightarrow> frame \<Rightarrow> bool" where
  "wire_ok dumps loads lm f \<longleftrightarrow>
     (let s = dumps (frame_json f)
      in chr_nl \<notin> set s \<and> length s \<le> lm \<and> loads (s @ [chr_nl]) = Some (JObj (frame_json f)))"

lemma takeWhile_line:
  "chr_nl \<notin> set s \<Longrightarrow> takeWhile (\<lambda>c. c \<noteq> chr_nl) (s @ chr_nl # r) = s \<and>
     dropWhile (\<lambda>c. c \<noteq> chr_nl) (s @ chr_nl # r) = chr_nl # r"
  by (induction s) auto

lemma read_frame_encoded:
  assumes "wire_ok dumps loads lm f"
  shows "read_frame loads lm (encode_frame dumps f @ rest) = Inr (Inr f, rest)"
  using assms takeWhile_line[of "dumps (frame_json f)" rest] validate_frame_json[of f]
  by (simp add: wire_ok_def read_frame_def read_until_def encode_frame_def decode_frame_def Let_def)

section \<open>Properties\<close>



text \<open>
  Only well-formed frames are accepted: whatever the JSON object, validation gives a frame
  only when the object has no field beyond those the frame's own JSON form has.
\<close>

theorem validation_is_strict:
  assumes "validate_frame d = Inr f"
  shows "set (map fst d) \<subseteq> set (map fst (frame_json f)) \<and>
     dget d ''type'' = dget (frame_json f) ''type''"
  using assms
  by (auto simp: validate_frame_def field_def only_keys_def schema_error_def split: if_splits option.splits
      elim!: as_str.elims)

theorem validation_is_strict_witness:
  "validate_frame [(''type'', JStr ''ping'')] = Inr Ping \<and>
   set (map fst [(''type'', JStr ''ping'')]) \<subseteq> set (map fst (frame_json Ping))"
proof -
  have v: "validate_frame [(''type'', JStr ''ping'')] = Inr Ping"
    using validate_frame_json[of Ping] by simp
  from validation_is_strict[OF v] v show ?thesis by simp
qed

end
