(* ===== verification/Pubsub.thy ===== *)
theory Pubsub
  imports Ipc Awareness
begin

text \<open>
  \<open>src/src/agent/daemon/pubsub.py\<close>: subscribers with their queues and drop policies, and the
  bus that fans payloads out per topic.  A locale describes bounded first-in-first-out buffers
  that forget their oldest entries; it is interpreted on the queues of the topics with the
  drop-oldest policy, on the loop detector's history and on the working memory.
\<close>

section \<open>Bounded buffers\<close>

locale bounded_fifo =
  fixes put :: "'q \<Rightarrow> 'a \<Rightarrow> 'q" and contents :: "'q \<Rightarrow> 'a list" and cap :: nat
    and ok :: "'q \<Rightarrow> bool"
  assumes put_contents: "ok q \<Longrightarrow> contents (put q x) = push_bounded cap (contents q) x"
    and put_ok: "ok q \<Longrightarrow> ok (put q x)"
begin

lemma put_all_ok: "ok q \<Longrightarrow> ok (foldl put q xs)"
  by (induction xs arbitrary: q) (auto simp: put_ok)

lemma put_all:
  "ok q \<Longrightarrow> length (contents q) \<le> cap \<Longrightarrow>
   contents (foldl put q xs) = drop (length (contents q) + length xs - cap) (contents q @ xs)"
proof (induction xs rule: rev_induct)
  case (snoc x xs)
  then have "contents (foldl put q (xs @ [x])) = push_bounded cap (contents (foldl put q xs)) x"
    by (simp add: put_contents put_all_ok)
  also have "\<dots> = drop (Suc (length (contents q @ xs)) - cap) ((contents q @ xs) @ [x])"
    using snoc push_bounded_drop[of cap "contents q @ xs" x] by simp
  finally show ?case by simp
qed simp

lemma keeps_last:
  "ok q \<Longrightarrow> contents q = [] \<Longrightarrow> contents (foldl put q xs) = drop (length xs - cap) xs"
  using put_all[of q xs] by simp

lemma never_over: "ok q \<Longrightarrow> contents q = [] \<Longrightarrow> length (contents (foldl put q xs)) \<le> cap"
  by (simp add: keeps_last)

end

section \<open>Subscribers\<close>

datatype drop_policy = Drop_oldest | Disconnect

definition topic_config :: "(topic \<times> nat \<times> drop_policy) list" where
  "topic_config =
     [(T_runs, 0, Disconnect), (T_hypr_events, 256, Drop_oldest), (T_logs, 1024, Drop_oldest)]"

record subscriber =
  sb_id :: nat
  sb_cap :: nat
  sb_policy :: drop_policy
  sb_queue :: "params list"
  sb_disconnected :: bool

definition new_subscriber :: "nat \<Rightarrow> topic \<Rightarrow> subscriber res" where
  "new_subscriber i t = (case map_of topic_config t of
      None \<Rightarrow> Inl (KeyError (topic_value t))
    | Some (cap, policy) \<Rightarrow>
        Inr \<lparr>sb_id = i, sb_cap = cap, sb_policy = policy, sb_queue = [], sb_disconnected = False\<rparr>)"

text \<open>\<open>asyncio.Queue\<close>: a capacity of 0 is no bound.\<close>

definition queue_full :: "subscriber \<Rightarrow> bool" where
  "queue_full s = (0 < sb_cap s \<and> sb_cap s \<le> length (sb_queue s))"

definition disconnect :: "subscriber \<Rightarrow> subscriber" where
  "disconnect s = s\<lparr>sb_disconnected := True\<rparr>"

definition put_nowait :: "subscriber \<Rightarrow> params \<Rightarrow> subscriber" where
  "put_nowait s p =
     (if sb_disconnected s then s
      else case sb_policy s of
        Drop_oldest \<Rightarrow>
          if queue_full s then s\<lparr>sb_queue := tl (sb_queue s) @ [p]\<rparr>
          else s\<lparr>sb_queue := sb_queue s @ [p]\<rparr>
      | Disconnect \<Rightarrow>
          if queue_full s then s\<lparr>sb_disconnected := True\<rparr>
          else s\<lparr>sb_queue := sb_queue s @ [p]\<rparr>)"

definition get_nowait :: "subscriber \<Rightarrow> (params \<times> subscriber) option" where
  "get_nowait s = (case sb_queue s of [] \<Rightarrow> None | p # ps \<Rightarrow> Some (p, s\<lparr>sb_queue := ps\<rparr>))"

definition lossy :: "nat \<Rightarrow> subscriber \<Rightarrow> bool" where
  "lossy cap s \<longleftrightarrow> \<not> sb_disconnected s \<and> sb_policy s = Drop_oldest \<and> sb_cap s = cap \<and>
     0 < cap \<and> length (sb_queue s) \<le> cap"

lemma put_nowait_lossy:
  assumes "lossy cap s"
  shows "sb_queue (put_nowait s p) = push_bounded cap (sb_queue s) p" and "lossy cap (put_nowait s p)"
  using assms
  by (cases "sb_queue s"; auto simp: lossy_def put_nowait_def queue_full_def push_bounded_def Let_def)+

interpretation events_queue: bounded_fifo put_nowait sb_queue 256 "lossy 256"
  by unfold_locales (auto intro: put_nowait_lossy)

interpretation logs_queue: bounded_fifo put_nowait sb_queue 1024 "lossy 1024"
  by unfold_locales (auto intro: put_nowait_lossy)

section \<open>The bus\<close>

record bus =
  bus_subs :: "topic \<Rightarrow> subscriber list"
  bus_next :: nat

definition new_bus :: bus where
  "new_bus = \<lparr>bus_subs = (\<lambda>t. []), bus_next = 0\<rparr>"

definition subscribe :: "bus \<Rightarrow> topic \<Rightarrow> (subscriber \<times> bus) res" where
  "subscribe b t = rbind (new_subscriber (bus_next b) t) (\<lambda>s.
     Inr (s, b\<lparr>bus_subs := (bus_subs b)(t := bus_subs b t @ [s]), bus_next := bus_next b + 1\<rparr>))"

definition drop_ids :: "nat list \<Rightarrow> subscriber list \<Rightarrow> subscriber list" where
  "drop_ids is subs = filter (\<lambda>s. sb_id s \<notin> set is) subs"

definition unsubscribe :: "bus \<Rightarrow> topic \<Rightarrow> nat \<Rightarrow> bus" where
  "unsubscribe b t i = b\<lparr>bus_subs := (bus_subs b)(t := drop_ids [i] (bus_subs b t))\<rparr>"

definition publish :: "bus \<Rightarrow> topic \<Rightarrow> params \<Rightarrow> bus" where
  "publish b t p =
     (let subs = map (\<lambda>s. put_nowait s p) (bus_subs b t);
          dead = map sb_id (filter sb_disconnected subs)
      in b\<lparr>bus_subs := (bus_subs b)(t := drop_ids dead subs)\<rparr>)"

definition subscriber_count :: "bus \<Rightarrow> topic \<Rightarrow> nat" where
  "subscriber_count b t = length (bus_subs b t)"

definition find_sub :: "bus \<Rightarrow> topic \<Rightarrow> nat \<Rightarrow> subscriber option" where
  "find_sub b t i = List.find (\<lambda>s. sb_id s = i) (bus_subs b t)"

definition publish_all :: "bus \<Rightarrow> topic \<Rightarrow> params list \<Rightarrow> bus" where
  "publish_all b t ps = foldl (\<lambda>b p. publish b t p) b ps"

text \<open>Taking one payload from a subscriber's queue.\<close>

definition take_one :: "bus \<Rightarrow> topic \<Rightarrow> nat \<Rightarrow> bus" where
  "take_one b t i =
     b\<lparr>bus_subs := (bus_subs b)(t := map (\<lambda>s. if sb_id s = i
          then (case get_nowait s of None \<Rightarrow> s | Some (_, s') \<Rightarrow> s') else s) (bus_subs b t))\<rparr>"

definition bus_ok :: "bus \<Rightarrow> bool" where
  "bus_ok b \<longleftrightarrow> (\<forall>t. distinct (map sb_id (bus_subs b t)) \<and>
     (\<forall>s\<in>set (bus_subs b t). sb_id s < bus_next b \<and> \<not> sb_disconnected s \<and>
        map_of topic_config t = Some (sb_cap s, sb_policy s) \<and>
        (sb_policy s = Drop_oldest \<longrightarrow> length (sb_queue s) \<le> sb_cap s)))"

lemma put_nowait_fields [simp]:
  "sb_id (put_nowait s p) = sb_id s" "sb_cap (put_nowait s p) = sb_cap s"
  "sb_policy (put_nowait s p) = sb_policy s"
  by (auto simp: put_nowait_def split: drop_policy.splits)

lemma new_bus_ok: "bus_ok new_bus"
  by (simp add: bus_ok_def new_bus_def)

lemma subscribe_ok: "bus_ok b \<Longrightarrow> subscribe b t = Inr (s, b') \<Longrightarrow> bus_ok b'"
proof -
  assume ok: "bus_ok b" and sub: "subscribe b t = Inr (s, b')"
  then obtain cap pol where c: "map_of topic_config t = Some (cap, pol)"
    and s: "s = \<lparr>sb_id = bus_next b, sb_cap = cap, sb_policy = pol, sb_queue = [], sb_disconnected = False\<rparr>"
    and b': "b' = b\<lparr>bus_subs := (bus_subs b)(t := bus_subs b t @ [s]), bus_next := bus_next b + 1\<rparr>"
    by (auto simp: subscribe_def new_subscriber_def split: option.splits)
  have old: "sb_id x < bus_next b" if "x \<in> set (bus_subs b t')" for x t'
    using ok that by (auto simp: bus_ok_def)
  then have "bus_next b \<notin> sb_id ` set (bus_subs b t)" by force
  with ok c show "bus_ok b'"
    unfolding b' s bus_ok_def by (auto simp: less_Suc_eq)
qed

lemma unsubscribe_ok: "bus_ok b \<Longrightarrow> bus_ok (unsubscribe b t i)"
  by (auto simp: bus_ok_def unsubscribe_def drop_ids_def distinct_map_filter)

lemma put_nowait_live:
  assumes "map_of topic_config t = Some (sb_cap s, sb_policy s)" and "\<not> sb_disconnected s"
  shows "\<not> sb_disconnected (put_nowait s p)"
  using assms
  by (auto simp: put_nowait_def queue_full_def topic_config_def split: if_splits drop_policy.splits)

lemma publish_live:
  assumes "bus_ok b"
  shows "bus_subs (publish b t p) = (bus_subs b)(t := map (\<lambda>s. put_nowait s p) (bus_subs b t))"
proof -
  have "\<not> sb_disconnected (put_nowait s p)" if "s \<in> set (bus_subs b t)" for s
  proof -
    from assms that have "map_of topic_config t = Some (sb_cap s, sb_policy s)" "\<not> sb_disconnected s"
      unfolding bus_ok_def by blast+
    then show ?thesis by (rule put_nowait_live)
  qed
  then have "filter sb_disconnected (map (\<lambda>s. put_nowait s p) (bus_subs b t)) = []"
    by (auto simp: filter_empty_conv)
  then have "map sb_id (filter sb_disconnected (map (\<lambda>s. put_nowait s p) (bus_subs b t))) = []"
    by (simp only: list.map)
  then show ?thesis by (simp only: publish_def Let_def) (simp add: drop_ids_def)
qed

lemma publish_ok:
  assumes "bus_ok b"
  shows "bus_ok (publish b t p)"
proof -
  have len: "length (sb_queue (put_nowait s p)) \<le> sb_cap s"
    if "sb_policy s = Drop_oldest" "length (sb_queue s) \<le> sb_cap s" "map_of topic_config t = Some (sb_cap s, sb_policy s)" for s
    using that by (auto simp: put_nowait_def queue_full_def topic_config_def split: if_splits)
  have "bus_next (publish b t p) = bus_next b" by (simp add: publish_def Let_def)
  then show ?thesis
    using assms len put_nowait_live
    by (simp add: bus_ok_def publish_live[OF assms] comp_def) blast
qed

lemma find_sub_publish:
  assumes "bus_ok b"
  shows "find_sub (publish b t p) t' i =
     (if t' = t then map_option (\<lambda>s. put_nowait s p) (find_sub b t' i) else find_sub b t' i)"
proof -
  have "List.find (\<lambda>s. sb_id s = i) (map (\<lambda>s. put_nowait s p) ss) =
      map_option (\<lambda>s. put_nowait s p) (List.find (\<lambda>s. sb_id s = i) ss)" for ss
    by (induction ss) auto
  then show ?thesis by (simp add: find_sub_def publish_live[OF assms])
qed

lemma find_sub_publish_all:
  assumes "bus_ok b"
  shows "find_sub (publish_all b t ps) t' i =
     (if t' = t then map_option (\<lambda>s. foldl put_nowait s ps) (find_sub b t' i) else find_sub b t' i) \<and>
     bus_ok (publish_all b t ps)"
  unfolding publish_all_def using assms
proof (induction ps rule: rev_induct)
  case (snoc p ps)
  then show ?case
    by (cases "find_sub b t i"; cases "t' = t") (simp_all add: find_sub_publish publish_ok)
qed (simp add: option.map_ident)

lemma find_sub_ok:
  "bus_ok b \<Longrightarrow> find_sub b t i = Some s \<Longrightarrow>
   map_of topic_config t = Some (sb_cap s, sb_policy s) \<and> \<not> sb_disconnected s \<and>
   (sb_policy s = Drop_oldest \<longrightarrow> length (sb_queue s) \<le> sb_cap s)"
  by (auto simp: bus_ok_def find_sub_def dest: find_Some_mem)

lemma put_all_lossless:
  "sb_policy s = Disconnect \<Longrightarrow> sb_cap s = 0 \<Longrightarrow> \<not> sb_disconnected s \<Longrightarrow>
   foldl put_nowait s ps = s\<lparr>sb_queue := sb_queue s @ ps\<rparr>"
proof (induction ps arbitrary: s)
  case (Cons p ps)
  have "put_nowait s p = s\<lparr>sb_queue := sb_queue s @ [p]\<rparr>"
    using Cons.prems by (simp add: put_nowait_def queue_full_def)
  with Cons show ?case by simp
qed simp

definition the_sub :: "(subscriber \<times> bus) res \<Rightarrow> subscriber \<times> bus" where
  "the_sub r = (case r of Inr v \<Rightarrow> v | Inl e \<Rightarrow> (\<lparr>sb_id = 0, sb_cap = 0, sb_policy = Disconnect,
     sb_queue = [], sb_disconnected = True\<rparr>, new_bus))"

section \<open>Properties\<close>

text \<open>
  The event and log topics keep the newest payloads: whatever is published to a
  subscriber's topic while it reads nothing, its queue is the last 256 (1024 for the logs) of
  what it held followed by what was published, in order.
\<close>

theorem lossy_topics_keep_newest:
  assumes "bus_ok b" and "find_sub b t i = Some s"
    and "(t, cap) \<in> {(T_hypr_events, 256), (T_logs, 1024)}"
  shows "map_option sb_queue (find_sub (publish_all b t ps) t i) =
     Some (drop (length (sb_queue s) + length ps - cap) (sb_queue s @ ps))"
proof -
  have "lossy cap s"
    using find_sub_ok[OF assms(1,2)] assms(3) by (auto simp: lossy_def topic_config_def)
  then have "sb_queue (foldl put_nowait s ps) =
      drop (length (sb_queue s) + length ps - cap) (sb_queue s @ ps)"
    using events_queue.put_all[of s ps] logs_queue.put_all[of s ps] assms(3) by (auto simp: lossy_def)
  then show ?thesis
    using find_sub_publish_all[OF assms(1)] assms(2) by simp
qed

theorem lossy_topics_keep_newest_witness:
  "\<exists>s. find_sub (snd (the_sub (subscribe new_bus T_logs))) T_logs 0 = Some s \<and>
     map_option sb_queue (find_sub (publish_all (snd (the_sub (subscribe new_bus T_logs))) T_logs
       [[(''a'', JNull)], [(''b'', JNull)]]) T_logs 0) =
     Some (drop (length (sb_queue s) + 2 - 1024) (sb_queue s @ [[(''a'', JNull)], [(''b'', JNull)]]))"
proof -
  obtain s b where sub: "subscribe new_bus T_logs = Inr (s, b)"
    by (simp add: subscribe_def new_subscriber_def topic_config_def new_bus_def)
  have ok: "bus_ok b" by (rule subscribe_ok[OF new_bus_ok sub])
  have "find_sub b T_logs 0 = Some s"
    using sub by (auto simp: subscribe_def new_subscriber_def topic_config_def new_bus_def find_sub_def)
  with lossy_topics_keep_newest[OF ok this, of 1024 "[[(''a'', JNull)], [(''b'', JNull)]]"] sub
  show ?thesis by (simp add: the_sub_def)
qed

text \<open>
  The run topic loses nothing and disconnects nobody: its queue has no bound, so whatever
  is published a subscriber that reads nothing stays subscribed and holds all of it; the
  disconnect policy of the topic never takes effect.
\<close>

theorem runs_topic_is_lossless:
  assumes "bus_ok b" and "find_sub b T_runs i = Some s"
  shows "\<exists>s'. find_sub (publish_all b T_runs ps) T_runs i = Some s' \<and>
     sb_queue s' = sb_queue s @ ps \<and> \<not> sb_disconnected s'"
proof -
  have "sb_policy s = Disconnect" "sb_cap s = 0" "\<not> sb_disconnected s"
    using find_sub_ok[OF assms] by (auto simp: topic_config_def)
  then show ?thesis
    using find_sub_publish_all[OF assms(1)] assms(2) put_all_lossless by simp
qed

theorem runs_topic_is_lossless_witness:
  "\<exists>s s'. find_sub (snd (the_sub (subscribe new_bus T_runs))) T_runs 0 = Some s \<and>
     find_sub (publish_all (snd (the_sub (subscribe new_bus T_runs))) T_runs [[], []]) T_runs 0 = Some s' \<and>
     sb_queue s' = sb_queue s @ [[], []] \<and> \<not> sb_disconnected s'"
proof -
  obtain s b where sub: "subscribe new_bus T_runs = Inr (s, b)"
    by (simp add: subscribe_def new_subscriber_def topic_config_def new_bus_def)
  have ok: "bus_ok b" by (rule subscribe_ok[OF new_bus_ok sub])
  have "find_sub b T_runs 0 = Some s"
    using sub by (auto simp: subscribe_def new_subscriber_def topic_config_def new_bus_def find_sub_def)
  with runs_topic_is_lossless[OF ok this, of "[[], []]"] sub
  show ?thesis by (simp add: the_sub_def)
qed

text \<open>
  Subscribing to the voice topic, which the protocol defines and a client may ask for,
  fails with \<open>KeyError\<close> whatever the state of the bus, while every other topic can be
  subscribed: the voice topic has no queue configuration.
\<close>

theorem voice_cannot_be_subscribed:
  "subscribe b t = Inl e \<longleftrightarrow> t = T_voice \<and> e = KeyError ''voice''"
  by (cases t) (auto simp: subscribe_def new_subscriber_def topic_config_def)

end
