(* ===== verification/Run_Executor.thy ===== *)
theory Run_Executor
  imports Store Pubsub Brain
begin

text \<open>
  \<open>src/src/agent/daemon/run_executor.py\<close>, the audit log and \<open>learning/outcome.py\<close>: the tasks and
  event counters of the executor, the submission of a run, the emission of its events, its
  cancellation and its end.  The orchestrator's result is a value: \<open>Inr ()\<close> when it returned, or
  the exception it raised (\<open>TimeoutError\<close> when \<open>wait_for\<close> gave up, \<open>CancelledError\<close> on a cancel).
\<close>

section \<open>Outcomes\<close>

definition derive_from_status :: "run_status \<Rightarrow> string \<times> real" where
  "derive_from_status st = (case st of
      Completed \<Rightarrow> (''success'', 8 / 10)
    | Errored \<Rightarrow> (''failure'', - 8 / 10)
    | Aborted \<Rightarrow> (''partial'', - 3 / 10)
    | Running \<Rightarrow> (''unknown'', 0))"

definition feedback_to_outcome :: "string \<Rightarrow> string \<times> real" where
  "feedback_to_outcome kind =
     (if kind = ''thumbs_up'' then (''success'', 1)
      else if kind = ''thumbs_down'' then (''failure'', - 1)
      else (''unknown'', 0))"

section \<open>Audit log\<close>

record audit =
  au_enabled :: bool
  au_path :: "string option"
  au_lines :: "params list"

definition audit_open :: "real \<Rightarrow> string \<Rightarrow> audit \<Rightarrow> audit" where
  "audit_open now dir a =
     (if \<not> au_enabled a then a
      else a\<lparr>au_path := Some (dir @ ''/'' @ int_str (trunc now) @ ''.jsonl'')\<rparr>)"

definition audit_write :: "params \<Rightarrow> audit \<Rightarrow> audit" where
  "audit_write entry a =
     (if \<not> au_enabled a \<or> au_path a = None then a else a\<lparr>au_lines := au_lines a @ [entry]\<rparr>)"

section \<open>The executor\<close>

datatype task_state = Live | Cancelling

record executor =
  ex_store :: store
  ex_bus :: bus
  ex_audit :: audit
  ex_tasks :: "(string \<times> task_state) list"
  ex_seq :: "(string \<times> int) list"

text \<open>\<open>{**d, **p}\<close>.\<close>

definition dict_merge :: "params \<Rightarrow> params \<Rightarrow> params" where
  "dict_merge d p = foldl (\<lambda>a (k, v). AList.update k v a) d p"

definition publish_run :: "string \<Rightarrow> string \<Rightarrow> params \<Rightarrow> executor \<Rightarrow> executor" where
  "publish_run i kind payload x =
     x\<lparr>ex_bus := publish (ex_bus x) T_runs
         (dict_merge [(''run_id'', JStr i), (''kind'', JStr kind)] payload)\<rparr>"

definition emit :: "real \<Rightarrow> string \<Rightarrow> string \<Rightarrow> params \<Rightarrow> executor \<Rightarrow> unit res \<times> executor" where
  "emit now i kind payload x =
     (let n = (case map_of (ex_seq x) i of None \<Rightarrow> 0 | Some k \<Rightarrow> k);
          x1 = x\<lparr>ex_seq := AList.update i (n + 1) (ex_seq x)\<rparr>;
          ev = \<lparr>ev_seq = n, ev_ts = now, ev_kind = kind, ev_payload = payload\<rparr>
      in case append_event i ev (ex_store x1) of
           Inl e \<Rightarrow> (Inl e, x1)
         | Inr s \<Rightarrow>
             (Inr (), publish_run i kind payload
                (x1\<lparr>ex_store := s,
                    ex_audit := audit_write (dict_merge [(''run_id'', JStr i), (''seq'', JInt n),
                       (''kind'', JStr kind)] payload) (ex_audit x1)\<rparr>)))"

definition new_run :: "string \<Rightarrow> run_kind \<Rightarrow> string \<Rightarrow> string \<Rightarrow> real \<Rightarrow> run_summary" where
  "new_run i kind task brain now =
     \<lparr>rn_id = i, rn_kind = kind, rn_task = task, rn_brain = brain, rn_status = Running,
      rn_started_at = now, rn_ended_at = None, rn_error = None\<rparr>"

text \<open>\<open>i\<close> is the new uuid, \<open>chosen\<close> what \<open>get_brain(brain)\<close> gave.\<close>

definition submit ::
  "run_kind \<Rightarrow> string \<Rightarrow> string \<Rightarrow> string \<Rightarrow> real \<Rightarrow> brain res \<Rightarrow> executor \<Rightarrow> string res \<times> executor" where
  "submit kind task brain i now chosen x =
     (case insert_run (new_run i kind task brain now) (ex_store x) of
        Inl e \<Rightarrow> (Inl e, x)
      | Inr s \<Rightarrow>
          (let x1 = x\<lparr>ex_store := s, ex_seq := AList.update i 0 (ex_seq x)\<rparr>
           in case chosen of
                Inl e \<Rightarrow> (Inl e, x1)
              | Inr b \<Rightarrow>
                  (Inr i, publish_run i (rk_value kind @ ''_started'')
                     [(''entry_kind'', JStr (rk_value kind)), (''task'', JStr task), (''brain'', JStr brain)]
                     (x1\<lparr>ex_tasks := AList.update i Live (ex_tasks x1)\<rparr>))))"

definition cancel :: "string \<Rightarrow> executor \<Rightarrow> bool \<times> executor" where
  "cancel i x = (case map_of (ex_tasks x) i of
      None \<Rightarrow> (False, x)
    | Some st \<Rightarrow> (True, x\<lparr>ex_tasks := AList.update i Cancelling (ex_tasks x)\<rparr>))"

definition active_run_ids :: "executor \<Rightarrow> string list" where
  "active_run_ids x = map fst (ex_tasks x)"

definition close_all :: "executor \<Rightarrow> executor" where
  "close_all x = x\<lparr>ex_tasks := map (\<lambda>(i, st). (i, Cancelling)) (ex_tasks x)\<rparr>"

definition capitalize :: "string \<Rightarrow> string" where
  "capitalize s = (case s of [] \<Rightarrow> [] | c # cs \<Rightarrow>
     (if 97 \<le> ordc c \<and> ordc c \<le> 122 then char_of (ordc c - 32) else c) # lower cs)"

text \<open>\<open>str(exc)\<close>.\<close>

fun exc_str :: "py_exc \<Rightarrow> string" where
  "exc_str (KeyError k) = repr_str k"
| "exc_str (ValueError m) = m"
| "exc_str (TypeError m) = m"
| "exc_str (AttributeError m) = m"
| "exc_str (IndexError m) = m"
| "exc_str (RuntimeError m) = m"
| "exc_str (StuckError m) = m"
| "exc_str (PermissionError m) = m"
| "exc_str (FileNotFoundError m) = m"
| "exc_str (NotADirectoryError m) = m"
| "exc_str (ConfigError m) = m"
| "exc_str (BrainSelectionError m) = m"
| "exc_str (FrameParseError m) = m"
| "exc_str (FrameTooLargeError n) =
     ''Frame size '' @ nat_str n @ '' bytes exceeds limit '' @ nat_str frame_max_bytes"
| "exc_str (DatabaseError m) = m"
| "exc_str (OtherError m) = m"
| "exc_str TimeoutError = []"
| "exc_str CancelledError = []"

definition timeout_text :: "run_kind \<Rightarrow> string" where
  "timeout_text kind =
     capitalize (rk_value kind) @ '' timed out after '' @ int_str (trunc default_run_timeout) @ ''s''"

text \<open>The clauses of \<open>_run_task\<close>: the status, the stored error, the event and its payload.\<close>

definition settle :: "run_kind \<Rightarrow> unit res \<Rightarrow> run_status \<times> string option \<times> string \<times> params" where
  "settle kind r = (case r of
      Inr _ \<Rightarrow> (Completed, None, ''completed'', [])
    | Inl (StuckError m) \<Rightarrow> (Aborted, None, ''aborted'', [(''reason'', JStr ''stuck'')])
    | Inl TimeoutError \<Rightarrow>
        (Errored, Some (timeout_text kind), ''errored'', [(''error'', JStr (timeout_text kind))])
    | Inl CancelledError \<Rightarrow> (Aborted, None, ''aborted'', [])
    | Inl e \<Rightarrow> (Errored, Some (exc_str e), ''errored'', [(''error'', JStr (exc_str e))]))"

definition finish ::
  "real \<Rightarrow> real \<Rightarrow> string \<Rightarrow> run_kind \<Rightarrow> string \<Rightarrow> unit res \<Rightarrow> executor \<Rightarrow> executor" where
  "finish start now i kind task r x =
     (let (status, err, what, payload) = settle kind r;
          x1 = publish_run i (rk_value kind @ ''_'' @ what) payload
                 (x\<lparr>ex_store := update_run_status now i status None err (ex_store x)\<rparr>);
          (outcome, score) = derive_from_status status;
          s2 = update_run_metrics i None None (Some (now - start)) (ex_store x1);
          s3 = upsert_run_outcome now i outcome score ''derived'' None s2
      in publish_run i ''run_finished''
           [(''task'', JStr task), (''outcome'', JStr outcome), (''status'', JStr (rs_value status))]
           (x1\<lparr>ex_store := s3, ex_seq := filter (\<lambda>e. fst e \<noteq> i) (ex_seq x1),
               ex_tasks := filter (\<lambda>e. fst e \<noteq> i) (ex_tasks x1)\<rparr>))"

section \<open>Invariant\<close>

definition row_status :: "executor \<Rightarrow> string \<Rightarrow> string option" where
  "row_status x i = map_option rr_status (sql_find rr_id i (db_runs (st_db (ex_store x))))"

definition seqs_of :: "executor \<Rightarrow> string \<Rightarrow> int list" where
  "seqs_of x i = map er_seq (filter (\<lambda>e. er_run e = i) (db_events (st_db (ex_store x))))"

definition numbered :: "executor \<Rightarrow> string \<Rightarrow> bool" where
  "numbered x i \<longleftrightarrow> (\<exists>n. map_of (ex_seq x) i = Some (int n) \<and> seqs_of x i = map int [0..<n])"

definition exec_inv :: "executor \<Rightarrow> bool" where
  "exec_inv x \<longleftrightarrow> coherent (ex_store x) \<and> bus_ok (ex_bus x) \<and>
     (\<forall>i. i \<in> set (active_run_ids x) \<longleftrightarrow> row_status x i = Some ''running'') \<and>
     (\<forall>i\<in>set (active_run_ids x). numbered x i) \<and>
     (\<forall>i. row_status x i = None \<longrightarrow> seqs_of x i = [])"

lemma publish_run_simps [simp]:
  "ex_store (publish_run i k p x) = ex_store x" "ex_seq (publish_run i k p x) = ex_seq x"
  "ex_tasks (publish_run i k p x) = ex_tasks x"
  "ex_bus (publish_run i k p x) =
     publish (ex_bus x) T_runs (dict_merge [(''run_id'', JStr i), (''kind'', JStr k)] p)"
  by (simp_all add: publish_run_def)

lemma set_map_fst_update: "fst ` set (AList.update k v al) = insert k (fst ` set al)"
proof -
  have "dom (map_of (AList.update k v al)) = insert k (dom (map_of al))"
    by (simp add: update_conv')
  then show ?thesis by (simp only: dom_map_of_conv_image_fst)
qed

lemma insert_run_parts:
  assumes "insert_run r s = Inr s'"
  shows "\<exists>row. rr_id row = rn_id r \<and> rr_status row = rs_value (rn_status r) \<and>
     rn_id r \<notin> rr_id ` set (db_runs (st_db s)) \<and>
     s' = upd_db (\<lambda>d. d\<lparr>db_runs := db_runs d @ [row]\<rparr>) s"
proof -
  obtain rows row where ins: "sql_insert rr_id row (db_runs (st_db s)) = Inr rows"
    and row: "rr_id row = rn_id r" "rr_status row = rs_value (rn_status r)"
    and s': "s' = upd_db (\<lambda>d. d\<lparr>db_runs := rows\<rparr>) s"
    using assms by (force simp: insert_run_def)
  have "rows = db_runs (st_db s) @ [row]" "rn_id r \<notin> rr_id ` set (db_runs (st_db s))"
    using ins row(1) by (auto simp: sql_insert_def split: if_splits)
  with row s' show ?thesis by (auto simp: upd_db_def intro!: exI[of _ row])
qed

lemma submit_inv:
  assumes "exec_inv x" and "submit kind task brain i now (Inr b) x = (Inr i, x')"
  shows "exec_inv x'"
proof -
  obtain s where ins: "insert_run (new_run i kind task brain now) (ex_store x) = Inr s"
    using assms(2) by (auto simp: submit_def split: sum.splits)
  obtain row where row: "rr_id row = i" "rr_status row = ''running''"
      "i \<notin> rr_id ` set (db_runs (st_db (ex_store x)))"
    and s: "s = upd_db (\<lambda>d. d\<lparr>db_runs := db_runs d @ [row]\<rparr>) (ex_store x)"
    using insert_run_parts[OF ins] by (auto simp: new_run_def)
  have x': "ex_store x' = s" "ex_seq x' = AList.update i 0 (ex_seq x)"
      "ex_tasks x' = AList.update i Live (ex_tasks x)" "bus_ok (ex_bus x')"
    using assms ins by (auto simp: submit_def Let_def exec_inv_def intro!: publish_ok)
  have none: "row_status x i = None"
    using row(3) by (simp add: row_status_def sql_find_None)
  have rs: "row_status x' j = (if j = i then Some ''running'' else row_status x j)" for j
  proof -
    have "List.find (\<lambda>r. rr_id r = j) (rows @ [row]) =
        (if j = i then Some row else List.find (\<lambda>r. rr_id r = j) rows)"
      if "i \<notin> rr_id ` set rows" for rows
      using that row(1) by (induction rows) auto
    then show ?thesis using row by (simp add: row_status_def x' s upd_db_def sql_find_def)
  qed
  have sq: "seqs_of x' j = seqs_of x j" for j by (simp add: seqs_of_def x' s upd_db_def)
  have "coherent s" by (rule insert_run_coherent[OF _ ins]) (use assms(1) in \<open>simp add: exec_inv_def\<close>)
  moreover have "i \<notin> set (active_run_ids x)" using assms(1) none by (simp add: exec_inv_def)
  moreover have "seqs_of x i = []" using assms(1) none by (simp add: exec_inv_def)
  ultimately show ?thesis
    using assms(1) unfolding exec_inv_def
    by (auto simp: x' rs sq numbered_def active_run_ids_def set_map_fst_update update_conv')
qed

lemma emit_ok:
  assumes "numbered x i" and "coherent (ex_store x)" and "bus_ok (ex_bus x)"
  shows "\<exists>x'. emit now i kind payload x = (Inr (), x') \<and> numbered x' i \<and> coherent (ex_store x') \<and>
     bus_ok (ex_bus x') \<and> ex_tasks x' = ex_tasks x \<and> (\<forall>j. row_status x' j = row_status x j) \<and>
     (\<forall>j. j \<noteq> i \<longrightarrow> seqs_of x' j = seqs_of x j \<and> map_of (ex_seq x') j = map_of (ex_seq x) j)"
proof -
  obtain n where n: "map_of (ex_seq x) i = Some (int n)" "seqs_of x i = map int [0..<n]"
    using assms(1) by (auto simp: numbered_def)
  let ?ev = "\<lparr>ev_seq = int n, ev_ts = now, ev_kind = kind, ev_payload = payload\<rparr>"
  have "(i, int n) \<notin> event_key ` set (db_events (st_db (ex_store x)))"
  proof
    assume "(i, int n) \<in> event_key ` set (db_events (st_db (ex_store x)))"
    then have "int n \<in> set (seqs_of x i)"
      by (force simp: seqs_of_def event_key_def)
    then show False by (auto simp: n(2))
  qed
  then obtain s where s: "append_event i ?ev (ex_store x) = Inr s"
    by (auto simp: append_event_def sql_insert_def event_key_def)
  note parts = conjunct2[OF append_event_parts[OF s]]
  have ok: "coherent s" by (rule append_event_coherent[OF assms(2) s])
  obtain x' where x': "emit now i kind payload x = (Inr (), x')"
    and f: "ex_store x' = s" "ex_tasks x' = ex_tasks x" "ex_seq x' = AList.update i (int n + 1) (ex_seq x)"
      "bus_ok (ex_bus x')"
    using s n(1) assms(3) by (simp add: emit_def Let_def publish_ok)
  have "seqs_of x' j = (if j = i then seqs_of x i @ [int n] else seqs_of x j)" for j
    by (simp add: seqs_of_def f parts lru_pop_def upd_db_def)
  moreover have "row_status x' j = row_status x j" for j
    by (simp add: row_status_def f parts lru_pop_def upd_db_def)
  moreover have "map_of (ex_seq x') j = (if j = i then Some (int (Suc n)) else map_of (ex_seq x) j)" for j
    by (simp add: f update_conv')
  ultimately show ?thesis
    using x' f ok n by (auto simp: numbered_def intro!: exI[of _ "Suc n"])
qed

lemma emit_inv:
  assumes "exec_inv x" and "i \<in> set (active_run_ids x)" and "emit now i kind payload x = (r, x')"
  shows "r = Inr () \<and> exec_inv x'"
proof -
  have "numbered x i" "coherent (ex_store x)" "bus_ok (ex_bus x)"
    using assms(1,2) by (simp_all add: exec_inv_def)
  from emit_ok[OF this, of now kind payload] assms(3)
  have e: "r = Inr ()" "numbered x' i" "coherent (ex_store x')" "bus_ok (ex_bus x')"
    "ex_tasks x' = ex_tasks x" "\<forall>j. row_status x' j = row_status x j"
    "\<forall>j. j \<noteq> i \<longrightarrow> seqs_of x' j = seqs_of x j \<and> map_of (ex_seq x') j = map_of (ex_seq x) j"
    by auto
  have act: "active_run_ids x' = active_run_ids x" using e(5) by (simp add: active_run_ids_def)
  have "numbered x' j" if "j \<in> set (active_run_ids x)" for j
    using that assms(1) e(2,7) by (cases "j = i") (auto simp: exec_inv_def numbered_def)
  moreover have "seqs_of x' j = []" if "row_status x j = None" for j
  proof -
    have "j \<noteq> i" using assms(1,2) that by (auto simp: exec_inv_def)
    then show ?thesis using assms(1) e(7) that by (simp add: exec_inv_def)
  qed
  ultimately show ?thesis using assms(1) e by (simp add: exec_inv_def act)
qed

lemma cancel_inv: "exec_inv x \<Longrightarrow> exec_inv (snd (cancel i x))"
proof -
  assume inv: "exec_inv x"
  have "set (active_run_ids (snd (cancel i x))) = set (active_run_ids x)"
    by (auto simp: cancel_def active_run_ids_def set_map_fst_update dest: map_of_SomeD split: option.splits)
      (metis fst_conv imageI map_of_SomeD)
  moreover have "ex_store (snd (cancel i x)) = ex_store x" "ex_bus (snd (cancel i x)) = ex_bus x"
    "ex_seq (snd (cancel i x)) = ex_seq x"
    by (simp_all add: cancel_def split: option.splits)
  ultimately show ?thesis
    using inv by (simp add: exec_inv_def numbered_def row_status_def seqs_of_def)
qed

lemma settle_status: "fst (settle kind r) \<noteq> Running"
proof (cases r)
  case (Inl e)
  then show ?thesis by (cases e) (simp_all add: settle_def)
qed (simp add: settle_def)

lemma rs_value_running: "rs_value st = ''running'' \<longleftrightarrow> st = Running"
  by (cases st) simp_all

text \<open>What a finished run leaves in the store.\<close>

lemma finish_parts:
  assumes "settle kind r = (status, err, what, payload)"
  shows "ex_store (finish start now i kind task r x) =
      upsert_run_outcome now i (fst (derive_from_status status)) (snd (derive_from_status status)) ''derived'' None
        (update_run_metrics i None None (Some (now - start))
          (update_run_status now i status None err (ex_store x)))"
    and "ex_tasks (finish start now i kind task r x) = filter (\<lambda>e. fst e \<noteq> i) (ex_tasks x)"
    and "ex_seq (finish start now i kind task r x) = filter (\<lambda>e. fst e \<noteq> i) (ex_seq x)"
    and "bus_ok (ex_bus x) \<Longrightarrow> bus_ok (ex_bus (finish start now i kind task r x))"
  using assms
  by (simp_all add: finish_def Let_def publish_ok split: prod.splits)

lemma row_after_finish:
  assumes "settle kind r = (status, err, what, payload)"
  shows "sql_find rr_id j (db_runs (st_db (ex_store (finish start now i kind task r x)))) =
    (if j = i then map_option (\<lambda>row. row\<lparr>rr_status := rs_value status, rr_ended := Some now,
        rr_error := err, rr_duration := Some (now - start)\<rparr>) (sql_find rr_id i (db_runs (st_db (ex_store x))))
     else sql_find rr_id j (db_runs (st_db (ex_store x))))"
  by (simp add: finish_parts(1)[OF assms] upsert_run_outcome_def update_run_metrics_def
      update_run_status_def upd_db_def lru_pop_def Let_def sql_find_update option.map_comp comp_def)

lemma map_of_filter_key: "map_of (filter (\<lambda>e. fst e \<noteq> i) al) j = (if j = i then None else map_of al j)"
  by (induction al) auto

lemma finish_inv:
  assumes "exec_inv x" and "i \<in> set (active_run_ids x)"
  shows "exec_inv (finish start now i kind task r x)"
proof -
  obtain status err what payload where st: "settle kind r = (status, err, what, payload)"
    by (cases "settle kind r")
  let ?x = "finish start now i kind task r x"
  have nr: "rs_value status \<noteq> ''running''"
    using settle_status[of kind r] by (simp add: st rs_value_running)
  have act: "set (active_run_ids ?x) = set (active_run_ids x) - {i}"
    by (auto simp: active_run_ids_def finish_parts(2)[OF st])
  have rs: "row_status ?x j = (if j = i then map_option (\<lambda>_. rs_value status) (row_status x i) else row_status x j)" for j
    by (simp add: row_status_def row_after_finish[OF st] option.map_comp comp_def)
  have sq: "seqs_of ?x j = seqs_of x j" for j
    by (simp add: seqs_of_def finish_parts(1)[OF st] upsert_run_outcome_def update_run_metrics_def
        update_run_status_def upd_db_def lru_pop_def Let_def)
  have "coherent (ex_store ?x)"
    unfolding finish_parts(1)[OF st] using assms(1)
    by (intro outcome_write.keeps_coherent metrics_write.keeps_coherent status_write.keeps_coherent)
       (simp add: exec_inv_def)
  moreover have "numbered ?x j" if "j \<noteq> i" "numbered x j" for j
    using that by (simp add: numbered_def sq finish_parts(3)[OF st] map_of_filter_key)
  ultimately show ?thesis
    using assms nr finish_parts(4)[OF st] unfolding exec_inv_def by (auto simp: act rs sq)
qed

section \<open>Steps\<close>

text \<open>What happens to an executor: each rule is one completed operation.\<close>

inductive exec_step :: "executor \<Rightarrow> executor \<Rightarrow> bool" where
  submitted: "submit kind task brain i now (Inr b) x = (Inr i, x') \<Longrightarrow> exec_step x x'"
| emitted: "i \<in> set (active_run_ids x) \<Longrightarrow> emit now i kind payload x = (r, x') \<Longrightarrow> exec_step x x'"
| cancelled: "exec_step x (snd (cancel i x))"
| finished: "i \<in> set (active_run_ids x) \<Longrightarrow> exec_step x (finish start now i kind task r x)"

inductive exec_reach :: "executor \<Rightarrow> executor \<Rightarrow> bool" for x0 where
  start: "exec_reach x0 x0"
| step: "exec_reach x0 x \<Longrightarrow> exec_step x x' \<Longrightarrow> exec_reach x0 x'"

inductive_cases exec_step_cases: "exec_step x x'"

lemma exec_step_inv: "exec_step x x' \<Longrightarrow> exec_inv x \<Longrightarrow> exec_inv x'"
  by (erule exec_step_cases) (auto intro: submit_inv cancel_inv finish_inv dest: emit_inv)

lemma exec_reach_inv: "exec_reach x0 x \<Longrightarrow> exec_inv x0 \<Longrightarrow> exec_inv x"
  by (induction rule: exec_reach.induct) (auto intro: exec_step_inv)

definition new_executor :: executor where
  "new_executor =
     \<lparr>ex_store = empty_store, ex_bus = new_bus,
      ex_audit = \<lparr>au_enabled = False, au_path = None, au_lines = []\<rparr>, ex_tasks = [], ex_seq = []\<rparr>"

lemma new_executor_inv: "exec_inv new_executor"
proof -
  have "ex_store new_executor = empty_store" "ex_bus new_executor = new_bus" "ex_tasks new_executor = []"
    by (simp_all add: new_executor_def)
  moreover have "db_runs (st_db empty_store) = []" "db_events (st_db empty_store) = []"
    by (simp_all add: empty_store_def empty_db_def)
  ultimately show ?thesis
    by (simp add: exec_inv_def empty_coherent new_bus_ok active_run_ids_def row_status_def seqs_of_def sql_find_def)
qed

lemma sorted_numbered:
  assumes "map er_seq es = map int [0..<n]"
  shows "sort_key er_seq es = es"
proof -
  have "sorted (map int [0..<n])" by (induction n) (auto simp: sorted_append)
  then have "sorted (map er_seq es)" by (simp only: assms)
  then show ?thesis by (rule sort_key_id_if_sorted)
qed

lemma map_of_dict_merge:
  "distinct (map fst p) \<Longrightarrow>
   map_of (dict_merge d p) key = (case map_of p key of None \<Rightarrow> map_of d key | Some v \<Rightarrow> Some v)"
proof (induction p arbitrary: d)
  case Nil
  then show ?case by (simp add: dict_merge_def)
next
  case (Cons kv p)
  obtain k v where kv: "kv = (k, v)" by (cases kv)
  have "dict_merge d (kv # p) = dict_merge (AList.update k v d) p"
    by (simp add: dict_merge_def kv)
  with Cons have e: "map_of (dict_merge d (kv # p)) key =
      (case map_of p key of None \<Rightarrow> map_of (AList.update k v d) key | Some w \<Rightarrow> Some w)"
    by simp
  show ?case
  proof (cases "key = k")
    case True
    then have "map_of p key = None" using Cons.prems by (simp add: kv map_of_eq_None_iff)
    then show ?thesis unfolding e by (simp add: kv True update_conv')
  next
    case False
    then show ?thesis unfolding e by (simp add: kv update_conv' split: option.split)
  qed
qed

lemma sample_submit:
  "\<exists>row. sql_find rr_id ''r1'' (db_runs (st_db (ex_store
      (snd (submit RK_run ''t'' ''auto'' ''r1'' 1 (Inr (Claude_brain ''m'')) new_executor))))) = Some row \<and>
    rr_status row = ''running''"
  by (simp add: submit_def insert_run_def sql_insert_def new_executor_def empty_store_def empty_db_def
      Let_def upd_db_def sql_find_def new_run_def)

section \<open>Properties\<close>

text \<open>
  A run is shown as running exactly while the executor has a task for it: in every state
  reachable from an empty store by successful submissions, emissions, cancellations and ends of
  runs, the rows with status \<open>running\<close> are those of the active runs, and the run cache is
  coherent.
\<close>

theorem running_iff_active:
  assumes "exec_reach new_executor x"
  shows "(row_status x i = Some ''running'' \<longleftrightarrow> i \<in> set (active_run_ids x)) \<and> coherent (ex_store x)"
  using exec_reach_inv[OF assms new_executor_inv] by (simp add: exec_inv_def)

theorem running_iff_active_witness:
  "\<exists>x. submit RK_run ''t'' ''auto'' ''r1'' 1 (Inr (Claude_brain ''m'')) new_executor = (Inr ''r1'', x) \<and>
     row_status x ''r1'' = Some ''running'' \<and> ''r1'' \<in> set (active_run_ids x)"
proof -
  obtain x where x: "submit RK_run ''t'' ''auto'' ''r1'' 1 (Inr (Claude_brain ''m'')) new_executor = (Inr ''r1'', x)"
    and a: "''r1'' \<in> set (active_run_ids x)"
    by (simp add: submit_def insert_run_def sql_insert_def new_executor_def empty_store_def empty_db_def
        Let_def active_run_ids_def)
  have "exec_reach new_executor x" by (blast intro: exec_reach.intros exec_step.submitted x)
  from running_iff_active[OF this, of "''r1''"] x a show ?thesis by blast
qed

text \<open>
  C8: The events of a run are numbered without gaps or clashes, however the runs interleave:
  in every reachable state the next event of an active run is stored under the number of events
  it already has, the emission does not fail, and reading the run back gives the events in the
  order of their emission.
\<close>

theorem events_are_consecutive:
  assumes "exec_reach new_executor x" and "i \<in> set (active_run_ids x)"
  shows "fst (emit now i kind payload x) = Inr () \<and>
     seqs_of x i = map int [0..<length (seqs_of x i)] \<and>
     seqs_of (snd (emit now i kind payload x)) i = seqs_of x i @ [int (length (seqs_of x i))] \<and>
     map_option (map_option (\<lambda>r. map ev_seq (rn_events r)))
       (case read_run (st_db (ex_store x)) i of Inr v \<Rightarrow> Some v | Inl e \<Rightarrow> None) =
       map_option (map_option (\<lambda>r. seqs_of x i))
       (case read_run (st_db (ex_store x)) i of Inr v \<Rightarrow> Some v | Inl e \<Rightarrow> None)"
proof -
  note inv = exec_reach_inv[OF assms(1) new_executor_inv]
  then have n: "numbered x i" "coherent (ex_store x)" "bus_ok (ex_bus x)"
    using assms(2) by (simp_all add: exec_inv_def)
  obtain x' where x': "emit now i kind payload x = (Inr (), x')" "numbered x' i"
      "map_of (ex_seq x') i = map_option (\<lambda>k. k + 1) (map_of (ex_seq x) i)"
  proof -
    obtain x' where e: "emit now i kind payload x = (Inr (), x')" "numbered x' i"
      using emit_ok[OF n, of now kind payload] by blast
    then have "ex_seq x' = AList.update i ((case map_of (ex_seq x) i of None \<Rightarrow> 0 | Some k \<Rightarrow> k) + 1) (ex_seq x)"
      by (auto simp: emit_def Let_def split: sum.splits)
    with e n(1) that show thesis by (auto simp: numbered_def update_conv')
  qed
  obtain m where m: "map_of (ex_seq x) i = Some (int m)" "seqs_of x i = map int [0..<m]"
    using n(1) by (auto simp: numbered_def)
  obtain k where k: "map_of (ex_seq x') i = Some (int k)" "seqs_of x' i = map int [0..<k]"
    using x'(2) by (auto simp: numbered_def)
  then have "k = Suc m" using x'(3) m(1) by simp
  then have "seqs_of x' i = map int [0..<Suc m]" using k(2) by simp
  moreover have "sort_key er_seq (filter (\<lambda>e. er_run e = i) (db_events (st_db (ex_store x)))) =
      filter (\<lambda>e. er_run e = i) (db_events (st_db (ex_store x)))"
    by (rule sorted_numbered) (use m(2) in \<open>simp add: seqs_of_def\<close>)
  then have "map ev_seq (rn_events r) = seqs_of x i" if "read_run (st_db (ex_store x)) i = Inr (Some r)" for r
    using that by (auto simp: read_run_def run_with_events_def row_to_event_def seqs_of_def split: option.splits)
  then have "map_option (map_option (\<lambda>r. map ev_seq (rn_events r)))
       (case read_run (st_db (ex_store x)) i of Inr v \<Rightarrow> Some v | Inl e \<Rightarrow> None) =
       map_option (map_option (\<lambda>r. seqs_of x i))
       (case read_run (st_db (ex_store x)) i of Inr v \<Rightarrow> Some v | Inl e \<Rightarrow> None)"
    by (auto split: sum.split option.split simp: option.map_comp comp_def intro!: option.map_cong)
  ultimately show ?thesis using x'(1) m(2) by simp
qed

theorem events_are_consecutive_witness:
  "\<exists>x. submit RK_run ''t'' ''auto'' ''r1'' 1 (Inr (Claude_brain ''m'')) new_executor = (Inr ''r1'', x) \<and>
     fst (emit 2 ''r1'' ''start'' [] x) = Inr () \<and> seqs_of (snd (emit 2 ''r1'' ''start'' [] x)) ''r1'' = [0]"
proof -
  obtain x where x: "submit RK_run ''t'' ''auto'' ''r1'' 1 (Inr (Claude_brain ''m'')) new_executor = (Inr ''r1'', x)"
    and a: "''r1'' \<in> set (active_run_ids x)" and s: "seqs_of x ''r1'' = []"
    by (simp add: submit_def insert_run_def sql_insert_def new_executor_def empty_store_def empty_db_def
        Let_def active_run_ids_def seqs_of_def upd_db_def)
  have "exec_reach new_executor x" by (blast intro: exec_reach.intros exec_step.submitted x)
  from events_are_consecutive[OF this a, of 2 "''start''" "[]"] x s show ?thesis by simp
qed



text \<open>
  A submission whose brain cannot be built leaves a run that never ends: the row is inserted
  before the brain is chosen, so the caller gets the error while the run stays \<open>running\<close> with no
  task behind it, and its event counter stays too.
\<close>

theorem failed_submission_leaves_running_run:
  assumes "insert_run (new_run i kind task brain now) (ex_store x) = Inr s" and "exec_inv x"
  shows "fst (submit kind task brain i now (Inl e) x) = Inl e \<and>
     row_status (snd (submit kind task brain i now (Inl e) x)) i = Some ''running'' \<and>
     i \<notin> set (active_run_ids (snd (submit kind task brain i now (Inl e) x))) \<and>
     map_of (ex_seq (snd (submit kind task brain i now (Inl e) x))) i = Some 0"
proof -
  obtain row where row: "rr_id row = i" "rr_status row = ''running''"
      "i \<notin> rr_id ` set (db_runs (st_db (ex_store x)))"
    and s: "s = upd_db (\<lambda>d. d\<lparr>db_runs := db_runs d @ [row]\<rparr>) (ex_store x)"
    using insert_run_parts[OF assms(1)] by (auto simp: new_run_def)
  have "row_status x i = None" using row(3) by (simp add: row_status_def sql_find_None)
  then have "i \<notin> set (active_run_ids x)" using assms(2) by (simp add: exec_inv_def)
  moreover have "List.find (\<lambda>r. rr_id r = i) (rows @ [row]) = Some row"
    if "i \<notin> rr_id ` set rows" for rows
    using that row(1) by (induction rows) auto
  ultimately show ?thesis using row s assms(1)
    by (simp add: submit_def Let_def row_status_def upd_db_def sql_find_def active_run_ids_def update_conv')
qed

theorem failed_submission_leaves_running_run_witness:
  "fst (submit RK_run ''t'' ''nope'' ''r1'' 1 (Inl (BrainSelectionError ''unknown'')) new_executor) =
     Inl (BrainSelectionError ''unknown'') \<and>
   row_status (snd (submit RK_run ''t'' ''nope'' ''r1'' 1 (Inl (BrainSelectionError ''unknown'')) new_executor)) ''r1'' =
     Some ''running''"
proof -
  obtain s where "insert_run (new_run ''r1'' RK_run ''t'' ''nope'' 1) (ex_store new_executor) = Inr s"
    by (simp add: insert_run_def sql_insert_def new_executor_def empty_store_def empty_db_def)
  from failed_submission_leaves_running_run[OF this new_executor_inv, of "BrainSelectionError ''unknown''"]
  show ?thesis by simp
qed

text \<open>
  A published event whose payload has a \<open>kind\<close> of its own loses its kind: subscribers of
  the run topic get the payload's \<open>kind\<close>, so that an \<open>action\<close> event arrives as the kind of the
  action, whatever the event was called.
\<close>

theorem payload_kind_hides_event_kind:
  assumes "dget payload ''kind'' = Some k" and "distinct (map fst payload)"
  shows "dget (dict_merge [(''run_id'', JStr i), (''kind'', JStr evk)] payload) ''kind'' = Some k"
proof -
  show ?thesis using assms by (simp add: map_of_dict_merge)
qed

theorem payload_kind_hides_event_kind_witness:
  "dget (dict_merge [(''run_id'', JStr ''r1''), (''kind'', JStr ''action'')]
     [(''kind'', JStr ''click''), (''params'', JObj [])]) ''kind'' = Some (JStr ''click'')"
  by (rule payload_kind_hides_event_kind) simp_all

end
