(* ===== verification/Shlex.thy ===== *)
theory Shlex
  imports Prelude
begin

text \<open>
  Python's \<open>shlex.split(s)\<close> (POSIX mode, split on whitespace, no comments), which the watch
  rules use to turn a command line into an argument vector.  The scanner keeps the token read
  so far and whether a part of it was quoted, so that an empty quoted token is a token.
\<close>

definition chr_bs :: char where "chr_bs = CHR 0x5C"
definition chr_sq :: char where "chr_sq = CHR 0x27"
definition chr_dq :: char where "chr_dq = CHR 0x22"

lemmas shlex_chars = chr_bs_def chr_sq_def chr_dq_def

definition shlex_space :: "char \<Rightarrow> bool" where
  "shlex_space c = (c = CHR 0x20 \<or> c = CHR 0x09 \<or> c = CHR 0x0D \<or> c = CHR 0x0A)"

text \<open>The scanner's states; an escape remembers whether it stands inside double quotes.\<close>

datatype shlex_state = SX_word | SX_quote char | SX_escape bool

text \<open>The end of a token: it is one when it has characters or a quoted part.\<close>

definition emit_token :: "string \<Rightarrow> bool \<Rightarrow> string list \<Rightarrow> string list" where
  "emit_token tok quoted ts = (if tok = [] \<and> \<not> quoted then ts else tok # ts)"

text \<open>Between tokens the state is \<open>SX_word\<close> with an empty, unquoted token.\<close>

fun shlex_scan :: "shlex_state \<Rightarrow> string \<Rightarrow> bool \<Rightarrow> string \<Rightarrow> string list res" where
  "shlex_scan SX_word tok q [] = Inr (emit_token tok q [])"
| "shlex_scan SX_word tok q (c # cs) =
     (if shlex_space c then rbind (shlex_scan SX_word [] False cs) (\<lambda>ts. Inr (emit_token tok q ts))
      else if c = chr_bs then shlex_scan (SX_escape False) tok q cs
      else if c = chr_sq \<or> c = chr_dq then shlex_scan (SX_quote c) tok q cs
      else shlex_scan SX_word (tok @ [c]) q cs)"
| "shlex_scan (SX_quote d) tok q [] = Inl (ValueError ''No closing quotation'')"
| "shlex_scan (SX_quote d) tok q (c # cs) =
     (if c = d then shlex_scan SX_word tok True cs
      else if c = chr_bs \<and> d = chr_dq then shlex_scan (SX_escape True) tok True cs
      else shlex_scan (SX_quote d) (tok @ [c]) True cs)"
| "shlex_scan (SX_escape inq) tok q [] = Inl (ValueError ''No escaped character'')"
| "shlex_scan (SX_escape inq) tok q (c # cs) =
     (if inq then shlex_scan (SX_quote chr_dq)
                    (if c \<noteq> chr_bs \<and> c \<noteq> chr_dq then tok @ [chr_bs, c] else tok @ [c]) q cs
      else shlex_scan SX_word (tok @ [c]) q cs)"

definition shlex_split :: "string \<Rightarrow> string list res" where
  "shlex_split s = shlex_scan SX_word [] False s"

section \<open>Lines without quotes\<close>

definition bare_char :: "char \<Rightarrow> bool" where
  "bare_char c = (\<not> shlex_space c \<and> c \<noteq> chr_bs \<and> c \<noteq> chr_sq \<and> c \<noteq> chr_dq)"

lemma shlex_scan_bare:
  "list_all bare_char w \<Longrightarrow> shlex_scan SX_word tok q (w @ s) = shlex_scan SX_word (tok @ w) q s"
  by (induction w arbitrary: tok) (auto simp: bare_char_def)

lemma shlex_space_blank [simp]: "shlex_space CHR '' ''"
  by (simp add: shlex_space_def)

text \<open>Splitting words joined by blanks gives the words back.\<close>

lemma shlex_split_join:
  "\<forall>w\<in>set ws. w \<noteq> [] \<and> list_all bare_char w \<Longrightarrow> shlex_split (join '' '' ws) = Inr ws"
proof (induction "'' '' :: string" ws rule: join.induct)
  case 1
  then show ?case by (simp add: shlex_split_def emit_token_def)
next
  case (2 x)
  then show ?case
    using shlex_scan_bare[of x "[]" False "[]"] by (simp add: shlex_split_def emit_token_def)
next
  case (3 x y ys)
  then have "shlex_split (join '' '' (y # ys)) = Inr (y # ys)" by simp
  with 3 show ?case
    by (simp add: shlex_split_def shlex_scan_bare emit_token_def)
qed

text \<open>A line that does not begin with whitespace has a first token, or is malformed.\<close>

lemma shlex_scan_nonempty:
  "(case st of SX_word \<Rightarrow> tok \<noteq> [] \<or> q | _ \<Rightarrow> True) \<Longrightarrow> shlex_scan st tok q s = Inr ts \<Longrightarrow> ts \<noteq> []"
  by (induction st tok q s arbitrary: ts rule: shlex_scan.induct)
     (auto simp: emit_token_def split: if_splits)

lemma shlex_split_nonempty:
  assumes "shlex_split s = Inr ts" and "s \<noteq> []" and "\<not> shlex_space (hd s)"
  shows "ts \<noteq> []"
proof (cases s)
  case (Cons c cs)
  with assms have "shlex_scan (if c = chr_bs then SX_escape False
        else if c = chr_sq \<or> c = chr_dq then SX_quote c else SX_word)
      (if c = chr_bs \<or> c = chr_sq \<or> c = chr_dq then [] else [c]) False cs = Inr ts"
    by (auto simp: shlex_split_def split: if_splits)
  then show ?thesis by (rule shlex_scan_nonempty[rotated]) auto
qed (use assms in simp)

text \<open>A single-quoted part is taken literally.\<close>

lemma shlex_scan_quoted:
  "chr_sq \<notin> set w \<Longrightarrow>
   shlex_scan (SX_quote chr_sq) tok q (w @ chr_sq # s) = shlex_scan SX_word (tok @ w) True s"
  by (induction w arbitrary: tok q) (auto simp: shlex_chars)

end
