(* ===== verification/Rules.thy ===== *)
theory Rules
  imports Tools Shlex
begin

text \<open>
  The watch rules: \<open>src/src/agent/daemon/rule_runner.py\<close> (matching of an event, execution of a
  rule's actions) and \<open>watcher_service.py\<close> (loading of the rule files, the watcher loop).
  A rule file is the value \<open>yaml.safe_load\<close> returns, or the exception it raises; a mapping key
  that is not a string is no key of the model's mappings.  What an external call does to a rule
  action (an exception, the timeout, a cancellation) is an answer of the environment.
\<close>

section \<open>Matching an event\<close>

definition event_fields :: "event \<Rightarrow> string \<times> string" where
  "event_fields e =
     (let parts = split_on CHR '','' (event_data e); kind = ek_value (event_kind e)
      in if kind = ''openwindow'' \<and> 4 \<le> length parts
           then (parts ! 2, join '','' (drop 3 parts))
         else if kind = ''activewindow'' \<and> 2 \<le> length parts
           then (parts ! 0, join '','' (drop 1 parts))
         else if kind = ''closewindow'' then (if parts = [] then [] else parts ! 0, [])
         else ([], []))"

text \<open>An empty or missing pattern constrains nothing.\<close>

definition pattern_rejects :: "string option \<Rightarrow> string \<Rightarrow> bool" where
  "pattern_rejects pat s = (case pat of
      None \<Rightarrow> False
    | Some p \<Rightarrow> p \<noteq> [] \<and> \<not> fnmatch (lower s) (lower p))"

definition match_event :: "rule \<Rightarrow> event \<Rightarrow> bool" where
  "match_event r e =
     (if rule_on r \<noteq> event_kind e then False
      else let (ev_class, ev_title) = event_fields e
           in if pattern_rejects (em_class (rule_match r)) ev_class then False
              else \<not> pattern_rejects (em_title (rule_match r)) ev_title)"

section \<open>Executing a rule\<close>

definition run_deny :: "string list" where
  "run_deny = [''rm'', ''rmdir'', ''dd'', ''mkfs'', ''shutdown'', ''reboot'', ''poweroff'', ''halt'',
     ''init'', ''kill'', ''killall'', ''pkill'', ''sudo'', ''su'', ''doas'']"

datatype rule_fx =
    RF_log string
  | RF_dispatch string
  | RF_notify string
  | RF_spawn "string list" "string dict"

text \<open>
  \<open>_exec_action\<close>: what it does, and how it ends.  The log entries that only report on the
  action are left out.
\<close>

definition exec_action ::
  "(rule_fx \<Rightarrow> unit res) \<Rightarrow> string dict \<Rightarrow> rule_action \<Rightarrow> rule_fx list \<times> unit res" where
  "exec_action answer environ a = (case ra_kind a of
      RA_log \<Rightarrow> ([RF_log (ra_value a)], Inr ())
    | RA_dispatch \<Rightarrow> ([RF_dispatch (ra_value a)], answer (RF_dispatch (ra_value a)))
    | RA_notify \<Rightarrow> ([RF_notify (ra_value a)], answer (RF_notify (ra_value a)))
    | RA_run \<Rightarrow>
        (let raw = strip (ra_value a)
         in if raw = [] then ([], Inr ())
            else case shlex_split raw of
              Inl e \<Rightarrow> ([], Inr ())
            | Inr argv \<Rightarrow>
                let first = (case argv of [] \<Rightarrow> [] | w # _ \<Rightarrow> w)
                in if first \<in> set run_deny then ([], Inr ())
                   else let fx = RF_spawn argv (safe_env environ) in ([fx], answer fx)))"

text \<open>
  \<open>execute_rule\<close>: each action under its own timeout; an exception, \<open>TimeoutError\<close> included, is
  logged and the next action follows, a cancellation ends the task.
\<close>

fun execute_actions ::
  "(rule_fx \<Rightarrow> unit res) \<Rightarrow> string dict \<Rightarrow> rule_action list \<Rightarrow> rule_fx list \<times> unit res" where
  "execute_actions answer environ [] = ([], Inr ())"
| "execute_actions answer environ (a # as) =
     (let (fx, r) = exec_action answer environ a
      in case r of
           Inl e \<Rightarrow>
             if is_Exception e
             then let (fx', r') = execute_actions answer environ as in (fx @ fx', r')
             else (fx, Inl e)
         | Inr _ \<Rightarrow> let (fx', r') = execute_actions answer environ as in (fx @ fx', r'))"

definition execute_rule ::
  "(rule_fx \<Rightarrow> unit res) \<Rightarrow> string dict \<Rightarrow> rule \<Rightarrow> rule_fx list \<times> unit res" where
  "execute_rule answer environ r = execute_actions answer environ (rule_actions r)"

section \<open>Loading the rules\<close>

text \<open>\<open>repr\<close> of the values of a rule file; the text of a float is a parameter.\<close>

fun repr_json :: "(real \<Rightarrow> string) \<Rightarrow> json \<Rightarrow> string" where
  "repr_json flt JNull = ''None''"
| "repr_json flt (JBool b) = (if b then ''True'' else ''False'')"
| "repr_json flt (JInt i) = int_str i"
| "repr_json flt (JFloat r) = flt r"
| "repr_json flt (JStr s) = repr_str s"
| "repr_json flt (JList xs) = ''['' @ join '', '' (map (repr_json flt) xs) @ '']''"
| "repr_json flt (JObj d) =
     ''{'' @ join '', '' (map (\<lambda>(k, v). repr_str k @ '': '' @ repr_json flt v) d) @ ''}''"

definition str_json :: "(real \<Rightarrow> string) \<Rightarrow> json \<Rightarrow> string" where
  "str_json flt v = (case v of JStr s \<Rightarrow> s | _ \<Rightarrow> repr_json flt v)"

text \<open>The key a rule is deduplicated by: \<open>str((raw.get("on"), str(raw.get("match", {}))))\<close>.\<close>

definition rule_key :: "(real \<Rightarrow> string) \<Rightarrow> params \<Rightarrow> string" where
  "rule_key flt raw =
     ''('' @ repr_json flt (dget_or raw ''on'' JNull) @ '', '' @
     repr_str (str_json flt (dget_or raw ''match'' (JObj []))) @ '')''"

text \<open>\<open>list(data.get("rules") or [])\<close>.\<close>

definition raw_rules_of :: "json \<Rightarrow> json list res" where
  "raw_rules_of v = (case jor v (JObj []) of
      JObj d \<Rightarrow> iter_rules (jor (dget_or d ''rules'' JNull) (JList []))
    | _ \<Rightarrow> Inl (AttributeError ''get''))"

fun dedup_rules :: "(real \<Rightarrow> string) \<Rightarrow> string list \<Rightarrow> json list \<Rightarrow> params list res" where
  "dedup_rules flt seen [] = Inr []"
| "dedup_rules flt seen (JObj raw # rs) =
     (if rule_key flt raw \<in> set seen then dedup_rules flt seen rs
      else rbind (dedup_rules flt (rule_key flt raw # seen) rs) (\<lambda>ds. Inr (raw # ds)))"
| "dedup_rules flt seen (_ # rs) = Inl (AttributeError ''get'')"

fun parse_rules ::
  "(json \<Rightarrow> event_match res) \<Rightarrow> (real \<Rightarrow> string) \<Rightarrow> params list \<Rightarrow> rule list" where
  "parse_rules validate flt [] = []"
| "parse_rules validate flt (raw # rs) =
     (case rule_from_dict validate (str_json flt) raw of
        Inl e \<Rightarrow> parse_rules validate flt rs
      | Inr r \<Rightarrow> r # parse_rules validate flt rs)"

definition rules_template :: json where
  "rules_template = JObj [(''rules'', JList [])]"

text \<open>
  \<open>load_rules\<close>: the rules, and the rule file afterwards (a template is written when there is
  none).  Errors in the learned file are logged, errors in the rule file give no rules.
\<close>

definition load_watch_rules ::
  "(json \<Rightarrow> event_match res) \<Rightarrow> (real \<Rightarrow> string) \<Rightarrow> json res option \<Rightarrow> json res option
   \<Rightarrow> rule list \<times> json res option" where
  "load_watch_rules validate flt file learned = (case file of
      None \<Rightarrow> ([], Some (Inr rules_template))
    | Some content \<Rightarrow>
        (case rbind content (\<lambda>data.
              rbind (raw_rules_of data) (\<lambda>raws.
              let merged = (case learned of
                              None \<Rightarrow> raws
                            | Some lc \<Rightarrow> (case rbind lc raw_rules_of of
                                             Inl e \<Rightarrow> raws | Inr ls \<Rightarrow> raws @ ls))
              in dedup_rules flt [] merged)) of
           Inl e \<Rightarrow> ([], file)
         | Inr deduped \<Rightarrow> (parse_rules validate flt deduped, file)))"

section \<open>The watcher\<close>

text \<open>
  What reaches the watcher: an event line of Hyprland's socket, or a new rule list from a
  reload.  Each event starts one task per matching rule, in the order of the list.
\<close>

datatype watch_input = W_line string | W_reload "rule list"

fun run_watcher :: "rule list \<Rightarrow> watch_input list \<Rightarrow> (rule \<times> event) list" where
  "run_watcher rules [] = []"
| "run_watcher rules (W_reload rules' # is) = run_watcher rules' is"
| "run_watcher rules (W_line line # is) =
     (let e = parse_event line
      in map (\<lambda>r. (r, e)) (filter (\<lambda>r. match_event r e) rules) @ run_watcher rules is)"

section \<open>Lemmas on matching and execution\<close>

text \<open>The meaning of a pattern in the reference semantics of globs.\<close>

definition pattern_accepts :: "string option \<Rightarrow> string \<Rightarrow> bool" where
  "pattern_accepts pat s = (case pat of
      None \<Rightarrow> True
    | Some p \<Rightarrow> p = [] \<or> glob_lang (parse_glob (lower p)) (lower s))"

lemma pattern_rejects_iff: "pattern_rejects pat s \<longleftrightarrow> \<not> pattern_accepts pat s"
  by (cases pat) (auto simp: pattern_rejects_def pattern_accepts_def fnmatch_def glob_match_iff)

text \<open>The law every effect of a rule obeys.\<close>

fun rule_fx_ok :: "rule_fx \<Rightarrow> bool" where
  "rule_fx_ok (RF_spawn argv e) =
     (argv \<noteq> [] \<and> hd argv \<notin> set run_deny \<and> fst ` set e \<subseteq> set env_whitelist)"
| "rule_fx_ok _ = True"

lemma strip_hd: "strip s \<noteq> [] \<Longrightarrow> \<not> is_space (hd (strip s))"
proof -
  assume ne: "strip s \<noteq> []"
  let ?t = "dropWhile is_space s"
  have "\<exists>u. ?t = strip s @ u"
    by (metis rev_append rev_rev_ident strip_def takeWhile_dropWhile_id)
  then obtain u where u: "?t = strip s @ u" by blast
  with ne have "?t \<noteq> []" and "hd ?t = hd (strip s)" by auto
  then show ?thesis using hd_dropWhile[of is_space s] by simp
qed

lemma shlex_space_is_space: "shlex_space c \<Longrightarrow> is_space c"
  by (auto simp: shlex_space_def is_space_def ordc_def)

lemma exec_action_ok: "list_all rule_fx_ok (fst (exec_action answer environ a))"
proof (cases "ra_kind a = RA_run \<and> strip (ra_value a) \<noteq> []")
  case True
  then have ne: "strip (ra_value a) \<noteq> []" by simp
  show ?thesis
  proof (cases "shlex_split (strip (ra_value a))")
    case (Inr argv)
    have "argv \<noteq> []"
      using shlex_split_nonempty[OF Inr ne] strip_hd[OF ne] shlex_space_is_space by blast
    moreover have "fst ` set (safe_env environ) \<subseteq> set env_whitelist"
      by (auto simp: safe_env_def)
    ultimately show ?thesis
      using True Inr by (cases argv) (auto simp: exec_action_def Let_def)
  qed (use True in \<open>simp add: exec_action_def\<close>)
next
  case False
  then show ?thesis by (auto simp: exec_action_def split: rule_action_kind.split)
qed

lemma execute_actions_ok: "list_all rule_fx_ok (fst (execute_actions answer environ as))"
proof (induction as)
  case (Cons a as)
  obtain fx r where e: "exec_action answer environ a = (fx, r)" by fastforce
  then have "list_all rule_fx_ok fx" using exec_action_ok[of answer environ a] by simp
  with Cons show ?case by (cases r) (auto simp: e Let_def split: prod.splits)
qed simp

lemma execute_actions_all:
  "(\<And>fx. answer fx \<noteq> Inl CancelledError) \<Longrightarrow>
   execute_actions answer environ as =
     (concat (map (\<lambda>a. fst (exec_action answer environ a)) as), Inr ())"
proof (induction as)
  case (Cons a as)
  have "is_Exception e" if "snd (exec_action answer environ a) = Inl e" for e
  proof -
    have "e \<noteq> CancelledError"
      using that Cons.prems
      by (auto simp: exec_action_def Let_def split: rule_action_kind.splits if_splits sum.splits)
    then show ?thesis by (cases e) auto
  qed
  with Cons show ?case by (auto split: prod.splits sum.splits)
qed simp

section \<open>Lemmas on loading\<close>

lemma dedup_rules_objects:
  "\<exists>ds. dedup_rules flt seen (map JObj raws) = Inr ds \<and> distinct (map (rule_key flt) ds) \<and>
     rule_key flt ` set ds \<inter> set seen = {} \<and>
     (\<forall>k. k \<notin> set seen \<longrightarrow>
        List.find (\<lambda>d. rule_key flt d = k) ds = List.find (\<lambda>d. rule_key flt d = k) raws)"
proof (induction raws arbitrary: seen)
  case (Cons raw raws)
  show ?case
  proof (cases "rule_key flt raw \<in> set seen")
    case True
    with Cons[of seen] show ?thesis by fastforce
  next
    case False
    obtain ds where ds: "dedup_rules flt (rule_key flt raw # seen) (map JObj raws) = Inr ds"
      "distinct (map (rule_key flt) ds)"
      "rule_key flt ` set ds \<inter> set (rule_key flt raw # seen) = {}"
      "\<forall>k. k \<notin> set (rule_key flt raw # seen) \<longrightarrow>
         List.find (\<lambda>d. rule_key flt d = k) ds = List.find (\<lambda>d. rule_key flt d = k) raws"
      using Cons[of "rule_key flt raw # seen"] by blast
    then show ?thesis using False by (intro exI[of _ "raw # ds"]) auto
  qed
qed simp

lemma dedup_rules_bad: "\<lbrakk>v \<in> set rs; \<forall>d. v \<noteq> JObj d\<rbrakk> \<Longrightarrow> \<exists>e. dedup_rules flt seen rs = Inl e"
proof (induction flt seen rs rule: dedup_rules.induct)
  case (2 flt seen raw rs)
  then show ?case by (cases "rule_key flt raw \<in> set seen") force+
qed auto

text \<open>A rule file with a list of rules.\<close>

definition rules_doc :: "json list \<Rightarrow> json res option" where
  "rules_doc rs = Some (Inr (JObj [(''rules'', JList rs)]))"

lemma raw_rules_doc [simp]: "raw_rules_of (JObj [(''rules'', JList rs)]) = Inr rs"
  by (cases rs) (simp_all add: raw_rules_of_def jor_def)

section \<open>Properties\<close>


text \<open>
  The actions of a rule are isolated: unless the task is cancelled, every action of the
  rule is carried out in order, whichever of them fail or time out, and the task ends normally.
\<close>

theorem failing_action_stops_nothing:
  assumes "\<forall>fx. answer fx \<noteq> Inl CancelledError"
  shows "execute_rule answer environ r =
    (concat (map (\<lambda>a. fst (exec_action answer environ a)) (rule_actions r)), Inr ())"
  unfolding execute_rule_def by (rule execute_actions_all) (use assms in simp)

theorem failing_action_stops_nothing_witness:
  "execute_rule (\<lambda>fx. Inl TimeoutError) []
     \<lparr>rule_on = EV_urgent, rule_match = \<lparr>em_class = None, em_title = None\<rparr>,
      rule_actions = [\<lparr>ra_kind = RA_dispatch, ra_value = ''a''\<rparr>, \<lparr>ra_kind = RA_notify, ra_value = ''b''\<rparr>]\<rparr> =
   ([RF_dispatch ''a'', RF_notify ''b''], Inr ())"
  by (subst failing_action_stops_nothing) (simp_all add: exec_action_def)

lemma join_blank_ends:
  "ws \<noteq> [] \<Longrightarrow> \<forall>w\<in>set ws. w \<noteq> [] \<Longrightarrow>
   join '' '' ws \<noteq> [] \<and> hd (join '' '' ws) = hd (hd ws) \<and> last (join '' '' ws) = last (last ws)"
  by (induction "'' '' :: string" ws rule: join.induct) auto

lemma strip_join_words:
  assumes "ws \<noteq> []" and "\<forall>w\<in>set ws. w \<noteq> [] \<and> list_all (\<lambda>c. \<not> is_space c) w"
  shows "strip (join '' '' ws) = join '' '' ws" and "join '' '' ws \<noteq> []"
proof -
  have e: "join '' '' ws \<noteq> [] \<and> hd (join '' '' ws) = hd (hd ws) \<and> last (join '' '' ws) = last (last ws)"
    by (rule join_blank_ends) (use assms in auto)
  have "hd ws \<in> set ws" "last ws \<in> set ws" using assms(1) by simp_all
  then have "hd ws \<noteq> []" "list_all (\<lambda>c. \<not> is_space c) (hd ws)"
    "last ws \<noteq> []" "list_all (\<lambda>c. \<not> is_space c) (last ws)"
    using assms(2) by blast+
  then have "\<not> is_space (hd (hd ws))" "\<not> is_space (last (last ws))"
    by (simp_all add: list_all_iff)
  with e show "strip (join '' '' ws) = join '' '' ws" "join '' '' ws \<noteq> []"
    by (simp_all add: strip_ends)
qed

text \<open>
  The deny list looks at the first word as it is written.  A command line of plain words
  is spawned with exactly those words when the first one is not on the list, and not at all when
  it is, so \<open>rm\<close> is refused while \<open>/bin/rm\<close> is spawned.
\<close>

theorem deny_list_is_textual:
  assumes "ws \<noteq> []" and "\<forall>w\<in>set ws. w \<noteq> [] \<and> list_all bare_char w \<and> list_all (\<lambda>c. \<not> is_space c) w"
  shows "fst (exec_action answer environ \<lparr>ra_kind = RA_run, ra_value = join '' '' ws\<rparr>) =
    (if hd ws \<in> set run_deny then [] else [RF_spawn ws (safe_env environ)])"
proof -
  have s: "shlex_split (join '' '' ws) = Inr ws"
    by (rule shlex_split_join) (use assms in auto)
  have "strip (join '' '' ws) = join '' '' ws" and "join '' '' ws \<noteq> []"
    using strip_join_words[OF assms(1)] assms(2) by blast+
  with s assms(1) show ?thesis by (cases ws) (simp_all add: exec_action_def Let_def)
qed

theorem deny_list_is_textual_witness:
  "fst (exec_action (\<lambda>fx. Inr ()) [] \<lparr>ra_kind = RA_run, ra_value = join '' '' [''/bin/rm'', ''-r'', ''x'']\<rparr>) =
    [RF_spawn [''/bin/rm'', ''-r'', ''x''] (safe_env [])]"
  by (subst deny_list_is_textual)
     (simp_all add: run_deny_def bare_char_def shlex_space_def shlex_chars is_space_def ordc_def)

text \<open>
  A rule on opening windows is matched against the window's class and title: for the line
  Hyprland sends when a window opens, with a title that may contain commas, the rule matches
  exactly when it is a rule for that event and its class and title patterns, where it has them,
  describe the lowercased class and title.
\<close>

theorem open_window_rule_matches:
  assumes "CHR '','' \<notin> set addr" and "CHR '','' \<notin> set ws" and "CHR '','' \<notin> set cls"
    and "strip (join '','' [addr, ws, cls, title]) = join '','' [addr, ws, cls, title]"
  shows "match_event r (parse_event (''openwindow>>'' @ join '','' [addr, ws, cls, title])) \<longleftrightarrow>
    rule_on r = EV_open_window \<and> pattern_accepts (em_class (rule_match r)) cls \<and>
    pattern_accepts (em_title (rule_match r)) title"
proof -
  have step: "split_on CHR '','' (a @ CHR '','' # t) = a # split_on CHR '','' t"
    if "CHR '','' \<notin> set a" for a t
    using that by (induction a) auto
  have parts: "split_on CHR '','' (join '','' [addr, ws, cls, title]) =
      addr # ws # cls # split_on CHR '','' title"
    using assms(1-3) by (simp add: step)
  obtain t ts where t: "split_on CHR '','' title = t # ts" and "join '','' (t # ts) = title"
    using join_split_on[of "CHR '',''" title] by (cases "split_on CHR '','' title") auto
  then have f: "event_fields \<lparr>event_kind = EV_open_window, event_data = join '','' [addr, ws, cls, title],
      event_raw = raw\<rparr> = (cls, title)" for raw
    using parts by (simp add: event_fields_def)
  have "parse_event (''openwindow>>'' @ join '','' [addr, ws, cls, title]) =
      \<lparr>event_kind = EV_open_window, event_data = join '','' [addr, ws, cls, title],
       event_raw = ''openwindow>>'' @ join '','' [addr, ws, cls, title]\<rparr>"
    using parse_event_known[of EV_open_window "join '','' [addr, ws, cls, title]"] assms(4) by simp
  then show ?thesis
    by (simp add: match_event_def f pattern_rejects_iff del: join.simps parse_glob.simps)
qed

theorem open_window_rule_matches_witness:
  "match_event \<lparr>rule_on = EV_open_window,
      rule_match = \<lparr>em_class = Some ''Fire*'', em_title = None\<rparr>, rule_actions = []\<rparr>
     (parse_event (''openwindow>>'' @ join '','' [''80a'', ''1'', ''firefox'', ''a, b'']))"
proof (subst open_window_rule_matches)
  have "fnmatch (lower ''firefox'') (lower ''Fire*'')" by code_simp
  then show "rule_on \<lparr>rule_on = EV_open_window,
      rule_match = \<lparr>em_class = Some ''Fire*'', em_title = None\<rparr>, rule_actions = []\<rparr> = EV_open_window \<and>
    pattern_accepts (em_class (rule_match \<lparr>rule_on = EV_open_window,
      rule_match = \<lparr>em_class = Some ''Fire*'', em_title = None\<rparr>, rule_actions = []\<rparr>)) ''firefox'' \<and>
    pattern_accepts (em_title (rule_match \<lparr>rule_on = EV_open_window,
      rule_match = \<lparr>em_class = Some ''Fire*'', em_title = None\<rparr>, rule_actions = []\<rparr>)) ''a, b''"
    by (simp add: pattern_accepts_def fnmatch_def glob_match_iff del: parse_glob.simps)
  show "strip (join '','' [''80a'', ''1'', ''firefox'', ''a, b'']) =
      join '','' [''80a'', ''1'', ''firefox'', ''a, b'']"
    by code_simp
qed simp_all

text \<open>
  One malformed entry disables every rule: when the rule file or the learned file holds an
  entry that is not a mapping, no rule at all is loaded.
\<close>

theorem one_bad_entry_drops_all:
  assumes "v \<in> set (own @ mined)" and "\<forall>d. v \<noteq> JObj d"
  shows "fst (load_watch_rules validate flt (rules_doc own) (rules_doc mined)) = []"
  using dedup_rules_bad[OF assms, of flt "[]"]
  by (auto simp: load_watch_rules_def rules_doc_def Let_def)

theorem one_bad_entry_drops_all_witness:
  "fst (load_watch_rules (\<lambda>v. Inr \<lparr>em_class = None, em_title = None\<rparr>) (\<lambda>r. [])
      (rules_doc [JObj [(''on'', JStr ''urgent'')], JStr ''urgent'']) (rules_doc [])) = []"
  by (rule one_bad_entry_drops_all[of "JStr ''urgent''"]) simp_all

text \<open>
  Of the rules with the same event and match only the first is loaded, the user's before the
  learned ones: the rules loaded are the valid ones of a list without repeated keys in which the
  rule under each key is the first one of the two files under it.
\<close>

theorem first_rule_per_key_wins:
  "\<exists>ds. fst (load_watch_rules validate flt (rules_doc (map JObj own)) (rules_doc (map JObj mined))) =
       parse_rules validate flt ds \<and>
     distinct (map (rule_key flt) ds) \<and>
     (\<forall>k. List.find (\<lambda>d. rule_key flt d = k) ds = List.find (\<lambda>d. rule_key flt d = k) (own @ mined))"
  using dedup_rules_objects[of flt "[]" "own @ mined"]
  by (auto simp: load_watch_rules_def rules_doc_def Let_def)

end
