(* ===== verification/Memory.thy ===== *)
theory Memory
  imports Run_Executor Rules
begin

text \<open>
  What the daemon learns from a finished run: \<open>src/src/agent/memory/episodic.py\<close> (ingestion of a
  run into the episodic memory, recall), \<open>learning/reflection.py\<close> (the lesson of a failed run)
  and \<open>learning/consumer.py\<close> (which messages trigger them).  The embedding model, the distance
  of the vector extension, \<open>json.dumps\<close>, the text of a float and the iteration order of a set
  are parameters.
\<close>

section \<open>Reading the events of a run\<close>

definition payload_get :: "run_event \<Rightarrow> string \<Rightarrow> json" where
  "payload_get e k = dget_or (ev_payload e) k JNull"

definition action_kinds_of :: "run_event list \<Rightarrow> json list" where
  "action_kinds_of es =
     map (\<lambda>e. dget_or (ev_payload e) ''kind'' (JStr ''?'')) (filter (\<lambda>e. ev_kind e = ''action'') es)"

definition count_flagged :: "string \<Rightarrow> run_event list \<Rightarrow> nat" where
  "count_flagged flag es =
     length (filter (\<lambda>e. ev_kind e = ''action_result'' \<and> truthy (payload_get e flag)) es)"

text \<open>\<open>sep.join(xs)\<close>: a \<open>TypeError\<close> when an item is not a string.\<close>

fun item_str :: "json \<Rightarrow> string res" where
  "item_str (JStr s) = Inr s"
| "item_str _ = Inl (TypeError ''expected str instance'')"

definition join_json :: "string \<Rightarrow> json list \<Rightarrow> string res" where
  "join_json sep xs = rbind (rmap item_str xs) (\<lambda>ss. Inr (join sep ss))"

section \<open>Episodic memory\<close>

text \<open>
  The loop over the events, for the window class the run started from: the first state event
  whose active window has a class.
\<close>

fun context_of :: "json \<Rightarrow> run_event list \<Rightarrow> json res" where
  "context_of ctx [] = Inr ctx"
| "context_of ctx (e # es) =
     (if ev_kind e = ''state'' \<and> truthy (payload_get e ''active'') \<and> ctx = JNull
      then (case payload_get e ''active'' of
              JObj d \<Rightarrow> context_of (dget_or d ''class'' JNull) es
            | _ \<Rightarrow> Inl (AttributeError ''get''))
      else context_of ctx es)"

definition episode_summary :: "run_event list \<Rightarrow> string res" where
  "episode_summary es =
     (let kinds = action_kinds_of es;
          blocked = count_flagged ''blocked'' es; rejected = count_flagged ''rejected'' es
      in rbind (join_json '', '' (take 8 kinds)) (\<lambda>preview.
         Inr (join ''; '' ([nat_str (length kinds) @ '' actions: '' @ preview] @
            (if blocked \<noteq> 0 then [nat_str blocked @ '' blocked''] else []) @
            (if rejected \<noteq> 0 then [nat_str rejected @ '' rejected''] else [])))))"

definition episode_outcome :: "run_status \<Rightarrow> string" where
  "episode_outcome st =
     dget_or [(''completed'', ''success''), (''aborted'', ''failure''), (''errored'', ''failure'')]
       (rs_value st) (rs_value st)"

text \<open>A TEXT column takes a string or nothing; other values are not bound.\<close>

fun text_column :: "json \<Rightarrow> string option res" where
  "text_column JNull = Inr None"
| "text_column (JStr s) = Inr (Some s)"
| "text_column _ = Inl (DatabaseError ''type not supported'')"

text \<open>
  \<open>ingest\<close>, up to the exception that its outermost handler logs; a failed embedding only leaves
  out the vector.
\<close>

definition ingest_record ::
  "(string \<Rightarrow> real list res) \<Rightarrow> (json \<Rightarrow> string) \<Rightarrow> real \<Rightarrow> string \<Rightarrow> run_record \<Rightarrow> store \<Rightarrow> store res" where
  "ingest_record emb dumps now i rec s =
     rbind (context_of JNull (rn_events rec)) (\<lambda>ctx.
     rbind (episode_summary (rn_events rec)) (\<lambda>summary.
     rbind (text_column ctx) (\<lambda>cls.
       let s1 = insert_episode now i (rn_task rec) (episode_outcome (rn_status rec)) summary cls
                  (dumps (JList (action_kinds_of (rn_events rec)))) s
       in Inr (case emb (rn_task rec @ '' | '' @ summary) of
                 Inl e \<Rightarrow> s1
               | Inr v \<Rightarrow> insert_episode_vec i v s1))))"

definition ingest ::
  "(string \<Rightarrow> real list res) \<Rightarrow> (json \<Rightarrow> string) \<Rightarrow> real \<Rightarrow> string \<Rightarrow> store \<Rightarrow> store" where
  "ingest emb dumps now i s =
     (let (r, s1) = get_run i s
      in case r of
           Inr (Some rec) \<Rightarrow>
             (case ingest_record emb dumps now i rec s1 of Inl e \<Rightarrow> s1 | Inr s2 \<Rightarrow> s2)
         | _ \<Rightarrow> s1)"

record episode =
  epi_run :: string
  epi_task :: string
  epi_outcome :: string
  epi_summary :: string
  epi_context :: "string option"
  epi_distance :: "real option"

definition episode_dict :: "episode \<Rightarrow> string dict" where
  "episode_dict e =
     [(''task'', epi_task e), (''outcome'', epi_outcome e), (''summary'', epi_summary e)]"

definition episode_of_row :: "episode_row \<times> real \<Rightarrow> episode" where
  "episode_of_row rd =
     \<lparr>epi_run = ep_run (fst rd), epi_task = ep_task (fst rd), epi_outcome = ep_outcome (fst rd),
      epi_summary = ep_summary (fst rd), epi_context = ep_context (fst rd),
      epi_distance = Some (snd rd)\<rparr>"

definition touch_all :: "real \<Rightarrow> string \<Rightarrow> string list \<Rightarrow> store \<Rightarrow> store" where
  "touch_all now table ids s =
     foldl (\<lambda>s i. case touch_memory now table ''run_id'' i s of Inl e \<Rightarrow> s | Inr s' \<Rightarrow> s') s ids"

definition recall ::
  "(string \<Rightarrow> real list res) \<Rightarrow> (real list \<Rightarrow> real list \<Rightarrow> real) \<Rightarrow> real \<Rightarrow> string \<Rightarrow> int \<Rightarrow> bool \<Rightarrow> store
   \<Rightarrow> episode list \<times> store" where
  "recall emb vdist now task k filter_failure s =
     (case emb task of
        Inl e \<Rightarrow> ([], s)
      | Inr v \<Rightarrow>
          (let rows = query_episodes_by_vec vdist v k (if filter_failure then Some ''failure'' else None) s;
               eps = map episode_of_row rows
           in (eps, touch_all now ''episodes'' (map epi_run eps) s)))"

section \<open>Reflections\<close>

definition failure_outcomes :: "string list" where
  "failure_outcomes = [''failure'', ''stuck'', ''errored'', ''aborted'']"

fun hashable :: "json \<Rightarrow> bool" where
  "hashable (JList _) = False"
| "hashable (JObj _) = False"
| "hashable _ = True"

text \<open>\<open>max(set(kinds), key=kinds.count)\<close>: the first of the set's elements with most occurrences.\<close>

fun most_common :: "json list \<Rightarrow> json list \<Rightarrow> json option" where
  "most_common kinds [] = None"
| "most_common kinds (k # ks) =
     (case most_common kinds ks of
        None \<Rightarrow> Some k
      | Some m \<Rightarrow> if length (filter (\<lambda>x. x = k) kinds) < length (filter (\<lambda>x. x = m) kinds)
                  then Some m else Some k)"

definition derive_text ::
  "(real \<Rightarrow> string) \<Rightarrow> (json list \<Rightarrow> json list) \<Rightarrow> string \<Rightarrow> string \<Rightarrow> json list \<Rightarrow> nat \<Rightarrow> string option res" where
  "derive_text flt set_order task outcome kinds blocked =
     (if 0 < blocked then
        Inr (Some (''For task '' @ [CHR 0x27] @ task @ [CHR 0x27] @ '': action was blocked '' @
          nat_str blocked @ '' time(s). Verify the target app is in the allowlist before attempting.''))
      else if outcome = ''stuck'' then
        (if \<not> list_all hashable kinds then Inl (TypeError ''unhashable type'')
         else let repeated = (case most_common kinds (set_order kinds) of
                           None \<Rightarrow> ''unknown'' | Some k \<Rightarrow> str_json flt k)
         in Inr (Some (''For task '' @ [CHR 0x27] @ task @ [CHR 0x27] @ '': got stuck repeating '' @
              [CHR 0x27] @ repeated @ [CHR 0x27] @ ''. Try a different strategy or target element.'')))
      else if outcome \<in> {''failure'', ''errored'', ''aborted''} then
        (if kinds \<noteq> [] then
           rbind (join_json '', '' (take 3 kinds)) (\<lambda>preview.
             Inr (Some (''For task '' @ [CHR 0x27] @ task @ [CHR 0x27] @ '': failed after '' @
               nat_str (length kinds) @ '' action(s) ('' @ preview @
               ''). Consider an alternative approach.'')))
         else Inr (Some (''For task '' @ [CHR 0x27] @ task @ [CHR 0x27] @
                         '': failed without completing any action.'')))
      else Inr None)"

definition reflect ::
  "(real \<Rightarrow> string) \<Rightarrow> (json list \<Rightarrow> json list) \<Rightarrow> real \<Rightarrow> string \<Rightarrow> string \<Rightarrow> store \<Rightarrow> store" where
  "reflect flt set_order now i outcome s =
     (let (r, s1) = get_run i s
      in case r of
           Inr (Some rec) \<Rightarrow>
             (let kinds = action_kinds_of (rn_events rec);
                  blocked = count_flagged ''blocked'' (rn_events rec);
                  polarity = (if outcome \<in> set failure_outcomes then ''negative'' else ''positive'')
              in case derive_text flt set_order (rn_task rec) outcome kinds blocked of
                   Inr (Some txt) \<Rightarrow>
                     if txt = [] then s1 else insert_reflection now i polarity txt ''rule-based'' s1
                 | _ \<Rightarrow> s1)
         | _ \<Rightarrow> s1)"

section \<open>The consumer\<close>

text \<open>
  A message of the run topic starts at most one task, with the run's id and outcome; a value
  of another type than a string stands for no run of the store.
\<close>

definition consumer_pick :: "params \<Rightarrow> (json \<times> json) option" where
  "consumer_pick msg =
     (if dget_or msg ''kind'' JNull \<noteq> JStr ''run_finished'' then None
      else let run_id = dget_or msg ''run_id'' JNull; outcome = dget_or msg ''outcome'' (JStr ''unknown'')
           in if \<not> truthy run_id then None else Some (run_id, outcome))"

definition consume ::
  "(string \<Rightarrow> real list res) \<Rightarrow> (json \<Rightarrow> string) \<Rightarrow> (real \<Rightarrow> string) \<Rightarrow> (json list \<Rightarrow> json list)
   \<Rightarrow> real \<Rightarrow> string \<Rightarrow> string \<Rightarrow> store \<Rightarrow> store" where
  "consume emb dumps flt set_order now i outcome s =
     reflect flt set_order now i outcome (ingest emb dumps now i s)"

section \<open>Lemmas\<close>

lemma touch_all_other:
  "db_episodes (st_db (touch_all now ''reflections'' ids s)) = db_episodes (st_db s)"
  by (induction ids arbitrary: s) (auto simp: touch_all_def touch_memory_def upd_db_def Let_def)

lemma query_episodes_sorted:
  "sorted (map snd (query_episodes_by_vec vdist v k ex s))"
  by (simp add: query_episodes_by_vec_def sql_limit_def sorted_wrt_take flip: take_map)

lemma query_episodes_mem:
  assumes "(e, d) \<in> set (query_episodes_by_vec vdist v k (Some x) s)" and "x \<noteq> []"
  shows "e \<in> set (db_episodes (st_db s)) \<and> ep_outcome e \<noteq> x"
proof -
  have sub: "set (sql_limit k xs) \<subseteq> set xs" for xs :: "(episode_row \<times> real) list"
    by (auto simp: sql_limit_def dest: in_set_takeD)
  from assms show ?thesis
    by (auto simp: query_episodes_by_vec_def split: if_splits dest!: subsetD[OF sub])
qed

lemma query_episodes_length:
  "0 \<le> k \<Longrightarrow> length (query_episodes_by_vec vdist v k ex s) \<le> nat k"
  by (simp add: query_episodes_by_vec_def sql_limit_def)

text \<open>The state events a run emits: the active window as it is dumped, or nothing.\<close>

definition state_event_ok :: "run_event \<Rightarrow> bool" where
  "state_event_ok e \<longleftrightarrow> (ev_kind e = ''state'' \<longrightarrow>
     payload_get e ''active'' = JNull \<or> (\<exists>w. payload_get e ''active'' = JObj (window_dump w)))"

lemma context_of_dumped: "list_all state_event_ok es \<Longrightarrow> context_of JNull es = Inr JNull"
  by (induction es) (auto simp: state_event_ok_def window_dump_def)

lemma insert_episode_rows:
  "db_episodes (st_db (insert_episode now i task outcome summary ctx acts s)) =
     filter (\<lambda>r. ep_run r \<noteq> i) (db_episodes (st_db s)) @
     [\<lparr>ep_run = i, ep_task = task, ep_normalized = strip (lower task), ep_outcome = outcome,
       ep_summary = summary, ep_context = ctx, ep_actions = acts, ep_created = now, ep_decay = 1,
       ep_accessed = None\<rparr>]"
  by (simp add: insert_episode_def upd_db_def sql_replace_def)

lemma insert_episode_vec_rows [simp]:
  "db_episodes (st_db (insert_episode_vec i v s)) = db_episodes (st_db s)"
  by (simp add: insert_episode_vec_def upd_db_def)

lemma ingest_record_parts:
  assumes "ingest_record emb dumps now i rec s = Inr s'"
  obtains ctx summary cls where "context_of JNull (rn_events rec) = Inr ctx"
    "text_column ctx = Inr cls"
    "db_episodes (st_db s') = filter (\<lambda>r. ep_run r \<noteq> i) (db_episodes (st_db s)) @
       [\<lparr>ep_run = i, ep_task = rn_task rec, ep_normalized = strip (lower (rn_task rec)),
         ep_outcome = episode_outcome (rn_status rec), ep_summary = summary, ep_context = cls,
         ep_actions = dumps (JList (action_kinds_of (rn_events rec))), ep_created = now, ep_decay = 1,
         ep_accessed = None\<rparr>]"
proof -
  obtain ctx summary cls where
    r: "context_of JNull (rn_events rec) = Inr ctx" "text_column ctx = Inr cls"
    and s': "s' = (let s1 = insert_episode now i (rn_task rec) (episode_outcome (rn_status rec)) summary cls
                  (dumps (JList (action_kinds_of (rn_events rec)))) s
       in case emb (rn_task rec @ '' | '' @ summary) of Inl e \<Rightarrow> s1 | Inr v \<Rightarrow> insert_episode_vec i v s1)"
    using assms unfolding ingest_record_def rbind_Inr_iff Let_def by blast
  show thesis
    by (rule that[OF r, of summary]) (simp add: s' Let_def insert_episode_rows split: sum.split)
qed

lemma reflect_silent:
  assumes "coherent s" and "read_run (st_db s) i = Inr (Some rec)"
    and "derive_text flt set_order (rn_task rec) outcome (action_kinds_of (rn_events rec))
           (count_flagged ''blocked'' (rn_events rec)) = Inr None"
  shows "st_db (reflect flt set_order now i outcome s) = st_db s"
  using get_run_coherent[OF assms(1), of i] assms(2,3)
  by (cases "get_run i s") (simp add: reflect_def Let_def)

section \<open>Properties\<close>

text \<open>
  Recall brings back at most the number of episodes asked for, nearest first, and never an
  episode of a failed run when failures are filtered out; every episode is one the database
  holds.
\<close>

theorem recall_is_bounded_and_filtered:
  assumes "0 \<le> k" and "recall emb vdist now task k True s = (eps, s')"
  shows "length eps \<le> nat k \<and> sorted (map (\<lambda>e. the (epi_distance e)) eps) \<and>
     (\<forall>e\<in>set eps. epi_outcome e \<noteq> ''failure'' \<and> epi_run e \<in> ep_run ` set (db_episodes (st_db s)))"
proof (cases "emb task")
  case (Inr v)
  let ?q = "query_episodes_by_vec vdist v k (Some ''failure'') s"
  from assms(2) Inr have eps: "eps = map episode_of_row ?q"
    by (simp add: recall_def Let_def)
  have m: "map (\<lambda>e. the (epi_distance e)) eps = map snd ?q"
    by (simp add: eps episode_of_row_def)
  have mem: "epi_outcome e \<noteq> ''failure'' \<and> epi_run e \<in> ep_run ` set (db_episodes (st_db s))"
    if m: "e \<in> set eps" for e
  proof -
    obtain rd where rd: "rd \<in> set ?q" "e = episode_of_row rd"
      using m unfolding eps set_map by blast
    have "(fst rd, snd rd) \<in> set ?q" using rd(1) by simp
    then show ?thesis using query_episodes_mem[of "fst rd" "snd rd" vdist v k "''failure''" s] rd(2)
      by (auto simp: episode_of_row_def)
  qed
  have "length eps \<le> nat k"
    using query_episodes_length[OF assms(1), of vdist v "Some ''failure''" s] by (simp add: eps)
  then show ?thesis
    unfolding m using mem query_episodes_sorted[of vdist v k "Some ''failure''" s] by blast
qed (use assms in \<open>simp add: recall_def\<close>)

definition sample_memory :: store where
  "sample_memory =
     insert_episode_vec ''r2'' [1] (insert_episode 2 ''r2'' ''b'' ''failure'' ''s'' None ''[]''
       (insert_episode_vec ''r1'' [2] (insert_episode 1 ''r1'' ''a'' ''success'' ''s'' None ''[]''
         \<lparr>st_db = empty_db, st_lru = [], st_vec_ok = True\<rparr>)))"

theorem recall_is_bounded_and_filtered_witness:
  "map epi_run (fst (recall (\<lambda>t. Inr [0]) (\<lambda>a b. hd a - hd b) 9 ''q'' 3 True sample_memory)) = [''r1''] \<and>
   length (fst (recall (\<lambda>t. Inr [0]) (\<lambda>a b. hd a - hd b) 9 ''q'' 3 True sample_memory)) \<le> nat 3"
proof -
  let ?r = "recall (\<lambda>t. Inr [0]) (\<lambda>a b. hd a - hd b) 9 ''q'' 3 True sample_memory"
  have "map epi_run (fst ?r) = [''r1'']"
    by (simp add: recall_def Let_def query_episodes_by_vec_def sample_memory_def insert_episode_vec_def
        insert_episode_def upd_db_def sql_replace_def empty_db_def sql_limit_def episode_of_row_def)
  moreover have "length (fst ?r) \<le> nat 3"
    using recall_is_bounded_and_filtered[of 3 "\<lambda>t. Inr [0]" "\<lambda>a b. hd a - hd b" 9 "''q''" sample_memory
        "fst ?r" "snd ?r"] by simp
  ultimately show ?thesis by simp
qed

text \<open>
  A run has at most one episode: ingesting a run that the database can read replaces what
  was stored for it by one row with the run's task and the outcome its status stands for, and
  leaves the episodes of all other runs as they were; ingesting it again gives one row again.
\<close>

theorem ingest_replaces_episode:
  assumes "coherent s" and "read_run (st_db s) i = Inr (Some rec)"
    and "ingest_record emb dumps now i rec (snd (get_run i s)) = Inr s'"
  shows "\<exists>row. filter (\<lambda>r. ep_run r = i) (db_episodes (st_db (ingest emb dumps now i s))) = [row] \<and>
       ep_task row = rn_task rec \<and> ep_outcome row = episode_outcome (rn_status rec) \<and>
     filter (\<lambda>r. ep_run r \<noteq> i) (db_episodes (st_db (ingest emb dumps now i s))) =
       filter (\<lambda>r. ep_run r \<noteq> i) (db_episodes (st_db s))"
proof -
  have g: "fst (get_run i s) = Inr (Some rec)" "st_db (snd (get_run i s)) = st_db s"
    using get_run_coherent[OF assms(1), of i] assms(2) by simp_all
  then have "ingest emb dumps now i s = s'"
    using assms(3) by (cases "get_run i s") (simp add: ingest_def)
  moreover have "\<exists>row. db_episodes (st_db s') = filter (\<lambda>r. ep_run r \<noteq> i) (db_episodes (st_db s)) @ [row] \<and>
      ep_run row = i \<and> ep_task row = rn_task rec \<and> ep_outcome row = episode_outcome (rn_status rec)"
    by (rule ingest_record_parts[OF assms(3)]) (simp add: g(2))
  ultimately show ?thesis by (auto simp: filter_empty_conv)
qed

definition finished_store :: store where
  "finished_store = empty_store\<lparr>st_db := empty_db\<lparr>db_runs :=
     [\<lparr>rr_id = ''r1'', rr_kind = ''run'', rr_task = ''t'', rr_brain = ''b'', rr_status = ''aborted'',
       rr_started = 0, rr_ended = Some 1, rr_error = None, rr_iterations = None, rr_actions = None,
       rr_duration = None\<rparr>]\<rparr>\<rparr>"

definition finished_record :: run_record where
  "finished_record = \<lparr>rn_id = ''r1'', rn_kind = RK_run, rn_task = ''t'', rn_brain = ''b'',
     rn_status = Aborted, rn_started_at = 0, rn_ended_at = Some 1, rn_error = None, rn_events = []\<rparr>"

lemma finished_store_run: "coherent finished_store \<and> read_run (st_db finished_store) ''r1'' = Inr (Some finished_record)"
  by (simp add: finished_store_def finished_record_def coherent_def empty_store_def read_run_def
      sql_find_def row_to_summary_def run_with_events_def empty_db_def enum_lookup_def
      all_run_kinds_def all_run_statuses_def)

theorem ingest_replaces_episode_witness:
  "\<exists>row. filter (\<lambda>r. ep_run r = ''r1'')
       (db_episodes (st_db (ingest (\<lambda>t. Inl TimeoutError) (\<lambda>v. ''[]'') 5 ''r1'' finished_store))) = [row] \<and>
     ep_outcome row = ''failure''"
proof -
  let ?s = "snd (get_run ''r1'' finished_store)"
  have "\<exists>s'. ingest_record (\<lambda>t. Inl TimeoutError) (\<lambda>v. ''[]'') 5 ''r1'' finished_record ?s = Inr s'"
    by (simp add: ingest_record_def finished_record_def episode_summary_def action_kinds_of_def
        count_flagged_def join_json_def Let_def)
  then obtain s' where
    "ingest_record (\<lambda>t. Inl TimeoutError) (\<lambda>v. ''[]'') 5 ''r1'' finished_record ?s = Inr s'" by blast
  from ingest_replaces_episode[OF _ _ this] finished_store_run show ?thesis
    by (auto simp: finished_record_def episode_outcome_def)
qed

text \<open>
  The window class of an episode is never recorded: the state event of a run dumps the
  active window with its class under \<open>app_class\<close>, and ingestion looks for \<open>class\<close>, so for the
  events a run emits the context is always empty.
\<close>

theorem context_is_never_recorded:
  assumes "list_all state_event_ok (rn_events rec)"
    and "ingest_record emb dumps now i rec s = Inr s'"
  shows "\<forall>r\<in>set (db_episodes (st_db s')). ep_run r = i \<longrightarrow> ep_context r = None"
  by (rule ingest_record_parts[OF assms(2)]) (use context_of_dumped[OF assms(1)] in auto)

theorem context_is_never_recorded_witness:
  "\<exists>s' r. ingest_record (\<lambda>t. Inl TimeoutError) (\<lambda>v. ''[]'') 5 ''r1'' finished_record empty_store = Inr s' \<and>
     db_episodes (st_db s') = [r] \<and> ep_context r = None"
proof -
  obtain s' where s': "ingest_record (\<lambda>t. Inl TimeoutError) (\<lambda>v. ''[]'') 5 ''r1'' finished_record empty_store = Inr s'"
    by (simp add: ingest_record_def finished_record_def episode_summary_def action_kinds_of_def
        count_flagged_def join_json_def Let_def)
  have "list_all state_event_ok (rn_events finished_record)" by (simp add: finished_record_def)
  from context_is_never_recorded[OF this s']
  have c: "\<forall>r\<in>set (db_episodes (st_db s')). ep_run r = ''r1'' \<longrightarrow> ep_context r = None" .
  have "\<exists>r. db_episodes (st_db s') = [r] \<and> ep_run r = ''r1''"
    by (rule ingest_record_parts[OF s']) (simp add: empty_store_def empty_db_def)
  with c s' show ?thesis by auto
qed

text \<open>
  C0: A stuck run teaches nothing: the message that ends a run stopped by the loop detector
  carries the outcome \<open>partial\<close>, which the consumer hands to the reflection engine, and unless an
  action was blocked no lesson is stored for it; the text for stuck runs is never produced.
\<close>

definition finished_payload :: "run_kind \<Rightarrow> string \<Rightarrow> unit res \<Rightarrow> params" where
  "finished_payload kind task r =
     (let status = fst (settle kind r)
      in [(''task'', JStr task), (''outcome'', JStr (fst (derive_from_status status))),
          (''status'', JStr (rs_value status))])"

theorem stuck_runs_teach_nothing:
  assumes "i \<noteq> []" and "coherent s" and "read_run (st_db s) i = Inr (Some rec)"
    and "count_flagged ''blocked'' (rn_events rec) = 0"
  shows "\<exists>outcome. consumer_pick (dict_merge [(''run_id'', JStr i), (''kind'', JStr ''run_finished'')]
             (finished_payload kind task (Inl (StuckError m)))) = Some (JStr i, JStr outcome) \<and>
     st_db (reflect flt set_order now i outcome s) = st_db s"
proof -
  have "derive_text flt set_order (rn_task rec) ''partial'' (action_kinds_of (rn_events rec))
      (count_flagged ''blocked'' (rn_events rec)) = Inr None"
    by (simp add: derive_text_def assms(4))
  then have "st_db (reflect flt set_order now i ''partial'' s) = st_db s"
    by (rule reflect_silent[OF assms(2,3)])
  then show ?thesis
    using assms(1)
    by (intro exI[of _ "''partial''"])
       (simp add: consumer_pick_def dict_merge_def finished_payload_def settle_def derive_from_status_def)
qed

theorem stuck_runs_teach_nothing_witness:
  "\<exists>outcome. consumer_pick (dict_merge [(''run_id'', JStr ''r1''), (''kind'', JStr ''run_finished'')]
             (finished_payload RK_run ''t'' (Inl (StuckError ''m'')))) = Some (JStr ''r1'', JStr outcome) \<and>
     st_db (reflect (\<lambda>r. []) (\<lambda>ks. ks) 7 ''r1'' outcome finished_store) = st_db finished_store"
  by (rule stuck_runs_teach_nothing[where rec = finished_record])
     (use finished_store_run in \<open>simp_all add: finished_record_def count_flagged_def\<close>)

end
