(* ===== verification/Learning.thy ===== *)
theory Learning
  imports Memory
begin

text \<open>
  The learners that propose and the interface that decides: \<open>src/src/agent/learning/allowlist.py\<close>
  and \<open>rules.py\<close> (the miners) and \<open>learning/api.py\<close> (listing, approving, rejecting and explaining
  proposals, with the files an approval writes).  \<open>json.dumps\<close> and \<open>json.loads\<close>, the YAML
  reader and writer and \<open>md5\<close> are parameters; a file is the value it parses to.
\<close>

section \<open>The allowlist miner\<close>

text \<open>\<open>clock n\<close> is the time of the \<open>n\<close>-th statement.\<close>

definition mine_allowlist :: "(nat \<Rightarrow> real) \<Rightarrow> misses \<Rightarrow> store \<Rightarrow> nat \<times> misses \<times> store" where
  "mine_allowlist clock counter s =
     (let (misses, counter') = drain_misses counter
      in if misses = [] then (0, counter', s)
         else (length misses, counter',
               upsert_all (map (\<lambda>(n, ((cls, title), hits)). (clock n, cls, ''*''))
                             (zip [0..<length misses] misses)) s))"

section \<open>The rule miner\<close>

definition hit_threshold :: nat where "hit_threshold = 3"

text \<open>The rows of the join: successful runs in the window, newest first, with their episode.\<close>

definition mined_runs :: "real \<Rightarrow> db \<Rightarrow> (string \<times> string option) list" where
  "mined_runs cutoff d =
     map (\<lambda>(r, ctx). (rr_id r, ctx))
       (order_desc (\<lambda>(r, ctx). rr_started r)
         (concat (map (\<lambda>r.
            concat (map (\<lambda>oc.
              (if oc_run oc = rr_id r \<and> oc_outcome oc = ''success'' \<and> cutoff \<le> rr_started r
               then (case filter (\<lambda>e. ep_run e = rr_id r) (db_episodes d) of
                       [] \<Rightarrow> [(r, None)]
                     | es \<Rightarrow> map (\<lambda>e. (r, ep_context e)) es)
               else [])) (db_outcomes d))) (db_runs d))))"

definition run_action_kinds :: "string \<Rightarrow> db \<Rightarrow> json list" where
  "run_action_kinds i d =
     map (\<lambda>e. dget_or (er_payload e) ''kind'' (JStr ''?''))
       (sort_key er_seq (filter (\<lambda>e. er_run e = i \<and> er_kind e = ''action'') (db_events d)))"

text \<open>The counter and the runs of each key, in the order in which the keys were met.\<close>

type_synonym tally = "((string \<times> string) \<times> nat \<times> string list) list"

fun tally_add :: "string \<times> string \<Rightarrow> string \<Rightarrow> tally \<Rightarrow> tally" where
  "tally_add k i [] = [(k, 1, [i])]"
| "tally_add k i ((k', n, ids) # t) =
     (if k' = k then (k', n + 1, ids @ [i]) # t else (k', n, ids) # tally_add k i t)"

definition context_key :: "string option \<Rightarrow> string" where
  "context_key ctx = (case ctx of None \<Rightarrow> ''any'' | Some c \<Rightarrow> if c = [] then ''any'' else c)"

definition mine_key :: "(json \<Rightarrow> string) \<Rightarrow> db \<Rightarrow> string \<times> string option \<Rightarrow> (string \<times> string) option" where
  "mine_key dumps d row =
     (let kinds = run_action_kinds (fst row) d
      in if kinds = [] then None else Some (context_key (snd row), dumps (JList kinds)))"

fun tally_runs :: "(json \<Rightarrow> string) \<Rightarrow> db \<Rightarrow> (string \<times> string option) list \<Rightarrow> tally \<Rightarrow> tally" where
  "tally_runs dumps d [] t = t"
| "tally_runs dumps d (row # rows) t =
     (case mine_key dumps d row of
        None \<Rightarrow> tally_runs dumps d rows t
      | Some k \<Rightarrow> tally_runs dumps d rows (tally_add k (fst row) t))"

record codec =
  cd_dumps :: "json \<Rightarrow> string"
  cd_loads :: "string \<Rightarrow> json res"
  cd_yaml_dump :: "json \<Rightarrow> string"
  cd_yaml_load :: "string \<Rightarrow> json res"
  cd_md5 :: "string \<Rightarrow> string"

definition mined_rule :: "string \<Rightarrow> string \<Rightarrow> json" where
  "mined_rule ctx preview =
     JObj [(''on'', JStr ''openwindow''), (''match'', JObj [(''class'', JStr ctx)]),
           (''actions'', JList [JObj [(''log'', JStr (''auto: '' @ preview))]])]"

definition rule_id_of :: "codec \<Rightarrow> string \<times> string \<Rightarrow> string" where
  "rule_id_of C k = cd_md5 C (fst k @ ''|'' @ snd k)"

definition kinds_of_json :: "json \<Rightarrow> json list res" where
  "kinds_of_json v = (case v of JList ks \<Rightarrow> Inr ks | _ \<Rightarrow> Inl (TypeError ''unhashable slice''))"

text \<open>The first three kinds of a key's list, as the rule's log line shows them.\<close>

definition preview_of :: "codec \<Rightarrow> string \<times> string \<Rightarrow> string res" where
  "preview_of C k = rbind (rbind (cd_loads C (snd k)) kinds_of_json) (\<lambda>ks. join_json '', '' (take 3 ks))"

text \<open>
  The proposals, one per key that was met often enough.
\<close>

fun propose_rules :: "codec \<Rightarrow> real \<Rightarrow> tally \<Rightarrow> nat \<Rightarrow> store \<Rightarrow> nat res \<times> store" where
  "propose_rules C now [] n s = (Inr n, s)"
| "propose_rules C now ((k, count, ids) # t) n s =
     (if count < hit_threshold then propose_rules C now t n s
      else case preview_of C k of
             Inl e \<Rightarrow> (Inl e, s)
           | Inr preview \<Rightarrow>
               propose_rules C now t (n + 1)
                 (insert_learned_rule now (rule_id_of C k)
                    (cd_yaml_dump C (JObj [(''rules'', JList [mined_rule (fst k) preview])]))
                    (min 1 (of_nat count / 10)) (cd_dumps C (JList (map JStr (take 5 ids)))) s))"

text \<open>
  \<open>mine\<close>: the number of proposals; an exception is logged and gives 0, and the connection's
  context manager rolls the transaction back.
\<close>

definition mine_rules :: "codec \<Rightarrow> real \<Rightarrow> int \<Rightarrow> store \<Rightarrow> nat \<times> store" where
  "mine_rules C now window_days s =
     (let cutoff = now - of_int (window_days * 86400);
          t = tally_runs (cd_dumps C) (st_db s) (mined_runs cutoff (st_db s)) []
      in case propose_rules C now t 0 s of
           (Inr n, s') \<Rightarrow> (n, s')
         | (Inl e, s') \<Rightarrow> (0, s))"

section \<open>The files an approval writes\<close>

text \<open>An entry equal to the new one as a dictionary, whatever the order of its keys.\<close>

fun same_entry :: "string \<Rightarrow> string \<Rightarrow> json \<Rightarrow> bool" where
  "same_entry cls title (JObj d) =
     (length d = 2 \<and> dget d ''class'' = Some (JStr cls) \<and> dget d ''title'' = Some (JStr title))"
| "same_entry cls title _ = False"

definition append_allowlist_entry :: "json option \<Rightarrow> string \<Rightarrow> string \<Rightarrow> json option res" where
  "append_allowlist_entry file cls title =
     (case (case file of None \<Rightarrow> JObj [] | Some v \<Rightarrow> jor v (JObj [])) of
        JObj d \<Rightarrow>
          (case dget_or d ''allow'' (JList []) of
             JList allow \<Rightarrow>
               Inr (Some (JObj [(''allow'', JList
                 (if list_ex (same_entry cls title) allow then allow
                  else allow @ [JObj [(''class'', JStr cls), (''title'', JStr title)]]))]))
           | _ \<Rightarrow> Inl (TypeError ''argument is not a list''))
      | _ \<Rightarrow> Inl (AttributeError ''get''))"

text \<open>\<open>existing.get("rules", [])\<close> and \<open>.get("rules", [])\<close> of the approved rule.\<close>

definition rules_entry :: "json \<Rightarrow> json res" where
  "rules_entry v = (case v of
      JObj d \<Rightarrow> Inr (dget_or d ''rules'' (JList [])) | _ \<Rightarrow> Inl (AttributeError ''get''))"

definition append_learned_rule :: "codec \<Rightarrow> json option \<Rightarrow> string \<Rightarrow> json option res" where
  "append_learned_rule C file yaml =
     rbind (rules_entry (case file of None \<Rightarrow> JObj [] | Some v \<Rightarrow> jor v (JObj []))) (\<lambda>existing.
     rbind (rbind (cd_yaml_load C yaml) (\<lambda>v. rules_entry (jor v (JObj [])))) (\<lambda>new.
       case existing of
         JList rs \<Rightarrow> rbind (iter_rules new) (\<lambda>ns. Inr (Some (JObj [(''rules'', JList (rs @ ns))])))
       | _ \<Rightarrow> Inl (AttributeError ''extend'')))"

section \<open>The learning interface\<close>

record learn_state =
  ls_store :: store
  ls_allow :: "json option"
  ls_learned :: "json option"

text \<open>\<open>kind.lower()\<close> selects the branch; the rows of a listing.\<close>

definition skill_item :: "skill_row \<Rightarrow> params" where
  "skill_item r = [(''id'', JStr (sk_id r)), (''name'', JStr (sk_name r)),
     (''description'', JStr (sk_description r)), (''status'', JStr (sk_status r)),
     (''created_at'', JFloat (sk_created r))]"

definition rule_item :: "rule_row \<Rightarrow> params" where
  "rule_item r = [(''id'', JStr (lr_id r)), (''confidence'', JFloat (lr_confidence r)),
     (''hit_count'', JInt (lr_hits r)), (''status'', JStr (lr_status r)),
     (''proposed_at'', JFloat (lr_proposed r)), (''yaml'', JStr (lr_yaml r))]"

definition proposal_item :: "proposal_row \<Rightarrow> params" where
  "proposal_item p = [(''id'', JInt (pr_id p)), (''app_class'', JStr (pr_class p)),
     (''title_pat'', JStr (pr_title p)), (''hit_count'', JInt (pr_hits p)),
     (''last_seen'', JFloat (pr_seen p)), (''status'', JStr (pr_status p))]"

definition status_or :: "string option \<Rightarrow> string \<Rightarrow> string option" where
  "status_or status dflt = (case status of None \<Rightarrow> Some dflt | Some x \<Rightarrow> Some (if x = [] then dflt else x))"

definition list_proposals :: "string \<Rightarrow> string option \<Rightarrow> store \<Rightarrow> params list res" where
  "list_proposals kind0 status s =
     (let kind = lower kind0 in
      if kind = ''skill'' then Inr (map skill_item (list_skills (status_or status ''draft'') 50 s))
      else if kind = ''rule'' then Inr (map rule_item (list_learned_rules (status_or status ''proposed'') s))
      else if kind = ''allowlist'' then
        Inr (map proposal_item (list_allowlist_proposals (status_or status ''pending'') s))
      else Inl (ValueError (''Unknown proposal kind: '' @ repr_str kind)))"

definition decision :: "string \<Rightarrow> string \<Rightarrow> string \<Rightarrow> params" where
  "decision kind pid status =
     [(''ok'', JBool True), (''kind'', JStr kind), (''id'', JStr pid), (''status'', JStr status)]"

definition find_rule :: "string \<Rightarrow> store \<Rightarrow> rule_row res" where
  "find_rule pid s = (case List.find (\<lambda>r. lr_id r = pid) (list_learned_rules None s) of
      None \<Rightarrow> Inl (KeyError (''rule '' @ repr_str pid @ '' not found'')) | Some r \<Rightarrow> Inr r)"

definition find_proposal :: "string \<Rightarrow> store \<Rightarrow> proposal_row res" where
  "find_proposal pid s =
     (case List.find (\<lambda>p. int_str (pr_id p) = pid) (list_allowlist_proposals None s) of
        None \<Rightarrow> Inl (KeyError (''allowlist proposal '' @ repr_str pid @ '' not found'')) | Some p \<Rightarrow> Inr p)"

definition find_skill :: "string \<Rightarrow> store \<Rightarrow> skill_row res" where
  "find_skill pid s = (case List.find (\<lambda>r. sk_id r = pid) (list_skills None 50 s) of
      None \<Rightarrow> Inl (KeyError (''skill '' @ repr_str pid @ '' not found'')) | Some r \<Rightarrow> Inr r)"

definition approve :: "codec \<Rightarrow> real \<Rightarrow> string \<Rightarrow> string \<Rightarrow> learn_state \<Rightarrow> params res \<times> learn_state" where
  "approve C now kind0 pid L =
     (let kind = lower kind0; s = ls_store L in
      if kind = ''skill'' then
        (Inr (decision kind pid ''approved''), L\<lparr>ls_store := update_skill_status pid ''approved'' s\<rparr>)
      else if kind = ''rule'' then
        (case rbind (find_rule pid s) (\<lambda>r. append_learned_rule C (ls_learned L) (lr_yaml r)) of
           Inl e \<Rightarrow> (Inl e, L)
         | Inr file \<Rightarrow>
             (Inr (decision kind pid ''approved''),
              L\<lparr>ls_learned := file, ls_store := update_learned_rule_status now pid ''approved'' s\<rparr>))
      else if kind = ''allowlist'' then
        (case rbind (find_proposal pid s)
                (\<lambda>p. append_allowlist_entry (ls_allow L) (pr_class p) (pr_title p)) of
           Inl e \<Rightarrow> (Inl e, L)
         | Inr file \<Rightarrow>
             (case py_int (JStr pid) of
                Inl e \<Rightarrow> (Inl e, L\<lparr>ls_allow := file\<rparr>)
              | Inr n \<Rightarrow>
                  (Inr (decision kind pid ''approved''),
                   L\<lparr>ls_allow := file, ls_store := update_allowlist_proposal_status n ''approved'' s\<rparr>)))
      else (Inl (ValueError (''Unknown kind: '' @ repr_str kind)), L))"

definition reject :: "real \<Rightarrow> string \<Rightarrow> string \<Rightarrow> store \<Rightarrow> params res \<times> store" where
  "reject now kind0 pid s =
     (let kind = lower kind0; ok = Inr (decision kind pid ''rejected'') in
      if kind = ''skill'' then (ok, update_skill_status pid ''rejected'' s)
      else if kind = ''rule'' then (ok, update_learned_rule_status now pid ''rejected'' s)
      else if kind = ''allowlist'' then
        (case py_int (JStr pid) of
           Inl e \<Rightarrow> (Inl e, s)
         | Inr n \<Rightarrow> (ok, update_allowlist_proposal_status n ''rejected'' s))
      else (Inl (ValueError (''Unknown kind: '' @ repr_str kind)), s))"

definition explain :: "string \<Rightarrow> string \<Rightarrow> store \<Rightarrow> params res" where
  "explain kind0 pid s =
     (let kind = lower kind0 in
      if kind = ''skill'' then
        rbind (find_skill pid s) (\<lambda>r. Inr
          [(''kind'', JStr kind), (''id'', JStr pid), (''name'', JStr (sk_name r)),
           (''description'', JStr (sk_description r)), (''actions'', JStr (sk_actions r)),
           (''status'', JStr (sk_status r))])
      else if kind = ''rule'' then
        rbind (find_rule pid s) (\<lambda>r. Inr
          [(''kind'', JStr kind), (''id'', JStr pid), (''confidence'', JFloat (lr_confidence r)),
           (''hit_count'', JInt (lr_hits r)), (''yaml'', JStr (lr_yaml r)), (''status'', JStr (lr_status r))])
      else if kind = ''allowlist'' then
        rbind (find_proposal pid s) (\<lambda>p. Inr
          [(''kind'', JStr kind), (''id'', JStr pid), (''app_class'', JStr (pr_class p)),
           (''title_pat'', JStr (pr_title p)), (''hit_count'', JInt (pr_hits p)),
           (''status'', JStr (pr_status p))])
      else Inl (ValueError (''Unknown kind: '' @ repr_str kind)))"

section \<open>Lemmas on the allowlist\<close>

lemma append_allow_file:
  "append_allowlist_entry (allow_file ps) cls title =
     Inr (allow_file (if (cls, title) \<in> set ps then ps else ps @ [(cls, title)]))"
proof -
  have "list_ex (same_entry cls title)
          (map (\<lambda>(c, t). JObj [(''class'', JStr c), (''title'', JStr t)]) ps) \<longleftrightarrow> (cls, title) \<in> set ps"
    by (induction ps) auto
  then show ?thesis
    by (simp add: append_allowlist_entry_def allow_file_def jor_def)
qed

lemma plain_lower: "list_all plain_char p \<Longrightarrow> list_all plain_char (lower p)"
proof -
  have code: "plain_char c \<longleftrightarrow> (of_char c :: nat) \<notin> {42, 63, 91}" for c
    using of_char_eq_iff[of c "CHR ''*''", where 'a = nat] of_char_eq_iff[of c "CHR ''?''", where 'a = nat]
      of_char_eq_iff[of c "CHR ''[''", where 'a = nat]
    by (simp add: plain_char_def)
  have "(of_char (lower_char c) :: nat) = (if 65 \<le> ordc c \<and> ordc c \<le> 90 then ordc c + 32 else ordc c)" for c
    by (simp add: lower_char_def ordc_def)
  then have "plain_char c \<Longrightarrow> plain_char (lower_char c)" for c
    by (auto simp: code ordc_def)
  then show "list_all plain_char p \<Longrightarrow> list_all plain_char (lower p)"
    by (simp add: lower_def list_all_iff)
qed

lemma lower_star: "lower ''*'' = ''*''"
  by (simp add: lower_def lower_char_def ordc_def)

lemma glob_plain: "list_all plain_char p \<Longrightarrow> glob_lang (parse_glob p) p"
  using fnmatch_plain[of p p] by (simp add: fnmatch_def glob_match_iff)

lemma glob_star: "glob_lang (parse_glob ''*'') s"
  using fnmatch_star[of s] by (simp add: fnmatch_def glob_match_iff del: parse_glob.simps)

lemma find_proposal_row:
  assumes "find_proposal pid s = Inr p"
  shows "p \<in> set (db_proposals (st_db s)) \<and> int_str (pr_id p) = pid \<and> py_int (JStr pid) = Inr (pr_id p)"
proof -
  have f: "List.find (\<lambda>p. int_str (pr_id p) = pid) (list_allowlist_proposals None s) = Some p"
    using assms by (simp add: find_proposal_def split: option.splits)
  from find_Some_mem[OF f] have "p \<in> set (list_allowlist_proposals None s)" "int_str (pr_id p) = pid"
    by simp_all
  moreover from this(2) have "py_int (JStr pid) = Inr (pr_id p)"
    using parse_int_int_str[of "pr_id p"] by simp
  ultimately show ?thesis
    by (simp add: list_allowlist_proposals_def order_desc_def)
qed

text \<open>The misses of a session of window checks.\<close>

definition check_windows :: "(json option \<times> window) list \<Rightarrow> misses \<Rightarrow> misses" where
  "check_windows looks m = foldl (\<lambda>m (file, w). snd (is_allowed file w m)) m looks"

lemma check_windows_misses:
  "misses_ok m \<Longrightarrow> misses_ok (check_windows looks m) \<and>
   fst ` set (check_windows looks m) \<subseteq> fst ` set m \<union> (\<lambda>(f, w). (win_class w, win_title w)) ` set looks"
proof (induction looks arbitrary: m)
  case Nil
  then show ?case by (simp add: check_windows_def)
next
  case (Cons a looks)
  obtain f w where a: "a = (f, w)" by fastforce
  have st: "check_windows (a # looks) m = check_windows looks (snd (is_allowed f w m))"
    by (simp add: check_windows_def a)
  note am = is_allowed_misses[of f w m]
  from am Cons.prems have ok: "misses_ok (snd (is_allowed f w m))" by simp
  have sub: "fst ` set (snd (is_allowed f w m)) \<subseteq> insert (win_class w, win_title w) (fst ` set m)"
    using am by simp
  have im: "(\<lambda>(f, w). (win_class w, win_title w)) ` set (a # looks) =
      insert (win_class w, win_title w) ((\<lambda>(f, w). (win_class w, win_title w)) ` set looks)"
    by (simp add: a)
  show ?case unfolding st im using Cons.IH[OF ok] sub by blast
qed

lemma upsert_row_cases:
  "p \<in> set (db_proposals (st_db (upsert_allowlist_proposal now cls title s))) \<Longrightarrow>
   proposal_key p \<in> proposal_key ` set (db_proposals (st_db s)) \<or>
   proposal_key p = (cls, title)"
  by (auto simp: upsert_allowlist_proposal_def upd_db_def sql_update_def proposal_key_def
      split: if_splits)

lemma upsert_all_keys:
  "p \<in> set (db_proposals (st_db (upsert_all ms s))) \<Longrightarrow>
   proposal_key p \<in> proposal_key ` set (db_proposals (st_db s)) \<or> proposal_key p \<in> snd ` set ms"
proof (induction ms arbitrary: s)
  case (Cons a ms)
  obtain now cls title where a: "a = (now, cls, title)" by (cases a)
  have u: "upsert_all (a # ms) s = upsert_all ms (upsert_allowlist_proposal now cls title s)"
    by (simp add: upsert_all_def a)
  let ?s = "upsert_allowlist_proposal now cls title s"
  have "proposal_key p \<in> proposal_key ` set (db_proposals (st_db ?s)) \<or> proposal_key p \<in> snd ` set ms"
    using Cons.IH[of ?s] Cons.prems unfolding u by blast
  moreover have "proposal_key ` set (db_proposals (st_db ?s)) \<subseteq>
      insert (cls, title) (proposal_key ` set (db_proposals (st_db s)))"
    using upsert_row_cases[of _ now cls title s] by blast
  moreover have "snd ` set (a # ms) = insert (cls, title) (snd ` set ms)" by (simp add: a)
  ultimately show ?case by blast
qed (simp add: upsert_all_def)

section \<open>Properties of the allowlist proposals\<close>


definition a_window :: "string \<Rightarrow> window" where
  "a_window cls = \<lparr>win_address = ''0x1'', win_title = ''t'', win_class = cls, win_workspace_id = 1,
     win_at = (0, 0), win_size = (1, 1), win_floating = False, win_hidden = False, win_pid = 1,
     win_monitor = 0\<rparr>"


text \<open>
  The miner proposes only what was refused for want of a rule: after any session of window
  checks, mining empties the counter and every proposal it adds is for the class of a window of
  that session that is not on the always-deny list, with the title pattern \<open>*\<close>.
\<close>

theorem mining_proposes_refused_classes:
  assumes "mine_allowlist clock (check_windows looks []) s = (n, m', s')"
    and "p \<in> set (db_proposals (st_db s'))"
    and "proposal_key p \<notin> proposal_key ` set (db_proposals (st_db s))"
  shows "m' = [] \<and> pr_title p = ''*'' \<and> lower (pr_class p) \<notin> set always_deny \<and>
     (\<exists>(f, w)\<in>set looks. win_class w = pr_class p)"
proof -
  let ?m = "check_windows looks []"
  have ok: "misses_ok ?m" "fst ` set ?m \<subseteq> (\<lambda>(f, w). (win_class w, win_title w)) ` set looks"
    using check_windows_misses[of "[]" looks] by (simp_all add: misses_ok_def)
  have ne: "?m \<noteq> []" and m': "m' = []" and s': "s' = upsert_all
      (map (\<lambda>(n, ((cls, title), hits)). (clock n, cls, ''*'')) (zip [0..<length ?m] ?m)) s"
    using assms by (auto simp: mine_allowlist_def drain_misses_def split: if_splits)
  have "proposal_key p \<in> snd ` set (map (\<lambda>(n, ((cls, title), hits)). (clock n, cls, ''*''))
      (zip [0..<length ?m] ?m))"
    using upsert_all_keys[of p _ s] assms(2,3) unfolding s' by blast
  then obtain n0 cls title hits where z: "(n0, ((cls, title), hits)) \<in> set (zip [0..<length ?m] ?m)"
    and k: "proposal_key p = (cls, ''*'')" by auto
  from z have "((cls, title), hits) \<in> set ?m" by (rule set_zip_rightD)
  then have "(cls, title) \<in> fst ` set ?m" by force
  then have "lower cls \<notin> set always_deny" "\<exists>(f, w)\<in>set looks. win_class w = cls"
    using ok by (fastforce simp: misses_ok_def)+
  with k m' show ?thesis by (simp add: proposal_key_def)
qed

theorem mining_proposes_refused_classes_witness:
  "\<exists>n s' p. mine_allowlist (\<lambda>n. 0) (check_windows [(None, a_window ''foot'')] []) empty_store = (n, [], s') \<and>
     p \<in> set (db_proposals (st_db s')) \<and> pr_class p = ''foot'' \<and> pr_title p = ''*''"
proof -
  let ?r = "mine_allowlist (\<lambda>n. 0) (check_windows [(None, a_window ''foot'')] []) empty_store"
  obtain n m' s' where r: "?r = (n, m', s')" by (cases ?r)
  have m: "check_windows [(None, a_window ''foot'')] [] = [((''foot'', ''t''), 1)]" by code_simp
  let ?p = "\<lparr>pr_id = 1, pr_class = ''foot'', pr_title = ''*'', pr_hits = 1, pr_seen = 0, pr_status = ''pending''\<rparr>"
  have "?p \<in> set (db_proposals (st_db s'))"
    using r unfolding m
    by (auto simp: mine_allowlist_def drain_misses_def upsert_all_def upsert_allowlist_proposal_def
        upd_db_def empty_store_def empty_db_def)
  moreover have "proposal_key ?p \<notin> proposal_key ` set (db_proposals (st_db empty_store))"
    by (simp add: empty_store_def empty_db_def)
  ultimately show ?thesis
    using mining_proposes_refused_classes[OF r] r by (intro exI[of _ n] exI[of _ s'] exI[of _ ?p]) auto
qed

section \<open>Lemmas on the rule miner\<close>

lemma map_of_entry:
  assumes "distinct (map fst t)" and "map_of t k = Some v"
  shows "e \<in> set t \<and> fst e = k \<longleftrightarrow> e = (k, v)"
proof
  assume a: "e \<in> set t \<and> fst e = k"
  then have "(k, snd e) \<in> set t" by (metis prod.collapse)
  then have "map_of t k = Some (snd e)" by (rule map_of_is_SomeI[OF assms(1)])
  with assms(2) a show "e = (k, v)" by (cases e) simp
qed (use assms(2) in \<open>auto dest: map_of_SomeD\<close>)

lemma map_of_tally_add:
  "map_of (tally_add k i t) k' =
     (if k' = k then Some (case map_of t k of None \<Rightarrow> (1, [i]) | Some (n, ids) \<Rightarrow> (n + 1, ids @ [i]))
      else map_of t k')"
  by (induction k i t rule: tally_add.induct) auto

lemma tally_add_keys:
  "fst ` set (tally_add k i t) = insert k (fst ` set t)"
  "distinct (map fst t) \<Longrightarrow> distinct (map fst (tally_add k i t))"
  by (induction k i t rule: tally_add.induct) (auto simp: image_iff)

definition tally_count :: "tally \<Rightarrow> string \<times> string \<Rightarrow> nat" where
  "tally_count t k = (case map_of t k of None \<Rightarrow> 0 | Some (n, ids) \<Rightarrow> n)"

lemma tally_runs_count:
  "tally_count (tally_runs dumps d rows t) k =
     tally_count t k + length (filter (\<lambda>row. mine_key dumps d row = Some k) rows)"
proof (induction rows arbitrary: t)
  case (Cons row rows)
  show ?case
  proof (cases "mine_key dumps d row")
    case (Some k0)
    have "tally_count (tally_add k0 (fst row) t) k = tally_count t k + (if k0 = k then 1 else 0)"
      by (auto simp: tally_count_def map_of_tally_add split: option.splits)
    with Some Cons.IH[of "tally_add k0 (fst row) t"] show ?thesis by simp
  qed (use Cons.IH[of t] in simp)
qed simp

lemma tally_runs_keys:
  "distinct (map fst t) \<Longrightarrow> distinct (map fst (tally_runs dumps d rows t)) \<and>
   fst ` set (tally_runs dumps d rows t) \<subseteq> fst ` set t \<union> {k. \<exists>row\<in>set rows. mine_key dumps d row = Some k}"
proof (induction rows arbitrary: t)
  case (Cons row rows)
  show ?case
  proof (cases "mine_key dumps d row")
    case (Some k0)
    with Cons.IH[of "tally_add k0 (fst row) t"] tally_add_keys[where k = k0 and i = "fst row" and t = t] Cons.prems
    show ?thesis by auto
  qed (use Cons.IH[of t] Cons.prems in auto)
qed simp

lemma insert_learned_rule_rows:
  "\<exists>new. db_rules (st_db (insert_learned_rule now i y c src s)) = db_rules (st_db s) @ new \<and>
     (\<forall>r\<in>set new. lr_status r = ''proposed'') \<and>
     lr_id ` set (db_rules (st_db s) @ new) = insert i (lr_id ` set (db_rules (st_db s)))"
  by (auto simp: insert_learned_rule_def upd_db_def sql_insert_ignore_def)

lemma propose_rules_ok:
  assumes "\<forall>e\<in>set t. \<exists>p. preview_of C (fst e) = Inr p"
  shows "\<exists>s' new. propose_rules C now t n s =
        (Inr (n + length (filter (\<lambda>e. hit_threshold \<le> fst (snd e)) t)), s') \<and>
      db_rules (st_db s') = db_rules (st_db s) @ new \<and> (\<forall>r\<in>set new. lr_status r = ''proposed'') \<and>
      lr_id ` set (db_rules (st_db s')) = lr_id ` set (db_rules (st_db s)) \<union>
        rule_id_of C ` {k. \<exists>e\<in>set t. fst e = k \<and> hit_threshold \<le> fst (snd e)}"
  using assms
proof (induction t arbitrary: n s)
  case (Cons e t)
  obtain k c ids where e: "e = (k, c, ids)" by (cases e)
  show ?case
  proof (cases "c < hit_threshold")
    case True
    with Cons.IH[of n s] Cons.prems show ?thesis by (fastforce simp: e)
  next
    case False
    obtain p where p: "preview_of C k = Inr p" using Cons.prems by (auto simp: e)
    let ?s = "insert_learned_rule now (rule_id_of C k)
        (cd_yaml_dump C (JObj [(''rules'', JList [mined_rule (fst k) p])]))
        (min 1 (of_nat c / 10)) (cd_dumps C (JList (map JStr (take 5 ids)))) s"
    have st: "propose_rules C now (e # t) n s = propose_rules C now t (n + 1) ?s"
      using False p by (simp add: e)
    obtain new1 where new1: "db_rules (st_db ?s) = db_rules (st_db s) @ new1"
      "\<forall>r\<in>set new1. lr_status r = ''proposed''"
      "lr_id ` set (db_rules (st_db s) @ new1) = insert (rule_id_of C k) (lr_id ` set (db_rules (st_db s)))"
      using insert_learned_rule_rows by blast
    obtain s' new where IH: "propose_rules C now t (n + 1) ?s =
        (Inr (n + 1 + length (filter (\<lambda>e. hit_threshold \<le> fst (snd e)) t)), s')"
      "db_rules (st_db s') = db_rules (st_db ?s) @ new" "\<forall>r\<in>set new. lr_status r = ''proposed''"
      "lr_id ` set (db_rules (st_db s')) = lr_id ` set (db_rules (st_db ?s)) \<union>
        rule_id_of C ` {k. \<exists>e\<in>set t. fst e = k \<and> hit_threshold \<le> fst (snd e)}"
      using Cons.IH[of "n + 1" ?s] Cons.prems by auto
    have ids: "lr_id ` set (db_rules (st_db s')) = insert (rule_id_of C k) (lr_id ` set (db_rules (st_db s))) \<union>
        rule_id_of C ` {k. \<exists>e\<in>set t. fst e = k \<and> hit_threshold \<le> fst (snd e)}"
      using IH(4) new1(1,3) by simp
    have keys: "{k'. \<exists>e'\<in>set (e # t). fst e' = k' \<and> hit_threshold \<le> fst (snd e')} =
        insert k {k. \<exists>e\<in>set t. fst e = k \<and> hit_threshold \<le> fst (snd e)}"
      using False by (auto simp: e)
    show ?thesis
      unfolding st keys
      by (intro exI[of _ s'] exI[of _ "new1 @ new"])
         (use IH(1-3) new1(1,2) ids False in \<open>auto simp: e\<close>)
  qed
qed simp

section \<open>Properties of the rule miner and of approved rules\<close>

text \<open>What the miner needs of the codec: the action lists of this database survive it.\<close>

definition codec_ok :: "codec \<Rightarrow> db \<Rightarrow> bool" where
  "codec_ok C d \<longleftrightarrow> (\<forall>i. run_action_kinds i d = [] \<or>
     (\<exists>ks. run_action_kinds i d = map JStr ks \<and>
        cd_loads C (cd_dumps C (JList (map JStr ks))) = Inr (JList (map JStr ks))))"

lemma rmap_item_str [simp]: "rmap item_str (map JStr ks) = Inr ks"
  by (induction ks) auto

lemma mine_key_preview:
  assumes "codec_ok C d" and "mine_key (cd_dumps C) d row = Some k"
  shows "\<exists>p. preview_of C k = Inr p"
proof -
  from assms(2) have ne: "run_action_kinds (fst row) d \<noteq> []"
    and k: "snd k = cd_dumps C (JList (run_action_kinds (fst row) d))"
    by (auto simp: mine_key_def Let_def split: if_splits)
  obtain ks where "run_action_kinds (fst row) d = map JStr ks"
    "cd_loads C (cd_dumps C (JList (map JStr ks))) = Inr (JList (map JStr ks))"
    using assms(1) ne unfolding codec_ok_def by blast
  then show ?thesis
    by (simp add: preview_of_def k kinds_of_json_def join_json_def take_map)
qed

text \<open>
  Rules are proposed exactly for what was repeated: mining adds a rule for each pair of a
  window class and an action sequence that at least three successful runs of the window share,
  and for nothing else; the number it returns counts those pairs, every row it adds is a
  proposal, and rows that are there already, decided ones included, stay as they are.
\<close>

theorem rules_are_mined_from_repetition:
  assumes "codec_ok C (st_db s)" and "mine_rules C now days s = (n, s')"
    and "often = {k. 3 \<le> length (filter (\<lambda>row. mine_key (cd_dumps C) (st_db s) row = Some k)
                    (mined_runs (now - of_int (days * 86400)) (st_db s)))}"
  shows "n = card often \<and>
     lr_id ` set (db_rules (st_db s')) = lr_id ` set (db_rules (st_db s)) \<union> rule_id_of C ` often \<and>
     (\<exists>new. db_rules (st_db s') = db_rules (st_db s) @ new \<and> (\<forall>r\<in>set new. lr_status r = ''proposed''))"
proof -
  let ?rows = "mined_runs (now - of_int (days * 86400)) (st_db s)"
  let ?t = "tally_runs (cd_dumps C) (st_db s) ?rows []"
  let ?hit = "\<lambda>e. hit_threshold \<le> fst (snd e)"
  have keys: "distinct (map fst ?t)" "fst ` set ?t \<subseteq> {k. \<exists>row\<in>set ?rows. mine_key (cd_dumps C) (st_db s) row = Some k}"
    using tally_runs_keys[of "[]" "cd_dumps C" "st_db s" ?rows] by auto
  have prev: "\<forall>e\<in>set ?t. \<exists>p. preview_of C (fst e) = Inr p"
    using keys(2) mine_key_preview[OF assms(1)] by blast
  have cnt: "tally_count ?t k = length (filter (\<lambda>row. mine_key (cd_dumps C) (st_db s) row = Some k) ?rows)" for k
    using tally_runs_count[of "cd_dumps C" "st_db s" ?rows "[]" k] by (simp add: tally_count_def)
  have often: "often = {k. \<exists>e\<in>set ?t. fst e = k \<and> ?hit e}"
  proof -
    have "3 \<le> tally_count ?t k \<longleftrightarrow> (\<exists>e\<in>set ?t. fst e = k \<and> ?hit e)" for k
    proof (cases "map_of ?t k")
      case None
      then have "\<not> (\<exists>e\<in>set ?t. fst e = k)" by (auto simp: map_of_eq_None_iff)
      then show ?thesis using None by (auto simp: tally_count_def)
    next
      case (Some v)
      have e: "e \<in> set ?t \<and> fst e = k \<longleftrightarrow> e = (k, v)" for e
        by (rule map_of_entry[OF keys(1) Some])
      have "(\<exists>e\<in>set ?t. fst e = k \<and> ?hit e) \<longleftrightarrow> (\<exists>e. (e \<in> set ?t \<and> fst e = k) \<and> ?hit e)" by blast
      also have "\<dots> \<longleftrightarrow> ?hit (k, v)" by (simp only: e simp_thms)
      finally have "(\<exists>e\<in>set ?t. fst e = k \<and> ?hit e) \<longleftrightarrow> ?hit (k, v)" .
      then show ?thesis using Some by (cases v) (simp add: tally_count_def hit_threshold_def)
    qed
    then show ?thesis unfolding assms(3) cnt[symmetric] by (rule Collect_cong)
  qed
  obtain s1 new where p: "propose_rules C now ?t 0 s = (Inr (0 + length (filter ?hit ?t)), s1)"
    "db_rules (st_db s1) = db_rules (st_db s) @ new" "\<forall>r\<in>set new. lr_status r = ''proposed''"
    "lr_id ` set (db_rules (st_db s1)) = lr_id ` set (db_rules (st_db s)) \<union>
       rule_id_of C ` {k. \<exists>e\<in>set ?t. fst e = k \<and> ?hit e}"
    using propose_rules_ok[OF prev, of now 0 s] by blast
  have n: "n = length (filter ?hit ?t)" and s': "s' = s1"
    using assms(2) p(1) by (simp_all add: mine_rules_def)
  have "distinct (map fst (filter ?hit ?t))" using keys(1) by (rule distinct_map_filter)
  from distinct_card[OF this] have "length (filter ?hit ?t) = card (fst ` set (filter ?hit ?t))"
    by (simp only: set_map length_map)
  moreover have "fst ` set (filter ?hit ?t) = often" unfolding often set_filter by blast
  ultimately have "n = card often" using n by simp
  moreover have "lr_id ` set (db_rules (st_db s1)) =
      lr_id ` set (db_rules (st_db s)) \<union> rule_id_of C ` often"
    using p(4) by (simp only: often)
  ultimately show ?thesis using p(2,3) unfolding s' by blast
qed

definition repeated_db :: db where
  "repeated_db = empty_db\<lparr>
     db_runs := map (\<lambda>i. \<lparr>rr_id = i, rr_kind = ''run'', rr_task = ''t'', rr_brain = ''b'',
       rr_status = ''completed'', rr_started = 0, rr_ended = Some 1, rr_error = None,
       rr_iterations = None, rr_actions = None, rr_duration = None\<rparr>) [''r1'', ''r2'', ''r3''],
     db_outcomes := map (\<lambda>i. \<lparr>oc_run = i, oc_outcome = ''success'', oc_score = 1, oc_source = ''derived'',
       oc_rationale = None, oc_decided = 1\<rparr>) [''r1'', ''r2'', ''r3''],
     db_events := map (\<lambda>i. \<lparr>er_run = i, er_seq = 0, er_ts = 0, er_kind = ''action'',
       er_payload = [(''kind'', JStr ''click'')]\<rparr>) [''r1'', ''r2'', ''r3'']\<rparr>"

definition toy_codec :: codec where
  "toy_codec = \<lparr>cd_dumps = (\<lambda>v. ''k''), cd_loads = (\<lambda>s. Inr (JList [JStr ''click''])),
     cd_yaml_dump = (\<lambda>v. []), cd_yaml_load = (\<lambda>s. Inr JNull), cd_md5 = (\<lambda>s. s)\<rparr>"

theorem rules_are_mined_from_repetition_witness:
  "\<exists>n s'. mine_rules toy_codec 10 7 (empty_store\<lparr>st_db := repeated_db\<rparr>) = (n, s') \<and>
     ''any|k'' \<in> lr_id ` set (db_rules (st_db s'))"
proof -
  let ?s = "empty_store\<lparr>st_db := repeated_db\<rparr>"
  let ?rows = "mined_runs (10 - of_int (7 * 86400)) (st_db ?s)"
  obtain n s' where r: "mine_rules toy_codec 10 7 ?s = (n, s')" by fastforce
  have k: "run_action_kinds i repeated_db = (if i \<in> {''r1'', ''r2'', ''r3''} then [JStr ''click''] else [])" for i
    by (auto simp: run_action_kinds_def repeated_db_def empty_db_def)
  have ok: "codec_ok toy_codec (st_db ?s)"
    by (auto simp: codec_ok_def k toy_codec_def intro!: exI[of _ "[''click'']"])
  have "?rows = [(''r1'', None), (''r2'', None), (''r3'', None)]"
    by (simp add: mined_runs_def repeated_db_def empty_db_def order_desc_def)
  then have "3 \<le> length (filter (\<lambda>row. mine_key (cd_dumps toy_codec) (st_db ?s) row = Some (''any'', ''k'')) ?rows)"
    by (simp add: mine_key_def k toy_codec_def context_key_def)
  then have "rule_id_of toy_codec (''any'', ''k'') \<in> lr_id ` set (db_rules (st_db s'))"
    using rules_are_mined_from_repetition[OF ok r refl] by blast
  with r show ?thesis by (auto simp: rule_id_of_def toy_codec_def)
qed

lemma find_fresh: "\<forall>x\<in>set xs. \<not> P x \<Longrightarrow> P y \<Longrightarrow> List.find P (xs @ [y]) = Some y"
  by (induction xs) auto

text \<open>
  An approved rule comes into force: after the user approves a proposed rule, loading the
  rule files gives a list in which the approved rule is loaded as parsed, provided no rule of
  the user's file or approved earlier has the same event and match.
\<close>

theorem approved_rule_is_loaded:
  assumes "find_rule pid (ls_store L) = Inr row"
    and "cd_yaml_load C (lr_yaml row) = Inr (JObj [(''rules'', JList [JObj raw])])"
    and "ls_learned L = Some (JObj [(''rules'', JList (map JObj old))])"
    and "rule_key flt raw \<notin> rule_key flt ` set (own @ old)"
    and "rule_from_dict validate (str_json flt) raw = Inr r"
  shows "\<exists>L'. approve C now ''rule'' pid L = (Inr (decision ''rule'' pid ''approved''), L') \<and>
     r \<in> set (fst (load_watch_rules validate flt (rules_doc (map JObj own)) (map_option Inr (ls_learned L'))))"
proof -
  let ?f = "Some (JObj [(''rules'', JList (map JObj (old @ [raw])))])"
  let ?L = "L\<lparr>ls_learned := ?f, ls_store := update_learned_rule_status now pid ''approved'' (ls_store L)\<rparr>"
  have low: "lower ''rule'' = ''rule''" by code_simp
  have "append_learned_rule C (ls_learned L) (lr_yaml row) = Inr ?f"
    by (simp add: append_learned_rule_def assms(2,3) rules_entry_def jor_def)
  then have a: "approve C now ''rule'' pid L = (Inr (decision ''rule'' pid ''approved''), ?L)"
    unfolding approve_def low Let_def by (simp add: assms(1))
  obtain ds where ds: "dedup_rules flt [] (map JObj (own @ old @ [raw])) = Inr ds"
    "\<forall>k. List.find (\<lambda>d. rule_key flt d = k) ds = List.find (\<lambda>d. rule_key flt d = k) (own @ old @ [raw])"
    using dedup_rules_objects[of flt "[]" "own @ old @ [raw]"] by auto
  have "List.find (\<lambda>d. rule_key flt d = rule_key flt raw) ((own @ old) @ [raw]) = Some raw"
  proof (rule find_fresh)
    show "\<forall>x\<in>set (own @ old). rule_key flt x \<noteq> rule_key flt raw"
      using assms(4) by (metis image_eqI)
  qed simp
  then have "List.find (\<lambda>d. rule_key flt d = rule_key flt raw) ds = Some raw"
    using ds(2) by simp
  then have "raw \<in> set ds" by (auto dest: find_Some_mem)
  moreover have "r \<in> set (parse_rules validate flt rs)" if "raw \<in> set rs" for rs
    using that assms(5) by (induction rs) (auto split: sum.split)
  moreover have "fst (load_watch_rules validate flt (rules_doc (map JObj own)) (map_option Inr ?f)) =
      parse_rules validate flt ds"
    using ds(1) by (simp add: load_watch_rules_def rules_doc_def Let_def)
  ultimately show ?thesis using a by (intro exI[of _ ?L]) simp
qed

text \<open>
  Approving a skill that does not exist is reported as done: nothing in the database
  changes and the answer is the one of an approval.
\<close>

theorem unknown_skill_is_approved:
  assumes "pid \<notin> sk_id ` set (db_skills (st_db (ls_store L)))"
  shows "approve C now ''skill'' pid L = (Inr (decision ''skill'' pid ''approved''), L)"
proof -
  have low: "lower ''skill'' = ''skill''" by code_simp
  have "sql_update (\<lambda>r. sk_id r = pid) f rows = rows" if "pid \<notin> sk_id ` set rows" for f and rows :: "skill_row list"
    using that by (induction rows) (auto simp: sql_update_def)
  with assms show ?thesis
    unfolding approve_def low Let_def by (simp add: update_skill_status_def upd_db_def)
qed

theorem approved_rule_is_loaded_witness:
  "\<exists>L'. approve (toy_codec\<lparr>cd_yaml_load := (\<lambda>s. Inr (JObj [(''rules'', JList [JObj [(''on'', JStr ''urgent'')]])]))\<rparr>)
       9 ''rule'' ''i'' \<lparr>ls_store = insert_learned_rule 2 ''i'' ''y'' 1 ''[]'' empty_store, ls_allow = None,
         ls_learned = Some (JObj [(''rules'', JList (map JObj []))])\<rparr> =
       (Inr (decision ''rule'' ''i'' ''approved''), L') \<and>
     \<lparr>rule_on = EV_urgent, rule_match = \<lparr>em_class = None, em_title = None\<rparr>, rule_actions = []\<rparr>
       \<in> set (fst (load_watch_rules (\<lambda>v. Inr \<lparr>em_class = None, em_title = None\<rparr>) (\<lambda>r. [])
            (rules_doc (map JObj [])) (map_option Inr (ls_learned L'))))"
proof (rule approved_rule_is_loaded[where own = "[]" and old = "[]" and raw = "[(''on'', JStr ''urgent'')]"])
  show "find_rule ''i'' (ls_store \<lparr>ls_store = insert_learned_rule 2 ''i'' ''y'' 1 ''[]'' empty_store, ls_allow = None,
         ls_learned = Some (JObj [(''rules'', JList (map JObj []))])\<rparr>) =
      Inr \<lparr>lr_id = ''i'', lr_yaml = ''y'', lr_confidence = 1, lr_hits = 0, lr_sources = ''[]'',
           lr_status = ''proposed'', lr_proposed = 2, lr_decided = None\<rparr>"
    by (simp add: find_rule_def list_learned_rules_def order_desc_def with_status_def
        insert_learned_rule_def upd_db_def sql_insert_ignore_def empty_store_def empty_db_def)
  show "rule_from_dict (\<lambda>v. Inr \<lparr>em_class = None, em_title = None\<rparr>) (str_json (\<lambda>r. []))
      [(''on'', JStr ''urgent'')] =
    Inr \<lparr>rule_on = EV_urgent, rule_match = \<lparr>em_class = None, em_title = None\<rparr>, rule_actions = []\<rparr>"
    by (simp add: rule_from_dict_def enum_lookup_def all_event_kinds_def)
qed simp_all

theorem unknown_skill_is_approved_witness:
  "approve toy_codec 9 ''skill'' ''nope'' \<lparr>ls_store = empty_store, ls_allow = None, ls_learned = None\<rparr> =
     (Inr (decision ''skill'' ''nope'' ''approved''),
      \<lparr>ls_store = empty_store, ls_allow = None, ls_learned = None\<rparr>)"
  by (rule unknown_skill_is_approved) (simp add: empty_store_def empty_db_def)

end
