(* ===== verification/Rpc.thy ===== *)
theory Rpc
  imports Learning
begin

text \<open>
  The state of the daemon and its remote interface: \<open>src/src/agent/daemon/rpc.py\<close> (one handler
  per method, and the dispatch that turns exceptions into error responses) and the periodic work
  of \<open>daemon/main.py\<close> (the kill switch poller, the memory decay, the shutdown).  What a handler
  asks of the outside (the clock, a new uuid, the brain a name selects, the compositor, the file
  system, the embedding model, the YAML and JSON codecs) is in the environment.
\<close>

section \<open>State and environment\<close>

record daemon =
  dm_exec :: executor
  dm_rules :: "rule list"
  dm_rules_file :: "json res option"
  dm_learned :: "json option"
  dm_allow :: "json option"
  dm_stop :: stop_flag
  dm_files :: "(string \<times> nat list) list"
  dm_start :: real

record rpc_env =
  re_now :: real
  re_id :: string
  re_brain :: "string \<Rightarrow> brain res"
  re_clients :: "window list res"
  re_screen :: "nat list res"
  re_tmp :: string
  re_write :: "string \<Rightarrow> unit res"
  re_embed :: "string \<Rightarrow> real list res"
  re_dist :: "real list \<Rightarrow> real list \<Rightarrow> real"
  re_match :: "json \<Rightarrow> event_match res"
  re_flt :: "real \<Rightarrow> string"
  re_codec :: codec
  re_version :: string

definition dm_store :: "daemon \<Rightarrow> store" where
  "dm_store D = ex_store (dm_exec D)"

definition set_store :: "store \<Rightarrow> daemon \<Rightarrow> daemon" where
  "set_store s D = D\<lparr>dm_exec := (dm_exec D)\<lparr>ex_store := s\<rparr>\<rparr>"

section \<open>Parameters\<close>

text \<open>
  A value used as the key of a dictionary: an unhashable one raises, one that is not a string
  is no key.
\<close>

fun key_arg :: "json \<Rightarrow> string option res" where
  "key_arg (JStr s) = Inr (Some s)"
| "key_arg (JList _) = Inl (TypeError ''unhashable type: list'')"
| "key_arg (JObj _) = Inl (TypeError ''unhashable type: dict'')"
| "key_arg _ = Inr None"

text \<open>A value bound to a TEXT column that may not be null, and to one that may.\<close>

fun sql_text :: "(real \<Rightarrow> string) \<Rightarrow> json \<Rightarrow> string res" where
  "sql_text flt (JStr s) = Inr s"
| "sql_text flt (JInt i) = Inr (int_str i)"
| "sql_text flt (JBool b) = Inr (if b then ''1'' else ''0'')"
| "sql_text flt (JFloat r) = Inr (flt r)"
| "sql_text flt JNull = Inl (DatabaseError ''NOT NULL constraint failed'')"
| "sql_text flt _ = Inl (DatabaseError ''type not supported'')"

definition sql_opt_text :: "(real \<Rightarrow> string) \<Rightarrow> json \<Rightarrow> string option res" where
  "sql_opt_text flt v = (if v = JNull then Inr None else rbind (sql_text flt v) (\<lambda>s. Inr (Some s)))"

text \<open>
  A field of a pydantic model declared as \<open>str\<close>; and a value whose method \<open>lower\<close> is called: the
  text, which the operations of learning turn into lower case, or an AttributeError.
\<close>

fun model_str :: "json \<Rightarrow> string res" where
  "model_str (JStr s) = Inr s"
| "model_str _ = Inl (ValueError ''Input should be a valid string'')"

fun lower_arg :: "json \<Rightarrow> string res" where
  "lower_arg (JStr s) = Inr s"
| "lower_arg _ = Inl (AttributeError ''lower'')"

definition opt_float :: "real option \<Rightarrow> json" where
  "opt_float x = (case x of None \<Rightarrow> JNull | Some r \<Rightarrow> JFloat r)"

definition opt_str :: "string option \<Rightarrow> json" where
  "opt_str x = (case x of None \<Rightarrow> JNull | Some s \<Rightarrow> JStr s)"

definition summary_dump :: "'a run_summary_scheme \<Rightarrow> params" where
  "summary_dump r =
     [(''run_id'', JStr (rn_id r)), (''kind'', JStr (rk_value (rn_kind r))), (''task'', JStr (rn_task r)),
      (''brain'', JStr (rn_brain r)), (''status'', JStr (rs_value (rn_status r))),
      (''started_at'', JFloat (rn_started_at r)), (''ended_at'', opt_float (rn_ended_at r)),
      (''error'', opt_str (rn_error r))]"

definition event_dump :: "run_event \<Rightarrow> params" where
  "event_dump e = [(''seq'', JInt (ev_seq e)), (''ts'', JFloat (ev_ts e)), (''kind'', JStr (ev_kind e)),
     (''payload'', JObj (ev_payload e))]"

definition record_dump :: "run_record \<Rightarrow> params" where
  "record_dump r = summary_dump r @ [(''events'', JList (map (\<lambda>e. JObj (event_dump e)) (rn_events r)))]"

section \<open>Handlers\<close>

type_synonym handler = "rpc_env \<Rightarrow> params \<Rightarrow> daemon \<Rightarrow> params res \<times> daemon"

text \<open>\<open>_run_task\<close> and \<open>_plan_task\<close>.\<close>

definition start_run :: "run_kind \<Rightarrow> handler" where
  "start_run kind E p D =
     (let task = dget_or p ''task'' (JStr []); name = dget_or p ''brain'' (JStr ''auto'')
      in if \<not> truthy task then (Inl (ValueError ''task must be a non-empty string''), D)
         else case rbind (model_str task) (\<lambda>t. rbind (model_str name) (\<lambda>b. Inr (t, b))) of
                Inl e \<Rightarrow> (Inl e, D)
              | Inr (t, b) \<Rightarrow>
                  (let (r, x) = submit kind t b (re_id E) (re_now E) (re_brain E b) (dm_exec D)
                   in (rbind r (\<lambda>i. Inr [(''run_id'', JStr i)]), D\<lparr>dm_exec := x\<rparr>)))"

definition h_cancel_run :: handler where
  "h_cancel_run E p D =
     (case key_arg (dget_or p ''run_id'' (JStr [])) of
        Inl e \<Rightarrow> (Inl e, D)
      | Inr None \<Rightarrow> (Inr [(''ok'', JBool False)], D)
      | Inr (Some i) \<Rightarrow>
          (let (ok, x) = cancel i (dm_exec D) in (Inr [(''ok'', JBool ok)], D\<lparr>dm_exec := x\<rparr>)))"

definition h_list_runs :: handler where
  "h_list_runs E p D =
     (rbind (py_int (dget_or p ''limit'' (JInt 50))) (\<lambda>n.
      rbind (list_runs n (dm_store D)) (\<lambda>rs.
      Inr [(''runs'', JList (map (\<lambda>r. JObj (summary_dump r)) rs))])), D)"

definition h_get_run :: handler where
  "h_get_run E p D =
     (let v = dget_or p ''run_id'' (JStr []);
          missing = KeyError (''run '' @ repr_json (re_flt E) v @ '' not found'')
      in case key_arg v of
           Inl e \<Rightarrow> (Inl e, D)
         | Inr None \<Rightarrow> (Inl missing, D)
         | Inr (Some i) \<Rightarrow>
             (let (r, s) = get_run i (dm_store D)
              in (rbind r (\<lambda>rec. case rec of
                     None \<Rightarrow> Inl missing
                   | Some x \<Rightarrow> Inr [(''run'', JObj (record_dump x))]), set_store s D)))"

definition h_list_windows :: handler where
  "h_list_windows E p D =
     (rbind (re_clients E) (\<lambda>ws. Inr [(''windows'', JList (map (\<lambda>w. JObj (window_dump w)) ws))]), D)"

definition h_screenshot :: handler where
  "h_screenshot E p D =
     (let path = jor (dget_or p ''path'' JNull) (JStr (re_tmp E))
      in case rbind (re_screen E) (\<lambda>png.
              rbind (case path of JStr s \<Rightarrow> Inr s | _ \<Rightarrow> Inl (TypeError ''expected str or os.PathLike''))
                (\<lambda>s. rbind (re_write E s) (\<lambda>_. Inr (s, png)))) of
           Inl e \<Rightarrow> (Inl e, D)
         | Inr (s, png) \<Rightarrow> (Inr [(''path'', path)], D\<lparr>dm_files := AList.update s png (dm_files D)\<rparr>))"

definition reload :: "rpc_env \<Rightarrow> daemon \<Rightarrow> daemon" where
  "reload E D =
     (let (rules, file) = load_watch_rules (re_match E) (re_flt E) (dm_rules_file D)
                            (map_option Inr (dm_learned D))
      in D\<lparr>dm_rules := rules, dm_rules_file := file\<rparr>)"

definition h_reload_rules :: handler where
  "h_reload_rules E p D =
     (let D' = reload E D in (Inr [(''rules_count'', JInt (int (length (dm_rules D'))))], D'))"

definition h_arm_killswitch :: handler where
  "h_arm_killswitch E p D = (Inr [(''ok'', JBool True)], D\<lparr>dm_stop := arm (dm_stop D)\<rparr>)"

definition feedback_value :: "json \<Rightarrow> string \<times> real" where
  "feedback_value v = (case v of JStr s \<Rightarrow> feedback_to_outcome s | _ \<Rightarrow> (''unknown'', 0))"

definition h_record_feedback :: handler where
  "h_record_feedback E p D =
     (let i = dget_or p ''run_id'' (JStr []); kind = dget_or p ''kind'' (JStr []);
          comment = dget_or p ''comment'' JNull; flt = re_flt E
      in if \<not> truthy i \<or> \<not> truthy kind then (Inl (ValueError ''run_id and kind are required''), D)
         else case rbind (sql_text flt i) (\<lambda>rid. rbind (sql_text flt kind) (\<lambda>k.
                   rbind (sql_opt_text flt comment) (\<lambda>c. Inr (rid, k, c)))) of
                Inl e \<Rightarrow> (Inl e, D)
              | Inr (rid, k, c) \<Rightarrow>
                  (let (n, s1) = insert_feedback (re_now E) rid k c (dm_store D);
                       (outcome, score) = feedback_value kind;
                       s2 = (if outcome \<noteq> ''unknown''
                             then upsert_run_outcome (re_now E) rid outcome score ''explicit'' c s1 else s1)
                   in (Inr [(''feedback_id'', JInt n), (''outcome'', JStr outcome)], set_store s2 D)))"

definition counts_json :: "string \<Rightarrow> string \<Rightarrow> (string \<times> nat) list \<Rightarrow> json" where
  "counts_json key count kvs = JList (map (\<lambda>(k, n). JObj [(key, JStr k), (count, JInt (int n))]) kvs)"

definition h_runs_analytics :: handler where
  "h_runs_analytics E p D =
     (rbind (py_int (dget_or p ''days'' (JInt 7))) (\<lambda>days.
      let a = list_analytics (re_now E) days (dm_store D)
      in Inr [(''days'', JInt days), (''total_runs'', JInt (int (an_total a))),
              (''outcomes'', JObj (map (\<lambda>(k, n). (k, JInt (int n))) (an_outcomes a))),
              (''top_failure_tasks'', counts_json ''task'' ''count'' (an_failures a))]), D)"

definition h_learning_list :: handler where
  "h_learning_list E p D =
     (rbind (lower_arg (dget_or p ''kind'' (JStr ''skill''))) (\<lambda>kind.
      rbind (case sql_opt_text (re_flt E) (jor (dget_or p ''status'' JNull) JNull) of
               Inr status \<Rightarrow> list_proposals kind status (dm_store D)
             | Inl e \<Rightarrow> rbind (list_proposals kind None (dm_store D)) (\<lambda>_. Inl e)) (\<lambda>items.
      Inr [(''items'', JList (map JObj items))])), D)"

definition learn_of :: "daemon \<Rightarrow> learn_state" where
  "learn_of D = \<lparr>ls_store = dm_store D, ls_allow = dm_allow D, ls_learned = dm_learned D\<rparr>"

definition set_learn :: "learn_state \<Rightarrow> daemon \<Rightarrow> daemon" where
  "set_learn L D = (set_store (ls_store L) D)\<lparr>dm_allow := ls_allow L, dm_learned := ls_learned L\<rparr>"

text \<open>The parameters \<open>kind\<close> and \<open>id\<close> of a decision; the id is turned into text.\<close>

definition decision_args :: "rpc_env \<Rightarrow> params \<Rightarrow> (string \<times> string) res" where
  "decision_args E p =
     (let kind = dget_or p ''kind'' (JStr []); pid = dget_or p ''id'' (JStr [])
      in if \<not> truthy kind \<or> \<not> truthy pid then Inl (ValueError ''kind and id are required'')
         else rbind (lower_arg kind) (\<lambda>k. Inr (k, str_json (re_flt E) pid)))"

definition h_learning_approve :: handler where
  "h_learning_approve E p D =
     (case decision_args E p of
        Inl e \<Rightarrow> (Inl e, D)
      | Inr (kind, pid) \<Rightarrow>
          (let (r, L) = approve (re_codec E) (re_now E) kind pid (learn_of D); D1 = set_learn L D
           in case r of
                Inl e \<Rightarrow> (Inl e, D1)
              | Inr res \<Rightarrow> (Inr res, if kind = ''rule'' then reload E D1 else D1)))"

definition h_learning_reject :: handler where
  "h_learning_reject E p D =
     (case decision_args E p of
        Inl e \<Rightarrow> (Inl e, D)
      | Inr (kind, pid) \<Rightarrow>
          (let (r, s) = reject (re_now E) kind pid (dm_store D) in (r, set_store s D)))"

definition h_learning_explain :: handler where
  "h_learning_explain E p D =
     (rbind (decision_args E p) (\<lambda>(kind, pid). explain kind pid (dm_store D)), D)"

definition h_memory_search :: handler where
  "h_memory_search E p D =
     (let query = dget_or p ''query'' (JStr [])
      in case py_int (dget_or p ''top_k'' (JInt 5)) of
           Inl e \<Rightarrow> (Inl e, D)
         | Inr k \<Rightarrow>
             if \<not> truthy query then (Inl (ValueError ''query is required''), D)
             else
               (let emb = (\<lambda>t. case query of JStr q \<Rightarrow> re_embed E q
                               | _ \<Rightarrow> Inl (TypeError ''expected a string''));
                    (eps, s) = recall emb (re_dist E) (re_now E) [] k False (dm_store D)
                in (Inr [(''episodes'', JList (map (\<lambda>e. JObj
                       [(''id'', JStr (epi_run e)), (''task'', JStr (epi_task e)),
                        (''outcome'', JStr (epi_outcome e)), (''summary'', JStr (epi_summary e)),
                        (''context_class'', opt_str (epi_context e)),
                        (''score'', JFloat (1 - (case epi_distance e of None \<Rightarrow> 0 | Some d \<Rightarrow> d)))]) eps))],
                    set_store s D)))"

definition h_memory_get :: handler where
  "h_memory_get E p D =
     (let v = dget_or p ''episode_id'' (JStr [])
      in if \<not> truthy v then (Inl (ValueError ''episode_id is required''), D)
         else (rbind (sql_text (re_flt E) v) (\<lambda>i. Inr [(''episode'',
                case get_episode i (dm_store D) of
                  None \<Rightarrow> JNull
                | Some e \<Rightarrow> JObj
                    [(''run_id'', JStr (ep_run e)), (''task'', JStr (ep_task e)),
                     (''outcome'', JStr (ep_outcome e)), (''summary'', JStr (ep_summary e)),
                     (''context_class'', opt_str (ep_context e)), (''actions_json'', JStr (ep_actions e)),
                     (''created_at'', JFloat (ep_created e))])]), D))"

definition h_daemon_status :: handler where
  "h_daemon_status E p D =
     (Inr [(''version'', JStr (re_version E)), (''uptime_s'', JFloat (re_now E - dm_start D)),
           (''active_runs'', JList (map JStr (active_run_ids (dm_exec D)))),
           (''rules_count'', JInt (int (length (dm_rules D))))], D)"

section \<open>Dispatch\<close>

definition dispatch_table :: "(rpc_method \<times> handler) list" where
  "dispatch_table =
     [(M_plan_task, start_run RK_plan), (M_run_task, start_run RK_run), (M_cancel_run, h_cancel_run),
      (M_list_runs, h_list_runs), (M_get_run, h_get_run), (M_list_windows, h_list_windows),
      (M_screenshot, h_screenshot), (M_reload_rules, h_reload_rules),
      (M_arm_killswitch, h_arm_killswitch), (M_daemon_status, h_daemon_status),
      (M_record_feedback, h_record_feedback), (M_runs_analytics, h_runs_analytics),
      (M_learning_list, h_learning_list), (M_learning_approve, h_learning_approve),
      (M_learning_reject, h_learning_reject), (M_learning_explain, h_learning_explain),
      (M_memory_search, h_memory_search), (M_memory_get, h_memory_get)]"

definition error_code :: "py_exc \<Rightarrow> string" where
  "error_code e = (if is_KeyError e then ''not_found'' else if is_ValueError e then ''invalid_params''
     else ''internal_error'')"

text \<open>A cancellation passes through, every other exception becomes an error response.\<close>

definition dispatch :: "rpc_env \<Rightarrow> string \<Rightarrow> rpc_method \<Rightarrow> params \<Rightarrow> daemon \<Rightarrow> frame res \<times> daemon" where
  "dispatch E i m p D = (case map_of dispatch_table m of
      None \<Rightarrow> (Inr (make_error_response i (''unknown method: '' @ method_value m) ''not_implemented''), D)
    | Some h \<Rightarrow>
        (let (r, D') = h E p D
         in case r of
              Inr result \<Rightarrow> (Inr (make_ok_response i result), D')
            | Inl e \<Rightarrow>
                if is_Exception e then (Inr (make_error_response i (exc_str e) (error_code e)), D')
                else (Inl e, D')))"

section \<open>The daemon's own loops\<close>

text \<open>One round of the kill switch poller.\<close>

definition cancel_all :: "executor \<Rightarrow> executor" where
  "cancel_all x = foldl (\<lambda>x i. snd (cancel i x)) x (active_run_ids x)"

definition poll_killswitch :: "daemon \<Rightarrow> daemon" where
  "poll_killswitch D =
     (if is_stopped (dm_stop D)
      then D\<lparr>dm_exec := cancel_all (dm_exec D), dm_stop := disarm (dm_stop D)\<rparr> else D)"

text \<open>One round of the memory decay: it runs only when it is enabled.\<close>

definition decay_memory :: "decay_config \<Rightarrow> real \<Rightarrow> daemon \<Rightarrow> daemon" where
  "decay_memory c now D =
     (if dc_enabled c
      then set_store (snd (prune_decayed now (dc_prune_threshold c) (dc_half_life_days c) (dm_store D))) D
      else D)"

text \<open>The cancellation a shutdown begins with, and the one \<open>AppState.close\<close> repeats.\<close>

definition shutdown :: "daemon \<Rightarrow> daemon" where
  "shutdown D = D\<lparr>dm_exec := close_all (cancel_all (dm_exec D))\<rparr>"

section \<open>Lemmas\<close>

lemma dispatch_table_total: "\<exists>h. map_of dispatch_table m = Some h"
  by (cases m) (simp_all add: dispatch_table_def)

lemma dispatch_ok:
  "map_of dispatch_table m = Some h \<Longrightarrow> h E p D = (Inr r, D') \<Longrightarrow>
   dispatch E i m p D = (Inr (make_ok_response i r), D')"
  by (simp add: dispatch_def)

lemma dispatch_error:
  "map_of dispatch_table m = Some h \<Longrightarrow> h E p D = (Inl e, D') \<Longrightarrow> is_Exception e \<Longrightarrow>
   dispatch E i m p D = (Inr (make_error_response i (exc_str e) (error_code e)), D')"
  by (simp add: dispatch_def)

lemma cancel_tasks:
  "ex_tasks (snd (cancel i x)) = map (\<lambda>(j, st). (j, if j = i then Cancelling else st)) (ex_tasks x)"
  if "distinct (map fst (ex_tasks x))"
proof (cases "map_of (ex_tasks x) i")
  case None
  then have "map (\<lambda>(j, st). (j, if j = i then Cancelling else st)) (ex_tasks x) = ex_tasks x"
    by (intro map_idI) (auto simp: map_of_eq_None_iff image_iff)
  with None show ?thesis by (simp add: cancel_def)
next
  case (Some st)
  have "AList.update i Cancelling xs = map (\<lambda>(j, st). (j, if j = i then Cancelling else st)) xs"
    if "i \<in> fst ` set xs" "distinct (map fst xs)" for xs :: "(string \<times> task_state) list"
    using that
  proof (induction xs)
    case (Cons a xs)
    have "i = fst a \<Longrightarrow> map (\<lambda>(j, st). (j, if j = i then Cancelling else st)) xs = xs"
      using Cons.prems by (intro map_idI) (auto simp: image_iff)
    with Cons show ?case by (cases a) (auto simp: image_iff)
  qed simp
  moreover have "i \<in> fst ` set (ex_tasks x)" using Some by (auto dest: map_of_SomeD simp: rev_image_eqI)
  ultimately show ?thesis using Some \<open>distinct (map fst (ex_tasks x))\<close> by (simp add: cancel_def)
qed

lemma cancel_each:
  assumes "distinct (map fst (ex_tasks x))"
  shows "ex_tasks (foldl (\<lambda>x i. snd (cancel i x)) x is) =
     map (\<lambda>(j, st). (j, if j \<in> set is then Cancelling else st)) (ex_tasks x)"
  using assms
proof (induction "is" arbitrary: x)
  case Nil
  then show ?case by (auto intro!: map_idI[symmetric])
next
  case (Cons i "is")
  let ?y = "snd (cancel i x)"
  note t = cancel_tasks[OF Cons.prems]
  have "distinct (map fst (ex_tasks ?y))"
    using Cons.prems by (simp add: t[of i] case_prod_beta comp_def)
  from Cons.IH[OF this] show ?case by (auto simp: t[of i])
qed

lemma cancel_frame:
  "ex_store (snd (cancel i x)) = ex_store x" "ex_bus (snd (cancel i x)) = ex_bus x"
  "ex_audit (snd (cancel i x)) = ex_audit x" "ex_seq (snd (cancel i x)) = ex_seq x"
  by (simp_all add: cancel_def split: option.splits)

lemma cancel_all_frame:
  "ex_store (cancel_all x) = ex_store x \<and> ex_bus (cancel_all x) = ex_bus x \<and> ex_seq (cancel_all x) = ex_seq x"
proof -
  have "ex_store (foldl (\<lambda>x i. snd (cancel i x)) x is) = ex_store x \<and>
        ex_bus (foldl (\<lambda>x i. snd (cancel i x)) x is) = ex_bus x \<and>
        ex_seq (foldl (\<lambda>x i. snd (cancel i x)) x is) = ex_seq x" for x "is"
    by (induction "is" arbitrary: x) (simp_all add: cancel_frame)
  then show ?thesis by (simp add: cancel_all_def)
qed

lemma cancel_all_tasks:
  assumes "distinct (map fst (ex_tasks x))"
  shows "ex_tasks (cancel_all x) = map (\<lambda>(j, st). (j, Cancelling)) (ex_tasks x)"
  unfolding cancel_all_def cancel_each[OF assms] by (force simp: active_run_ids_def)


section \<open>The executor's invariant across requests\<close>

text \<open>A write to the tables that are not about runs.\<close>

definition same_runs :: "store \<Rightarrow> store \<Rightarrow> bool" where
  "same_runs s s' \<longleftrightarrow> st_lru s' = st_lru s \<and> db_runs (st_db s') = db_runs (st_db s) \<and>
     db_events (st_db s') = db_events (st_db s)"

lemma same_runs_coherent: "same_runs s s' \<Longrightarrow> coherent s \<Longrightarrow> coherent s'"
  by (simp add: same_runs_def coherent_def read_run_frame[of "st_db s'" "st_db s"])

lemma same_runs_refl [simp]: "same_runs s s"
  by (simp add: same_runs_def)

lemma same_runs_trans: "same_runs s s' \<Longrightarrow> same_runs s' s'' \<Longrightarrow> same_runs s s''"
  by (simp add: same_runs_def)

lemma same_runs_writes:
  "same_runs s (snd (insert_feedback now i k c s))"
  "same_runs s (upsert_run_outcome now i oc sc src ra s)"
  "same_runs s (update_skill_status i st s)"
  "same_runs s (update_learned_rule_status now i st s)"
  "same_runs s (update_allowlist_proposal_status n st s)"
  "same_runs s (snd (prune_decayed now th hl s))"
  by (simp_all add: same_runs_def other_tables)

lemma same_runs_touch: "touch_memory now table col i s = Inr s' \<Longrightarrow> same_runs s s'"
  by (auto simp: same_runs_def touch_memory_def upd_db_def Let_def split: if_splits)

lemma same_runs_touch_all: "same_runs s (touch_all now table is s)"
proof -
  have "same_runs s (foldl (\<lambda>s i. case touch_memory now table ''run_id'' i s of Inl e \<Rightarrow> s | Inr s' \<Rightarrow> s') s is)" for s
    by (induction "is" arbitrary: s) (auto intro: same_runs_trans same_runs_touch split: sum.splits)
  then show ?thesis by (simp add: touch_all_def)
qed

lemma same_runs_recall: "same_runs s (snd (recall emb vd now task k ff s))"
  by (simp add: recall_def Let_def same_runs_touch_all split: sum.split)

lemma same_runs_decisions:
  "same_runs s (snd (reject now kind i s))"
  "same_runs (ls_store L) (ls_store (snd (approve C now kind i L)))"
  by (simp_all add: reject_def approve_def Let_def same_runs_writes split: sum.splits)

lemma exec_inv_store:
  assumes "exec_inv x" and "coherent s" and "db_runs (st_db s) = db_runs (st_db (ex_store x))"
    and "db_events (st_db s) = db_events (st_db (ex_store x))"
  shows "exec_inv (x\<lparr>ex_store := s\<rparr>)"
  using assms by (simp add: exec_inv_def active_run_ids_def row_status_def seqs_of_def numbered_def)

lemma daemon_simps [simp]:
  "dm_store (set_store s D) = s" "dm_exec (set_store s D) = (dm_exec D)\<lparr>ex_store := s\<rparr>"
  "dm_exec (reload E D) = dm_exec D" "dm_exec (set_learn L D) = (dm_exec D)\<lparr>ex_store := ls_store L\<rparr>"
  by (simp_all add: dm_store_def set_store_def reload_def set_learn_def split: prod.split)

named_theorems handlers
declare h_cancel_run_def [handlers] h_list_runs_def [handlers] h_get_run_def [handlers]
  h_list_windows_def [handlers] h_screenshot_def [handlers] h_reload_rules_def [handlers]
  h_arm_killswitch_def [handlers] h_daemon_status_def [handlers] h_record_feedback_def [handlers]
  h_runs_analytics_def [handlers] h_learning_list_def [handlers] h_learning_approve_def [handlers]
  h_learning_reject_def [handlers] h_learning_explain_def [handlers] h_memory_search_def [handlers]
  h_memory_get_def [handlers]

lemma quiet_handlers:
  "dm_exec (snd (h_list_runs E p D)) = dm_exec D" "dm_exec (snd (h_list_windows E p D)) = dm_exec D"
  "dm_exec (snd (h_screenshot E p D)) = dm_exec D" "dm_exec (snd (h_reload_rules E p D)) = dm_exec D"
  "dm_exec (snd (h_arm_killswitch E p D)) = dm_exec D" "dm_exec (snd (h_daemon_status E p D)) = dm_exec D"
  "dm_exec (snd (h_runs_analytics E p D)) = dm_exec D" "dm_exec (snd (h_learning_list E p D)) = dm_exec D"
  "dm_exec (snd (h_learning_explain E p D)) = dm_exec D" "dm_exec (snd (h_memory_get E p D)) = dm_exec D"
  by (simp_all add: handlers Let_def split: sum.split prod.split)

lemma dispatch_state:
  "map_of dispatch_table m = Some h \<Longrightarrow> snd (dispatch E i m p D) = snd (h E p D)"
  by (simp add: dispatch_def split: prod.split sum.split)


text \<open>
  What changes the daemon: a request on any connection, a step of a run, a round of the kill
  switch poller or of the decay loop, the end.
\<close>

inductive daemon_step :: "daemon \<Rightarrow> daemon \<Rightarrow> bool" where
  request: "(\<And>n. \<exists>b. re_brain E n = Inr b) \<Longrightarrow> daemon_step D (snd (dispatch E i m p D))"
| run: "exec_step (dm_exec D) x \<Longrightarrow> daemon_step D (D\<lparr>dm_exec := x\<rparr>)"
| poll: "daemon_step D (poll_killswitch D)"
| decay: "daemon_step D (decay_memory c now D)"
| stop: "daemon_step D (shutdown D)"

inductive daemon_reach :: "daemon \<Rightarrow> daemon \<Rightarrow> bool" where
  start: "daemon_reach D D"
| step: "daemon_reach D0 D \<Longrightarrow> daemon_step D D' \<Longrightarrow> daemon_reach D0 D'"

inductive_cases daemon_step_cases: "daemon_step D D'"

section \<open>What holds of the executor whatever the daemon does\<close>

text \<open>
  A property of the executor that the operations of the runs keep, and that depends on the store only
  through runs, events and the cache, is kept by every request and every loop of the daemon.
\<close>

locale executor_property =
  fixes Q :: "executor \<Rightarrow> bool"
  assumes step: "exec_step x x' \<Longrightarrow> Q x \<Longrightarrow> Q x'"
    and read: "Q x \<Longrightarrow> Q (x\<lparr>ex_store := snd (get_run i (ex_store x))\<rparr>)"
    and other: "same_runs (ex_store x) s \<Longrightarrow> Q x \<Longrightarrow> Q (x\<lparr>ex_store := s\<rparr>)"
    and closing: "Q x \<Longrightarrow> Q (close_all x)"
begin

lemma cancelling: "Q x \<Longrightarrow> Q (snd (cancel i x))"
  by (rule step[OF exec_step.cancelled])

lemma starting:
  assumes "Q (dm_exec D)" and "\<And>n. \<exists>b. re_brain E n = Inr b"
  shows "Q (dm_exec (snd (start_run kind E p D)))"
proof -
  have "Q (snd (submit kind t b (re_id E) (re_now E) (re_brain E b) (dm_exec D)))" for t b
  proof -
    obtain br where br: "re_brain E b = Inr br" using assms(2) by blast
    obtain r x where sub: "submit kind t b (re_id E) (re_now E) (Inr br) (dm_exec D) = (r, x)" by fastforce
    show ?thesis
    proof (cases "insert_run (new_run (re_id E) kind t b (re_now E)) (ex_store (dm_exec D))")
      case (Inl e)
      with sub assms(1) br show ?thesis by (simp add: submit_def)
    next
      case (Inr s)
      with sub have "r = Inr (re_id E)" by (simp add: submit_def Let_def)
      with sub step[OF exec_step.submitted _] assms(1) br show ?thesis by simp
    qed
  qed
  with assms(1) show ?thesis
    by (auto simp: start_run_def Let_def split: sum.split prod.split) (metis snd_conv)+
qed

lemma cancel_request: "Q (dm_exec D) \<Longrightarrow> Q (dm_exec (snd (h_cancel_run E p D)))"
  using cancelling[of "dm_exec D"]
  by (auto simp: handlers split: sum.split option.split prod.split) (metis snd_conv)

lemma get_request: "Q (dm_exec D) \<Longrightarrow> Q (dm_exec (snd (h_get_run E p D)))"
  using read[of "dm_exec D"]
  by (auto simp: handlers dm_store_def Let_def split: sum.split option.split prod.split) (metis snd_conv)

lemma in_store:
  assumes "Q (dm_exec D)" and "same_runs (dm_store D) s"
  shows "Q ((dm_exec D)\<lparr>ex_store := s\<rparr>)"
  using assms by (intro other) (simp_all add: dm_store_def)

lemma feedback_request:
  assumes "Q (dm_exec D)"
  shows "Q (dm_exec (snd (h_record_feedback E p D)))"
proof -
  have "Q ((dm_exec D)\<lparr>ex_store :=
     upsert_run_outcome t i oc sc src ra (snd (insert_feedback now j k c (dm_store D)))\<rparr>)"
    "Q ((dm_exec D)\<lparr>ex_store := snd (insert_feedback now j k c (dm_store D))\<rparr>)"
    for t i oc sc src ra now j k c
    using assms by (blast intro: in_store same_runs_trans same_runs_writes)+
  with assms show ?thesis
    by (auto simp: handlers Let_def split: sum.split prod.split) (metis snd_conv)+
qed

lemma decision_requests:
  assumes "Q (dm_exec D)"
  shows "Q (dm_exec (snd (h_learning_approve E p D)))" and "Q (dm_exec (snd (h_learning_reject E p D)))"
proof -
  have a: "Q ((dm_exec D)\<lparr>ex_store := ls_store (snd (approve C now k i (learn_of D)))\<rparr>)" for C now k i
    using assms same_runs_decisions(2)[of "learn_of D"] by (intro in_store) (simp_all add: learn_of_def)
  show "Q (dm_exec (snd (h_learning_approve E p D)))"
    using assms a by (auto simp: handlers Let_def split: sum.split prod.split) (metis snd_conv)+
  have r: "Q ((dm_exec D)\<lparr>ex_store := snd (reject now k i (dm_store D))\<rparr>)" for now k i
    using assms by (intro in_store same_runs_decisions)
  show "Q (dm_exec (snd (h_learning_reject E p D)))"
    using assms r by (auto simp: handlers Let_def split: sum.split prod.split) (metis snd_conv)+
qed

lemma search_request:
  assumes "Q (dm_exec D)"
  shows "Q (dm_exec (snd (h_memory_search E p D)))"
proof -
  have "Q ((dm_exec D)\<lparr>ex_store := snd (recall emb vd now task k ff (dm_store D))\<rparr>)" for emb vd now task k ff
    using assms by (intro in_store same_runs_recall)
  with assms show ?thesis
    by (auto simp: handlers Let_def split: sum.split prod.split) (metis snd_conv)+
qed

lemma request_keeps:
  assumes "Q (dm_exec D)" and "\<And>n. \<exists>b. re_brain E n = Inr b"
  shows "Q (dm_exec (snd (dispatch E i m p D)))"
proof -
  obtain h where h: "map_of dispatch_table m = Some h" using dispatch_table_total by blast
  have "Q (dm_exec (snd (h E p D)))"
    using h assms
    by (cases m) (auto simp: dispatch_table_def quiet_handlers starting cancel_request get_request
        feedback_request decision_requests search_request)
  with h show ?thesis by (simp add: dispatch_state)
qed

lemma cancel_all_keeps: "Q x \<Longrightarrow> Q (cancel_all x)"
proof -
  have "Q x \<Longrightarrow> Q (foldl (\<lambda>x i. snd (cancel i x)) x is)" for "is"
    by (induction "is" arbitrary: x) (auto intro: cancelling)
  then show "Q x \<Longrightarrow> Q (cancel_all x)" by (simp add: cancel_all_def)
qed

lemma daemon_step_keeps: "daemon_step D D' \<Longrightarrow> Q (dm_exec D) \<Longrightarrow> Q (dm_exec D')"
  by (erule daemon_step_cases)
    (auto simp: poll_killswitch_def shutdown_def decay_memory_def
      intro: request_keeps step cancel_all_keeps closing in_store same_runs_writes(6))

lemma daemon_reach_keeps: "daemon_reach D0 D \<Longrightarrow> Q (dm_exec D0) \<Longrightarrow> Q (dm_exec D)"
  by (induction rule: daemon_reach.induct) (auto intro: daemon_step_keeps)

end

interpretation runs: executor_property exec_inv
proof
  fix x x' s i
  show "exec_step x x' \<Longrightarrow> exec_inv x \<Longrightarrow> exec_inv x'" by (rule exec_step_inv)
  assume inv: "exec_inv x"
  then have c: "coherent (ex_store x)" by (simp add: exec_inv_def)
  show "exec_inv (x\<lparr>ex_store := snd (get_run i (ex_store x))\<rparr>)"
    using get_run_coherent[OF c] by (intro exec_inv_store[OF inv]) simp_all
  show "exec_inv (x\<lparr>ex_store := s\<rparr>)" if "same_runs (ex_store x) s"
    using that by (intro exec_inv_store[OF inv] same_runs_coherent[OF that c]) (simp_all add: same_runs_def)
  show "exec_inv (close_all x)"
    using inv by (simp add: exec_inv_def close_all_def active_run_ids_def numbered_def row_status_def seqs_of_def
        comp_def case_prod_beta)
qed

section \<open>Samples\<close>

definition new_daemon :: daemon where
  "new_daemon = \<lparr>dm_exec = new_executor, dm_rules = [], dm_rules_file = None, dm_learned = None,
     dm_allow = None, dm_stop = False, dm_files = [], dm_start = 0\<rparr>"

definition sample_env :: rpc_env where
  "sample_env = \<lparr>re_now = 5, re_id = ''r1'', re_brain = (\<lambda>n. Inr (Claude_brain ''m'')), re_clients = Inr [],
     re_screen = Inr [], re_tmp = ''/tmp/hashot-x.png'', re_write = (\<lambda>f. Inr ()), re_embed = (\<lambda>t. Inr []),
     re_dist = (\<lambda>u v. 0), re_match = (\<lambda>v. Inr \<lparr>em_class = None, em_title = None\<rparr>), re_flt = (\<lambda>r. ''0.0''),
     re_codec = toy_codec, re_version = ''1.0.0''\<rparr>"

text \<open>What a request to start a run does when it is accepted.\<close>

definition started :: "rpc_env \<Rightarrow> run_kind \<Rightarrow> string \<Rightarrow> string \<Rightarrow> daemon \<Rightarrow> daemon" where
  "started E kind t b D =
     D\<lparr>dm_exec := snd (submit kind t b (re_id E) (re_now E) (re_brain E b) (dm_exec D))\<rparr>"

lemma submit_fresh:
  assumes "row_status x i = None"
  shows "\<exists>s. insert_run (new_run i kind t b now) (ex_store x) = Inr s \<and>
     submit kind t b i now (Inr br) x = (Inr i, publish_run i (rk_value kind @ ''_started'')
       [(''entry_kind'', JStr (rk_value kind)), (''task'', JStr t), (''brain'', JStr b)]
       (x\<lparr>ex_store := s, ex_seq := AList.update i 0 (ex_seq x), ex_tasks := AList.update i Live (ex_tasks x)\<rparr>))"
  using assms
  by (simp add: submit_def insert_run_def sql_insert_def row_status_def sql_find_None new_run_def)

lemma dispatch_start:
  assumes "row_status (dm_exec D) (re_id E) = None" and "re_brain E b = Inr br" and "t \<noteq> []"
    and "m = M_run_task \<and> kind = RK_run \<or> m = M_plan_task \<and> kind = RK_plan"
  shows "dispatch E i m [(''task'', JStr t), (''brain'', JStr b)] D =
     (Inr (make_ok_response i [(''run_id'', JStr (re_id E))]), started E kind t b D)"
proof -
  have h: "map_of dispatch_table m = Some (start_run kind)"
    using assms(4) by (auto simp: dispatch_table_def)
  obtain x where sub: "submit kind t b (re_id E) (re_now E) (Inr br) (dm_exec D) = (Inr (re_id E), x)"
    using submit_fresh[OF assms(1)] by blast
  have "start_run kind E [(''task'', JStr t), (''brain'', JStr b)] D =
      (Inr [(''run_id'', JStr (re_id E))], started E kind t b D)"
    using assms(2,3) sub by (simp add: start_run_def started_def)
  from dispatch_ok[OF h this] show ?thesis .
qed

lemma new_daemon_run: "row_status (dm_exec new_daemon) i = None"
  by (simp add: row_status_def new_daemon_def new_executor_def empty_store_def empty_db_def sql_find_def)

lemma started_active: 
  assumes "row_status (dm_exec D) (re_id E) = None" and "re_brain E b = Inr br"
  shows "dm_stop (started E kind t b D) = dm_stop D"
    and "ex_tasks (dm_exec (started E kind t b D)) = AList.update (re_id E) Live (ex_tasks (dm_exec D))"
  using submit_fresh[OF assms(1), of kind t b "re_now E" br] assms(2) by (auto simp: started_def)

lemma sample_started:
  "''r1'' \<in> set (active_run_ids (dm_exec (snd (dispatch sample_env ''q'' M_run_task
      [(''task'', JStr ''t''), (''brain'', JStr ''auto'')] new_daemon))))"
  "\<not> is_stopped (dm_stop (snd (dispatch sample_env ''q'' M_run_task
      [(''task'', JStr ''t''), (''brain'', JStr ''auto'')] new_daemon)))"
proof -
  have e: "re_id sample_env = ''r1''" "re_brain sample_env ''auto'' = Inr (Claude_brain ''m'')"
    by (simp_all add: sample_env_def)
  have d: "dispatch sample_env ''q'' M_run_task [(''task'', JStr ''t''), (''brain'', JStr ''auto'')] new_daemon =
      (Inr (make_ok_response ''q'' [(''run_id'', JStr ''r1'')]), started sample_env RK_run ''t'' ''auto'' new_daemon)"
    using dispatch_start[OF new_daemon_run e(2)] e(1) by simp
  show "''r1'' \<in> set (active_run_ids (dm_exec (snd (dispatch sample_env ''q'' M_run_task
      [(''task'', JStr ''t''), (''brain'', JStr ''auto'')] new_daemon))))"
    unfolding d by (simp add: active_run_ids_def started_active[OF new_daemon_run e(2)] e(1) set_map_fst_update)
  show "\<not> is_stopped (dm_stop (snd (dispatch sample_env ''q'' M_run_task
      [(''task'', JStr ''t''), (''brain'', JStr ''auto'')] new_daemon)))"
    unfolding d by (simp add: started_active[OF new_daemon_run e(2)]) (simp add: new_daemon_def is_stopped_def)
qed

section \<open>Properties\<close>

text \<open>
  Every request is answered, and once: whatever the method, the parameters and the state,
  the dispatch gives a response with the id of the request and either a result or an error, the
  error under one of three codes; the only exception that passes through is a cancellation.
\<close>

theorem every_request_is_answered:
  "case fst (dispatch E i m p D) of
     Inr f \<Rightarrow> (\<exists>result. f = make_ok_response i result) \<or>
             (\<exists>msg c. f = make_error_response i msg c \<and> c \<in> {''not_found'', ''invalid_params'', ''internal_error''})
   | Inl e \<Rightarrow> \<not> is_Exception e"
proof -
  obtain h where h: "map_of dispatch_table m = Some h" using dispatch_table_total by blast
  obtain r D' where r: "h E p D = (r, D')" by fastforce
  show ?thesis using h r by (cases r) (auto simp: dispatch_def error_code_def)
qed




lemma read_started:
  assumes "row_status (dm_exec D) (re_id E) = None" and "re_brain E b = Inr br" and "exec_inv (dm_exec D)"
  shows "read_run (st_db (dm_store (started E kind t b D))) (re_id E) =
     Inr (Some (run_with_events (new_run (re_id E) kind t b (re_now E)) []))"
proof -
  let ?x = "dm_exec D" and ?i = "re_id E"
  obtain s where ins: "insert_run (new_run ?i kind t b (re_now E)) (ex_store ?x) = Inr s"
    and s: "dm_store (started E kind t b D) = s"
    using submit_fresh[OF assms(1), of kind t b "re_now E" br] assms(2)
    by (auto simp: started_def dm_store_def)
  let ?row = "\<lparr>rr_id = ?i, rr_kind = rk_value kind, rr_task = t, rr_brain = b, rr_status = ''running'',
     rr_started = re_now E, rr_ended = None, rr_error = None, rr_iterations = None, rr_actions = None,
     rr_duration = None\<rparr>"
  obtain rows where rows: "sql_insert rr_id ?row (db_runs (st_db (ex_store ?x))) = Inr rows"
    "s = upd_db (\<lambda>d. d\<lparr>db_runs := rows\<rparr>) (ex_store ?x)"
    using ins by (auto simp: insert_run_def new_run_def)
  have "sql_find rr_id ?i rows = Some ?row" using sql_find_insert[OF rows(1), of ?i] by simp
  moreover have "filter (\<lambda>e. er_run e = ?i) (db_events (st_db (ex_store ?x))) = []"
    using assms(1,3) by (simp add: exec_inv_def seqs_of_def)
  moreover have "row_to_summary ?row = Inr (new_run ?i kind t b (re_now E))"
    by (cases kind) (simp_all add: row_to_summary_def enum_lookup_def all_run_kinds_def all_run_statuses_def new_run_def)
  ultimately show ?thesis by (simp add: s rows(2) read_run_def upd_db_def)
qed

text \<open>
  C18: A submitted run can be looked up at once, by any client: the request to run (or plan) a
  task answers with the new id, and asking for that run next gives its record with the task and
  the brain of the request, the status running and no event yet; the daemon lists it as active.
\<close>

theorem submitted_run_is_visible:
  assumes "exec_inv (dm_exec D)" and "row_status (dm_exec D) (re_id E) = None"
    and "re_brain E b = Inr br" and "t \<noteq> []"
    and "m = M_run_task \<and> kind = RK_run \<or> m = M_plan_task \<and> kind = RK_plan"
  shows "\<exists>D'. dispatch E i m [(''task'', JStr t), (''brain'', JStr b)] D =
       (Inr (make_ok_response i [(''run_id'', JStr (re_id E))]), D') \<and>
     fst (dispatch E' j M_get_run [(''run_id'', JStr (re_id E))] D') =
       Inr (make_ok_response j [(''run'', JObj (record_dump
         (run_with_events (new_run (re_id E) kind t b (re_now E)) [])))]) \<and>
     re_id E \<in> set (active_run_ids (dm_exec D'))"
proof -
  let ?D = "started E kind t b D"
  note d = dispatch_start[OF assms(2-5)]
  have "exec_inv (dm_exec ?D)"
  proof -
    have "exec_inv (snd (submit kind t b (re_id E) (re_now E) (Inr br) (dm_exec D)))"
      using submit_fresh[OF assms(2), of kind t b "re_now E" br] submit_inv[OF assms(1)] by fastforce
    then show ?thesis by (simp add: started_def assms(3))
  qed
  then have coh: "coherent (dm_store ?D)" by (simp add: exec_inv_def dm_store_def)
  have g: "map_of dispatch_table M_get_run = Some h_get_run" by (simp add: dispatch_table_def)
  obtain s where "get_run (re_id E) (dm_store ?D) =
      (Inr (Some (run_with_events (new_run (re_id E) kind t b (re_now E)) [])), s)"
    using get_run_coherent[OF coh, of "re_id E"] read_started[OF assms(2,3,1), of kind t] by (metis prod.collapse)
  then have "h_get_run E' [(''run_id'', JStr (re_id E))] ?D =
      (Inr [(''run'', JObj (record_dump (run_with_events (new_run (re_id E) kind t b (re_now E)) [])))], set_store s ?D)"
    by (simp add: h_get_run_def)
  from dispatch_ok[OF g this, of j] d show ?thesis
    by (auto simp: active_run_ids_def started_active[OF assms(2,3)] set_map_fst_update)
qed

theorem submitted_run_is_visible_witness:
  "\<exists>D'. dispatch sample_env ''q'' M_plan_task [(''task'', JStr ''t''), (''brain'', JStr ''auto'')] new_daemon =
       (Inr (make_ok_response ''q'' [(''run_id'', JStr ''r1'')]), D') \<and>
     fst (dispatch sample_env ''w'' M_get_run [(''run_id'', JStr ''r1'')] D') =
       Inr (make_ok_response ''w'' [(''run'', JObj (record_dump
         (run_with_events (new_run ''r1'' RK_plan ''t'' ''auto'' 5) [])))]) \<and>
     ''r1'' \<in> set (active_run_ids (dm_exec D'))"
proof -
  have e: "re_id sample_env = ''r1''" "re_now sample_env = 5"
    "re_brain sample_env ''auto'' = Inr (Claude_brain ''m'')"
    by (simp_all add: sample_env_def)
  have "exec_inv (dm_exec new_daemon)" by (simp add: new_daemon_def new_executor_inv)
  from submitted_run_is_visible[OF this new_daemon_run e(3), of "''t''" M_plan_task RK_plan "''q''" sample_env "''w''"]
  show ?thesis by (simp add: e)
qed

text \<open>
  C19: The kill switch stops everything once: after the request that arms it, the next round of
  the poller asks every active run to stop and clears the flag, so that the round after does
  nothing; the database and the bus are untouched.
\<close>

theorem killswitch_cancels_every_run:
  assumes "distinct (map fst (ex_tasks (dm_exec D)))"
  shows "\<exists>D1 D2. dispatch E i M_arm_killswitch p D = (Inr (make_ok_response i [(''ok'', JBool True)]), D1) \<and>
     poll_killswitch D1 = D2 \<and> poll_killswitch D2 = D2 \<and> \<not> is_stopped (dm_stop D2) \<and>
     ex_tasks (dm_exec D2) = map (\<lambda>(j, st). (j, Cancelling)) (ex_tasks (dm_exec D)) \<and>
     dm_store D2 = dm_store D \<and> ex_bus (dm_exec D2) = ex_bus (dm_exec D)"
proof -
  let ?D1 = "D\<lparr>dm_stop := arm (dm_stop D)\<rparr>"
  have g: "map_of dispatch_table M_arm_killswitch = Some h_arm_killswitch" by (simp add: dispatch_table_def)
  have "h_arm_killswitch E p D = (Inr [(''ok'', JBool True)], ?D1)" by (simp add: h_arm_killswitch_def)
  from dispatch_ok[OF g this] have "dispatch E i M_arm_killswitch p D =
      (Inr (make_ok_response i [(''ok'', JBool True)]), ?D1)" .
  then show ?thesis
    using cancel_all_tasks[OF assms] cancel_all_frame[of "dm_exec D"]
    by (intro exI[of _ ?D1] exI[of _ "poll_killswitch ?D1"]) (simp add: poll_killswitch_def dm_store_def)
qed

theorem killswitch_cancels_every_run_witness:
  "\<exists>D1 D2. dispatch sample_env ''k'' M_arm_killswitch [] (started sample_env RK_run ''t'' ''auto'' new_daemon) =
       (Inr (make_ok_response ''k'' [(''ok'', JBool True)]), D1) \<and>
     poll_killswitch D1 = D2 \<and> \<not> is_stopped (dm_stop D2) \<and> ex_tasks (dm_exec D2) = [(''r1'', Cancelling)]"
proof -
  have e: "re_id sample_env = ''r1''" "re_brain sample_env ''auto'' = Inr (Claude_brain ''m'')"
    by (simp_all add: sample_env_def)
  have t: "ex_tasks (dm_exec (started sample_env RK_run ''t'' ''auto'' new_daemon)) = [(''r1'', Live)]"
    by (simp add: started_active[OF new_daemon_run e(2)] e(1)) (simp add: new_daemon_def new_executor_def)
  then have "distinct (map fst (ex_tasks (dm_exec (started sample_env RK_run ''t'' ''auto'' new_daemon))))" by simp
  from killswitch_cancels_every_run[OF this, of sample_env "''k''" "[]"] show ?thesis unfolding t by auto
qed


text \<open>The outcome the store has for a run, with its score and its source.\<close>

definition outcome_of :: "store \<Rightarrow> string \<Rightarrow> (string \<times> real \<times> string) option" where
  "outcome_of s i = map_option (\<lambda>r. (oc_outcome r, oc_score r, oc_source r)) (sql_find oc_run i (db_outcomes (st_db s)))"

lemma outcome_upsert:
  "outcome_of (upsert_run_outcome now i oc sc src ra s) j =
     (if j = i then Some (oc, sc, src) else outcome_of s j)"
proof -
  have m: "List.find (\<lambda>x. oc_run x = j) (map (\<lambda>x. if oc_run x = oc_run r then r else x) rows) =
      (if j = oc_run r \<and> oc_run r \<in> oc_run ` set rows then Some r else List.find (\<lambda>x. oc_run x = j) rows)"
    for r :: outcome_row and rows
    by (induction rows) auto
  have a: "List.find (\<lambda>x. oc_run x = j) (rows @ [r]) = (if j = oc_run r then Some r else List.find (\<lambda>x. oc_run x = j) rows)"
    if "oc_run r \<notin> oc_run ` set rows" for r :: outcome_row and rows
    using that by (induction rows) auto
  have "sql_find oc_run j (sql_upsert oc_run (\<lambda>new old. new) r rows) =
      (if j = oc_run r then Some r else sql_find oc_run j rows)" for r :: outcome_row and rows
    by (cases "j = oc_run r"; cases "oc_run r \<in> oc_run ` set rows"; insert m[of r rows] a[of r rows];
        simp add: sql_find_def sql_upsert_def sql_update_def)
  then show ?thesis by (simp add: outcome_of_def upsert_run_outcome_def upd_db_def)
qed

lemma feedback_kinds:
  "feedback_to_outcome k = (oc, sc) \<Longrightarrow> oc \<noteq> ''unknown'' \<Longrightarrow> k \<noteq> [] \<and> (oc = ''success'' \<or> oc = ''failure'')"
  by (auto simp: feedback_to_outcome_def split: if_splits)

text \<open>
  An explicit judgement does not survive the end of the run: the feedback given while a run
  is active is stored as its outcome, and the outcome derived from the status when the run ends
  replaces it, whatever the judgement was.
\<close>

theorem feedback_is_lost_when_the_run_ends:
  assumes "feedback_to_outcome k = (oc, sc)" and "oc \<noteq> ''unknown''" and "i \<noteq> []"
  shows "\<exists>n D'. dispatch E q M_record_feedback [(''run_id'', JStr i), (''kind'', JStr k)] D =
       (Inr (make_ok_response q [(''feedback_id'', JInt n), (''outcome'', JStr oc)]), D') \<and>
     outcome_of (dm_store D') i = Some (oc, sc, ''explicit'') \<and>
     (\<exists>oc' sc'. outcome_of (ex_store (finish start now i kind task r (dm_exec D'))) i = Some (oc', sc', ''derived'') \<and>
       (r = Inr () \<longrightarrow> oc' = ''success''))"
proof -
  let ?s1 = "snd (insert_feedback (re_now E) i k None (dm_store D))"
  let ?n = "fst (insert_feedback (re_now E) i k None (dm_store D))"
  let ?D = "set_store (upsert_run_outcome (re_now E) i oc sc ''explicit'' None ?s1) D"
  have g: "map_of dispatch_table M_record_feedback = Some h_record_feedback" by (simp add: dispatch_table_def)
  have "h_record_feedback E [(''run_id'', JStr i), (''kind'', JStr k)] D =
      (Inr [(''feedback_id'', JInt ?n), (''outcome'', JStr oc)], ?D)"
    using assms feedback_kinds[OF assms(1,2)]
    by (simp add: h_record_feedback_def sql_opt_text_def feedback_value_def case_prod_beta)
  note d = dispatch_ok[OF g this, of q]
  obtain st err what payload where settled: "settle kind r = (st, err, what, payload)" by (cases "settle kind r")
  have "r = Inr () \<Longrightarrow> st = Completed" using settled by (simp add: settle_def)
  then have "r = Inr () \<longrightarrow> fst (derive_from_status st) = ''success''" by (simp add: derive_from_status_def)
  then show ?thesis
    using d by (intro exI[of _ ?n] exI[of _ ?D]) (simp add: outcome_upsert finish_parts(1)[OF settled])
qed

theorem feedback_is_lost_when_the_run_ends_witness:
  "\<exists>n D'. dispatch sample_env ''q'' M_record_feedback [(''run_id'', JStr ''r1''), (''kind'', JStr ''thumbs_down'')] new_daemon =
       (Inr (make_ok_response ''q'' [(''feedback_id'', JInt n), (''outcome'', JStr ''failure'')]), D') \<and>
     outcome_of (dm_store D') ''r1'' = Some (''failure'', - 1, ''explicit'') \<and>
     (\<exists>oc' sc'. outcome_of (ex_store (finish 1 2 ''r1'' RK_run ''t'' (Inr ()) (dm_exec D'))) ''r1'' =
        Some (oc', sc', ''derived'') \<and> oc' = ''success'')"
proof -
  have k: "feedback_to_outcome ''thumbs_down'' = (''failure'', - 1)" by (simp add: feedback_to_outcome_def)
  show ?thesis using feedback_is_lost_when_the_run_ends[OF k, of "''r1''" sample_env "''q''" new_daemon 1 2 RK_run "''t''" "Inr ()"]
    by simp
qed

text \<open>
  The rules in force follow an approval only when its kind is spelt in lower case: approving
  a rule under any other spelling stores the decision and extends the file of learned rules, but
  the daemon keeps the rules it had; under \<open>rule\<close> it has those of the files.
\<close>

theorem approval_reloads_only_lower_case:
  assumes "lower k = ''rule''" and "pid \<noteq> []"
    and "approve (re_codec E) (re_now E) k pid (learn_of D) = (Inr res, L)"
  shows "\<exists>D'. dispatch E q M_learning_approve [(''kind'', JStr k), (''id'', JStr pid)] D =
       (Inr (make_ok_response q res), D') \<and> dm_learned D' = ls_learned L \<and> dm_store D' = ls_store L \<and>
     dm_rules D' = (if k = ''rule''
       then fst (load_watch_rules (re_match E) (re_flt E) (dm_rules_file D) (map_option Inr (ls_learned L)))
       else dm_rules D)"
proof -
  have g: "map_of dispatch_table M_learning_approve = Some h_learning_approve" by (simp add: dispatch_table_def)
  have "k \<noteq> []" using assms(1) by (auto simp: lower_def)
  let ?D = "if k = ''rule'' then reload E (set_learn L D) else set_learn L D"
  have a: "decision_args E [(''kind'', JStr k), (''id'', JStr pid)] = Inr (k, pid)"
    using assms(2) \<open>k \<noteq> []\<close> by (simp add: decision_args_def str_json_def)
  have "h_learning_approve E [(''kind'', JStr k), (''id'', JStr pid)] D = (Inr res, ?D)"
    by (simp add: h_learning_approve_def a assms(3))
  from dispatch_ok[OF g this, of q] show ?thesis
    by (intro exI[of _ ?D]) (simp add: set_learn_def set_store_def reload_def dm_store_def case_prod_beta Let_def)
qed


theorem approval_reloads_only_lower_case_witness:
  "\<exists>D'. dispatch sample_env ''q'' M_learning_approve [(''kind'', JStr ''Rule''), (''id'', JStr ''i'')]
         (set_store (insert_learned_rule 2 ''i'' ''y'' 1 ''[]'' empty_store) new_daemon) =
       (Inr (make_ok_response ''q'' (decision ''rule'' ''i'' ''approved'')), D') \<and> dm_rules D' = []"
proof -
  let ?D = "set_store (insert_learned_rule 2 ''i'' ''y'' 1 ''[]'' empty_store) new_daemon"
  have low: "lower ''Rule'' = ''rule''" by code_simp
  have s: "find_rule ''i'' (ls_store (learn_of ?D)) = Inr
      \<lparr>lr_id = ''i'', lr_yaml = ''y'', lr_confidence = 1, lr_hits = 0, lr_sources = ''[]'',
       lr_status = ''proposed'', lr_proposed = 2, lr_decided = None\<rparr>"
    by (simp add: learn_of_def find_rule_def list_learned_rules_def order_desc_def with_status_def
        insert_learned_rule_def upd_db_def sql_insert_ignore_def empty_store_def empty_db_def)
  have l: "ls_learned (learn_of ?D) = None" "cd_yaml_load (re_codec sample_env) x = Inr JNull" for x
    by (simp_all add: learn_of_def set_store_def new_daemon_def sample_env_def toy_codec_def)
  obtain L where "approve (re_codec sample_env) (re_now sample_env) ''Rule'' ''i'' (learn_of ?D) =
      (Inr (decision ''rule'' ''i'' ''approved''), L)"
    unfolding approve_def low Let_def
    by (simp add: s l append_learned_rule_def rules_entry_def jor_def split: sum.split)
  from approval_reloads_only_lower_case[OF low _ this, of "''q''"] show ?thesis
    by (auto simp: set_store_def new_daemon_def)
qed

end
