(* ===== verification/Server.thy ===== *)
theory Server
  imports Rpc "HOL-Library.Multiset"
begin

text \<open>
  \<open>src/src/agent/daemon/server.py\<close>: one connection of a client, as the state its four kinds of
  task share (the reader, the writer, a forwarder per subscribed topic, and the handler that
  waits for the first of reader and writer to end and then cleans up), and the steps these tasks
  take between two suspension points.  The server is a daemon with its open connections; every
  interleaving of the steps of all of them is a run of the step relation.
\<close>

section \<open>A connection\<close>

text \<open>
  Where the reader is: it awaits the client's hello, it awaits a frame, it awaits room in the
  outbound queue for a response, or it has ended.
\<close>

datatype reader_phase = Greeting | Serving | Answering frame | Ended

record conn =
  cn_phase :: reader_phase
  cn_writer :: bool
  cn_stop :: bool
  cn_subs :: "(topic \<times> nat) list"
  cn_held :: "(topic \<times> params) list"
  cn_out :: "frame list"
  cn_sent :: "frame list"
  cn_open :: bool

definition outbound_max :: nat where "outbound_max = 4000"

text \<open>A new connection: the reader has written the daemon's hello.\<close>

definition accept :: conn where
  "accept = \<lparr>cn_phase = Greeting, cn_writer = True, cn_stop = False, cn_subs = [], cn_held = [],
     cn_out = [], cn_sent = [Hello protocol_version []], cn_open = True\<rparr>"

definition end_reader :: "conn \<Rightarrow> conn" where
  "end_reader c = c\<lparr>cn_phase := Ended, cn_stop := True\<rparr>"

text \<open>
  The condition of the main loop: with the flag set, the reader ends instead of awaiting the
  next frame.
\<close>

definition loop_check :: "conn \<Rightarrow> conn" where
  "loop_check c = (if cn_stop c \<and> cn_phase c = Serving then end_reader c else c)"

text \<open>An exception that leaves the reader ends its task without the flag.\<close>

definition crash_reader :: "conn \<Rightarrow> conn" where
  "crash_reader c = c\<lparr>cn_phase := Ended\<rparr>"

definition refuse :: "string \<Rightarrow> string \<Rightarrow> conn \<Rightarrow> conn" where
  "refuse message err_code c = end_reader (c\<lparr>cn_sent := cn_sent c @ [make_error_response [] message err_code]\<rparr>)"

fun is_parse_error :: "py_exc \<Rightarrow> bool" where
  "is_parse_error (FrameParseError _) = True"
| "is_parse_error _ = False"

definition read_hello :: "frame res \<Rightarrow> conn \<Rightarrow> conn" where
  "read_hello r c = (case r of
      Inl e \<Rightarrow> if is_parse_error e then end_reader c else crash_reader c
    | Inr (Hello v cs) \<Rightarrow>
        if versions_compatible v protocol_version then loop_check (c\<lparr>cn_phase := Serving\<rparr>)
        else refuse (''version mismatch: server='' @ protocol_version @ '' client='' @ v) ''version_mismatch'' c
    | Inr f \<Rightarrow> refuse ''expected hello frame'' ''protocol_error'' c)"

definition dm_bus :: "daemon \<Rightarrow> bus" where
  "dm_bus D = ex_bus (dm_exec D)"

definition set_bus :: "bus \<Rightarrow> daemon \<Rightarrow> daemon" where
  "set_bus b D = D\<lparr>dm_exec := (dm_exec D)\<lparr>ex_bus := b\<rparr>\<rparr>"

text \<open>The topics of a subscribe frame in turn; a topic without a queue policy raises.\<close>

fun sub_topics :: "topic list \<Rightarrow> conn \<times> daemon \<Rightarrow> conn \<times> daemon" where
  "sub_topics [] (c, D) = (c, D)"
| "sub_topics (t # ts) (c, D) =
     (if t \<in> fst ` set (cn_subs c) then sub_topics ts (c, D)
      else case subscribe (dm_bus D) t of
             Inl e \<Rightarrow> (crash_reader c, D)
           | Inr (s, b) \<Rightarrow> sub_topics ts (c\<lparr>cn_subs := cn_subs c @ [(t, sb_id s)]\<rparr>, set_bus b D))"

text \<open>Those of an unsubscribe frame: the forwarder is cancelled, with the payload it may hold.\<close>

fun unsub_topics :: "topic list \<Rightarrow> conn \<times> daemon \<Rightarrow> conn \<times> daemon" where
  "unsub_topics [] (c, D) = (c, D)"
| "unsub_topics (t # ts) (c, D) =
     (case map_of (cn_subs c) t of
        None \<Rightarrow> unsub_topics ts (c, D)
      | Some i \<Rightarrow>
          unsub_topics ts
            (c\<lparr>cn_subs := filter (\<lambda>e. fst e \<noteq> t) (cn_subs c), cn_held := filter (\<lambda>e. fst e \<noteq> t) (cn_held c)\<rparr>,
             set_bus (unsubscribe (dm_bus D) t i) D))"

text \<open>\<open>"closed mid-frame" in str(exc)\<close>.\<close>

fun has_sub :: "string \<Rightarrow> string \<Rightarrow> bool" where
  "has_sub w [] = (w = [])"
| "has_sub w (x # xs) = (take (length w) (x # xs) = w \<or> has_sub w xs)"

text \<open>One round of the main loop, with what \<open>read_frame\<close> gave.\<close>

definition read_one :: "rpc_env \<Rightarrow> frame res \<Rightarrow> conn \<times> daemon \<Rightarrow> conn \<times> daemon" where
  "read_one E r cD = (case cD of (c, D) \<Rightarrow>
     (case r of
        Inl (FrameParseError m) \<Rightarrow> if has_sub ''closed mid-frame'' m then (end_reader c, D) else (c, D)
      | Inl e \<Rightarrow> (crash_reader c, D)
      | Inr (Request i m p) \<Rightarrow>
          (case dispatch E i m p D of
             (Inr f, D') \<Rightarrow> (c\<lparr>cn_phase := Answering f\<rparr>, D')
           | (Inl e, D') \<Rightarrow> (crash_reader c, D'))
      | Inr (Subscribe ts) \<Rightarrow> sub_topics ts (c, D)
      | Inr (Unsubscribe ts) \<Rightarrow> unsub_topics ts (c, D)
      | Inr f \<Rightarrow> (c, D)))"

text \<open>\<open>outbound.put\<close> of the response, once there is room.\<close>

definition has_room :: "conn \<Rightarrow> bool" where
  "has_room c = (length (cn_out c) < outbound_max)"

definition put_answer :: "conn \<Rightarrow> conn" where
  "put_answer c = (case cn_phase c of
      Answering f \<Rightarrow> if has_room c then loop_check (c\<lparr>cn_phase := Serving, cn_out := cn_out c @ [f]\<rparr>) else c
    | _ \<Rightarrow> c)"

section \<open>Forwarders, writer, handler\<close>

text \<open>
  A forwarder with nothing in hand sets the flag when its subscriber was disconnected (the bus
  has forgotten it), or takes a payload; then it puts it into the outbound queue when there is room.
\<close>

definition forward_take :: "topic \<Rightarrow> conn \<times> daemon \<Rightarrow> conn \<times> daemon" where
  "forward_take t cD = (case cD of (c, D) \<Rightarrow>
     (case map_of (cn_subs c) t of
        None \<Rightarrow> (c, D)
      | Some i \<Rightarrow>
          if t \<in> fst ` set (cn_held c) then (c, D)
          else case find_sub (dm_bus D) t i of
                 None \<Rightarrow> (c\<lparr>cn_stop := True\<rparr>, D)
               | Some s \<Rightarrow>
                   (case get_nowait s of
                      None \<Rightarrow> (c, D)
                    | Some (p, _) \<Rightarrow>
                        (c\<lparr>cn_held := cn_held c @ [(t, p)]\<rparr>, set_bus (take_one (dm_bus D) t i) D))))"

definition forward_put :: "topic \<Rightarrow> conn \<Rightarrow> conn" where
  "forward_put t c = (case map_of (cn_held c) t of
      None \<Rightarrow> c
    | Some p \<Rightarrow>
        if has_room c then c\<lparr>cn_held := filter (\<lambda>e. fst e \<noteq> t) (cn_held c), cn_out := cn_out c @ [Event t p]\<rparr>
        else c)"

text \<open>
  The writer: one frame, or a ping when none came within the heartbeat interval; it looks at the
  flag after each, and a broken pipe ends it and sets the flag.
\<close>

definition writer_check :: "conn \<Rightarrow> conn" where
  "writer_check c = (if cn_stop c then c\<lparr>cn_writer := False\<rparr> else c)"

definition write_one :: "conn \<Rightarrow> conn" where
  "write_one c = (case cn_out c of [] \<Rightarrow> c
     | f # fs \<Rightarrow> writer_check (c\<lparr>cn_out := fs, cn_sent := cn_sent c @ [f]\<rparr>))"

definition heartbeat :: "conn \<Rightarrow> conn" where
  "heartbeat c = (if cn_out c = [] then writer_check (c\<lparr>cn_sent := cn_sent c @ [Ping]\<rparr>) else c)"

definition break_pipe :: "conn \<Rightarrow> conn" where
  "break_pipe c = c\<lparr>cn_writer := False, cn_stop := True,
     cn_out := (case cn_out c of [] \<Rightarrow> [] | f # fs \<Rightarrow> fs)\<rparr>"

text \<open>What the handler does once the reader or the writer has ended.\<close>

definition hang_up :: "conn \<times> daemon \<Rightarrow> conn \<times> daemon" where
  "hang_up cD = (case cD of (c, D) \<Rightarrow>
     (c\<lparr>cn_phase := Ended, cn_writer := False, cn_subs := [], cn_held := [], cn_open := False\<rparr>,
      set_bus (foldl (\<lambda>b (t, i). unsubscribe b t i) (dm_bus D) (cn_subs c)) D))"

section \<open>Steps\<close>

datatype conn_label = L_read "frame res" | L_put | L_take topic | L_forward topic | L_write | L_beat
  | L_broken | L_hang_up

inductive conn_step :: "rpc_env \<Rightarrow> conn_label \<Rightarrow> conn \<times> daemon \<Rightarrow> conn \<times> daemon \<Rightarrow> bool" for E where
  greet: "cn_open c \<Longrightarrow> cn_phase c = Greeting \<Longrightarrow> conn_step E (L_read r) (c, D) (read_hello r c, D)"
| serve: "cn_open c \<Longrightarrow> cn_phase c = Serving \<Longrightarrow> read_one E r (c, D) = (c', D') \<Longrightarrow>
    conn_step E (L_read r) (c, D) (loop_check c', D')"
| put: "cn_open c \<Longrightarrow> conn_step E L_put (c, D) (put_answer c, D)"
| take: "cn_open c \<Longrightarrow> conn_step E (L_take t) (c, D) (forward_take t (c, D))"
| forward: "cn_open c \<Longrightarrow> conn_step E (L_forward t) (c, D) (forward_put t c, D)"
| write1: "cn_open c \<Longrightarrow> cn_writer c \<Longrightarrow> conn_step E L_write (c, D) (write_one c, D)"
| beat: "cn_open c \<Longrightarrow> cn_writer c \<Longrightarrow> conn_step E L_beat (c, D) (heartbeat c, D)"
| broken: "cn_open c \<Longrightarrow> cn_writer c \<Longrightarrow> conn_step E L_broken (c, D) (break_pipe c, D)"
| hang: "cn_open c \<Longrightarrow> cn_phase c = Ended \<or> \<not> cn_writer c \<Longrightarrow> conn_step E L_hang_up (c, D) (hang_up (c, D))"

inductive_cases conn_step_cases: "conn_step E l (c, D) (c', D')"

text \<open>
  The states of one connection and the daemon, with the steps of the connection so far: between
  them the world (other connections, runs, timers) changes the daemon in any way.
\<close>

inductive conn_reach :: "conn_label list \<Rightarrow> conn \<times> daemon \<Rightarrow> bool" where
  accepted: "conn_reach [] (accept, D)"
| stepped: "conn_reach ls s \<Longrightarrow> conn_step E l s s' \<Longrightarrow> conn_reach (ls @ [l]) s'"
| world: "conn_reach ls (c, D) \<Longrightarrow> conn_reach ls (c, D')"

text \<open>The frames read, the ids of the requests among them, the ids of the responses in a queue.\<close>

definition reads :: "conn_label list \<Rightarrow> frame res list" where
  "reads ls = concat (map (\<lambda>l. case l of L_read r \<Rightarrow> [r] | _ \<Rightarrow> []) ls)"

definition request_ids :: "frame res list \<Rightarrow> string list" where
  "request_ids rs = concat (map (\<lambda>r. case r of Inr (Request i m p) \<Rightarrow> [i] | _ \<Rightarrow> []) rs)"

definition response_ids :: "frame list \<Rightarrow> string list" where
  "response_ids fs = concat (map (\<lambda>f. case f of Response i r e \<Rightarrow> [i] | _ \<Rightarrow> []) fs)"

definition answering :: "conn \<Rightarrow> frame list" where
  "answering c = (case cn_phase c of Answering f \<Rightarrow> [f] | _ \<Rightarrow> [])"

definition greets :: "frame res \<Rightarrow> bool" where
  "greets r = (case r of Inr (Hello v cs) \<Rightarrow> versions_compatible v protocol_version | _ \<Rightarrow> False)"

lemma reads_simps [simp]: "reads [] = []" "reads (ls @ [l]) = reads ls @ (case l of L_read r \<Rightarrow> [r] | _ \<Rightarrow> [])"
  by (simp_all add: reads_def)

lemma request_ids_simps [simp]: "request_ids [] = []" "request_ids (rs @ rs') = request_ids rs @ request_ids rs'"
  "request_ids (r # rs) = (case r of Inr (Request i m p) \<Rightarrow> [i] | _ \<Rightarrow> []) @ request_ids rs"
  by (simp_all add: request_ids_def)

lemma response_ids_simps [simp]: "response_ids [] = []" "response_ids (fs @ fs') = response_ids fs @ response_ids fs'"
  "response_ids (f # fs) = (case f of Response i r e \<Rightarrow> [i] | _ \<Rightarrow> []) @ response_ids fs"
  by (simp_all add: response_ids_def)

section \<open>The protocol of a connection\<close>

named_theorems conn_ops
declare read_hello_def [conn_ops] refuse_def [conn_ops] end_reader_def [conn_ops] crash_reader_def [conn_ops]
  loop_check_def [conn_ops] put_answer_def [conn_ops] forward_put_def [conn_ops] write_one_def [conn_ops]
  heartbeat_def [conn_ops] writer_check_def [conn_ops] break_pipe_def [conn_ops]

lemma dispatch_id: "dispatch E i m p D = (Inr f, D') \<Longrightarrow> \<exists>r e. f = Response i r e"
  by (auto simp: dispatch_def make_ok_response_def make_error_response_def split: option.splits prod.splits sum.splits if_splits)

lemma sub_topics_frame:
  "sub_topics ts (c, D) = (c', D') \<Longrightarrow>
   cn_sent c' = cn_sent c \<and> cn_out c' = cn_out c \<and> cn_held c' = cn_held c \<and> cn_open c' = cn_open c \<and>
   cn_writer c' = cn_writer c \<and> cn_stop c' = cn_stop c \<and> cn_phase c' \<in> {cn_phase c, Ended}"
  by (induction ts arbitrary: c D) (auto simp: crash_reader_def split: if_splits sum.splits prod.splits)

lemma unsub_topics_frame:
  "unsub_topics ts (c, D) = (c', D') \<Longrightarrow>
   cn_sent c' = cn_sent c \<and> cn_out c' = cn_out c \<and> cn_open c' = cn_open c \<and>
   cn_writer c' = cn_writer c \<and> cn_stop c' = cn_stop c \<and> cn_phase c' = cn_phase c"
  by (induction ts arbitrary: c D) (auto split: option.splits)

text \<open>Reading one frame while serving: what is asked is noted, nothing is written.\<close>

lemma read_one_parts:
  assumes "read_one E r (c, D) = (c', D')" and "cn_phase c = Serving"
  shows "cn_sent c' = cn_sent c \<and> cn_out c' = cn_out c \<and> cn_writer c' = cn_writer c \<and>
    (cn_phase c' = Ended \<or> response_ids (answering c') = request_ids [r] \<and> cn_phase c' \<noteq> Greeting)"
proof (cases r)
  case (Inl e)
  with assms show ?thesis
    by (cases e) (auto simp: read_one_def end_reader_def crash_reader_def answering_def split: if_splits)
next
  case (Inr f)
  show ?thesis
  proof (cases f)
    case (Request i m p)
    obtain q D'' where d: "dispatch E i m p D = (q, D'')" by fastforce
    show ?thesis
      using assms Inr Request d
      by (cases q) (auto simp: read_one_def crash_reader_def answering_def dest: dispatch_id)
  next
    case (Subscribe ts)
    with assms Inr sub_topics_frame[of ts c D c' D'] show ?thesis by (auto simp: read_one_def answering_def)
  next
    case (Unsubscribe ts)
    with assms Inr unsub_topics_frame[of ts c D c' D'] show ?thesis by (auto simp: read_one_def answering_def)
  qed (use assms Inr in \<open>auto simp: read_one_def answering_def\<close>)
qed

text \<open>Before the handshake is over nothing has been asked of the daemon and nothing is queued.\<close>

definition quiet_sent :: "conn \<Rightarrow> bool" where
  "quiet_sent c \<longleftrightarrow> cn_subs c = [] \<and> cn_held c = [] \<and> cn_out c = [] \<and>
     (\<forall>f\<in>set (cn_sent c). f = Hello protocol_version [] \<or> f = Ping \<or>
        (\<exists>msg code. f = make_error_response [] msg code))"

text \<open>Every request read has its response written, queued or about to be queued, in order.\<close>

definition matched :: "string list \<Rightarrow> conn \<Rightarrow> bool" where
  "matched is c \<longleftrightarrow>
     (if cn_writer c
      then \<exists>rest. is = response_ids (cn_sent c @ cn_out c @ answering c) @ rest \<and> (rest = [] \<or> cn_phase c = Ended)
      else \<exists>rest. is = response_ids (cn_sent c) @ rest)"

definition conn_inv :: "frame res list \<Rightarrow> conn \<Rightarrow> bool" where
  "conn_inv rs c \<longleftrightarrow>
     (if rs = [] then cn_phase c \<in> {Greeting, Ended} \<and> quiet_sent c \<and> response_ids (cn_sent c) = []
      else if greets (hd rs) then cn_phase c \<noteq> Greeting \<and> matched (request_ids rs) c
      else cn_phase c = Ended \<and> quiet_sent c)"

lemma set_bus_same [simp]: "set_bus (dm_bus D) D = D"
  by (simp add: set_bus_def dm_bus_def)

lemma quiet_steps:
  assumes "quiet_sent c" and "conn_step E l (c, D) (c', D')" and "cn_phase c \<in> {Greeting, Ended}" and "reads [l] = []"
  shows "quiet_sent c' \<and> D' = D \<and> cn_phase c' \<in> {cn_phase c, Ended} \<and>
    response_ids (cn_sent c') = response_ids (cn_sent c)"
  using assms(2)
proof (cases rule: conn_step.cases)
  case take
  with assms(1) show ?thesis by (simp add: forward_take_def quiet_sent_def)
next
  case hang
  with assms(1) show ?thesis by (simp add: hang_up_def quiet_sent_def)
qed (use assms in \<open>auto simp: quiet_sent_def conn_ops reads_def split: reader_phase.splits\<close>)

lemma matched_mono: "matched is c \<Longrightarrow> cn_phase c = Ended \<or> \<not> cn_writer c \<Longrightarrow> matched (is @ js) c"
  by (auto simp: matched_def)

lemma matched_steps:
  assumes "matched is c" and "conn_step E l (c, D) (c', D')" and "cn_phase c \<noteq> Greeting" and "reads [l] = []"
  shows "matched is c' \<and> cn_phase c' \<noteq> Greeting"
  using assms(2)
proof (cases rule: conn_step.cases)
  case take
  then have "cn_sent c' = cn_sent c \<and> cn_out c' = cn_out c \<and> cn_phase c' = cn_phase c \<and> cn_writer c' = cn_writer c"
    by (auto simp: forward_take_def split: option.splits if_splits prod.splits)
  with assms(1,3) show ?thesis by (auto simp: matched_def answering_def split: if_splits)
next
  case hang
  with assms(1) show ?thesis by (auto simp: hang_up_def matched_def split: if_splits)
next
  case write1
  with assms(1,3) show ?thesis
    by (auto simp: conn_ops matched_def answering_def split: list.splits if_splits)
qed (use assms in \<open>auto simp: conn_ops matched_def answering_def reads_def split: reader_phase.splits option.splits if_splits\<close>)

lemma loop_check_frame:
  "cn_sent (loop_check c) = cn_sent c" "cn_out (loop_check c) = cn_out c" "cn_writer (loop_check c) = cn_writer c"
  "cn_phase (loop_check c) = (if cn_stop c \<and> cn_phase c = Serving then Ended else cn_phase c)"
  by (simp_all add: loop_check_def end_reader_def)

lemma read_step_inv:
  assumes "conn_inv rs c" and "conn_step E (L_read r) (c, D) (c', D')"
  shows "conn_inv (rs @ [r]) c' \<and> (rs = [] \<or> \<not> greets (hd rs) \<longrightarrow> D' = D)"
  using assms(2)
proof (cases rule: conn_step.cases)
  case greet
  with assms(1) have rs: "rs = []" and q: "quiet_sent c" "response_ids (cn_sent c) = []"
    by (auto simp: conn_inv_def split: if_splits)
  show ?thesis
  proof (cases "greets r")
    case True
    then obtain v cs where "r = Inr (Hello v cs)" "versions_compatible v protocol_version"
      by (auto simp: greets_def split: sum.splits frame.splits)
    with greet rs q show ?thesis
      by (simp add: conn_inv_def read_hello_def loop_check_frame greets_def matched_def quiet_sent_def answering_def)
  next
    case False
    with greet rs q show ?thesis
      by (cases r) (auto simp: conn_inv_def conn_ops quiet_sent_def greets_def split: frame.splits)
  qed
next
  case serve
  then obtain c1 where r1: "read_one E r (c, D) = (c1, D')" and c': "c' = loop_check c1" and ph: "cn_phase c = Serving"
    by auto
  with assms(1) have rs: "rs \<noteq> []" "greets (hd rs)" "matched (request_ids rs) c"
    by (auto simp: conn_inv_def split: if_splits)
  note parts = read_one_parts[OF r1 ph]
  have "matched (request_ids (rs @ [r])) c1"
    using rs(3) parts ph by (auto simp: matched_def answering_def)
  with rs parts show ?thesis
    by (auto simp: conn_inv_def c' loop_check_frame matched_def answering_def split: if_splits)
qed

lemma conn_step_inv:
  assumes "conn_inv rs c" and "conn_step E l (c, D) (c', D')"
  shows "conn_inv (rs @ reads [l]) c' \<and> (rs = [] \<or> \<not> greets (hd rs) \<longrightarrow> D' = D)"
proof (cases "reads [l] = []")
  case True
  show ?thesis
  proof (cases "rs \<noteq> [] \<and> greets (hd rs)")
    case greeted: True
    with assms(1) matched_steps[OF _ assms(2) _ True, of "request_ids rs"] True show ?thesis
      by (simp add: conn_inv_def)
  next
    case False
    with assms(1) have q: "quiet_sent c" "cn_phase c \<in> {Greeting, Ended}"
      by (auto simp: conn_inv_def split: if_splits)
    from False assms(1) quiet_steps[OF q(1) assms(2) q(2) True] True show ?thesis
      by (auto simp: conn_inv_def split: if_splits)
  qed
next
  case False
  then obtain r where r: "l = L_read r" by (cases l) (simp_all add: reads_def)
  with assms read_step_inv show ?thesis by (simp add: reads_def)
qed

lemma conn_reach_inv: "conn_reach ls s \<Longrightarrow> conn_inv (reads ls) (fst s)"
proof (induction rule: conn_reach.induct)
  case (accepted D)
  then show ?case by (simp add: conn_inv_def accept_def quiet_sent_def)
next
  case (stepped ls s E l s')
  then have "conn_inv (reads ls @ reads [l]) (fst s')"
    using conn_step_inv[of "reads ls" "fst s" E l "snd s" "fst s'" "snd s'"] by simp
  then show ?case by (simp add: reads_def)
qed simp

section \<open>The subscribers of the bus\<close>

definition ids_on :: "bus \<Rightarrow> topic \<Rightarrow> nat list" where
  "ids_on b t = map sb_id (bus_subs b t)"

text \<open>A change of the bus that neither adds nor removes subscribers.\<close>

definition bus_like :: "bus \<Rightarrow> bus \<Rightarrow> bool" where
  "bus_like b b' \<longleftrightarrow> (bus_ok b \<longrightarrow> bus_ok b' \<and> (\<forall>t. ids_on b' t = ids_on b t))"

lemma bus_like_refl [simp, intro]: "bus_like b b"
  by (simp add: bus_like_def)

lemma bus_like_trans [trans]: "bus_like b b' \<Longrightarrow> bus_like b' b'' \<Longrightarrow> bus_like b b''"
  by (simp add: bus_like_def)

lemma bus_like_publish: "bus_like b (publish b t p)"
  by (simp add: bus_like_def publish_ok ids_on_def publish_live comp_def)

lemma bus_like_map:
  assumes "\<And>s. sb_id (f s) = sb_id s \<and> sb_cap (f s) = sb_cap s \<and> sb_policy (f s) = sb_policy s \<and>
      sb_disconnected (f s) = sb_disconnected s \<and> length (sb_queue (f s)) \<le> length (sb_queue s)"
  shows "bus_like b (b\<lparr>bus_subs := (bus_subs b)(t := map f (bus_subs b t))\<rparr>)"
  using assms by (fastforce simp: bus_like_def ids_on_def bus_ok_def comp_def intro: order.trans)

lemma bus_like_take: "bus_like b (take_one b t i)"
  unfolding take_one_def by (rule bus_like_map) (auto simp: get_nowait_def split: list.splits)

lemma bus_like_run_ops:
  "bus_like (ex_bus x) (ex_bus (snd (submit kind t b i now chosen x)))"
  "bus_like (ex_bus x) (ex_bus (snd (emit now i k p x)))"
  "bus_like (ex_bus x) (ex_bus (finish t0 now i kind t r x))"
  by (auto simp: submit_def emit_def finish_def Let_def case_prod_beta intro: bus_like_publish bus_like_trans
      split: sum.splits)

lemma exec_step_bus: "exec_step x x' \<Longrightarrow> bus_like (ex_bus x) (ex_bus x')"
proof (erule exec_step_cases)
  fix kind task brain i now b assume "submit kind task brain i now (Inr b) x = (Inr i, x')"
  with bus_like_run_ops(1)[of x kind task brain i now "Inr b"] show ?thesis by simp
next
  fix i now kind payload r assume "emit now i kind payload x = (r, x')"
  with bus_like_run_ops(2)[of x now i kind payload] show ?thesis by simp
qed (simp_all add: cancel_frame bus_like_run_ops)

lemma handler_bus:
  assumes "map_of dispatch_table m = Some h"
  shows "bus_like (dm_bus D) (dm_bus (snd (h E p D)))"
proof -
  have start: "bus_like (dm_bus D) (dm_bus (snd (start_run kind E p D)))" for kind
  proof -
    have "bus_like (ex_bus (dm_exec D)) (ex_bus x)"
      if "submit kind t b i now c (dm_exec D) = (r, x)" for t b i now c r x
      using bus_like_run_ops(1)[of "dm_exec D" kind t b i now c] that by simp
    then show ?thesis
      by (auto simp: start_run_def dm_bus_def Let_def split: sum.split prod.split)
  qed
  have c: "ex_bus x = ex_bus (dm_exec D)" if "cancel i (dm_exec D) = (ok, x)" for i ok x
    using cancel_frame(2)[of i "dm_exec D"] that by simp
  have others: "dm_bus (snd (h_cancel_run E p D)) = dm_bus D" "dm_bus (snd (h_get_run E p D)) = dm_bus D"
    "dm_bus (snd (h_record_feedback E p D)) = dm_bus D" "dm_bus (snd (h_learning_approve E p D)) = dm_bus D"
    "dm_bus (snd (h_learning_reject E p D)) = dm_bus D" "dm_bus (snd (h_memory_search E p D)) = dm_bus D"
    by (auto simp: handlers dm_bus_def Let_def c split: sum.split option.split prod.split)
  show ?thesis
    using assms start others
    by (cases m) (auto simp: dispatch_table_def dm_bus_def quiet_handlers)
qed

lemma dispatch_bus: "bus_like (dm_bus D) (dm_bus (snd (dispatch E i m p D)))"
  using dispatch_table_total[of m] handler_bus dispatch_state by (metis)

lemma daemon_step_bus: "daemon_step D D' \<Longrightarrow> bus_like (dm_bus D) (dm_bus D')"
proof (erule daemon_step_cases)
  fix x assume "exec_step (dm_exec D) x" "D' = D\<lparr>dm_exec := x\<rparr>"
  then show ?thesis by (simp add: dm_bus_def exec_step_bus)
next
  fix E i m p assume "D' = snd (dispatch E i m p D)"
  then show ?thesis by (simp add: dispatch_bus)
qed (auto simp: poll_killswitch_def shutdown_def decay_memory_def dm_bus_def cancel_all_frame close_all_def)

text \<open>
  The subscribers of a connection, against those of everybody else: each topic it is subscribed
  to has one subscriber of its own on the bus.
\<close>

definition own :: "topic \<Rightarrow> conn \<Rightarrow> nat list" where
  "own t c = map snd (filter (\<lambda>e. fst e = t) (cn_subs c))"

definition owns :: "(topic \<Rightarrow> nat multiset) \<Rightarrow> conn \<times> daemon \<Rightarrow> bool" where
  "owns X s = (case s of (c, D) \<Rightarrow> bus_ok (dm_bus D) \<and> distinct (map fst (cn_subs c)) \<and>
     (\<not> cn_open c \<longrightarrow> cn_subs c = []) \<and> (\<forall>t. mset (ids_on (dm_bus D) t) = X t + mset (own t c)))"

lemma dm_bus_set [simp]: "dm_bus (set_bus b D) = b"
  by (simp add: dm_bus_def set_bus_def)

lemma ids_on_unsubscribe:
  assumes "bus_ok b"
  shows "mset (ids_on (unsubscribe b t i) t') = mset (ids_on b t') - (if t' = t then {#i#} else {#})"
proof -
  have "map sb_id (filter (\<lambda>s. sb_id s \<noteq> i) ss) = removeAll i (map sb_id ss)" for ss
    by (induction ss) auto
  moreover have "distinct (ids_on b t)" using assms by (simp add: bus_ok_def ids_on_def)
  ultimately have "ids_on (unsubscribe b t i) t = remove1 i (ids_on b t)"
    by (simp add: unsubscribe_def drop_ids_def ids_on_def distinct_remove1_removeAll)
  moreover have "t' \<noteq> t \<Longrightarrow> ids_on (unsubscribe b t i) t' = ids_on b t'"
    by (simp add: unsubscribe_def ids_on_def)
  ultimately show ?thesis by (auto simp: mset_remove1)
qed

lemma owns_like: "owns X (c, D) \<Longrightarrow> bus_like (dm_bus D) (dm_bus D') \<Longrightarrow> cn_subs c' = cn_subs c \<Longrightarrow>
    cn_open c' = cn_open c \<Longrightarrow> owns X (c', D')"
  by (simp add: owns_def bus_like_def own_def)

lemma owns_sub_topics:
  "owns X (c, D) \<Longrightarrow> cn_open c \<Longrightarrow> sub_topics ts (c, D) = s' \<Longrightarrow> owns X s'"
proof (induction ts arbitrary: c D)
  case (Cons t ts)
  show ?case
  proof (cases "t \<in> fst ` set (cn_subs c)")
    case True
    with Cons show ?thesis by simp
  next
    case False
    show ?thesis
    proof (cases "subscribe (dm_bus D) t")
      case (Inl e)
      with Cons.prems False show ?thesis by (auto simp: owns_def own_def crash_reader_def)
    next
      case (Inr v)
      obtain sb b where v: "v = (sb, b)" by (cases v)
      let ?c = "c\<lparr>cn_subs := cn_subs c @ [(t, sb_id sb)]\<rparr>"
      have "ids_on b t' = ids_on (dm_bus D) t' @ (if t' = t then [sb_id sb] else [])" for t'
        using Inr v by (auto simp: subscribe_def new_subscriber_def ids_on_def split: option.splits)
      then have "owns X (?c, set_bus b D)"
        using Cons.prems(1,2) False subscribe_ok[of "dm_bus D" t sb b] Inr v
        by (auto simp: owns_def own_def)
      from Cons.IH[OF this] Cons.prems(2,3) False Inr v show ?thesis by simp
    qed
  qed
qed auto

lemma owns_unsubscribe:
  assumes "owns X (c, D)" and "map_of (cn_subs c) t = Some i"
  shows "owns X (c\<lparr>cn_subs := filter (\<lambda>e. fst e \<noteq> t) (cn_subs c), cn_held := h\<rparr>, set_bus (unsubscribe (dm_bus D) t i) D)"
proof -
  have single: "filter (\<lambda>e. fst e = t) (cn_subs c) = [(t, i)]"
    using assms filter_key_single[of fst "cn_subs c" "(t, i)"] by (auto simp: owns_def dest: map_of_SomeD)
  then have "own t c = [i]" by (simp add: own_def)
  moreover have "own t' (c\<lparr>cn_subs := filter (\<lambda>e. fst e \<noteq> t) (cn_subs c), cn_held := h\<rparr>) = (if t' = t then [] else own t' c)" for t'
  proof -
    have "filter (\<lambda>e. fst e = t') (filter (\<lambda>e. fst e \<noteq> t) es) = (if t' = t then [] else filter (\<lambda>e. fst e = t') es)"
      for es :: "(topic \<times> nat) list"
      by (induction es) auto
    then show ?thesis by (simp add: own_def)
  qed
  moreover have "bus_ok (dm_bus D)" using assms(1) by (simp add: owns_def)
  ultimately show ?thesis
    using assms(1) by (auto simp: owns_def unsubscribe_ok ids_on_unsubscribe distinct_map_filter)
qed

lemma owns_unsub_topics: "owns X (c, D) \<Longrightarrow> unsub_topics ts (c, D) = s' \<Longrightarrow> owns X s'"
  by (induction ts arbitrary: c D) (auto split: option.splits dest: owns_unsubscribe)

lemma owns_hang_up:
  assumes "owns X (c, D)"
  shows "owns X (hang_up (c, D))"
proof -
  have "bus_ok (foldl (\<lambda>b (t, i). unsubscribe b t i) b es) \<and>
      (\<forall>t. mset (ids_on (foldl (\<lambda>b (t, i). unsubscribe b t i) b es) t) =
           mset (ids_on b t) - mset (map snd (filter (\<lambda>e. fst e = t) es)))" if "bus_ok b" for b es
    using that
  proof (induction es arbitrary: b)
    case (Cons e es)
    obtain t i where e: "e = (t, i)" by (cases e)
    from Cons.IH[OF unsubscribe_ok[OF Cons.prems, of t i]] ids_on_unsubscribe[OF Cons.prems]
    show ?case by (auto simp: e)
  qed simp
  then show ?thesis using assms by (simp add: owns_def hang_up_def own_def)
qed

lemma conn_ops_subs:
  "cn_subs (loop_check c) = cn_subs c \<and> cn_open (loop_check c) = cn_open c"
  "cn_subs (read_hello r c) = cn_subs c \<and> cn_open (read_hello r c) = cn_open c"
  "cn_subs (put_answer c) = cn_subs c \<and> cn_open (put_answer c) = cn_open c"
  "cn_subs (forward_put t c) = cn_subs c \<and> cn_open (forward_put t c) = cn_open c"
  "cn_subs (write_one c) = cn_subs c \<and> cn_open (write_one c) = cn_open c"
  "cn_subs (heartbeat c) = cn_subs c \<and> cn_open (heartbeat c) = cn_open c"
  "cn_subs (break_pipe c) = cn_subs c \<and> cn_open (break_pipe c) = cn_open c"
  by (auto simp: conn_ops split: sum.splits frame.splits reader_phase.splits option.splits list.splits)

lemma owns_same:
  "owns X (c, D) \<Longrightarrow> cn_subs c' = cn_subs c \<and> cn_open c' = cn_open c \<Longrightarrow> owns X (c', D)"
  by (rule owns_like[OF _ bus_like_refl]) simp_all

lemmas owns_ops = conn_ops_subs[THEN [2] owns_same]

lemma owns_conn_step:
  assumes "owns X s" and "conn_step E l s s'"
  shows "owns X s'"
  using assms(2,1)
proof (cases rule: conn_step.cases)
  case (greet c r D)
  with assms(1) show ?thesis by (auto intro: owns_ops)
next
  case (serve c r D c' D')
  have "owns X (c', D')"
  proof (cases r)
    case (Inl e)
    with serve have "D' = D" "cn_subs c' = cn_subs c \<and> cn_open c' = cn_open c"
      by (cases e; auto simp: read_one_def end_reader_def crash_reader_def split: if_splits)+
    with serve assms(1) owns_same[of X c D c'] show ?thesis by simp
  next
    case (Inr f)
    show ?thesis
    proof (cases f)
      case (Request i m p)
      with serve Inr have "D' = snd (dispatch E i m p D)" "cn_subs c' = cn_subs c" "cn_open c' = cn_open c"
        by (auto simp: read_one_def crash_reader_def split: prod.splits sum.splits)
      with serve assms(1) owns_like[OF _ dispatch_bus] show ?thesis by blast
    next
      case (Subscribe ts)
      with serve Inr assms(1) show ?thesis by (auto simp: read_one_def intro: owns_sub_topics)
    next
      case (Unsubscribe ts)
      with serve Inr assms(1) show ?thesis by (auto simp: read_one_def intro: owns_unsub_topics)
    qed (use serve Inr assms(1) in \<open>auto simp: read_one_def\<close>)
  qed
  with serve show ?thesis by (auto intro: owns_ops)
next
  case (take c t D)
  have "bus_like (dm_bus D) (dm_bus (snd (forward_take t (c, D)))) \<and>
      cn_subs (fst (forward_take t (c, D))) = cn_subs c \<and> cn_open (fst (forward_take t (c, D))) = cn_open c"
    by (simp add: forward_take_def bus_like_take split: option.split prod.split)
  with take assms(1) owns_like[of X c D "snd (forward_take t (c, D))" "fst (forward_take t (c, D))"]
  show ?thesis by simp
next
  case hang
  with assms(1) owns_hang_up show ?thesis by simp
qed (use assms(1) in \<open>auto intro: owns_ops\<close>)

section \<open>The server\<close>

text \<open>The daemon and every connection ever accepted.\<close>

inductive server_step :: "daemon \<times> conn list \<Rightarrow> daemon \<times> conn list \<Rightarrow> bool" where
  connect: "server_step (D, cs) (D, cs @ [accept])"
| client: "i < length cs \<Longrightarrow> conn_step E l (cs ! i, D) (c', D') \<Longrightarrow> server_step (D, cs) (D', cs[i := c'])"
| inside: "daemon_step D D' \<Longrightarrow> server_step (D, cs) (D', cs)"
| publish: "server_step (D, cs) (set_bus (publish (dm_bus D) t p) D, cs)"

inductive server_reach :: "daemon \<Rightarrow> daemon \<times> conn list \<Rightarrow> bool" for D0 where
  start: "server_reach D0 (D0, [])"
| step: "server_reach D0 s \<Longrightarrow> server_step s s' \<Longrightarrow> server_reach D0 s'"

definition server_inv :: "(topic \<Rightarrow> nat multiset) \<Rightarrow> daemon \<times> conn list \<Rightarrow> bool" where
  "server_inv X s = (case s of (D, cs) \<Rightarrow> bus_ok (dm_bus D) \<and>
     (\<forall>c\<in>set cs. distinct (map fst (cn_subs c)) \<and> (\<not> cn_open c \<longrightarrow> cn_subs c = [])) \<and>
     (\<forall>t. mset (ids_on (dm_bus D) t) = X t + mset (concat (map (own t) cs))))"

lemma server_inv_split:
  "server_inv X (D, us @ c # vs) \<longleftrightarrow>
     owns (\<lambda>t. X t + mset (concat (map (own t) (us @ vs)))) (c, D) \<and>
     (\<forall>c\<in>set (us @ vs). distinct (map fst (cn_subs c)) \<and> (\<not> cn_open c \<longrightarrow> cn_subs c = []))"
  by (auto simp: server_inv_def owns_def ac_simps)

lemma server_step_inv: "server_step s s' \<Longrightarrow> server_inv X s \<Longrightarrow> server_inv X s'"
proof (induction rule: server_step.induct)
  case (connect D cs)
  then show ?case by (simp add: server_inv_def accept_def own_def)
next
  case (client i cs E l D c' D')
  have "server_inv X (D, take i cs @ cs ! i # drop (Suc i) cs)"
    using client by (simp add: id_take_nth_drop[symmetric])
  then have "server_inv X (D', take i cs @ c' # drop (Suc i) cs)"
    unfolding server_inv_split using owns_conn_step[OF _ client(2)] by blast
  then show ?case using client(1) by (simp add: upd_conv_take_nth_drop)
next
  case (inside D D' cs)
  with daemon_step_bus[of D D'] show ?case by (simp add: server_inv_def bus_like_def)
next
  case (publish D cs t p)
  with bus_like_publish[of "dm_bus D" t p] show ?case by (simp add: server_inv_def bus_like_def)
qed

lemma server_reach_inv:
  "server_reach D0 s \<Longrightarrow> bus_ok (dm_bus D0) \<Longrightarrow> server_inv (\<lambda>t. mset (ids_on (dm_bus D0) t)) s"
proof (induction rule: server_reach.induct)
  case start
  then show ?case by (simp add: server_inv_def)
qed (blast intro: server_step_inv)

lemma own_length: "distinct (map fst (cn_subs c)) \<Longrightarrow> length (own t c) = (if t \<in> fst ` set (cn_subs c) then 1 else 0)"
proof -
  have "distinct (map fst es) \<Longrightarrow> length (filter (\<lambda>e. fst e = t) es) = (if t \<in> fst ` set es then 1 else 0)"
    for es :: "(topic \<times> nat) list"
    by (induction es) (auto simp: filter_empty_conv image_iff)
  then show "distinct (map fst (cn_subs c)) \<Longrightarrow> ?thesis" by (simp add: own_def)
qed

lemma owned_count:
  assumes "\<forall>c\<in>set cs. distinct (map fst (cn_subs c)) \<and> (\<not> cn_open c \<longrightarrow> cn_subs c = [])"
  shows "length (concat (map (own t) cs)) = length (filter (\<lambda>c. cn_open c \<and> t \<in> fst ` set (cn_subs c)) cs)"
  using assms by (induction cs) (auto simp: own_length)

section \<open>The way of an event\<close>

text \<open>
  The payloads of a topic on their way to a client: written, in the outbound queue, in the hand
  of the forwarder, in the queue of the subscriber.
\<close>

definition event_payloads :: "topic \<Rightarrow> frame list \<Rightarrow> params list" where
  "event_payloads t fs = concat (map (\<lambda>f. case f of Event t' p \<Rightarrow> if t' = t then [p] else [] | _ \<Rightarrow> []) fs)"

definition queued :: "topic \<Rightarrow> conn \<Rightarrow> bus \<Rightarrow> params list" where
  "queued t c b = (case map_of (cn_subs c) t of None \<Rightarrow> []
     | Some i \<Rightarrow> (case find_sub b t i of None \<Rightarrow> [] | Some s \<Rightarrow> sb_queue s))"

definition held :: "topic \<Rightarrow> conn \<Rightarrow> params list" where
  "held t c = map snd (filter (\<lambda>e. fst e = t) (cn_held c))"

definition in_flight :: "topic \<Rightarrow> conn \<times> daemon \<Rightarrow> params list" where
  "in_flight t s = (case s of (c, D) \<Rightarrow>
     event_payloads t (cn_sent c @ cn_out c) @ held t c @ queued t c (dm_bus D))"

text \<open>
  The steps that only move what there is: those of the forwarders and of a writer whose pipe
  holds, and whatever the rest of the daemon does to other subscribers; and the publication of a
  payload on the topic.
\<close>

inductive relay :: "topic \<Rightarrow> params list \<Rightarrow> conn \<times> daemon \<Rightarrow> conn \<times> daemon \<Rightarrow> bool" for t where
  still: "relay t [] s s"
| move: "relay t ps s s' \<Longrightarrow> l \<in> {L_write, L_beat, L_put} \<union> range L_take \<union> range L_forward \<Longrightarrow>
    conn_step E l s' s'' \<Longrightarrow> relay t ps s s''"
| others: "relay t ps s (c, D) \<Longrightarrow> bus_ok (dm_bus D') \<Longrightarrow>
    (\<And>i. map_of (cn_subs c) t = Some i \<Longrightarrow> find_sub (dm_bus D') t i = find_sub (dm_bus D) t i) \<Longrightarrow>
    relay t ps s (c, D')"
| published: "relay t ps s (c, D) \<Longrightarrow> relay t (ps @ [p]) s (c, set_bus (publish (dm_bus D) t p) D)"

lemma event_payloads_simps [simp]:
  "event_payloads t [] = []" "event_payloads t (fs @ fs') = event_payloads t fs @ event_payloads t fs'"
  "event_payloads t (f # fs) = (case f of Event t' p \<Rightarrow> if t' = t then [p] else [] | _ \<Rightarrow> []) @ event_payloads t fs"
  by (simp_all add: event_payloads_def)

lemma find_Some_prop: "List.find P xs = Some x \<Longrightarrow> P x"
  by (auto simp: find_Some_iff)

lemma find_sub_take:
  "find_sub (take_one b t i) t' j =
     (if t' = t \<and> j = i then map_option (\<lambda>s. case get_nowait s of None \<Rightarrow> s | Some (_, s') \<Rightarrow> s') (find_sub b t i)
      else find_sub b t' j)"
proof -
  let ?f = "\<lambda>s. if sb_id s = i then (case get_nowait s of None \<Rightarrow> s | Some (_, s') \<Rightarrow> s') else s"
  have "sb_id (?f s) = sb_id s" for s by (auto simp: get_nowait_def split: list.splits)
  then have "List.find (\<lambda>s. sb_id s = j) (map ?f ss) = map_option ?f (List.find (\<lambda>s. sb_id s = j) ss)" for ss
    by (induction ss) auto
  then have "find_sub (take_one b t i) t j = map_option ?f (find_sub b t j)"
    by (simp only: find_sub_def take_one_def) simp
  moreover have "map_option ?f (find_sub b t j) = (if j = i
      then map_option (\<lambda>s. case get_nowait s of None \<Rightarrow> s | Some (_, s') \<Rightarrow> s') (find_sub b t i)
      else find_sub b t j)"
    by (cases "find_sub b t j") (auto simp: find_sub_def dest: find_Some_prop)
  ultimately show ?thesis by (cases "t' = t") (simp_all add: find_sub_def take_one_def)
qed

definition relay_ok :: "topic \<Rightarrow> conn \<times> daemon \<Rightarrow> bool" where
  "relay_ok t s = (case s of (c, D) \<Rightarrow> bus_ok (dm_bus D) \<and> distinct (map fst (cn_held c)) \<and>
     (\<forall>f. cn_phase c = Answering f \<longrightarrow> (\<exists>i r e. f = Response i r e)) \<and>
     (\<exists>i sb. map_of (cn_subs c) t = Some i \<and> find_sub (dm_bus D) t i = Some sb))"

lemma held_take:
  assumes "distinct (map fst h)"
  shows "map snd (filter (\<lambda>e. fst e = t) h) = (case map_of h t of None \<Rightarrow> [] | Some p \<Rightarrow> [p])"
  using assms by (induction h) (auto simp: filter_empty_conv image_iff split: option.splits dest: map_of_SomeD)

lemma relay_take:
  assumes "relay_ok t (c, D)"
  shows "relay_ok t (forward_take t' (c, D)) \<and> in_flight t (forward_take t' (c, D)) = in_flight t (c, D)"
proof (cases "\<exists>i sb p sb'. map_of (cn_subs c) t' = Some i \<and> t' \<notin> fst ` set (cn_held c) \<and>
    find_sub (dm_bus D) t' i = Some sb \<and> get_nowait sb = Some (p, sb')")
  case False
  then have "snd (forward_take t' (c, D)) = D" "cn_subs (fst (forward_take t' (c, D))) = cn_subs c"
    "cn_held (fst (forward_take t' (c, D))) = cn_held c" "cn_sent (fst (forward_take t' (c, D))) = cn_sent c"
    "cn_out (fst (forward_take t' (c, D))) = cn_out c" "cn_phase (fst (forward_take t' (c, D))) = cn_phase c"
    by (auto simp: forward_take_def split: option.split)
  with assms show ?thesis
    by (cases "forward_take t' (c, D)") (simp add: relay_ok_def in_flight_def held_def queued_def)
next
  case True
  then obtain i sb p sb' where h: "map_of (cn_subs c) t' = Some i" "t' \<notin> fst ` set (cn_held c)"
    "find_sub (dm_bus D) t' i = Some sb" "get_nowait sb = Some (p, sb')"
    by blast
  then have f: "forward_take t' (c, D) =
      (c\<lparr>cn_held := cn_held c @ [(t', p)]\<rparr>, set_bus (take_one (dm_bus D) t' i) D)"
    by (simp add: forward_take_def)
  have q: "sb_queue sb = p # sb_queue sb'"
    using h(4) by (auto simp: get_nowait_def split: list.splits)
  have none: "filter (\<lambda>e. fst e = t') (cn_held c) = []" using h(2) by (auto simp: filter_empty_conv)
  have "bus_ok (take_one (dm_bus D) t' i)"
    using assms bus_like_take by (simp add: relay_ok_def bus_like_def)
  then have "relay_ok t (forward_take t' (c, D))"
    using assms h(2) by (auto simp: relay_ok_def f find_sub_take)
  moreover have "held t (c\<lparr>cn_held := cn_held c @ [(t', p)]\<rparr>) @ queued t (c\<lparr>cn_held := cn_held c @ [(t', p)]\<rparr>)
      (take_one (dm_bus D) t' i) = held t c @ queued t c (dm_bus D)"
    using h none q by (cases "t' = t") (auto simp: held_def queued_def find_sub_take split: option.split)
  ultimately show ?thesis by (simp add: f in_flight_def)
qed

lemma relay_move:
  assumes "relay_ok t s" and "conn_step E l s s'" and "l \<in> {L_write, L_beat, L_put} \<union> range L_take \<union> range L_forward"
  shows "relay_ok t s' \<and> in_flight t s' = in_flight t s"
  using assms(2)
proof (cases rule: conn_step.cases)
  case (put c D)
  have "cn_subs (put_answer c) = cn_subs c" "cn_held (put_answer c) = cn_held c"
    "cn_phase (put_answer c) = Answering f \<Longrightarrow> cn_phase c = Answering f"
    "event_payloads t (cn_sent (put_answer c) @ cn_out (put_answer c)) = event_payloads t (cn_sent c @ cn_out c)" for f
    using assms(1) put by (auto simp: relay_ok_def put_answer_def loop_check_def end_reader_def split: reader_phase.splits if_splits)
  with put assms(1) show ?thesis by (simp add: relay_ok_def in_flight_def held_def queued_def)
next
  case (take c t' D)
  with relay_take assms(1) show ?thesis by simp
next
  case (forward c t' D)
  show ?thesis
  proof (cases "map_of (cn_held c) t' = None \<or> \<not> has_room c")
    case True
    with forward assms(1) show ?thesis by (auto simp: forward_put_def split: option.splits)
  next
    case False
    then obtain p where p: "map_of (cn_held c) t' = Some p" "has_room c" by auto
    have d: "distinct (map fst (cn_held c))" using assms(1) forward by (simp add: relay_ok_def)
    let ?c = "c\<lparr>cn_held := filter (\<lambda>e. fst e \<noteq> t') (cn_held c), cn_out := cn_out c @ [Event t' p]\<rparr>"
    have "filter (\<lambda>e. fst e = t) (filter (\<lambda>e. fst e \<noteq> t') h) = (if t = t' then [] else filter (\<lambda>e. fst e = t) h)"
      for h :: "(topic \<times> params) list"
      by (induction h) auto
    then have "event_payloads t (cn_sent ?c @ cn_out ?c) @ held t ?c = event_payloads t (cn_sent c @ cn_out c) @ held t c"
      using held_take[OF d, of t] p(1) by (auto simp: held_def)
    moreover have "relay_ok t (?c, D)" using assms(1) forward by (auto simp: relay_ok_def distinct_map_filter)
    moreover have "queued t ?c b = queued t c b" for b by (simp add: queued_def)
    ultimately show ?thesis using forward p by (simp add: forward_put_def in_flight_def)
  qed
next
  case (write1 c D)
  then show ?thesis using assms(1)
    by (auto simp: relay_ok_def in_flight_def held_def queued_def write_one_def writer_check_def split: list.split)
next
  case (beat c D)
  then show ?thesis using assms(1)
    by (auto simp: relay_ok_def in_flight_def held_def queued_def heartbeat_def writer_check_def)
qed (use assms(3) in auto)

lemma queued_publish:
  assumes "relay_ok t (c, D)" and "map_of topic_config t = Some (0, Disconnect)"
  shows "queued t c (publish (dm_bus D) t p) = queued t c (dm_bus D) @ [p]"
proof -
  obtain i sb where sb: "map_of (cn_subs c) t = Some i" "find_sub (dm_bus D) t i = Some sb" and ok: "bus_ok (dm_bus D)"
    using assms(1) by (auto simp: relay_ok_def)
  have "sb_queue (put_nowait sb p) = sb_queue sb @ [p]"
    using find_sub_ok[OF ok sb(2)] assms(2) by (simp add: put_nowait_def queue_full_def)
  with sb ok show ?thesis by (simp add: queued_def find_sub_publish)
qed

lemma relay_runs:
  "relay t ps s s' \<Longrightarrow> map_of topic_config t = Some (0, Disconnect) \<Longrightarrow> relay_ok t s \<Longrightarrow>
   relay_ok t s' \<and> in_flight t s' = in_flight t s @ ps"
proof (induction rule: relay.induct)
  case (move ps s s' l E s'')
  with relay_move[of t s' E l s''] show ?case by simp
next
  case (others ps s c D D')
  then show ?case by (auto simp: relay_ok_def in_flight_def queued_def split: option.splits)
next
  case (published ps s c D p)
  then have ok: "relay_ok t (c, D)" by simp
  have "relay_ok t (c, set_bus (publish (dm_bus D) t p) D)"
    using ok by (auto simp: relay_ok_def publish_ok find_sub_publish)
  with published queued_publish[OF ok, of p] show ?case by (simp add: in_flight_def)
qed simp

section \<open>Properties\<close>

text \<open>
  C16: Nothing happens before the handshake: as long as the first frame read on a connection is
  not a hello of a compatible version (none was read, it was malformed, or it was any other
  frame), no step of the connection changes the daemon, it has no subscription, and what was
  written to it is the daemon's own hello, pings and refusals.
\<close>

theorem nothing_before_the_handshake:
  assumes "conn_reach ls (c, D)" and "conn_step E l (c, D) (c', D')"
    and "reads (ls @ [l]) = [] \<or> \<not> greets (hd (reads (ls @ [l])))"
  shows "D' = D \<and> cn_subs c' = [] \<and> cn_out c' = [] \<and> cn_phase c' \<in> {Greeting, Ended} \<and>
    set (cn_sent c') \<subseteq> {Hello protocol_version [], Ping} \<union> {make_error_response [] msg code | msg code. True}"
proof -
  have l: "reads (ls @ [l]) = reads ls @ reads [l]" by (simp add: reads_def)
  have "reads ls = [] \<or> \<not> greets (hd (reads ls))" using assms(3) by (auto simp: l)
  then have inv: "conn_inv (reads ls @ reads [l]) c'" and D: "D' = D"
    using conn_step_inv[OF _ assms(2), of "reads ls"] conn_reach_inv[OF assms(1)] by simp_all
  have "quiet_sent c'" "cn_phase c' \<in> {Greeting, Ended}"
    using inv assms(3) unfolding l by (auto simp: conn_inv_def split: if_splits)
  with D show ?thesis by (auto simp: quiet_sent_def)
qed

text \<open>
  C14: Responses come in the order of the requests, one for each: on any connection, whatever the
  interleaving of its tasks and of the rest of the daemon, the ids of the responses written so
  far are the first of the ids of the requests read; as long as the reader goes on and the pipe
  is not broken, those not yet written are waiting to be.
\<close>

theorem responses_follow_requests:
  assumes "conn_reach ls (c, D)" and "reads ls \<noteq> []" and "greets (hd (reads ls))"
  shows "(\<exists>rest. request_ids (reads ls) = response_ids (cn_sent c) @ rest) \<and>
    (cn_writer c \<and> cn_phase c \<noteq> Ended \<longrightarrow>
       request_ids (reads ls) = response_ids (cn_sent c @ cn_out c @ answering c))"
  using conn_reach_inv[OF assms(1)] assms(2,3)
  by (auto simp: conn_inv_def matched_def split: if_splits)

lemma own_hello: "greets (Inr (Hello protocol_version []))"
proof -
  have "versions_compatible protocol_version protocol_version" by code_simp
  then show ?thesis by (simp add: greets_def)
qed

text \<open>A sample: a hello and one request are read, and the response is written.\<close>

definition sample_labels :: "conn_label list" where
  "sample_labels = [L_read (Inr (Hello protocol_version [])), L_read (Inr (Request ''q'' M_arm_killswitch [])),
     L_put, L_write]"

definition sample_conn :: conn where
  "sample_conn = accept\<lparr>cn_phase := Serving, cn_sent := [Hello protocol_version [],
     make_ok_response ''q'' [(''ok'', JBool True)]]\<rparr>"

lemma sample_run: "conn_reach sample_labels (sample_conn, new_daemon\<lparr>dm_stop := True\<rparr>)"
proof -
  let ?c = "accept\<lparr>cn_phase := Serving\<rparr>" and ?D = "new_daemon\<lparr>dm_stop := True\<rparr>"
  let ?f = "make_ok_response ''q'' [(''ok'', JBool True)]"
  have o: "cn_open accept" "cn_writer accept" "cn_phase accept = Greeting" "\<not> cn_stop accept" "cn_out accept = []"
    "cn_sent accept = [Hello protocol_version []]"
    by (simp_all add: accept_def)
  have h: "read_hello (Inr (Hello protocol_version [])) accept = ?c"
    using own_hello by (simp add: read_hello_def greets_def loop_check_def o)
  have 1: "conn_step sample_env (L_read (Inr (Hello protocol_version []))) (accept, new_daemon) (?c, new_daemon)"
    using conn_step.greet[OF o(1,3), of sample_env "Inr (Hello protocol_version [])" new_daemon] by (simp only: h)
  have g: "map_of dispatch_table M_arm_killswitch = Some h_arm_killswitch" by (simp add: dispatch_table_def)
  have "h_arm_killswitch sample_env [] new_daemon = (Inr [(''ok'', JBool True)], ?D)"
    by (simp add: h_arm_killswitch_def arm_def)
  from dispatch_ok[OF g this] have r: "read_one sample_env (Inr (Request ''q'' M_arm_killswitch [])) (?c, new_daemon) =
      (?c\<lparr>cn_phase := Answering ?f\<rparr>, ?D)"
    by (simp add: read_one_def)
  have 2: "conn_step sample_env (L_read (Inr (Request ''q'' M_arm_killswitch []))) (?c, new_daemon)
      (?c\<lparr>cn_phase := Answering ?f\<rparr>, ?D)"
    using conn_step.serve[OF _ _ r] o by (simp add: loop_check_def)
  have 3: "conn_step sample_env L_put (?c\<lparr>cn_phase := Answering ?f\<rparr>, ?D) (?c\<lparr>cn_out := [?f]\<rparr>, ?D)"
    using conn_step.put[of "?c\<lparr>cn_phase := Answering ?f\<rparr>" sample_env ?D] o
    by (simp add: put_answer_def has_room_def outbound_max_def loop_check_def)
  have 4: "conn_step sample_env L_write (?c\<lparr>cn_out := [?f]\<rparr>, ?D) (sample_conn, ?D)"
    using conn_step.write1[of "?c\<lparr>cn_out := [?f]\<rparr>" sample_env ?D] o
    by (simp add: write_one_def writer_check_def sample_conn_def accept_def)
  note step = conn_reach.stepped
  from step[OF step[OF step[OF step[OF conn_reach.accepted 1] 2] 3] 4]
  show ?thesis by (simp add: sample_labels_def)
qed

theorem nothing_before_the_handshake_witness:
  "conn_step sample_env (L_read (Inr Ping)) (accept, new_daemon) (read_hello (Inr Ping) accept, new_daemon) \<and>
   cn_phase (read_hello (Inr Ping) accept) \<in> {Greeting, Ended} \<and> cn_subs (read_hello (Inr Ping) accept) = []"
proof -
  have "cn_open accept" "cn_phase accept = Greeting" by (simp_all add: accept_def)
  from conn_step.greet[OF this]
  have r: "conn_step sample_env (L_read (Inr Ping)) (accept, new_daemon) (read_hello (Inr Ping) accept, new_daemon)" .
  have "reads ([] @ [L_read (Inr Ping)]) = [] \<or> \<not> greets (hd (reads ([] @ [L_read (Inr Ping)])))"
    by (simp add: reads_def greets_def)
  from nothing_before_the_handshake[OF conn_reach.accepted r this] r show ?thesis by blast
qed

theorem responses_follow_requests_witness:
  "request_ids (reads sample_labels) = [''q''] \<and>
   [''q''] = response_ids (cn_sent sample_conn @ cn_out sample_conn @ answering sample_conn)"
proof -
  have rs: "reads sample_labels = [Inr (Hello protocol_version []), Inr (Request ''q'' M_arm_killswitch [])]"
    by (simp add: reads_def sample_labels_def)
  have "reads sample_labels \<noteq> []" "greets (hd (reads sample_labels))" using own_hello by (simp_all add: rs)
  from responses_follow_requests[OF sample_run this]
  have "request_ids (reads sample_labels) = response_ids (cn_sent sample_conn @ cn_out sample_conn @ answering sample_conn)"
    by (simp add: sample_conn_def accept_def)
  then show ?thesis by (simp add: rs)
qed


text \<open>
  C13: Closed connections leave no subscription behind: whatever happens on any number of
  connections and in the daemon, the subscribers of a topic are those there were before the
  server started and one for each open connection that has the topic among its subscriptions.
\<close>

theorem no_subscription_leaks:
  assumes "server_reach D0 (D, cs)" and "bus_ok (dm_bus D0)"
  shows "subscriber_count (dm_bus D) t =
     subscriber_count (dm_bus D0) t + length (filter (\<lambda>c. cn_open c \<and> t \<in> fst ` set (cn_subs c)) cs)"
proof -
  from server_reach_inv[OF assms] have inv:
    "\<forall>c\<in>set cs. distinct (map fst (cn_subs c)) \<and> (\<not> cn_open c \<longrightarrow> cn_subs c = [])"
    "mset (ids_on (dm_bus D) t) = mset (ids_on (dm_bus D0) t) + mset (concat (map (own t) cs))"
    by (simp_all add: server_inv_def)
  have "length (ids_on (dm_bus D) t) = length (ids_on (dm_bus D0) t) + length (concat (map (own t) cs))"
    using arg_cong[OF inv(2), of size] by (simp only: size_mset size_union)
  then show ?thesis by (simp add: owned_count[OF inv(1)] ids_on_def subscriber_count_def)
qed

theorem no_subscription_leaks_witness:
  "\<exists>c D. server_reach new_daemon (D, [c]) \<and> \<not> cn_open c \<and> subscriber_count (dm_bus D) T_runs = 0"
proof -
  let ?c = "accept\<lparr>cn_phase := Ended, cn_writer := False, cn_stop := True\<rparr>"
  have 1: "server_reach new_daemon (new_daemon, [accept])"
    using server_reach.step[OF server_reach.start server_step.connect] by simp
  have o: "cn_open accept" "cn_writer accept" "cn_out accept = []" by (simp_all add: accept_def)
  from server_step.client[of 0 "[accept]", OF _ conn_step.broken[of "[accept] ! 0", of sample_env]] o
  have 2: "server_step (new_daemon, [accept]) (new_daemon, [break_pipe accept])" by simp
  have b: "cn_open (break_pipe accept)" "\<not> cn_writer (break_pipe accept)" using o by (simp_all add: break_pipe_def)
  obtain c D where h: "hang_up (break_pipe accept, new_daemon) = (c, D)" by fastforce
  have 3: "server_step (new_daemon, [break_pipe accept]) (D, [c])"
    using server_step.client[of 0 "[break_pipe accept]" sample_env L_hang_up new_daemon c D]
      conn_step.hang[of "break_pipe accept" sample_env new_daemon] b h by simp
  have r: "server_reach new_daemon (D, [c])"
    by (rule server_reach.step[OF server_reach.step[OF 1 2] 3])
  have c: "\<not> cn_open c" using h by (auto simp: hang_up_def)
  have "bus_ok (dm_bus new_daemon)" "subscriber_count (dm_bus new_daemon) T_runs = 0"
    using new_bus_ok by (simp_all add: dm_bus_def new_daemon_def new_executor_def subscriber_count_def new_bus_def)
  with no_subscription_leaks[OF r, of T_runs] c have "subscriber_count (dm_bus D) T_runs = 0" by simp
  with c r show ?thesis by blast
qed

text \<open>
  C15: What happens to the runs reaches a subscribed client whole and in order: as long as the
  writer's pipe holds, the payloads published on the run topic are, after those on their way
  before and each once, the payloads written to the client followed by those queued for it; in
  particular once the queues are empty all have been written.
\<close>

theorem run_events_reach_the_client:
  assumes "relay T_runs ps (c, D) (c', D')" and "relay_ok T_runs (c, D)"
  shows "in_flight T_runs (c', D') = in_flight T_runs (c, D) @ ps \<and>
    (cn_out c' = [] \<and> cn_held c' = [] \<and> queued T_runs c' (dm_bus D') = [] \<longrightarrow>
       event_payloads T_runs (cn_sent c') = in_flight T_runs (c, D) @ ps)"
proof -
  have "map_of topic_config T_runs = Some (0, Disconnect)" by (simp add: topic_config_def)
  from relay_runs[OF assms(1) this assms(2)] show ?thesis by (auto simp: in_flight_def held_def)
qed

theorem run_events_reach_the_client_witness:
  "\<exists>c D c' D'. relay T_runs [[(''k'', JNull)]] (c, D) (c', D') \<and> relay_ok T_runs (c, D) \<and>
     in_flight T_runs (c', D') = [[(''k'', JNull)]] \<and> event_payloads T_runs (cn_sent c') = [[(''k'', JNull)]]"
proof -
  let ?p = "[(''k'', JNull)]" and ?c = "accept\<lparr>cn_phase := Serving, cn_subs := [(T_runs, 0)]\<rparr>"
  let ?sb = "\<lparr>sb_id = 0, sb_cap = 0, sb_policy = Disconnect, sb_queue = [], sb_disconnected = False\<rparr>"
  obtain b where sub: "subscribe new_bus T_runs = Inr (?sb, b)"
    by (simp add: subscribe_def new_subscriber_def topic_config_def new_bus_def)
  have ok: "bus_ok b" by (rule subscribe_ok[OF new_bus_ok sub])
  have f: "find_sub b T_runs 0 = Some ?sb"
    using sub by (auto simp: subscribe_def new_subscriber_def topic_config_def new_bus_def find_sub_def)
  let ?D = "set_bus b new_daemon" and ?b = "publish b T_runs ?p"
  have rok: "relay_ok T_runs (?c, ?D)" using ok f by (simp add: relay_ok_def accept_def)
  have fp: "find_sub ?b T_runs 0 = Some (?sb\<lparr>sb_queue := [?p]\<rparr>)"
    using f by (simp add: find_sub_publish[OF ok] put_nowait_def queue_full_def)
  have 1: "relay T_runs [?p] (?c, ?D) (?c, set_bus ?b ?D)"
    using relay.published[OF relay.still[of T_runs "(?c, ?D)"], of ?p] by simp
  let ?c2 = "?c\<lparr>cn_held := [(T_runs, ?p)]\<rparr>" and ?D2 = "set_bus (take_one ?b T_runs 0) (set_bus ?b ?D)"
  have "forward_take T_runs (?c, set_bus ?b ?D) = (?c2, ?D2)"
    using fp by (simp add: forward_take_def accept_def get_nowait_def)
  then have "conn_step sample_env (L_take T_runs) (?c, set_bus ?b ?D) (?c2, ?D2)"
    using conn_step.take[of ?c sample_env T_runs "set_bus ?b ?D"] by (simp add: accept_def)
  from relay.move[OF 1 _ this] have 2: "relay T_runs [?p] (?c, ?D) (?c2, ?D2)" by simp
  let ?c3 = "?c\<lparr>cn_out := [Event T_runs ?p]\<rparr>"
  have "conn_step sample_env (L_forward T_runs) (?c2, ?D2) (?c3, ?D2)"
    using conn_step.forward[of ?c2 sample_env T_runs ?D2]
    by (simp add: forward_put_def accept_def has_room_def outbound_max_def)
  from relay.move[OF 2 _ this] have 3: "relay T_runs [?p] (?c, ?D) (?c3, ?D2)" by simp
  let ?c4 = "?c\<lparr>cn_sent := [Hello protocol_version [], Event T_runs ?p]\<rparr>"
  have "conn_step sample_env L_write (?c3, ?D2) (?c4, ?D2)"
    using conn_step.write1[of ?c3 sample_env ?D2] by (simp add: write_one_def writer_check_def accept_def)
  from relay.move[OF 3 _ this] have 4: "relay T_runs [?p] (?c, ?D) (?c4, ?D2)" by simp
  have "in_flight T_runs (?c, ?D) = []" using f by (simp add: in_flight_def held_def queued_def accept_def)
  with run_events_reach_the_client[OF 4 rok] have i: "in_flight T_runs (?c4, ?D2) = [?p]" by simp
  have "event_payloads T_runs (cn_sent ?c4) = [?p]" by simp
  with 4 rok i show ?thesis by blast
qed

text \<open>
  A client that subscribes to the voice topic, which the protocol defines, loses its
  connection: the reader's task dies of the exception without a word to the client, the topics
  before it in the frame stay subscribed until the handler hangs up, which it then does.
\<close>

theorem voice_subscription_ends_connection:
  assumes "cn_open c" and "cn_phase c = Serving" and "T_voice \<notin> fst ` set (cn_subs c)"
  shows "\<exists>c1 D1 c2 D2. conn_step E (L_read (Inr (Subscribe (T_voice # ts)))) (c, D) (c1, D1) \<and>
     cn_phase c1 = Ended \<and> cn_sent c1 = cn_sent c \<and> cn_out c1 = cn_out c \<and> D1 = D \<and>
     conn_step E L_hang_up (c1, D1) (c2, D2) \<and> \<not> cn_open c2 \<and> cn_sent c2 = cn_sent c"
proof -
  have "subscribe (dm_bus D) T_voice = Inl (KeyError ''voice'')"
    by (simp add: subscribe_def new_subscriber_def topic_config_def)
  then have r: "read_one E (Inr (Subscribe (T_voice # ts))) (c, D) = (crash_reader c, D)"
    using assms(3) by (simp add: read_one_def)
  have l: "loop_check (crash_reader c) = crash_reader c" by (simp add: loop_check_def crash_reader_def)
  have 1: "conn_step E (L_read (Inr (Subscribe (T_voice # ts)))) (c, D) (crash_reader c, D)"
    using conn_step.serve[OF assms(1,2) r] by (simp only: l)
  have "cn_open (crash_reader c)" "cn_phase (crash_reader c) = Ended \<or> \<not> cn_writer (crash_reader c)"
    using assms(1) by (simp_all add: crash_reader_def)
  from conn_step.hang[OF this, of E D] have 2: "conn_step E L_hang_up (crash_reader c, D) (hang_up (crash_reader c, D))" .
  with 1 show ?thesis
    by (intro exI[of _ "crash_reader c"] exI[of _ D] exI[of _ "fst (hang_up (crash_reader c, D))"]
        exI[of _ "snd (hang_up (crash_reader c, D))"]) (simp add: crash_reader_def hang_up_def)
qed

theorem voice_subscription_ends_connection_witness:
  "\<exists>c1 D1 c2 D2. conn_step sample_env (L_read (Inr (Subscribe (T_voice # [T_runs])))) (sample_conn, new_daemon) (c1, D1) \<and>
     cn_phase c1 = Ended \<and> conn_step sample_env L_hang_up (c1, D1) (c2, D2) \<and> \<not> cn_open c2"
proof -
  have "cn_open sample_conn" "cn_phase sample_conn = Serving" "T_voice \<notin> fst ` set (cn_subs sample_conn)"
    by (simp_all add: sample_conn_def accept_def)
  from voice_subscription_ends_connection[OF this] show ?thesis by blast
qed

end
