(* ===== verification/Client.thy ===== *)
theory Client
  imports Server
begin

text \<open>
  \<open>src/src/agent/client/connection.py\<close>: the client's end of a connection, with its pending
  requests, the queue its event iterator drains, and the read loop that serves both; and what
  the caller of a request gets for the frames that come back.
\<close>

section \<open>State\<close>

text \<open>A future: awaited, or resolved with the result and the error of a response.\<close>

datatype future = Awaited | Resolved "params option" "string dict option"

record client =
  cl_pending :: "string list"
  cl_futures :: "(string \<times> future) list"
  cl_events :: "(topic \<times> params) option list"
  cl_written :: "frame list"
  cl_reading :: bool

definition new_client :: client where
  "new_client = \<lparr>cl_pending = [], cl_futures = [], cl_events = [], cl_written = [], cl_reading = False\<rparr>"

datatype client_error = Daemon_unavailable | Protocol_mismatch string | Rpc_error string string
  | Frame_error py_exc

section \<open>Connecting\<close>

text \<open>The daemon's hello is read, checked and answered; then the read loop is started.\<close>

definition client_connect :: "frame res \<Rightarrow> client \<Rightarrow> client_error + client" where
  "client_connect r k = (case r of
      Inl e \<Rightarrow> Inl (Frame_error e)
    | Inr (Hello v cs) \<Rightarrow>
        if \<not> versions_compatible v protocol_version
        then Inl (Protocol_mismatch (''version mismatch: daemon='' @ v @ '' client='' @ protocol_version))
        else Inr (k\<lparr>cl_written := cl_written k @ [Hello protocol_version []], cl_reading := True\<rparr>)
    | Inr f \<Rightarrow> Inl (Protocol_mismatch ''expected hello frame from daemon''))"

section \<open>The read loop\<close>

text \<open>A frame that cannot be read ends the loop: the sentinel is queued for the events.\<close>

definition end_loop :: "client \<Rightarrow> client" where
  "end_loop k = k\<lparr>cl_reading := False, cl_events := cl_events k @ [None]\<rparr>"

definition resolve_future :: "string \<Rightarrow> params option \<Rightarrow> string dict option \<Rightarrow> client \<Rightarrow> client" where
  "resolve_future i r e k =
     (if i \<notin> set (cl_pending k) then k
      else k\<lparr>cl_pending := removeAll i (cl_pending k),
             cl_futures := (if map_of (cl_futures k) i = Some Awaited
                            then AList.update i (Resolved r e) (cl_futures k) else cl_futures k)\<rparr>)"

definition client_read :: "frame res \<Rightarrow> client \<Rightarrow> client" where
  "client_read r k =
     (if \<not> cl_reading k then k
      else case r of
        Inl e \<Rightarrow> end_loop k
      | Inr (Response i res e) \<Rightarrow> resolve_future i res e k
      | Inr (Event t p) \<Rightarrow> k\<lparr>cl_events := cl_events k @ [Some (t, p)]\<rparr>
      | Inr f \<Rightarrow> k)"

definition client_read_all :: "frame res list \<Rightarrow> client \<Rightarrow> client" where
  "client_read_all rs k = foldl (\<lambda>k r. client_read r k) k rs"

section \<open>Requests, subscriptions, events\<close>

text \<open>\<open>request\<close> up to its await, with the new uuid, and from there.\<close>

definition send_request :: "string \<Rightarrow> rpc_method \<Rightarrow> params \<Rightarrow> client \<Rightarrow> client" where
  "send_request i m p k =
     k\<lparr>cl_pending := removeAll i (cl_pending k) @ [i], cl_futures := AList.update i Awaited (cl_futures k),
       cl_written := cl_written k @ [Request i m p]\<rparr>"

definition dict_get_or :: "string dict \<Rightarrow> string \<Rightarrow> string \<Rightarrow> string" where
  "dict_get_or d key dflt = (case dget d key of None \<Rightarrow> dflt | Some v \<Rightarrow> v)"

definition answer_of :: "future \<Rightarrow> (client_error + params) option" where
  "answer_of f = (case f of
      Awaited \<Rightarrow> None
    | Resolved res err \<Rightarrow> Some
        (case err of
           Some (kv # d) \<Rightarrow> Inl (Rpc_error (dict_get_or (kv # d) ''code'' ''error'')
                                  (dict_get_or (kv # d) ''message'' ''unknown error''))
         | _ \<Rightarrow> Inr (case res of None \<Rightarrow> [] | Some d \<Rightarrow> d)))"

text \<open>What the request with an id has returned so far: nothing, an error, a result.\<close>

definition outcome :: "string \<Rightarrow> client \<Rightarrow> (client_error + params) option" where
  "outcome i k = (case map_of (cl_futures k) i of None \<Rightarrow> None | Some f \<Rightarrow> answer_of f)"

definition client_subscribe :: "topic list \<Rightarrow> client \<Rightarrow> client" where
  "client_subscribe ts k = k\<lparr>cl_written := cl_written k @ [Subscribe ts]\<rparr>"

text \<open>
  One step of the event iterator: it waits on an empty queue, stops at the sentinel, yields
  otherwise.
\<close>

datatype 'a next_event = Waits | Stops | Yields 'a

definition next_event :: "client \<Rightarrow> (topic \<times> params) next_event \<times> client" where
  "next_event k = (case cl_events k of
      [] \<Rightarrow> (Waits, k)
    | None # es \<Rightarrow> (Stops, k\<lparr>cl_events := es\<rparr>)
    | Some e # es \<Rightarrow> (Yields e, k\<lparr>cl_events := es\<rparr>))"

section \<open>Lemmas\<close>

lemma read_all_simps [simp]:
  "client_read_all [] k = k" "client_read_all (r # rs) k = client_read_all rs (client_read r k)"
  "client_read_all (rs @ rs') k = client_read_all rs' (client_read_all rs k)"
  by (simp_all add: client_read_all_def)

definition other_frame :: "string \<Rightarrow> frame \<Rightarrow> bool" where
  "other_frame i f = (case f of Response j r e \<Rightarrow> j \<noteq> i | _ \<Rightarrow> True)"

definition waits_for :: "string \<Rightarrow> client \<Rightarrow> bool" where
  "waits_for i k \<longleftrightarrow> i \<in> set (cl_pending k) \<and> map_of (cl_futures k) i = Some Awaited"

lemma read_other:
  "other_frame i f \<Longrightarrow> waits_for i k \<Longrightarrow> cl_reading k \<Longrightarrow>
   waits_for i (client_read (Inr f) k) \<and> cl_reading (client_read (Inr f) k)"
  by (cases f) (auto simp: other_frame_def waits_for_def client_read_def resolve_future_def update_conv')

lemma read_others:
  "list_all (other_frame i) fs \<Longrightarrow> waits_for i k \<Longrightarrow> cl_reading k \<Longrightarrow>
   waits_for i (client_read_all (map Inr fs) k) \<and> cl_reading (client_read_all (map Inr fs) k)"
  by (induction fs arbitrary: k) (auto simp: read_other)

text \<open>A resolved future stays as it is.\<close>

lemma read_resolved:
  "i \<notin> set (cl_pending k) \<Longrightarrow>
   i \<notin> set (cl_pending (client_read r k)) \<and> map_of (cl_futures (client_read r k)) i = map_of (cl_futures k) i"
  by (auto simp: client_read_def end_loop_def resolve_future_def update_conv' split: sum.split frame.split)

lemma read_all_resolved:
  "i \<notin> set (cl_pending k) \<Longrightarrow> map_of (cl_futures (client_read_all rs k)) i = map_of (cl_futures k) i"
  by (induction rs arbitrary: k) (auto simp: read_resolved)

text \<open>What the caller of a request is given for the response of the daemon.\<close>

definition given :: "frame \<Rightarrow> (client_error + params) option" where
  "given f = (case f of Response i r e \<Rightarrow> answer_of (Resolved r e) | _ \<Rightarrow> None)"

lemma request_answered:
  assumes "cl_reading k" and "list_all (other_frame i) before"
  shows "outcome i (client_read_all (map Inr before @ Inr (Response i r e) # later) (send_request i m p k)) =
     answer_of (Resolved r e)"
proof -
  let ?k = "send_request i m p k"
  have "waits_for i ?k" "cl_reading ?k" using assms(1) by (simp_all add: send_request_def waits_for_def update_conv')
  then have w: "waits_for i (client_read_all (map Inr before) ?k)" "cl_reading (client_read_all (map Inr before) ?k)"
    using read_others[OF assms(2), of ?k] by simp_all
  then have "i \<notin> set (cl_pending (client_read (Inr (Response i r e)) (client_read_all (map Inr before) ?k)))"
    "map_of (cl_futures (client_read (Inr (Response i r e)) (client_read_all (map Inr before) ?k))) i = Some (Resolved r e)"
    by (simp_all add: client_read_def resolve_future_def waits_for_def update_conv')
  then show ?thesis by (simp add: outcome_def read_all_resolved)
qed

lemma not_reading: "\<not> cl_reading k \<Longrightarrow> client_read_all rs k = k"
  by (induction rs) (simp_all add: client_read_def)

definition read_events :: "frame list \<Rightarrow> (topic \<times> params) list" where
  "read_events fs = concat (map (\<lambda>f. case f of Event t p \<Rightarrow> [(t, p)] | _ \<Rightarrow> []) fs)"

lemma read_all_events:
  "cl_reading k \<Longrightarrow> cl_reading (client_read_all (map Inr fs) k) \<and>
   cl_events (client_read_all (map Inr fs) k) = cl_events k @ map Some (read_events fs)"
proof (induction fs arbitrary: k)
  case (Cons f fs)
  then have "cl_reading (client_read (Inr f) k)"
    "cl_events (client_read (Inr f) k) = cl_events k @ map Some (read_events [f])"
    by (cases f; simp add: client_read_def resolve_future_def read_events_def)+
  with Cons.IH show ?case by (cases f) (auto simp: read_events_def)
qed (simp add: read_events_def)

fun drain :: "nat \<Rightarrow> client \<Rightarrow> (topic \<times> params) list \<times> bool" where
  "drain 0 k = ([], False)"
| "drain (Suc n) k = (case next_event k of
      (Yields e, k') \<Rightarrow> (let (es, stopped) = drain n k' in (e # es, stopped))
    | (Stops, k') \<Rightarrow> ([], True)
    | (Waits, k') \<Rightarrow> ([], False))"

lemma drain_events:
  "cl_events k = map Some es @ tail \<Longrightarrow> length es < n \<Longrightarrow>
   drain n k = (es, tail \<noteq> [] \<and> hd tail = None) \<or> tail \<noteq> [] \<and> hd tail \<noteq> None"
proof (induction n arbitrary: k es)
  case (Suc n)
  show ?case
  proof (cases es)
    case Nil
    then show ?thesis using Suc.prems by (cases tail) (auto simp: next_event_def split: option.split)
  next
    case (Cons e es')
    with Suc.IH[of "k\<lparr>cl_events := map Some es' @ tail\<rparr>" es'] Suc.prems show ?thesis
      by (auto simp: next_event_def)
  qed
qed simp

section \<open>Properties\<close>

text \<open>
  C17: A caller gets what the daemon's dispatch gave for its own request: whatever other frames
  arrive before (responses to other requests, events, pings) and whatever is read or goes wrong
  after, the request returns the result of the handler, or raises the error with the code and
  the message the dispatch made of the exception.
\<close>

theorem caller_gets_dispatch_result:
  assumes "cl_reading k" and "list_all (other_frame i) before" and "fst (dispatch E i m p D) = Inr f"
  shows "outcome i (client_read_all (map Inr before @ Inr f # later) (send_request i m p k)) =
     (case map_of dispatch_table m of None \<Rightarrow> None | Some h \<Rightarrow>
       Some (case fst (h E p D) of Inr result \<Rightarrow> Inr result | Inl e \<Rightarrow> Inl (Rpc_error (error_code e) (exc_str e))))"
proof -
  obtain h where h: "map_of dispatch_table m = Some h" using dispatch_table_total by blast
  obtain r D' where r: "h E p D = (r, D')" by fastforce
  show ?thesis
  proof (cases r)
    case (Inr res)
    with h r assms(3) have "f = Response i (Some res) None" by (simp add: dispatch_def make_ok_response_def)
    with request_answered[OF assms(1,2)] h r Inr show ?thesis by (simp add: answer_of_def)
  next
    case (Inl e)
    with h r assms(3) have "f = Response i None (Some [(''code'', error_code e), (''message'', exc_str e)])"
      by (simp add: dispatch_def make_error_response_def split: if_splits)
    with request_answered[OF assms(1,2)] h r Inl show ?thesis
      by (simp add: answer_of_def dict_get_or_def)
  qed
qed

text \<open>
  When the connection ends, the event iterator stops and a request waits for ever: after a
  frame that cannot be read, iterating yields the events received so far in their order and
  stops, while a request whose response had not come has no outcome whatever is read later, and
  neither has one sent after the end.
\<close>

theorem lost_connection:
  assumes "cl_reading k" and "cl_events k = []" and "waits_for i k" and "list_all (other_frame i) fs"
  shows "let k' = client_read_all (map Inr fs @ [Inl e]) k in
     drain (Suc (length (read_events fs))) k' = (read_events fs, True) \<and>
     outcome i (client_read_all later k') = None \<and>
     outcome j (client_read_all later (send_request j m p k')) = None"
proof -
  let ?k = "client_read_all (map Inr fs) k" and ?k' = "client_read_all (map Inr fs @ [Inl e]) k"
  have r: "cl_reading ?k" "cl_events ?k = map Some (read_events fs)" using read_all_events[OF assms(1), of fs] assms(2) by simp_all
  have w: "waits_for i ?k" using read_others[OF assms(4,3,1)] by simp
  have k': "?k' = end_loop ?k" using r(1) by (simp add: client_read_def)
  then have n: "\<not> cl_reading ?k'" "\<not> cl_reading (send_request j m p ?k')"
    by (simp_all add: end_loop_def send_request_def)
  have "cl_events ?k' = map Some (read_events fs) @ [None]" unfolding k' by (simp add: end_loop_def r)
  from drain_events[OF this, of "Suc (length (read_events fs))"]
  have "drain (Suc (length (read_events fs))) ?k' = (read_events fs, True)" by (simp only: lessI list.sel) simp
  moreover have "outcome i ?k' = None" using w unfolding k' by (simp add: end_loop_def outcome_def waits_for_def answer_of_def)
  moreover have "outcome j (send_request j m p ?k') = None"
    by (simp add: send_request_def outcome_def answer_of_def update_conv')
  ultimately show ?thesis using not_reading n by (simp add: Let_def)
qed

theorem caller_gets_dispatch_result_witness:
  "outcome ''q'' (client_read_all (map Inr [Ping] @ Inr (make_ok_response ''q'' [(''ok'', JBool True)]) # [Inl CancelledError])
     (send_request ''q'' M_arm_killswitch [] (new_client\<lparr>cl_reading := True\<rparr>))) = Some (Inr [(''ok'', JBool True)])"
proof -
  have g: "map_of dispatch_table M_arm_killswitch = Some h_arm_killswitch" by (simp add: dispatch_table_def)
  have h: "h_arm_killswitch sample_env [] new_daemon = (Inr [(''ok'', JBool True)], new_daemon\<lparr>dm_stop := arm (dm_stop new_daemon)\<rparr>)"
    by (simp add: h_arm_killswitch_def)
  have "fst (dispatch sample_env ''q'' M_arm_killswitch [] new_daemon) = Inr (make_ok_response ''q'' [(''ok'', JBool True)])"
    by (simp add: dispatch_ok[OF g h])
  from caller_gets_dispatch_result[OF _ _ this, of "new_client\<lparr>cl_reading := True\<rparr>" "[Ping]" "[Inl CancelledError]"]
  show ?thesis by (simp add: g h other_frame_def)
qed

theorem lost_connection_witness:
  "let k' = client_read_all (map Inr [Event T_logs []] @ [Inl (FrameParseError [])])
       (send_request ''q'' M_get_run [] (new_client\<lparr>cl_reading := True\<rparr>)) in
     drain (Suc (length (read_events [Event T_logs []]))) k' = (read_events [Event T_logs []], True) \<and>
     outcome ''q'' (client_read_all [Inr Ping] k') = None \<and>
     outcome ''w'' (client_read_all [Inr Ping] (send_request ''w'' M_get_run [] k')) = None"
  by (rule lost_connection)
    (simp_all add: send_request_def new_client_def waits_for_def other_frame_def update_conv')

end
