(* ===== verification/Voice_Config.thy ===== *)
theory Voice_Config
  imports Config
begin

text \<open>
  \<open>src/src/agent/voice/config.py\<close>: the sections of \<open>voice.yaml\<close> with their defaults and the
  loader, in the manner of the daemon's own configuration.  The file is given by the value
  \<open>yaml.safe_load\<close> returns; \<open>runtime_dir\<close> is \<open>XDG_RUNTIME_DIR\<close> (or its default).
\<close>

section \<open>Records\<close>

definition voice_known_keys :: "string list" where
  "voice_known_keys =
     [''tts'', ''audio'', ''templates'', ''privacy'', ''stt'', ''ptt'', ''wakeword'', ''vad'', ''handsfree'']"

record tts_config =
  vt_engine :: string
  vt_voice :: string
  vt_speed :: real

record audio_config =
  va_output_device :: string
  va_sample_rate :: int

record template_config =
  vm_run_started :: string
  vm_run_completed :: string
  vm_run_errored :: string
  vm_run_aborted :: string

record privacy_config =
  vp_redact_patterns :: "string list"

record stt_config =
  vs_engine :: string
  vs_model :: string
  vs_language :: "string option"
  vs_device :: string
  vs_compute_type :: string

record ptt_config =
  vpt_enabled :: bool
  vpt_socket :: string
  vpt_record_timeout :: real
  vpt_silence_seconds :: real
  vpt_brain :: string

record wakeword_config =
  vw_engine :: string
  vw_model :: string
  vw_sensitivity :: real
  vw_wake_words :: "string list"

record vad_config =
  vv_engine :: string
  vv_threshold :: real
  vv_min_speech_ms :: int

record handsfree_config =
  vh_enabled :: bool
  vh_record_timeout :: real
  vh_brain :: string

record voice_config =
  vo_tts :: tts_config
  vo_audio :: audio_config
  vo_templates :: template_config
  vo_privacy :: privacy_config
  vo_stt :: stt_config
  vo_ptt :: ptt_config
  vo_wakeword :: wakeword_config
  vo_vad :: vad_config
  vo_handsfree :: handsfree_config

definition default_redact_patterns :: "string list" where
  "default_redact_patterns = [''token'', ''secret'', ''password'', ''api[_-]?key'']"

definition default_tts :: tts_config where
  "default_tts = \<lparr>vt_engine = ''piper'', vt_voice = ''it_IT-paola-medium'', vt_speed = 1\<rparr>"

definition default_audio :: audio_config where
  "default_audio = \<lparr>va_output_device = ''default'', va_sample_rate = 22050\<rparr>"

definition default_templates :: template_config where
  "default_templates =
     \<lparr>vm_run_started = ''Avvio: {task}'', vm_run_completed = ''Fatto'',
      vm_run_errored = ''Errore: {error_short}'', vm_run_aborted = ''Annullato''\<rparr>"

definition default_stt :: stt_config where
  "default_stt =
     \<lparr>vs_engine = ''faster-whisper'', vs_model = ''tiny'', vs_language = None, vs_device = ''auto'',
      vs_compute_type = ''default''\<rparr>"

text \<open>The default of the socket is empty in the record; the loader fills it in.\<close>

definition default_ptt :: ptt_config where
  "default_ptt =
     \<lparr>vpt_enabled = False, vpt_socket = [], vpt_record_timeout = 10, vpt_silence_seconds = 3 / 2,
      vpt_brain = ''auto''\<rparr>"

definition default_wakeword :: wakeword_config where
  "default_wakeword =
     \<lparr>vw_engine = ''openwakeword'', vw_model = ''hey_computer'', vw_sensitivity = 1 / 2,
      vw_wake_words = [''computer'']\<rparr>"

definition default_vad :: vad_config where
  "default_vad = \<lparr>vv_engine = ''silero'', vv_threshold = 1 / 2, vv_min_speech_ms = 250\<rparr>"

definition default_handsfree :: handsfree_config where
  "default_handsfree = \<lparr>vh_enabled = False, vh_record_timeout = 10, vh_brain = ''auto''\<rparr>"

definition default_voice :: voice_config where
  "default_voice =
     \<lparr>vo_tts = default_tts, vo_audio = default_audio, vo_templates = default_templates,
      vo_privacy = \<lparr>vp_redact_patterns = default_redact_patterns\<rparr>, vo_stt = default_stt,
      vo_ptt = default_ptt, vo_wakeword = default_wakeword, vo_vad = default_vad,
      vo_handsfree = default_handsfree\<rparr>"

section \<open>Section loaders\<close>

text \<open>\<open>raw = data.get(key, {}) or {}\<close> and its check; \<open>str(raw.get(k, default))\<close>.\<close>

definition voice_section :: "params \<Rightarrow> string \<Rightarrow> params res" where
  "voice_section data key = subsection_of data key (''voice.'' @ key)"

definition str_field :: "(json \<Rightarrow> string) \<Rightarrow> params \<Rightarrow> string \<Rightarrow> string \<Rightarrow> string" where
  "str_field other raw key dflt = py_str other (dget_or raw key (JStr dflt))"

definition float_field :: "(string \<Rightarrow> real option) \<Rightarrow> params \<Rightarrow> string \<Rightarrow> real \<Rightarrow> real res" where
  "float_field flt raw key dflt = py_float flt (dget_or raw key (JFloat dflt))"

definition int_field :: "params \<Rightarrow> string \<Rightarrow> int \<Rightarrow> int res" where
  "int_field raw key dflt = py_int (dget_or raw key (JInt dflt))"

definition load_tts :: "(json \<Rightarrow> string) \<Rightarrow> (string \<Rightarrow> real option) \<Rightarrow> params \<Rightarrow> tts_config res" where
  "load_tts other flt data =
     rbind (voice_section data ''tts'') (\<lambda>raw.
     rbind (float_field flt raw ''speed'' 1) (\<lambda>speed.
     Inr \<lparr>vt_engine = str_field other raw ''engine'' ''piper'',
          vt_voice = str_field other raw ''voice'' ''it_IT-paola-medium'', vt_speed = speed\<rparr>))"

definition load_audio :: "(json \<Rightarrow> string) \<Rightarrow> params \<Rightarrow> audio_config res" where
  "load_audio other data =
     rbind (voice_section data ''audio'') (\<lambda>raw.
     rbind (int_field raw ''sample_rate'' 22050) (\<lambda>rate.
     Inr \<lparr>va_output_device = str_field other raw ''output_device'' ''default'', va_sample_rate = rate\<rparr>))"

definition load_templates :: "(json \<Rightarrow> string) \<Rightarrow> params \<Rightarrow> template_config res" where
  "load_templates other data =
     rbind (voice_section data ''templates'') (\<lambda>raw.
     Inr \<lparr>vm_run_started = str_field other raw ''run_started'' ''Avvio: {task}'',
          vm_run_completed = str_field other raw ''run_completed'' ''Fatto'',
          vm_run_errored = str_field other raw ''run_errored'' ''Errore: {error_short}'',
          vm_run_aborted = str_field other raw ''run_aborted'' ''Annullato''\<rparr>)"

definition load_privacy :: "(json \<Rightarrow> string) \<Rightarrow> params \<Rightarrow> privacy_config res" where
  "load_privacy other data =
     rbind (voice_section data ''privacy'') (\<lambda>raw.
     case dget_or raw ''redact_patterns'' (JList (map JStr default_redact_patterns)) of
       JList ps \<Rightarrow> Inr \<lparr>vp_redact_patterns = map (py_str other) ps\<rparr>
     | _ \<Rightarrow> Inl (ConfigError ''voice.privacy.redact_patterns must be a list''))"

definition load_stt :: "(json \<Rightarrow> string) \<Rightarrow> params \<Rightarrow> stt_config res" where
  "load_stt other data =
     rbind (voice_section data ''stt'') (\<lambda>raw.
     Inr \<lparr>vs_engine = str_field other raw ''engine'' ''faster-whisper'',
          vs_model = str_field other raw ''model'' ''tiny'',
          vs_language = (case dget_or raw ''language'' JNull of JNull \<Rightarrow> None | v \<Rightarrow> Some (py_str other v)),
          vs_device = str_field other raw ''device'' ''auto'',
          vs_compute_type = str_field other raw ''compute_type'' ''default''\<rparr>)"

definition load_ptt ::
  "(json \<Rightarrow> string) \<Rightarrow> (string \<Rightarrow> real option) \<Rightarrow> string \<Rightarrow> params \<Rightarrow> ptt_config res" where
  "load_ptt other flt runtime_dir data =
     rbind (voice_section data ''ptt'') (\<lambda>raw.
     let socket = jor (dget_or raw ''socket'' (JStr []))
                    (JStr (runtime_dir @ ''/hyprland-agent-voice-ptt.sock'')) in
     rbind (float_field flt raw ''record_timeout'' 10) (\<lambda>timeout.
     rbind (float_field flt raw ''silence_seconds'' (3 / 2)) (\<lambda>silence.
     Inr \<lparr>vpt_enabled = truthy (dget_or raw ''enabled'' (JBool False)),
          vpt_socket = py_str other socket, vpt_record_timeout = timeout,
          vpt_silence_seconds = silence, vpt_brain = str_field other raw ''brain'' ''auto''\<rparr>)))"

text \<open>Iterating over a value: the items of a list, the keys of a mapping.\<close>

fun words_of :: "(json \<Rightarrow> string) \<Rightarrow> json \<Rightarrow> string list res" where
  "words_of other (JStr w) = Inr [w]"
| "words_of other (JList ws) = Inr (map (py_str other) ws)"
| "words_of other (JObj d) = Inr (map fst d)"
| "words_of other _ = Inl (TypeError ''object is not iterable'')"

definition load_wakeword ::
  "(json \<Rightarrow> string) \<Rightarrow> (string \<Rightarrow> real option) \<Rightarrow> params \<Rightarrow> wakeword_config res" where
  "load_wakeword other flt data =
     rbind (voice_section data ''wakeword'') (\<lambda>raw.
     rbind (float_field flt raw ''sensitivity'' (1 / 2)) (\<lambda>sensitivity.
     rbind (words_of other (dget_or raw ''wake_words'' (JList [JStr ''computer'']))) (\<lambda>ws.
     Inr \<lparr>vw_engine = str_field other raw ''engine'' ''openwakeword'',
          vw_model = str_field other raw ''model'' ''hey_computer'',
          vw_sensitivity = sensitivity, vw_wake_words = ws\<rparr>)))"

definition load_vad :: "(json \<Rightarrow> string) \<Rightarrow> (string \<Rightarrow> real option) \<Rightarrow> params \<Rightarrow> vad_config res" where
  "load_vad other flt data =
     rbind (voice_section data ''vad'') (\<lambda>raw.
     rbind (float_field flt raw ''threshold'' (1 / 2)) (\<lambda>threshold.
     rbind (int_field raw ''min_speech_duration_ms'' 250) (\<lambda>ms.
     Inr \<lparr>vv_engine = str_field other raw ''engine'' ''silero'', vv_threshold = threshold,
          vv_min_speech_ms = ms\<rparr>)))"

definition load_handsfree ::
  "(json \<Rightarrow> string) \<Rightarrow> (string \<Rightarrow> real option) \<Rightarrow> params \<Rightarrow> handsfree_config res" where
  "load_handsfree other flt data =
     rbind (voice_section data ''handsfree'') (\<lambda>raw.
     rbind (float_field flt raw ''record_timeout'' 10) (\<lambda>timeout.
     Inr \<lparr>vh_enabled = truthy (dget_or raw ''enabled'' (JBool False)), vh_record_timeout = timeout,
          vh_brain = str_field other raw ''brain'' ''auto''\<rparr>))"

definition load_voice_config ::
  "(json \<Rightarrow> string) \<Rightarrow> (string \<Rightarrow> real option) \<Rightarrow> string \<Rightarrow> json option \<Rightarrow> voice_config res" where
  "load_voice_config other flt runtime_dir file = (case file of
      None \<Rightarrow> Inr default_voice
    | Some v \<Rightarrow>
        (case jor v (JObj []) of
           JObj data \<Rightarrow>
             (case List.find (\<lambda>kv. fst kv \<notin> set voice_known_keys) data of
                Some (key, _) \<Rightarrow> Inl (ConfigError (''voice.'' @ repr_str key @ '' is not a recognised key''))
              | None \<Rightarrow>
             rbind (load_tts other flt data) (\<lambda>tts.
             rbind (load_audio other data) (\<lambda>audio.
             rbind (load_templates other data) (\<lambda>templates.
             rbind (load_privacy other data) (\<lambda>privacy.
             rbind (load_stt other data) (\<lambda>stt.
             rbind (load_ptt other flt runtime_dir data) (\<lambda>ptt.
             rbind (load_wakeword other flt data) (\<lambda>wakeword.
             rbind (load_vad other flt data) (\<lambda>vad.
             rbind (load_handsfree other flt data) (\<lambda>handsfree.
             Inr \<lparr>vo_tts = tts, vo_audio = audio, vo_templates = templates, vo_privacy = privacy,
                  vo_stt = stt, vo_ptt = ptt, vo_wakeword = wakeword, vo_vad = vad,
                  vo_handsfree = handsfree\<rparr>))))))))))
         | _ \<Rightarrow> Inl (ConfigError ''voice config must be a YAML mapping at the top level'')))"

section \<open>What is accepted\<close>

text \<open>
  The files the loader accepts, stated on the data: the keys are known, each section is empty or
  a mapping, the numbers can be read as numbers, and the two lists are lists.
\<close>

definition section_raw :: "params \<Rightarrow> string \<Rightarrow> params option" where
  "section_raw data key = (case dget data key of
      None \<Rightarrow> Some []
    | Some v \<Rightarrow> if \<not> truthy v then Some [] else (case v of JObj d \<Rightarrow> Some d | _ \<Rightarrow> None))"

definition reads_as :: "(json \<Rightarrow> 'a res) \<Rightarrow> params \<Rightarrow> string \<Rightarrow> bool" where
  "reads_as conv raw key = (case dget raw key of None \<Rightarrow> True | Some v \<Rightarrow> \<exists>x. conv v = Inr x)"

definition section_wf :: "params \<Rightarrow> string \<Rightarrow> (params \<Rightarrow> bool) \<Rightarrow> bool" where
  "section_wf data key ok = (case section_raw data key of None \<Rightarrow> False | Some raw \<Rightarrow> ok raw)"

definition voice_wf :: "(string \<Rightarrow> real option) \<Rightarrow> params \<Rightarrow> bool" where
  "voice_wf flt data \<longleftrightarrow>
     (\<forall>key\<in>set (map fst data). key \<in> set voice_known_keys) \<and>
     section_wf data ''tts'' (\<lambda>raw. reads_as (py_float flt) raw ''speed'') \<and>
     section_wf data ''audio'' (\<lambda>raw. reads_as py_int raw ''sample_rate'') \<and>
     section_wf data ''templates'' (\<lambda>raw. True) \<and>
     section_wf data ''privacy'' (\<lambda>raw. case dget raw ''redact_patterns'' of
        None \<Rightarrow> True | Some v \<Rightarrow> \<exists>ps. v = JList ps) \<and>
     section_wf data ''stt'' (\<lambda>raw. True) \<and>
     section_wf data ''ptt'' (\<lambda>raw. reads_as (py_float flt) raw ''record_timeout'' \<and>
        reads_as (py_float flt) raw ''silence_seconds'') \<and>
     section_wf data ''wakeword'' (\<lambda>raw. reads_as (py_float flt) raw ''sensitivity'' \<and>
        (case dget raw ''wake_words'' of
           None \<Rightarrow> True | Some v \<Rightarrow> (\<exists>w. v = JStr w) \<or> (\<exists>ws. v = JList ws) \<or> (\<exists>d. v = JObj d))) \<and>
     section_wf data ''vad'' (\<lambda>raw. reads_as (py_float flt) raw ''threshold'' \<and>
        reads_as py_int raw ''min_speech_duration_ms'') \<and>
     section_wf data ''handsfree'' (\<lambda>raw. reads_as (py_float flt) raw ''record_timeout'')"

lemma voice_section_raw:
  "voice_section data key = (case section_raw data key of
     None \<Rightarrow> Inl (ConfigError (''voice.'' @ key @ '' must be a mapping'')) | Some d \<Rightarrow> Inr d)"
  by (auto simp: voice_section_def subsection_of_def section_raw_def dget_or_def jor_def
      split: option.split json.split)

lemma field_reads:
  "(\<exists>x. float_field flt raw key d = Inr x) \<longleftrightarrow> reads_as (py_float flt) raw key"
  "(\<exists>x. int_field raw key n = Inr x) \<longleftrightarrow> reads_as py_int raw key"
  by (auto simp: float_field_def int_field_def reads_as_def dget_or_def split: option.split)

lemma rbind_ok: "(\<exists>y. rbind r f = Inr y) \<longleftrightarrow> (\<exists>x. r = Inr x \<and> (\<exists>y. f x = Inr y))"
  by (cases r) auto

lemma words_ok: "(\<exists>x. words_of other v = Inr x) \<longleftrightarrow> (\<exists>w. v = JStr w) \<or> (\<exists>ws. v = JList ws) \<or> (\<exists>d. v = JObj d)"
  by (cases v) auto

lemma section_loads:
  "(\<exists>y. rbind (voice_section data key) f = Inr y) \<longleftrightarrow> section_wf data key (\<lambda>raw. \<exists>y. f raw = Inr y)"
  by (simp add: voice_section_raw section_wf_def split: option.split)

lemma sections_ok:
  "(\<exists>x. load_tts other flt data = Inr x) \<longleftrightarrow> section_wf data ''tts'' (\<lambda>raw. reads_as (py_float flt) raw ''speed'')"
  "(\<exists>x. load_audio other data = Inr x) \<longleftrightarrow> section_wf data ''audio'' (\<lambda>raw. reads_as py_int raw ''sample_rate'')"
  "(\<exists>x. load_templates other data = Inr x) \<longleftrightarrow> section_wf data ''templates'' (\<lambda>raw. True)"
  "(\<exists>x. load_stt other data = Inr x) \<longleftrightarrow> section_wf data ''stt'' (\<lambda>raw. True)"
  "(\<exists>x. load_ptt other flt rd data = Inr x) \<longleftrightarrow> section_wf data ''ptt'' (\<lambda>raw.
     reads_as (py_float flt) raw ''record_timeout'' \<and> reads_as (py_float flt) raw ''silence_seconds'')"
  "(\<exists>x. load_vad other flt data = Inr x) \<longleftrightarrow> section_wf data ''vad'' (\<lambda>raw.
     reads_as (py_float flt) raw ''threshold'' \<and> reads_as py_int raw ''min_speech_duration_ms'')"
  "(\<exists>x. load_handsfree other flt data = Inr x) \<longleftrightarrow>
     section_wf data ''handsfree'' (\<lambda>raw. reads_as (py_float flt) raw ''record_timeout'')"
  unfolding load_tts_def load_audio_def load_templates_def load_stt_def load_ptt_def load_vad_def
    load_handsfree_def section_loads rbind_ok Let_def
  by (simp_all add: field_reads)

lemma lists_ok:
  "(\<exists>x. load_privacy other data = Inr x) \<longleftrightarrow> section_wf data ''privacy'' (\<lambda>raw.
     case dget raw ''redact_patterns'' of None \<Rightarrow> True | Some v \<Rightarrow> \<exists>ps. v = JList ps)"
  "(\<exists>x. load_wakeword other flt data = Inr x) \<longleftrightarrow> section_wf data ''wakeword'' (\<lambda>raw.
     reads_as (py_float flt) raw ''sensitivity'' \<and> (case dget raw ''wake_words'' of
        None \<Rightarrow> True | Some v \<Rightarrow> (\<exists>w. v = JStr w) \<or> (\<exists>ws. v = JList ws) \<or> (\<exists>d. v = JObj d)))"
proof -
  have p: "(\<exists>y. (case dget_or raw ''redact_patterns'' (JList (map JStr default_redact_patterns)) of
        JList ps \<Rightarrow> Inr \<lparr>vp_redact_patterns = map (py_str other) ps\<rparr>
      | _ \<Rightarrow> Inl (ConfigError ''voice.privacy.redact_patterns must be a list'')) = Inr y) \<longleftrightarrow>
      (case dget raw ''redact_patterns'' of None \<Rightarrow> True | Some v \<Rightarrow> \<exists>ps. v = JList ps)" for raw
    by (cases "dget raw ''redact_patterns''"; cases "the (dget raw ''redact_patterns'')") (simp_all add: dget_or_def)
  show "(\<exists>x. load_privacy other data = Inr x) \<longleftrightarrow> section_wf data ''privacy'' (\<lambda>raw.
     case dget raw ''redact_patterns'' of None \<Rightarrow> True | Some v \<Rightarrow> \<exists>ps. v = JList ps)"
    unfolding load_privacy_def section_loads p ..
  have w: "(\<exists>y. words_of other (dget_or raw ''wake_words'' (JList [JStr ''computer''])) = Inr y) \<longleftrightarrow>
      (case dget raw ''wake_words'' of
        None \<Rightarrow> True | Some v \<Rightarrow> (\<exists>w. v = JStr w) \<or> (\<exists>ws. v = JList ws) \<or> (\<exists>d. v = JObj d))" for raw
    by (simp add: words_ok dget_or_def split: option.split)
  show "(\<exists>x. load_wakeword other flt data = Inr x) \<longleftrightarrow> section_wf data ''wakeword'' (\<lambda>raw.
     reads_as (py_float flt) raw ''sensitivity'' \<and> (case dget raw ''wake_words'' of
        None \<Rightarrow> True | Some v \<Rightarrow> (\<exists>w. v = JStr w) \<or> (\<exists>ws. v = JList ws) \<or> (\<exists>d. v = JObj d)))"
    unfolding load_wakeword_def section_loads rbind_ok by (simp add: w field_reads)
qed

lemma sections_wf:
  "voice_wf flt data \<longleftrightarrow> (\<forall>key\<in>set (map fst data). key \<in> set voice_known_keys) \<and>
     (\<exists>x. load_tts other flt data = Inr x) \<and> (\<exists>x. load_audio other data = Inr x) \<and>
     (\<exists>x. load_templates other data = Inr x) \<and> (\<exists>x. load_privacy other data = Inr x) \<and>
     (\<exists>x. load_stt other data = Inr x) \<and> (\<exists>x. load_ptt other flt rd data = Inr x) \<and>
     (\<exists>x. load_wakeword other flt data = Inr x) \<and> (\<exists>x. load_vad other flt data = Inr x) \<and>
     (\<exists>x. load_handsfree other flt data = Inr x)"
  unfolding voice_wf_def sections_ok lists_ok ..

lemma load_voice_ok:
  "(\<exists>c. load_voice_config other flt rd (Some v) = Inr c) \<longleftrightarrow> (\<exists>data. jor v (JObj []) = JObj data \<and>
     List.find (\<lambda>kv. fst kv \<notin> set voice_known_keys) data = None \<and>
     (\<exists>x. load_tts other flt data = Inr x) \<and> (\<exists>x. load_audio other data = Inr x) \<and>
     (\<exists>x. load_templates other data = Inr x) \<and> (\<exists>x. load_privacy other data = Inr x) \<and>
     (\<exists>x. load_stt other data = Inr x) \<and> (\<exists>x. load_ptt other flt rd data = Inr x) \<and>
     (\<exists>x. load_wakeword other flt data = Inr x) \<and> (\<exists>x. load_vad other flt data = Inr x) \<and>
     (\<exists>x. load_handsfree other flt data = Inr x))"
proof (cases "jor v (JObj [])")
  case (JObj data)
  show ?thesis
  proof (cases "List.find (\<lambda>kv. fst kv \<notin> set voice_known_keys) data")
    case None
    have e: "(\<exists>c. load_voice_config other flt rd (Some v) = Inr c) \<longleftrightarrow>
        (\<exists>c. rbind (load_tts other flt data) (\<lambda>tts. rbind (load_audio other data) (\<lambda>audio.
             rbind (load_templates other data) (\<lambda>templates. rbind (load_privacy other data) (\<lambda>privacy.
             rbind (load_stt other data) (\<lambda>stt. rbind (load_ptt other flt rd data) (\<lambda>ptt.
             rbind (load_wakeword other flt data) (\<lambda>wakeword. rbind (load_vad other flt data) (\<lambda>vad.
             rbind (load_handsfree other flt data) (\<lambda>handsfree.
             Inr \<lparr>vo_tts = tts, vo_audio = audio, vo_templates = templates, vo_privacy = privacy,
                  vo_stt = stt, vo_ptt = ptt, vo_wakeword = wakeword, vo_vad = vad,
                  vo_handsfree = handsfree\<rparr>))))))))) = Inr c)"
      by (simp add: load_voice_config_def JObj None)
    show ?thesis unfolding e rbind_ok using JObj None by auto
  qed (use JObj in \<open>auto simp: load_voice_config_def\<close>)
qed (simp_all add: load_voice_config_def)

section \<open>Properties\<close>

text \<open>
  The voice configuration is loaded exactly when it is well formed: the file is empty or a
  mapping, its keys are known, each section is empty or a mapping, the numbers can be read as
  numbers, the redaction patterns are a list and the wake words can be iterated; every other
  file is refused, so no section is silently replaced by its defaults.
\<close>

theorem voice_config_accepts_well_formed:
  "(\<exists>c. load_voice_config other flt rd (Some v) = Inr c) \<longleftrightarrow>
     (\<exists>data. jor v (JObj []) = JObj data \<and> voice_wf flt data)"
proof -
  have "List.find (\<lambda>kv. fst kv \<notin> set voice_known_keys) data = None \<longleftrightarrow>
      (\<forall>key\<in>set (map fst data). key \<in> set voice_known_keys)" for data :: params
    by (auto simp: find_None)
  then show ?thesis unfolding load_voice_ok sections_wf[of flt _ other rd] by simp
qed

end
