(* ===== verification/Redact.thy ===== *)
theory Redact
  imports Regex "HOL-Library.Sublist"
begin

text \<open>
  \<open>src/src/agent/voice/redact.py\<close>: what the voice sidecar removes from a text before it is
  spoken.  Substitution is the left-to-right scan of \<open>re.sub\<close>; none of the patterns matches the
  empty string, so a match always moves the scan on.
\<close>

section \<open>Substitution\<close>

text \<open>The end of the match \<open>re\<close> finds at a position.\<close>

definition match_at :: "rx \<Rightarrow> string \<Rightarrow> nat \<Rightarrow> nat option" where
  "match_at r s i = (case filter (\<lambda>j. i < j) (rx_ends r s i) of [] \<Rightarrow> None | j # _ \<Rightarrow> Some j)"

lemma match_at_forward: "match_at r s i = Some j \<Longrightarrow> i < j"
proof -
  have "filter (\<lambda>j. i < j) xs = j # ys \<Longrightarrow> i < j" for xs ys
    by (induction xs) (auto split: if_splits)
  then show "match_at r s i = Some j \<Longrightarrow> i < j" by (auto simp: match_at_def split: list.splits)
qed

function sub_from :: "rx \<Rightarrow> string \<Rightarrow> string \<Rightarrow> nat \<Rightarrow> string" where
  "sub_from r rep s i =
     (if length s \<le> i then []
      else case match_at r s i of
             None \<Rightarrow> s ! i # sub_from r rep s (Suc i)
           | Some j \<Rightarrow> rep @ sub_from r rep s j)"
  by pat_completeness auto
termination
  by (relation "measure (\<lambda>(_, _, s, i). length s - i)") (auto dest: match_at_forward)

declare sub_from.simps [simp del]

definition redacted :: string where "redacted = ''[REDACTED]''"

section \<open>Portable patterns\<close>

definition key_class :: rx where
  "key_class = RCls False [(CHR ''A'', CHR ''Z''), (CHR ''a'', CHR ''z''), (CHR ''0'', CHR ''9''), (CHR ''-'', CHR ''-'')]"

definition base64_class :: rx where
  "base64_class = RCls False [(CHR ''A'', CHR ''Z''), (CHR ''a'', CHR ''z''), (CHR ''0'', CHR ''9''),
     (CHR ''+'', CHR ''+''), (CHR ''/'', CHR ''/'')]"

definition not_in_path :: "(char \<times> char) list" where
  "not_in_path = [(CHR 0x09, CHR 0x0D), (CHR 0x1C, CHR 0x20), (CHR '','', CHR '',''), (CHR '';'', CHR '';''),
     (CHR '':'', CHR '':''), (CHR '')'', CHR '')'')]"

definition portable_patterns :: "rx list" where
  "portable_patterns =
     [RSeq (r_str ''sk-'') (r_at_least 20 key_class),
      RSeq (r_at_least 40 base64_class) (RStar (r_chr CHR ''='')),
      RSeq (r_str ''/home/'')
        (RSeq (r_plus (RCls True [(CHR ''/'', CHR ''/''), (CHR 0x09, CHR 0x0D), (CHR 0x1C, CHR 0x20)]))
              (r_opt (RSeq (r_chr CHR ''/'') (RStar (RCls True not_in_path))))),
      RSeq (r_str ''~/'') (r_plus (RCls True not_in_path))]"

section \<open>Keyword patterns\<close>

text \<open>
  \<open>(?i)(k1|k2|...)\s*[:=]\s*\S+\<close>: the alternation is matched on the lower-case text (the keyword
  patterns are in lower case), and its end is kept for the replacement.
\<close>

definition value_tail :: rx where
  "value_tail = RSeq (RStar r_space) (RSeq (RCls False [(CHR '':'', CHR '':''), (CHR ''='', CHR ''='')])
     (RSeq (RStar r_space) (r_plus r_nonspace)))"

fun r_any_of :: "rx list \<Rightarrow> rx" where
  "r_any_of [] = REps"
| "r_any_of [r] = r"
| "r_any_of (r # rs) = RAlt r (r_any_of rs)"

definition keyword_at :: "rx list \<Rightarrow> string \<Rightarrow> nat \<Rightarrow> (nat \<times> nat) option" where
  "keyword_at kws s i =
     (case concat (map (\<lambda>m. map (\<lambda>j. (m, j)) (filter (\<lambda>j. i < j) (rx_ends value_tail (lower s) m)))
        (rx_ends (r_any_of kws) (lower s) i)) of
        [] \<Rightarrow> None | mj # _ \<Rightarrow> Some mj)"

lemma keyword_at_forward: "keyword_at kws s i = Some (m, j) \<Longrightarrow> i < j"
proof -
  assume k: "keyword_at kws s i = Some (m, j)"
  let ?l = "concat (map (\<lambda>m. map (\<lambda>j. (m, j)) (filter (\<lambda>j. i < j) (rx_ends value_tail (lower s) m)))
        (rx_ends (r_any_of kws) (lower s) i))"
  have "(m, j) \<in> set ?l" using k unfolding keyword_at_def by (cases ?l) auto
  then show "i < j" by auto
qed

function sub_keywords :: "rx list \<Rightarrow> string \<Rightarrow> nat \<Rightarrow> string" where
  "sub_keywords kws s i =
     (if length s \<le> i then []
      else case keyword_at kws s i of
             None \<Rightarrow> s ! i # sub_keywords kws s (Suc i)
           | Some (m, j) \<Rightarrow> take (m - i) (drop i s) @ ''='' @ redacted @ sub_keywords kws s j)"
  by pat_completeness auto
termination
  by (relation "measure (\<lambda>(_, s, i). length s - i)") (auto dest: keyword_at_forward)

declare sub_keywords.simps [simp del]

definition redact_for_tts :: "rx list \<Rightarrow> string \<Rightarrow> string" where
  "redact_for_tts kws text =
     (let portable = foldl (\<lambda>t r. sub_from r redacted t 0) text portable_patterns
      in if kws = [] then portable else sub_keywords kws portable 0)"

text \<open>The keyword patterns of the default configuration.\<close>

definition default_keywords :: "rx list" where
  "default_keywords =
     [r_str ''token'', r_str ''secret'', r_str ''password'',
      RSeq (r_str ''api'') (RSeq (r_opt (RCls False [(CHR ''_'', CHR ''_''), (CHR ''-'', CHR ''-'')])) (r_str ''key''))]"

section \<open>Lemmas\<close>

text \<open>
  A set of words is cleaned by a scan when every position where one of them starts is a match:
  the words have no character of the brackets, so none can arise around a replacement.
\<close>

definition clear_of :: "string set \<Rightarrow> string \<Rightarrow> bool" where
  "clear_of W s \<longleftrightarrow> (\<forall>w\<in>W. \<not> sublist w s)"

definition bracket_free :: "string set \<Rightarrow> bool" where
  "bracket_free W \<longleftrightarrow> (\<forall>w\<in>W. w \<noteq> [] \<and> CHR ''['' \<notin> set w \<and> CHR '']'' \<notin> set w \<and> CHR ''='' \<notin> set w \<and>
     \<not> sublist w ''REDACTED'')"

lemma sublist_at: "sublist w s \<longleftrightarrow> (\<exists>k\<le>length s. prefix w (drop k s))"
proof
  assume "sublist w s"
  then obtain u v where "s = u @ w @ v" by (auto simp: sublist_def)
  then show "\<exists>k\<le>length s. prefix w (drop k s)" by (intro exI[of _ "length u"]) simp
next
  assume "\<exists>k\<le>length s. prefix w (drop k s)"
  then obtain k v where "drop k s = w @ v" by (auto simp: prefix_def)
  then show "sublist w s" using append_take_drop_id[of k s] by (metis sublist_def)
qed

lemma sublist_avoid: "sublist w (xs @ c # ys) \<Longrightarrow> c \<notin> set w \<Longrightarrow> sublist w xs \<or> sublist w ys"
proof -
  assume w: "sublist w (xs @ c # ys)" and c: "c \<notin> set w"
  then obtain u v where e: "xs @ c # ys = u @ w @ v" by (auto simp: sublist_def)
  from e consider zs where "xs = u @ zs" "zs @ c # ys = w @ v" | zs where "u = xs @ zs" "c # ys = zs @ w @ v"
    by (auto simp: append_eq_append_conv2)
  then show ?thesis
  proof cases
    case 1
    then consider "\<exists>t. zs = w @ t" | t where "w = zs @ t" "c # ys = t @ v"
      by (auto simp: append_eq_append_conv2)
    then show ?thesis
    proof cases
      case 1
      then show ?thesis using \<open>xs = u @ zs\<close> by (auto simp: sublist_def)
    next
      case (2 t)
      with c have "t = []" by (cases t) auto
      with 2 \<open>xs = u @ zs\<close> have "xs = u @ w @ []" by simp
      then show ?thesis unfolding sublist_def by blast
    qed
  next
    case 2
    show ?thesis
    proof (cases zs)
      case Nil
      with 2 c have "w = []" by (cases w) auto
      then show ?thesis by simp
    qed (use 2 in \<open>auto simp: sublist_def\<close>)
  qed
qed

lemma clear_around:
  assumes "bracket_free W" and "clear_of W p" and "clear_of W q"
  shows "clear_of W (p @ redacted @ q)"
  unfolding clear_of_def
proof
  fix w assume w: "w \<in> W"
  then have b: "CHR ''['' \<notin> set w" "CHR '']'' \<notin> set w" "\<not> sublist w ''REDACTED''"
    using assms(1) by (auto simp: bracket_free_def)
  obtain mid where mid: "mid = ''REDACTED''" by simp
  then have "p @ redacted @ q = p @ CHR ''['' # (mid @ CHR '']'' # q)" by (simp add: redacted_def)
  then show "\<not> sublist w (p @ redacted @ q)"
    using sublist_avoid[of w p "CHR ''[''" "mid @ CHR '']'' # q"]
      sublist_avoid[of w mid "CHR '']''" q] b[folded mid] w assms(2,3)
    unfolding clear_of_def by metis
qed

text \<open>No word starts in the part already scanned, read together with what is left.\<close>

definition not_started :: "string set \<Rightarrow> string \<Rightarrow> string \<Rightarrow> bool" where
  "not_started W p q \<longleftrightarrow> (\<forall>k<length p. \<forall>w\<in>W. \<not> prefix w (drop k (p @ q)))"

lemma not_started_clear: "not_started W p q \<Longrightarrow> bracket_free W \<Longrightarrow> clear_of W p"
proof -
  assume p: "not_started W p q" and W: "bracket_free W"
  show "clear_of W p"
    unfolding clear_of_def
  proof
    fix w assume w: "w \<in> W"
    have "\<not> prefix w (drop k p)" if "k \<le> length p" for k
    proof (cases "k < length p")
      case True
      with p w have "\<not> prefix w (drop k (p @ q))" by (simp add: not_started_def)
      with True show ?thesis by (auto simp: prefix_def)
    next
      case False
      with that W w show ?thesis by (auto simp: bracket_free_def)
    qed
    then show "\<not> sublist w p" by (simp add: sublist_at)
  qed
qed

lemma not_started_next:
  assumes "not_started W p (drop i s)" and "\<forall>w\<in>W. \<not> prefix w (drop i s)" and "i < length s"
  shows "not_started W (p @ [s ! i]) (drop (Suc i) s)"
proof -
  have e: "(p @ [s ! i]) @ drop (Suc i) s = p @ drop i s" using assms(3) by (simp add: Cons_nth_drop_Suc)
  show ?thesis unfolding not_started_def e
  proof (intro allI impI)
    fix k assume "k < length (p @ [s ! i])"
    then consider "k < length p" | "k = length p" by fastforce
    then show "\<forall>w\<in>W. \<not> prefix w (drop k (p @ drop i s))"
      using assms(1,2) by cases (auto simp: not_started_def)
  qed
qed

lemma sub_from_clears:
  assumes "bracket_free W" and "\<And>i. i < length s \<Longrightarrow> match_at r s i = None \<Longrightarrow> \<forall>w\<in>W. \<not> prefix w (drop i s)"
  shows "not_started W p (drop i s) \<Longrightarrow> clear_of W (p @ sub_from r redacted s i)"
proof (induction "length s - i" arbitrary: i p rule: less_induct)
  case less
  show ?case
  proof (cases "length s \<le> i")
    case True
    then show ?thesis using not_started_clear[OF less.prems assms(1)] by (simp add: sub_from.simps)
  next
    case i: False
    show ?thesis
    proof (cases "match_at r s i")
      case None
      then have "not_started W (p @ [s ! i]) (drop (Suc i) s)"
        using not_started_next[OF less.prems] assms(2)[of i] i by simp
      with less.hyps[of "Suc i" "p @ [s ! i]"] i None show ?thesis
        by (simp add: sub_from.simps[of r redacted s i])
    next
      case (Some j)
      have "not_started W [] (drop j s)" by (simp add: not_started_def)
      with less.hyps[of j "[]"] match_at_forward[OF Some] i have "clear_of W (sub_from r redacted s j)" by simp
      with clear_around[OF assms(1) not_started_clear[OF less.prems assms(1)]] i Some show ?thesis
        by (simp add: sub_from.simps[of r redacted s i])
    qed
  qed
qed

lemma clear_not_started:
  assumes "clear_of W s"
  shows "\<forall>w\<in>W. \<not> prefix w (drop i s)"
proof (cases "i \<le> length s")
  case True
  with assms show ?thesis by (auto simp: clear_of_def sublist_at)
next
  case False
  with assms show ?thesis by (auto simp: clear_of_def)
qed

lemma sub_from_keeps_clear: "bracket_free W \<Longrightarrow> clear_of W s \<Longrightarrow> clear_of W (sub_from r redacted s 0)"
  using sub_from_clears[of W s r "[]" 0] by (simp add: clear_not_started not_started_def)

lemma rx_cls_step: "rx_rel s (RCls neg rs) i j \<longleftrightarrow> i < length s \<and> in_class neg rs (s ! i) \<and> j = Suc i"
  by (auto elim: rel_clsE intro: rel_cls)

lemma rx_times:
  assumes "i + n \<le> length s" and "\<forall>k<n. in_class neg rs (s ! (i + k))"
  shows "rx_rel s (r_times n (RCls neg rs)) i (i + n)"
  using assms
proof (induction n arbitrary: i)
  case (Suc n)
  have "rx_rel s (r_times n (RCls neg rs)) (Suc i) (Suc i + n)"
  proof (rule Suc.IH)
    show "\<forall>k<n. in_class neg rs (s ! (Suc i + k))" using Suc.prems(2) by (metis Suc_less_eq add_Suc add_Suc_right)
  qed (use Suc.prems in simp)
  moreover have "rx_rel s (RCls neg rs) i (Suc i)"
    using Suc.prems(1) Suc.prems(2)[rule_format, of 0] by (simp add: rx_cls_step)
  ultimately show ?case by (auto intro: rel_seq)
qed (simp add: rel_eps)

lemma match_at_some:
  assumes "rx_rel s r i j" and "i < j" and "i \<le> length s"
  shows "match_at r s i \<noteq> None"
proof -
  have "j \<in> set (filter (\<lambda>j. i < j) (rx_ends r s i))" using assms rx_ends_complete by simp
  then show ?thesis by (cases "filter (\<lambda>j. i < j) (rx_ends r s i)") (auto simp: match_at_def)
qed

definition key_char :: "char \<Rightarrow> bool" where
  "key_char c = in_class False [(CHR ''A'', CHR ''Z''), (CHR ''a'', CHR ''z''), (CHR ''0'', CHR ''9''), (CHR ''-'', CHR ''-'')] c"

definition base64_char :: "char \<Rightarrow> bool" where
  "base64_char c = in_class False [(CHR ''A'', CHR ''Z''), (CHR ''a'', CHR ''z''), (CHR ''0'', CHR ''9''),
     (CHR ''+'', CHR ''+''), (CHR ''/'', CHR ''/'')] c"

definition alnum :: "char \<Rightarrow> bool" where
  "alnum c = in_class False [(CHR ''A'', CHR ''Z''), (CHR ''a'', CHR ''z''), (CHR ''0'', CHR ''9'')] c"

text \<open>What must not be spoken: an API key, a long token, a path below somebody's home.\<close>

definition api_keys :: "string set" where
  "api_keys = {''sk-'' @ v | v. length v = 20 \<and> list_all key_char v}"

definition long_tokens :: "string set" where
  "long_tokens = {v. length v = 40 \<and> list_all base64_char v}"

definition home_paths :: "string set" where
  "home_paths = {''/home/'' @ [c] | c. alnum c}"

definition tilde_paths :: "string set" where
  "tilde_paths = {''~/'' @ [c] | c. alnum c}"

lemma prefix_nth: "prefix w (drop i s) \<Longrightarrow> k < length w \<Longrightarrow> s ! (i + k) = w ! k \<and> i + k < length s"
proof -
  assume "prefix w (drop i s)" and k: "k < length w"
  then obtain v where v: "drop i s = w @ v" by (auto simp: prefix_def)
  then have "length w \<le> length s - i" by (metis length_append length_drop le_add1)
  with k have "i + k < length s" by simp
  moreover have "drop i s ! k = w ! k" using v k by (simp add: nth_append)
  ultimately show ?thesis by simp
qed

lemma str_matched: "prefix (u @ v) (drop i s) \<Longrightarrow> i \<le> length s \<Longrightarrow> rx_rel s (r_str u) i (i + length u)"
  by (auto simp: rx_rel_str prefix_def)

lemma api_key_matched:
  assumes "w \<in> api_keys" and "prefix w (drop i s)" and "i < length s"
  shows "match_at (RSeq (r_str ''sk-'') (r_at_least 20 key_class)) s i \<noteq> None"
proof -
  obtain v where w: "w = ''sk-'' @ v" and v: "length v = 20" "list_all key_char v"
    using assms(1) by (auto simp: api_keys_def)
  have "rx_rel s (r_str ''sk-'') i (i + 3)"
    using str_matched[of "''sk-''" v i s] assms(2,3) w by (simp add: numeral_eq_Suc del: r_str.simps)
  moreover have "rx_rel s (r_times 20 key_class) (i + 3) (i + 3 + 20)"
    unfolding key_class_def
  proof (rule rx_times)
    have k: "s ! (i + 3 + k) = v ! k \<and> i + 3 + k < length s" if "k < 20" for k
      using prefix_nth[OF assms(2), of "3 + k"] that w v(1) by (simp add: add.assoc)
    then show "i + 3 + 20 \<le> length s" using k[of 19] by simp
    show "\<forall>k<20. in_class False [(CHR ''A'', CHR ''Z''), (CHR ''a'', CHR ''z''), (CHR ''0'', CHR ''9''), (CHR ''-'', CHR ''-'')] (s ! (i + 3 + k))"
      using k v by (auto simp: list_all_length key_char_def)
  qed
  ultimately have "rx_rel s (RSeq (r_str ''sk-'') (r_at_least 20 key_class)) i (i + 3 + 20)"
    unfolding r_at_least_def by (intro rel_seq) (auto intro: rel_star0)
  then show ?thesis by (rule match_at_some) (use assms(3) in auto)
qed

lemma token_matched:
  assumes "w \<in> long_tokens" and "prefix w (drop i s)" and "i < length s"
  shows "match_at (RSeq (r_at_least 40 base64_class) (RStar (r_chr CHR ''=''))) s i \<noteq> None"
proof -
  have w: "length w = 40" "list_all base64_char w" using assms(1) by (auto simp: long_tokens_def)
  have k: "s ! (i + k) = w ! k \<and> i + k < length s" if "k < 40" for k
    using prefix_nth[OF assms(2), of k] that w(1) by simp
  have "rx_rel s (r_times 40 base64_class) i (i + 40)"
    unfolding base64_class_def
  proof (rule rx_times)
    show "i + 40 \<le> length s" using k[of 39] by simp
    show "\<forall>k<40. in_class False [(CHR ''A'', CHR ''Z''), (CHR ''a'', CHR ''z''), (CHR ''0'', CHR ''9''),
     (CHR ''+'', CHR ''+''), (CHR ''/'', CHR ''/'')] (s ! (i + k))"
      using k w by (auto simp: list_all_length base64_char_def)
  qed
  then have "rx_rel s (RSeq (r_at_least 40 base64_class) (RStar (r_chr CHR ''=''))) i (i + 40)"
    unfolding r_at_least_def by (intro rel_seq) (auto intro: rel_star0)
  then show ?thesis by (rule match_at_some) (use assms(3) in auto)
qed

lemma ordc_range: "alnum c \<Longrightarrow> (65 \<le> ordc c \<and> ordc c \<le> 90) \<or> (97 \<le> ordc c \<and> ordc c \<le> 122) \<or> (48 \<le> ordc c \<and> ordc c \<le> 57)"
  by (auto simp: alnum_def in_class_def ordc_def)

lemma alnum_in_path:
  assumes "alnum c"
  shows "in_class True [(CHR ''/'', CHR ''/''), (CHR 0x09, CHR 0x0D), (CHR 0x1C, CHR 0x20)] c"
    and "in_class True not_in_path c"
  using ordc_range[OF assms] by (auto simp: in_class_def not_in_path_def ordc_def)

lemma home_matched:
  assumes "w \<in> home_paths" and "prefix w (drop i s)" and "i < length s"
  shows "match_at (RSeq (r_str ''/home/'')
        (RSeq (r_plus (RCls True [(CHR ''/'', CHR ''/''), (CHR 0x09, CHR 0x0D), (CHR 0x1C, CHR 0x20)]))
              (r_opt (RSeq (r_chr CHR ''/'') (RStar (RCls True not_in_path)))))) s i \<noteq> None"
proof -
  obtain c where w: "w = ''/home/'' @ [c]" and c: "alnum c" using assms(1) by (auto simp: home_paths_def)
  have "rx_rel s (r_str ''/home/'') i (i + 6)"
    using str_matched[of "''/home/''" "[c]" i s] assms(2,3) w by (simp add: numeral_eq_Suc del: r_str.simps)
  moreover have "s ! (i + 6) = c" "i + 6 < length s" using prefix_nth[OF assms(2), of 6] w by simp_all
  then have "rx_rel s (RCls True [(CHR ''/'', CHR ''/''), (CHR 0x09, CHR 0x0D), (CHR 0x1C, CHR 0x20)]) (i + 6) (Suc (i + 6))"
    using alnum_in_path(1)[OF c] by (simp only: rx_cls_step)
  then have "rx_rel s (RSeq (r_plus (RCls True [(CHR ''/'', CHR ''/''), (CHR 0x09, CHR 0x0D), (CHR 0x1C, CHR 0x20)]))
      (r_opt (RSeq (r_chr CHR ''/'') (RStar (RCls True not_in_path))))) (i + 6) (Suc (i + 6))"
    unfolding r_plus_def r_opt_def by (intro rel_seq rel_alt2) (auto intro: rel_star0 rel_eps)
  ultimately have "rx_rel s (RSeq (r_str ''/home/'')
        (RSeq (r_plus (RCls True [(CHR ''/'', CHR ''/''), (CHR 0x09, CHR 0x0D), (CHR 0x1C, CHR 0x20)]))
              (r_opt (RSeq (r_chr CHR ''/'') (RStar (RCls True not_in_path)))))) i (Suc (i + 6))"
    by (rule rel_seq)
  then show ?thesis by (rule match_at_some) (use assms(3) in auto)
qed

lemma tilde_matched:
  assumes "w \<in> tilde_paths" and "prefix w (drop i s)" and "i < length s"
  shows "match_at (RSeq (r_str ''~/'') (r_plus (RCls True not_in_path))) s i \<noteq> None"
proof -
  obtain c where w: "w = ''~/'' @ [c]" and c: "alnum c" using assms(1) by (auto simp: tilde_paths_def)
  have "rx_rel s (r_str ''~/'') i (i + 2)"
    using str_matched[of "''~/''" "[c]" i s] assms(2,3) w by (simp add: numeral_eq_Suc del: r_str.simps)
  moreover have "s ! (i + 2) = c" "i + 2 < length s" using prefix_nth[OF assms(2), of 2] w by simp_all
  then have "rx_rel s (RCls True not_in_path) (i + 2) (Suc (i + 2))"
    using alnum_in_path(2)[OF c] by (simp only: rx_cls_step)
  then have "rx_rel s (r_plus (RCls True not_in_path)) (i + 2) (Suc (i + 2))"
    unfolding r_plus_def by (intro rel_seq) (auto intro: rel_star0)
  ultimately have "rx_rel s (RSeq (r_str ''~/'') (r_plus (RCls True not_in_path))) i (Suc (i + 2))"
    by (rule rel_seq)
  then show ?thesis by (rule match_at_some) (use assms(3) in auto)
qed

lemma words_bracket_free:
  "bracket_free api_keys" "bracket_free long_tokens" "bracket_free home_paths" "bracket_free tilde_paths"
proof -
  obtain mid where mid: "mid = ''REDACTED''" by simp
  then have l8: "length mid = 8" and slash: "CHR ''/'' \<notin> set mid" by simp_all
  have len: "\<not> sublist w mid" if "8 < length w" for w
    using sublist_length_le[of w mid] that l8 by auto
  have out: "\<not> sublist w mid" if "CHR ''/'' \<in> set w" for w
    using set_mono_sublist[of w mid] slash that by blast
  have k: "\<not> key_char c \<and> \<not> base64_char c \<and> \<not> alnum c" if "c \<in> {CHR ''['', CHR '']'', CHR ''=''}" for c
    using that by (auto simp: key_char_def base64_char_def alnum_def in_class_def ordc_def)
  then have nk: "\<not> key_char CHR ''[''" "\<not> key_char CHR '']''" "\<not> key_char CHR ''=''"
    "\<not> base64_char CHR ''[''" "\<not> base64_char CHR '']''" "\<not> base64_char CHR ''=''"
    "\<not> alnum CHR ''[''" "\<not> alnum CHR '']''" "\<not> alnum CHR ''=''"
    by simp_all
  show "bracket_free api_keys"
    unfolding bracket_free_def mid[symmetric] api_keys_def using nk len by (auto simp: list_all_iff)
  show "bracket_free long_tokens"
    unfolding bracket_free_def mid[symmetric] long_tokens_def using nk len by (auto simp: list_all_iff)
  show "bracket_free home_paths" "bracket_free tilde_paths"
    unfolding bracket_free_def mid[symmetric] home_paths_def tilde_paths_def using nk out by auto
qed

lemma sub_from_clears_all:
  assumes "bracket_free W" and "\<And>w i. w \<in> W \<Longrightarrow> prefix w (drop i s) \<Longrightarrow> i < length s \<Longrightarrow> match_at r s i \<noteq> None"
  shows "clear_of W (sub_from r redacted s 0)"
proof -
  have "\<forall>w\<in>W. \<not> prefix w (drop i s)" if "i < length s" "match_at r s i = None" for i
    using assms(2)[of _ i] that by blast
  then have "clear_of W ([] @ sub_from r redacted s 0)"
    by (rule sub_from_clears[OF assms(1)]) (simp_all add: not_started_def)
  then show ?thesis by simp
qed

lemma clear_sublist: "clear_of W s \<Longrightarrow> sublist t s \<Longrightarrow> clear_of W t"
  unfolding clear_of_def by (meson sublist_order.order.trans)

lemma clear_eq:
  assumes "bracket_free W" and "clear_of W p" and "clear_of W q"
  shows "clear_of W (p @ ''='' @ q)"
  unfolding clear_of_def
proof
  fix w assume w: "w \<in> W"
  then have "CHR ''='' \<notin> set w" using assms(1) by (simp add: bracket_free_def)
  then show "\<not> sublist w (p @ ''='' @ q)"
    using sublist_avoid[of w p "CHR ''=''" q] w assms(2,3) by (auto simp: clear_of_def)
qed

lemma sub_keywords_keeps_clear:
  assumes "bracket_free W"
  shows "clear_of W (p @ drop i s) \<Longrightarrow> clear_of W (p @ sub_keywords kws s i)"
proof (induction "length s - i" arbitrary: i p rule: less_induct)
  case less
  show ?case
  proof (cases "length s \<le> i")
    case True
    with less.prems show ?thesis by (simp add: sub_keywords.simps)
  next
    case i: False
    show ?thesis
    proof (cases "keyword_at kws s i")
      case None
      have "clear_of W ((p @ [s ! i]) @ drop (Suc i) s)" using less.prems i by (simp add: Cons_nth_drop_Suc)
      with less.hyps[of "Suc i" "p @ [s ! i]"] i None show ?thesis
        by (simp add: sub_keywords.simps[of kws s i])
    next
      case (Some mj)
      obtain m j where mj: "mj = (m, j)" by (cases mj)
      with Some have j: "i < j" by (auto dest: keyword_at_forward)
      have "drop i s = take (j - i) (drop i s) @ drop j s"
        using append_take_drop_id[of "j - i" "drop i s"] j by simp
      then have "p @ drop i s = (p @ take (j - i) (drop i s)) @ drop j s @ []" by simp
      then have "sublist (drop j s) (p @ drop i s)" unfolding sublist_def by blast
      then have "clear_of W (drop j s)" using clear_sublist less.prems by blast
      then have rest: "clear_of W (sub_keywords kws s j)" using less.hyps[of j "[]"] j i by simp
      have "p @ drop i s = [] @ (p @ take (m - i) (drop i s)) @ drop (m - i) (drop i s)"
        using append_take_drop_id[of "m - i" "drop i s"] by (simp del: drop_drop)
      then have "sublist (p @ take (m - i) (drop i s)) (p @ drop i s)" unfolding sublist_def by blast
      then have piece: "clear_of W (p @ take (m - i) (drop i s))" using clear_sublist less.prems by blast
      have "clear_of W []" using assms by (auto simp: clear_of_def bracket_free_def)
      from clear_eq[OF assms piece clear_around[OF assms this rest]] show ?thesis
        using i Some mj by (simp add: sub_keywords.simps[of kws s i])
    qed
  qed
qed

lemma portable_clear:
  "clear_of (api_keys \<union> long_tokens \<union> home_paths \<union> tilde_paths)
     (foldl (\<lambda>t r. sub_from r redacted t 0) text portable_patterns)"
proof -
  note keep = sub_from_keeps_clear
  note w = words_bracket_free
  let ?p1 = "RSeq (r_str ''sk-'') (r_at_least 20 key_class)"
  let ?p2 = "RSeq (r_at_least 40 base64_class) (RStar (r_chr CHR ''=''))"
  let ?p3 = "RSeq (r_str ''/home/'')
        (RSeq (r_plus (RCls True [(CHR ''/'', CHR ''/''), (CHR 0x09, CHR 0x0D), (CHR 0x1C, CHR 0x20)]))
              (r_opt (RSeq (r_chr CHR ''/'') (RStar (RCls True not_in_path)))))"
  let ?p4 = "RSeq (r_str ''~/'') (r_plus (RCls True not_in_path))"
  obtain t1 t2 t3 t4 where t: "t1 = sub_from ?p1 redacted text 0" "t2 = sub_from ?p2 redacted t1 0"
      "t3 = sub_from ?p3 redacted t2 0" "t4 = sub_from ?p4 redacted t3 0"
    by blast
  have "clear_of api_keys t1" unfolding t(1) by (rule sub_from_clears_all[OF w(1)]) (rule api_key_matched)
  moreover have "clear_of long_tokens t2" unfolding t(2) by (rule sub_from_clears_all[OF w(2)]) (rule token_matched)
  moreover have "clear_of home_paths t3" unfolding t(3) by (rule sub_from_clears_all[OF w(3)]) (rule home_matched)
  moreover have "clear_of tilde_paths t4" unfolding t(4) by (rule sub_from_clears_all[OF w(4)]) (rule tilde_matched)
  ultimately have "clear_of api_keys t4 \<and> clear_of long_tokens t4 \<and> clear_of home_paths t4 \<and> clear_of tilde_paths t4"
    using keep[OF w(1)] keep[OF w(2)] keep[OF w(3)] unfolding t by blast
  then show ?thesis by (auto simp: clear_of_def portable_patterns_def t)
qed

section \<open>Properties\<close>



end
