(* ===== verification/Audio.thy ===== *)
theory Audio
  imports Prelude
begin

text \<open>
  The audio side of the voice sidecar: \<open>src/src/agent/voice/ring_buffer.py\<close> (the circular
  buffer) and the block loop of \<open>voice/audio.py\<close>.  Samples are of any type with a silence \<open>z\<close>;
  a block of sound is given by whether its level is under the threshold.
\<close>

section \<open>Ring buffer\<close>

record 'a ring =
  rb_cap :: nat
  rb_buf :: "'a list"
  rb_pos :: nat
  rb_full :: bool

definition new_ring :: "'a \<Rightarrow> nat \<Rightarrow> 'a ring" where
  "new_ring z cap = \<lparr>rb_cap = cap, rb_buf = replicate cap z, rb_pos = 0, rb_full = False\<rparr>"

text \<open>Writing more than one sample into a buffer of capacity 0 is a broadcast error.\<close>

definition ring_write :: "'a list \<Rightarrow> 'a ring \<Rightarrow> 'a ring res" where
  "ring_write data r =
     (let n = length data; cap = rb_cap r; pos = rb_pos r; buf = rb_buf r; space = cap - pos in
      if n = 0 then Inr r
      else if cap \<le> n then
        (if cap = 0 \<and> n \<noteq> 1 then Inl (ValueError ''could not broadcast input array'')
         else Inr (r\<lparr>rb_buf := drop (n - cap) data, rb_pos := 0, rb_full := True\<rparr>))
      else
        (let buf' = (if n \<le> space then take pos buf @ data @ drop (pos + n) buf
                     else drop space data @ drop (n - space) (take pos buf) @ take space data);
             pos' = (pos + n) mod cap
         in Inr (r\<lparr>rb_buf := buf', rb_pos := pos',
                   rb_full := (pos' = 0 \<or> \<not> rb_full r \<and> cap \<le> pos' + n) \<or> rb_full r\<rparr>)))"

definition ring_read :: "'a ring \<Rightarrow> 'a list" where
  "ring_read r =
     (if \<not> rb_full r \<and> rb_pos r = 0 then []
      else if rb_full r then drop (rb_pos r) (rb_buf r) @ take (rb_pos r) (rb_buf r)
      else take (rb_pos r) (rb_buf r))"

definition ring_clear :: "'a \<Rightarrow> 'a ring \<Rightarrow> 'a ring" where
  "ring_clear z r = r\<lparr>rb_buf := replicate (length (rb_buf r)) z, rb_pos := 0, rb_full := False\<rparr>"

definition ring_len :: "'a ring \<Rightarrow> nat" where
  "ring_len r = (if rb_full r then rb_cap r else rb_pos r)"

section \<open>Recording\<close>

text \<open>
  The blocks the microphone gives are \<open>chunk i\<close>, \<open>quiet\<close> those under the threshold; \<open>halt i\<close> is
  the stop event when block \<open>i\<close> is about to be read.
\<close>

definition max_blocks :: "real \<Rightarrow> real \<Rightarrow> nat" where
  "max_blocks seconds block = nat \<lceil>seconds / block\<rceil>"

function record_from ::
  "(nat \<Rightarrow> 'c) \<Rightarrow> ('c \<Rightarrow> bool) \<Rightarrow> (nat \<Rightarrow> bool) \<Rightarrow> nat \<Rightarrow> nat \<Rightarrow> nat \<Rightarrow> nat \<Rightarrow> 'c list" where
  "record_from chunk quiet halt limit m i silence =
     (if halt i \<or> m \<le> i then []
      else
        (let silence' = (if quiet (chunk i) then silence + 1 else 0)
         in if limit \<le> silence' \<and> limit < i + 1 then [chunk i]
            else chunk i # record_from chunk quiet halt limit m (i + 1) silence'))"
  by pat_completeness auto
termination
  by (relation "measure (\<lambda>(_, _, _, _, m, i, _). m - i)") auto

declare record_from.simps [simp del]

definition record_blocks ::
  "(nat \<Rightarrow> 'c) \<Rightarrow> ('c \<Rightarrow> bool) \<Rightarrow> (nat \<Rightarrow> bool) \<Rightarrow> real \<Rightarrow> real \<Rightarrow> real \<Rightarrow> 'c list" where
  "record_blocks chunk quiet halt block silence_seconds max_seconds =
     record_from chunk quiet halt (max_blocks silence_seconds block) (max_blocks max_seconds block) 0 0"

section \<open>Lemmas\<close>

text \<open>The abstraction: the last samples of what was written, after a silence that fills the buffer.\<close>

definition recent :: "'a \<Rightarrow> nat \<Rightarrow> 'a list \<Rightarrow> 'a list" where
  "recent z cap s = drop (length s) (replicate cap z @ s)"

definition ring_of :: "'a \<Rightarrow> 'a list \<Rightarrow> 'a ring \<Rightarrow> bool" where
  "ring_of z s r \<longleftrightarrow> length (rb_buf r) = rb_cap r \<and> rb_pos r < rb_cap r \<and>
     drop (rb_pos r) (rb_buf r) @ take (rb_pos r) (rb_buf r) = recent z (rb_cap r) s"

lemma recent_append: "recent z cap (s @ data) = drop (length data) (recent z cap s @ data)"
proof -
  have "recent z cap s @ data = drop (length s) ((replicate cap z @ s) @ data)"
    by (simp add: recent_def)
  then show ?thesis by (simp add: recent_def add.commute del: drop_append)
qed

lemma recent_length: "length (recent z cap s) = cap"
  by (simp add: recent_def)

lemma recent_long: "cap \<le> length s \<Longrightarrow> recent z cap s = drop (length s - cap) s"
  by (simp add: recent_def)

lemma recent_short: "length s \<le> cap \<Longrightarrow> recent z cap s = replicate (cap - length s) z @ s"
  by (simp add: recent_def)

lemma ring_of_new: "0 < cap \<Longrightarrow> ring_of z [] (new_ring z cap)"
  by (simp add: ring_of_def new_ring_def recent_def)

lemma ring_of_clear: "ring_of z s r \<Longrightarrow> ring_of z [] (ring_clear z r)"
  by (auto simp: ring_of_def ring_clear_def recent_def)

text \<open>A write moves the window.\<close>

lemma ring_of_write:
  assumes "ring_of z s r"
  shows "\<exists>r'. ring_write data r = Inr r' \<and> ring_of z (s @ data) r' \<and> rb_cap r' = rb_cap r"
proof -
  let ?n = "length data" and ?cap = "rb_cap r" and ?pos = "rb_pos r" and ?buf = "rb_buf r"
  let ?space = "?cap - ?pos"
  have b: "length ?buf = ?cap" "?pos < ?cap" and w: "drop ?pos ?buf @ take ?pos ?buf = recent z ?cap s"
    using assms by (simp_all add: ring_of_def)
  have next_w: "recent z ?cap (s @ data) = drop ?n ((drop ?pos ?buf @ take ?pos ?buf) @ data)"
    by (simp only: recent_append w)
  show ?thesis
  proof (cases "?n = 0")
    case True
    with assms show ?thesis by (simp add: ring_write_def)
  next
    case n0: False
    show ?thesis
    proof (cases "?cap \<le> ?n")
      case True
      have "drop (?n - ?cap) data = drop ?n ((drop ?pos ?buf @ take ?pos ?buf) @ data)"
        using b True by simp
      with n0 True b show ?thesis
        by (simp add: ring_write_def ring_of_def next_w Let_def)
    next
      case small: False
      show ?thesis
      proof (cases "?n \<le> ?space")
        case fits: True
        let ?buf' = "take ?pos ?buf @ data @ drop (?pos + ?n) ?buf"
        have len: "length ?buf' = ?cap" using b fits by simp
        have "drop ((?pos + ?n) mod ?cap) ?buf' @ take ((?pos + ?n) mod ?cap) ?buf' =
            drop ?n ((drop ?pos ?buf @ take ?pos ?buf) @ data)"
        proof (cases "?pos + ?n = ?cap")
          case True
          then show ?thesis using b by simp
        next
          case False
          then have "(?pos + ?n) mod ?cap = ?pos + ?n" using fits b by simp
          then show ?thesis using b fits False by (simp add: add.commute)
        qed
        with n0 small fits b len show ?thesis by (simp add: ring_write_def ring_of_def next_w Let_def)
      next
        case wraps: False
        let ?buf' = "drop ?space data @ drop (?n - ?space) (take ?pos ?buf) @ take ?space data"
        have len: "length ?buf' = ?cap" using b wraps small by simp
        have "?pos + ?n < 2 * ?cap" using b small by simp
        moreover have "?cap \<le> ?pos + ?n" using wraps by simp
        ultimately have "(?pos + ?n) mod ?cap = ?pos + ?n - ?cap"
          by (simp add: le_mod_geq)
        then have m: "(?pos + ?n) mod ?cap = ?n - ?space" using wraps b by simp
        have "drop (?n - ?space) ?buf' @ take (?n - ?space) ?buf' =
            drop ?n ((drop ?pos ?buf @ take ?pos ?buf) @ data)"
          using b wraps small by simp
        with n0 small wraps b len m show ?thesis by (simp add: ring_write_def ring_of_def next_w Let_def)
      qed
    qed
  qed
qed

fun ring_writes :: "'a list list \<Rightarrow> 'a ring \<Rightarrow> 'a ring res" where
  "ring_writes [] r = Inr r"
| "ring_writes (b # bs) r = rbind (ring_write b r) (ring_writes bs)"

lemma ring_writes_snoc: "ring_writes (bs @ [b]) r = rbind (ring_writes bs r) (ring_write b)"
proof (induction bs arbitrary: r)
  case Nil
  then show ?case by (cases "ring_write b r") simp_all
next
  case (Cons a bs)
  then show ?case by (cases "ring_write a r") simp_all
qed

lemma ring_of_writes:
  "ring_of z s r \<Longrightarrow> \<exists>r'. ring_writes bs r = Inr r' \<and> ring_of z (s @ concat bs) r' \<and> rb_cap r' = rb_cap r"
proof (induction bs arbitrary: s r)
  case (Cons b bs)
  from ring_of_write[OF Cons.prems, of b] obtain r1 where
    "ring_write b r = Inr r1" "ring_of z (s @ b) r1" "rb_cap r1 = rb_cap r" by blast
  with Cons.IH[of "s @ b" r1] show ?case by auto
qed simp

text \<open>What the read gives, by the flag.\<close>

lemma ring_read_full: "ring_of z s r \<Longrightarrow> rb_full r \<Longrightarrow> ring_read r = recent z (rb_cap r) s"
  by (simp add: ring_read_def ring_of_def)

lemma ring_read_part:
  assumes "ring_of z s r" and "\<not> rb_full r"
  shows "ring_read r = drop (rb_cap r - rb_pos r) (recent z (rb_cap r) s)"
proof -
  have l: "length (rb_buf r) = rb_cap r" "rb_pos r < rb_cap r"
    and e: "drop (rb_pos r) (rb_buf r) @ take (rb_pos r) (rb_buf r) = recent z (rb_cap r) s"
    using assms(1) by (simp_all add: ring_of_def)
  have "drop (rb_cap r - rb_pos r) (recent z (rb_cap r) s) = take (rb_pos r) (rb_buf r)"
    unfolding e[symmetric] using l by simp
  with assms(2) show ?thesis by (simp add: ring_read_def)
qed

lemma ring_write_flag:
  assumes "ring_write data r = Inr r'" and "data \<noteq> []" and "length data < rb_cap r"
  shows "rb_pos r' = (rb_pos r + length data) mod rb_cap r"
    and "rb_full r' \<longleftrightarrow> rb_full r \<or> rb_pos r' = 0 \<or> rb_cap r \<le> rb_pos r' + length data"
  using assms by (auto simp: ring_write_def Let_def)

lemma blocks_concat_length: "\<forall>b\<in>set bs. length b = n \<Longrightarrow> length (concat bs) = length bs * n"
  by (induction bs) auto

lemma fixed_blocks_flag:
  assumes "0 < n" and "n < cap" and "n dvd cap" and "\<forall>b\<in>set bs. length b = n"
  shows "\<exists>r. ring_writes bs (new_ring z cap) = Inr r \<and> ring_of z (concat bs) r \<and> rb_cap r = cap \<and>
     rb_pos r = (length bs * n) mod cap \<and> (rb_full r \<longleftrightarrow> cap \<le> (length bs + 1) * n)"
  using assms(4)
proof (induction bs rule: rev_induct)
  case Nil
  show ?case using assms(1,2) ring_of_new[of cap z] by (simp add: new_ring_def)
next
  case (snoc b bs)
  then obtain r where r: "ring_writes bs (new_ring z cap) = Inr r" "ring_of z (concat bs) r" "rb_cap r = cap"
    and f: "rb_pos r = (length bs * n) mod cap" "rb_full r \<longleftrightarrow> cap \<le> (length bs + 1) * n"
    by auto
  have b: "length b = n" "b \<noteq> []" using snoc.prems assms(1) by auto
  obtain r' where w: "ring_write b r = Inr r'" "ring_of z (concat bs @ b) r'" "rb_cap r' = cap"
    using ring_of_write[OF r(2), of b] r(3) by auto
  note fl = ring_write_flag[OF w(1) b(2)]
  have p: "rb_pos r' = (length (bs @ [b]) * n) mod cap"
    using fl(1) b(1) assms(2) r(3) f(1) by (simp add: mod_simps add.commute)
  have "rb_full r' \<longleftrightarrow> cap \<le> (length bs + 1) * n \<or> rb_pos r' = 0 \<or> cap \<le> rb_pos r' + n"
    using fl(2) b(1) assms(2) r(3) f(2) by simp
  moreover have "rb_pos r' = (length bs + 1) * n" if "\<not> cap \<le> (length bs + 1) * n"
    using that p by simp
  ultimately have "rb_full r' \<longleftrightarrow> cap \<le> (length (bs @ [b]) + 1) * n"
    using assms(1) by (cases "cap \<le> (length bs + 1) * n") auto
  with r w p show ?case by (auto simp: ring_writes_snoc)
qed

lemma record_from_prefix:
  "i \<le> m \<Longrightarrow> \<exists>n. i \<le> n \<and> n \<le> m \<and> record_from chunk quiet halt limit m i sl = map chunk [i..<n]"
proof (induction "m - i" arbitrary: i sl rule: less_induct)
  case less
  show ?case
  proof (cases "halt i \<or> m \<le> i")
    case True
    then show ?thesis using less.prems by (intro exI[of _ i]) (auto simp: record_from.simps)
  next
    case False
    let ?sl = "if quiet (chunk i) then sl + 1 else 0"
    have one: "map chunk [i..<Suc i] = [chunk i]" by simp
    show ?thesis
    proof (cases "limit \<le> ?sl \<and> limit < i + 1")
      case True
      with False show ?thesis
        by (intro exI[of _ "Suc i"]) (auto simp: record_from.simps[of _ _ _ _ _ i] Let_def)
    next
      case go: False
      have "\<exists>n. i + 1 \<le> n \<and> n \<le> m \<and> record_from chunk quiet halt limit m (i + 1) ?sl = map chunk [i + 1..<n]"
        by (rule less.hyps) (use False in auto)
      then obtain n where n: "i + 1 \<le> n" "n \<le> m" "record_from chunk quiet halt limit m (i + 1) ?sl = map chunk [i + 1..<n]"
        by blast
      have "record_from chunk quiet halt limit m i sl = chunk i # map chunk [i + 1..<n]"
        using False go n(3) by (subst record_from.simps) (auto simp: Let_def)
      with n show ?thesis by (intro exI[of _ n]) (auto simp: upt_conv_Cons)
    qed
  qed
qed

lemma record_from_loud:
  "i \<le> m \<Longrightarrow> 0 < limit \<Longrightarrow> \<forall>j. \<not> halt j \<and> \<not> quiet (chunk j) \<Longrightarrow>
   record_from chunk quiet halt limit m i 0 = map chunk [i..<m]"
proof (induction "m - i" arbitrary: i rule: less_induct)
  case less
  then show ?case
    by (cases "i = m") (subst record_from.simps; auto simp: Let_def upt_conv_Cons)+
qed

lemma record_from_quiet:
  "i \<le> m \<Longrightarrow> i \<le> limit \<Longrightarrow> \<forall>j. \<not> halt j \<and> quiet (chunk j) \<Longrightarrow>
   record_from chunk quiet halt limit m i i = map chunk [i..<min m (limit + 1)]"
proof (induction "m - i" arbitrary: i rule: less_induct)
  case less
  show ?case
  proof (cases "i = m")
    case True
    then show ?thesis by (subst record_from.simps) simp
  next
    case False
    show ?thesis
    proof (cases "i = limit")
      case True
      have "min m (limit + 1) = Suc limit" using False True less.prems(1) by simp
      then have "[limit..<min m (limit + 1)] = [limit]" by simp
      with less.prems False True show ?thesis by (subst record_from.simps) (simp add: Let_def)
    next
      case lt: False
      with less.hyps[of "i + 1"] less.prems False
      have "record_from chunk quiet halt limit m (i + 1) (i + 1) = map chunk [i + 1..<min m (limit + 1)]" by simp
      with less.prems False lt show ?thesis
        by (subst record_from.simps) (simp add: Let_def upt_conv_Cons)
    qed
  qed
qed

section \<open>Properties\<close>

text \<open>
  Fed with blocks of one size that divides the capacity, as the capture thread does, the ring
  buffer gives back what was written, in order, until one block before it is full; from then on
  it gives the last samples that fit, and with one block missing a block of silence before them:
  the flag that says it is full is set one block too early.
\<close>

theorem ring_keeps_recent_blocks:
  assumes "0 < n" and "n < cap" and "n dvd cap" and "\<forall>b\<in>set bs. length b = n"
  shows "\<exists>r. ring_writes bs (new_ring z cap) = Inr r \<and>
     ring_read r = (if (length bs + 1) * n < cap then concat bs
       else replicate (cap - length bs * n) z @ drop (length bs * n - cap) (concat bs))"
proof -
  from fixed_blocks_flag[OF assms, of z] obtain r where
    r: "ring_writes bs (new_ring z cap) = Inr r" "ring_of z (concat bs) r" "rb_cap r = cap"
      "rb_pos r = (length bs * n) mod cap" "rb_full r \<longleftrightarrow> cap \<le> (length bs + 1) * n"
    by blast
  note len = blocks_concat_length[OF assms(4)]
  show ?thesis
  proof (cases "(length bs + 1) * n < cap")
    case True
    then have "length bs * n < cap" "\<not> rb_full r" using r(5) by auto
    with ring_read_part[OF r(2)] r(3,4) len True r(1) show ?thesis
      by (simp add: recent_short)
  next
    case False
    with ring_read_full[OF r(2)] r(1,3,5) show ?thesis by (simp add: recent_def len)
  qed
qed

theorem ring_keeps_recent_blocks_witness:
  "\<exists>r. ring_writes [[1, 2], [3, 4]] (new_ring (0::int) 6) = Inr r \<and> ring_read r = [0, 0, 1, 2, 3, 4]"
proof -
  have e: "(if (length [[1, 2], [3, 4::int]] + 1) * 2 < 6 then concat [[1, 2], [3, 4]]
      else replicate (6 - length [[1, 2], [3, 4::int]] * 2) (0::int) @ drop (length [[1, 2], [3, 4::int]] * 2 - 6) (concat [[1, 2], [3, 4]])) =
      [0, 0, 1, 2, 3, 4]"
    by code_simp
  have "\<forall>b\<in>set [[1, 2], [3, 4::int]]. length b = 2" by simp
  from ring_keeps_recent_blocks[OF _ _ _ this, of 6 0] show ?thesis unfolding e by simp
qed

text \<open>
  A write that runs over the end of the buffer can lose what it held: from a buffer that is
  not flagged as full, a block that crosses the end by less than leaves room for another such
  block does not set the flag, and the next read gives only the samples after the end, although
  a whole buffer of samples has been written.
\<close>

theorem ring_wrap_loses_samples:
  assumes "ring_of z s r" and "\<not> rb_full r" and "rb_pos r = length s"
    and "rb_cap r < length s + length data" and "length s + 2 * length data < 2 * rb_cap r"
  shows "\<exists>r'. ring_write data r = Inr r' \<and> rb_cap r' < length (s @ data) \<and>
     ring_read r' = drop (2 * rb_cap r - length s - length data) (recent z (rb_cap r) (s @ data)) \<and>
     length (ring_read r') = length s + length data - rb_cap r"
proof -
  obtain r' where w: "ring_write data r = Inr r'" "ring_of z (s @ data) r'" "rb_cap r' = rb_cap r"
    using ring_of_write[OF assms(1)] by blast
  have p: "length s < rb_cap r" using assms(1,3) by (simp add: ring_of_def)
  have d: "data \<noteq> []" "length data < rb_cap r" using assms(4,5) p by auto
  have "rb_pos r' = (length s + length data) mod rb_cap r" using ring_write_flag(1)[OF w(1) d] assms(3) by simp
  also have "\<dots> = length s + length data - rb_cap r" using assms(4,5) p d(2) by (simp add: le_mod_geq)
  finally have pos: "rb_pos r' = length s + length data - rb_cap r" .
  have nf: "\<not> rb_full r'" using ring_write_flag(2)[OF w(1) d] assms(2,4,5) pos by simp
  have "ring_read r' = drop (rb_cap r - rb_pos r') (recent z (rb_cap r) (s @ data))"
    using ring_read_part[OF w(2) nf] w(3) by simp
  moreover have "rb_cap r - rb_pos r' = 2 * rb_cap r - length s - length data" using pos assms(4,5) by simp
  ultimately show ?thesis using w assms(4,5) by (intro exI[of _ r']) (simp add: recent_length)
qed

theorem ring_wrap_loses_samples_witness:
  "\<exists>r r'. ring_writes [[1, 2, 3, 4], [5], [6], [7], [8]] (new_ring (0::int) 10) = Inr r \<and>
     ring_write [9, 10, 11] r = Inr r' \<and> ring_read r' = [11]"
proof -
  let ?r = "\<lparr>rb_cap = 10, rb_buf = [1, 2, 3, 4, 5, 6, 7, 8, 0, 0::int], rb_pos = 8, rb_full = False\<rparr>"
  have r: "ring_writes [[1, 2, 3, 4], [5], [6], [7], [8]] (new_ring (0::int) 10) = Inr ?r" by code_simp
  have "recent 0 10 [1, 2, 3, 4, 5, 6, 7, 8] = [0, 0, 1, 2, 3, 4, 5, 6, 7, 8::int]"
    "drop 9 (recent 0 10 ([1, 2, 3, 4, 5, 6, 7, 8] @ [9, 10, 11])) = [11::int]"
    by code_simp+
  moreover from this have "ring_of 0 [1, 2, 3, 4, 5, 6, 7, 8] ?r" by (simp add: ring_of_def)
  ultimately have "\<exists>r'. ring_write [9, 10, 11] ?r = Inr r' \<and> ring_read r' = [11]"
    using ring_wrap_loses_samples[of 0 "[1, 2, 3, 4, 5, 6, 7, 8]" ?r "[9, 10, 11]"] by auto
  with r show ?thesis by blast
qed

text \<open>
  A recording ends, whatever is heard: it holds the first blocks the microphone gives, at most
  the number that fill the maximal time; endless speech is cut exactly there, and endless silence
  after one block more than the silence that ends a recording.
\<close>

theorem recording_ends:
  assumes "0 < max_blocks silence_seconds block"
  shows "\<exists>n\<le>max_blocks max_seconds block.
     record_blocks chunk quiet halt block silence_seconds max_seconds = map chunk [0..<n] \<and>
     ((\<forall>i. \<not> halt i \<and> \<not> quiet (chunk i)) \<longrightarrow> n = max_blocks max_seconds block) \<and>
     ((\<forall>i. \<not> halt i \<and> quiet (chunk i)) \<longrightarrow>
        n = min (max_blocks max_seconds block) (max_blocks silence_seconds block + 1))"
proof -
  let ?m = "max_blocks max_seconds block" and ?l = "max_blocks silence_seconds block"
  obtain n where n: "n \<le> ?m" "record_blocks chunk quiet halt block silence_seconds max_seconds = map chunk [0..<n]"
    using record_from_prefix[of 0 ?m chunk quiet halt ?l 0] by (auto simp: record_blocks_def)
  have len: "n = length (record_blocks chunk quiet halt block silence_seconds max_seconds)" using n(2) by simp
  have "(\<forall>i. \<not> halt i \<and> \<not> quiet (chunk i)) \<longrightarrow> n = ?m"
    using record_from_loud[of 0 ?m ?l halt quiet chunk] assms len by (simp add: record_blocks_def)
  moreover have "(\<forall>i. \<not> halt i \<and> quiet (chunk i)) \<longrightarrow> n = min ?m (?l + 1)"
    using record_from_quiet[of 0 ?m ?l halt quiet chunk] len by (simp add: record_blocks_def)
  ultimately show ?thesis using n by blast
qed

theorem recording_ends_witness:
  "\<exists>n\<le>10. record_blocks id (\<lambda>c. True) (\<lambda>i. False) 1 3 10 = map id [0..<n] \<and> n = 4"
proof -
  have "max_blocks 3 1 = 3" "max_blocks 10 1 = 10" by (simp_all add: max_blocks_def)
  with recording_ends[of 3 1 10 id "\<lambda>c. True" "\<lambda>i. False"] show ?thesis by auto
qed

end
