(* ===== verification/Voice.thy ===== *)
theory Voice
  imports Client Audio Redact Voice_Config
begin

text \<open>
  The voice sidecar: wake words (\<open>src/src/agent/voice/wakeword.py\<close>), the hands-free pipeline
  (\<open>voice/pipeline.py\<close>), push to talk (\<open>voice/ptt.py\<close>) and the announcements of
  \<open>cli/voice_sidecar.py\<close>.  The speech models are given by what they answer: whether a block is
  speech, what a piece of audio transcribes to.
\<close>

section \<open>Wake words\<close>

definition new_detector :: "string list \<Rightarrow> string list" where
  "new_detector ws = map lower ws"

definition detect_words :: "string list \<Rightarrow> real \<Rightarrow> string \<Rightarrow> (string \<times> real) option" where
  "detect_words ws sensitivity text =
     (case List.find (\<lambda>w. has_sub w (lower text)) ws of
        None \<Rightarrow> None
      | Some w \<Rightarrow> Some (w, if 1 / 2 \<le> sensitivity then 1 / 2 else 3 / 10))"

section \<open>The hands-free pipeline\<close>

datatype pipeline_state = LISTENING | WAKING | RECORDING | TRANSCRIBING | SUBMITTING

record 'a pipeline =
  pl_state :: pipeline_state
  pl_frames :: "'a list list"
  pl_end :: real
  pl_wake :: "'a list option"
  pl_silence :: nat
  pl_checks :: "'a list list"
  pl_audio :: "'a list list"
  pl_tts_stop :: bool
  pl_alive :: bool

definition block_duration :: real where "block_duration = 8 / 100"

definition new_pipeline :: "'a pipeline" where
  "new_pipeline = \<lparr>pl_state = LISTENING, pl_frames = [], pl_end = 0, pl_wake = None, pl_silence = 0,
     pl_checks = [], pl_audio = [], pl_tts_stop = False, pl_alive = True\<rparr>"

text \<open>
  \<open>_trigger_transcribe\<close>: the recorded frames become a transcription to do; there must be one, for
  \<open>np.concatenate\<close> refuses an empty list.
\<close>

definition trigger_transcribe :: "'a pipeline \<Rightarrow> unit res \<times> 'a pipeline" where
  "trigger_transcribe p =
     (let p1 = p\<lparr>pl_state := TRANSCRIBING\<rparr>
      in if pl_frames p = [] then (Inl (ValueError ''need at least one array to concatenate''), p1)
         else (Inr (), p1\<lparr>pl_frames := [], pl_audio := pl_audio p @ [concat (pl_frames p)]\<rparr>))"

text \<open>\<open>_on_chunk\<close>, with the clock and the voice activity detector's answer for the block.\<close>

definition on_chunk :: "real \<Rightarrow> bool \<Rightarrow> 'a list \<Rightarrow> 'a pipeline \<Rightarrow> unit res \<times> 'a pipeline" where
  "on_chunk now speech blk p = (case pl_state p of
      LISTENING \<Rightarrow>
        (Inr (), if speech then p\<lparr>pl_state := WAKING, pl_wake := Some blk, pl_end := now + 2\<rparr> else p)
    | WAKING \<Rightarrow>
        (case pl_wake p of
           None \<Rightarrow> (Inl (ValueError ''zero-dimensional arrays cannot be concatenated''), p)
         | Some w \<Rightarrow>
             (let audio = w @ blk
              in if \<not> speech \<or> now > pl_end p
                 then (Inr (), p\<lparr>pl_wake := None, pl_state := LISTENING, pl_checks := pl_checks p @ [audio]\<rparr>)
                 else (Inr (), p\<lparr>pl_wake := Some audio\<rparr>)))
    | RECORDING \<Rightarrow>
        (let p1 = p\<lparr>pl_frames := pl_frames p @ [blk],
                    pl_silence := (if speech then 0 else pl_silence p + 1)\<rparr>;
             (r, p2) = (if \<not> speech \<and> 1 \<le> of_nat (pl_silence p1) * block_duration \<and> 20 < length (pl_frames p1)
                        then trigger_transcribe p1 else (Inr (), p1))
         in case r of
              Inl e \<Rightarrow> (Inl e, p2)
            | Inr _ \<Rightarrow>
                if now > pl_end p2 \<and> 5 < length (pl_frames p2) \<or> now > pl_end p2
                then trigger_transcribe p2 else (Inr (), p2))
    | TRANSCRIBING \<Rightarrow> (Inr (), p)
    | SUBMITTING \<Rightarrow> (Inr (), p))"

text \<open>
  The capture thread: an exception of the callback ends it for good.  (The copy of the block into
  the ring buffer, which comes after the callback, is in \<open>Sidecar\<close>.)
\<close>

definition capture :: "real \<Rightarrow> bool \<Rightarrow> 'a list \<Rightarrow> 'a pipeline \<Rightarrow> 'a pipeline" where
  "capture now speech blk p =
     (if \<not> pl_alive p then p
      else case on_chunk now speech blk p of
             (Inr _, p') \<Rightarrow> p'
           | (Inl _, p') \<Rightarrow> p'\<lparr>pl_alive := False\<rparr>)"

text \<open>\<open>_check_wake_word\<close> on the oldest piece, with what the detector found.\<close>

definition check_wake_word :: "real \<Rightarrow> real \<Rightarrow> (string \<times> real) option \<Rightarrow> 'a pipeline \<Rightarrow> 'a pipeline" where
  "check_wake_word now timeout found p = (case pl_checks p of
      [] \<Rightarrow> p
    | audio # rest \<Rightarrow>
        (case found of
           None \<Rightarrow> p\<lparr>pl_checks := rest\<rparr>
         | Some _ \<Rightarrow>
             p\<lparr>pl_checks := rest, pl_tts_stop := True, pl_state := RECORDING, pl_frames := [audio],
               pl_silence := 0, pl_end := now + timeout\<rparr>))"

text \<open>
  \<open>_transcribe_and_submit\<close> on the oldest recording: the task to submit, if any, while the state
  is SUBMITTING; and its end, which returns to listening whatever happened.
\<close>

definition transcribe :: "string res \<Rightarrow> 'a pipeline \<Rightarrow> string option \<times> 'a pipeline" where
  "transcribe r p = (case pl_audio p of
      [] \<Rightarrow> (None, p)
    | _ # rest \<Rightarrow>
        (case r of
           Inl e \<Rightarrow> (None, p\<lparr>pl_audio := rest, pl_state := LISTENING\<rparr>)
         | Inr text \<Rightarrow>
             if text = [] then (None, p\<lparr>pl_audio := rest, pl_state := LISTENING\<rparr>)
             else (Some text, p\<lparr>pl_audio := rest, pl_state := SUBMITTING\<rparr>)))"

definition submitted :: "'a pipeline \<Rightarrow> 'a pipeline" where
  "submitted p = p\<lparr>pl_state := LISTENING\<rparr>"

text \<open>The request both the pipeline and push to talk make.\<close>

definition run_request :: "string \<Rightarrow> string \<Rightarrow> params" where
  "run_request text brain = [(''task'', JStr text), (''brain'', JStr brain)]"

text \<open>What happens to a pipeline, in any interleaving of the capture thread and the event loop.\<close>

inductive pipeline_step :: "'a pipeline \<Rightarrow> 'a pipeline \<Rightarrow> bool" where
  chunk: "pipeline_step p (capture now speech blk p)"
| check: "pipeline_step p (check_wake_word now timeout found p)"
| transcribed: "pipeline_step p (snd (transcribe r p))"
| submit: "pipeline_step p (submitted p)"

inductive pipeline_reach :: "'a pipeline \<Rightarrow> bool" where
  start: "pipeline_reach new_pipeline"
| step: "pipeline_reach p \<Longrightarrow> pipeline_step p p' \<Longrightarrow> pipeline_reach p'"

section \<open>Push to talk\<close>

text \<open>
  What one client of the socket leads to: the line it sent (\<open>None\<close> at the end of the stream),
  the recording, its transcription; the task submitted, if any.  Every exception is logged.
\<close>

definition ptt_handle :: "string option \<Rightarrow> nat list res \<Rightarrow> string res \<Rightarrow> string option" where
  "ptt_handle line pcm text = (case line of
      None \<Rightarrow> None
    | Some l \<Rightarrow>
        if strip l \<noteq> ''record'' then None
        else case pcm of
               Inl e \<Rightarrow> None
             | Inr [] \<Rightarrow> None
             | Inr (b # bs) \<Rightarrow> (case text of Inl e \<Rightarrow> None | Inr [] \<Rightarrow> None | Inr (c # cs) \<Rightarrow> Some (c # cs)))"

section \<open>Announcements\<close>

text \<open>
  \<open>template.format(**kw)\<close> for fields that are plain names; a positional field has no argument, a
  field with an attribute, an index, a conversion or a format is left to \<open>fancy\<close>.
\<close>

definition field_value :: "(string \<Rightarrow> string dict \<Rightarrow> string res) \<Rightarrow> string dict \<Rightarrow> string \<Rightarrow> string res" where
  "field_value fancy kw name =
     (if list_all is_digit name then Inl (IndexError ''Replacement index out of range for positional args tuple'')
      else if list_all is_word name then (case dget kw name of None \<Rightarrow> Inl (KeyError name) | Some v \<Rightarrow> Inr v)
      else fancy name kw)"

function py_format :: "(string \<Rightarrow> string dict \<Rightarrow> string res) \<Rightarrow> string dict \<Rightarrow> string \<Rightarrow> string res" where
  "py_format fancy kw s = (case s of
      [] \<Rightarrow> Inr []
    | c # cs \<Rightarrow>
        if c = CHR ''{'' then
          (if cs \<noteq> [] \<and> hd cs = CHR ''{'' then rbind (py_format fancy kw (tl cs)) (\<lambda>t. Inr (c # t))
           else if CHR ''}'' \<notin> set cs then Inl (ValueError ''expected closing brace before end of string'')
           else rbind (field_value fancy kw (takeWhile (\<lambda>x. x \<noteq> CHR ''}'') cs))
                  (\<lambda>v. rbind (py_format fancy kw (tl (dropWhile (\<lambda>x. x \<noteq> CHR ''}'') cs))) (\<lambda>t. Inr (v @ t))))
        else if c = CHR ''}'' then
          (if cs \<noteq> [] \<and> hd cs = CHR ''}'' then rbind (py_format fancy kw (tl cs)) (\<lambda>t. Inr (c # t))
           else Inl (ValueError ''Single closing brace encountered in format string''))
        else rbind (py_format fancy kw cs) (\<lambda>t. Inr (c # t)))"
  by pat_completeness auto
termination
proof (relation "measure (\<lambda>(_, _, s). length s)", goal_cases)
  case (3 fancy kw s c cs v)
  have "length (dropWhile (\<lambda>x. x \<noteq> CHR ''}'') cs) \<le> length cs" by (rule length_dropWhile_le)
  then have "length (tl (dropWhile (\<lambda>x. x \<noteq> CHR ''}'') cs)) \<le> length cs" by simp
  with 3 show ?case by simp
qed auto

declare py_format.simps [simp del]

text \<open>\<open>_render\<close>: a missing name leaves the template as it is, another error is raised.\<close>

definition render :: "(string \<Rightarrow> string dict \<Rightarrow> string res) \<Rightarrow> string \<Rightarrow> string dict \<Rightarrow> string res" where
  "render fancy template kw = (case py_format fancy kw template of
      Inl (KeyError k) \<Rightarrow> Inr template | r \<Rightarrow> r)"

definition template_text ::
  "(json \<Rightarrow> string) \<Rightarrow> (string \<Rightarrow> string dict \<Rightarrow> string res) \<Rightarrow> json \<Rightarrow> template_config \<Rightarrow> params
   \<Rightarrow> string option res" where
  "template_text other fancy kind t payload =
     (let value = (\<lambda>k. py_str other (dget_or payload k (JStr []))) in
      if kind = JStr ''run_started'' then
        rbind (render fancy (vm_run_started t) [(''task'', value ''task''), (''brain'', value ''brain'')]) (\<lambda>s. Inr (Some s))
      else if kind = JStr ''run_completed'' then Inr (Some (vm_run_completed t))
      else if kind = JStr ''run_errored'' then
        rbind (render fancy (vm_run_errored t) [(''error_short'', take 80 (value ''error''))]) (\<lambda>s. Inr (Some s))
      else if kind = JStr ''run_aborted'' then Inr (Some (vm_run_aborted t))
      else Inr None)"

text \<open>
  One event of \<open>_watch\<close>: what is said, and the barge-in flag after it; \<open>kws\<close> are the compiled
  redaction patterns.
\<close>

definition announce ::
  "(json \<Rightarrow> string) \<Rightarrow> (string \<Rightarrow> string dict \<Rightarrow> string res) \<Rightarrow> template_config \<Rightarrow> rx list \<Rightarrow> bool \<Rightarrow> bool
   \<Rightarrow> topic \<times> params \<Rightarrow> string option res \<times> bool" where
  "announce other fancy t kws muted barge_in ev = (case ev of (topic, payload) \<Rightarrow>
     (if topic \<noteq> T_runs then (Inr None, barge_in)
      else if barge_in then (Inr None, False)
      else (rbind (template_text other fancy (dget_or payload ''kind'' (JStr [])) t payload) (\<lambda>text.
              Inr (case text of None \<Rightarrow> None
                   | Some s \<Rightarrow> if muted then None else Some (redact_for_tts kws s))), False)))"

text \<open>The delay before the next attempt, after a number of attempts that did not connect.\<close>

fun backoff :: "nat \<Rightarrow> real" where
  "backoff 0 = 1"
| "backoff (Suc n) = min (backoff n * 2) 30"

section \<open>Lemmas\<close>

lemma backoff_closed: "backoff n = min (2 ^ n) 30"
  by (induction n) (auto simp: min_def)

definition wake_ok :: "'a pipeline \<Rightarrow> bool" where
  "wake_ok p \<longleftrightarrow> (pl_state p = WAKING \<longrightarrow> pl_wake p \<noteq> None)"

lemma trigger_state: "pl_state (snd (trigger_transcribe p)) = TRANSCRIBING"
  by (simp add: trigger_transcribe_def Let_def)

lemma trigger_again: "fst (trigger_transcribe (snd (trigger_transcribe p))) \<noteq> Inr ()"
  by (simp add: trigger_transcribe_def Let_def)

lemma recording_chunk:
  assumes "pl_state p = RECORDING"
  shows "on_chunk now speech blk p =
    (let p1 = p\<lparr>pl_frames := pl_frames p @ [blk], pl_silence := (if speech then 0 else pl_silence p + 1)\<rparr>;
         cut = (\<not> speech \<and> 12 \<le> pl_silence p \<and> 20 \<le> length (pl_frames p)); late = (pl_end p < now)
     in if cut \<and> late then (fst (trigger_transcribe (snd (trigger_transcribe p1))), snd (trigger_transcribe (snd (trigger_transcribe p1))))
        else if cut \<or> late then trigger_transcribe p1 else (Inr (), p1))"
proof -
  have half: "(1 \<le> (1 + real n) * block_duration) = (12 \<le> n)" for n
  proof -
    have "(1 \<le> (1 + real n) * (8 / 100)) = (23 / 2 \<le> real n)" by (simp add: field_simps)
    also have "\<dots> = (12 \<le> n)"
    proof
      assume "23 / 2 \<le> real n"
      then have "real 11 < real n" by simp
      then show "12 \<le> n" by (simp only: of_nat_less_iff)
    qed simp
    finally show ?thesis by (simp add: block_duration_def)
  qed
  have ok: "fst (trigger_transcribe (p\<lparr>pl_frames := pl_frames p @ [blk], pl_silence := n\<rparr>)) = Inr ()" for n
    by (simp add: trigger_transcribe_def Let_def)
  show ?thesis
    using assms ok[of "pl_silence p + 1"] ok[of 0]
    by (auto simp: on_chunk_def Let_def half case_prod_beta trigger_transcribe_def split: sum.split)
qed

lemma wake_ok_reach: "pipeline_reach p \<Longrightarrow> wake_ok p"
proof (induction rule: pipeline_reach.induct)
  case start
  then show ?case by (simp add: wake_ok_def new_pipeline_def)
next
  case (step p p')
  from step.hyps(2) show ?case
  proof (cases rule: pipeline_step.cases)
    case (chunk now speech blk)
    have "wake_ok (snd (on_chunk now speech blk p))"
    proof (cases "pl_state p")
      case RECORDING
      then show ?thesis
        by (auto simp: recording_chunk Let_def wake_ok_def trigger_state)
    qed (use step.IH in \<open>auto simp: on_chunk_def wake_ok_def Let_def split: option.split\<close>)
    then show ?thesis
      using step.IH chunk by (auto simp: capture_def wake_ok_def split: prod.splits sum.splits)
  qed (use step.IH in \<open>auto simp: wake_ok_def check_wake_word_def transcribe_def submitted_def split: list.splits option.splits sum.splits\<close>)
qed

section \<open>Properties\<close>

text \<open>
  The capture thread dies of exactly one thing: in any state the pipeline can reach, a block
  ends the capture if and only if it is silent, it makes the silence and the number of frames
  large enough to stop the recording, and it comes after the deadline of the recording; then the
  transcription is triggered twice, the second time with nothing to concatenate.  From then on
  no block changes anything.
\<close>

theorem capture_dies_of_double_trigger:
  assumes "pipeline_reach p" and "pl_alive p"
  shows "(\<not> pl_alive (capture now speech blk p) \<longleftrightarrow>
       pl_state p = RECORDING \<and> \<not> speech \<and> 12 \<le> pl_silence p \<and> 20 \<le> length (pl_frames p) \<and> pl_end p < now) \<and>
     (\<not> pl_alive (capture now speech blk p) \<longrightarrow>
       capture now' speech' blk' (capture now speech blk p) = capture now speech blk p)"
proof -
  have wake: "wake_ok p" by (rule wake_ok_reach[OF assms(1)])
  have ok: "fst (trigger_transcribe (p\<lparr>pl_frames := pl_frames p @ [blk], pl_silence := n\<rparr>)) = Inr ()" for n
    by (simp add: trigger_transcribe_def Let_def)
  have alive: "pl_alive (snd (on_chunk now speech blk p))"
    using assms(2) by (auto simp: on_chunk_def trigger_transcribe_def Let_def split: pipeline_state.split option.split)
  have err: "fst (on_chunk now speech blk p) \<noteq> Inr () \<longleftrightarrow>
      pl_state p = RECORDING \<and> \<not> speech \<and> 12 \<le> pl_silence p \<and> 20 \<le> length (pl_frames p) \<and> pl_end p < now"
  proof (cases "pl_state p")
    case RECORDING
    then show ?thesis using trigger_again by (auto simp: recording_chunk Let_def ok)
  qed (use wake in \<open>auto simp: on_chunk_def wake_ok_def Let_def\<close>)
  have "\<not> pl_alive (capture now speech blk p) \<longleftrightarrow> fst (on_chunk now speech blk p) \<noteq> Inr ()"
    using assms(2) alive by (auto simp: capture_def split: prod.splits sum.splits)
  moreover have "\<not> pl_alive q \<Longrightarrow> capture now' speech' blk' q = q" for q by (simp add: capture_def)
  ultimately show ?thesis using err by blast
qed

text \<open>
  A sample: a wake word, seven blocks of speech, twelve of silence; the next block is silent and
  comes after the deadline.
\<close>

definition woken_pipeline :: "int pipeline" where
  "woken_pipeline = check_wake_word 0 10 (Some (''computer'', 1 / 2)) (capture 0 False [1] (capture 0 True [1] new_pipeline))"

definition silent_pipeline :: "int pipeline" where
  "silent_pipeline = foldl (\<lambda>p i. capture 1 (i < 7) [1] p) woken_pipeline [0..<19]"

lemma reach_capture_all:
  "pipeline_reach p \<Longrightarrow> pipeline_reach (foldl (\<lambda>p i. capture now (f i) blk p) p is)"
  by (induction "is" arbitrary: p) (auto intro: pipeline_reach.step pipeline_step.chunk)

lemma silent_pipeline_state:
  "pipeline_reach silent_pipeline" "pl_alive silent_pipeline" "pl_state silent_pipeline = RECORDING"
  "pl_silence silent_pipeline = 12" "length (pl_frames silent_pipeline) = 20" "pl_end silent_pipeline = 10"
proof -
  have "pipeline_reach woken_pipeline"
    unfolding woken_pipeline_def
    by (intro pipeline_reach.step[OF _ pipeline_step.check] pipeline_reach.step[OF _ pipeline_step.chunk] pipeline_reach.start)
  then show "pipeline_reach silent_pipeline" unfolding silent_pipeline_def by (rule reach_capture_all)
  have w: "woken_pipeline = new_pipeline\<lparr>pl_tts_stop := True, pl_state := RECORDING, pl_frames := [[1, 1]],
      pl_silence := 0, pl_end := 10\<rparr>"
    by (simp add: woken_pipeline_def check_wake_word_def capture_def on_chunk_def new_pipeline_def)
  have c: "capture 1 sp [1] p = p\<lparr>pl_frames := pl_frames p @ [[1]], pl_silence := (if sp then 0 else pl_silence p + 1)\<rparr>"
    if "pl_state p = RECORDING" "pl_silence p < 12" "pl_alive p" "pl_end p = 10" for p :: "int pipeline" and sp
    using that by (simp add: capture_def recording_chunk Let_def)
  have "foldl (\<lambda>p i. capture 1 (i < 7) [1] p) woken_pipeline [0..<n] = woken_pipeline
      \<lparr>pl_frames := [1, 1] # replicate n [1], pl_silence := n - 7\<rparr>" if "n \<le> 19" for n
    using that
  proof (induction n)
    case (Suc n)
    then show ?case
      by (subst upt_Suc) (auto simp: c w new_pipeline_def replicate_append_same)
  qed (simp add: w new_pipeline_def)
  from this[of 19] have p: "silent_pipeline = woken_pipeline\<lparr>pl_frames := [1, 1] # replicate 19 [1], pl_silence := 12\<rparr>"
    by (simp add: silent_pipeline_def)
  show "pl_alive silent_pipeline" "pl_state silent_pipeline = RECORDING" "pl_silence silent_pipeline = 12"
    "length (pl_frames silent_pipeline) = 20" "pl_end silent_pipeline = 10"
    by (simp_all add: p w new_pipeline_def)
qed

theorem capture_dies_of_double_trigger_witness:
  "\<not> pl_alive (capture 11 False [1] silent_pipeline) \<and>
   capture 12 True [2] (capture 11 False [1] silent_pipeline) = capture 11 False [1] silent_pipeline"
  using capture_dies_of_double_trigger[OF silent_pipeline_state(1,2), of 11 False "[1]" 12 True "[2]"]
  by (simp add: silent_pipeline_state)

text \<open>
  Nothing said after the wake word is lost: while speech goes on until the deadline, every
  block is kept, and the first block after it closes the recording; what is transcribed is the
  audio of the wake word followed by all the blocks, in order.
\<close>

theorem recording_is_complete:
  assumes "pl_state p = RECORDING" and "pl_alive p" and "\<forall>(now, b)\<in>set cs. now \<le> pl_end p" and "pl_end p < t"
  shows "let p' = capture t True b (foldl (\<lambda>p (now, b). capture now True b p) p cs) in
     pl_audio p' = pl_audio p @ [concat (pl_frames p) @ concat (map snd cs) @ b] \<and>
     pl_state p' = TRANSCRIBING \<and> pl_alive p' \<and> pl_frames p' = []"
proof -
  have "\<exists>k. foldl (\<lambda>p (now, b). capture now True b p) p cs = p\<lparr>pl_frames := pl_frames p @ map snd cs, pl_silence := k\<rparr>"
    using assms(1-3)
  proof (induction cs arbitrary: p)
    case Nil
    then show ?case by (auto intro!: exI[of _ "pl_silence p"])
  next
    case (Cons c cs)
    obtain now b where c: "c = (now, b)" by (cases c)
    have "capture now True b p = p\<lparr>pl_frames := pl_frames p @ [b], pl_silence := 0\<rparr>"
      using Cons.prems c by (auto simp: capture_def recording_chunk Let_def)
    with Cons.IH[of "p\<lparr>pl_frames := pl_frames p @ [b], pl_silence := 0\<rparr>"] Cons.prems c show ?case by auto
  qed
  then obtain k where k: "foldl (\<lambda>p (now, b). capture now True b p) p cs =
      p\<lparr>pl_frames := pl_frames p @ map snd cs, pl_silence := k\<rparr>" by blast
  show ?thesis unfolding k using assms(1,2,4)
    by (simp add: capture_def recording_chunk Let_def trigger_transcribe_def)
qed

theorem recording_is_complete_witness:
  "let p' = capture 11 True [3] (foldl (\<lambda>p (now, b). capture now True b p) woken_pipeline [(1, [1]), (2, [2])]) in
     pl_audio p' = [[1, 1, 1, 2, 3]] \<and> pl_state p' = TRANSCRIBING"
proof -
  have w: "pl_state woken_pipeline = RECORDING" "pl_alive woken_pipeline" "pl_end woken_pipeline = 10"
    "pl_audio woken_pipeline = []" "pl_frames woken_pipeline = [[1, 1]]"
    by (simp_all add: woken_pipeline_def check_wake_word_def capture_def on_chunk_def new_pipeline_def)
  have "\<forall>(now, b)\<in>set [(1, [1]), (2, [2::int])]. now \<le> pl_end woken_pipeline" "pl_end woken_pipeline < 11"
    by (simp_all add: w)
  from recording_is_complete[OF w(1,2) this, of "[3]"] show ?thesis by (simp add: w Let_def)
qed

text \<open>
  What is said becomes a run: when a recording is transcribed to a text, the request the
  pipeline then makes is accepted by the daemon, for that text and the configured brain, and the
  daemon answers with the id of the new run; afterwards the pipeline listens again.
\<close>

theorem spoken_task_becomes_a_run:
  assumes "transcribe r p = (Some text, p')" and "re_brain E brain = Inr br"
    and "row_status (dm_exec D) (re_id E) = None"
  shows "r = Inr text \<and> pl_state p' = SUBMITTING \<and> pl_state (submitted p') = LISTENING \<and>
     dispatch E i M_run_task (run_request text brain) D =
       (Inr (make_ok_response i [(''run_id'', JStr (re_id E))]), started E RK_run text brain D) \<and>
     re_id E \<in> set (active_run_ids (dm_exec (started E RK_run text brain D)))"
proof -
  have t: "r = Inr text" "text \<noteq> []" "pl_state p' = SUBMITTING"
    using assms(1) by (auto simp: transcribe_def split: list.splits sum.splits if_splits)
  from dispatch_start[OF assms(3,2) t(2), of M_run_task RK_run i] t show ?thesis
    by (simp add: run_request_def submitted_def active_run_ids_def started_active[OF assms(3,2)] set_map_fst_update)
qed

theorem spoken_task_becomes_a_run_witness:
  "\<exists>p'. transcribe (Inr ''open mail'') (new_pipeline\<lparr>pl_audio := [[1::int]]\<rparr>) = (Some ''open mail'', p') \<and>
     ''r1'' \<in> set (active_run_ids (dm_exec (started sample_env RK_run ''open mail'' ''auto'' new_daemon)))"
proof -
  obtain p' where p': "transcribe (Inr ''open mail'') (new_pipeline\<lparr>pl_audio := [[1::int]]\<rparr>) = (Some ''open mail'', p')"
    by (simp add: transcribe_def)
  have e: "re_id sample_env = ''r1''" "re_brain sample_env ''auto'' = Inr (Claude_brain ''m'')"
    by (simp_all add: sample_env_def)
  from spoken_task_becomes_a_run[OF p' e(2) new_daemon_run] p' e(1) show ?thesis by metis
qed

text \<open>
  The end of every task that was run is announced once, and of a plan never: of the two
  events that the end of a run publishes, the second says nothing, and the first says the text
  configured for its status when it belongs to a run, nothing when to a plan.
\<close>

theorem run_ends_are_announced_once:
  assumes "settle kind r = (st, err, what, payload)" and "render fancy (vm_run_errored t) [(''error_short'',
      take 80 (py_str other (dget_or payload ''error'' (JStr []))))] = Inr e"
  shows "template_text other fancy (JStr (rk_value kind @ ''_'' @ what)) t payload = Inr
       (if kind = RK_plan then None
        else case st of Completed \<Rightarrow> Some (vm_run_completed t) | Errored \<Rightarrow> Some e
             | Aborted \<Rightarrow> Some (vm_run_aborted t) | Running \<Rightarrow> None) \<and>
     template_text other fancy (JStr ''run_finished'') t payload' = Inr None"
proof -
  have w: "(what = ''completed'' \<and> st = Completed) \<or> (what = ''errored'' \<and> st = Errored) \<or> (what = ''aborted'' \<and> st = Aborted)"
    using assms(1) by (auto simp: settle_def split: sum.splits py_exc.splits)
  show ?thesis
    using w assms(2) by (cases kind) (auto simp: template_text_def Let_def)
qed

theorem run_ends_are_announced_once_witness:
  "template_text (\<lambda>v. []) (\<lambda>n kw. Inr []) (JStr (rk_value RK_run @ ''_'' @ ''errored'')) default_templates
     [(''error'', JStr ''no window'')] = Inr (Some ''Errore: no window'')"
proof -
  have r: "render (\<lambda>n kw. Inr []) (vm_run_errored default_templates) [(''error_short'', take 80 ''no window'')] =
      Inr ''Errore: no window''"
    by code_simp
  have "settle RK_run (Inl (ValueError ''no window'')) =
      (Errored, Some ''no window'', ''errored'', [(''error'', JStr ''no window'')])"
    by (simp add: settle_def)
  from run_ends_are_announced_once[OF this, of "\<lambda>n kw. Inr []" default_templates "\<lambda>v. []" "''Errore: no window''"] r
  show ?thesis by simp
qed

end
