(* ===== verification/Integrations.thy ===== *)
theory Integrations
  imports Rpc
begin

text \<open>
  \<open>src/src/agent/integrations\<close>: the registry that loads plugins, owns their life cycle and offers
  them the actions the tools do not perform (\<open>__init__.py\<close>), and the five plugins of the
  repository (\<open>mako.py\<close>, \<open>voice.py\<close>, \<open>idle.py\<close>, \<open>fuzzel.py\<close>, \<open>waybar.py\<close>).  A plugin is what its
  methods answer; the programs on the path and the processes are arguments.
\<close>

section \<open>The registry\<close>

record capability_spec =
  cs_name :: string
  cs_action_kinds :: "string list"
  cs_context_keys :: "string list"
  cs_api_version :: string

record integration =
  ig_name :: string
  ig_capabilities :: "capability_spec list res"
  ig_setup :: "unit res"
  ig_teardown :: "unit res"
  ig_handle :: "action \<Rightarrow> action_result option res"

record registry =
  rg_loaded :: "integration list"
  rg_status :: "string dict"

definition new_registry :: registry where
  "new_registry = \<lparr>rg_loaded = [], rg_status = []\<rparr>"

definition integrations_api_version :: string where
  "integrations_api_version = protocol_version"

definition api_major :: "string \<Rightarrow> int" where
  "api_major v = (case parse_int (hd (split_on CHR ''.'' v)) of None \<Rightarrow> - 1 | Some i \<Rightarrow> i)"

definition version_ok :: "string \<Rightarrow> bool" where
  "version_ok v = (api_major v = api_major integrations_api_version)"

definition set_status :: "string \<Rightarrow> string \<Rightarrow> registry \<Rightarrow> registry" where
  "set_status name st rg = rg\<lparr>rg_status := AList.update name st (rg_status rg)\<rparr>"

definition setup_one :: "integration \<Rightarrow> registry \<Rightarrow> unit res \<times> registry" where
  "setup_one i rg = (case ig_setup i of
      Inr _ \<Rightarrow> (Inr (), set_status (ig_name i) ''ready'' (rg\<lparr>rg_loaded := rg_loaded rg @ [i]\<rparr>))
    | Inl e \<Rightarrow> if is_Exception e then (Inr (), set_status (ig_name i) ''degraded'' rg) else (Inl e, rg))"

text \<open>
  One entry point: its class is loaded and built, its versions are checked, it is set up; what
  \<open>capabilities\<close> raises is not caught.
\<close>

definition load_one :: "string \<Rightarrow> integration res \<Rightarrow> registry \<Rightarrow> unit res \<times> registry" where
  "load_one name made rg = (case made of
      Inl e \<Rightarrow> if is_Exception e then (Inr (), set_status name ''missing'' rg) else (Inl e, rg)
    | Inr i \<Rightarrow>
        (case ig_capabilities i of
           Inl e \<Rightarrow> (Inl e, rg)
         | Inr caps \<Rightarrow>
             if \<exists>c\<in>set caps. \<not> version_ok (cs_api_version c)
             then (Inr (), set_status (ig_name i) ''missing'' rg)
             else setup_one i rg))"

fun load_all :: "string list option \<Rightarrow> (string \<times> integration res) list \<Rightarrow> registry \<Rightarrow> unit res \<times> registry" where
  "load_all enabled [] rg = (Inr (), rg)"
| "load_all enabled ((name, made) # eps) rg =
     (if (case enabled of None \<Rightarrow> False | Some names \<Rightarrow> name \<notin> set names) then load_all enabled eps rg
      else case load_one name made rg of
             (Inl e, rg') \<Rightarrow> (Inl e, rg')
           | (Inr _, rg') \<Rightarrow> load_all enabled eps rg')"

text \<open>\<open>AppState.open\<close>: no name configured means every plugin.\<close>

definition enabled_of :: "integrations_config \<Rightarrow> string list option" where
  "enabled_of c = (if ic_enabled c = [] then None else Some (ic_enabled c))"

text \<open>The plugins torn down, in order; only a cancellation stops it, before the list is cleared.\<close>

fun teardown_list :: "integration list \<Rightarrow> unit res" where
  "teardown_list [] = Inr ()"
| "teardown_list (i # is) = (case ig_teardown i of
      Inl e \<Rightarrow> if is_Exception e then teardown_list is else Inl e
    | Inr _ \<Rightarrow> teardown_list is)"

definition teardown_all :: "registry \<Rightarrow> unit res \<times> registry" where
  "teardown_all rg = (case teardown_list (rev (rg_loaded rg)) of
      Inl e \<Rightarrow> (Inl e, rg) | Inr _ \<Rightarrow> (Inr (), rg\<lparr>rg_loaded := []\<rparr>))"

fun handle_list :: "integration list \<Rightarrow> action \<Rightarrow> action_result option res" where
  "handle_list [] a = Inr None"
| "handle_list (i # is) a = (case ig_handle i a of
      Inr (Some r) \<Rightarrow> Inr (Some r)
    | Inr None \<Rightarrow> handle_list is a
    | Inl e \<Rightarrow> if is_Exception e then handle_list is a else Inl e)"

definition registry_handle :: "registry \<Rightarrow> action \<Rightarrow> action_result option res" where
  "registry_handle rg a = handle_list (rg_loaded rg) a"

definition registry_capabilities :: "registry \<Rightarrow> capability_spec list res" where
  "registry_capabilities rg = rbind (rmap ig_capabilities (rg_loaded rg)) (\<lambda>cs. Inr (concat cs))"

definition probe_binary :: "(string \<Rightarrow> bool) \<Rightarrow> string \<Rightarrow> string \<Rightarrow> registry \<Rightarrow> bool \<times> registry" where
  "probe_binary which binary name rg =
     (if which binary then (True, rg) else (False, set_status name ''degraded'' rg))"

section \<open>The plugins of the repository\<close>

definition cap_spec :: "string \<Rightarrow> string list \<Rightarrow> string list \<Rightarrow> capability_spec" where
  "cap_spec name kinds keys =
     \<lparr>cs_name = name, cs_action_kinds = kinds, cs_context_keys = keys,
      cs_api_version = integrations_api_version\<rparr>"

definition needs_binary :: "(string \<Rightarrow> bool) \<Rightarrow> integrations_config \<Rightarrow> string \<Rightarrow> string \<Rightarrow> unit res" where
  "needs_binary which c name plugin =
     (let binary = dget_or (ic_binary_overrides c) name name
      in if which binary then Inr ()
         else Inl (RuntimeError (repr_str binary @ '' not found '' @ plugin @ '' integration degraded'')))"

definition mako_categories :: "string list" where
  "mako_categories = [''start'', ''progress'', ''done'', ''error'', ''confirm'']"

definition mako_argv :: "(json \<Rightarrow> string) \<Rightarrow> integrations_config \<Rightarrow> params \<Rightarrow> string list" where
  "mako_argv other c p =
     (let message = py_str other (dget_or p ''message'' (JStr []));
          summary = py_str other (dget_or p ''summary'' (JStr (ic_mako_app_name c)));
          given = py_str other (dget_or p ''category'' (JStr ''done''));
          category = (if given \<in> set mako_categories then given else ''done'');
          urgency = (if category \<in> {''error'', ''confirm''} then ''critical'' else ''normal'')
      in [dget_or (ic_binary_overrides c) ''notify-send'' ''notify-send'', ''--app-name'', ic_mako_app_name c,
          ''--category'', category, ''--urgency'', urgency, summary, message])"

definition mako_handle ::
  "(json \<Rightarrow> string) \<Rightarrow> (string list \<Rightarrow> proc_wait) \<Rightarrow> integrations_config \<Rightarrow> bool \<Rightarrow> action \<Rightarrow> action_result option res" where
  "mako_handle other spawn c available a =
     (if act_kind a \<noteq> Notify \<or> \<not> available then Inr None
      else rbind (proc_run (mako_argv other c (act_params a)) (spawn (mako_argv other c (act_params a)))) (\<lambda>r.
        Inr (Some ((action_result_of (ak_value Notify))\<lparr>res_returncode := Some (pr_returncode r)\<rparr>))))"

text \<open>A plugin in the registry has been set up, so \<open>mako\<close> is available there.\<close>

definition mako :: "(json \<Rightarrow> string) \<Rightarrow> (string \<Rightarrow> bool) \<Rightarrow> (string list \<Rightarrow> proc_wait) \<Rightarrow> integrations_config \<Rightarrow> integration" where
  "mako other which spawn c =
     \<lparr>ig_name = ''mako'', ig_capabilities = Inr [cap_spec ''desktop.notify'' [''notify''] []],
      ig_setup = needs_binary which c ''notify-send'' ''mako'', ig_teardown = Inr (),
      ig_handle = mako_handle other spawn c True\<rparr>"

definition voice_handle :: "bool \<Rightarrow> action \<Rightarrow> action_result option res" where
  "voice_handle available a =
     (if act_kind a \<noteq> Speak then Inr None
      else if \<not> available
      then Inr (Some ((action_result_of (ak_value Speak))\<lparr>res_blocked := Some ''voice integration not available''\<rparr>))
      else Inr (Some (action_result_of (ak_value Speak))))"

definition voice_plugin :: "integrations_config \<Rightarrow> integration" where
  "voice_plugin c =
     \<lparr>ig_name = ''voice'', ig_capabilities = Inr [cap_spec ''voice'' [''speak''] []],
      ig_setup = Inr (), ig_teardown = Inr (), ig_handle = voice_handle (vc_enabled (ic_voice c))\<rparr>"

definition fuzzel :: "(string \<Rightarrow> bool) \<Rightarrow> integrations_config \<Rightarrow> integration" where
  "fuzzel which c =
     \<lparr>ig_name = ''fuzzel'', ig_capabilities = Inr [cap_spec ''desktop.quick_launcher'' [] []],
      ig_setup = needs_binary which c ''fuzzel'' ''fuzzel'', ig_teardown = Inr (),
      ig_handle = (\<lambda>a. Inr None)\<rparr>"

definition waybar :: integration where
  "waybar =
     \<lparr>ig_name = ''waybar'', ig_capabilities = Inr [cap_spec ''desktop.status_indicator'' [] [''run_status'']],
      ig_setup = Inr (), ig_teardown = Inr (), ig_handle = (\<lambda>a. Inr None)\<rparr>"

definition idle :: "bool \<Rightarrow> integration" where
  "idle jeepney =
     \<lparr>ig_name = ''idle'', ig_capabilities = Inr [cap_spec ''desktop.idle_aware'' [] [''idle_locked'']],
      ig_setup = (if jeepney then Inr () else Inl (RuntimeError ''jeepney not installed'')),
      ig_teardown = Inr (), ig_handle = (\<lambda>a. Inr None)\<rparr>"

text \<open>\<open>IdleIntegration._on_active_changed\<close>: the screen was locked, or unlocked.\<close>

definition on_active_changed :: "bool \<Rightarrow> daemon \<Rightarrow> daemon" where
  "on_active_changed active D = (if active then D\<lparr>dm_exec := cancel_all (dm_exec D)\<rparr> else D)"

section \<open>Lemmas\<close>

text \<open>A plugin that raises only exceptions, never a cancellation.\<close>

definition only_exceptions :: "'a res \<Rightarrow> bool" where
  "only_exceptions r = (case r of Inl e \<Rightarrow> is_Exception e | Inr _ \<Rightarrow> True)"

definition accepted_by :: "action \<Rightarrow> integration \<Rightarrow> bool" where
  "accepted_by a i = (case ig_handle i a of Inr (Some r) \<Rightarrow> True | _ \<Rightarrow> False)"

lemma handle_list_find:
  "\<forall>i\<in>set is. only_exceptions (ig_handle i a) \<Longrightarrow>
   handle_list is a = (case List.find (accepted_by a) is of None \<Rightarrow> Inr None | Some i \<Rightarrow> ig_handle i a)"
  by (induction "is") (auto simp: accepted_by_def only_exceptions_def split: sum.splits option.splits)

text \<open>What of an entry point ends up in the registry.\<close>

definition loadable :: "string list option \<Rightarrow> string \<times> integration res \<Rightarrow> integration list" where
  "loadable enabled ep = (case ep of (name, made) \<Rightarrow>
     if (case enabled of None \<Rightarrow> False | Some names \<Rightarrow> name \<notin> set names) then []
     else case made of
       Inl e \<Rightarrow> []
     | Inr i \<Rightarrow> (case ig_capabilities i of
         Inl e \<Rightarrow> []
       | Inr caps \<Rightarrow> (case ig_setup i of
           Inl e \<Rightarrow> []
         | Inr _ \<Rightarrow> if \<exists>c\<in>set caps. \<not> version_ok (cs_api_version c) then [] else [i])))"

definition tame :: "string \<times> integration res \<Rightarrow> bool" where
  "tame ep = (only_exceptions (snd ep) \<and> (\<forall>i. snd ep = Inr i \<longrightarrow>
     (\<exists>caps. ig_capabilities i = Inr caps) \<and> only_exceptions (ig_setup i)))"

lemma set_status_loaded [simp]: "rg_loaded (set_status n st rg) = rg_loaded rg"
  by (simp add: set_status_def)

lemma load_one_loaded:
  assumes "tame (name, made)"
  shows "\<exists>rg'. load_one name made rg = (Inr (), rg') \<and> rg_loaded rg' = rg_loaded rg @ loadable None (name, made)"
proof (cases made)
  case (Inl e)
  with assms show ?thesis by (simp add: load_one_def loadable_def tame_def only_exceptions_def)
next
  case (Inr i)
  with assms obtain caps where "ig_capabilities i = Inr caps" "only_exceptions (ig_setup i)"
    by (auto simp: tame_def)
  with Inr show ?thesis
    by (cases "ig_setup i") (auto simp: load_one_def loadable_def setup_one_def only_exceptions_def)
qed

lemma load_all_loaded:
  "list_all tame eps \<Longrightarrow> \<exists>rg'. load_all enabled eps rg = (Inr (), rg') \<and>
     rg_loaded rg' = rg_loaded rg @ concat (map (loadable enabled) eps)"
proof (induction eps arbitrary: rg)
  case (Cons ep eps)
  obtain name made where ep: "ep = (name, made)" by (cases ep)
  show ?case
  proof (cases "case enabled of None \<Rightarrow> False | Some names \<Rightarrow> name \<notin> set names")
    case True
    with Cons ep show ?thesis by (simp add: loadable_def)
  next
    case False
    obtain rg1 where 1: "load_one name made rg = (Inr (), rg1)" "rg_loaded rg1 = rg_loaded rg @ loadable None (name, made)"
      using load_one_loaded[of name made rg] Cons.prems ep by auto
    have "loadable enabled ep = loadable None (name, made)" using False by (simp add: loadable_def ep)
    with Cons.IH[of rg1] Cons.prems False 1 ep show ?thesis by auto
  qed
qed simp

section \<open>Properties\<close>

text \<open>
  A plugin that fails does not take the others with it: as long as none of them is cancelled
  or fails to name its capabilities, loading succeeds, and the registry holds, in the order of the
  entry points, exactly the enabled plugins that could be built, whose every capability has the
  daemon's major version and whose setup went through.
\<close>

theorem plugins_fail_alone:
  assumes "list_all tame eps"
  shows "\<exists>rg. load_all (enabled_of c) eps new_registry = (Inr (), rg) \<and>
     rg_loaded rg = concat (map (loadable (enabled_of c)) eps)"
  using load_all_loaded[OF assms, of "enabled_of c" new_registry] by (simp add: new_registry_def)

theorem plugins_fail_alone_witness:
  "\<exists>rg. load_all (enabled_of default_integrations_config)
       [(''gone'', Inl (OtherError ''no module'')),
        (''mako'', Inr (mako (\<lambda>v. []) (\<lambda>b. False) (\<lambda>a. Timed_out) default_integrations_config)),
        (''waybar'', Inr waybar)] new_registry = (Inr (), rg) \<and> rg_loaded rg = [waybar]"
proof -
  have "list_all tame [(''gone'', Inl (OtherError ''no module'')),
        (''mako'', Inr (mako (\<lambda>v. []) (\<lambda>b. False) (\<lambda>a. Timed_out) default_integrations_config)),
        (''waybar'', Inr waybar)]"
    by (simp add: tame_def only_exceptions_def mako_def waybar_def needs_binary_def Let_def)
  from plugins_fail_alone[OF this, of default_integrations_config] show ?thesis
    by (simp add: loadable_def enabled_of_def default_integrations_config_def mako_def needs_binary_def
        waybar_def cap_spec_def version_ok_def Let_def)
qed

text \<open>
  An action is answered by the first plugin that has a result for it, in the order of
  registration: a plugin that raises an exception is passed over like one that has none, and
  when nobody answers the action is left to the caller.
\<close>

theorem first_plugin_answers:
  assumes "\<forall>i\<in>set (rg_loaded rg). only_exceptions (ig_handle i a)"
  shows "registry_handle rg a =
     (case List.find (accepted_by a) (rg_loaded rg) of None \<Rightarrow> Inr None | Some i \<Rightarrow> ig_handle i a)"
  unfolding registry_handle_def by (rule handle_list_find[OF assms])

theorem first_plugin_answers_witness:
  "registry_handle \<lparr>rg_loaded = [mako (\<lambda>v. []) (\<lambda>b. True) (\<lambda>a. Timed_out) default_integrations_config,
       voice_plugin default_integrations_config], rg_status = []\<rparr> \<lparr>act_kind = Notify, act_params = []\<rparr> = Inr None"
proof -
  let ?a = "\<lparr>act_kind = Notify, act_params = []\<rparr>"
  let ?rg = "\<lparr>rg_loaded = [mako (\<lambda>v. []) (\<lambda>b. True) (\<lambda>a. Timed_out) default_integrations_config,
       voice_plugin default_integrations_config], rg_status = []\<rparr>"
  have h: "\<exists>m. ig_handle (mako (\<lambda>v. []) (\<lambda>b. True) (\<lambda>a. Timed_out) default_integrations_config) ?a = Inl (RuntimeError m)"
    "ig_handle (voice_plugin default_integrations_config) ?a = Inr None"
    by (simp_all add: mako_def mako_handle_def proc_run_def voice_plugin_def voice_handle_def)
  then have "\<forall>i\<in>set (rg_loaded ?rg). only_exceptions (ig_handle i ?a)" by (auto simp: only_exceptions_def)
  from first_plugin_answers[OF this] h show ?thesis by (auto simp: accepted_by_def)
qed

text \<open>
  Locking the screen stops the runs and refuses none: every active run is asked to stop when
  the screen is locked, while a run requested during the lock is accepted like any other; the
  unlocking does nothing.
\<close>

theorem lock_stops_but_does_not_refuse:
  assumes "distinct (map fst (ex_tasks (dm_exec D)))" and "row_status (dm_exec D) (re_id E) = None"
    and "re_brain E b = Inr br" and "t \<noteq> []"
  shows "ex_tasks (dm_exec (on_active_changed True D)) = map (\<lambda>(j, st). (j, Cancelling)) (ex_tasks (dm_exec D)) \<and>
     fst (dispatch E i M_run_task [(''task'', JStr t), (''brain'', JStr b)] (on_active_changed True D)) =
       Inr (make_ok_response i [(''run_id'', JStr (re_id E))]) \<and>
     on_active_changed False D = D"
proof -
  have "row_status (dm_exec (on_active_changed True D)) (re_id E) = None"
    using assms(2) cancel_all_frame[of "dm_exec D"] by (simp add: on_active_changed_def row_status_def)
  from dispatch_start[OF this assms(3,4), of M_run_task RK_run i]
  show ?thesis using cancel_all_tasks[OF assms(1)] by (simp add: on_active_changed_def)
qed

theorem lock_stops_but_does_not_refuse_witness:
  "fst (dispatch sample_env ''q'' M_run_task [(''task'', JStr ''t''), (''brain'', JStr ''auto'')]
     (on_active_changed True new_daemon)) = Inr (make_ok_response ''q'' [(''run_id'', JStr ''r1'')])"
proof -
  have e: "re_id sample_env = ''r1''" "re_brain sample_env ''auto'' = Inr (Claude_brain ''m'')"
    by (simp_all add: sample_env_def)
  have "distinct (map fst (ex_tasks (dm_exec new_daemon)))" by (simp add: new_daemon_def new_executor_def)
  from lock_stops_but_does_not_refuse[OF this new_daemon_run e(2), of "''t''" "''q''"] show ?thesis by (simp add: e(1))
qed

end
