(* ===== verification/Diagnostics.thy ===== *)
theory Diagnostics
  imports Brain Awareness
begin

text \<open>
  \<open>src/src/agent/diagnostics.py\<close> and \<open>paths.py\<close>: the health checks of \<open>agent doctor\<close>.  What the
  checks look at (the environment, the programs on the path, files, groups, the answer of
  systemctl) is a record; each check is a function of it.
\<close>

section \<open>Checks and the host\<close>

datatype status = S_ok | S_warn | S_fail

record check =
  ck_name :: string
  ck_status :: status
  ck_message :: string
  ck_fix :: string

definition mk_check :: "string \<Rightarrow> status \<Rightarrow> string \<Rightarrow> string \<Rightarrow> check" where
  "mk_check n s m f = \<lparr>ck_name = n, ck_status = s, ck_message = m, ck_fix = f\<rparr>"

record host =
  ho_home :: string
  ho_env :: "string dict"
  ho_env_file :: "string option"
  ho_which :: "string \<Rightarrow> string option"
  ho_exists :: "string \<Rightarrow> bool"
  ho_ydotool :: string
  ho_group_db :: "(string \<times> string list) list"
  ho_login :: "string res"
  ho_primary :: "string res"
  ho_uinput :: bool
  ho_config :: "agent_config res"
  ho_hypr_conf :: "string option"
  ho_embedder :: "nat list option"
  ho_socket :: string
  ho_fixed0 :: "real \<Rightarrow> string"

text \<open>\<open>paths.py\<close>.\<close>

definition config_dir :: "string \<Rightarrow> string" where
  "config_dir home = home @ ''/.config/hyprland-agent''"

definition hypr_conf_path :: "string \<Rightarrow> string" where
  "hypr_conf_path home = home @ ''/.config/hypr/hyprland.conf''"

definition resolve_agent_bin :: "host \<Rightarrow> string" where
  "resolve_agent_bin H =
     (let local = ho_home H @ ''/.local/bin/agent''
      in if ho_exists H local then local
         else case ho_which H ''agent'' of None \<Rightarrow> ''agent'' | Some [] \<Rightarrow> ''agent'' | Some p \<Rightarrow> p)"

definition env_file_path :: "host \<Rightarrow> string" where
  "env_file_path H = config_dir (ho_home H) @ ''/env''"

section \<open>The environment file\<close>

text \<open>\<open>str.splitlines\<close>: a carriage return before a newline belongs to the same break.\<close>

definition is_break :: "char \<Rightarrow> bool" where
  "is_break c = (ordc c \<in> {10, 11, 12, 13, 28, 29, 30})"

fun lines_from :: "string \<Rightarrow> string \<Rightarrow> string list" where
  "lines_from cur [] = (if cur = [] then [] else [cur])"
| "lines_from cur (c # cs) =
     (if c = CHR 0x0D \<and> cs \<noteq> [] \<and> hd cs = CHR 0x0A then lines_from cur cs
      else if is_break c then cur # lines_from [] cs
      else lines_from (cur @ [c]) cs)"

definition splitlines :: "string \<Rightarrow> string list" where
  "splitlines s = lines_from [] s"

definition unquote :: "string \<Rightarrow> string" where
  "unquote v =
     (if 2 \<le> length v \<and> hd v = List.last v \<and> hd v \<in> {CHR 0x27, CHR 0x22}
      then butlast (tl v) else v)"

definition env_entry :: "string \<Rightarrow> (string \<times> string) option" where
  "env_entry raw =
     (let line = strip raw
      in if line = [] \<or> startswith line ''#'' then None
         else (let line' = (if startswith line ''export '' then strip (drop 7 line) else line)
               in if CHR ''='' \<notin> set line' then None
                  else (let key = strip (takeWhile (\<lambda>c. c \<noteq> CHR ''='') line');
                            value = strip (tl (dropWhile (\<lambda>c. c \<noteq> CHR ''='') line'))
                        in if key = [] then None else Some (key, unquote value))))"

definition read_env_file :: "string option \<Rightarrow> string dict" where
  "read_env_file file = (case file of
      None \<Rightarrow> []
    | Some s \<Rightarrow> foldl (\<lambda>d l. case env_entry l of None \<Rightarrow> d | Some (k, v) \<Rightarrow> AList.update k v d) [] (splitlines s))"

definition env_value :: "host \<Rightarrow> string \<Rightarrow> (string \<times> string) option" where
  "env_value H name =
     (let p = strip (dget_or (ho_env H) name [])
      in if p \<noteq> [] then Some (p, ''process env'')
         else (let f = strip (dget_or (read_env_file (ho_env_file H)) name [])
               in if f \<noteq> [] then Some (f, env_file_path H) else None))"

section \<open>The checks\<close>

definition which_check :: "host \<Rightarrow> string \<Rightarrow> check" where
  "which_check H cmd = (case ho_which H cmd of
      Some (c # p) \<Rightarrow> mk_check cmd S_ok (c # p) []
    | _ \<Rightarrow> mk_check cmd S_fail ''not found'' (''sudo pacman -S '' @ cmd))"

definition which_optional :: "host \<Rightarrow> string \<Rightarrow> string \<Rightarrow> check" where
  "which_optional H cmd pkg = (case ho_which H cmd of
      Some (c # p) \<Rightarrow> mk_check cmd S_ok (c # p) []
    | _ \<Rightarrow> mk_check cmd S_warn ''not found (optional)'' (''sudo pacman -S '' @ pkg))"

definition embedder_cache :: "host \<Rightarrow> check" where
  "embedder_cache H = (case ho_embedder H of
      None \<Rightarrow> mk_check ''embedder cache'' S_warn
        (''~/.cache/fastembed not found '' @ u_dash @ '' will download ~1.3 GB on first embed'')
        ''Set memory.enabled: false in config.yaml to skip''
    | Some sizes \<Rightarrow> mk_check ''embedder cache'' S_ok
        (''~/.cache/fastembed ('' @ ho_fixed0 H (of_nat (sum_list sizes) / (1024 * 1024)) @ '' MB)'') [])"

definition ydotoold_active :: "host \<Rightarrow> check" where
  "ydotoold_active H =
     (if strip (ho_ydotool H) = ''active'' then mk_check ''ydotoold'' S_ok ''running'' []
      else mk_check ''ydotoold'' S_fail (strip (ho_ydotool H)) ''systemctl --user enable --now ydotool.service'')"

text \<open>The groups with the user's name, with the primary one; any exception means none.\<close>

definition all_groups :: "host \<Rightarrow> string list" where
  "all_groups H =
     (case rbind (rmap (\<lambda>(g, members). rbind (ho_login H) (\<lambda>u. Inr (if u \<in> set members then [g] else [])))
                  (ho_group_db H)) (\<lambda>gs.
           rbind (ho_primary H) (\<lambda>p. Inr (p # concat gs))) of
        Inl e \<Rightarrow> [] | Inr gs \<Rightarrow> gs)"

definition uinput_group :: "host \<Rightarrow> check" where
  "uinput_group H =
     (if ''input'' \<in> set (all_groups H) then mk_check ''group:input'' S_ok ''member'' []
      else mk_check ''group:input'' S_fail ''not a member'' ''sudo usermod -aG input $USER  # then re-login'')"

definition uinput_writable :: "host \<Rightarrow> check" where
  "uinput_writable H =
     (if ho_uinput H then mk_check ''/dev/uinput'' S_ok ''writable'' []
      else mk_check ''/dev/uinput'' S_warn ''not writable in this session'' ''Re-login or use: newgrp input'')"

definition hyprland_env :: "host \<Rightarrow> check" where
  "hyprland_env H =
     (let sig = dget_or (ho_env H) ''HYPRLAND_INSTANCE_SIGNATURE'' []
      in if sig \<noteq> [] then mk_check ''HYPRLAND_INSTANCE_SIGNATURE'' S_ok (take 20 sig @ [CHR 0xE2, CHR 0x80, CHR 0xA6]) []
         else mk_check ''HYPRLAND_INSTANCE_SIGNATURE'' S_fail
                (''not set '' @ u_dash @ '' not running inside Hyprland?'') [])"

text \<open>
  The checks of the brains take the loaded configuration or its error; the other errors of
  \<open>load_config\<close> pass through.
\<close>

definition anthropic_key :: "host \<Rightarrow> agent_config option \<Rightarrow> check" where
  "anthropic_key H config = (case config of
      None \<Rightarrow> mk_check ''ANTHROPIC_API_KEY'' S_warn ''skipped due to invalid provider config'' []
    | Some c \<Rightarrow>
        if \<not> Config.is_enabled (ag_brain c) ''claude''
        then mk_check ''ANTHROPIC_API_KEY'' S_warn ''disabled by provider config'' []
        else case env_value H ''ANTHROPIC_API_KEY'' of
               None \<Rightarrow> mk_check ''ANTHROPIC_API_KEY''
                         (if ''claude'' \<in> set (bc_auto_order (ag_brain c)) then S_fail else S_warn)
                         ''not set'' ''Export ANTHROPIC_API_KEY in ~/.config/hyprland-agent/env''
             | Some (v, source) \<Rightarrow> mk_check ''ANTHROPIC_API_KEY'' S_ok (''set in '' @ source) [])"

definition anthropic_model :: "host \<Rightarrow> agent_config option \<Rightarrow> check" where
  "anthropic_model H config = (case config of
      None \<Rightarrow> mk_check ''ANTHROPIC_MODEL'' S_warn ''skipped due to invalid provider config'' []
    | Some c \<Rightarrow>
        if \<not> Config.is_enabled (ag_brain c) ''claude''
        then mk_check ''ANTHROPIC_MODEL'' S_warn ''disabled by provider config'' []
        else
          (let found = env_value H ''ANTHROPIC_MODEL'';
               model = (case found of None \<Rightarrow> ''claude-opus-4-7'' | Some (m, _) \<Rightarrow> m);
               suffix = (case found of None \<Rightarrow> [] | Some (_, source) \<Rightarrow> '' from '' @ source)
           in if model = ''claude-opus-4-7'' then
                mk_check ''ANTHROPIC_MODEL'' S_ok (model @ '' (primary: reliable computer-use)'' @ suffix) []
              else if startswith model ''claude-sonnet-'' then
                mk_check ''ANTHROPIC_MODEL'' S_warn (model @ '' (lower-cost fallback)'' @ suffix) []
              else mk_check ''ANTHROPIC_MODEL'' S_warn (model @ '' (custom Claude model)'' @ suffix) []))"

definition provider_check :: "host \<Rightarrow> agent_config \<Rightarrow> string \<times> provider_config \<Rightarrow> check list" where
  "provider_check H c kp = (case kp of (key, pv) \<Rightarrow>
     (if \<not> Config.is_enabled (ag_brain c) key
      then [mk_check (pv_key_env pv) S_warn ''disabled by provider config'' []]
      else case env_value H (pv_key_env pv) of
             None \<Rightarrow> [mk_check (pv_key_env pv) S_warn
                        (''not set '' @ u_dash @ '' '' @ pv_name pv @ '' brain unavailable'') []]
           | Some (_, key_source) \<Rightarrow>
               [mk_check (pv_key_env pv) S_ok (''set in '' @ key_source) [],
                mk_check (pv_model_env pv) S_ok
                  (case env_value H (pv_model_env pv) of
                     None \<Rightarrow> pv_default_model pv | Some (m, source) \<Rightarrow> m @ '' from '' @ source) []]))"

definition provider_checks :: "host \<Rightarrow> agent_config option \<Rightarrow> check list" where
  "provider_checks H config = (case config of
      None \<Rightarrow> [mk_check ''provider credentials'' S_warn ''skipped due to invalid provider config'' []]
    | Some c \<Rightarrow> concat (map (provider_check H c) providers))"

definition brain_config_checks :: "host \<Rightarrow> string + agent_config \<Rightarrow> check list" where
  "brain_config_checks H r = (case r of
      Inl err \<Rightarrow> [mk_check ''provider config'' S_fail err ''Edit ~/.config/hyprland-agent/config.yaml'']
    | Inr c \<Rightarrow>
        (let enabled = filter (Config.is_enabled (ag_brain c)) (bc_auto_order (ag_brain c))
         in [mk_check ''provider config'' S_ok
               (if ho_exists H (ag_path c) then ag_path c else ''defaults; '' @ ag_path c @ '' not found'') [],
             mk_check ''brain.default'' S_ok (bc_default (ag_brain c)) [],
             mk_check ''brain.auto_order'' S_ok (join '', '' (bc_auto_order (ag_brain c))) [],
             mk_check ''brain.enabled'' (if enabled \<noteq> [] then S_ok else S_fail)
               (if join '', '' enabled \<noteq> [] then join '', '' enabled else ''no providers enabled'')
               (if enabled = [] then ''Enable at least one provider in config.yaml'' else [])]))"

definition allowlist_check :: "host \<Rightarrow> check" where
  "allowlist_check H =
     (let path = config_dir (ho_home H) @ ''/allowlist.yaml''
      in if ho_exists H path then mk_check ''allowlist.yaml'' S_ok path []
         else mk_check ''allowlist.yaml'' S_warn (''not found '' @ u_dash @ '' agent will block all actions'')
                ''Run: agent config init-allowlist'')"

definition killswitch_bind :: "host \<Rightarrow> check" where
  "killswitch_bind H = (case ho_hypr_conf H of
      None \<Rightarrow> mk_check ''killswitch hotkey'' S_warn ''hyprland.conf not found'' []
    | Some t \<Rightarrow>
        if contains t ''agent stop'' then mk_check ''killswitch hotkey'' S_ok ''SUPER+SHIFT+ESC bound'' []
        else mk_check ''killswitch hotkey'' S_warn ''not configured'' ''Run: agent config bind-killswitch'')"

definition daemon_socket :: "host \<Rightarrow> check" where
  "daemon_socket H =
     (if ho_exists H (ho_socket H) then mk_check ''daemon socket'' S_ok (ho_socket H) []
      else mk_check ''daemon socket'' S_warn (''socket not found '' @ u_dash @ '' daemon not running'')
             ''systemctl --user start hyprland-agent'')"

definition doctor_checks :: "host \<Rightarrow> string + agent_config \<Rightarrow> check list" where
  "doctor_checks H r =
     (let config = (case r of Inl err \<Rightarrow> None | Inr c \<Rightarrow> Some c)
      in [which_check H ''wtype'', which_check H ''ydotool'', which_check H ''grim'', which_check H ''wl-copy'',
          which_check H ''wl-paste'', ydotoold_active H, uinput_group H, uinput_writable H, hyprland_env H] @
         brain_config_checks H r @ [anthropic_key H config, anthropic_model H config] @
         provider_checks H config @
         [allowlist_check H, killswitch_bind H, daemon_socket H,
          which_optional H ''notify-send'' ''libnotify'', which_optional H ''fuzzel'' ''fuzzel'',
          which_optional H ''waybar'' ''waybar'', embedder_cache H])"

definition run_all :: "host \<Rightarrow> check list res" where
  "run_all H = (case ho_config H of
      Inr c \<Rightarrow> Inr (doctor_checks H (Inr c))
    | Inl (ConfigError msg) \<Rightarrow> Inr (doctor_checks H (Inl msg))
    | Inl e \<Rightarrow> Inl e)"

text \<open>What \<open>print_report\<close> returns, and the exit codes of \<open>agent doctor\<close> without and with \<open>--json\<close>.\<close>

definition print_report :: "check list \<Rightarrow> bool" where
  "print_report cs = (\<not> list_ex (\<lambda>c. ck_status c = S_fail) cs)"

definition doctor_exit :: "bool \<Rightarrow> check list \<Rightarrow> nat" where
  "doctor_exit json cs =
     (if json then (if list_all (\<lambda>c. ck_status c = S_ok) cs then 0 else 1)
      else if print_report cs then 0 else 1)"

section \<open>Lemmas\<close>

lemma env_value_nonempty: "env_value H k = Some (v, source) \<Longrightarrow> v \<noteq> []"
  by (auto simp: env_value_def Let_def split: if_splits)

lemma mk_check_status [simp]: "ck_status (mk_check n s m f) = s"
  by (simp add: mk_check_def)

text \<open>The checks that fail are those of the host, and three of the brains.\<close>

definition on_path :: "host \<Rightarrow> string \<Rightarrow> bool" where
  "on_path H cmd = (ho_which H cmd \<noteq> None \<and> ho_which H cmd \<noteq> Some [])"

definition host_ready :: "host \<Rightarrow> bool" where
  "host_ready H \<longleftrightarrow>
     on_path H ''wtype'' \<and> on_path H ''ydotool'' \<and> on_path H ''grim'' \<and> on_path H ''wl-copy'' \<and>
     on_path H ''wl-paste'' \<and> strip (ho_ydotool H) = ''active'' \<and> ''input'' \<in> set (all_groups H) \<and>
     dget_or (ho_env H) ''HYPRLAND_INSTANCE_SIGNATURE'' [] \<noteq> []"

lemma which_check_fails: "ck_status (which_check H cmd) = S_fail \<longleftrightarrow> \<not> on_path H cmd"
  by (auto simp: which_check_def on_path_def split: option.split list.split)

lemma optional_not_fail: "ck_status (which_optional H cmd pkg) \<noteq> S_fail"
  by (auto simp: which_optional_def split: option.split list.split)

lemma host_checks_fail:
  "ck_status (ydotoold_active H) = S_fail \<longleftrightarrow> strip (ho_ydotool H) \<noteq> ''active''"
  "ck_status (uinput_group H) = S_fail \<longleftrightarrow> ''input'' \<notin> set (all_groups H)"
  "ck_status (uinput_writable H) \<noteq> S_fail"
  "ck_status (hyprland_env H) = S_fail \<longleftrightarrow> dget_or (ho_env H) ''HYPRLAND_INSTANCE_SIGNATURE'' [] = []"
  by (auto simp: ydotoold_active_def uinput_group_def uinput_writable_def hyprland_env_def Let_def)

lemma soft_checks:
  "ck_status (allowlist_check H) \<noteq> S_fail" "ck_status (killswitch_bind H) \<noteq> S_fail"
  "ck_status (daemon_socket H) \<noteq> S_fail" "ck_status (embedder_cache H) \<noteq> S_fail"
  "ck_status (anthropic_model H config) \<noteq> S_fail"
  by (auto simp: allowlist_check_def killswitch_bind_def daemon_socket_def embedder_cache_def anthropic_model_def Let_def
      split: option.split)

lemma provider_checks_soft: "\<not> list_ex (\<lambda>c. ck_status c = S_fail) (provider_checks H config)"
  by (auto simp: provider_checks_def provider_check_def list_ex_iff split: option.split)

definition claude_asked :: "agent_config \<Rightarrow> bool" where
  "claude_asked c \<longleftrightarrow> ''claude'' \<in> set (selectable_providers c)"

lemma brain_checks_fail:
  "list_ex (\<lambda>k. ck_status k = S_fail) (brain_config_checks H (Inr c)) \<longleftrightarrow> selectable_providers c = []"
  "list_ex (\<lambda>k. ck_status k = S_fail) (brain_config_checks H (Inl e))"
  "ck_status (anthropic_key H (Some c)) = S_fail \<longleftrightarrow> claude_asked c \<and> env_value H ''ANTHROPIC_API_KEY'' = None"
  by (auto simp: brain_config_checks_def anthropic_key_def claude_asked_def selectable_providers_def Let_def
      split: option.split)

lemma doctor_verdict_iff:
  assumes "run_all H = Inr cs"
  shows "print_report cs \<longleftrightarrow> host_ready H \<and> (\<exists>c. ho_config H = Inr c \<and> selectable_providers c \<noteq> [] \<and>
     (claude_asked c \<longrightarrow> env_value H ''ANTHROPIC_API_KEY'' \<noteq> None))"
proof (cases "ho_config H")
  case (Inl e)
  then have "\<exists>m. cs = doctor_checks H (Inl m)" using assms by (cases e) (auto simp: run_all_def)
  then show ?thesis using Inl by (auto simp: print_report_def doctor_checks_def brain_checks_fail(2))
next
  case (Inr c)
  then have "cs = doctor_checks H (Inr c)" using assms by (simp add: run_all_def)
  then show ?thesis
    using Inr
    by (auto simp: print_report_def doctor_checks_def Let_def which_check_fails host_checks_fail soft_checks
        optional_not_fail provider_checks_soft brain_checks_fail host_ready_def)
qed

text \<open>A process whose environment has what the doctor looked at, as the unit of the daemon gives it.\<close>

definition sees :: "host \<Rightarrow> string dict \<Rightarrow> bool" where
  "sees H env \<longleftrightarrow> (\<forall>k. strip (dget_or env k []) = (case env_value H k of None \<Rightarrow> [] | Some (v, _) \<Rightarrow> v))"

lemma sees_env_set: "sees H env \<Longrightarrow> env_set env k \<longleftrightarrow> env_value H k \<noteq> None"
  by (cases "env_value H k") (auto simp: sees_def env_set_def dest: env_value_nonempty)

lemma get_brain_auto:
  "bc_default (ag_brain c) = ''auto'' \<Longrightarrow> get_brain env path (Inr c) None = auto_select env c [] (bc_auto_order (ag_brain c))"
  by (simp add: get_brain_def lower_def lower_char_def ordc_def)

definition key_variables :: "string list" where
  "key_variables = ''ANTHROPIC_API_KEY'' # map (\<lambda>(n, pv). pv_key_env pv) providers"

lemma unavailable_without_keys:
  assumes "\<And>k. k \<in> set key_variables \<Longrightarrow> \<not> env_set env k"
  shows "provider_available env q \<noteq> Inr (True, x)"
proof
  assume a: "provider_available env q = Inr (True, x)"
  then have q: "q \<noteq> ''claude''" using assms by (auto simp: provider_available_def key_variables_def)
  then obtain pv where pv: "dget providers q = Some pv" "env_set env (pv_key_env pv)"
    using a by (auto simp: provider_available_def dindex_def split: option.splits if_splits)
  then have "(q, pv) \<in> set providers" by (simp add: map_of_SomeD)
  then have "pv_key_env pv \<in> set key_variables" by (force simp: key_variables_def)
  with assms pv(2) show False by blast
qed

lemma optional_ok: "ck_status (which_optional H cmd pkg) = S_ok \<longleftrightarrow> on_path H cmd"
  by (auto simp: which_optional_def on_path_def split: option.split list.split)

lemma anthropic_key_ok:
  "ck_status (anthropic_key H (Some c)) = S_ok \<Longrightarrow>
   Config.is_enabled (ag_brain c) ''claude'' \<and> env_value H ''ANTHROPIC_API_KEY'' \<noteq> None"
  by (auto simp: anthropic_key_def split: if_splits option.splits)

lemma provider_checks_ok:
  "list_all (\<lambda>c. ck_status c = S_ok) (provider_checks H (Some c)) \<Longrightarrow>
   \<forall>(n, pv) \<in> set providers. Config.is_enabled (ag_brain c) n \<and> env_value H (pv_key_env pv) \<noteq> None"
proof -
  have one: "Config.is_enabled (ag_brain c) n \<and> env_value H (pv_key_env pv) \<noteq> None"
    if "list_all (\<lambda>c. ck_status c = S_ok) (provider_check H c (n, pv))" for n pv
    using that by (auto simp: provider_check_def split: if_splits option.splits)
  assume "list_all (\<lambda>c. ck_status c = S_ok) (provider_checks H (Some c))"
  then have "\<forall>kp \<in> set providers. list_all (\<lambda>c. ck_status c = S_ok) (provider_check H c kp)"
    by (simp add: provider_checks_def list_all_iff)
  with one show ?thesis by blast
qed

text \<open>Reading back what was written line by line.\<close>

definition env_key :: "string \<Rightarrow> bool" where
  "env_key k \<longleftrightarrow> k \<noteq> [] \<and> list_all (\<lambda>c. \<not> is_space c \<and> c \<noteq> CHR ''='') k \<and> hd k \<noteq> CHR ''#''"

definition env_text :: "string dict \<Rightarrow> string" where
  "env_text d = concat (map (\<lambda>(k, v). k @ ''='' @ [CHR 0x22] @ v @ [CHR 0x22, CHR 0x0A]) d)"

lemma break_space: "is_break c \<Longrightarrow> is_space c"
  by (auto simp: is_break_def is_space_def)

lemma newline_breaks: "is_break CHR 0x0A" "is_break CHR 0x0D"
  by (simp_all add: is_break_def ordc_def)

lemma lines_from_line:
  "list_all (\<lambda>c. \<not> is_break c) w \<Longrightarrow> lines_from cur (w @ CHR 0x0A # rest) = (cur @ w) # lines_from [] rest"
proof (induction w arbitrary: cur)
  case (Cons c w)
  then have "c \<noteq> CHR 0x0D" using newline_breaks by auto
  with Cons show ?case by simp
qed (simp add: newline_breaks)

lemma break_free: "\<not> is_space c \<Longrightarrow> \<not> is_break c"
  using break_space by blast

lemma quote_chars: "\<not> is_break CHR ''=''" "\<not> is_break CHR 0x22" "\<not> is_space CHR 0x22"
  by (simp_all add: is_break_def is_space_def ordc_def)

definition env_line :: "string \<times> string \<Rightarrow> string" where
  "env_line kv = fst kv @ ''='' @ [CHR 0x22] @ snd kv @ [CHR 0x22]"

lemma env_text_Cons: "env_text (kv # d) = env_line kv @ CHR 0x0A # env_text d"
  by (simp add: env_text_def env_line_def case_prod_beta)

lemma env_line_breaks:
  assumes "env_key k" and "list_all (\<lambda>c. \<not> is_break c) v"
  shows "list_all (\<lambda>c. \<not> is_break c) (env_line (k, v))"
proof -
  have "list_all (\<lambda>c. \<not> is_break c) k" using assms(1) break_free by (auto simp: env_key_def list_all_iff)
  then show ?thesis using assms(2) by (simp add: env_line_def quote_chars)
qed

lemma split_lines_env:
  "\<forall>kv \<in> set d. env_key (fst kv) \<and> list_all (\<lambda>c. \<not> is_break c) (snd kv) \<Longrightarrow>
   splitlines (env_text d) = map env_line d"
proof (induction d)
  case (Cons kv d)
  then have "list_all (\<lambda>c. \<not> is_break c) (env_line kv)"
    using env_line_breaks[of "fst kv" "snd kv"] by simp
  from lines_from_line[OF this, of "[]" "env_text d"] Cons show ?case
    by (simp add: splitlines_def env_text_Cons)
qed (simp add: splitlines_def env_text_def)

lemma env_key_facts:
  assumes "env_key k"
  shows "k \<noteq> []" "\<not> is_space (hd k)" "hd k \<noteq> CHR ''#''" "strip k = k" "CHR ''='' \<notin> set k" "CHR '' '' \<notin> set k"
proof -
  have blank: "is_space CHR '' ''" by (simp add: is_space_def ordc_def)
  have all: "\<not> is_space c \<and> c \<noteq> CHR ''=''" if "c \<in> set k" for c
    using assms that by (simp add: env_key_def list_all_iff)
  show "k \<noteq> []" "hd k \<noteq> CHR ''#''" using assms by (simp_all add: env_key_def)
  then show "\<not> is_space (hd k)" using all[of "hd k"] by simp
  show "strip k = k" using all by (blast intro: strip_no_space)
  show "CHR ''='' \<notin> set k" "CHR '' '' \<notin> set k" using all blank by blast+
qed

lemma env_line_parts:
  assumes "env_key k"
  shows "takeWhile (\<lambda>c. c \<noteq> CHR ''='') (env_line (k, v)) = k"
    and "tl (dropWhile (\<lambda>c. c \<noteq> CHR ''='') (env_line (k, v))) = [CHR 0x22] @ v @ [CHR 0x22]"
proof -
  have "\<forall>c \<in> set k. c \<noteq> CHR ''=''" using env_key_facts(5)[OF assms] by blast
  then show "takeWhile (\<lambda>c. c \<noteq> CHR ''='') (env_line (k, v)) = k"
    "tl (dropWhile (\<lambda>c. c \<noteq> CHR ''='') (env_line (k, v))) = [CHR 0x22] @ v @ [CHR 0x22]"
    by (simp_all add: env_line_def takeWhile_append dropWhile_append)
qed

lemma not_export:
  assumes "env_key k"
  shows "\<not> startswith (env_line (k, v)) ''export ''"
proof
  assume "startswith (env_line (k, v)) ''export ''"
  then obtain rest where "env_line (k, v) = ''export '' @ rest" by (auto simp: startswith_prefix prefix_def)
  then have "k = takeWhile (\<lambda>c. c \<noteq> CHR ''='') (''export '' @ rest)"
    using env_line_parts(1)[OF assms, of v] by simp
  then have "CHR '' '' \<in> set k" by simp
  with env_key_facts(6)[OF assms] show False by simp
qed

lemma env_entry_line:
  assumes "env_key k"
  shows "env_entry (env_line (k, v)) = Some (k, v)"
proof -
  note k = env_key_facts[OF assms]
  have s: "strip (env_line (k, v)) = env_line (k, v)"
    by (rule strip_ends) (use k quote_chars in \<open>simp_all add: env_line_def\<close>)
  have v: "strip ([CHR 0x22] @ v @ [CHR 0x22]) = [CHR 0x22] @ v @ [CHR 0x22]"
    by (rule strip_ends) (use quote_chars in simp_all)
  have u: "unquote ([CHR 0x22] @ v @ [CHR 0x22]) = v" by (simp add: unquote_def)
  have c: "\<not> startswith (env_line (k, v)) ''#''" "env_line (k, v) \<noteq> []" "CHR ''='' \<in> set (env_line (k, v))"
    using k(1,3) by (cases k; simp add: env_line_def startswith_def)+
  show ?thesis
    using c k(1,4) not_export[OF assms, of v]
    by (simp add: env_entry_def s Let_def env_line_parts[OF assms] v[simplified] u[simplified])
qed

lemma foldl_updates:
  "distinct (map fst (d0 @ d)) \<Longrightarrow> foldl (\<lambda>d (k, v). AList.update k v d) d0 d = d0 @ d"
proof (induction d arbitrary: d0)
  case (Cons kv d)
  obtain k v where kv: "kv = (k, v)" by fastforce
  with Cons.prems have "k \<notin> fst ` set d0" by auto
  then have "AList.update k v d0 = d0 @ [(k, v)]" by (induction d0) auto
  with Cons kv show ?case by simp
qed simp

section \<open>Properties\<close>

text \<open>
  The doctor's verdict, exactly: it reports no failure if and only if the five tools are on
  the path, the input daemon runs, the user is in the input group, Hyprland's variable is set,
  the configuration loads, some enabled provider is in the selection order and, if that provider
  can be claude, claude's key is set in the environment or its file.  Every other check at most
  warns.
\<close>

theorem doctor_verdict:
  assumes "run_all H = Inr cs"
  shows "print_report cs \<longleftrightarrow> host_ready H \<and> (\<exists>c. ho_config H = Inr c \<and> selectable_providers c \<noteq> [] \<and>
     (''claude'' \<in> set (selectable_providers c) \<longrightarrow> env_value H ''ANTHROPIC_API_KEY'' \<noteq> None))"
  using doctor_verdict_iff[OF assms] by (simp add: claude_asked_def)

text \<open>
  A green doctor promises a brain when claude may be selected: if the report has no failure,
  claude is enabled and in the order, and the daemon's environment has what the doctor looked
  at, then selecting a brain by the default setting succeeds.
\<close>

theorem green_doctor_promises_a_brain:
  assumes "run_all H = Inr cs" and "print_report cs" and "ho_config H = Inr c"
    and "brain_config_ok (ag_brain c)" and "bc_default (ag_brain c) = ''auto''"
    and "''claude'' \<in> set (selectable_providers c)" and "sees H env"
  shows "\<exists>b. get_brain env path (ho_config H) None = Inr b"
proof -
  have key: "env_value H ''ANTHROPIC_API_KEY'' \<noteq> None"
    using assms doctor_verdict_iff[OF assms(1)] by (auto simp: claude_asked_def)
  then have av: "provider_available env ''claude'' = Inr (True, ''available'')"
    using sees_env_set[OF assms(7)] by (simp add: provider_available_def)
  have known: "set (bc_auto_order (ag_brain c)) \<subseteq> set known_providers"
    using assms(4) by (simp add: brain_config_ok_def)
  have cl: "''claude'' \<in> set (bc_auto_order (ag_brain c))" "Config.is_enabled (ag_brain c) ''claude''"
    using assms(6) by (simp_all add: selectable_providers_def)
  from auto_select_first[OF known, of env c "[]"] av cl
  have "\<exists>b. auto_select env c [] (bc_auto_order (ag_brain c)) = Inr b" by fastforce
  with assms(3,5) show ?thesis by (simp add: get_brain_auto)
qed

text \<open>
  A green doctor promises nothing when claude may not be selected: with claude disabled or
  left out of the order, on a machine that is ready and has another provider enabled, the report
  has no failure although no key is set at all and selecting a brain fails.
\<close>

theorem green_doctor_without_a_brain:
  assumes "host_ready H" and "ho_config H = Inr c" and "brain_config_ok (ag_brain c)"
    and "bc_default (ag_brain c) = ''auto''" and "selectable_providers c \<noteq> []"
    and "''claude'' \<notin> set (selectable_providers c)" and "\<forall>k \<in> set key_variables. env_value H k = None" and "sees H env"
  shows "\<exists>cs m. run_all H = Inr cs \<and> print_report cs \<and>
     get_brain env path (ho_config H) None = Inl (BrainSelectionError m)"
proof -
  have r: "run_all H = Inr (doctor_checks H (Inr c))" using assms(2) by (simp add: run_all_def)
  then have p: "print_report (doctor_checks H (Inr c))"
    using doctor_verdict_iff[OF r] assms by (simp add: claude_asked_def)
  have known: "set (bc_auto_order (ag_brain c)) \<subseteq> set known_providers"
    using assms(3) by (simp add: brain_config_ok_def)
  have "\<not> env_set env k" if "k \<in> set key_variables" for k
    using sees_env_set[OF assms(8)] assms(7) that by simp
  note none = unavailable_without_keys[OF this]
  from none auto_select_first[OF known, of env c "[]"] obtain m where
    "auto_select env c [] (bc_auto_order (ag_brain c)) = Inl (BrainSelectionError m)" by blast
  then show ?thesis using r p assms(2,4) by (simp add: get_brain_auto)
qed

text \<open>
  The two forms of the doctor do not agree: \<open>agent doctor --json\<close> exits with 0 only when every
  provider of the program is enabled and has its key, claude included, and the three optional
  programs are installed, while without \<open>--json\<close> none of that is needed; so the JSON form fails
  on machines the report calls healthy, and never the other way round.
\<close>

theorem json_doctor_is_stricter:
  assumes "run_all H = Inr cs" and "doctor_exit True cs = 0"
  shows "doctor_exit False cs = 0 \<and>
     (\<exists>c. ho_config H = Inr c \<and> Config.is_enabled (ag_brain c) ''claude'' \<and>
       (\<forall>(n, pv) \<in> set providers. Config.is_enabled (ag_brain c) n)) \<and>
     (\<forall>k \<in> set key_variables. env_value H k \<noteq> None) \<and>
     on_path H ''notify-send'' \<and> on_path H ''fuzzel'' \<and> on_path H ''waybar''"
proof -
  have all: "list_all (\<lambda>c. ck_status c = S_ok) cs" using assms(2) by (simp add: doctor_exit_def split: if_splits)
  then have "print_report cs" by (auto simp: print_report_def list_ex_iff list_all_iff)
  moreover from this obtain c where c: "ho_config H = Inr c" using doctor_verdict_iff[OF assms(1)] by blast
  then have cs: "cs = doctor_checks H (Inr c)" using assms(1) by (simp add: run_all_def)
  with all have parts: "ck_status (anthropic_key H (Some c)) = S_ok"
    "list_all (\<lambda>c. ck_status c = S_ok) (provider_checks H (Some c))"
    "ck_status (which_optional H ''notify-send'' ''libnotify'') = S_ok"
    "ck_status (which_optional H ''fuzzel'' ''fuzzel'') = S_ok" "ck_status (which_optional H ''waybar'' ''waybar'') = S_ok"
    by (simp_all add: doctor_checks_def Let_def)
  note claude = anthropic_key_ok[OF parts(1)] and others = provider_checks_ok[OF parts(2)]
  moreover have "\<forall>k \<in> set key_variables. env_value H k \<noteq> None"
    using claude others by (auto simp: key_variables_def)
  ultimately show ?thesis
    using c parts(3-5) by (auto simp: doctor_exit_def optional_ok)
qed

text \<open>
  The environment file is read as it is written: any entries with keys that are words, and
  with values of any characters but line breaks (quotes, blanks and equal signs included), come
  back unchanged and in order when each is a line with its value in double quotes.
\<close>

theorem env_file_roundtrip:
  assumes "distinct (map fst d)"
    and "\<forall>kv \<in> set d. env_key (fst kv) \<and> list_all (\<lambda>c. \<not> is_break c) (snd kv)"
  shows "read_env_file (Some (env_text d)) = d"
proof -
  have step: "foldl (\<lambda>e l. case env_entry l of None \<Rightarrow> e | Some (k, v) \<Rightarrow> AList.update k v e) e0
      (map env_line ds) = foldl (\<lambda>e (k, v). AList.update k v e) e0 ds"
    if "\<forall>kv \<in> set ds. env_key (fst kv)" for e0 ds
    using that by (induction ds arbitrary: e0) (auto simp: env_entry_line)
  have "\<forall>kv \<in> set d. env_key (fst kv)" using assms(2) by blast
  from step[OF this, of "[]"] show ?thesis
    using assms foldl_updates[of "[]" d] by (simp add: read_env_file_def split_lines_env)
qed

section \<open>Witnesses\<close>

definition sample_host :: "string option \<Rightarrow> agent_config \<Rightarrow> host" where
  "sample_host file c = \<lparr>ho_home = ''/home/al'', ho_env = [(''HYPRLAND_INSTANCE_SIGNATURE'', ''ab'')], ho_env_file = file,
     ho_which = (\<lambda>cmd. Some (''/usr/bin/'' @ cmd)), ho_exists = (\<lambda>p. False), ho_ydotool = ''active'',
     ho_group_db = [(''input'', [''al''])], ho_login = Inr ''al'', ho_primary = Inr ''al'', ho_uinput = True,
     ho_config = Inr c, ho_hypr_conf = None, ho_embedder = None, ho_socket = ''/s'', ho_fixed0 = (\<lambda>r. ''0'')\<rparr>"

lemma sample_ready: "host_ready (sample_host file c)"
  by (simp add: host_ready_def sample_host_def on_path_def all_groups_def dget_or_def strip_def is_space_def ordc_def)

definition with_key :: "string option" where
  "with_key = Some (''# keys'' @ [CHR 0x0A] @ ''export ANTHROPIC_API_KEY = k1'')"

lemma with_key_value:
  "env_value (sample_host with_key c) ''ANTHROPIC_API_KEY'' = Some (''k1'', ''/home/al/.config/hyprland-agent/env'')"
proof -
  have "read_env_file with_key = [(''ANTHROPIC_API_KEY'', ''k1'')]" by code_simp
  moreover have "strip ''k1'' = ''k1''" "strip [] = []" by code_simp+
  ultimately show ?thesis
    by (simp add: env_value_def sample_host_def dget_or_def env_file_path_def config_dir_def)
qed

lemma default_selectable: "set (selectable_providers (default_agent_config p)) = set known_providers"
  by (auto simp: selectable_providers_def default_agent_config_def default_brain_config_def Config.is_enabled_def
      all_enabled_def known_providers_def dget_or_def)

lemma default_config_facts:
  "brain_config_ok (ag_brain (default_agent_config p))" "bc_default (ag_brain (default_agent_config p)) = ''auto''"
  "''claude'' \<in> set (selectable_providers (default_agent_config p))"
  using default_selectable[of p]
  by (simp_all add: brain_config_ok_def default_agent_config_def default_brain_config_def all_enabled_def known_providers_def)

theorem doctor_verdict_witness:
  "print_report (doctor_checks (sample_host with_key (default_agent_config ''/c'')) (Inr (default_agent_config ''/c'')))"
proof -
  let ?H = "sample_host with_key (default_agent_config ''/c'')"
  have r: "run_all ?H = Inr (doctor_checks ?H (Inr (default_agent_config ''/c'')))"
    by (simp add: run_all_def sample_host_def)
  have "ho_config ?H = Inr (default_agent_config ''/c'')" by (simp add: sample_host_def)
  moreover have "selectable_providers (default_agent_config ''/c'') \<noteq> []"
    using default_config_facts(3)[of "''/c''"] by auto
  ultimately show ?thesis
    using doctor_verdict[OF r] sample_ready[of with_key "default_agent_config ''/c''"]
      with_key_value[of "default_agent_config ''/c''"] by auto
qed

lemma sample_sees:
  assumes "read_env_file file = d" and "\<forall>kv \<in> set d. snd kv \<noteq> [] \<and> strip (snd kv) = snd kv"
    and "dget d ''HYPRLAND_INSTANCE_SIGNATURE'' = None"
  shows "sees (sample_host file c) ((''HYPRLAND_INSTANCE_SIGNATURE'', ''ab'') # d)"
proof -
  have s: "strip ''ab'' = ''ab''" "strip [] = []" by code_simp+
  have "strip (dget_or d k []) = dget_or d k []" for k
    using assms(2) s(2) by (auto simp: dget_or_def split: option.split dest!: map_of_SomeD)
  then show ?thesis
    using assms(1,3) s
    by (auto simp: sees_def env_value_def sample_host_def dget_or_def Let_def split: option.split)
qed

theorem green_doctor_promises_a_brain_witness:
  "\<exists>b. get_brain [(''HYPRLAND_INSTANCE_SIGNATURE'', ''ab''), (''ANTHROPIC_API_KEY'', ''k1'')] ''/c''
     (Inr (default_agent_config ''/c'')) None = Inr b"
proof -
  let ?c = "default_agent_config ''/c''"
  let ?H = "sample_host with_key ?c"
  have r: "run_all ?H = Inr (doctor_checks ?H (Inr ?c))" and c: "ho_config ?H = Inr ?c"
    by (simp_all add: run_all_def sample_host_def)
  have p: "print_report (doctor_checks ?H (Inr ?c))"
    unfolding doctor_verdict_iff[OF r] using sample_ready[of with_key ?c] default_config_facts(3)[of "''/c''"]
      with_key_value[of ?c] c by auto
  have "read_env_file with_key = [(''ANTHROPIC_API_KEY'', ''k1'')]" "strip ''k1'' = ''k1''" by code_simp+
  then have "sees ?H [(''HYPRLAND_INSTANCE_SIGNATURE'', ''ab''), (''ANTHROPIC_API_KEY'', ''k1'')]"
    by (intro sample_sees) simp_all
  from green_doctor_promises_a_brain[OF r p c default_config_facts this] c show ?thesis by simp
qed

text \<open>Only another provider is enabled, and nothing is in the environment file.\<close>

definition groq_only :: agent_config where
  "groq_only = (default_agent_config ''/c'')\<lparr>ag_brain :=
     default_brain_config\<lparr>bc_providers := map (\<lambda>p. (p, p = ''groq'')) known_providers\<rparr>\<rparr>"

theorem green_doctor_without_a_brain_witness:
  "\<exists>cs m. run_all (sample_host None groq_only) = Inr cs \<and> print_report cs \<and>
     get_brain [(''HYPRLAND_INSTANCE_SIGNATURE'', ''ab'')] ''/c'' (Inr groq_only) None = Inl (BrainSelectionError m)"
proof -
  let ?H = "sample_host None groq_only"
  have c: "ho_config ?H = Inr groq_only" by (simp add: sample_host_def)
  have b: "brain_config_ok (ag_brain groq_only)" "bc_default (ag_brain groq_only) = ''auto''"
    by (simp_all add: groq_only_def brain_config_ok_def default_brain_config_def known_providers_def)
  have sel: "selectable_providers groq_only = [''groq'']" by code_simp
  have sees: "sees ?H [(''HYPRLAND_INSTANCE_SIGNATURE'', ''ab'')]"
    by (rule sample_sees) (simp_all add: read_env_file_def)
  have "strip [] = []" by code_simp
  then have "\<forall>k \<in> set key_variables. env_value ?H k = None"
    by (simp add: key_variables_def providers_def provider_def env_value_def sample_host_def dget_or_def read_env_file_def)
  from green_doctor_without_a_brain[OF sample_ready c b _ _ _ sees, of "''/c''"] sel this show ?thesis
    by (simp add: c)
qed

theorem env_file_roundtrip_witness:
  "read_env_file (Some (env_text [(''A_KEY'', ''x = \"y\" '' @ [CHR 0x22]), (''B'', [])])) =
     [(''A_KEY'', ''x = \"y\" '' @ [CHR 0x22]), (''B'', [])]"
  by (rule env_file_roundtrip) (simp_all add: env_key_def is_space_def is_break_def ordc_def)


definition every_key :: "string dict" where
  "every_key = map (\<lambda>k. (k, ''k1'')) key_variables"

theorem json_doctor_is_stricter_witness:
  "doctor_exit False (doctor_checks ((sample_host None (default_agent_config ''/c''))
     \<lparr>ho_env := (''HYPRLAND_INSTANCE_SIGNATURE'', ''ab'') # every_key, ho_exists := (\<lambda>p. True),
      ho_hypr_conf := Some ''agent stop'', ho_embedder := Some []\<rparr>)
     (Inr (default_agent_config ''/c''))) = 0"
proof -
  let ?c = "default_agent_config ''/c''"
  let ?H = "(sample_host None ?c)
     \<lparr>ho_env := (''HYPRLAND_INSTANCE_SIGNATURE'', ''ab'') # every_key, ho_exists := (\<lambda>p. True),
      ho_hypr_conf := Some ''agent stop'', ho_embedder := Some []\<rparr>"
  have r: "run_all ?H = Inr (doctor_checks ?H (Inr ?c))" by (simp add: run_all_def sample_host_def)
  have "doctor_exit True (doctor_checks ?H (Inr ?c)) = 0" by code_simp
  from json_doctor_is_stricter[OF r this] show ?thesis by blast
qed

end
