(* ===== verification/Cli.thy ===== *)
theory Cli
  imports Client Diagnostics
begin

text \<open>
  \<open>src/src/agent/cli\<close>: the commands that talk to the daemon (\<open>primary.py\<close>, \<open>runs.py\<close>,
  \<open>learning.py\<close>, \<open>memory.py\<close>, \<open>hypr.py\<close>) over the helpers of \<open>_common.py\<close>.  A command is a function
  of the daemon's state through its requests; its result is what it prints and how it ends.
  Arguments come parsed; \<open>dumps\<close> is \<open>json.dumps\<close> (with or without indentation), \<open>other\<close> and the
  number formats are the text of values that is not spelled out.
\<close>

section \<open>Output and exit codes\<close>

datatype exit_code = X_ok | X_error | X_misuse | X_daemon_unavailable | X_killswitch_armed | X_confirmation_denied

fun code_value :: "exit_code \<Rightarrow> nat" where
  "code_value X_ok = 0"
| "code_value X_error = 1"
| "code_value X_misuse = 2"
| "code_value X_daemon_unavailable = 3"
| "code_value X_killswitch_armed = 4"
| "code_value X_confirmation_denied = 5"

text \<open>An end: an exit code, an exception nobody catches, or waiting for an answer that does not come.\<close>

datatype cli_end = Exits exit_code | Crashes py_exc | Client_crash client_error | Hangs

record cli_out =
  co_out :: "string list"
  co_err :: "string list"
  co_end :: cli_end

definition says :: "string list \<Rightarrow> cli_out" where
  "says ls = \<lparr>co_out = ls, co_err = [], co_end = Exits X_ok\<rparr>"

definition complains :: "string list \<Rightarrow> exit_code \<Rightarrow> cli_out" where
  "complains ls c = \<lparr>co_out = [], co_err = ls, co_end = Exits c\<rparr>"

definition crashes :: "py_exc \<Rightarrow> cli_out" where
  "crashes e = \<lparr>co_out = [], co_err = [], co_end = Crashes e\<rparr>"

text \<open>Lines printed one after the other, each computed when its turn comes.\<close>

fun print_lines :: "string res list \<Rightarrow> cli_out" where
  "print_lines [] = says []"
| "print_lines (Inl e # ls) = crashes e"
| "print_lines (Inr l # ls) = (let o' = print_lines ls in o'\<lparr>co_out := l # co_out o'\<rparr>)"

definition say_res :: "string res \<Rightarrow> cli_out" where
  "say_res r = print_lines [r]"

text \<open>\<open>_run\<close>: the errors of the client that it turns into an exit code.\<close>

definition unavailable_text :: "string \<Rightarrow> string" where
  "unavailable_text socket = ''Daemon not running (socket: '' @ socket @ '').'' @ [chr_nl] @
     ''Start it with: systemctl --user start hyprland-agent''"

definition client_failed :: "string \<Rightarrow> client_error \<Rightarrow> cli_out" where
  "client_failed socket e = (case e of
      Daemon_unavailable \<Rightarrow> complains [unavailable_text socket] X_daemon_unavailable
    | Rpc_error c m \<Rightarrow> complains [''Error: ['' @ c @ ''] '' @ m] X_error
    | _ \<Rightarrow> \<lparr>co_out = [], co_err = [], co_end = Client_crash e\<rparr>)"

text \<open>
  \<open>confirm_or_exit\<close>: the exit that ends the command, if any; \<open>answer\<close> is the answer at the
  terminal, which is not asked for when standard input is not one.
\<close>

definition confirm_or_exit :: "bool \<Rightarrow> bool \<Rightarrow> bool \<Rightarrow> cli_out option" where
  "confirm_or_exit yes tty answer =
     (if yes then None else if \<not> tty then None
      else if answer then None else Some (complains [] X_confirmation_denied))"

section \<open>Values printed\<close>

definition ljust :: "nat \<Rightarrow> string \<Rightarrow> string" where
  "ljust n s = s @ replicate (n - length s) CHR '' ''"

definition rjust :: "nat \<Rightarrow> string \<Rightarrow> string" where
  "rjust n s = replicate (n - length s) CHR '' '' @ s"

text \<open>The format \<open>{v:ns}\<close>, a slice \<open>v[:n]\<close>, an item \<open>v[key]\<close>, the method \<open>v.get\<close>, iteration.\<close>

fun fmt_s :: "nat \<Rightarrow> json \<Rightarrow> string res" where
  "fmt_s n (JStr s) = Inr (ljust n s)"
| "fmt_s n JNull = Inl (TypeError ''unsupported format string passed to NoneType.__format__'')"
| "fmt_s n (JList _) = Inl (TypeError ''unsupported format string passed to list.__format__'')"
| "fmt_s n (JObj _) = Inl (TypeError ''unsupported format string passed to dict.__format__'')"
| "fmt_s n _ = Inl (ValueError ''Unknown format code'')"

fun slice_json :: "nat \<Rightarrow> json \<Rightarrow> json res" where
  "slice_json n (JStr s) = Inr (JStr (take n s))"
| "slice_json n (JList vs) = Inr (JList (take n vs))"
| "slice_json n (JObj _) = Inl (KeyError ''slice'')"
| "slice_json n _ = Inl (TypeError ''object is not subscriptable'')"

fun item_json :: "json \<Rightarrow> string \<Rightarrow> json res" where
  "item_json (JObj d) k = dindex d k"
| "item_json (JStr _) k = Inl (TypeError ''string indices must be integers'')"
| "item_json (JList _) k = Inl (TypeError ''list indices must be integers or slices'')"
| "item_json _ k = Inl (TypeError ''object is not subscriptable'')"

fun get_json :: "json \<Rightarrow> string \<Rightarrow> json \<Rightarrow> json res" where
  "get_json (JObj d) k v = Inr (dget_or d k v)"
| "get_json _ k v = Inl (AttributeError ''get'')"

fun iter_json :: "json \<Rightarrow> json list res" where
  "iter_json (JList vs) = Inr vs"
| "iter_json (JStr s) = Inr (map (\<lambda>c. JStr [c]) s)"
| "iter_json (JObj d) = Inr (map (\<lambda>kv. JStr (fst kv)) d)"
| "iter_json _ = Inl (TypeError ''object is not iterable'')"

fun int_json :: "json \<Rightarrow> int res" where
  "int_json (JInt i) = Inr i"
| "int_json (JBool b) = Inr (if b then 1 else 0)"
| "int_json (JFloat _) = Inl (ValueError ''Unknown format code'')"
| "int_json _ = Inl (TypeError ''unsupported format string'')"

section \<open>Requests\<close>

text \<open>
  A connection as the commands use it: a request and its answer, none when it never comes; and
  the one to the model of the daemon, where the caller gets what the dispatch answered.
\<close>

type_synonym 'd api = "rpc_method \<Rightarrow> params \<Rightarrow> 'd \<Rightarrow> (client_error + params) option \<times> 'd"

definition daemon_api :: "rpc_env \<Rightarrow> string \<Rightarrow> daemon api" where
  "daemon_api E i m p D = (case dispatch E i m p D of
      (Inr f, D') \<Rightarrow> (given f, D') | (Inl e, D') \<Rightarrow> (None, D'))"

definition no_daemon :: "'d api" where
  "no_daemon m p d = (Some (Inl Daemon_unavailable), d)"

definition ask :: "'d api \<Rightarrow> string \<Rightarrow> rpc_method \<Rightarrow> params \<Rightarrow> (params \<Rightarrow> 'd \<Rightarrow> cli_out \<times> 'd) \<Rightarrow> 'd \<Rightarrow> cli_out \<times> 'd" where
  "ask rq socket m p cont d = (case rq m p d of
      (None, d') \<Rightarrow> (\<lparr>co_out = [], co_err = [], co_end = Hangs\<rparr>, d')
    | (Some (Inl e), d') \<Rightarrow> (client_failed socket e, d')
    | (Some (Inr r), d') \<Rightarrow> cont r d')"

record fmt =
  fm_dumps :: "bool \<Rightarrow> json \<Rightarrow> string"
  fm_other :: "json \<Rightarrow> string"
  fm_fixed :: "nat \<Rightarrow> json \<Rightarrow> string res"

definition show_str :: "fmt \<Rightarrow> json \<Rightarrow> string" where
  "show_str F v = py_str (fm_other F) v"

section \<open>run, plan, stop, status\<close>

definition cmd_start :: "rpc_method \<Rightarrow> fmt \<Rightarrow> 'd api \<Rightarrow> string \<Rightarrow> string \<Rightarrow> string option \<Rightarrow> bool \<Rightarrow> 'd \<Rightarrow> cli_out \<times> 'd" where
  "cmd_start m F rq socket task brain json_out =
     ask rq socket m
       [(''task'', JStr task), (''brain'', JStr (case brain of None \<Rightarrow> ''auto'' | Some [] \<Rightarrow> ''auto'' | Some b \<Rightarrow> b))]
       (\<lambda>r d. (says [if json_out then fm_dumps F False (JObj r)
                     else show_str F (dget_or r ''run_id'' (JStr []))], d))"

definition cmd_run :: "fmt \<Rightarrow> 'd api \<Rightarrow> string \<Rightarrow> string \<Rightarrow> string option \<Rightarrow> bool \<Rightarrow> 'd \<Rightarrow> cli_out \<times> 'd" where
  "cmd_run = cmd_start M_run_task"

definition cmd_plan :: "fmt \<Rightarrow> 'd api \<Rightarrow> string \<Rightarrow> string \<Rightarrow> string option \<Rightarrow> bool \<Rightarrow> 'd \<Rightarrow> cli_out \<times> 'd" where
  "cmd_plan = cmd_start M_plan_task"

text \<open>
  \<open>stop\<close>: the flag is armed first (\<open>arm_flag\<close> is its effect), then the daemon is told; only its
  absence is caught here.
\<close>

definition cmd_stop :: "'d api \<Rightarrow> ('d \<Rightarrow> 'd) \<Rightarrow> bool \<Rightarrow> bool \<Rightarrow> bool \<Rightarrow> 'd \<Rightarrow> cli_out \<times> 'd" where
  "cmd_stop rq arm_flag yes tty answer d = (case confirm_or_exit yes tty answer of
      Some o' \<Rightarrow> (o', d)
    | None \<Rightarrow>
        (let line = ''Kill switch armed '' @ u_dash @ '' running agent will stop at next iteration.'';
             (r, d') = rq M_arm_killswitch [] (arm_flag d)
         in case r of
              None \<Rightarrow> (\<lparr>co_out = [line], co_err = [], co_end = Hangs\<rparr>, d')
            | Some (Inr _) \<Rightarrow> (says [line], d')
            | Some (Inl Daemon_unavailable) \<Rightarrow> (says [line], d')
            | Some (Inl e) \<Rightarrow> (\<lparr>co_out = [line], co_err = [], co_end = Client_crash e\<rparr>, d')))"

definition status_lines :: "fmt \<Rightarrow> params \<Rightarrow> string res list" where
  "status_lines F r =
     [Inr (''Version   : '' @ show_str F (dget_or r ''version'' (JStr ''?''))),
      rbind (fm_fixed F 0 (dget_or r ''uptime_s'' (JInt 0))) (\<lambda>t. Inr (''Uptime    : '' @ t @ ''s'')),
      rbind (iter_json (dget_or r ''active_runs'' (JList []))) (\<lambda>vs.
        Inr (''Active    : '' @ nat_str (length vs) @ '' run(s)'')),
      Inr (''Rules     : '' @ show_str F (dget_or r ''rules_count'' (JInt 0)))]"

definition cmd_status :: "fmt \<Rightarrow> 'd api \<Rightarrow> string \<Rightarrow> bool \<Rightarrow> 'd \<Rightarrow> cli_out \<times> 'd" where
  "cmd_status F rq socket json_out =
     ask rq socket M_daemon_status [] (\<lambda>r d.
       (if json_out then says [fm_dumps F False (JObj r)] else print_lines (status_lines F r), d))"

section \<open>runs\<close>

definition run_line :: "fmt \<Rightarrow> json \<Rightarrow> string res" where
  "run_line F r =
     rbind (item_json r ''status'') (\<lambda>st.
     rbind (get_json r ''kind'' (JStr ''run'')) (\<lambda>kind.
     rbind (rbind (item_json r ''task'') (slice_json 50)) (\<lambda>task.
     rbind (item_json r ''brain'') (\<lambda>brain.
     rbind (rbind (item_json r ''run_id'') (slice_json 8)) (\<lambda>rid.
     rbind (fmt_s 4 kind) (\<lambda>k.
     rbind (fmt_s 10 st) (\<lambda>s.
     rbind (fmt_s 8 brain) (\<lambda>b.
     Inr (show_str F rid @ ''  ['' @ k @ '']  ['' @ s @ '']  '' @ b @ ''  '' @ show_str F task)))))))))"

text \<open>\<open>if status: runs = [r for r in runs if r.get("status") == status]\<close>.\<close>

definition with_run_status :: "string option \<Rightarrow> json \<Rightarrow> json res" where
  "with_run_status status v = (case status of
      None \<Rightarrow> Inr v
    | Some [] \<Rightarrow> Inr v
    | Some st \<Rightarrow> rbind (iter_json v) (\<lambda>rs.
        rbind (rmap (\<lambda>r. rbind (get_json r ''status'' JNull) (\<lambda>s. Inr (if s = JStr st then [r] else []))) rs)
          (\<lambda>kept. Inr (JList (concat kept)))))"

definition cmd_runs_list :: "fmt \<Rightarrow> 'd api \<Rightarrow> string \<Rightarrow> int \<Rightarrow> string option \<Rightarrow> bool \<Rightarrow> 'd \<Rightarrow> cli_out \<times> 'd" where
  "cmd_runs_list F rq socket n status json_out =
     ask rq socket M_list_runs [(''limit'', JInt n)] (\<lambda>r d.
       (case with_run_status status (dget_or r ''runs'' (JList [])) of
          Inl e \<Rightarrow> crashes e
        | Inr runs \<Rightarrow>
            if \<not> truthy runs then says [''No runs found.'']
            else if json_out then says [fm_dumps F True runs]
            else (case iter_json runs of Inl e \<Rightarrow> crashes e | Inr rs \<Rightarrow> print_lines (map (run_line F) rs)), d))"

definition cmd_runs_show :: "fmt \<Rightarrow> 'd api \<Rightarrow> string \<Rightarrow> string \<Rightarrow> bool \<Rightarrow> bool \<Rightarrow> 'd \<Rightarrow> cli_out \<times> 'd" where
  "cmd_runs_show F rq socket rid reflection memory =
     ask rq socket M_get_run
       [(''run_id'', JStr rid), (''include_reflection'', JBool reflection), (''include_memory'', JBool memory)]
       (\<lambda>r d. (says [fm_dumps F True (dget_or r ''run'' (JObj r))], d))"

definition cmd_runs_cancel :: "fmt \<Rightarrow> 'd api \<Rightarrow> string \<Rightarrow> string \<Rightarrow> bool \<Rightarrow> bool \<Rightarrow> bool \<Rightarrow> bool \<Rightarrow> 'd \<Rightarrow> cli_out \<times> 'd" where
  "cmd_runs_cancel F rq socket rid yes tty answer json_out d = (case confirm_or_exit yes tty answer of
      Some o' \<Rightarrow> (o', d)
    | None \<Rightarrow> ask rq socket M_cancel_run [(''run_id'', JStr rid)] (\<lambda>r d.
        (let okv = dget_or r ''ok'' (JBool False)
         in if json_out then says [fm_dumps F False (JObj [(''ok'', okv), (''run_id'', JStr rid)])]
            else if truthy okv then says [''Cancelled '' @ take 8 rid]
            else complains [''Run '' @ take 8 rid @ '' not found or already finished.''] X_error, d)) d)"

definition cmd_runs_rerun :: "fmt \<Rightarrow> 'd api \<Rightarrow> 'd api \<Rightarrow> string \<Rightarrow> string \<Rightarrow> string option \<Rightarrow> bool \<Rightarrow> 'd \<Rightarrow> cli_out \<times> 'd" where
  "cmd_runs_rerun F rq rq2 socket rid brain json_out =
     ask rq socket M_get_run [(''run_id'', JStr rid)] (\<lambda>r d.
       case (let run = dget_or r ''run'' (JObj []) in
             rbind (get_json run ''task'' JNull) (\<lambda>task.
             if \<not> truthy task then Inr None
             else rbind (case brain of Some (c # b) \<Rightarrow> Inr (JStr (c # b)) | _ \<Rightarrow> get_json run ''brain'' (JStr ''auto''))
                    (\<lambda>chosen. Inr (Some [(''task'', task), (''brain'', chosen)])))) of
         Inl e \<Rightarrow> (crashes e, d)
       | Inr None \<Rightarrow> (complains [''Run '' @ take 8 rid @ '' not found.''] X_error, d)
       | Inr (Some p) \<Rightarrow>
           ask rq2 socket M_run_task p (\<lambda>r2 d2.
             (says [if json_out then fm_dumps F False (JObj r2)
                    else show_str F (dget_or r2 ''run_id'' (JStr []))], d2)) d)"

text \<open>What \<open>tail\<close> prints of the events the connection yields, until its stream ends.\<close>

fun tail_events :: "fmt \<Rightarrow> string \<Rightarrow> params list \<Rightarrow> cli_out" where
  "tail_events F rid [] = says []"
| "tail_events F rid (p # ps) = (case dget_or p ''run_id'' (JStr []) of
      JStr i \<Rightarrow>
        if \<not> startswith i (take 8 rid) then tail_events F rid ps
        else
          (let line = ''  ['' @ show_str F (dget_or p ''kind'' (JStr ''event'')) @ ''] '' @
                 show_str F (dget_or p ''message'' (dget_or p ''status'' (JStr [])));
               rest = (if dget p ''kind'' = Some (JStr ''run_finished'') then says [] else tail_events F rid ps)
           in rest\<lparr>co_out := line # co_out rest\<rparr>)
    | _ \<Rightarrow> crashes (AttributeError ''startswith''))"

definition cmd_runs_tail :: "fmt \<Rightarrow> string \<Rightarrow> (topic \<times> params) list \<Rightarrow> cli_out" where
  "cmd_runs_tail F rid evs =
     (let o' = tail_events F rid (map snd evs)
      in o'\<lparr>co_out := (''Tailing run '' @ take 8 rid @ '' (Ctrl+C to stop)...'') # co_out o'\<rparr>)"

definition feedback_args :: "bool \<Rightarrow> bool \<Rightarrow> string option \<Rightarrow> string option" where
  "feedback_args up down comment =
     (if \<not> up \<and> \<not> down \<and> (comment = None \<or> comment = Some []) then None
      else Some (if up then ''thumbs_up'' else if down then ''thumbs_down'' else ''comment''))"

definition cmd_runs_feedback ::
  "fmt \<Rightarrow> 'd api \<Rightarrow> string \<Rightarrow> string \<Rightarrow> bool \<Rightarrow> bool \<Rightarrow> string option \<Rightarrow> bool \<Rightarrow> 'd \<Rightarrow> cli_out \<times> 'd" where
  "cmd_runs_feedback F rq socket rid up down comment json_out d = (case feedback_args up down comment of
      None \<Rightarrow> (complains [''Specify --up, --down, or --comment.''] X_misuse, d)
    | Some kind \<Rightarrow> ask rq socket M_record_feedback
        [(''run_id'', JStr rid), (''kind'', JStr kind),
         (''comment'', case comment of None \<Rightarrow> JNull | Some c \<Rightarrow> JStr c)]
        (\<lambda>r d. (says [if json_out then fm_dumps F False (JObj r)
             else ''outcome='' @ show_str F (dget_or r ''outcome'' (JStr ''?'')) @ ''  feedback_id='' @
                  show_str F (dget_or r ''feedback_id'' (JStr ''?''))], d)) d)"

definition outcome_line :: "fmt \<Rightarrow> json \<Rightarrow> string \<times> json \<Rightarrow> string res" where
  "outcome_line F count_all kv = (case kv of (oc, n) \<Rightarrow>
     rbind (int_json n) (\<lambda>c.
     rbind (if truthy count_all then rbind (int_json count_all) (\<lambda>t. Inr (c * 100 div t)) else Inr 0) (\<lambda>pct.
     Inr (''  '' @ ljust 10 oc @ '': '' @ rjust 4 (int_str c) @ ''  ('' @ int_str pct @ ''%)''))))"

definition failure_line :: "fmt \<Rightarrow> json \<Rightarrow> string res" where
  "failure_line F f =
     rbind (rbind (item_json f ''count'') int_json) (\<lambda>c.
     rbind (rbind (item_json f ''task'') (slice_json 60)) (\<lambda>t.
     Inr (''  ['' @ rjust 3 (int_str c) @ ''x] '' @ show_str F t)))"

definition analytics_lines :: "fmt \<Rightarrow> int \<Rightarrow> params \<Rightarrow> string res list" where
  "analytics_lines F days r =
     (let count_all = dget_or r ''total_runs'' (JInt 0);
          outcomes = dget_or r ''outcomes'' (JObj []);
          failures = dget_or r ''top_failure_tasks'' (JList [])
      in [Inr (''Last '' @ int_str days @ '' day(s) '' @ u_dash @ '' '' @ show_str F count_all @ '' run(s) tracked'')] @
         (if truthy outcomes
          then Inr (chr_nl # ''Outcome distribution:'') #
               (case outcomes of JObj kvs \<Rightarrow> map (outcome_line F count_all) kvs
                | _ \<Rightarrow> [Inl (AttributeError ''items'')])
          else []) @
         (if truthy failures
          then Inr (chr_nl # ''Top failing tasks:'') #
               (case rbind (slice_json 5 failures) iter_json of
                  Inl e \<Rightarrow> [Inl e] | Inr fs \<Rightarrow> map (failure_line F) fs)
          else []))"

definition cmd_runs_analytics :: "fmt \<Rightarrow> 'd api \<Rightarrow> string \<Rightarrow> int \<Rightarrow> bool \<Rightarrow> 'd \<Rightarrow> cli_out \<times> 'd" where
  "cmd_runs_analytics F rq socket days json_out =
     ask rq socket M_runs_analytics [(''days'', JInt days)] (\<lambda>r d.
       (if json_out then says [fm_dumps F True (JObj r)] else print_lines (analytics_lines F days r), d))"

section \<open>learning, memory, hypr, config\<close>

definition opt_json :: "string option \<Rightarrow> json" where
  "opt_json v = (case v of None \<Rightarrow> JNull | Some s \<Rightarrow> JStr s)"

definition cmd_learning_list :: "fmt \<Rightarrow> 'd api \<Rightarrow> string \<Rightarrow> string \<Rightarrow> string option \<Rightarrow> bool \<Rightarrow> 'd \<Rightarrow> cli_out \<times> 'd" where
  "cmd_learning_list F rq socket kind status json_out =
     ask rq socket M_learning_list [(''kind'', JStr kind), (''status'', opt_json status)] (\<lambda>r d.
       (let items = dget_or r ''items'' (JList []) in
        if \<not> truthy items then says [''No '' @ kind @ '' proposals found.'']
        else if json_out then says [fm_dumps F True items]
        else (case iter_json items of Inl e \<Rightarrow> crashes e | Inr vs \<Rightarrow> says (map (fm_dumps F False) vs)), d))"

definition cmd_learning_show :: "fmt \<Rightarrow> 'd api \<Rightarrow> string \<Rightarrow> string \<Rightarrow> string \<Rightarrow> 'd \<Rightarrow> cli_out \<times> 'd" where
  "cmd_learning_show F rq socket kind pid =
     ask rq socket M_learning_explain [(''kind'', JStr kind), (''id'', JStr pid)]
       (\<lambda>r d. (says [fm_dumps F True (JObj r)], d))"

definition cmd_learning_approve ::
  "fmt \<Rightarrow> 'd api \<Rightarrow> string \<Rightarrow> string \<Rightarrow> string \<Rightarrow> bool \<Rightarrow> bool \<Rightarrow> bool \<Rightarrow> bool \<Rightarrow> 'd \<Rightarrow> cli_out \<times> 'd" where
  "cmd_learning_approve F rq socket kind pid yes tty answer json_out d = (case confirm_or_exit yes tty answer of
      Some o' \<Rightarrow> (o', d)
    | None \<Rightarrow> ask rq socket M_learning_approve [(''kind'', JStr kind), (''id'', JStr pid)] (\<lambda>r d.
        (says [if json_out then fm_dumps F False (JObj r)
               else ''Approved '' @ show_str F (dget_or r ''kind'' JNull) @ '' '' @ show_str F (dget_or r ''id'' JNull) @
                    '' '' @ u_arrow @ '' '' @ show_str F (dget_or r ''status'' JNull)], d)) d)"

definition cmd_learning_reject ::
  "fmt \<Rightarrow> 'd api \<Rightarrow> string \<Rightarrow> string \<Rightarrow> string \<Rightarrow> string option \<Rightarrow> bool \<Rightarrow> bool \<Rightarrow> bool \<Rightarrow> 'd \<Rightarrow> cli_out \<times> 'd" where
  "cmd_learning_reject F rq socket kind pid reason yes tty answer d = (case confirm_or_exit yes tty answer of
      Some o' \<Rightarrow> (o', d)
    | None \<Rightarrow> ask rq socket M_learning_reject
        [(''kind'', JStr kind), (''id'', JStr pid), (''reason'', opt_json reason)] (\<lambda>r d.
        (says [''Rejected '' @ show_str F (dget_or r ''kind'' JNull) @ '' '' @ show_str F (dget_or r ''id'' JNull)], d)) d)"

definition episode_line :: "fmt \<Rightarrow> json \<Rightarrow> string res" where
  "episode_line F ep =
     rbind (get_json ep ''score'' (JInt 0)) (\<lambda>score.
     rbind (rbind (get_json ep ''id'' (JStr ''?'')) (slice_json 8)) (\<lambda>i.
     rbind (rbind (get_json ep ''task'' (JStr ''?'')) (slice_json 60)) (\<lambda>task.
     rbind (get_json ep ''status'' (JStr ''?'')) (\<lambda>status.
     rbind (fmt_s 10 status) (\<lambda>s.
     rbind (fm_fixed F 3 score) (\<lambda>x.
     Inr (show_str F i @ ''  ['' @ s @ '']  score='' @ x @ ''  '' @ show_str F task)))))))"

definition cmd_memory_search :: "fmt \<Rightarrow> 'd api \<Rightarrow> string \<Rightarrow> string \<Rightarrow> int \<Rightarrow> bool \<Rightarrow> 'd \<Rightarrow> cli_out \<times> 'd" where
  "cmd_memory_search F rq socket query k json_out =
     ask rq socket M_memory_search [(''query'', JStr query), (''top_k'', JInt k)] (\<lambda>r d.
       (let episodes = dget_or r ''episodes'' (JList []) in
        if \<not> truthy episodes then says [''No matching episodes found.'']
        else if json_out then says [fm_dumps F True episodes]
        else (case iter_json episodes of
                Inl e \<Rightarrow> crashes e | Inr eps \<Rightarrow> print_lines (map (episode_line F) eps)), d))"

definition cmd_memory_show :: "fmt \<Rightarrow> 'd api \<Rightarrow> string \<Rightarrow> string \<Rightarrow> 'd \<Rightarrow> cli_out \<times> 'd" where
  "cmd_memory_show F rq socket i =
     ask rq socket M_memory_get [(''episode_id'', JStr i)] (\<lambda>r d.
       (let ep = dget_or r ''episode'' JNull in
        if \<not> truthy ep then complains [''Episode '' @ i @ '' not found.''] X_error
        else says [fm_dumps F True ep], d))"

definition window_line :: "fmt \<Rightarrow> json \<Rightarrow> string res" where
  "window_line F w =
     rbind (item_json w ''address'') (\<lambda>a.
     rbind (rbind (get_json w ''class'' (JStr ''?'')) (get_json w ''app_class'')) (\<lambda>c.
     rbind (fmt_s 20 c) (\<lambda>cs.
     rbind (item_json w ''title'') (\<lambda>t.
     Inr (show_str F a @ ''  ['' @ cs @ '']  '' @ show_str F t)))))"

definition cmd_windows :: "fmt \<Rightarrow> 'd api \<Rightarrow> string \<Rightarrow> bool \<Rightarrow> 'd \<Rightarrow> cli_out \<times> 'd" where
  "cmd_windows F rq socket json_out =
     ask rq socket M_list_windows [] (\<lambda>r d.
       (let ws = dget_or r ''windows'' (JList []) in
        if json_out then says [fm_dumps F True ws]
        else (case iter_json ws of Inl e \<Rightarrow> crashes e | Inr vs \<Rightarrow> print_lines (map (window_line F) vs)), d))"

text \<open>The lines of \<open>events\<close>: a kind that does not begin with the filter is skipped.\<close>

fun event_lines :: "fmt \<Rightarrow> string option \<Rightarrow> params list \<Rightarrow> string res list" where
  "event_lines F flt [] = []"
| "event_lines F flt (p # ps) =
     (let kind = dget_or p ''kind'' (dget_or p ''event'' (JStr ''?''));
          line = rbind (fmt_s 20 kind) (\<lambda>k. Inr (k @ '' '' @ show_str F (dget_or p ''data'' (JStr []))))
      in case flt of
           Some (c # f) \<Rightarrow>
             (case kind of
                JStr k \<Rightarrow> if startswith k (c # f) then line # event_lines F flt ps else event_lines F flt ps
              | _ \<Rightarrow> [Inl (AttributeError ''startswith'')])
         | _ \<Rightarrow> line # event_lines F flt ps)"

definition cmd_events :: "fmt \<Rightarrow> string option \<Rightarrow> (topic \<times> params) list \<Rightarrow> cli_out" where
  "cmd_events F flt evs =
     print_lines (Inr ''Listening for Hyprland events (Ctrl+C to stop)...'' # event_lines F flt (map snd evs))"

definition cmd_screenshot :: "fmt \<Rightarrow> 'd api \<Rightarrow> string \<Rightarrow> string \<Rightarrow> 'd \<Rightarrow> cli_out \<times> 'd" where
  "cmd_screenshot F rq socket output =
     ask rq socket M_screenshot [(''path'', JStr output)] (\<lambda>r d.
       (says [''Saved to '' @ show_str F (dget_or r ''path'' (JStr output))], d))"

definition cmd_reload_rules :: "fmt \<Rightarrow> 'd api \<Rightarrow> string \<Rightarrow> 'd \<Rightarrow> cli_out \<times> 'd" where
  "cmd_reload_rules F rq socket =
     ask rq socket M_reload_rules [] (\<lambda>r d.
       (says [''Reloaded '' @ show_str F (dget_or r ''rules_count'' (JInt 0)) @ '' rule(s).''], d))"

section \<open>Lemmas\<close>

lemma print_lines_ok [simp]: "print_lines (map Inr ls) = says ls"
  by (induction ls) (simp_all add: says_def)

lemma given_answers [simp]:
  "given (make_ok_response i r) = Some (Inr r)"
  "given (make_error_response i m c) = Some (Inl (Rpc_error c m))"
  by (simp_all add: given_def make_ok_response_def make_error_response_def answer_of_def dict_get_or_def)

lemma ask_result:
  "dispatch E i m p D = (Inr (make_ok_response i r), D') \<Longrightarrow>
   ask (daemon_api E i) socket m p cont D = cont r D'"
  by (simp add: ask_def daemon_api_def)

lemma ask_error:
  "dispatch E i m p D = (Inr (make_error_response i msg c), D') \<Longrightarrow>
   ask (daemon_api E i) socket m p cont D = (complains [''Error: ['' @ c @ ''] '' @ msg] X_error, D')"
  by (simp add: ask_def daemon_api_def client_failed_def)

text \<open>Asking for a run: what the database holds, and no change but in the cache.\<close>

lemma dispatch_get_run:
  assumes "coherent (dm_store D)" and "dget_or p ''run_id'' (JStr []) = JStr rid"
  shows "read_run (st_db (dm_store D)) rid = Inr (Some x) \<Longrightarrow> \<exists>s. st_db s = st_db (dm_store D) \<and>
      dispatch E i M_get_run p D = (Inr (make_ok_response i [(''run'', JObj (record_dump x))]), set_store s D)"
    and "read_run (st_db (dm_store D)) rid = Inr None \<Longrightarrow> \<exists>s. st_db s = st_db (dm_store D) \<and>
      dispatch E i M_get_run p D = (Inr (make_error_response i
        (repr_str (''run '' @ repr_str rid @ '' not found'')) ''not_found''), set_store s D)"
proof -
  obtain r s where g: "get_run rid (dm_store D) = (r, s)" by fastforce
  then have rs: "r = read_run (st_db (dm_store D)) rid" "st_db s = st_db (dm_store D)"
    using get_run_coherent[OF assms(1), of rid] by auto
  have m: "map_of dispatch_table M_get_run = Some h_get_run" by (simp add: dispatch_table_def)
  { assume "read_run (st_db (dm_store D)) rid = Inr (Some x)"
    then have "h_get_run E p D = (Inr [(''run'', JObj (record_dump x))], set_store s D)"
      using g rs(1) by (simp add: h_get_run_def assms(2))
    from dispatch_ok[OF m this] rs(2) show "\<exists>s. st_db s = st_db (dm_store D) \<and>
      dispatch E i M_get_run p D = (Inr (make_ok_response i [(''run'', JObj (record_dump x))]), set_store s D)"
      by blast }
  { assume "read_run (st_db (dm_store D)) rid = Inr None"
    then have "h_get_run E p D = (Inl (KeyError (''run '' @ repr_str rid @ '' not found'')), set_store s D)"
      using g rs(1) by (simp add: h_get_run_def assms(2))
    from dispatch_error[OF m this] rs(2) show "\<exists>s. st_db s = st_db (dm_store D) \<and>
      dispatch E i M_get_run p D = (Inr (make_error_response i
        (repr_str (''run '' @ repr_str rid @ '' not found'')) ''not_found''), set_store s D)"
      by (auto simp: error_code_def) }
qed

lemma record_fields [simp]:
  "dget_or (record_dump x) ''task'' v = JStr (rn_task x)"
  "dget_or (record_dump x) ''brain'' v = JStr (rn_brain x)"
  by (simp_all add: record_dump_def summary_dump_def dget_or_def)

lemma row_status_set_store [simp]:
  "st_db s = st_db (dm_store D) \<Longrightarrow> row_status ((dm_exec D)\<lparr>ex_store := s\<rparr>) i = row_status (dm_exec D) i"
  by (simp add: row_status_def dm_store_def)

text \<open>The events of one run, up to its end, and their lines.\<close>

definition of_run :: "string \<Rightarrow> params \<Rightarrow> bool" where
  "of_run rid p \<longleftrightarrow> (\<exists>i. dget_or p ''run_id'' (JStr []) = JStr i \<and> startswith i (take 8 rid))"

definition finishes :: "params \<Rightarrow> bool" where
  "finishes p \<longleftrightarrow> dget p ''kind'' = Some (JStr ''run_finished'')"

definition tail_line :: "fmt \<Rightarrow> params \<Rightarrow> string" where
  "tail_line F p = ''  ['' @ show_str F (dget_or p ''kind'' (JStr ''event'')) @ ''] '' @
     show_str F (dget_or p ''message'' (dget_or p ''status'' (JStr [])))"

definition until_finished :: "params list \<Rightarrow> params list" where
  "until_finished ps = takeWhile (\<lambda>p. \<not> finishes p) ps @ take 1 (dropWhile (\<lambda>p. \<not> finishes p) ps)"

lemma tail_events_lines:
  "list_all (\<lambda>p. \<exists>i. dget_or p ''run_id'' (JStr []) = JStr i) ps \<Longrightarrow>
   tail_events F rid ps = says (map (tail_line F) (until_finished (filter (of_run rid) ps)))"
  by (induction ps)
    (auto simp: says_def until_finished_def of_run_def finishes_def tail_line_def Let_def)

definition plain_fmt :: fmt where
  "plain_fmt = \<lparr>fm_dumps = (\<lambda>indent v. ''json''), fm_other = (\<lambda>v. ''value''), fm_fixed = (\<lambda>n v. Inr ''0.0'')\<rparr>"

lemma question_mark: "ljust 10 ''?'' = ''?         ''"
  by (simp add: ljust_def numeral_eq_Suc)

text \<open>An episode as the daemon sends it, and its line.\<close>

definition ep_json :: "episode \<Rightarrow> json" where
  "ep_json e = JObj [(''id'', JStr (epi_run e)), (''task'', JStr (epi_task e)), (''outcome'', JStr (epi_outcome e)),
     (''summary'', JStr (epi_summary e)), (''context_class'', opt_str (epi_context e)),
     (''score'', JFloat (1 - (case epi_distance e of None \<Rightarrow> 0 | Some d \<Rightarrow> d)))]"

definition search_line :: "(real \<Rightarrow> string) \<Rightarrow> episode \<Rightarrow> string" where
  "search_line fx e = take 8 (epi_run e) @ ''  [?         ]  score='' @
     fx (1 - (case epi_distance e of None \<Rightarrow> 0 | Some d \<Rightarrow> d)) @ ''  '' @ take 60 (epi_task e)"

lemma episode_line_daemon:
  "fm_fixed F 3 (JFloat (1 - (case epi_distance e of None \<Rightarrow> 0 | Some d \<Rightarrow> d))) =
     Inr (fx (1 - (case epi_distance e of None \<Rightarrow> 0 | Some d \<Rightarrow> d))) \<Longrightarrow>
   episode_line F (ep_json e) = Inr (search_line fx e)"
  by (simp add: episode_line_def ep_json_def search_line_def dget_or_def question_mark show_str_def)

lemma episode_lines:
  "(\<And>x. fm_fixed F 3 (JFloat x) = Inr (fx x)) \<Longrightarrow>
   map (episode_line F) (map ep_json eps) = map Inr (map (search_line fx) eps)"
  by (simp add: episode_line_daemon)

section \<open>Properties\<close>

text \<open>
  Rerunning starts a run of the stored task, whatever the stored run was: the command looks
  the run up, submits its task with its brain (or the one given) and prints the id of the new
  run; a plan, too, is executed when it is rerun.
\<close>

theorem rerun_starts_the_stored_task:
  assumes "coherent (dm_store D)" and "read_run (st_db (dm_store D)) rid = Inr (Some x)" and "rn_task x \<noteq> []"
    and "row_status (dm_exec D) (re_id E2) = None"
    and "b = (case brain of Some (c # cs) \<Rightarrow> c # cs | _ \<Rightarrow> rn_brain x)" and "re_brain E2 b = Inr br"
  shows "\<exists>s. st_db s = st_db (dm_store D) \<and>
     cmd_runs_rerun F (daemon_api E1 i) (daemon_api E2 j) socket rid brain False D =
       (says [re_id E2], started E2 RK_run (rn_task x) b (set_store s D))"
proof -
  let ?p = "[(''run_id'', JStr rid)]"
  have "dget_or ?p ''run_id'' (JStr []) = JStr rid" by (simp add: dget_or_def)
  from dispatch_get_run(1)[OF assms(1) this assms(2), of E1 i] obtain s where
    s: "st_db s = st_db (dm_store D)" and
    d: "dispatch E1 i M_get_run ?p D = (Inr (make_ok_response i [(''run'', JObj (record_dump x))]), set_store s D)"
    by blast
  have fresh: "row_status (dm_exec (set_store s D)) (re_id E2) = None" using s assms(4) by simp
  note r = dispatch_start[OF fresh assms(6,3), of M_run_task RK_run j]
  have chosen: "(case brain of Some (c # cs) \<Rightarrow> Inr (JStr (c # cs)) | _ \<Rightarrow> get_json (JObj (record_dump x)) ''brain'' (JStr ''auto'')) =
      (Inr (JStr b) :: json res)"
    using assms(5) by (auto split: option.split list.split)
  have run: "dget_or [(''run'', JObj (record_dump x))] ''run'' (JObj []) = JObj (record_dump x)"
    and new: "dget_or [(''run_id'', JStr (re_id E2))] ''run_id'' (JStr []) = JStr (re_id E2)"
    by (simp_all add: dget_or_def)
  have "cmd_runs_rerun F (daemon_api E1 i) (daemon_api E2 j) socket rid brain False D =
      ask (daemon_api E2 j) socket M_run_task [(''task'', JStr (rn_task x)), (''brain'', JStr b)]
        (\<lambda>r2 d2. (says [show_str F (dget_or r2 ''run_id'' (JStr []))], d2)) (set_store s D)"
    using assms(3) by (simp add: cmd_runs_rerun_def ask_result[OF d] run chosen)
  also have "\<dots> = (says [re_id E2], started E2 RK_run (rn_task x) b (set_store s D))"
    using r by (simp add: ask_result new show_str_def)
  finally show ?thesis using s by blast
qed

text \<open>
  Showing a run needs its whole id: when the database has no run with exactly the id given,
  the command fails with exit code 1 and the daemon's not-found error, also when the argument is
  the beginning of the id of a stored run.
\<close>

theorem show_needs_the_whole_id:
  assumes "coherent (dm_store D)" and "read_run (st_db (dm_store D)) rid = Inr None"
  shows "fst (cmd_runs_show F (daemon_api E i) socket rid reflection memory D) =
     complains [''Error: [not_found] '' @ repr_str (''run '' @ repr_str rid @ '' not found'')] X_error"
proof -
  let ?p = "[(''run_id'', JStr rid), (''include_reflection'', JBool reflection), (''include_memory'', JBool memory)]"
  have "dget_or ?p ''run_id'' (JStr []) = JStr rid" by (simp add: dget_or_def)
  from dispatch_get_run(2)[OF assms(1) this assms(2), of E i] show ?thesis
    by (auto simp: cmd_runs_show_def ask_error)
qed

text \<open>
  Following a run prints exactly its own events, in order, and stops at its end: of any stream
  of run events, one line for each event whose id begins like the argument, up to and including
  the first that says run_finished; what other runs do does not show.
\<close>

theorem tail_follows_one_run:
  assumes "list_all (\<lambda>e. \<exists>i. dget_or (snd e) ''run_id'' (JStr []) = JStr i) evs"
  shows "cmd_runs_tail F rid evs =
     says ((''Tailing run '' @ take 8 rid @ '' (Ctrl+C to stop)...'') #
       map (tail_line F) (until_finished (filter (of_run rid) (map snd evs))))"
  using assms by (simp add: cmd_runs_tail_def tail_events_lines list.pred_map comp_def says_def)

text \<open>
  A memory search shows the outcome of no episode: for whatever the recall finds, the column
  of the command's table that names a status holds a question mark, since the daemon sends the
  outcome under another name.
\<close>

theorem search_hides_outcomes:
  assumes "query \<noteq> []" and "\<And>x. fm_fixed F 3 (JFloat x) = Inr (fx x)"
    and "recall (\<lambda>_. re_embed E query) (re_dist E) (re_now E) [] k False (dm_store D) = (eps, s)"
  shows "fst (cmd_memory_search F (daemon_api E i) socket query k False D) =
     says (if eps = [] then [''No matching episodes found.''] else map (search_line fx) eps)"
proof -
  let ?p = "[(''query'', JStr query), (''top_k'', JInt k)]"
  have m: "map_of dispatch_table M_memory_search = Some h_memory_search" by (simp add: dispatch_table_def)
  have p: "dget_or ?p ''query'' (JStr []) = JStr query" "dget_or ?p ''top_k'' (JInt 5) = JInt k"
    by (simp_all add: dget_or_def)
  have "h_memory_search E ?p D = (Inr [(''episodes'', JList (map ep_json eps))], set_store s D)"
    using assms(1,3) by (simp add: h_memory_search_def p ep_json_def)
  note d = dispatch_ok[OF m this, of i]
  have "dget_or [(''episodes'', JList (map ep_json eps))] ''episodes'' (JList []) = JList (map ep_json eps)"
    by (simp add: dget_or_def)
  then show ?thesis
    using episode_lines[where F = F and fx = fx, OF assms(2)]
    by (simp add: cmd_memory_search_def ask_result[OF d] Let_def del: map_map)
qed

section \<open>Witnesses\<close>

text \<open>The daemon after a plan was requested: its run is \<open>r1\<close>; the next id would be \<open>r2\<close>.\<close>

definition planned :: daemon where
  "planned = started sample_env RK_plan ''tidy up'' ''auto'' new_daemon"

definition next_env :: rpc_env where
  "next_env = sample_env\<lparr>re_id := ''r2''\<rparr>"

lemma planned_facts:
  "coherent (dm_store planned)"
  "read_run (st_db (dm_store planned)) ''r1'' =
     Inr (Some (run_with_events (new_run ''r1'' RK_plan ''tidy up'' ''auto'' 5) []))"
  "row_status (dm_exec planned) ''r2'' = None" "row_status (dm_exec planned) ''r'' = None"
proof -
  have e: "re_id sample_env = ''r1''" "re_now sample_env = 5" "re_brain sample_env ''auto'' = Inr (Claude_brain ''m'')"
    by (simp_all add: sample_env_def)
  have inv: "exec_inv (dm_exec new_daemon)" by (simp add: new_daemon_def new_executor_inv)
  have "exec_inv (dm_exec (snd (dispatch sample_env ''q'' M_plan_task
      [(''task'', JStr ''tidy up''), (''brain'', JStr ''auto'')] new_daemon)))"
    by (rule runs.request_keeps[OF inv]) (simp add: sample_env_def)
  then have "exec_inv (dm_exec planned)"
    using dispatch_start[OF new_daemon_run e(3), of "''tidy up''" M_plan_task RK_plan "''q''"] by (simp add: planned_def)
  then show "coherent (dm_store planned)" by (simp add: exec_inv_def dm_store_def)
  show "read_run (st_db (dm_store planned)) ''r1'' =
      Inr (Some (run_with_events (new_run ''r1'' RK_plan ''tidy up'' ''auto'' 5) []))"
    using read_started[OF new_daemon_run e(3) inv, of RK_plan "''tidy up''"] by (simp add: planned_def e)
  show "row_status (dm_exec planned) ''r2'' = None" "row_status (dm_exec planned) ''r'' = None"
    by (simp_all add: planned_def started_def submit_def e insert_run_def sql_insert_def row_status_def new_daemon_def
        new_executor_def empty_store_def empty_db_def new_run_def sql_find_def upd_db_def)
qed

theorem rerun_starts_the_stored_task_witness:
  "\<exists>s. cmd_runs_rerun plain_fmt (daemon_api sample_env ''a'') (daemon_api next_env ''b'') ''/s'' ''r1'' None False planned =
     (says [''r2''], started next_env RK_run ''tidy up'' ''auto'' (set_store s planned))"
proof -
  have x: "rn_task (run_with_events (new_run ''r1'' RK_plan ''tidy up'' ''auto'' 5) []) = ''tidy up''"
    "rn_brain (run_with_events (new_run ''r1'' RK_plan ''tidy up'' ''auto'' 5) []) = ''auto''"
    by (simp_all add: run_with_events_def new_run_def)
  have n: "re_id next_env = ''r2''" "re_brain next_env ''auto'' = Inr (Claude_brain ''m'')"
    by (simp_all add: next_env_def sample_env_def)
  have "row_status (dm_exec planned) (re_id next_env) = None" by (simp add: n planned_facts(3))
  from rerun_starts_the_stored_task[OF planned_facts(1,2) _ this, of "''auto''" None _ plain_fmt sample_env "''a''" "''b''" "''/s''"]
  show ?thesis using n x by auto
qed

theorem show_needs_the_whole_id_witness:
  "fst (cmd_runs_show plain_fmt (daemon_api sample_env ''a'') ''/s'' ''r'' False False planned) =
     complains [''Error: [not_found] '' @ repr_str (''run '' @ repr_str ''r'' @ '' not found'')] X_error"
proof -
  have "read_run (st_db (dm_store planned)) ''r'' = Inr None"
    using planned_facts(4) by (simp add: row_status_def read_run_def dm_store_def)
  from show_needs_the_whole_id[OF planned_facts(1) this] show ?thesis .
qed

theorem tail_follows_one_run_witness:
  "cmd_runs_tail plain_fmt ''r1''
     [(T_runs, [(''run_id'', JStr ''r1''), (''kind'', JStr ''run_started'')]),
      (T_runs, [(''run_id'', JStr ''r2''), (''kind'', JStr ''run_started'')]),
      (T_runs, [(''run_id'', JStr ''r1''), (''kind'', JStr ''run_finished''), (''status'', JStr ''completed'')]),
      (T_runs, [(''run_id'', JStr ''r1''), (''kind'', JStr ''late'')])] =
   says [''Tailing run r1 (Ctrl+C to stop)...'', ''  [run_started] '', ''  [run_finished] completed'']"
  by (subst tail_follows_one_run) 
    (simp_all add: dget_or_def says_def tail_line_def until_finished_def finishes_def of_run_def startswith_def show_str_def)

theorem search_hides_outcomes_witness:
  "fst (cmd_memory_search plain_fmt (daemon_api (sample_env\<lparr>re_embed := (\<lambda>t. Inr [0]), re_dist := (\<lambda>a b. hd a - hd b)\<rparr>) ''a'')
       ''/s'' ''tidy'' 1 False (set_store sample_memory new_daemon)) =
     says [''r2  [?         ]  score=0.0  b'']"
proof -
  let ?E = "sample_env\<lparr>re_embed := (\<lambda>t. Inr [0]), re_dist := (\<lambda>a b. hd a - hd b)\<rparr>"
  let ?D = "set_store sample_memory new_daemon"
  let ?r = "recall (\<lambda>_. re_embed ?E ''tidy'') (re_dist ?E) (re_now ?E) [] 1 False (dm_store ?D)"
  have "map (\<lambda>e. (epi_run e, epi_task e)) (fst ?r) = [(''r2'', ''b'')]"
    by (simp add: recall_def Let_def query_episodes_by_vec_def sample_memory_def insert_episode_vec_def
        insert_episode_def upd_db_def sql_replace_def empty_db_def sql_limit_def episode_of_row_def)
  then obtain e where e: "fst ?r = [e]" "epi_run e = ''r2''" "epi_task e = ''b''" by (cases "fst ?r") auto
  have f: "fm_fixed plain_fmt 3 (JFloat x) = Inr ''0.0''" for x by (simp add: plain_fmt_def)
  have "?r = ([e], snd ?r)" using e(1) by (metis prod.collapse)
  from search_hides_outcomes[where F = plain_fmt and fx = "\<lambda>x. ''0.0''", OF _ f this] e(2,3) show ?thesis
    by (simp add: search_line_def)
qed

end
