(* ===== verification/Panels.thy ===== *)
theory Panels
  imports Cli Voice
begin

text \<open>
  The programs of \<open>src/src/agent/cli\<close> that surround the daemon: the Waybar module
  (\<open>waybar_module.py\<close>), the task launcher (\<open>fuzzel_launcher.py\<close>), the voice commands
  (\<open>voice.py\<close>), the set-up commands (\<open>config.py\<close>) and the systemd unit (\<open>service.py\<close>).  What
  a program prints and does to files and services is its result.
\<close>

section \<open>The Waybar module\<close>

definition u_mid :: string where "u_mid = [CHR 0xC2, CHR 0xB7]"
definition u_filled :: string where "u_filled = [CHR 0xE2, CHR 0x97, CHR 0x8F]"
definition u_hollow :: string where "u_hollow = [CHR 0xE2, CHR 0x97, CHR 0x8B]"
definition u_check :: string where "u_check = [CHR 0xE2, CHR 0x9C, CHR 0x93]"
definition u_cross :: string where "u_cross = [CHR 0xE2, CHR 0x9C, CHR 0x97]"
definition u_dots :: string where "u_dots = [CHR 0xE2, CHR 0x80, CHR 0xA6]"
definition u_slashed :: string where "u_slashed = [CHR 0xE2, CHR 0x8A, CHR 0x98]"

record voice_look =
  vl_icon :: string
  vl_cls :: string
  vl_tooltip :: string

definition u_mic :: string where "u_mic = [CHR 0xEF, CHR 0x84, CHR 0xB0]"
definition u_mic_off :: string where "u_mic_off = [CHR 0xEF, CHR 0x84, CHR 0xB1]"

definition voice_states :: "(string \<times> voice_look) list" where
  "voice_states =
     [(''offline'', \<lparr>vl_icon = u_mic, vl_cls = ''voice-offline'', vl_tooltip = ''voce offline''\<rparr>),
      (''muted'', \<lparr>vl_icon = u_mic_off, vl_cls = ''voice-muted'', vl_tooltip = ''voce mutata''\<rparr>),
      (''idle'', \<lparr>vl_icon = u_mic, vl_cls = ''voice-idle'', vl_tooltip = ''voce attiva''\<rparr>)]"

definition voice_state :: "bool \<Rightarrow> bool \<Rightarrow> voice_look" where
  "voice_state installed muted =
     the (map_of voice_states (if \<not> installed then ''offline'' else if muted then ''muted'' else ''idle''))"

definition merge_bar :: "string \<Rightarrow> string \<Rightarrow> string \<Rightarrow> voice_look \<Rightarrow> params" where
  "merge_bar t cls tooltip v =
     [(''text'', JStr (t @ '' '' @ vl_icon v)), (''class'', JStr (cls @ '' '' @ vl_cls v)),
      (''tooltip'', JStr (tooltip @ '' '' @ u_mid @ '' '' @ vl_tooltip v))]"

definition idle_bar :: "voice_look \<Rightarrow> params" where
  "idle_bar v = merge_bar u_hollow ''idle'' (''hyprland-agent '' @ u_mid @ '' idle'') v"

definition disconnected_bar :: "voice_look \<Rightarrow> params" where
  "disconnected_bar v = merge_bar u_slashed ''disconnected'' ''daemon offline'' v"

definition task_label :: "string \<Rightarrow> string \<Rightarrow> string" where
  "task_label task l = (if task \<noteq> [] then task @ '' '' @ u_mid @ '' '' @ l else l)"

definition render_bar :: "fmt \<Rightarrow> json \<Rightarrow> params \<Rightarrow> voice_look \<Rightarrow> params res" where
  "render_bar F kind payload v =
     (let status = dget_or payload ''status'' (JStr []);
          task = take 60 (show_str F (dget_or payload ''task'' (JStr [])));
          elapsed = dget_or payload ''elapsed_s'' JNull
      in if kind = JStr ''run_started'' then
           Inr (merge_bar u_filled ''running'' (task_label task ''running'') v)
         else if kind = JStr ''run_finished'' \<and> status = JStr ''completed'' then
           rbind (if elapsed = JNull then Inr []
                  else rbind (fm_fixed F 0 elapsed) (\<lambda>t. Inr ('' ('' @ t @ ''s)'')))
             (\<lambda>suffix. Inr (merge_bar u_check ''done'' (task_label task ''done'' @ suffix) v))
         else if kind = JStr ''run_finished'' \<and> (status = JStr ''errored'' \<or> status = JStr ''aborted'') then
           Inr (merge_bar u_cross ''error''
             (task @ '' '' @ u_mid @ '' '' @ (if status = JStr ''errored'' then ''error'' else ''aborted'')) v)
         else Inr (idle_bar v))"

text \<open>
  One connection of \<open>_watch\<close>: the lines it prints for the events it yields, with the voice state
  sampled at each; an event that cannot be rendered ends the connection as an error does.
\<close>

fun bar_events :: "fmt \<Rightarrow> (nat \<Rightarrow> voice_look) \<Rightarrow> nat \<Rightarrow> (topic \<times> params) list \<Rightarrow> params list" where
  "bar_events F vs n [] = []"
| "bar_events F vs n ((t, p) # es) =
     (if t \<noteq> T_runs then bar_events F vs n es
      else case render_bar F (dget_or p ''kind'' (JStr [])) p (vs n) of
             Inl e \<Rightarrow> [disconnected_bar (vs n)]
           | Inr l \<Rightarrow> l # bar_events F vs (Suc n) es)"

text \<open>An attempt that fails prints one line; the delay after it is the one of the voice sidecar.\<close>

datatype attempt = Unreachable | Connected "(topic \<times> params) list"

definition bar_attempt :: "fmt \<Rightarrow> (nat \<Rightarrow> voice_look) \<Rightarrow> attempt \<Rightarrow> real \<Rightarrow> params list \<times> real \<times> real" where
  "bar_attempt F vs a delay = (case a of
      Unreachable \<Rightarrow> ([disconnected_bar (vs 0)], delay, min (delay * 2) 30)
    | Connected es \<Rightarrow> (idle_bar (vs 0) # bar_events F vs 1 es, 1, 2))"

section \<open>The task launcher\<close>

definition placeholder :: string where "placeholder = ''Type a new task'' @ u_dots"

definition max_recent :: nat where "max_recent = 20"

text \<open>The distinct tasks of the runs, stripped, in the order of the runs.\<close>

fun recent_tasks :: "fmt \<Rightarrow> string list \<Rightarrow> json list \<Rightarrow> string list res" where
  "recent_tasks F seen [] = Inr []"
| "recent_tasks F seen (r # rs) =
     rbind (get_json r ''task'' (JStr [])) (\<lambda>t.
       let task = strip (show_str F t)
       in if task \<noteq> [] \<and> task \<notin> set seen \<and> task \<noteq> placeholder
          then rbind (recent_tasks F (seen @ [task]) rs) (\<lambda>ts. Inr (task # ts))
          else recent_tasks F seen rs)"

definition menu_input :: "string list \<Rightarrow> string" where
  "menu_input tasks = join [chr_nl] (placeholder # tasks) @ [chr_nl]"

text \<open>
  \<open>fuzzel\<close> is the program: from the menu to its exit code and output, or its absence.  The second
  result is what the launcher prints, the exit code comes first; an error of the first request
  other than an absent daemon is not caught.
\<close>

definition failed_text :: "string \<Rightarrow> client_error \<Rightarrow> string option" where
  "failed_text socket e = (case e of
      Daemon_unavailable \<Rightarrow> Some (unavailable_text socket)
    | Rpc_error c m \<Rightarrow> Some (''['' @ c @ ''] '' @ m)
    | _ \<Rightarrow> None)"

definition exits_with :: "nat \<Rightarrow> string list \<Rightarrow> string list \<Rightarrow> cli_out" where
  "exits_with n out err = \<lparr>co_out = out, co_err = err, co_end = Exits (if n = 0 then X_ok else X_error)\<rparr>"

definition submit_choice :: "fmt \<Rightarrow> 'd api \<Rightarrow> string \<Rightarrow> string \<Rightarrow> string \<Rightarrow> 'd \<Rightarrow> cli_out \<times> 'd" where
  "submit_choice F rq socket brain chosen d = (case rq M_run_task [(''task'', JStr chosen), (''brain'', JStr brain)] d of
      (None, d') \<Rightarrow> (\<lparr>co_out = [], co_err = [], co_end = Hangs\<rparr>, d')
    | (Some (Inr r), d') \<Rightarrow> (exits_with 0 [''run_id: '' @ show_str F (dget_or r ''run_id'' (JStr ''?''))] [], d')
    | (Some (Inl e), d') \<Rightarrow>
        (case failed_text socket e of
           Some m \<Rightarrow> (exits_with 1 [] [''error: '' @ m], d')
         | None \<Rightarrow> (\<lparr>co_out = [], co_err = [], co_end = Client_crash e\<rparr>, d')))"

definition pick_task ::
  "fmt \<Rightarrow> 'd api \<Rightarrow> 'd api \<Rightarrow> (string \<Rightarrow> (nat \<times> string) option) \<Rightarrow> string \<Rightarrow> string \<Rightarrow> 'd \<Rightarrow> cli_out \<times> 'd" where
  "pick_task F rq rq2 fuzzel socket brain d = (case rq M_list_runs [(''limit'', JInt (int max_recent))] d of
      (None, d') \<Rightarrow> (\<lparr>co_out = [], co_err = [], co_end = Hangs\<rparr>, d')
    | (Some (Inl Daemon_unavailable), d') \<Rightarrow> (exits_with 1 [] [''error: daemon is not running''], d')
    | (Some (Inl e), d') \<Rightarrow> (\<lparr>co_out = [], co_err = [], co_end = Client_crash e\<rparr>, d')
    | (Some (Inr r), d') \<Rightarrow>
        (case rbind (iter_json (dget_or r ''runs'' (JList []))) (recent_tasks F []) of
           Inl e \<Rightarrow> (crashes e, d')
         | Inr tasks \<Rightarrow>
             (case fuzzel (menu_input tasks) of
                None \<Rightarrow> (exits_with 1 [] [''error: fuzzel not found''], d')
              | Some (rc, output) \<Rightarrow>
                  if rc \<noteq> 0 then (exits_with 0 [] [], d')
                  else if strip output = [] \<or> strip output = placeholder then (exits_with 0 [] [], d')
                  else submit_choice F rq2 socket brain (strip output) d')))"

section \<open>The mute flag\<close>

text \<open>The flag is a file; these are the commands on it and what they print.\<close>

definition cmd_voice_status :: "bool \<Rightarrow> string list" where
  "cmd_voice_status muted = (''muted: '' @ (if muted then ''yes'' else ''no'')) #
     (if muted then [''Voice output is muted '' @ u_dash @ '' run `agent voice unmute` to re-enable.''] else [])"

definition cmd_mute :: "bool \<Rightarrow> string list \<times> bool" where
  "cmd_mute muted = ([''Voice output muted''], True)"

definition cmd_unmute :: "bool \<Rightarrow> string list \<times> bool" where
  "cmd_unmute muted = ([''Voice output unmuted''], False)"

definition cmd_toggle_mute :: "bool \<Rightarrow> string list \<times> bool" where
  "cmd_toggle_mute muted = (if muted then ([''unmuted''], False) else ([''muted''], True))"

text \<open>
  \<open>ptt\<close>: the path of the socket, whether there is one, and the error of the connection; the
  line sent is the second result.
\<close>

definition ptt_path :: "voice_config \<Rightarrow> string \<Rightarrow> string" where
  "ptt_path c runtime_dir =
     (let path = vpt_socket (vo_ptt c)
      in if path \<noteq> [] then path else runtime_dir @ ''/hyprland-agent-voice-ptt.sock'')"

definition cmd_ptt :: "voice_config \<Rightarrow> string \<Rightarrow> (string \<Rightarrow> bool) \<Rightarrow> string option \<Rightarrow> cli_out \<times> string option" where
  "cmd_ptt c runtime_dir exists fails =
     (let path = ptt_path c runtime_dir
      in if \<not> exists path
         then (complains [''PTT socket not found at '' @ path,
                 ''Is the voice sidecar (agent-voice) running with PTT enabled?''] X_daemon_unavailable, None)
         else case fails of
                Some e \<Rightarrow> (complains [''Failed to send PTT trigger: '' @ e] X_daemon_unavailable, None)
              | None \<Rightarrow> (says [], Some (''record'' @ [chr_nl])))"

section \<open>Set-up commands\<close>

text \<open>\<open>init-allowlist\<close> on the allowlist file; its messages are left out but for the last.\<close>

definition cmd_init_allowlist :: "bool \<Rightarrow> bool \<Rightarrow> bool \<Rightarrow> json option \<Rightarrow> cli_out \<times> json option" where
  "cmd_init_allowlist yes tty answer file =
     (case (if file = None then None else confirm_or_exit yes tty answer) of
        Some o' \<Rightarrow> (o', file)
      | None \<Rightarrow> (says [''Created ~/.config/hyprland-agent/allowlist.yaml'',
                     ''Edit it to allow the windows the agent should be able to control.''],
                 create_default_config file))"

text \<open>\<open>bind-killswitch\<close>: the second result is the file of Hyprland after it.\<close>

definition bind_line :: "host \<Rightarrow> string" where
  "bind_line H = ''bind = SUPER SHIFT, escape, exec, '' @ resolve_agent_bin H @ '' stop''"

definition bind_text :: "host \<Rightarrow> string" where
  "bind_text H = chr_nl # ''# Hyprland agent kill switch (SUPER+SHIFT+ESC)'' @ [chr_nl] @ bind_line H @ [chr_nl]"

definition cmd_bind_killswitch :: "bool \<Rightarrow> bool \<Rightarrow> bool \<Rightarrow> bool \<Rightarrow> host \<Rightarrow> cli_out \<times> host" where
  "cmd_bind_killswitch yes force tty answer H = (case ho_hypr_conf H of
      None \<Rightarrow> (complains [''Not found: '' @ hypr_conf_path (ho_home H)] X_error, H)
    | Some t \<Rightarrow>
        if contains t ''agent stop'' \<and> \<not> force
        then (says [''Kill-switch bind already present in hyprland.conf.''], H)
        else case confirm_or_exit yes tty answer of
               Some o' \<Rightarrow> (o', H)
             | None \<Rightarrow> (says [''Added to '' @ hypr_conf_path (ho_home H) @ '':'' @ [chr_nl] @ ''  '' @ bind_line H,
                            ''Run `hyprctl reload` to activate.''],
                        H\<lparr>ho_hypr_conf := Some (t @ bind_text H)\<rparr>))"

text \<open>
  \<open>show\<close>: \<open>doc\<close> is the content of \<open>config.yaml\<close>, none without the file, an error when it does not parse.
\<close>

definition shown_config :: "host \<Rightarrow> json res option \<Rightarrow> params" where
  "shown_config H doc =
     (let dir = config_dir (ho_home H); cache = ho_home H @ ''/.cache/hyprland-agent''
      in [(''config_dir'', JStr dir), (''cache_dir'', JStr cache),
          (''allowlist_yaml'', JStr (dir @ ''/allowlist.yaml'')), (''rules_yaml'', JStr (dir @ ''/rules.yaml'')),
          (''learned_rules_yaml'', JStr (dir @ ''/learned_rules.yaml'')), (''runs_db'', JStr (cache @ ''/runs.db'')),
          (''socket'', JStr (ho_socket H)),
          (''config_yaml'', case doc of
             None \<Rightarrow> JNull
           | Some (Inr v) \<Rightarrow> v
           | Some (Inl _) \<Rightarrow> JStr (''(parse error: '' @ dir @ ''/config.yaml)''))])"

definition cmd_config_show :: "fmt \<Rightarrow> host \<Rightarrow> json res option \<Rightarrow> bool \<Rightarrow> cli_out" where
  "cmd_config_show F H doc json_out =
     (let cfg = shown_config H doc
      in if json_out then says [fm_dumps F True (JObj cfg)]
         else says (concat (map (\<lambda>(k, v). case v of
                JObj d \<Rightarrow> [k @ '':'', fm_dumps F True v]
              | _ \<Rightarrow> [k @ '': '' @ show_str F v]) cfg)))"

section \<open>The systemd unit\<close>

datatype service_step = Systemctl "string list" bool | Write_file string string | Remove_path string | Make_dir string

definition service_unit_name :: string where "service_unit_name = ''hyprland-agent.service''"

definition old_unit :: string where "old_unit = ''hyprland-agent-watch.service''"

definition systemd_user_dir :: "string \<Rightarrow> string" where
  "systemd_user_dir home = home @ ''/.config/systemd/user''"

definition unit_content :: "host \<Rightarrow> string" where
  "unit_content H = join [chr_nl]
     [''[Unit]'', ''Description=Hyprland agent daemon'', ''After=graphical-session.target'',
      ''PartOf=graphical-session.target'', ''ConditionEnvironment=HYPRLAND_INSTANCE_SIGNATURE'', [],
      ''[Service]'', ''Type=simple'', ''ExecStart='' @ resolve_agent_bin H @ '' service start'', ''Restart=on-failure'',
      ''RestartSec=5'', ''Environment=PATH='' @ ho_home H @ ''/.local/bin:/usr/local/bin:/usr/bin'',
      ''EnvironmentFile=-%h/.config/hyprland-agent/env'', [],
      ''[Install]'', ''WantedBy=graphical-session.target'', []]"

text \<open>
  The steps in order; a \<open>systemctl\<close> marked \<open>True\<close> must succeed (\<open>check=True\<close>), and the steps after
  one that fails are not taken.
\<close>

definition install_steps :: "host \<Rightarrow> service_step list" where
  "install_steps H =
     (let dir = systemd_user_dir (ho_home H) @ ''/''
      in (if ho_exists H (dir @ old_unit)
          then [Systemctl [''stop'', old_unit] False, Systemctl [''disable'', old_unit] False, Remove_path (dir @ old_unit)]
          else []) @
         [Make_dir (systemd_user_dir (ho_home H)), Write_file (dir @ service_unit_name) (unit_content H),
          Systemctl [''daemon-reload''] True, Systemctl [''enable'', ''--now'', service_unit_name] True])"

fun taken :: "(service_step \<Rightarrow> bool) \<Rightarrow> service_step list \<Rightarrow> service_step list" where
  "taken ok [] = []"
| "taken ok (s # ss) = s # (case s of Systemctl args True \<Rightarrow> if ok s then taken ok ss else [] | _ \<Rightarrow> taken ok ss)"

text \<open>What it prints: the lines up to the first failure, which ends it with the error of the command.\<close>

definition install_lines :: "host \<Rightarrow> string list" where
  "install_lines H =
     (let dir = systemd_user_dir (ho_home H) @ ''/''
      in (if ho_exists H (dir @ old_unit)
          then [''Stopping '' @ old_unit @ u_dots, ''Removed '' @ dir @ old_unit] else []) @
         [''Wrote '' @ dir @ service_unit_name])"

definition dry_run_lines :: "host \<Rightarrow> string list" where
  "dry_run_lines H =
     [''# Would write to '' @ systemd_user_dir (ho_home H) @ ''/'' @ service_unit_name @ '':'', unit_content H,
      ''# Would run:'', ''  systemctl --user daemon-reload'', ''  systemctl --user enable --now '' @ service_unit_name]"

definition cmd_install ::
  "bool \<Rightarrow> bool \<Rightarrow> bool \<Rightarrow> bool \<Rightarrow> (service_step \<Rightarrow> bool) \<Rightarrow> host \<Rightarrow> cli_out \<times> service_step list" where
  "cmd_install yes dry_run tty answer ok H =
     (if dry_run then (says (dry_run_lines H), [])
      else case confirm_or_exit yes tty answer of
             Some o' \<Rightarrow> (o', [])
           | None \<Rightarrow>
               (if list_all (\<lambda>s. case s of Systemctl args True \<Rightarrow> ok s | _ \<Rightarrow> True) (install_steps H)
                then says (install_lines H @ [u_check @ '' '' @ service_unit_name @ '' enabled and started.'',
                       ''Run '' @ quoted ''agent doctor'' @ '' to verify.''])
                else \<lparr>co_out = install_lines H, co_err = [], co_end = Crashes (OtherError ''CalledProcessError'')\<rparr>,
                taken ok (install_steps H)))"

definition uninstall_targets :: "host \<Rightarrow> string list" where
  "uninstall_targets H = filter (ho_exists H)
     [config_dir (ho_home H), ho_home H @ ''/.cache/hyprland-agent'',
      systemd_user_dir (ho_home H) @ ''/'' @ service_unit_name]"

text \<open>
  \<open>uninstall\<close>: here the question is always asked without \<open>--yes\<close>, and a no aborts.  The home
  directory is spelled out in the paths it prints.
\<close>

definition uninstall_lines :: "host \<Rightarrow> string list" where
  "uninstall_lines H = [''Will remove:''] @ map (\<lambda>t. ''  '' @ t) (uninstall_targets H) @
     [''  (note: ~/.cache/fastembed is kept '' @ u_dash @ '' shared with other tools)'']"

definition cmd_uninstall :: "bool \<Rightarrow> bool \<Rightarrow> host \<Rightarrow> cli_out \<times> service_step list" where
  "cmd_uninstall yes answer H =
     (let asked = (if yes then [] else uninstall_lines H)
      in if uninstall_targets H = [] then (says [''Nothing to remove.''], [])
         else if \<not> yes \<and> \<not> answer
         then (\<lparr>co_out = asked, co_err = [''Aborted.''], co_end = Exits X_error\<rparr>, [])
         else (says (asked @ map (\<lambda>t. ''Removed '' @ t) (uninstall_targets H) @ [''Uninstall complete.'']),
               [Systemctl [''stop'', service_unit_name] False, Systemctl [''disable'', service_unit_name] False] @
               map Remove_path (uninstall_targets H) @ [Systemctl [''daemon-reload''] False]))"

section \<open>Lemmas\<close>

lemma recent_tasks_runs:
  "\<exists>ts. recent_tasks F seen (map (\<lambda>r. JObj (summary_dump r)) rs) = Inr ts \<and> distinct ts \<and>
     set ts = {strip (rn_task r) | r. r \<in> set rs} - (set seen \<union> {[], placeholder})"
proof (induction rs arbitrary: seen)
  case (Cons r rs)
  have task: "get_json (JObj (summary_dump r)) ''task'' (JStr []) = Inr (JStr (rn_task r))"
    by (simp add: summary_dump_def dget_or_def)
  let ?t = "strip (rn_task r)"
  show ?case
  proof (cases "?t \<noteq> [] \<and> ?t \<notin> set seen \<and> ?t \<noteq> placeholder")
    case True
    obtain ts where ts: "recent_tasks F (seen @ [?t]) (map (\<lambda>r. JObj (summary_dump r)) rs) = Inr ts" "distinct ts"
      "set ts = {strip (rn_task r) | r. r \<in> set rs} - (set (seen @ [?t]) \<union> {[], placeholder})"
      using Cons.IH by blast
    then have "recent_tasks F seen (map (\<lambda>r. JObj (summary_dump r)) (r # rs)) = Inr (?t # ts)"
      using True task by (simp add: show_str_def)
    moreover have "distinct (?t # ts)" using ts(2,3) by simp
    moreover have "set (?t # ts) = {strip (rn_task r') | r'. r' \<in> set (r # rs)} - (set seen \<union> {[], placeholder})"
      using True ts(3) by auto
    ultimately show ?thesis by blast
  next
    case False
    obtain ts where ts: "recent_tasks F seen (map (\<lambda>r. JObj (summary_dump r)) rs) = Inr ts" "distinct ts"
      "set ts = {strip (rn_task r) | r. r \<in> set rs} - (set seen \<union> {[], placeholder})"
      using Cons.IH by blast
    have c: "(?t \<noteq> [] \<and> ?t \<notin> set seen \<and> ?t \<noteq> placeholder) = False" using False by blast
    have "recent_tasks F seen (map (\<lambda>r. JObj (summary_dump r)) (r # rs)) = Inr ts"
      by (simp only: list.map recent_tasks.simps task rbind.simps Let_def show_str_def py_str.simps c if_False ts(1))
    moreover have "set ts = {strip (rn_task r') | r'. r' \<in> set (r # rs)} - (set seen \<union> {[], placeholder})"
    proof -
      have "{strip (rn_task r') | r'. r' \<in> set (r # rs)} = insert ?t {strip (rn_task r') | r'. r' \<in> set rs}" by auto
      moreover have "?t \<in> set seen \<union> {[], placeholder}" using False by blast
      ultimately show ?thesis using ts(3) by (simp only: Diff_insert_absorb insert_Diff_if if_True)
    qed
    ultimately show ?thesis using ts(2) by blast
  qed
qed simp

lemma strip_last: "strip s \<noteq> [] \<Longrightarrow> \<not> is_space (last (strip s))"
  using hd_dropWhile[of is_space "rev (dropWhile is_space s)"] by (auto simp: strip_def last_rev)

lemma strip_idem [simp]: "strip (strip s) = strip s"
proof (cases "strip s = []")
  case False
  have "\<not> is_space (hd (strip s))" using False by (rule strip_hd)
  moreover have "\<not> is_space (last (strip s))" using False by (rule strip_last)
  ultimately show ?thesis using False by (intro strip_ends)
next
  case True
  have "strip [] = []" by (simp add: strip_def)
  with True show ?thesis by simp
qed

text \<open>The last line the bar shows is the one of the last event, when the earlier ones can be rendered.\<close>

lemma bar_events_append:
  "list_all (\<lambda>(t, p). \<forall>v. \<exists>l. render_bar F (dget_or p ''kind'' (JStr [])) p v = Inr l) es \<Longrightarrow>
   \<exists>m. bar_events F vs n (es @ es') = bar_events F vs n es @ bar_events F vs m es'"
proof (induction es arbitrary: n)
  case (Cons e es)
  obtain t p where e: "e = (t, p)" by fastforce
  then obtain l where "t = T_runs \<Longrightarrow> render_bar F (dget_or p ''kind'' (JStr [])) p (vs n) = Inr l"
    using Cons.prems by auto
  then show ?case using Cons e by (cases "t = T_runs") auto
qed auto

lemma bin_name:
  assumes "\<And>p. ho_which H ''agent'' = Some p \<Longrightarrow> p \<noteq> [] \<Longrightarrow> \<exists>d. p = d @ ''agent''"
  shows "\<exists>d. resolve_agent_bin H = d @ ''agent''"
proof (cases "ho_exists H (ho_home H @ ''/.local/bin/agent'')")
  case True
  then have "resolve_agent_bin H = (ho_home H @ ''/.local/bin/'') @ ''agent''" by (simp add: resolve_agent_bin_def)
  then show ?thesis by blast
next
  case False
  then have r: "resolve_agent_bin H = (case ho_which H ''agent'' of None \<Rightarrow> ''agent'' | Some [] \<Rightarrow> ''agent'' | Some p \<Rightarrow> p)"
    by (simp add: resolve_agent_bin_def)
  show ?thesis
  proof (cases "ho_which H ''agent'' = None \<or> ho_which H ''agent'' = Some []")
    case True
    then have "resolve_agent_bin H = [] @ ''agent''" using r by auto
    then show ?thesis by blast
  next
    case False
    then obtain c q where p: "ho_which H ''agent'' = Some (c # q)"
      by (metis list.exhaust option.exhaust)
    then show ?thesis using assms[OF p] r by simp
  qed
qed

lemma list_runs_dispatch:
  assumes "list_runs 20 (dm_store D) = Inr rs"
  shows "daemon_api E i M_list_runs [(''limit'', JInt (int max_recent))] D =
     (Some (Inr [(''runs'', JList (map (\<lambda>r. JObj (summary_dump r)) rs))]), D)"
proof -
  have m: "map_of dispatch_table M_list_runs = Some h_list_runs" by (simp add: dispatch_table_def)
  have "h_list_runs E [(''limit'', JInt (int max_recent))] D =
      (Inr [(''runs'', JList (map (\<lambda>r. JObj (summary_dump r)) rs))], D)"
    using assms by (simp add: h_list_runs_def dget_or_def max_recent_def)
  from dispatch_ok[OF m this, of i] show ?thesis by (simp add: daemon_api_def)
qed

lemma menu_lines:
  "\<forall>t\<in>set ts. chr_nl \<notin> set t \<Longrightarrow> split_on chr_nl (menu_input ts) = placeholder # ts @ [[]]"
proof -
  assume a: "\<forall>t\<in>set ts. chr_nl \<notin> set t"
  have j: "join [chr_nl] (ws @ [[]]) = join [chr_nl] ws @ [chr_nl]" if "ws \<noteq> []" for ws
    using that by (induction "[chr_nl]" ws rule: join.induct) auto
  have "menu_input ts = join [chr_nl] (placeholder # ts @ [[]])"
    using j[of "placeholder # ts"] by (simp add: menu_input_def)
  moreover have "\<And>w. w \<in> set (placeholder # ts @ [[]]) \<Longrightarrow> chr_nl \<notin> set w"
    using a by (auto simp: placeholder_def u_dots_def)
  ultimately show ?thesis using split_on_join[of "placeholder # ts @ [[]]" chr_nl] by simp
qed

lemma strip_newline: "strip (strip s @ [chr_nl]) = strip s"
proof -
  have nl: "is_space chr_nl" by (simp add: is_space_def ordc_def)
  have "strip (w @ [chr_nl]) = strip w" for w
    by (induction w) (simp_all add: strip_def nl dropWhile_append)
  then show ?thesis by simp
qed

section \<open>Properties\<close>

text \<open>
  The task launcher repeats a recent task exactly: each distinct task of the last twenty runs,
  stripped, is one line of the menu, and choosing that line starts a run of this very task with
  the brain of the command line, provided no task has a line break in it.
\<close>

theorem launcher_repeats_a_task:
  assumes "list_runs 20 (dm_store D) = Inr rs" and "r \<in> set rs" and "t = strip (rn_task r)"
    and "t \<noteq> []" and "t \<noteq> placeholder" and "\<forall>r\<in>set rs. chr_nl \<notin> set (strip (rn_task r))"
    and "row_status (dm_exec D) (re_id E2) = None" and "re_brain E2 brain = Inr br"
  shows "\<exists>menu. t \<in> set (split_on chr_nl menu) \<and> distinct (split_on chr_nl menu) \<and>
     (\<forall>fuzzel. fuzzel menu = Some (0, t @ [chr_nl]) \<longrightarrow>
        pick_task F (daemon_api E1 i) (daemon_api E2 j) fuzzel socket brain D =
          (exits_with 0 [''run_id: '' @ re_id E2] [], started E2 RK_run t brain D))"
proof -
  obtain ts where ts: "recent_tasks F [] (map (\<lambda>r. JObj (summary_dump r)) rs) = Inr ts" "distinct ts"
    "set ts = {strip (rn_task r) | r. r \<in> set rs} - (set [] \<union> {[], placeholder})"
    using recent_tasks_runs by blast
  have lines: "split_on chr_nl (menu_input ts) = placeholder # ts @ [[]]"
    using ts(3) assms(6) by (intro menu_lines) auto
  have t: "t \<in> set ts" using ts(3) assms(2-5) by auto
  have p: "placeholder \<noteq> []" "placeholder \<notin> set ts" "[] \<notin> set ts"
    using ts(3) by (auto simp: placeholder_def u_dots_def)
  have runs: "dget_or [(''runs'', JList (map (\<lambda>r. JObj (summary_dump r)) rs))] ''runs'' (JList []) =
      JList (map (\<lambda>r. JObj (summary_dump r)) rs)"
    by (simp add: dget_or_def)
  have st: "strip (t @ [chr_nl]) = t"
    using strip_newline assms(3) by simp
  have new: "dget_or [(''run_id'', JStr (re_id E2))] ''run_id'' (JStr ''?'') = JStr (re_id E2)"
    by (simp add: dget_or_def)
  have d: "daemon_api E2 j M_run_task [(''task'', JStr t), (''brain'', JStr brain)] D =
      (Some (Inr [(''run_id'', JStr (re_id E2))]), started E2 RK_run t brain D)"
    using dispatch_start[OF assms(7,8,4), of M_run_task RK_run j] by (simp add: daemon_api_def)
  have "pick_task F (daemon_api E1 i) (daemon_api E2 j) fuzzel socket brain D =
      (exits_with 0 [''run_id: '' @ re_id E2] [], started E2 RK_run t brain D)"
    if "fuzzel (menu_input ts) = Some (0, t @ [chr_nl])" for fuzzel
    using that assms(4,5)
    by (simp add: pick_task_def list_runs_dispatch[OF assms(1)] runs ts(1) st submit_choice_def d new show_str_def)
  then show ?thesis
    using t p ts(2) lines by (intro exI[of _ "menu_input ts"]) auto
qed

text \<open>
  The kill switch is bound once and then seen: when the command is confirmed, it appends its
  line to the file of Hyprland and changes nothing else in it, the doctor finds the bind, and
  running the command again without force leaves the file as it is; what is found on the path
  for \<open>agent\<close> is a path that ends in this name.
\<close>

theorem killswitch_is_bound_once:
  assumes "ho_hypr_conf H = Some t" and "yes \<or> \<not> tty \<or> answer"
    and "\<And>p. ho_which H ''agent'' = Some p \<Longrightarrow> p \<noteq> [] \<Longrightarrow> \<exists>d. p = d @ ''agent''"
  shows "ck_status (killswitch_bind (snd (cmd_bind_killswitch yes force tty answer H))) = S_ok \<and>
     (\<exists>added. snd (cmd_bind_killswitch yes force tty answer H) = H\<lparr>ho_hypr_conf := Some (t @ added)\<rparr> \<and>
        (contains t ''agent stop'' \<and> \<not> force \<longleftrightarrow> added = [])) \<and>
     snd (cmd_bind_killswitch yes' False tty' answer' (snd (cmd_bind_killswitch yes force tty answer H))) =
       snd (cmd_bind_killswitch yes force tty answer H)"
proof -
  have c: "confirm_or_exit yes tty answer = None" using assms(2) by (auto simp: confirm_or_exit_def)
  obtain d where d: "resolve_agent_bin H = d @ ''agent''" using bin_name assms(3) by blast
  have "bind_text H = (chr_nl # ''# Hyprland agent kill switch (SUPER+SHIFT+ESC)'' @ [chr_nl] @
      ''bind = SUPER SHIFT, escape, exec, '' @ d) @ ''agent stop'' @ [chr_nl]"
    by (simp add: bind_text_def bind_line_def d)
  then have s: "sublist ''agent stop'' (t @ bind_text H)"
    by (metis append_assoc sublist_appendI)
  show ?thesis
  proof (cases "contains t ''agent stop'' \<and> \<not> force")
    case True
    then have same: "snd (cmd_bind_killswitch yes force tty answer H) = H"
      using assms(1) by (simp add: cmd_bind_killswitch_def)
    have "snd (cmd_bind_killswitch yes' False tty' answer' H) = H"
      using assms(1) True by (simp add: cmd_bind_killswitch_def)
    moreover have "ck_status (killswitch_bind H) = S_ok"
      using assms(1) True by (simp add: killswitch_bind_def)
    moreover have "H = H\<lparr>ho_hypr_conf := Some (t @ [])\<rparr>" using assms(1) by simp
    ultimately show ?thesis using True unfolding same by blast
  next
    case False
    let ?H = "H\<lparr>ho_hypr_conf := Some (t @ bind_text H)\<rparr>"
    have new: "snd (cmd_bind_killswitch yes force tty answer H) = ?H"
      using assms(1) False c by (auto simp: cmd_bind_killswitch_def)
    have "contains (t @ bind_text H) ''agent stop''" using s by (simp add: contains_sublist)
    then have "ck_status (killswitch_bind ?H) = S_ok" "snd (cmd_bind_killswitch yes' False tty' answer' ?H) = ?H"
      by (simp_all add: killswitch_bind_def cmd_bind_killswitch_def)
    moreover have "bind_text H \<noteq> []" by (simp add: bind_text_def)
    ultimately show ?thesis using False unfolding new by blast
  qed
qed

text \<open>
  The status bar forgets a run at its first event: after any events it can render, an event
  of the runs topic that is neither the start nor the end of a run makes the bar show the idle
  line, also in the middle of a run.
\<close>

theorem bar_forgets_the_run:
  assumes "list_all (\<lambda>(t, p). \<forall>v. \<exists>l. render_bar F (dget_or p ''kind'' (JStr [])) p v = Inr l) es"
    and "dget_or p ''kind'' (JStr []) \<notin> {JStr ''run_started'', JStr ''run_finished''}"
  shows "\<exists>n. fst (bar_attempt F vs (Connected (es @ [(T_runs, p)])) delay) =
     fst (bar_attempt F vs (Connected es) delay) @ [idle_bar (vs n)]"
proof -
  obtain m where m: "bar_events F vs 1 (es @ [(T_runs, p)]) = bar_events F vs 1 es @ bar_events F vs m [(T_runs, p)]"
    using bar_events_append[OF assms(1)] by blast
  have "bar_events F vs m [(T_runs, p)] = [idle_bar (vs m)]"
    using assms(2) by (simp add: render_bar_def Let_def)
  with m show ?thesis by (intro exI[of _ m]) (simp add: bar_attempt_def)
qed

section \<open>Witnesses\<close>

lemma planned_runs:
  "list_runs 20 (dm_store planned) = Inr [new_run ''r1'' RK_plan ''tidy up'' ''auto'' 5]"
proof -
  have e: "re_id sample_env = ''r1''" "re_now sample_env = 5" "re_brain sample_env ''auto'' = Inr (Claude_brain ''m'')"
    by (simp_all add: sample_env_def)
  show ?thesis
    by (simp add: planned_def started_def submit_def e insert_run_def sql_insert_def new_daemon_def dm_store_def
        new_executor_def empty_store_def empty_db_def new_run_def upd_db_def list_runs_def sql_limit_def
        order_desc_def row_to_summary_def enum_lookup_def all_run_kinds_def all_run_statuses_def)
qed

theorem launcher_repeats_a_task_witness:
  "\<exists>menu. ''tidy up'' \<in> set (split_on chr_nl menu) \<and>
     (\<forall>fuzzel. fuzzel menu = Some (0, ''tidy up'' @ [chr_nl]) \<longrightarrow>
        fst (pick_task plain_fmt (daemon_api sample_env ''a'') (daemon_api next_env ''b'') fuzzel ''/s'' ''auto'' planned) =
          exits_with 0 [''run_id: r2''] [])"
proof -
  have t: "''tidy up'' = strip (rn_task (new_run ''r1'' RK_plan ''tidy up'' ''auto'' 5))"
    by (simp add: new_run_def) code_simp
  have n: "re_id next_env = ''r2''" "re_brain next_env ''auto'' = Inr (Claude_brain ''m'')"
    by (simp_all add: next_env_def sample_env_def)
  have f: "row_status (dm_exec planned) (re_id next_env) = None" by (simp add: n planned_facts(3))
  have "''tidy up'' \<noteq> placeholder" by (simp add: placeholder_def u_dots_def)
  from launcher_repeats_a_task[OF planned_runs _ t _ this _ f n(2), of plain_fmt sample_env "''a''" "''b''" "''/s''"]
  obtain menu where "''tidy up'' \<in> set (split_on chr_nl menu)"
    "\<And>fuzzel. fuzzel menu = Some (0, ''tidy up'' @ [chr_nl]) \<Longrightarrow>
      pick_task plain_fmt (daemon_api sample_env ''a'') (daemon_api next_env ''b'') fuzzel ''/s'' ''auto'' planned =
        (exits_with 0 [''run_id: '' @ re_id next_env] [], started next_env RK_run ''tidy up'' ''auto'' planned)"
    using t by auto
  then show ?thesis using n(1) by (intro exI[of _ menu]) simp
qed

definition bare_host :: host where
  "bare_host = (sample_host None (default_agent_config ''/c''))\<lparr>ho_hypr_conf := Some ''monitor = eDP-1'',
     ho_which := (\<lambda>cmd. Some (''/usr/bin/'' @ cmd))\<rparr>"

theorem killswitch_is_bound_once_witness:
  "ck_status (killswitch_bind bare_host) = S_warn \<and>
   ck_status (killswitch_bind (snd (cmd_bind_killswitch True False True False bare_host))) = S_ok \<and>
   snd (cmd_bind_killswitch True False True False (snd (cmd_bind_killswitch True False True False bare_host))) =
     snd (cmd_bind_killswitch True False True False bare_host)"
proof -
  have t: "ho_hypr_conf bare_host = Some ''monitor = eDP-1''" by (simp add: bare_host_def)
  have w: "\<exists>d. p = d @ ''agent''" if "ho_which bare_host ''agent'' = Some p" for p
    using that by (auto simp: bare_host_def intro: exI[of _ "''/usr/bin/''"])
  have "ck_status (killswitch_bind bare_host) = S_warn"
    by (simp add: killswitch_bind_def t startswith_def)
  moreover note killswitch_is_bound_once[where H=bare_host and yes=True and force=False and tty=True
    and answer=False and yes'=True and tty'=True and answer'=False, OF t _ w]
  ultimately show ?thesis by simp
qed

theorem bar_forgets_the_run_witness:
  "\<exists>n. fst (bar_attempt plain_fmt (\<lambda>n. voice_state True False)
       (Connected ([(T_runs, [(''run_id'', JStr ''r1''), (''kind'', JStr ''run_started'')])] @
                   [(T_runs, [(''run_id'', JStr ''r1''), (''kind'', JStr ''screenshot'')])])) 1) =
     [idle_bar (voice_state True False), merge_bar u_filled ''running'' ''running'' (voice_state True False),
      idle_bar (voice_state True False)]"
proof -
  let ?es = "[(T_runs, [(''run_id'', JStr ''r1''), (''kind'', JStr ''run_started'')])]"
  have r: "list_all (\<lambda>(t, p). \<forall>v. \<exists>l. render_bar plain_fmt (dget_or p ''kind'' (JStr [])) p v = Inr l) ?es"
    by (simp add: dget_or_def render_bar_def Let_def)
  have k: "dget_or [(''run_id'', JStr ''r1''), (''kind'', JStr ''screenshot'')] ''kind'' (JStr [])
      \<notin> {JStr ''run_started'', JStr ''run_finished''}"
    by (simp add: dget_or_def)
  have "fst (bar_attempt plain_fmt (\<lambda>n. voice_state True False) (Connected ?es) 1) =
      [idle_bar (voice_state True False), merge_bar u_filled ''running'' ''running'' (voice_state True False)]"
    by (simp add: bar_attempt_def dget_or_def render_bar_def Let_def task_label_def show_str_def)
  with bar_forgets_the_run[OF r k, of "\<lambda>n. voice_state True False" 1] show ?thesis by simp
qed

end
