(* ===== verification/Tui.thy ===== *)
theory Tui
  imports Panels
begin

text \<open>
  \<open>src/src/agent/tui\<close>: the terminal interface.  The widgets of the textual library are its
  views; modelled is what the program keeps and computes behind them: the rows of the run list,
  the selected run with its header and timeline, the lines of the event, log and status panes,
  the learning inbox, the dialogue that starts a run, and the application that connects them.
  The data table is the library's; its operations are a parameter (\<open>table_ops\<close>), with what its
  documentation says of them as the predicate \<open>table_laws\<close>.
\<close>

section \<open>The run list\<close>

text \<open>Rows are keyed; adding a key twice and updating a missing one are errors.\<close>

record 't table_ops =
  to_rows :: "'t \<Rightarrow> (string \<times> json list) list"
  to_clear :: "'t \<Rightarrow> 't"
  to_add :: "string \<Rightarrow> json list \<Rightarrow> 't \<Rightarrow> 't res"
  to_update :: "string \<Rightarrow> string \<Rightarrow> json \<Rightarrow> 't \<Rightarrow> 't res"

definition columns :: "string list" where
  "columns = [''run_id'', ''kind'', ''status'', ''brain'', ''task'']"

definition keys_of :: "'t table_ops \<Rightarrow> 't \<Rightarrow> string list" where
  "keys_of T t = map fst (to_rows T t)"

definition put_cell :: "string \<Rightarrow> nat \<Rightarrow> json \<Rightarrow> (string \<times> json list) list \<Rightarrow> (string \<times> json list) list" where
  "put_cell k n v rows = map (\<lambda>(k', cells). (k', if k' = k then cells[n := v] else cells)) rows"

definition table_laws :: "'t table_ops \<Rightarrow> bool" where
  "table_laws T \<longleftrightarrow> (\<forall>t. to_rows T (to_clear T t) = []) \<and>
     (\<forall>k cells t. if k \<in> set (keys_of T t) then \<exists>e. to_add T k cells t = Inl e
                  else \<exists>t'. to_add T k cells t = Inr t' \<and> to_rows T t' = to_rows T t @ [(k, cells)]) \<and>
     (\<forall>k n v t. n < length columns \<longrightarrow>
        (if k \<in> set (keys_of T t)
         then \<exists>t'. to_update T k (columns ! n) v t = Inr t' \<and> to_rows T t' = put_cell k n v (to_rows T t)
         else \<exists>e. to_update T k (columns ! n) v t = Inl e))"

definition status_style :: "string dict" where
  "status_style = [(''running'', ''yellow''), (''completed'', ''green''), (''errored'', ''red''), (''aborted'', ''dim'')]"

text \<open>A dictionary looked up with any JSON value: lists and objects are not hashable.\<close>

fun style_get :: "string dict \<Rightarrow> json \<Rightarrow> string res" where
  "style_get d (JStr s) = Inr (dget_or d s [])"
| "style_get d (JList _) = Inl (TypeError ''unhashable type: list'')"
| "style_get d (JObj _) = Inl (TypeError ''unhashable type: dict'')"
| "style_get d _ = Inr []"

definition in_style :: "string \<Rightarrow> string \<Rightarrow> string" where
  "in_style style s = ''['' @ style @ '']'' @ s @ ''[/'' @ style @ '']''"

text \<open>\<open>_add_run\<close>: the cells are computed from left to right; the key is a string in every row sent.\<close>

definition add_run :: "fmt \<Rightarrow> 't table_ops \<Rightarrow> json \<Rightarrow> 't \<Rightarrow> 't res" where
  "add_run F T r t =
     rbind (item_json r ''run_id'') (\<lambda>run_id.
     rbind (get_json r ''status'' (JStr ''?'')) (\<lambda>status.
     rbind (style_get status_style status) (\<lambda>style.
     rbind (slice_json 8 run_id) (\<lambda>short.
     rbind (get_json r ''kind'' (JStr ''run'')) (\<lambda>kind.
     rbind (get_json r ''brain'' (JStr ''?'')) (\<lambda>brain.
     rbind (rbind (get_json r ''task'' (JStr [])) (slice_json 60)) (\<lambda>task.
     case run_id of
       JStr i \<Rightarrow> to_add T i [short, kind, if style \<noteq> [] then JStr (in_style style (show_str F status)) else status,
                             brain, task] t
     | _ \<Rightarrow> Inl (TypeError ''unhashable type'')))))))) "

text \<open>\<open>refresh_runs\<close>: every exception is suppressed by its caller, so what is kept is the table.\<close>

fun add_runs :: "fmt \<Rightarrow> 't table_ops \<Rightarrow> json list \<Rightarrow> 't \<Rightarrow> 't" where
  "add_runs F T [] t = t"
| "add_runs F T (r # rs) t = (case add_run F T r t of Inl e \<Rightarrow> t | Inr t' \<Rightarrow> add_runs F T rs t')"

definition refresh_runs :: "fmt \<Rightarrow> 't table_ops \<Rightarrow> 'd api \<Rightarrow> 't \<Rightarrow> 'd \<Rightarrow> 't \<times> 'd" where
  "refresh_runs F T rq t d = (case rq M_list_runs [(''limit'', JInt 20)] d of
      (Some (Inr r), d') \<Rightarrow>
        (case iter_json (dget_or r ''runs'' (JList [])) of
           Inl e \<Rightarrow> (to_clear T t, d')
         | Inr runs \<Rightarrow> (add_runs F T (rev runs) (to_clear T t), d'))
    | (_, d') \<Rightarrow> (t, d'))"

definition final_kinds :: "string dict" where
  "final_kinds =
     [(''run_completed'', ''completed''), (''run_aborted'', ''aborted''), (''run_errored'', ''errored''),
      (''plan_completed'', ''completed''), (''plan_aborted'', ''aborted''), (''plan_errored'', ''errored'')]"

fun final_kind :: "json \<Rightarrow> string option" where
  "final_kind (JStr k) = dget final_kinds k"
| "final_kind _ = None"

text \<open>\<open>on_run_msg\<close> of the list.  A failing update is suppressed, a failing row is not.\<close>

definition list_msg :: "fmt \<Rightarrow> 't table_ops \<Rightarrow> params \<Rightarrow> 't \<Rightarrow> 't res" where
  "list_msg F T payload t =
     (let kind = dget_or payload ''kind'' (JStr []); run_id = dget_or payload ''run_id'' (JStr [])
      in if kind = JStr ''run_started'' \<or> kind = JStr ''plan_started'' then
           add_run F T (JObj [(''run_id'', run_id), (''kind'', dget_or payload ''entry_kind'' (JStr ''run'')),
             (''status'', JStr ''running''), (''brain'', dget_or payload ''brain'' (JStr ''?'')),
             (''task'', dget_or payload ''task'' (JStr []))]) t
         else case final_kind kind of
                None \<Rightarrow> Inr t
              | Some status \<Rightarrow>
                  (let style = dget_or status_style status [];
                       cell = JStr (if style \<noteq> [] then in_style style status else status)
                   in case run_id of
                        JStr i \<Rightarrow> (case to_update T i ''status'' cell t of Inl e \<Rightarrow> Inr t | Inr t' \<Rightarrow> Inr t')
                      | _ \<Rightarrow> Inr t))"

section \<open>The run detail\<close>

text \<open>\<open>de_fetches\<close> are the requests under way, each for the run that was selected when it was sent.\<close>

record detail =
  de_run :: "string option"
  de_header :: string
  de_timeline :: "string list"
  de_fetches :: "string list"

definition new_detail :: detail where
  "new_detail = \<lparr>de_run = None, de_header = ''No run selected'', de_timeline = [], de_fetches = []\<rparr>"

text \<open>\<open>_ts\<close>; \<open>clock\<close> is the local time of a time stamp, as text.\<close>

definition shown_time :: "(json \<Rightarrow> string res) \<Rightarrow> json \<Rightarrow> string res" where
  "shown_time clock ts = (if \<not> truthy ts then Inr ''??:??:??'' else clock ts)"

definition time_line :: "fmt \<Rightarrow> (json \<Rightarrow> string res) \<Rightarrow> json \<Rightarrow> json \<Rightarrow> string res" where
  "time_line F clock ts kind =
     rbind (shown_time clock ts) (\<lambda>t. Inr (in_style ''dim'' t @ ''  '' @ show_str F kind))"

definition load_run :: "string \<Rightarrow> detail \<Rightarrow> detail" where
  "load_run i v = v\<lparr>de_run := Some i, de_fetches := de_fetches v @ [i]\<rparr>"

definition run_header :: "fmt \<Rightarrow> json \<Rightarrow> string res" where
  "run_header F run =
     rbind (rbind (get_json run ''run_id'' (JStr [])) (slice_json 8)) (\<lambda>i.
     rbind (get_json run ''task'' (JStr [])) (\<lambda>task.
     rbind (get_json run ''brain'' (JStr ''?'')) (\<lambda>brain.
     rbind (get_json run ''status'' (JStr ''?'')) (\<lambda>status.
     Inr (in_style ''bold'' (show_str F i) @ ''  '' @ in_style ''italic'' (show_str F task) @ [chr_nl] @
          ''brain='' @ in_style ''cyan'' (show_str F brain) @ ''  status='' @ in_style ''yellow'' (show_str F status))))))"

fun event_times :: "fmt \<Rightarrow> (json \<Rightarrow> string res) \<Rightarrow> json list \<Rightarrow> string list" where
  "event_times F clock [] = []"
| "event_times F clock (e # es) =
     (case rbind (get_json e ''ts'' JNull) (\<lambda>ts. rbind (get_json e ''kind'' (JStr ''?'')) (time_line F clock ts)) of
        Inl _ \<Rightarrow> []
      | Inr l \<Rightarrow> l # event_times F clock es)"

text \<open>
  \<open>_fetch\<close>, when the answer \<open>r\<close> for run \<open>i\<close> is there: an error is dropped, and so is an answer for
  a run that is no longer selected; an exception in what follows ends the task only.
\<close>

definition show_run :: "fmt \<Rightarrow> (json \<Rightarrow> string res) \<Rightarrow> json \<Rightarrow> detail \<Rightarrow> detail" where
  "show_run F clock run v = (case run_header F run of
      Inl e \<Rightarrow> v
    | Inr h \<Rightarrow>
        v\<lparr>de_header := h,
          de_timeline := (case rbind (get_json run ''events'' (JList [])) iter_json of
             Inl e \<Rightarrow> [] | Inr es \<Rightarrow> event_times F clock es)\<rparr>)"

definition fetched ::
  "fmt \<Rightarrow> (json \<Rightarrow> string res) \<Rightarrow> string \<Rightarrow> client_error + params \<Rightarrow> detail \<Rightarrow> detail" where
  "fetched F clock i r v =
     (let v1 = v\<lparr>de_fetches := remove1 i (de_fetches v)\<rparr>
      in case r of
           Inl e \<Rightarrow> v1
         | Inr d \<Rightarrow> if de_run v1 \<noteq> Some i then v1 else show_run F clock (dget_or d ''run'' (JObj [])) v1)"

definition detail_msg :: "fmt \<Rightarrow> (json \<Rightarrow> string res) \<Rightarrow> params \<Rightarrow> detail \<Rightarrow> detail res" where
  "detail_msg F clock payload v =
     (if dget_or payload ''run_id'' JNull \<noteq> opt_str (de_run v) then Inr v
      else rbind (time_line F clock (dget_or payload ''ts'' JNull) (dget_or payload ''kind'' (JStr ''?''))) (\<lambda>l.
           Inr (v\<lparr>de_timeline := de_timeline v @ [l]\<rparr>)))"

section \<open>The other panes\<close>

definition hypr_line :: "fmt \<Rightarrow> params \<Rightarrow> string res" where
  "hypr_line F payload =
     rbind (fmt_s 20 (dget_or payload ''kind'' (dget_or payload ''event'' (JStr ''?'')))) (\<lambda>kind.
     Inr (in_style ''dim'' kind @ '' '' @ show_str F (dget_or payload ''data'' (JStr []))))"

definition level_style :: "string dict" where
  "level_style =
     [(''DEBUG'', ''dim''), (''INFO'', ''green''), (''WARNING'', ''yellow''), (''ERROR'', ''red bold''),
      (''CRITICAL'', ''red bold underline'')]"

definition log_line :: "fmt \<Rightarrow> params \<Rightarrow> string res" where
  "log_line F payload =
     (let level = dget_or payload ''level'' (JStr ''INFO'')
      in rbind (style_get level_style level) (\<lambda>style. rbind (fmt_s 8 level) (\<lambda>l.
         Inr (in_style style l @ '' '' @ in_style ''dim'' (show_str F (dget_or payload ''name'' (JStr ''?''))) @ '' '' @
              show_str F (dget_or payload ''msg'' (JStr []))))))"

fun len_json :: "json \<Rightarrow> nat res" where
  "len_json (JList vs) = Inr (length vs)"
| "len_json (JStr s) = Inr (length s)"
| "len_json (JObj d) = Inr (length d)"
| "len_json _ = Inl (TypeError ''object has no len()'')"

definition u_bar :: string where "u_bar = [CHR 0xE2, CHR 0x94, CHR 0x82]"

definition two_digits :: "int \<Rightarrow> string" where
  "two_digits n = (if 0 \<le> n \<and> n < 10 then ''0'' @ int_str n else int_str n)"

definition uptime_text :: "real \<Rightarrow> string" where
  "uptime_text up =
     (let mins = \<lfloor>up / 60\<rfloor> in int_str mins @ ''m'' @ two_digits \<lfloor>up - 60 * of_int mins\<rfloor> @ ''s'')"

text \<open>\<open>_refresh\<close> of the status bar, from the answer of the daemon.\<close>

definition status_text :: "fmt \<Rightarrow> (string \<Rightarrow> real option) \<Rightarrow> client_error + params \<Rightarrow> string" where
  "status_text F flt r = (case r of
      Inl e \<Rightarrow> in_style ''red'' ''Status unavailable''
    | Inr d \<Rightarrow>
        (case rbind (py_float flt (dget_or d ''uptime_s'' (JInt 0))) (\<lambda>up.
              rbind (len_json (dget_or d ''active_runs'' (JList []))) (\<lambda>active. Inr (up, active))) of
           Inl e \<Rightarrow> in_style ''red'' ''Status unavailable''
         | Inr (up, active) \<Rightarrow>
             ''v'' @ show_str F (dget_or d ''version'' (JStr ''?'')) @ '' '' @ u_bar @ '' Up '' @ uptime_text up @ '' '' @
             u_bar @ '' Active: '' @ nat_str active @ '' '' @ u_bar @ '' Rules: '' @
             show_str F (dget_or d ''rules_count'' (JInt 0)) @ ''  '' @
             in_style ''dim'' ''Ctrl+R new  Ctrl+K stop  Ctrl+L reload  Ctrl+Q quit''))"

text \<open>A list of proposals; every key but the rule text is shown.\<close>

definition proposal_text :: "fmt \<Rightarrow> json \<Rightarrow> string res" where
  "proposal_text F item = (case item of
      JObj d \<Rightarrow> Inr (join ''  '' (map (\<lambda>(k, v). k @ '': '' @ show_str F v) (filter (\<lambda>kv. fst kv \<noteq> ''yaml'') d)))
    | _ \<Rightarrow> Inl (AttributeError ''items''))"

text \<open>What is mounted, and the exception that ended it, if any.\<close>

fun proposal_texts :: "fmt \<Rightarrow> json list \<Rightarrow> string list \<times> py_exc option" where
  "proposal_texts F [] = ([], None)"
| "proposal_texts F (i # is) = (case proposal_text F i of
      Inl e \<Rightarrow> ([], Some e)
    | Inr l \<Rightarrow> (let (ls, e) = proposal_texts F is in (l # ls, e)))"

definition show_items :: "fmt \<Rightarrow> json \<Rightarrow> string list \<times> py_exc option" where
  "show_items F items =
     (if \<not> truthy items then ([in_style ''dim'' ''No proposals.''], None)
      else case iter_json items of Inl e \<Rightarrow> ([], Some e) | Inr is \<Rightarrow> proposal_texts F is)"

section \<open>The dialogue for a new run\<close>

text \<open>\<open>_brain_options\<close>; \<open>cfg\<close> is what loading the configuration gave.\<close>

definition brain_options :: "agent_config res \<Rightarrow> (string \<times> string) list res" where
  "brain_options cfg =
     (let ps = (case cfg of Inl e \<Rightarrow> known_providers | Inr c \<Rightarrow> selectable_providers c)
      in rbind (rmap (\<lambda>p. rbind (dindex provider_labels p) (\<lambda>l. Inr (l, p))) ps) (\<lambda>os. Inr ((''Auto'', ''auto'') # os)))"

definition error_text :: "string \<Rightarrow> client_error \<Rightarrow> string" where
  "error_text socket e = (case e of
      Daemon_unavailable \<Rightarrow> unavailable_text socket
    | Rpc_error c m \<Rightarrow> ''['' @ c @ ''] '' @ m
    | Protocol_mismatch m \<Rightarrow> m
    | Frame_error x \<Rightarrow> exc_str x)"

datatype button = Plan_btn | Run_btn | Cancel_btn

text \<open>
  What pressing a button leads to: the dialogue is left with a result, waits for an answer, stays
  with a message, or stays with the input focused.  \<open>chosen\<close> is the selected brain, none when blank.
\<close>

datatype modal_end = Dismissed json | Waits | Notified string | Focused

definition button_pressed ::
  "'d api \<Rightarrow> string \<Rightarrow> bool \<Rightarrow> button \<Rightarrow> string \<Rightarrow> string option \<Rightarrow> 'd \<Rightarrow> modal_end \<times> 'd" where
  "button_pressed rq socket online b input chosen d =
     (let task = strip input; brain = (case chosen of None \<Rightarrow> ''auto'' | Some x \<Rightarrow> x) in
      if b = Cancel_btn then (Dismissed JNull, d)
      else if task = [] then (Focused, d)
      else if \<not> online then (Notified ''Daemon not connected'', d)
      else case rq (if b = Plan_btn then M_plan_task else M_run_task) [(''task'', JStr task), (''brain'', JStr brain)] d of
             (None, d') \<Rightarrow> (Waits, d')
           | (Some (Inl e), d') \<Rightarrow> (Notified (error_text socket e), d')
           | (Some (Inr r), d') \<Rightarrow> (Dismissed (dget_or r ''run_id'' JNull), d'))"

section \<open>The application\<close>

datatype pane = Run_list | Run_detail | Events_pane | Log_pane

datatype severity = Information | Warning | Error

record 't tui =
  ui_socket :: string
  ui_conn :: bool
  ui_error :: "string option"
  ui_runs :: 't
  ui_detail :: detail
  ui_events :: "string list"
  ui_logs :: "string list"
  ui_skills :: "string list"
  ui_rules :: "string list"
  ui_allowlist :: "string list"
  ui_notes :: "(string \<times> severity) list"

definition new_tui :: "string \<Rightarrow> 't \<Rightarrow> 't tui" where
  "new_tui socket t =
     \<lparr>ui_socket = socket, ui_conn = False, ui_error = None, ui_runs = t, ui_detail = new_detail,
      ui_events = [], ui_logs = [], ui_skills = [], ui_rules = [], ui_allowlist = [], ui_notes = []\<rparr>"

definition notify :: "string \<Rightarrow> severity \<Rightarrow> 't tui \<Rightarrow> 't tui" where
  "notify m s u = u\<lparr>ui_notes := ui_notes u @ [(m, s)]\<rparr>"

definition error_screen :: "string \<Rightarrow> string" where
  "error_screen socket = ''[bold red]Daemon not running[/bold red]'' @ [chr_nl, chr_nl] @ ''Start with:'' @ [chr_nl] @
     ''  [italic]systemctl --user start hyprland-agent[/italic]'' @ [chr_nl, chr_nl] @
     ''Socket: [dim]'' @ socket @ ''[/dim]''"

text \<open>
  \<open>on_mount\<close>: an absent daemon shows the error screen, other errors of the connection are not
  caught; the runs are listed after the subscription has been sent.
\<close>

definition on_mount ::
  "fmt \<Rightarrow> 't table_ops \<Rightarrow> 'd api \<Rightarrow> client_error option \<Rightarrow> 't tui \<Rightarrow> 'd \<Rightarrow> client_error + ('t tui \<times> 'd)" where
  "on_mount F T rq failed u d = (case failed of
      Some Daemon_unavailable \<Rightarrow> Inr (u\<lparr>ui_error := Some (error_screen (ui_socket u))\<rparr>, d)
    | Some e \<Rightarrow> Inl e
    | None \<Rightarrow>
        (let (t, d') = refresh_runs F T rq (ui_runs u) d in Inr (u\<lparr>ui_conn := True, ui_runs := t\<rparr>, d')))"

text \<open>\<open>_event_dispatcher\<close>: the messages posted for an event, and what the panes do with theirs.\<close>

fun fan_out :: "topic \<times> params \<Rightarrow> (pane \<times> params) list" where
  "fan_out (T_runs, p) = [(Run_list, p), (Run_detail, p)]"
| "fan_out (T_hypr_events, p) = [(Events_pane, p)]"
| "fan_out (T_logs, p) = [(Log_pane, p)]"
| "fan_out (T_voice, p) = []"

definition pane_msg ::
  "fmt \<Rightarrow> (json \<Rightarrow> string res) \<Rightarrow> 't table_ops \<Rightarrow> pane \<times> params \<Rightarrow> 't tui \<Rightarrow> 't tui res" where
  "pane_msg F clock T m u = (case m of
      (Run_list, p) \<Rightarrow> rbind (list_msg F T p (ui_runs u)) (\<lambda>t. Inr (u\<lparr>ui_runs := t\<rparr>))
    | (Run_detail, p) \<Rightarrow> rbind (detail_msg F clock p (ui_detail u)) (\<lambda>v. Inr (u\<lparr>ui_detail := v\<rparr>))
    | (Events_pane, p) \<Rightarrow> rbind (hypr_line F p) (\<lambda>l. Inr (u\<lparr>ui_events := ui_events u @ [l]\<rparr>))
    | (Log_pane, p) \<Rightarrow> rbind (log_line F p) (\<lambda>l. Inr (u\<lparr>ui_logs := ui_logs u @ [l]\<rparr>)))"

text \<open>A row of the list is highlighted; a key that is empty selects nothing.\<close>

definition row_highlighted :: "string option \<Rightarrow> 't tui \<Rightarrow> 't tui" where
  "row_highlighted key u = (case key of
      None \<Rightarrow> u
    | Some i \<Rightarrow> if i \<noteq> [] \<and> ui_conn u then u\<lparr>ui_detail := load_run i (ui_detail u)\<rparr> else u)"

definition action_killswitch :: "'d api \<Rightarrow> 't tui \<Rightarrow> 'd \<Rightarrow> 't tui \<times> 'd" where
  "action_killswitch rq u d =
     (if \<not> ui_conn u then (u, d)
      else case rq M_arm_killswitch [] d of
             (None, d') \<Rightarrow> (u, d')
           | (Some (Inr r), d') \<Rightarrow> (notify (''Kill switch armed '' @ u_dash @ '' active runs stopping'') Warning u, d')
           | (Some (Inl e), d') \<Rightarrow> (notify (error_text (ui_socket u) e) Error u, d'))"

definition action_reload_rules :: "fmt \<Rightarrow> 'd api \<Rightarrow> 't tui \<Rightarrow> 'd \<Rightarrow> 't tui \<times> 'd" where
  "action_reload_rules F rq u d =
     (if \<not> ui_conn u then (u, d)
      else case rq M_reload_rules [] d of
             (None, d') \<Rightarrow> (u, d')
           | (Some (Inr r), d') \<Rightarrow>
               (notify (''Reloaded '' @ show_str F (dget_or r ''rules_count'' (JInt 0)) @ '' rule(s)'') Information u, d')
           | (Some (Inl e), d') \<Rightarrow> (notify (error_text (ui_socket u) e) Error u, d'))"

definition action_new_run :: "'t tui \<Rightarrow> bool \<times> 't tui" where
  "action_new_run u =
     (if \<not> ui_conn u then (False, notify ''Daemon not connected'' Error u) else (True, u))"

text \<open>The result the dialogue was left with; a run id is a string.\<close>

fun on_dismiss :: "json \<Rightarrow> 't tui \<Rightarrow> 't tui" where
  "on_dismiss (JStr i) u = (if i \<noteq> [] then notify (''Started run '' @ take 8 i) Information u else u)"
| "on_dismiss v u = u"

text \<open>
  \<open>action_learning_inbox\<close>: the three lists are requested one after the other, then shown; the
  first error ends it, with what was shown before it.
\<close>

definition learning_items :: "'d api \<Rightarrow> string \<Rightarrow> 'd \<Rightarrow> (client_error + json) option \<times> 'd" where
  "learning_items rq kind d = (case rq M_learning_list [(''kind'', JStr kind)] d of
      (None, d') \<Rightarrow> (None, d')
    | (Some (Inl e), d') \<Rightarrow> (Some (Inl e), d')
    | (Some (Inr r), d') \<Rightarrow> (Some (Inr (dget_or r ''items'' (JList []))), d'))"

definition show_inbox :: "fmt \<Rightarrow> json \<Rightarrow> json \<Rightarrow> json \<Rightarrow> 't tui \<Rightarrow> 't tui" where
  "show_inbox F skills rules allowlist u =
     (let (ls, e1) = show_items F skills; (lr, e2) = show_items F rules; (la, e3) = show_items F allowlist;
          u1 = u\<lparr>ui_skills := ls\<rparr>; u2 = u1\<lparr>ui_rules := lr\<rparr>; u3 = u2\<lparr>ui_allowlist := la\<rparr>
      in case e1 of Some e \<Rightarrow> notify (exc_str e) Error u1
       | None \<Rightarrow> (case e2 of Some e \<Rightarrow> notify (exc_str e) Error u2
       | None \<Rightarrow> (case e3 of Some e \<Rightarrow> notify (exc_str e) Error u3
       | None \<Rightarrow>
           (case rbind (len_json skills) (\<lambda>a. rbind (len_json rules) (\<lambda>b. rbind (len_json allowlist) (\<lambda>c. Inr (a, b, c)))) of
              Inl e \<Rightarrow> notify (exc_str e) Error u3
            | Inr (a, b, c) \<Rightarrow>
                notify (''Loaded: '' @ nat_str a @ '' skills, '' @ nat_str b @ '' rules, '' @ nat_str c @ '' allowlist'')
                  Information u3))))"

definition action_learning_inbox :: "fmt \<Rightarrow> 'd api \<Rightarrow> 't tui \<Rightarrow> 'd \<Rightarrow> 't tui \<times> 'd" where
  "action_learning_inbox F rq u d =
     (if \<not> ui_conn u then (notify ''Daemon not connected'' Error u, d)
      else case learning_items rq ''skill'' d of
             (None, d1) \<Rightarrow> (u, d1)
           | (Some (Inl e), d1) \<Rightarrow> (notify (error_text (ui_socket u) e) Error u, d1)
           | (Some (Inr skills), d1) \<Rightarrow> (case learning_items rq ''rule'' d1 of
               (None, d2) \<Rightarrow> (u, d2)
             | (Some (Inl e), d2) \<Rightarrow> (notify (error_text (ui_socket u) e) Error u, d2)
             | (Some (Inr rules), d2) \<Rightarrow> (case learning_items rq ''allowlist'' d2 of
                 (None, d3) \<Rightarrow> (u, d3)
               | (Some (Inl e), d3) \<Rightarrow> (notify (error_text (ui_socket u) e) Error u, d3)
               | (Some (Inr allowlist), d3) \<Rightarrow> (show_inbox F skills rules allowlist u, d3))))"

section \<open>Lemmas\<close>

text \<open>The cells of a run, and what a table has to show of the runs of an executor.\<close>

definition status_cell :: "run_status \<Rightarrow> string" where
  "status_cell st = in_style (dget_or status_style (rs_value st) []) (rs_value st)"

definition run_cells :: "string \<Rightarrow> run_kind \<Rightarrow> run_status \<Rightarrow> string \<Rightarrow> string \<Rightarrow> json list" where
  "run_cells i kind st brain task =
     [JStr (take 8 i), JStr (rk_value kind), JStr (status_cell st), JStr brain, JStr (take 60 task)]"

definition row_shows :: "executor \<Rightarrow> string \<Rightarrow> json list \<Rightarrow> bool" where
  "row_shows x k cells \<longleftrightarrow> length cells = length columns \<and>
     (\<exists>st. row_status x k = Some (rs_value st) \<and> cells ! 2 = JStr (status_cell st))"

definition table_shows :: "'t table_ops \<Rightarrow> 't \<Rightarrow> executor \<Rightarrow> bool" where
  "table_shows T t x \<longleftrightarrow> (\<forall>(k, cells)\<in>set (to_rows T t). row_shows x k cells)"

lemma row_shows_cong: "row_status x' k = row_status x k \<Longrightarrow> row_shows x k cells \<Longrightarrow> row_shows x' k cells"
  by (simp add: row_shows_def)

lemma shown_keys: "table_shows T t x \<Longrightarrow> row_status x i = None \<Longrightarrow> i \<notin> set (keys_of T t)"
  by (auto simp: table_shows_def row_shows_def keys_of_def)

lemma run_cells_show: "row_status x i = Some (rs_value st) \<Longrightarrow> row_shows x i (run_cells i kind st brain task)"
  by (auto simp: row_shows_def run_cells_def columns_def)

lemma style_known: "dget_or status_style (rs_value st) [] \<noteq> []"
  by (cases st) (simp_all add: status_style_def)

lemma add_run_row:
  "add_run F T (JObj [(''run_id'', JStr i), (''kind'', JStr (rk_value kind)), (''status'', JStr (rs_value st)),
     (''brain'', JStr brain), (''task'', JStr task)]) t = to_add T i (run_cells i kind st brain task) t"
  by (simp add: add_run_def style_known run_cells_def status_cell_def show_str_def)

lemma add_run_dump:
  "add_run F T (JObj (summary_dump r)) t =
     to_add T (rn_id r) (run_cells (rn_id r) (rn_kind r) (rn_status r) (rn_brain r) (rn_task r)) t"
  by (simp add: add_run_def style_known run_cells_def status_cell_def show_str_def summary_dump_def)

lemma laws_add:
  "table_laws T \<Longrightarrow> k \<notin> set (keys_of T t) \<Longrightarrow>
     \<exists>t'. to_add T k cells t = Inr t' \<and> to_rows T t' = to_rows T t @ [(k, cells)]"
  "table_laws T \<Longrightarrow> k \<in> set (keys_of T t) \<Longrightarrow> \<exists>e. to_add T k cells t = Inl e"
  "table_laws T \<Longrightarrow> to_rows T (to_clear T t) = []"
  unfolding table_laws_def by (metis+)

lemma laws_update:
  assumes "table_laws T"
  shows "k \<in> set (keys_of T t) \<Longrightarrow>
      \<exists>t'. to_update T k ''status'' v t = Inr t' \<and> to_rows T t' = put_cell k 2 v (to_rows T t)"
    and "k \<notin> set (keys_of T t) \<Longrightarrow> \<exists>e. to_update T k ''status'' v t = Inl e"
proof -
  have c: "columns ! 2 = ''status''" "2 < length columns" by (simp_all add: columns_def)
  have "\<forall>n<length columns. if k \<in> set (keys_of T t)
      then \<exists>t'. to_update T k (columns ! n) v t = Inr t' \<and> to_rows T t' = put_cell k n v (to_rows T t)
      else \<exists>e. to_update T k (columns ! n) v t = Inl e"
    using assms unfolding table_laws_def by blast
  from this[rule_format, OF c(2)] show
    "k \<in> set (keys_of T t) \<Longrightarrow>
      \<exists>t'. to_update T k ''status'' v t = Inr t' \<and> to_rows T t' = put_cell k 2 v (to_rows T t)"
    "k \<notin> set (keys_of T t) \<Longrightarrow> \<exists>e. to_update T k ''status'' v t = Inl e"
    by (simp_all add: c)
qed

text \<open>Distinct runs are all added, in their order.\<close>

lemma add_runs_rows:
  assumes "table_laws T"
  shows "distinct (keys_of T t @ map rn_id rs) \<Longrightarrow>
    to_rows T (add_runs F T (map (\<lambda>r. JObj (summary_dump r)) rs) t) =
      to_rows T t @ map (\<lambda>r. (rn_id r, run_cells (rn_id r) (rn_kind r) (rn_status r) (rn_brain r) (rn_task r))) rs"
proof (induction rs arbitrary: t)
  case (Cons r rs)
  then have "rn_id r \<notin> set (keys_of T t)" by simp
  then obtain t' where t': "to_add T (rn_id r) (run_cells (rn_id r) (rn_kind r) (rn_status r) (rn_brain r) (rn_task r)) t = Inr t'"
    "to_rows T t' = to_rows T t @ [(rn_id r, run_cells (rn_id r) (rn_kind r) (rn_status r) (rn_brain r) (rn_task r))]"
    using laws_add(1)[OF assms] by blast
  have "distinct (keys_of T t' @ map rn_id rs)" using Cons.prems t'(2) by (simp add: keys_of_def)
  from Cons.IH[OF this] show ?case by (simp add: add_run_dump t')
qed simp

section \<open>The run list beside the executor\<close>

text \<open>The steps of the executor again, with the messages each publishes on the run topic.\<close>

definition run_message :: "string \<Rightarrow> string \<Rightarrow> params \<Rightarrow> params" where
  "run_message i kind payload = dict_merge [(''run_id'', JStr i), (''kind'', JStr kind)] payload"

definition started_payload :: "run_kind \<Rightarrow> string \<Rightarrow> string \<Rightarrow> params" where
  "started_payload kind task brain =
     [(''entry_kind'', JStr (rk_value kind)), (''task'', JStr task), (''brain'', JStr brain)]"

definition finish_messages :: "string \<Rightarrow> run_kind \<Rightarrow> string \<Rightarrow> unit res \<Rightarrow> params list" where
  "finish_messages i kind task r =
     (let (status, err, what, payload) = settle kind r
      in [run_message i (rk_value kind @ ''_'' @ what) payload,
          run_message i ''run_finished'' [(''task'', JStr task),
            (''outcome'', JStr (fst (derive_from_status status))), (''status'', JStr (rs_value status))]])"

text \<open>The kinds that start or end a run belong to the executor; the orchestrator's are others.\<close>

definition lifecycle :: "params \<Rightarrow> bool" where
  "lifecycle m \<longleftrightarrow> dget_or m ''kind'' (JStr []) \<in> {JStr ''run_started'', JStr ''plan_started''} \<or>
     final_kind (dget_or m ''kind'' (JStr [])) \<noteq> None"

inductive exec_event :: "executor \<Rightarrow> params list \<Rightarrow> executor \<Rightarrow> bool" where
  ev_submitted: "submit kind task brain i now (Inr b) x = (Inr i, x') \<Longrightarrow>
     exec_event x [run_message i (rk_value kind @ ''_started'') (started_payload kind task brain)] x'"
| ev_emitted: "i \<in> set (active_run_ids x) \<Longrightarrow> emit now i kind payload x = (Inr (), x') \<Longrightarrow>
     \<not> lifecycle (run_message i kind payload) \<Longrightarrow> exec_event x [run_message i kind payload] x'"
| ev_cancelled: "exec_event x [] (snd (cancel i x))"
| ev_finished: "i \<in> set (active_run_ids x) \<Longrightarrow>
     exec_event x (finish_messages i kind task r) (finish start now i kind task r x)"

inductive_cases exec_event_cases: "exec_event x ms x'"

lemma event_published:
  "exec_event x ms x' \<Longrightarrow> exec_step x x' \<and> ex_bus x' = foldl (\<lambda>b m. publish b T_runs m) (ex_bus x) ms"
proof (erule exec_event.cases)
  fix kind task brain i now b y y'
  assume a: "x = y" "ms = [run_message i (rk_value kind @ ''_started'') (started_payload kind task brain)]" "x' = y'"
    and s: "submit kind task brain i now (Inr b) y = (Inr i, y')"
  from s have "ex_bus y' = publish (ex_bus y) T_runs (run_message i (rk_value kind @ ''_started'') (started_payload kind task brain))"
    by (auto simp: submit_def Let_def run_message_def started_payload_def split: sum.splits)
  with a exec_step.submitted[OF s] show ?thesis by simp
next
  fix i y now kind payload y'
  assume a: "x = y" "ms = [run_message i kind payload]" "x' = y'" "i \<in> set (active_run_ids y)"
    and e: "emit now i kind payload y = (Inr (), y')"
  from e have "ex_bus y' = publish (ex_bus y) T_runs (run_message i kind payload)"
    by (auto simp: emit_def Let_def run_message_def split: sum.splits)
  with a exec_step.emitted[OF a(4) e] show ?thesis by simp
next
  fix y i
  assume "x = y" "ms = []" "x' = snd (cancel i y)"
  moreover have "ex_bus (snd (cancel i y)) = ex_bus y" by (simp add: cancel_def split: option.splits)
  ultimately show ?thesis using exec_step.cancelled[of y i] by simp
next
  fix i y kind task r start now
  assume a: "x = y" "ms = finish_messages i kind task r" "x' = finish start now i kind task r y"
    "i \<in> set (active_run_ids y)"
  obtain status err what payload where st: "settle kind r = (status, err, what, payload)" by (cases "settle kind r")
  have "ex_bus (finish start now i kind task r y) =
      foldl (\<lambda>b m. publish b T_runs m) (ex_bus y) (finish_messages i kind task r)"
    by (simp add: finish_def finish_messages_def st run_message_def Let_def split: prod.splits)
  with a exec_step.finished[OF a(4)] show ?thesis by simp
qed

text \<open>What the list does with each.\<close>

lemma started_row:
  "list_msg F T (run_message i (rk_value kind @ ''_started'') (started_payload kind task brain)) t =
     to_add T i (run_cells i kind Running brain task) t"
proof -
  have m: "run_message i (rk_value kind @ ''_started'') (started_payload kind task brain) =
      [(''run_id'', JStr i), (''kind'', JStr (rk_value kind @ ''_started'')), (''entry_kind'', JStr (rk_value kind)),
       (''task'', JStr task), (''brain'', JStr brain)]"
    by (simp add: run_message_def started_payload_def dict_merge_def)
  have g: "dget_or (run_message i (rk_value kind @ ''_started'') (started_payload kind task brain)) k v =
      (if k = ''run_id'' then JStr i else if k = ''kind'' then JStr (rk_value kind @ ''_started'')
       else dget_or (started_payload kind task brain) k v)" for k v
    unfolding m by (auto simp: started_payload_def)
  have k: "JStr (rk_value kind @ ''_started'') = JStr ''run_started'' \<or>
      JStr (rk_value kind @ ''_started'') = JStr ''plan_started''"
    by (cases kind) simp_all
  have "list_msg F T (run_message i (rk_value kind @ ''_started'') (started_payload kind task brain)) t =
      add_run F T (JObj [(''run_id'', JStr i), (''kind'', JStr (rk_value kind)), (''status'', JStr (rs_value Running)),
        (''brain'', JStr brain), (''task'', JStr task)]) t"
    unfolding list_msg_def Let_def g using k by (simp add: started_payload_def)
  then show ?thesis by (simp only: add_run_row)
qed

lemma finished_row:
  assumes "settle kind r = (status, err, what, payload)"
  shows "list_msg F T (run_message i (rk_value kind @ ''_'' @ what) payload) t =
    Inr (case to_update T i ''status'' (JStr (status_cell status)) t of Inl e \<Rightarrow> t | Inr t' \<Rightarrow> t')"
proof -
  have ends: "(status, what) \<in> {(Completed, ''completed''), (Aborted, ''aborted''), (Errored, ''errored'')} \<and>
      dget payload ''kind'' = None \<and> dget payload ''run_id'' = None \<and> distinct (map fst payload)"
    using assms by (auto simp: settle_def split: sum.splits py_exc.splits)
  have g: "dget_or (run_message i k payload) ''kind'' (JStr []) = JStr k"
    "dget_or (run_message i k payload) ''run_id'' (JStr []) = JStr i" for k
    using ends by (simp_all add: dget_or_def run_message_def map_of_dict_merge)
  obtain k where k: "rk_value kind @ ''_'' @ what = k" by blast
  have "dget final_kinds k = Some (rs_value status) \<and> k \<noteq> ''run_started'' \<and> k \<noteq> ''plan_started''"
    using ends unfolding k[symmetric] by (cases kind) (auto simp: final_kinds_def)
  then show ?thesis
    unfolding k by (simp add: list_msg_def g style_known status_cell_def split: sum.split)
qed

lemma other_row: "\<not> lifecycle m \<Longrightarrow> list_msg F T m t = Inr t"
  by (simp add: list_msg_def lifecycle_def Let_def)

lemma run_finished_row: "\<not> lifecycle (run_message i ''run_finished'' [(''task'', a), (''outcome'', b), (''status'', c)])"
  by (simp add: lifecycle_def run_message_def dict_merge_def final_kinds_def)

text \<open>The list as it follows the executor: every message is handled, in order.\<close>

definition follow :: "fmt \<Rightarrow> 't table_ops \<Rightarrow> params list \<Rightarrow> 't res \<Rightarrow> 't res" where
  "follow F T ms r = foldl (\<lambda>r m. rbind r (list_msg F T m)) r ms"

inductive watched :: "fmt \<Rightarrow> 't table_ops \<Rightarrow> executor \<Rightarrow> 't \<Rightarrow> executor \<Rightarrow> 't res \<Rightarrow> bool" for F T x0 t0 where
  watch_start: "watched F T x0 t0 x0 (Inr t0)"
| watch_step: "watched F T x0 t0 x r \<Longrightarrow> exec_event x ms x' \<Longrightarrow> watched F T x0 t0 x' (follow F T ms r)"

lemma row_status_steps:
  "submit kind task brain i now (Inr b) x = (Inr i, x') \<Longrightarrow>
     row_status x i = None \<and> row_status x' j = (if j = i then Some ''running'' else row_status x j)"
  "emit now i k payload x = (Inr (), x') \<Longrightarrow> row_status x' j = row_status x j"
  "row_status (snd (cancel i x)) j = row_status x j"
  "settle kind res = (status, err, what, p) \<Longrightarrow> row_status (finish start now i kind task res x) j =
     (if j = i then map_option (\<lambda>_. rs_value status) (row_status x i) else row_status x j)"
proof -
  assume s: "submit kind task brain i now (Inr b) x = (Inr i, x')"
  then obtain st where ins: "insert_run (new_run i kind task brain now) (ex_store x) = Inr st" and x': "ex_store x' = st"
    by (auto simp: submit_def Let_def split: sum.splits)
  obtain row where row: "rr_id row = i" "rr_status row = ''running''"
      "i \<notin> rr_id ` set (db_runs (st_db (ex_store x)))"
    and st: "st = upd_db (\<lambda>d. d\<lparr>db_runs := db_runs d @ [row]\<rparr>) (ex_store x)"
    using insert_run_parts[OF ins] by (auto simp: new_run_def)
  have "List.find (\<lambda>r. rr_id r = j) (rows @ [row]) =
      (if j = i then Some row else List.find (\<lambda>r. rr_id r = j) rows)" if "i \<notin> rr_id ` set rows" for rows
    using that row(1) by (induction rows) auto
  then show "row_status x i = None \<and> row_status x' j = (if j = i then Some ''running'' else row_status x j)"
    using row by (simp add: row_status_def x' st upd_db_def sql_find_def find_None_iff image_iff) metis
next
  assume "emit now i k payload x = (Inr (), x')"
  then obtain n s where a: "append_event i \<lparr>ev_seq = n, ev_ts = now, ev_kind = k, ev_payload = payload\<rparr> (ex_store x) = Inr s"
    and x': "ex_store x' = s"
    by (auto simp: emit_def Let_def split: sum.splits)
  show "row_status x' j = row_status x j"
    using append_event_parts[OF a] by (simp add: row_status_def x' lru_pop_def upd_db_def)
next
  show "row_status (snd (cancel i x)) j = row_status x j"
    by (simp add: cancel_def row_status_def split: option.splits)
next
  assume "settle kind res = (status, err, what, p)"
  from row_after_finish[OF this] show "row_status (finish start now i kind task res x) j =
      (if j = i then map_option (\<lambda>_. rs_value status) (row_status x i) else row_status x j)"
    by (simp add: row_status_def option.map_comp comp_def)
qed


definition new_runs :: "executor \<Rightarrow> executor \<Rightarrow> string set" where
  "new_runs x x' = {j. row_status x j = None \<and> row_status x' j \<noteq> None}"

lemma follow_step:
  assumes laws: "table_laws T" and shown: "table_shows T t x" and ev: "exec_event x ms x'"
  shows "\<exists>t'. follow F T ms (Inr t) = Inr t' \<and> table_shows T t' x' \<and>
     set (keys_of T t') = set (keys_of T t) \<union> new_runs x x'"
proof (rule exec_event_cases[OF ev])
  fix kind task brain i now b
  assume a: "ms = [run_message i (rk_value kind @ ''_started'') (started_payload kind task brain)]"
    "submit kind task brain i now (Inr b) x = (Inr i, x')"
  note rs = row_status_steps(1)[OF a(2)]
  have "i \<notin> set (keys_of T t)"
    using shown_keys[OF shown] conjunct1[OF rs] by blast
  then obtain t' where t': "to_add T i (run_cells i kind Running brain task) t = Inr t'"
    "to_rows T t' = to_rows T t @ [(i, run_cells i kind Running brain task)]"
    using laws_add(1)[OF laws] by blast
  have "row_shows x' i (run_cells i kind Running brain task)" using rs by (intro run_cells_show) simp
  moreover have "row_shows x' k cells" if "(k, cells) \<in> set (to_rows T t)" for k cells
  proof (rule row_shows_cong)
    have "k \<in> set (keys_of T t)" using that by (force simp: keys_of_def)
    then show "row_status x' k = row_status x k" using rs \<open>i \<notin> set (keys_of T t)\<close> by auto
    show "row_shows x k cells" using shown that by (auto simp: table_shows_def)
  qed
  ultimately have "table_shows T t' x'" unfolding table_shows_def t'(2) by auto
  moreover have "new_runs x x' = {i}" using rs by (auto simp: new_runs_def)
  ultimately show ?thesis
    using t' by (simp add: follow_def a(1) started_row keys_of_def)
next
  fix i now kind payload
  assume a: "ms = [run_message i kind payload]"
    "i \<in> set (active_run_ids x)"
    "emit now i kind payload x = (Inr (), x')"
    "\<not> lifecycle (run_message i kind payload)"
  have rs: "row_status x' = row_status x" using row_status_steps(2)[OF a(3)] by blast
  then have "table_shows T t x'" "new_runs x x' = {}" using shown by (auto simp: table_shows_def row_shows_def new_runs_def)
  then show ?thesis by (simp add: follow_def a(1) other_row[OF a(4)])
next
  fix i
  assume a: "ms = []"
    "x' = snd (cancel i x)"
  have rs: "row_status x' = row_status x" unfolding a(2) using row_status_steps(3) by blast
  then have "table_shows T t x'" "new_runs x x' = {}" using shown by (auto simp: table_shows_def row_shows_def new_runs_def)
  then show ?thesis by (simp add: follow_def a(1))
next
  fix i kind task r start now
  assume a: "ms = finish_messages i kind task r"
    "x' = finish start now i kind task r x"
    "i \<in> set (active_run_ids x)"
  obtain status err what p where st: "settle kind r = (status, err, what, p)" by (cases "settle kind r")
  have rs: "row_status x' j = (if j = i then map_option (\<lambda>_. rs_value status) (row_status x i) else row_status x j)" for j
    unfolding a(2) by (rule row_status_steps(4)[OF st])
  obtain t' where t'_def: "t' = (case to_update T i ''status'' (JStr (status_cell status)) t of Inl e \<Rightarrow> t | Inr t' \<Rightarrow> t')" by blast
  have f: "follow F T ms (Inr t) = Inr t'"
    by (simp add: follow_def a(1) finish_messages_def st finished_row[OF st, simplified] t'_def
        other_row[OF run_finished_row])
  have "set (keys_of T t') = set (keys_of T t) \<and> table_shows T t' x'"
  proof (cases "i \<in> set (keys_of T t)")
    case True
    from laws_update(1)[OF laws this, of "JStr (status_cell status)"]
    have rows: "to_rows T t' = put_cell i 2 (JStr (status_cell status)) (to_rows T t)"
      by (auto simp: t'_def)
    have "map fst (to_rows T t') = map fst (to_rows T t)" by (simp add: rows put_cell_def comp_def case_prod_beta)
    moreover have "row_shows x' k (if k = i then cells[2 := JStr (status_cell status)] else cells)"
      if "(k, cells) \<in> set (to_rows T t)" for k cells
    proof -
      have "row_shows x k cells" using shown that by (auto simp: table_shows_def)
      then show ?thesis by (auto simp: row_shows_def rs columns_def)
    qed
    then have "table_shows T t' x'" unfolding table_shows_def rows put_cell_def by auto
    ultimately show ?thesis by (simp add: keys_of_def)
  next
    case False
    from laws_update(2)[OF laws this, of "JStr (status_cell status)"] have "t' = t" by (auto simp: t'_def)
    moreover have "row_shows x' k cells" if "(k, cells) \<in> set (to_rows T t)" for k cells
    proof (rule row_shows_cong)
      have "k \<in> set (keys_of T t)" using that by (force simp: keys_of_def)
      then show "row_status x' k = row_status x k" using rs False by auto
      show "row_shows x k cells" using shown that by (auto simp: table_shows_def)
    qed
    then have "table_shows T t x'" unfolding table_shows_def by auto
    ultimately show ?thesis by simp
  qed
  moreover have "new_runs x x' = {}" by (auto simp: new_runs_def rs)
  ultimately show ?thesis using f by simp
qed

lemma watched_shows:
  assumes "table_laws T" and "table_shows T t0 x0" and "watched F T x0 t0 x r"
  shows "\<exists>t. r = Inr t \<and> table_shows T t x \<and> set (keys_of T t0) \<union> new_runs x0 x \<subseteq> set (keys_of T t)"
  using assms(3)
proof (induction rule: watched.induct)
  case watch_start
  have "new_runs x0 x0 = {}" by (auto simp: new_runs_def)
  then show ?case using assms(2) by simp
next
  case (watch_step x r ms x')
  then obtain t where t: "r = Inr t" "table_shows T t x" "set (keys_of T t0) \<union> new_runs x0 x \<subseteq> set (keys_of T t)"
    by blast
  from follow_step[OF assms(1) t(2) watch_step.hyps(2)] obtain t' where
    t': "follow F T ms (Inr t) = Inr t'" "table_shows T t' x'"
    "set (keys_of T t') = set (keys_of T t) \<union> new_runs x x'" by blast
  have "new_runs x0 x' \<subseteq> new_runs x0 x \<union> new_runs x x'" by (auto simp: new_runs_def)
  with t t' show ?case by blast
qed

text \<open>What a refresh leaves: the latest runs, oldest first, as they are in the store.\<close>

lemma listed_rows:
  "rmap row_to_summary rows = Inr rs \<Longrightarrow>
     map rn_id rs = map rr_id rows \<and> map (\<lambda>r. rs_value (rn_status r)) rs = map rr_status rows"
proof (induction rows arbitrary: rs)
  case (Cons row rows)
  from Cons.prems obtain r rs' where r: "row_to_summary row = Inr r" "rmap row_to_summary rows = Inr rs'" "rs = r # rs'"
    by auto
  from r(1) have "rn_id r = rr_id row" "rs_value (rn_status r) = rr_status row"
    by (auto simp: row_to_summary_def dest: run_status.lookup_sound)
  with Cons.IH[OF r(2)] r(3) show ?case by simp
qed simp

lemma listed_status:
  assumes "list_runs n (dm_store D) = Inr rs" and "distinct (map rr_id (db_runs (st_db (dm_store D))))"
  shows "distinct (map rn_id rs)"
    and "r \<in> set rs \<Longrightarrow> row_status (dm_exec D) (rn_id r) = Some (rs_value (rn_status r))"
proof -
  let ?all = "db_runs (st_db (dm_store D))"
  let ?rows = "sql_limit n (order_desc rr_started ?all)"
  have rs: "rmap row_to_summary ?rows = Inr rs" using assms(1) by (simp add: list_runs_def)
  have d: "distinct (map rr_id (order_desc rr_started ?all))"
    using assms(2) by (simp add: order_desc_def rev_map distinct_map)
  then have "distinct (map rr_id ?rows)" by (simp add: sql_limit_def take_map[symmetric] distinct_take)
  then show "distinct (map rn_id rs)" using listed_rows[OF rs] by simp
  have sub: "set ?rows \<subseteq> set ?all"
    by (auto simp: sql_limit_def order_desc_def dest: in_set_takeD)
  assume "r \<in> set rs"
  then obtain k where k: "k < length rs" "r = rs ! k" by (auto simp: in_set_conv_nth)
  have len: "length rs = length ?rows" using rmap_Inr_length[OF rs] .
  have "map rn_id rs ! k = map rr_id ?rows ! k"
    "map (\<lambda>r. rs_value (rn_status r)) rs ! k = map rr_status ?rows ! k"
    using listed_rows[OF rs] by simp_all
  then have row: "rr_id (?rows ! k) = rn_id r" "rr_status (?rows ! k) = rs_value (rn_status r)"
    using k len by simp_all
  have "?rows ! k \<in> set ?all" using sub k(1) len by (metis nth_mem subsetD)
  moreover have "x \<in> set rows \<Longrightarrow> distinct (map rr_id rows) \<Longrightarrow> List.find (\<lambda>r. rr_id r = rr_id x) rows = Some x"
    for x and rows :: "run_row list" by (induction rows) auto
  ultimately have "sql_find rr_id (rn_id r) ?all = Some (?rows ! k)"
    using assms(2) row(1) by (metis sql_find_def)
  then show "row_status (dm_exec D) (rn_id r) = Some (rs_value (rn_status r))"
    by (simp add: row_status_def dm_store_def[symmetric] row(2))
qed

lemma refreshed:
  assumes "table_laws T" and "list_runs 20 (dm_store D) = Inr rs"
    and "distinct (map rr_id (db_runs (st_db (dm_store D))))"
  shows "\<exists>t0. refresh_runs F T (daemon_api E q) t D = (t0, D) \<and> table_shows T t0 (dm_exec D) \<and>
     keys_of T t0 = rev (map rn_id rs)"
proof -
  let ?t0 = "add_runs F T (map (\<lambda>r. JObj (summary_dump r)) (rev rs)) (to_clear T t)"
  have r: "refresh_runs F T (daemon_api E q) t D = (?t0, D)"
    using list_runs_dispatch[OF assms(2), of E q] by (simp add: refresh_runs_def max_recent_def rev_map)
  have "distinct (keys_of T (to_clear T t) @ map rn_id (rev rs))"
    using listed_status(1)[OF assms(2,3)] by (simp add: keys_of_def laws_add(3)[OF assms(1)] rev_map[symmetric])
  from add_runs_rows[OF assms(1) this] have rows: "to_rows T ?t0 =
      map (\<lambda>r. (rn_id r, run_cells (rn_id r) (rn_kind r) (rn_status r) (rn_brain r) (rn_task r))) (rev rs)"
    by (simp add: laws_add(3)[OF assms(1)])
  have "table_shows T ?t0 (dm_exec D)"
    unfolding table_shows_def rows
    by (auto intro!: run_cells_show listed_status(2)[OF assms(2,3)])
  moreover have "keys_of T ?t0 = rev (map rn_id rs)" by (simp add: keys_of_def rows comp_def rev_map)
  ultimately show ?thesis using r by blast
qed

text \<open>A table that keeps the laws: the rows themselves.\<close>

definition list_table :: "(string \<times> json list) list table_ops" where
  "list_table = \<lparr>to_rows = (\<lambda>t. t), to_clear = (\<lambda>t. []),
     to_add = (\<lambda>k cells t. if k \<in> fst ` set t then Inl (OtherError ''DuplicateKey'') else Inr (t @ [(k, cells)])),
     to_update = (\<lambda>k c v t. if k \<in> fst ` set t \<and> c \<in> set columns
        then Inr (put_cell k (length (takeWhile (\<lambda>x. x \<noteq> c) columns)) v t)
        else Inl (OtherError ''CellDoesNotExist''))\<rparr>"

lemma list_table_laws: "table_laws list_table"
proof -
  have "columns ! n \<in> set columns \<and> length (takeWhile (\<lambda>x. x \<noteq> columns ! n) columns) = n"
    if "n < length columns" for n
    using that by (auto simp: columns_def less_Suc_eq)
  then show ?thesis by (auto simp: table_laws_def list_table_def keys_of_def)
qed

section \<open>The run detail beside the daemon\<close>

definition served :: "string \<Rightarrow> params \<Rightarrow> bool" where
  "served i d \<longleftrightarrow> (\<exists>E q D D'. coherent (dm_store D) \<and>
     daemon_api E q M_get_run [(''run_id'', JStr i)] D = (Some (Inr d), D'))"

definition header_of :: "run_record \<Rightarrow> string" where
  "header_of x = in_style ''bold'' (take 8 (rn_id x)) @ ''  '' @ in_style ''italic'' (rn_task x) @ [chr_nl] @
     ''brain='' @ in_style ''cyan'' (rn_brain x) @ ''  status='' @ in_style ''yellow'' (rs_value (rn_status x))"

definition timeline_of :: "fmt \<Rightarrow> (json \<Rightarrow> string res) \<Rightarrow> run_record \<Rightarrow> string list" where
  "timeline_of F clock x = event_times F clock (map (\<lambda>e. JObj (event_dump e)) (rn_events x))"

lemma read_run_id: "read_run d i = Inr (Some x) \<Longrightarrow> rn_id x = i"
  by (auto simp: read_run_def run_with_events_def row_to_summary_def sql_find_def find_Some_iff
      split: option.splits)

lemma get_run_id:
  assumes "coherent s" and "get_run i s = (Inr (Some x), s')"
  shows "rn_id x = i"
proof -
  have "read_run (st_db s) i = Inr (Some x)"
    using assms by (auto simp: get_run_def coherent_def dest!: map_of_SomeD split: option.splits sum.splits)
  then show ?thesis by (rule read_run_id)
qed

lemma served_run:
  assumes "served i d"
  shows "\<exists>x. rn_id x = i \<and> d = [(''run'', JObj (record_dump x))]"
proof -
  obtain E q D D' where c: "coherent (dm_store D)"
    and a: "daemon_api E q M_get_run [(''run_id'', JStr i)] D = (Some (Inr d), D')"
    using assms by (auto simp: served_def)
  have m: "map_of dispatch_table M_get_run = Some h_get_run" by (simp add: dispatch_table_def)
  obtain r s where g: "get_run i (dm_store D) = (r, s)" by fastforce
  have h: "r = Inr (Some x) \<Longrightarrow> rn_id x = i" for x
    using get_run_id[OF c] g by simp
  show ?thesis
    using a h g
    by (auto simp: daemon_api_def dispatch_def m h_get_run_def g given_def make_ok_response_def
        make_error_response_def answer_of_def split: option.splits sum.splits if_splits)
qed

lemma show_served:
  assumes "rn_id x = i" and "de_run v = Some i"
  shows "fetched F clock i (Inr [(''run'', JObj (record_dump x))]) v =
    v\<lparr>de_fetches := remove1 i (de_fetches v), de_header := header_of x, de_timeline := timeline_of F clock x\<rparr>"
proof -
  have "run_header F (JObj (record_dump x)) = Inr (header_of x)"
    by (simp add: run_header_def record_dump_def summary_dump_def header_of_def show_str_def)
  moreover have "get_json (JObj (record_dump x)) ''events'' (JList []) =
      Inr (JList (map (\<lambda>e. JObj (event_dump e)) (rn_events x)))"
    by (simp add: record_dump_def summary_dump_def)
  ultimately show ?thesis using assms by (simp add: fetched_def show_run_def timeline_of_def)
qed

text \<open>
  The pane in any order of selections, answers of the daemon and live events, when no request fails.
\<close>

inductive viewed :: "fmt \<Rightarrow> (json \<Rightarrow> string res) \<Rightarrow> detail \<Rightarrow> bool" for F clock where
  view_start: "viewed F clock new_detail"
| view_select: "viewed F clock v \<Longrightarrow> viewed F clock (load_run i v)"
| view_answer: "viewed F clock v \<Longrightarrow> i \<in> set (de_fetches v) \<Longrightarrow> served i d \<Longrightarrow>
     viewed F clock (fetched F clock i (Inr d) v)"
| view_message: "viewed F clock v \<Longrightarrow> detail_msg F clock p v = Inr v' \<Longrightarrow> viewed F clock v'"

lemma viewed_shows:
  assumes "viewed F clock v" and "de_run v = Some i"
  shows "i \<in> set (de_fetches v) \<or> (\<exists>x ls. rn_id x = i \<and> de_header v = header_of x \<and>
     de_timeline v = timeline_of F clock x @ ls)"
  using assms
proof (induction arbitrary: i rule: viewed.induct)
  case view_start
  then show ?case by (simp add: new_detail_def)
next
  case (view_select v j)
  then show ?case by (simp add: load_run_def)
next
  case (view_answer v j d)
  obtain x where x: "rn_id x = j" "d = [(''run'', JObj (record_dump x))]"
    using served_run[OF view_answer.hyps(3)] by blast
  show ?case
  proof (cases "de_run v = Some j")
    case True
    then show ?thesis using view_answer.prems x show_served[OF x(1) True] by auto
  next
    case False
    then have e: "fetched F clock j (Inr d) v = v\<lparr>de_fetches := remove1 j (de_fetches v)\<rparr>"
      by (simp add: fetched_def)
    have "j \<noteq> i" using view_answer.prems False by (auto simp: e)
    with view_answer.IH[of i] view_answer.prems show ?thesis by (auto simp: e)
  qed
next
  case (view_message v p v')
  have "de_run v' = de_run v" "de_fetches v' = de_fetches v" "de_header v' = de_header v"
    "\<exists>ls. de_timeline v' = de_timeline v @ ls"
    using view_message.hyps(2) by (auto simp: detail_msg_def split: if_splits)
  with view_message show ?case by fastforce
qed

section \<open>Properties\<close>


text \<open>
  The refresh and the messages race: when a run is in the answer of the refresh and its start
  message is handled after it, adding its row a second time fails, and nothing catches that.
\<close>

theorem listed_run_is_added_twice:
  assumes "table_laws T" and "list_runs 20 (dm_store D) = Inr rs"
    and "distinct (map rr_id (db_runs (st_db (dm_store D))))" and "y \<in> set rs"
  shows "\<exists>e. list_msg F T (run_message (rn_id y) (rk_value (rn_kind y) @ ''_started'')
       (started_payload (rn_kind y) (rn_task y) (rn_brain y)))
     (fst (refresh_runs F T (daemon_api E q) t D)) = Inl e"
proof -
  from refreshed[OF assms(1-3), of F E q t] obtain t0 where
    t0: "fst (refresh_runs F T (daemon_api E q) t D) = t0" "keys_of T t0 = rev (map rn_id rs)" by force
  have "rn_id y \<in> set (keys_of T t0)" using assms(4) by (simp add: t0(2))
  from laws_add(2)[OF assms(1) this] show ?thesis by (simp add: t0(1) started_row)
qed


text \<open>
  When the request for the selected run fails instead, the pane keeps the header and the timeline
  of the run that was shown before and adds the events of the selected one to them.
\<close>

theorem failed_load_mixes_runs:
  assumes "dget payload ''run_id'' = None" and "dget payload ''ts'' = None" and "distinct (map fst payload)"
    and "de_fetches v = []"
  shows "\<exists>l. detail_msg F clock (run_message i k payload) (fetched F clock i (Inl e) (load_run i v)) =
     Inr (v\<lparr>de_run := Some i, de_timeline := de_timeline v @ [l]\<rparr>)"
proof -
  have "dget_or (run_message i k payload) ''run_id'' JNull = JStr i"
    "dget_or (run_message i k payload) ''ts'' JNull = JNull"
    using assms(1-3) by (simp_all add: dget_or_def run_message_def map_of_dict_merge)
  then show ?thesis
    using assms(4) by (cases v) (simp add: detail_msg_def fetched_def load_run_def opt_str_def time_line_def shown_time_def)
qed

text \<open>
  The events the executor publishes carry no time, so a live line of the timeline never shows one;
  and it shows the kind of the payload when that has one.
\<close>

theorem live_lines_have_no_time:
  assumes "de_run v = Some i" and "dget payload ''run_id'' = None" and "dget payload ''ts'' = None"
    and "distinct (map fst payload)"
  shows "detail_msg F clock (run_message i k payload) v =
     Inr (v\<lparr>de_timeline := de_timeline v @
       [''[dim]??:??:??[/dim]  '' @ show_str F (dget_or payload ''kind'' (JStr k))]\<rparr>)"
proof -
  have "dget_or (run_message i k payload) ''run_id'' JNull = JStr i"
    "dget_or (run_message i k payload) ''ts'' JNull = JNull"
    "dget_or (run_message i k payload) ''kind'' (JStr ''?'') = dget_or payload ''kind'' (JStr k)"
    using assms(2-4) by (auto simp add: dget_or_def run_message_def map_of_dict_merge split: option.split)
  then show ?thesis
    using assms(1) by (simp add: detail_msg_def opt_str_def time_line_def shown_time_def in_style_def)
qed

text \<open>
  The dialogue starts what was asked for: with a task that is not blank, Run and Plan submit it
  without its outer blanks to the chosen brain, and the dialogue is left with the id of that run.
\<close>

theorem dialogue_starts_the_task:
  assumes "row_status (dm_exec D) (re_id E) = None" and "re_brain E b = Inr br" and "strip input \<noteq> []"
    and "btn \<noteq> Cancel_btn"
  shows "button_pressed (daemon_api E q) socket True btn input (Some b) D =
     (Dismissed (JStr (re_id E)), started E (if btn = Plan_btn then RK_plan else RK_run) (strip input) b D)"
proof -
  let ?m = "if btn = Plan_btn then M_plan_task else M_run_task"
  have "?m = M_run_task \<and> (if btn = Plan_btn then RK_plan else RK_run) = RK_run \<or>
      ?m = M_plan_task \<and> (if btn = Plan_btn then RK_plan else RK_run) = RK_plan" by simp
  note d = dispatch_start[OF assms(1,2,3) this]
  show ?thesis
    using assms(3,4) by (simp add: button_pressed_def daemon_api_def d given_def make_ok_response_def answer_of_def)
qed

text \<open>The status bar shows the whole seconds the daemon has been up, as minutes and seconds below sixty.\<close>

theorem uptime_is_shown:
  assumes "0 \<le> up"
  shows "\<exists>m s. uptime_text up = int_str m @ ''m'' @ two_digits s @ ''s'' \<and> 0 \<le> m \<and> 0 \<le> s \<and> s < 60 \<and>
     60 * m + s = \<lfloor>up\<rfloor>"
proof -
  let ?m = "\<lfloor>up / 60\<rfloor>"
  let ?s = "\<lfloor>up - 60 * of_int ?m\<rfloor>"
  have "of_int ?m \<le> up / 60" "up / 60 < of_int ?m + 1" by linarith+
  then have b: "0 \<le> up - 60 * of_int ?m" "up - 60 * of_int ?m < 60" by linarith+
  have "\<lfloor>up - of_int (60 * ?m)\<rfloor> = \<lfloor>up\<rfloor> - 60 * ?m" by (rule floor_diff_of_int)
  then have "60 * ?m + ?s = \<lfloor>up\<rfloor>" by simp
  moreover have "0 \<le> ?m" using assms by simp
  moreover have "0 \<le> ?s" "?s < 60" using b by linarith+
  ultimately show ?thesis
    by (intro exI[of _ ?m] exI[of _ ?s]) (simp add: uptime_text_def Let_def)
qed

section \<open>Witnesses\<close>

lemma new_daemon_rows: "db_runs (st_db (dm_store new_daemon)) = []" "list_runs 20 (dm_store new_daemon) = Inr []"
  by (simp_all add: dm_store_def new_daemon_def new_executor_def empty_store_def empty_db_def list_runs_def
      sql_limit_def order_desc_def)


theorem listed_run_is_added_twice_witness:
  "\<exists>e. list_msg plain_fmt list_table (run_message ''r1'' ''plan_started'' (started_payload RK_plan ''tidy up'' ''auto''))
     (fst (refresh_runs plain_fmt list_table (daemon_api sample_env ''q'') [] planned)) = Inl e"
proof -
  have e: "re_id sample_env = ''r1''" "re_now sample_env = 5" "re_brain sample_env ''auto'' = Inr (Claude_brain ''m'')"
    by (simp_all add: sample_env_def)
  have "distinct (map rr_id (db_runs (st_db (dm_store planned))))"
    by (simp add: planned_def started_def submit_def e insert_run_def sql_insert_def new_daemon_def dm_store_def
        new_executor_def empty_store_def empty_db_def new_run_def upd_db_def)
  from listed_run_is_added_twice[OF list_table_laws planned_runs this, of _ plain_fmt sample_env "''q''" "[]"]
  show ?thesis by (simp add: new_run_def)
qed


theorem failed_load_mixes_runs_witness:
  "\<exists>l. detail_msg plain_fmt (\<lambda>ts. Inr ''12:00:00'') (run_message ''r2'' ''start'' [(''task'', JStr ''t'')])
       (fetched plain_fmt (\<lambda>ts. Inr ''12:00:00'') ''r2'' (Inl Daemon_unavailable)
         (load_run ''r2'' (new_detail\<lparr>de_run := Some ''r1'', de_header := ''r1''\<rparr>))) =
     Inr (new_detail\<lparr>de_run := Some ''r2'', de_header := ''r1'', de_timeline := [l]\<rparr>)"
  using failed_load_mixes_runs[of "[(''task'', JStr ''t'')]" "new_detail\<lparr>de_run := Some ''r1'', de_header := ''r1''\<rparr>"
      plain_fmt "\<lambda>ts. Inr ''12:00:00''" "''r2''" "''start''" Daemon_unavailable]
  by (simp add: new_detail_def)

theorem live_lines_have_no_time_witness:
  "detail_msg plain_fmt (\<lambda>ts. Inr ''12:00:00'') (run_message ''r1'' ''start'' [(''task'', JStr ''t'')])
     (load_run ''r1'' new_detail) =
   Inr ((load_run ''r1'' new_detail)\<lparr>de_timeline := [''[dim]??:??:??[/dim]  start'']\<rparr>)"
  using live_lines_have_no_time[of "load_run ''r1'' new_detail" "''r1''" "[(''task'', JStr ''t'')]" plain_fmt
      "\<lambda>ts. Inr ''12:00:00''" "''start''"]
  by (simp add: load_run_def new_detail_def show_str_def)

theorem dialogue_starts_the_task_witness:
  "button_pressed (daemon_api sample_env ''q'') ''/s'' True Plan_btn '' tidy up '' (Some ''auto'') new_daemon =
     (Dismissed (JStr ''r1''), started sample_env RK_plan ''tidy up'' ''auto'' new_daemon)"
proof -
  have e: "re_id sample_env = ''r1''" "re_brain sample_env ''auto'' = Inr (Claude_brain ''m'')"
    by (simp_all add: sample_env_def)
  have s: "strip '' tidy up '' = ''tidy up''" by (simp add: strip_def is_space_def ordc_def)
  from dialogue_starts_the_task[OF new_daemon_run e(2), of "'' tidy up ''" Plan_btn "''q''" "''/s''"]
  show ?thesis by (simp add: s e(1))
qed

theorem uptime_is_shown_witness:
  "\<exists>m s. uptime_text 3725 = int_str m @ ''m'' @ two_digits s @ ''s'' \<and> 60 * m + s = 3725 \<and> s < 60"
  using uptime_is_shown[of 3725] by auto

end
