(* ===== verification/Sidecar.thy ===== *)
theory Sidecar
  imports Voice Client
begin

text \<open>
  What \<open>src/src/agent/cli/voice_sidecar.py\<close> puts together: the Piper engine
  (\<open>voice/engines/piper.py\<close>), the loop that announces the events of runs, the tasks it starts and
  the recorders they use, and the capture thread with its ring buffer (\<open>voice/audio.py\<close>).
\<close>

section \<open>The Piper engine\<close>

text \<open>\<open>pi_playing\<close>: a playing process is kept for \<open>stop\<close>.\<close>

record piper =
  pi_model :: string
  pi_playing :: bool

definition new_piper :: "string \<Rightarrow> string \<Rightarrow> piper" where
  "new_piper cache voice = \<lparr>pi_model = cache @ ''/voice/tts/'' @ voice @ ''.onnx'', pi_playing = False\<rparr>"

text \<open>What happens to processes: one is run with its input, or is sent a signal.\<close>

datatype proc_act = Run_process "string list" "nat list" | Send_term | Send_kill

definition piper_command :: "string \<Rightarrow> string list" where
  "piper_command model = [''piper'', ''--model'', model, ''--output-raw'']"

definition aplay_command :: "string list" where
  "aplay_command = [''aplay'', ''-r'', ''22050'', ''-f'', ''S16_LE'', ''-c'', ''1'', ''-t'', ''raw'']"

text \<open>
  The world of one call: whether the model is there, what \<open>piper\<close> gave (exit code and sound, or an
  exception), and how \<open>aplay\<close> ended; a player that does not end in time is killed.
\<close>

record speech_world =
  sw_model :: bool
  sw_piper :: "(int \<times> nat list) res"
  sw_aplay :: "unit res"

definition say :: "speech_world \<Rightarrow> string \<Rightarrow> piper \<Rightarrow> unit res \<times> proc_act list \<times> piper" where
  "say w t e =
     (let run_piper = Run_process (piper_command (pi_model e)) (map ordc t) in
      if \<not> sw_model w then (Inr (), [], e)
      else case sw_piper w of
             Inl x \<Rightarrow> (Inl x, [run_piper], e)
           | Inr (code, sound) \<Rightarrow>
               if code \<noteq> 0 then (Inr (), [run_piper], e)
               else (let acts = [run_piper, Run_process aplay_command sound]; e' = e\<lparr>pi_playing := False\<rparr> in
                     case sw_aplay w of
                       Inl TimeoutError \<Rightarrow> (Inl TimeoutError, acts @ [Send_kill], e')
                     | Inl x \<Rightarrow> (Inl x, acts, e')
                     | Inr _ \<Rightarrow> (Inr (), acts, e')))"

text \<open>
  \<open>stop\<close>: \<open>gone\<close> is a process that has already ended, \<open>cleared\<close> says that \<open>say\<close> dropped it while
  \<open>stop\<close> slept, \<open>ended\<close> that it has an exit code by then.
\<close>

definition stop_speech :: "bool \<Rightarrow> bool \<Rightarrow> bool \<Rightarrow> piper \<Rightarrow> unit res \<times> proc_act list \<times> piper" where
  "stop_speech gone cleared ended e =
     (let e' = e\<lparr>pi_playing := False\<rparr> in
      if \<not> pi_playing e then (Inr (), [], e)
      else if gone then (Inr (), [Send_term], e')
      else if cleared then (Inl (AttributeError ''returncode''), [Send_term], e')
      else if ended then (Inr (), [Send_term], e')
      else (Inr (), [Send_term, Send_kill], e'))"

section \<open>Announcements\<close>

text \<open>
  One event of the loop of \<open>_watch\<close> and its world: whether the barge-in event was set before it,
  whether the mute flag is there, the world of \<open>say\<close> and of \<open>stop\<close>.  The event is handled to its
  end, the speech included, before the next one is taken.
\<close>

record watch_world =
  ww_barge :: bool
  ww_muted :: bool
  ww_speech :: speech_world
  ww_stop :: "bool \<times> bool \<times> bool"

record voice_texts =
  vx_other :: "json \<Rightarrow> string"
  vx_fancy :: "string \<Rightarrow> string dict \<Rightarrow> string res"
  vx_templates :: template_config
  vx_redact :: "rx list"

definition watch_event ::
  "voice_texts \<Rightarrow> watch_world \<Rightarrow> topic \<times> params \<Rightarrow> piper \<times> bool
   \<Rightarrow> unit res \<times> proc_act list \<times> piper \<times> bool" where
  "watch_event X w ev s =
     (let (e, flag) = s; barge = (flag \<or> ww_barge w) in
      if fst ev = T_runs \<and> barge then
        (let (gone, cleared, ended) = ww_stop w; (r, acts, e') = stop_speech gone cleared ended e
         in (r, acts, e', False))
      else case fst (announce (vx_other X) (vx_fancy X) (vx_templates X) (vx_redact X) (ww_muted w) barge ev) of
             Inl x \<Rightarrow> (Inl x, [], e, barge)
           | Inr None \<Rightarrow> (Inr (), [], e, barge)
           | Inr (Some t) \<Rightarrow> (let (r, acts, e') = say (ww_speech w) t e in (r, acts, e', barge)))"

text \<open>The events of a connection; an exception ends it.\<close>

fun watch_events ::
  "voice_texts \<Rightarrow> (watch_world \<times> topic \<times> params) list \<Rightarrow> piper \<times> bool \<Rightarrow> unit res \<times> proc_act list \<times> piper \<times> bool" where
  "watch_events X [] s = (Inr (), [], s)"
| "watch_events X ((w, ev) # evs) s =
     (let (r, acts, s') = watch_event X w ev s in
      case r of
        Inl x \<Rightarrow> (Inl x, acts, s')
      | Inr _ \<Rightarrow> (let (r', acts', s'') = watch_events X evs s' in (r', acts @ acts', s'')))"

text \<open>
  The attempts to connect: what each gives, and the delay before it is repeated.  A connection that
  stood resets the delay.
\<close>

fun watch_attempts ::
  "voice_texts \<Rightarrow> (watch_world \<times> topic \<times> params) list option list \<Rightarrow> real \<Rightarrow> piper \<times> bool
   \<Rightarrow> (proc_act list \<times> real) list" where
  "watch_attempts X [] delay s = []"
| "watch_attempts X (None # as) delay s = ([], delay) # watch_attempts X as (min (delay * 2) 30) s"
| "watch_attempts X (Some evs # as) delay s =
     (let (r, acts, s') = watch_events X evs s in (acts, 1) # watch_attempts X as (min (1 * 2) 30) s')"

section \<open>Recorders\<close>

record recorder =
  rc_samplerate :: int
  rc_channels :: int
  rc_silence_threshold :: real
  rc_silence_seconds :: real
  rc_block_duration :: real

definition new_recorder :: recorder where
  "new_recorder = \<lparr>rc_samplerate = 16000, rc_channels = 1, rc_silence_threshold = 2 / 100,
     rc_silence_seconds = 3 / 2, rc_block_duration = 2 / 10\<rparr>"

definition block_size :: "recorder \<Rightarrow> int" where
  "block_size r = trunc (of_int (rc_samplerate r) * rc_block_duration r)"

definition ptt_recorder :: "voice_config \<Rightarrow> recorder" where
  "ptt_recorder c = new_recorder\<lparr>rc_samplerate := 16000, rc_silence_threshold := 2 / 100,
     rc_silence_seconds := vpt_silence_seconds (vo_ptt c)\<rparr>"

definition handsfree_recorder :: "voice_config \<Rightarrow> recorder" where
  "handsfree_recorder c = new_recorder\<lparr>rc_samplerate := 16000,
     rc_silence_seconds := vh_record_timeout (vo_handsfree c)\<rparr>"

text \<open>The ring buffer of the pipeline: two seconds of sound.\<close>

definition ring_capacity :: "recorder \<Rightarrow> nat" where
  "ring_capacity r = nat (trunc (of_int (rc_samplerate r) * 2))"

text \<open>
  The loop of \<open>start_stream\<close> on one block: the callback, then the copy into the ring buffer; an
  exception of either ends the thread.
\<close>

definition capture_block ::
  "real \<Rightarrow> bool \<Rightarrow> 'a list \<Rightarrow> 'a pipeline \<times> 'a ring \<Rightarrow> 'a pipeline \<times> 'a ring" where
  "capture_block now speech blk s =
     (let (p, ring) = s in
      if \<not> pl_alive p then s
      else case on_chunk now speech blk p of
             (Inl _, p') \<Rightarrow> (p'\<lparr>pl_alive := False\<rparr>, ring)
           | (Inr _, p') \<Rightarrow>
               (case ring_write blk ring of
                  Inl _ \<Rightarrow> (p'\<lparr>pl_alive := False\<rparr>, ring)
                | Inr ring' \<Rightarrow> (p', ring')))"

section \<open>Transcription\<close>

text \<open>\<open>transcribe\<close>: no model, no text; otherwise the texts of the segments the model found.\<close>

definition stt_transcribe :: "(nat list \<Rightarrow> string list res) option \<Rightarrow> nat list \<Rightarrow> string res" where
  "stt_transcribe model pcm = (case model of
      None \<Rightarrow> Inr []
    | Some m \<Rightarrow> rbind (m pcm) (\<lambda>segments. Inr (strip (join '' '' segments))))"

section \<open>The tasks of the sidecar\<close>

datatype sidecar_task = Watch_runs | Serve_ptt recorder real string | Handsfree recorder real string

definition sidecar_tasks :: "voice_config \<Rightarrow> sidecar_task list" where
  "sidecar_tasks c =
     (if vt_engine (vo_tts c) \<noteq> [] then [Watch_runs] else []) @
     (if vpt_enabled (vo_ptt c) \<and> vs_engine (vo_stt c) \<noteq> []
      then [Serve_ptt (ptt_recorder c) (vpt_record_timeout (vo_ptt c)) (vpt_brain (vo_ptt c))] else []) @
     (if vh_enabled (vo_handsfree c) \<and> vs_engine (vo_stt c) \<noteq> [] \<and> vw_engine (vo_wakeword c) \<noteq> [] \<and>
         vv_engine (vo_vad c) \<noteq> []
      then [Handsfree (handsfree_recorder c) (vh_record_timeout (vo_handsfree c)) (vh_brain (vo_handsfree c))] else [])"

text \<open>
  What a push on the button does from the line read to the request: the recording of the blocks
  the microphone gives, its transcription by \<open>stt\<close>, and the task submitted.
\<close>

definition ptt_session ::
  "recorder \<Rightarrow> real \<Rightarrow> string \<Rightarrow> string option \<Rightarrow> (nat \<Rightarrow> nat list) \<Rightarrow> (nat list \<Rightarrow> bool) \<Rightarrow> (nat \<Rightarrow> bool)
   \<Rightarrow> (nat list \<Rightarrow> string res) \<Rightarrow> params option" where
  "ptt_session rc timeout brain line chunk quiet halt stt =
     (let pcm = concat (record_blocks chunk quiet halt (rc_block_duration rc) (rc_silence_seconds rc) timeout)
      in map_option (\<lambda>t. run_request t brain) (ptt_handle line (Inr pcm) (stt pcm)))"

section \<open>Lemmas\<close>

lemma say_idle: "\<not> pi_playing e \<Longrightarrow> say w t e = (r, acts, e') \<Longrightarrow> \<not> pi_playing e' \<and> Send_term \<notin> set acts"
  by (auto simp: say_def Let_def split: if_splits sum.splits prod.splits py_exc.splits)

lemma watch_event_idle:
  assumes "\<not> pi_playing e" and "watch_event X w ev (e, f) = (r, acts, e', f')"
  shows "\<not> pi_playing e' \<and> Send_term \<notin> set acts"
proof (cases "fst ev = T_runs \<and> (f \<or> ww_barge w)")
  case True
  obtain g c d where "ww_stop w = (g, c, d)" by (cases "ww_stop w")
  with True assms show ?thesis by (auto simp: watch_event_def stop_speech_def)
next
  case False
  then have n: "(fst ev = T_runs \<and> (f \<or> ww_barge w)) = False" by blast
  consider x where "fst (announce (vx_other X) (vx_fancy X) (vx_templates X) (vx_redact X) (ww_muted w) (f \<or> ww_barge w) ev) = Inl x"
    | "fst (announce (vx_other X) (vx_fancy X) (vx_templates X) (vx_redact X) (ww_muted w) (f \<or> ww_barge w) ev) = Inr None"
    | t where "fst (announce (vx_other X) (vx_fancy X) (vx_templates X) (vx_redact X) (ww_muted w) (f \<or> ww_barge w) ev) = Inr (Some t)"
    by (metis sum.exhaust option.exhaust)
  then show ?thesis
  proof cases
    case 3
    obtain r1 a1 e1 where s: "say (ww_speech w) t e = (r1, a1, e1)" by (cases "say (ww_speech w) t e")
    from assms(2) have "acts = a1" "e' = e1" by (simp_all add: watch_event_def n 3 s Let_def)
    with say_idle[OF assms(1) s] show ?thesis by simp
  qed (use assms in \<open>simp_all add: watch_event_def n Let_def\<close>)
qed

lemma watch_events_idle:
  "\<not> pi_playing e \<Longrightarrow> watch_events X evs (e, f) = (r, acts, e', f') \<Longrightarrow> \<not> pi_playing e' \<and> Send_term \<notin> set acts"
proof (induction evs arbitrary: e f acts)
  case (Cons we evs)
  obtain w ev where we: "we = (w, ev)" by (cases we)
  obtain r1 a1 e1 f1 where one: "watch_event X w ev (e, f) = (r1, a1, e1, f1)" by (metis prod_cases4)
  obtain r2 a2 e2 f2 where rest: "watch_events X evs (e1, f1) = (r2, a2, e2, f2)" by (metis prod_cases4)
  note i = watch_event_idle[OF Cons.prems(1) one]
  show ?case
  proof (cases r1)
    case (Inl x)
    with Cons.prems(2) i show ?thesis by (simp add: we one)
  next
    case (Inr u)
    with Cons.prems(2) have eq: "e' = e2" "acts = a1 @ a2" "r = r2" "f' = f2" by (simp_all add: we one rest)
    have "watch_events X evs (e1, f1) = (r, a2, e', f')" using rest eq by simp
    from Cons.IH[OF conjunct1[OF i] this] i show ?thesis by (simp add: eq(2))
  qed
qed simp

text \<open>What an event has to be announced as, when nobody interferes.\<close>

definition announced :: "voice_texts \<Rightarrow> topic \<times> params \<Rightarrow> string option" where
  "announced X ev = (case ev of (t, p) \<Rightarrow>
     if t \<noteq> T_runs then None
     else case template_text (vx_other X) (vx_fancy X) (dget_or p ''kind'' (JStr [])) (vx_templates X) p of
            Inl x \<Rightarrow> None
          | Inr s \<Rightarrow> map_option (redact_for_tts (vx_redact X)) s)"

definition renders :: "voice_texts \<Rightarrow> topic \<times> params \<Rightarrow> bool" where
  "renders X ev \<longleftrightarrow> (\<exists>s. template_text (vx_other X) (vx_fancy X) (dget_or (snd ev) ''kind'' (JStr []))
     (vx_templates X) (snd ev) = Inr s)"

definition speaks :: "watch_world \<Rightarrow> bool" where
  "speaks w \<longleftrightarrow> \<not> ww_barge w \<and> \<not> ww_muted w \<and> sw_model (ww_speech w) \<and>
     (\<exists>sound. sw_piper (ww_speech w) = Inr (0, sound)) \<and> sw_aplay (ww_speech w) = Inr ()"

definition sound_of :: "watch_world \<Rightarrow> nat list" where
  "sound_of w = (case sw_piper (ww_speech w) of Inr (code, sound) \<Rightarrow> sound | Inl x \<Rightarrow> [])"

definition spoken_acts :: "voice_texts \<Rightarrow> string \<Rightarrow> watch_world \<times> topic \<times> params \<Rightarrow> proc_act list" where
  "spoken_acts X model we = (case announced X (snd we) of
      None \<Rightarrow> []
    | Some t \<Rightarrow> [Run_process (piper_command model) (map ordc t), Run_process aplay_command (sound_of (fst we))])"

lemma watch_event_speaks:
  assumes "speaks w" and "renders X ev" and "\<not> pi_playing e"
  shows "watch_event X w ev (e, False) = (Inr (), spoken_acts X (pi_model e) (w, ev), e, False)"
proof -
  obtain t p where ev: "ev = (t, p)" by (cases ev)
  obtain sound where w: "\<not> ww_barge w" "\<not> ww_muted w" "sw_model (ww_speech w)" "sw_piper (ww_speech w) = Inr (0, sound)"
    "sw_aplay (ww_speech w) = Inr ()" using assms(1) by (auto simp: speaks_def)
  obtain s where s: "template_text (vx_other X) (vx_fancy X) (dget_or p ''kind'' (JStr [])) (vx_templates X) p = Inr s"
    using assms(2) by (auto simp: renders_def ev)
  have e: "e\<lparr>pi_playing := False\<rparr> = e" using assms(3) by simp
  show ?thesis
  proof (cases "t = T_runs")
    case True
    then show ?thesis
      by (cases s) (simp_all add: watch_event_def announce_def ev w s spoken_acts_def announced_def say_def e
          sound_of_def Let_def)
  qed (simp add: watch_event_def announce_def ev w spoken_acts_def announced_def)
qed

section \<open>Properties\<close>


text \<open>
  Barging in never stops what is being said: the loop speaks to the end before it looks at the next
  event, so a stop finds no process, and what it drops is the next announcement instead.
\<close>

theorem barge_in_never_stops_speech:
  assumes "\<not> pi_playing e"
  shows "Send_term \<notin> set (fst (snd (watch_events X evs (e, f)))) \<and>
     watch_event X (w\<lparr>ww_barge := True\<rparr>) (T_runs, p) (e, f) = (Inr (), [], e, False)"
proof
  obtain r acts e' f' where w: "watch_events X evs (e, f) = (r, acts, e', f')" by (metis prod_cases4)
  from watch_events_idle[OF assms w] show "Send_term \<notin> set (fst (snd (watch_events X evs (e, f))))" by (simp add: w)
  obtain g c d where "ww_stop w = (g, c, d)" by (cases "ww_stop w")
  then show "watch_event X (w\<lparr>ww_barge := True\<rparr>) (T_runs, p) (e, f) = (Inr (), [], e, False)"
    using assms by (simp add: watch_event_def stop_speech_def)
qed

text \<open>
  The ring buffer never gets in the way of the capture thread: whatever blocks are captured, the
  pipeline is in the state it would be in without it, and while the thread lives the buffer holds
  the latest sound.
\<close>

theorem ring_does_not_disturb_capture:
  assumes "ring_of z s ring"
  shows "\<exists>ring' s'. foldl (\<lambda>st (now, speech, blk). capture_block now speech blk st) (p, ring) blks =
       (foldl (\<lambda>q (now, speech, blk). capture now speech blk q) p blks, ring') \<and> ring_of z s' ring' \<and>
     (pl_alive (foldl (\<lambda>q (now, speech, blk). capture now speech blk q) p blks) \<longrightarrow>
        s' = s @ concat (map (\<lambda>(now, speech, blk). blk) blks))"
  using assms
proof (induction blks arbitrary: p s ring)
  case (Cons b blks)
  obtain now speech blk where b: "b = (now, speech, blk)" by (cases b)
  obtain ring1 where r1: "ring_write blk ring = Inr ring1" "ring_of z (s @ blk) ring1"
    using ring_of_write[OF Cons.prems] by blast
  let ?dead = "\<lambda>q :: 'a pipeline. \<not> pl_alive q"
  have stays: "?dead q \<Longrightarrow> foldl (\<lambda>q (now, speech, blk). capture now speech blk q) q bs = q" for q bs
    by (induction bs) (auto simp: capture_def)
  show ?case
  proof (cases "pl_alive (capture now speech blk p)")
    case True
    then have "capture_block now speech blk (p, ring) = (capture now speech blk p, ring1)"
      by (auto simp: capture_block_def capture_def r1 split: if_splits sum.splits prod.splits)
    with Cons.IH[OF r1(2), of "capture now speech blk p"] show ?thesis by (simp add: b)
  next
    case False
    then have "\<exists>q. capture_block now speech blk (p, ring) = (capture now speech blk p, q) \<and> (q = ring \<or> q = ring1)"
      by (auto simp: capture_block_def capture_def r1 split: if_splits sum.splits prod.splits)
    then obtain q s1 where q: "capture_block now speech blk (p, ring) = (capture now speech blk p, q)" "ring_of z s1 q"
      using Cons.prems r1(2) by blast
    from Cons.IH[OF q(2), of "capture now speech blk p"] stays[OF False] False show ?thesis
      by (auto simp: b q(1))
  qed
qed auto

text \<open>
  The pipeline counts silence in blocks of 80 milliseconds, the recorder it is given makes blocks of
  200: what is meant as one second of silence takes thirteen blocks, 2.6 seconds.
\<close>

theorem silence_is_counted_in_other_blocks:
  "(1 \<le> of_nat n * block_duration \<longleftrightarrow> 13 \<le> n) \<and>
   13 * rc_block_duration (handsfree_recorder c) = 26 / 10 \<and> block_size (handsfree_recorder c) = 3200"
proof -
  have "1 \<le> of_nat n * block_duration \<longleftrightarrow> 25 \<le> 2 * real n" by (simp add: block_duration_def mult.commute)
  also have "\<dots> \<longleftrightarrow> 13 \<le> n" by linarith
  finally show ?thesis
    by (simp add: handsfree_recorder_def new_recorder_def block_size_def trunc_def)
qed

section \<open>Witnesses\<close>

definition sample_texts :: voice_texts where
  "sample_texts = \<lparr>vx_other = (\<lambda>v. []), vx_fancy = (\<lambda>f args. Inr []),
     vx_templates = \<lparr>vm_run_started = ''Start'', vm_run_completed = ''Fatto'', vm_run_errored = ''Errore'', vm_run_aborted = ''Stop''\<rparr>,
     vx_redact = []\<rparr>"

definition sample_watch :: watch_world where
  "sample_watch = \<lparr>ww_barge = False, ww_muted = False,
     ww_speech = \<lparr>sw_model = True, sw_piper = Inr (0, [7]), sw_aplay = Inr ()\<rparr>, ww_stop = (False, False, False)\<rparr>"

lemma sample_announced:
  "announced sample_texts (T_runs, [(''kind'', JStr ''run_completed'')]) = Some (redact_for_tts [] ''Fatto'')"
  "announced sample_texts (T_runs, [(''kind'', JStr ''screenshot'')]) = None"
  by (simp_all add: announced_def template_text_def sample_texts_def)


theorem barge_in_never_stops_speech_witness:
  "watch_event sample_texts (sample_watch\<lparr>ww_barge := True\<rparr>) (T_runs, [(''kind'', JStr ''run_completed'')])
     (new_piper ''/c'' ''v'', False) = (Inr (), [], new_piper ''/c'' ''v'', False)"
  using barge_in_never_stops_speech[of "new_piper ''/c'' ''v''" sample_texts "[]" False sample_watch
      "[(''kind'', JStr ''run_completed'')]"]
  by (simp add: new_piper_def)

theorem ring_does_not_disturb_capture_witness:
  "\<exists>ring'. foldl (\<lambda>st (now, speech, blk). capture_block now speech blk st) (new_pipeline, new_ring (0::int) 4)
       [(0, False, [1, 2]), (1, False, [3, 4])] = (new_pipeline, ring') \<and> ring_of 0 [1, 2, 3, 4] ring'"
proof -
  have c: "foldl (\<lambda>q (now, speech, blk). capture now speech blk q) (new_pipeline :: int pipeline)
      [(0, False, [1, 2]), (1, False, [3, 4])] = new_pipeline"
    by (simp add: capture_def on_chunk_def new_pipeline_def)
  have "ring_of 0 [] (new_ring (0::int) 4)" by (rule ring_of_new) simp
  from ring_does_not_disturb_capture[OF this, of new_pipeline "[(0, False, [1, 2]), (1, False, [3, 4])]"]
  obtain ring' s' where "foldl (\<lambda>st (now, speech, blk). capture_block now speech blk st) (new_pipeline, new_ring (0::int) 4)
       [(0, False, [1, 2]), (1, False, [3, 4])] = (new_pipeline, ring')" "ring_of 0 s' ring'"
    "pl_alive (new_pipeline :: int pipeline) \<longrightarrow> s' = [1, 2, 3, 4]" unfolding c by auto
  then show ?thesis by (simp add: new_pipeline_def)
qed

end
