(* ===== verification/Startup.thy ===== *)
theory Startup
  imports Tui Sidecar Integrations Learning
begin

text \<open>
  The daemon around its parts: opening and closing the shared state (\<open>daemon/state.py\<close>), the
  handler that publishes log records (\<open>daemon/log_publisher.py\<close>), a round of the miners
  (\<open>learning/consumer.py\<close>), and the requests about monitors and screenshots (\<open>tools/hypr.py\<close>,
  \<open>tools/screen.py\<close>).
\<close>

section \<open>Opening and closing\<close>

text \<open>Which miners the consumer gets, and how often they run; none when learning is off.\<close>

record learner =
  le_allowlist :: bool
  le_rules :: bool
  le_interval :: int

definition learner_of :: "agent_config \<Rightarrow> learner option" where
  "learner_of cfg =
     (let lr = ag_learning cfg
      in if mc_enabled (ag_memory cfg) \<and> lc_enabled lr
         then Some \<lparr>le_allowlist = lc_allowlist_mining lr, le_rules = lc_rule_mining lr,
                    le_interval = lc_mining_interval_s lr\<rparr>
         else None)"

text \<open>\<open>AppState.__init__\<close> over an opened store: no runs, an empty bus, the audit log not open yet.\<close>

definition fresh_executor :: "agent_config \<Rightarrow> store \<Rightarrow> executor" where
  "fresh_executor cfg s =
     \<lparr>ex_store = s, ex_bus = new_bus,
      ex_audit = \<lparr>au_enabled = ag_audit_log cfg, au_path = None, au_lines = []\<rparr>, ex_tasks = [], ex_seq = []\<rparr>"

text \<open>
  \<open>AppState.open\<close>; \<open>files\<close> is the daemon's part that is on disk (rule files, allowlist, flag).  The
  subscription of the learner is the first on the bus.
\<close>

definition open_state ::
  "agent_config \<Rightarrow> rpc_env \<Rightarrow> string \<Rightarrow> (string \<times> integration res) list \<Rightarrow> store \<Rightarrow> daemon
   \<Rightarrow> (daemon \<times> registry \<times> (learner \<times> subscriber) option) res" where
  "open_state cfg E dir eps s files =
     (let x = fresh_executor cfg s;
          x1 = x\<lparr>ex_audit := audit_open (re_now E) dir (ex_audit x)\<rparr>;
          (r, rg) = load_all (enabled_of (ag_integrations cfg)) eps new_registry;
          D = reload E (files\<lparr>dm_exec := x1, dm_start := re_now E\<rparr>)
      in rbind r (\<lambda>_. case learner_of cfg of
           None \<Rightarrow> Inr (D, rg, None)
         | Some l \<Rightarrow> rbind (subscribe (ex_bus (dm_exec D)) T_runs) (\<lambda>(sub, b).
             Inr (D\<lparr>dm_exec := (dm_exec D)\<lparr>ex_bus := b\<rparr>\<rparr>, rg, Some (l, sub)))))"

text \<open>
  \<open>AppState.close\<close>: the plugins first, then the consumer with its subscription, then the runs are
  asked to stop; an exception of a plugin's teardown has been logged before it gets here.
\<close>

definition close_state ::
  "registry \<Rightarrow> (learner \<times> subscriber) option \<Rightarrow> daemon \<Rightarrow> unit res \<times> registry \<times> daemon" where
  "close_state rg l D = (case teardown_all rg of
      (Inl e, rg') \<Rightarrow> (Inl e, rg', D)
    | (Inr _, rg') \<Rightarrow>
        (let x = dm_exec D;
             b = (case l of None \<Rightarrow> ex_bus x | Some (_, sub) \<Rightarrow> unsubscribe (ex_bus x) T_runs (sb_id sub))
         in (Inr (), rg', D\<lparr>dm_exec := close_all (x\<lparr>ex_bus := b\<rparr>)\<rparr>)))"

section \<open>Log records\<close>

record log_record =
  lg_created :: real
  lg_levelno :: int
  lg_level :: string
  lg_name :: string
  lg_msg :: string

definition log_payload :: "log_record \<Rightarrow> params" where
  "log_payload r = [(''ts'', JFloat (lg_created r)), (''level'', JStr (lg_level r)), (''name'', JStr (lg_name r)),
     (''msg'', JStr (lg_msg r))]"

text \<open>The handler is installed at the logger \<open>agent\<close> with level INFO; loggers below it reach it.\<close>

definition log_record_seen :: "log_record \<Rightarrow> bool" where
  "log_record_seen r \<longleftrightarrow> 20 \<le> lg_levelno r \<and> (lg_name r = ''agent'' \<or> startswith (lg_name r) ''agent.'')"

definition publish_log :: "log_record \<Rightarrow> bus \<Rightarrow> bus" where
  "publish_log r b = (if log_record_seen r then publish b T_logs (log_payload r) else b)"

section \<open>A round of the miners\<close>

text \<open>Their numbers are only logged; a miner that fails does not keep the other from running.\<close>

definition mining_round ::
  "codec \<Rightarrow> real \<Rightarrow> (nat \<Rightarrow> real) \<Rightarrow> int \<Rightarrow> learner \<Rightarrow> misses \<times> store \<Rightarrow> misses \<times> store" where
  "mining_round C now clock window_days l ms =
     (let (counter, s) = ms;
          (n, counter1, s1) = (if le_allowlist l then mine_allowlist clock counter s else (0, counter, s));
          (m, s2) = (if le_rules l then mine_rules C now window_days s1 else (0, s1))
      in (counter1, s2))"

section \<open>Monitors and screenshots\<close>

text \<open>
  An item of the compositor's answer: every field but the focus must be there; \<open>validate\<close> is
  pydantic's validation of the fields.
\<close>

definition monitor_keys :: "string list" where
  "monitor_keys = [''id'', ''name'', ''width'', ''height'', ''x'', ''y'', ''scale'']"

definition monitor_of_item :: "(params \<Rightarrow> monitor res) \<Rightarrow> json \<Rightarrow> monitor res" where
  "monitor_of_item validate item =
     rbind (rmap (\<lambda>k. rbind (item_json item k) (\<lambda>v. Inr (k, v))) monitor_keys) (\<lambda>fs.
     rbind (get_json item ''focused'' (JBool False)) (\<lambda>f. validate (fs @ [(''focused'', f)])))"

definition parse_monitors :: "(params \<Rightarrow> monitor res) \<Rightarrow> json \<Rightarrow> monitor list res" where
  "parse_monitors validate v = rbind (iter_json v) (rmap (monitor_of_item validate))"

definition grim_command :: "string list \<Rightarrow> string list" where
  "grim_command args = [''grim'', ''-t'', ''png''] @ args @ [''-'']"

text \<open>\<open>grim\<close> is the program: from its arguments to how it ended.\<close>

definition grim_shot :: "(string list \<Rightarrow> proc_wait) \<Rightarrow> string list \<Rightarrow> string res" where
  "grim_shot grim args =
     rbind (proc_run (grim_command args) (grim (grim_command args))) (\<lambda>r.
       if pr_returncode r \<noteq> 0 then Inl (RuntimeError (''grim failed: '' @ pr_stderr r)) else Inr (pr_stdout r))"

definition region_args :: "int \<Rightarrow> int \<Rightarrow> int \<Rightarrow> int \<Rightarrow> string list" where
  "region_args x y w h = [''-g'', int_str x @ '','' @ int_str y @ '' '' @ int_str w @ ''x'' @ int_str h]"

definition window_region :: "window \<Rightarrow> string list" where
  "window_region w = region_args (win_x w) (win_y w) (win_w w) (win_h w)"

definition window_shot :: "(string list \<Rightarrow> proc_wait) \<Rightarrow> window list res \<Rightarrow> string \<Rightarrow> string res" where
  "window_shot grim wins address =
     rbind wins (\<lambda>ws. case List.find (\<lambda>w. win_address w = address) ws of
       None \<Rightarrow> Inl (ValueError (''Window '' @ address @ '' not found''))
     | Some w \<Rightarrow> grim_shot grim (window_region w))"

definition active_shot :: "(string list \<Rightarrow> proc_wait) \<Rightarrow> window option res \<Rightarrow> string res" where
  "active_shot grim active =
     rbind active (\<lambda>w. grim_shot grim (case w of None \<Rightarrow> [] | Some x \<Rightarrow> window_region x))"

definition resized :: "int \<times> int \<Rightarrow> real \<Rightarrow> int \<times> int" where
  "resized wh scale = (trunc (of_int (fst wh) * scale), trunc (of_int (snd wh) * scale))"

section \<open>Lemmas\<close>

lemma reload_exec [simp]: "dm_exec (reload E D) = dm_exec D"
  by (simp add: reload_def split: prod.split)

lemma opened_parts:
  assumes "open_state cfg E dir eps s files = Inr (D, rg, l)"
  shows "ex_store (dm_exec D) = s" and "ex_tasks (dm_exec D) = []" and "ex_seq (dm_exec D) = []"
    and "bus_ok (ex_bus (dm_exec D))"
proof -
  let ?x = "(fresh_executor cfg s)\<lparr>ex_audit := audit_open (re_now E) dir (ex_audit (fresh_executor cfg s))\<rparr>"
  have "ex_store (dm_exec D) = s \<and> ex_tasks (dm_exec D) = [] \<and> ex_seq (dm_exec D) = [] \<and>
      (ex_bus (dm_exec D) = new_bus \<or> (\<exists>sub. subscribe new_bus T_runs = Inr (sub, ex_bus (dm_exec D))))"
    using assms by (auto simp: open_state_def Let_def fresh_executor_def split: prod.splits option.splits)
  then show "ex_store (dm_exec D) = s" "ex_tasks (dm_exec D) = []" "ex_seq (dm_exec D) = []"
    "bus_ok (ex_bus (dm_exec D))" using new_bus_ok subscribe_ok by auto
qed

text \<open>A run that is not worked on keeps its row, whatever the executor does.\<close>

lemma idle_run_stays:
  assumes "exec_step x x'" and "row_status x i = Some st" and "i \<notin> set (active_run_ids x)"
  shows "row_status x' i = Some st \<and> i \<notin> set (active_run_ids x')"
proof (rule exec_step_cases[OF assms(1)])
  fix kind task brain j now b
  assume s: "submit kind task brain j now (Inr b) x = (Inr j, x')"
  from row_status_steps(1)[OF s, of i] assms(2) have "j \<noteq> i" "row_status x' i = Some st" by auto
  moreover have "ex_tasks x' = AList.update j Live (ex_tasks x)"
    using s by (auto simp: submit_def Let_def split: sum.splits)
  then have "set (active_run_ids x') = insert j (set (active_run_ids x))"
    by (simp add: active_run_ids_def set_map_fst_update)
  ultimately show ?thesis using assms(3) by auto
next
  fix j now kind payload r
  assume "j \<in> set (active_run_ids x)" "emit now j kind payload x = (r, x')"
  then have "row_status x' i = row_status x i" "ex_tasks x' = ex_tasks x"
    by (auto simp: emit_def Let_def row_status_def lru_pop_def upd_db_def dest!: append_event_parts split: sum.splits)
  then show ?thesis using assms(2,3) by (simp add: active_run_ids_def)
next
  fix j
  assume x': "x' = snd (cancel j x)"
  have "set (active_run_ids x') = set (active_run_ids x)"
    unfolding x' by (auto simp: cancel_def active_run_ids_def set_map_fst_update dest: map_of_SomeD split: option.splits)
      (metis fst_conv imageI map_of_SomeD)
  then show ?thesis using assms(2,3) row_status_steps(3)[of j x i] by (simp add: x')
next
  fix start now j kind task r
  assume x': "x' = finish start now j kind task r x" and "j \<in> set (active_run_ids x)"
  then have "j \<noteq> i" using assms(3) by blast
  obtain status err what p where st: "settle kind r = (status, err, what, p)" by (cases "settle kind r")
  have "set (active_run_ids x') \<subseteq> set (active_run_ids x)"
    by (auto simp: x' active_run_ids_def finish_parts(2)[OF st])
  then show ?thesis using assms(2,3) row_status_steps(4)[OF st] \<open>j \<noteq> i\<close> by (auto simp: x')
qed

section \<open>Properties\<close>

text \<open>
  Opening establishes the invariant of the executor: over a database in which no run is running and
  no event is left of a run that is gone, with nothing cached yet, the daemon starts consistent.
\<close>

theorem startup_is_consistent:
  assumes "open_state cfg E dir eps s files = Inr (D, rg, l)" and "st_lru s = []"
    and "\<forall>r\<in>set (db_runs (st_db s)). rr_status r \<noteq> ''running''"
    and "\<forall>e\<in>set (db_events (st_db s)). \<exists>r\<in>set (db_runs (st_db s)). rr_id r = er_run e"
  shows "exec_inv (dm_exec D) \<and> active_run_ids (dm_exec D) = []"
proof -
  note p = opened_parts[OF assms(1)]
  have "row_status (dm_exec D) i \<noteq> Some ''running''" for i
    using assms(3) by (auto simp: row_status_def p sql_find_def find_Some_iff)
  moreover have "seqs_of (dm_exec D) i = []" if "row_status (dm_exec D) i = None" for i
    using that assms(4) by (fastforce simp: row_status_def seqs_of_def p sql_find_None filter_empty_conv image_iff)
  moreover have "coherent s" using assms(2) by (simp add: coherent_def)
  ultimately show ?thesis by (simp add: exec_inv_def p active_run_ids_def)
qed

text \<open>
  Opening does not recover: a run the database still calls running, left by a daemon that did not
  shut down, is not active, cannot be cancelled, and stays running in every state the executor
  reaches.
\<close>

theorem interrupted_run_stays_running:
  assumes "open_state cfg E dir eps s files = Inr (D, rg, l)"
    and "sql_find rr_id i (db_runs (st_db s)) = Some r" and "rr_status r = ''running''"
    and "exec_reach (dm_exec D) x"
  shows "row_status x i = Some ''running'' \<and> i \<notin> set (active_run_ids x) \<and> cancel i x = (False, x)"
proof -
  note p = opened_parts[OF assms(1)]
  from assms(4) have "row_status x i = Some ''running'' \<and> i \<notin> set (active_run_ids x)"
  proof (induction rule: exec_reach.induct)
    case start
    then show ?case by (simp add: row_status_def active_run_ids_def p assms(2,3))
  next
    case (step x x')
    then show ?case using idle_run_stays by blast
  qed
  moreover from this have "map_of (ex_tasks x) i = None"
    by (auto simp: active_run_ids_def map_of_eq_None_iff)
  ultimately show ?thesis by (simp add: cancel_def)
qed

section \<open>Witnesses\<close>

lemma opens: "\<exists>D rg l. open_state cfg E dir [] s files = Inr (D, rg, l)"
proof -
  have "\<exists>sub b'. subscribe b T_runs = Inr (sub, b')" for b by (simp add: subscribe_def new_subscriber_def topic_config_def)
  then show ?thesis by (cases "learner_of cfg") (fastforce simp: open_state_def Let_def)+
qed

theorem startup_is_consistent_witness:
  "\<exists>D rg l. open_state (default_agent_config ''/c'') sample_env ''/a'' [] empty_store new_daemon = Inr (D, rg, l) \<and>
     exec_inv (dm_exec D)"
proof -
  obtain D rg l where o: "open_state (default_agent_config ''/c'') sample_env ''/a'' [] empty_store new_daemon = Inr (D, rg, l)"
    using opens by blast
  from startup_is_consistent[OF o] have "exec_inv (dm_exec D)" by (simp add: empty_store_def empty_db_def)
  with o show ?thesis by blast
qed

theorem interrupted_run_stays_running_witness:
  "\<exists>D rg l. open_state (default_agent_config ''/c'') sample_env ''/a'' [] (dm_store planned) new_daemon = Inr (D, rg, l) \<and>
     row_status (dm_exec D) ''r1'' = Some ''running'' \<and> cancel ''r1'' (dm_exec D) = (False, dm_exec D)"
proof -
  obtain D rg l where o: "open_state (default_agent_config ''/c'') sample_env ''/a'' [] (dm_store planned) new_daemon = Inr (D, rg, l)"
    using opens by blast
  have e: "re_id sample_env = ''r1''" "re_brain sample_env ''auto'' = Inr (Claude_brain ''m'')"
    by (simp_all add: sample_env_def)
  have "row_status (dm_exec planned) ''r1'' = Some ''running''"
  proof -
    obtain x where "submit RK_plan ''tidy up'' ''auto'' ''r1'' (re_now sample_env) (Inr (Claude_brain ''m'')) (dm_exec new_daemon) =
        (Inr ''r1'', x)" using submit_fresh[OF new_daemon_run] by blast
    from row_status_steps(1)[OF this, of "''r1''"] this show ?thesis by (simp add: planned_def started_def e)
  qed
  then obtain r where "sql_find rr_id ''r1'' (db_runs (st_db (dm_store planned))) = Some r" "rr_status r = ''running''"
    by (auto simp: row_status_def dm_store_def)
  from interrupted_run_stays_running[OF o this exec_reach.start] o show ?thesis by blast
qed

end
