(* ===== verification/Settling.thy ===== *)
theory Settling
  imports Startup
begin

text \<open>
  The end of a run, await by await (\<open>RunExecutor._run_task\<close> in \<open>daemon/run_executor.py\<close>).  The
  theory \<open>Run_Executor\<close> takes the end of a run as one operation; here every statement the task
  awaits is a step of its own, at which a cancellation or an error of the store may arrive, and the
  tasks of several runs interleave.
\<close>

section \<open>One task\<close>

text \<open>
  Where a task stands: not yet started, inside the orchestrator, awaiting the status (after the
  orchestrator returned, or in the handler of an exception), then in the \<open>finally\<close> clause the metrics
  and the outcome.
\<close>

datatype stage = Unstarted | Orchestrating | Storing "py_exc option" | Metrics | Recording | Over

record run_job =
  rj_id :: string
  rj_kind :: run_kind
  rj_task :: string
  rj_start :: real
  rj_stage :: stage
  rj_final :: run_status

definition new_job :: "string \<Rightarrow> run_kind \<Rightarrow> string \<Rightarrow> run_job" where
  "new_job i kind task =
     \<lparr>rj_id = i, rj_kind = kind, rj_task = task, rj_start = 0, rj_stage = Unstarted, rj_final = Errored\<rparr>"

definition ended_with :: "py_exc option \<Rightarrow> unit res" where
  "ended_with e = (case e of None \<Rightarrow> Inr () | Some e \<Rightarrow> Inl e)"

text \<open>The clause that takes over: the rest of the \<open>try\<close> body, or the handler of the exception.\<close>

definition enter :: "py_exc option \<Rightarrow> run_job \<Rightarrow> run_job" where
  "enter e j = j\<lparr>rj_stage := Storing e, rj_final := fst (settle (rj_kind j) (ended_with e))\<rparr>"

text \<open>The statement that is awaited.\<close>

definition statement :: "real \<Rightarrow> run_job \<Rightarrow> store \<Rightarrow> store" where
  "statement now j s = (case rj_stage j of
      Storing e \<Rightarrow> (case settle (rj_kind j) (ended_with e) of
        (status, err, what, payload) \<Rightarrow> update_run_status now (rj_id j) status None err s)
    | Metrics \<Rightarrow> update_run_metrics (rj_id j) None None (Some (now - rj_start j)) s
    | Recording \<Rightarrow> (case derive_from_status (rj_final j) of
        (oc, sc) \<Rightarrow> upsert_run_outcome now (rj_id j) oc sc ''derived'' None s)
    | _ \<Rightarrow> s)"

definition drop_task :: "string \<Rightarrow> executor \<Rightarrow> executor" where
  "drop_task i x = x\<lparr>ex_tasks := filter (\<lambda>e. fst e \<noteq> i) (ex_tasks x)\<rparr>"

definition finished_payload :: "run_job \<Rightarrow> params" where
  "finished_payload j = [(''task'', JStr (rj_task j)), (''outcome'', JStr (fst (derive_from_status (rj_final j)))),
     (''status'', JStr (rs_value (rj_final j)))]"

text \<open>The await returns, and the task goes on to the next one.\<close>

definition proceed :: "real \<Rightarrow> run_job \<times> executor \<Rightarrow> run_job \<times> executor" where
  "proceed now s = (case s of (j, x) \<Rightarrow>
     (let x1 = x\<lparr>ex_store := statement now j (ex_store x)\<rparr>
      in case rj_stage j of
           Unstarted \<Rightarrow> (j\<lparr>rj_stage := Orchestrating, rj_start := now\<rparr>, x)
         | Storing e \<Rightarrow> (case settle (rj_kind j) (ended_with e) of (status, err, what, payload) \<Rightarrow>
             (j\<lparr>rj_stage := Metrics\<rparr>, publish_run (rj_id j) (rk_value (rj_kind j) @ ''_'' @ what) payload x1))
         | Metrics \<Rightarrow> (j\<lparr>rj_stage := Recording\<rparr>, x1)
         | Recording \<Rightarrow> (j\<lparr>rj_stage := Over\<rparr>, drop_task (rj_id j)
             (publish_run (rj_id j) ''run_finished'' (finished_payload j)
               (x1\<lparr>ex_seq := filter (\<lambda>e. fst e \<noteq> rj_id j) (ex_seq x1)\<rparr>)))
         | _ \<Rightarrow> (j, x)))"

text \<open>
  The await raises: a cancellation while the task waits for the lock of the store, or an error of the
  statement, loses it; a cancellation that finds the statement already in its thread does not keep it
  from being committed, but the cache is not told.
\<close>

definition commit_only :: "(store \<Rightarrow> store) \<Rightarrow> store \<Rightarrow> store" where
  "commit_only op s = s\<lparr>st_db := st_db (op s)\<rparr>"

definition break_off :: "py_exc \<Rightarrow> bool \<Rightarrow> real \<Rightarrow> run_job \<times> executor \<Rightarrow> run_job \<times> executor" where
  "break_off e committed now s = (case s of (j, x) \<Rightarrow>
     (let x1 = (if committed then x\<lparr>ex_store := commit_only (statement now j) (ex_store x)\<rparr> else x)
      in case rj_stage j of
           Storing None \<Rightarrow> (enter (Some e) j, x1)
         | Storing (Some _) \<Rightarrow> (j\<lparr>rj_stage := Metrics\<rparr>, x1)
         | Orchestrating \<Rightarrow> (enter (Some e) j, x)
         | _ \<Rightarrow> (j\<lparr>rj_stage := Over\<rparr>, drop_task (rj_id j) x1)))"

datatype await = Returned real | Raised py_exc bool real

fun await_step :: "run_job \<times> executor \<Rightarrow> await \<Rightarrow> run_job \<times> executor" where
  "await_step s (Returned now) = proceed now s"
| "await_step s (Raised e committed now) = (if rj_stage (fst s) = Over then s else break_off e committed now s)"

section \<open>All tasks\<close>

text \<open>
  The executor with the tasks it has.  A cancellation is requested (\<open>Cancelling\<close>) before it is
  delivered; once delivered, the task is as any other and can be cancelled again.
\<close>

type_synonym work = "executor \<times> run_job list"

definition put_job :: "run_job \<Rightarrow> run_job list \<Rightarrow> run_job list" where
  "put_job j js = filter (\<lambda>k. rj_stage k \<noteq> Over) (map (\<lambda>k. if rj_id k = rj_id j then j else k) js)"

definition calm :: "string \<Rightarrow> executor \<Rightarrow> executor" where
  "calm i x = x\<lparr>ex_tasks := map (\<lambda>(k, st). (k, if k = i then Live else st)) (ex_tasks x)\<rparr>"

datatype work_label = W_submit string | W_emit string | W_cancel string | W_go string | W_break string

inductive work_step :: "work_label \<Rightarrow> work \<Rightarrow> work \<Rightarrow> bool" where
  submitted: "submit kind task brain i now (Inr b) x = (Inr i, x') \<Longrightarrow>
    work_step (W_submit i) (x, js) (x', js @ [new_job i kind task])"
| emitted: "j \<in> set js \<Longrightarrow> rj_stage j = Orchestrating \<Longrightarrow> emit now (rj_id j) k payload x = (Inr (), x') \<Longrightarrow>
    work_step (W_emit (rj_id j)) (x, js) (x', js)"
| cancelled: "work_step (W_cancel i) (x, js) (snd (cancel i x), js)"
| unwinds: "j \<in> set js \<Longrightarrow> rj_stage j = Orchestrating \<Longrightarrow> map_of (ex_tasks x) (rj_id j) = Some Cancelling \<Longrightarrow>
    work_step (W_go (rj_id j)) (x, js) (calm (rj_id j) x, js)"
| ends: "j \<in> set js \<Longrightarrow> rj_stage j = Orchestrating \<Longrightarrow> map_of (ex_tasks x) (rj_id j) = Some Live \<Longrightarrow>
    work_step (W_go (rj_id j)) (x, js) (x, put_job (enter e j) js)"
| proceeds: "j \<in> set js \<Longrightarrow> rj_stage j \<noteq> Orchestrating \<Longrightarrow> map_of (ex_tasks x) (rj_id j) = Some Live \<Longrightarrow>
    proceed now (j, x) = (j', x') \<Longrightarrow> work_step (W_go (rj_id j)) (x, js) (x', put_job j' js)"
| thrown: "j \<in> set js \<Longrightarrow> rj_stage j \<noteq> Orchestrating \<Longrightarrow> map_of (ex_tasks x) (rj_id j) = Some Cancelling \<Longrightarrow>
    break_off CancelledError committed now (j, calm (rj_id j) x) = (j', x') \<Longrightarrow>
    work_step (W_break (rj_id j)) (x, js) (x', put_job j' js)"
| failed: "j \<in> set js \<Longrightarrow> rj_stage j \<notin> {Unstarted, Orchestrating} \<Longrightarrow> map_of (ex_tasks x) (rj_id j) = Some Live \<Longrightarrow>
    is_Exception e \<Longrightarrow> break_off e committed now (j, x) = (j', x') \<Longrightarrow>
    work_step (W_break (rj_id j)) (x, js) (x', put_job j' js)"

inductive work_run :: "work_label list \<Rightarrow> work \<Rightarrow> work \<Rightarrow> bool" where
  none: "work_run [] w w"
| more: "work_run ls w w' \<Longrightarrow> work_step l w' w'' \<Longrightarrow> work_run (ls @ [l]) w w''"

inductive_cases work_step_cases: "work_step l (x, js) (x', js')"

section \<open>What the statements write\<close>

definition status_of :: "db \<Rightarrow> string \<Rightarrow> string option" where
  "status_of d i = map_option rr_status (sql_find rr_id i (db_runs d))"

lemma row_status_of: "row_status x i = status_of (st_db (ex_store x)) i"
  by (simp add: row_status_def status_of_def)

text \<open>The contract of a statement about a run: its status becomes \<open>new\<close> of the old one.\<close>

locale run_write =
  fixes op :: "store \<Rightarrow> store" and i :: string and new :: "string \<Rightarrow> string"
  assumes status: "status_of (st_db (op s)) k =
    (if k = i then map_option new (status_of (st_db s) i) else status_of (st_db s) k)"
begin

lemma written: "row_status (x\<lparr>ex_store := op (ex_store x)\<rparr>) k =
    (if k = i then map_option new (row_status x i) else row_status x k)"
  by (simp add: row_status_of status)

lemma committed: "row_status (x\<lparr>ex_store := commit_only op (ex_store x)\<rparr>) k =
    (if k = i then map_option new (row_status x i) else row_status x k)"
  by (simp add: row_status_of commit_only_def status)

end

definition writes_status :: "run_job \<Rightarrow> string \<Rightarrow> string" where
  "writes_status j old = (case rj_stage j of
     Storing e \<Rightarrow> rs_value (fst (settle (rj_kind j) (ended_with e))) | _ \<Rightarrow> old)"

lemma writes_no_status: "(\<And>e. rj_stage j \<noteq> Storing e) \<Longrightarrow> writes_status j = (\<lambda>old. old)"
  by (cases "rj_stage j") (auto simp: writes_status_def)

lemma map_option_same: "map_option (\<lambda>y. y) v = v"
  by (cases v) simp_all

interpretation statement: run_write "statement now j" "rj_id j" "writes_status j" for now j
proof
  fix s k
  show "status_of (st_db (statement now j s)) k =
    (if k = rj_id j then map_option (writes_status j) (status_of (st_db s) (rj_id j)) else status_of (st_db s) k)"
  proof (cases "rj_stage j")
    case (Storing e)
    then show ?thesis
      by (simp add: statement_def writes_status_def update_run_status_def upd_db_def lru_pop_def Let_def
          status_of_def sql_find_update option.map_comp comp_def split: prod.split)
  next
    case Metrics
    then show ?thesis
      by (simp add: statement_def writes_status_def update_run_metrics_def upd_db_def lru_pop_def Let_def
          status_of_def sql_find_update option.map_comp comp_def)
  next
    case Recording
    then show ?thesis
      by (simp add: statement_def writes_no_status upsert_run_outcome_def upd_db_def status_of_def
          map_option_same split: prod.split)
  qed (simp_all add: statement_def writes_no_status map_option_same)
qed

lemma statement_coherent: "coherent s \<Longrightarrow> coherent (statement now j s)"
  by (cases "rj_stage j")
    (auto simp: statement_def split: prod.split
      intro: status_write.keeps_coherent metrics_write.keeps_coherent outcome_write.keeps_coherent)

lemma drop_task_simps [simp]:
  "ex_store (drop_task i x) = ex_store x" "ex_seq (drop_task i x) = ex_seq x" "ex_bus (drop_task i x) = ex_bus x"
  "ex_tasks (drop_task i x) = filter (\<lambda>e. fst e \<noteq> i) (ex_tasks x)"
  by (simp_all add: drop_task_def)

lemma calm_simps [simp]:
  "ex_store (calm i x) = ex_store x" "ex_seq (calm i x) = ex_seq x" "ex_bus (calm i x) = ex_bus x"
  "ex_tasks (calm i x) = map (\<lambda>(k, st). (k, if k = i then Live else st)) (ex_tasks x)"
  by (simp_all add: calm_def)

lemma enter_simps [simp]:
  "rj_id (enter e j) = rj_id j" "rj_kind (enter e j) = rj_kind j" "rj_stage (enter e j) = Storing e"
  "rj_final (enter e j) = fst (settle (rj_kind j) (ended_with e))"
  by (simp_all add: enter_def)

lemma row_status_frame: "ex_store x = ex_store y \<Longrightarrow> row_status x i = row_status y i"
  by (simp add: row_status_def)

lemma row_status_calm [simp]: "row_status (calm i x) k = row_status x k"
  by (simp add: row_status_def)

section \<open>What a step does\<close>

text \<open>Both kinds of step keep the run's identity and write at most its own row.\<close>

lemma proceed_status:
  assumes "proceed now (j, x) = (j', x')"
  shows "rj_id j' = rj_id j" and "rj_kind j' = rj_kind j"
    and "row_status x' k = (if k = rj_id j then map_option (writes_status j) (row_status x k) else row_status x k)"
    and "ex_tasks x' = (if rj_stage j = Recording then filter (\<lambda>e. fst e \<noteq> rj_id j) (ex_tasks x) else ex_tasks x)"
    and "coherent (ex_store x) \<Longrightarrow> coherent (ex_store x')"
proof -
  let ?x1 = "x\<lparr>ex_store := statement now j (ex_store x)\<rparr>"
  have st: "ex_store x' = ex_store ?x1" if "rj_stage j \<notin> {Unstarted, Orchestrating, Over}"
    using assms that by (cases "rj_stage j") (auto simp: proceed_def Let_def split: prod.splits)
  have un: "x' = x \<and> writes_status j = (\<lambda>y. y)" if "rj_stage j \<in> {Unstarted, Orchestrating, Over}"
    using assms that by (auto simp: proceed_def writes_status_def Let_def)
  show "rj_id j' = rj_id j" "rj_kind j' = rj_kind j"
    using assms by (cases "rj_stage j"; auto simp: proceed_def Let_def split: prod.splits)+
  show "row_status x' k = (if k = rj_id j then map_option (writes_status j) (row_status x k) else row_status x k)"
  proof (cases "rj_stage j \<in> {Unstarted, Orchestrating, Over}")
    case True
    then show ?thesis using un by (simp add: map_option_same)
  next
    case False
    then show ?thesis using row_status_frame[OF st] statement.written[of now j x k] by simp
  qed
  show "ex_tasks x' = (if rj_stage j = Recording then filter (\<lambda>e. fst e \<noteq> rj_id j) (ex_tasks x) else ex_tasks x)"
    using assms by (cases "rj_stage j") (auto simp: proceed_def Let_def split: prod.splits)
  show "coherent (ex_store x')" if "coherent (ex_store x)"
    using that statement_coherent[OF that, of now j] st un
    by (cases "rj_stage j \<in> {Unstarted, Orchestrating, Over}") auto
qed

lemma break_status:
  assumes "break_off e committed now (j, x) = (j', x')" and "rj_stage j \<noteq> Orchestrating"
  shows "rj_id j' = rj_id j" and "rj_kind j' = rj_kind j"
    and "row_status x' k = (if k = rj_id j \<and> committed then map_option (writes_status j) (row_status x k) else row_status x k)"
    and "ex_tasks x' = (if rj_stage j' = Over then filter (\<lambda>e. fst e \<noteq> rj_id j) (ex_tasks x) else ex_tasks x)"
    and "rj_stage j' = Over \<longleftrightarrow> (\<forall>e. rj_stage j \<noteq> Storing e)"
proof -
  have st: "ex_store x' = ex_store (if committed then x\<lparr>ex_store := commit_only (statement now j) (ex_store x)\<rparr> else x)"
    using assms by (cases "rj_stage j") (auto simp: break_off_def Let_def split: option.splits)
  show "rj_id j' = rj_id j" "rj_kind j' = rj_kind j"
    using assms by (cases "rj_stage j"; auto simp: break_off_def Let_def split: option.splits)+
  show "row_status x' k = (if k = rj_id j \<and> committed then map_option (writes_status j) (row_status x k) else row_status x k)"
    using row_status_frame[OF st] statement.committed[of now j x k] by (cases "k = rj_id j") simp_all
  show "ex_tasks x' = (if rj_stage j' = Over then filter (\<lambda>e. fst e \<noteq> rj_id j) (ex_tasks x) else ex_tasks x)"
    "rj_stage j' = Over \<longleftrightarrow> (\<forall>e. rj_stage j \<noteq> Storing e)"
    using assms by (cases "rj_stage j"; auto simp: break_off_def Let_def split: option.splits)+
qed

section \<open>Invariants\<close>

definition unsettled :: "run_job \<Rightarrow> bool" where
  "unsettled j = (case rj_stage j of Metrics \<Rightarrow> False | Recording \<Rightarrow> False | Over \<Rightarrow> False | _ \<Rightarrow> True)"

definition job_ok :: "run_job \<Rightarrow> bool" where
  "job_ok j \<longleftrightarrow> rj_stage j \<noteq> Over \<and> rj_final j \<noteq> Running \<and>
     (\<forall>e. rj_stage j = Storing e \<longrightarrow> rj_final j = fst (settle (rj_kind j) (ended_with e)))"

text \<open>The tasks of the executor are those of the jobs, and every job has a row.\<close>

fun work_ok :: "work \<Rightarrow> bool" where
  "work_ok (x, js) \<longleftrightarrow> distinct (map rj_id js) \<and> rj_id ` set js = fst ` set (ex_tasks x) \<and>
     (\<forall>j\<in>set js. job_ok j \<and> row_status x (rj_id j) \<noteq> None)"

text \<open>The row of a run says what its job has come to, and is running only while there is a job.\<close>

fun run_ok :: "string \<Rightarrow> work \<Rightarrow> bool" where
  "run_ok i (x, js) \<longleftrightarrow>
     (\<forall>j\<in>set js. rj_id j = i \<longrightarrow> row_status x i = Some (if unsettled j then ''running'' else rs_value (rj_final j))) \<and>
     (row_status x i = Some ''running'' \<longrightarrow> i \<in> rj_id ` set js)"

lemma put_job_set:
  assumes "distinct (map rj_id js)" and "j \<in> set js" and "rj_id j' = rj_id j" and "\<forall>k\<in>set js. rj_stage k \<noteq> Over"
  shows "set (put_job j' js) = (if rj_stage j' = Over then {} else {j'}) \<union> (set js - {j})"
    and "distinct (map rj_id (put_job j' js))"
proof -
  have eq: "k = j" if "k \<in> set js" "rj_id k = rj_id j" for k
    using that assms(1,2) by (auto simp: distinct_map dest: inj_onD)
  then show "set (put_job j' js) = (if rj_stage j' = Over then {} else {j'}) \<union> (set js - {j})"
    using assms(2,3,4) by (auto simp: put_job_def split: if_splits)
  have "map rj_id (map (\<lambda>k. if rj_id k = rj_id j' then j' else k) js) = map rj_id js" by simp
  then have "distinct (map rj_id (map (\<lambda>k. if rj_id k = rj_id j' then j' else k) js))" using assms(1) by (simp only:)
  then show "distinct (map rj_id (put_job j' js))"
    unfolding put_job_def by (rule distinct_map_filter)
qed

lemma settle_final: "fst (settle kind r) \<noteq> Running"
  by (rule settle_status)

lemma proceed_job:
  assumes "proceed now (j, x) = (j', x')" and "rj_stage j \<noteq> Over" and "rj_stage j \<noteq> Orchestrating"
  shows "rj_stage j' = (case rj_stage j of Unstarted \<Rightarrow> Orchestrating | Storing e \<Rightarrow> Metrics
      | Metrics \<Rightarrow> Recording | _ \<Rightarrow> Over)" and "rj_final j' = rj_final j"
  using assms by (cases "rj_stage j"; auto simp: proceed_def Let_def split: prod.splits)+

lemma break_job:
  assumes "break_off e committed now (j, x) = (j', x')" and "rj_stage j \<noteq> Orchestrating"
  shows "job_ok j \<Longrightarrow> rj_stage j' = Over \<or> job_ok j'"
  using assms settle_status
  by (cases "rj_stage j") (auto simp: break_off_def Let_def job_ok_def split: option.splits)

lemma cancel_parts:
  "ex_store (snd (cancel i x)) = ex_store x" "fst ` set (ex_tasks (snd (cancel i x))) = fst ` set (ex_tasks x)"
proof -
  show "ex_store (snd (cancel i x)) = ex_store x" by (simp add: cancel_def split: option.split)
  show "fst ` set (ex_tasks (snd (cancel i x))) = fst ` set (ex_tasks x)"
    by (cases "map_of (ex_tasks x) i")
      (auto simp: cancel_def set_map_fst_update dest!: map_of_SomeD intro: rev_image_eqI)
qed

lemma submit_parts:
  assumes "submit kind task brain i now (Inr b) x = (Inr i, x')"
  shows "ex_tasks x' = AList.update i Live (ex_tasks x)"
  using assms by (auto simp: submit_def Let_def split: sum.splits)

lemma emit_parts:
  assumes "emit now i k payload x = (Inr (), x')"
  shows "ex_tasks x' = ex_tasks x"
  using assms by (auto simp: emit_def Let_def split: sum.splits)

text \<open>A step that replaces the job \<open>j\<close> by \<open>j'\<close>.\<close>

lemma put_job_ok:
  assumes "work_ok (x, js)" and "j \<in> set js" and "rj_id j' = rj_id j" and "rj_stage j' = Over \<or> job_ok j'"
    and "fst ` set (ex_tasks x') = (if rj_stage j' = Over then fst ` set (ex_tasks x) - {rj_id j} else fst ` set (ex_tasks x))"
    and "\<And>k. row_status x k \<noteq> None \<Longrightarrow> row_status x' k \<noteq> None"
  shows "work_ok (x', put_job j' js)"
proof -
  have d: "distinct (map rj_id js)" and t: "rj_id ` set js = fst ` set (ex_tasks x)"
    and all: "\<forall>k\<in>set js. job_ok k \<and> row_status x (rj_id k) \<noteq> None" using assms(1) by auto
  have "\<forall>k\<in>set js. rj_stage k \<noteq> Over" using all by (simp add: job_ok_def)
  note p = put_job_set[OF d assms(2,3) this]
  have "rj_id ` (set js - {j}) = rj_id ` set js - {rj_id j}"
    using d assms(2) by (auto simp: distinct_map dest: inj_onD)
  then have "rj_id ` set (put_job j' js) = fst ` set (ex_tasks x')"
    unfolding p(1) using assms(2,3,5) t by (auto split: if_splits)
  moreover have "\<forall>k\<in>set (put_job j' js). job_ok k \<and> row_status x' (rj_id k) \<noteq> None"
    unfolding p(1) using all assms(2,3,4,6) by (auto split: if_splits)
  ultimately show ?thesis using p(2) by simp
qed

lemma map_fst_calm: "fst ` set (ex_tasks (calm i x)) = fst ` set (ex_tasks x)"
  by (force simp: image_iff)

lemma filter_fst: "fst ` set (filter (\<lambda>e. fst e \<noteq> i) al) = fst ` set al - {i}"
  by auto

lemma work_step_ok:
  assumes "work_step l (x, js) (x', js')" and "work_ok (x, js)"
  shows "work_ok (x', js')"
proof (rule work_step_cases[OF assms(1)])
  fix kind task brain i now b
  assume a: "js' = js @ [new_job i kind task]" "submit kind task brain i now (Inr b) x = (Inr i, x')"
  note rs = row_status_steps(1)[OF a(2)]
  then have "i \<notin> rj_id ` set js" using assms(2) by fastforce
  then show ?thesis using assms(2) rs
    by (auto simp: a(1) submit_parts[OF a(2)] set_map_fst_update new_job_def job_ok_def)
next
  fix j now k payload
  assume "js' = js" "emit now (rj_id j) k payload x = (Inr (), x')"
  then show ?thesis using assms(2) emit_parts row_status_steps(2) by fastforce
next
  fix i
  assume "x' = snd (cancel i x)" "js' = js"
  then show ?thesis using assms(2) by (simp add: cancel_parts row_status_def)
next
  fix j :: run_job
  assume "js = js'" "x' = calm (rj_id j) x"
  then show ?thesis using assms(2) by (simp add: map_fst_calm row_status_def del: calm_simps(4))
next
  fix j e
  assume a: "x' = x" "js' = put_job (enter e j) js" "j \<in> set js"
  show ?thesis unfolding a(1,2)
    by (rule put_job_ok[OF assms(2) a(3)]) (simp_all add: job_ok_def settle_status)
next
  fix j now j'
  assume a: "js' = put_job j' js" "j \<in> set js" "rj_stage j \<noteq> Orchestrating" "proceed now (j, x) = (j', x')"
  have jo: "job_ok j" using assms(2) a(2) by simp
  note p = proceed_status[OF a(4)] proceed_job[OF a(4) _ a(3)]
  show ?thesis unfolding a(1)
    by (rule put_job_ok[OF assms(2) a(2) p(1)])
      (use jo p a(3) in \<open>auto simp: job_ok_def filter_fst split: stage.splits if_splits\<close>)
next
  fix j committed now j'
  assume a: "js' = put_job j' js" "j \<in> set js" "rj_stage j \<noteq> Orchestrating"
    "break_off CancelledError committed now (j, calm (rj_id j) x) = (j', x')"
  note b = break_status[OF a(4,3)]
  have t: "fst ` set (ex_tasks x') = (if rj_stage j' = Over then fst ` set (ex_tasks x) - {rj_id j} else fst ` set (ex_tasks x))"
    by (simp add: b(4) filter_fst map_fst_calm del: calm_simps(4) set_filter)
  show ?thesis unfolding a(1)
    by (rule put_job_ok[OF assms(2) a(2) b(1)])
      (use assms(2) a(2) break_job[OF a(4,3)] b(3) t in auto)
next
  fix j e committed now j'
  assume a: "js' = put_job j' js" "j \<in> set js" "rj_stage j \<noteq> Orchestrating"
    "break_off e committed now (j, x) = (j', x')"
  note n = a(3)
  note b = break_status[OF a(4) n]
  show ?thesis unfolding a(1)
    by (rule put_job_ok[OF assms(2) a(2) b(1)])
      (use assms(2) a(2) break_job[OF a(4) n] b in \<open>auto simp: filter_fst\<close>)
qed

lemma other_run_ok:
  assumes "run_ok i (x, js)" and "row_status x' i = row_status x i"
    and "\<And>k. rj_id k = i \<Longrightarrow> k \<in> set js' \<longleftrightarrow> k \<in> set js"
  shows "run_ok i (x', js')"
  using assms by (auto simp: image_iff)

lemma own_run_ok:
  assumes "work_ok (x, js)" and "j \<in> set js" and "rj_id j' = rj_id j"
    and "row_status x' (rj_id j) = Some (if unsettled j' then ''running'' else rs_value (rj_final j'))"
    and "rj_final j' \<noteq> Running"
  shows "run_ok (rj_id j) (x', put_job j' js)"
proof -
  have d: "distinct (map rj_id js)" and n: "\<forall>k\<in>set js. rj_stage k \<noteq> Over"
    using assms(1) by (auto simp: job_ok_def)
  note p = put_job_set(1)[OF d assms(2,3) n]
  have "k = j" if "k \<in> set js" "rj_id k = rj_id j" for k
    using that d assms(2) by (auto simp: distinct_map dest: inj_onD)
  then have "k = j'" if "k \<in> set (put_job j' js)" "rj_id k = rj_id j" for k
    using that by (auto simp: p split: if_splits)
  moreover have "rj_stage j' \<noteq> Over" if "unsettled j'" using that by (auto simp: unsettled_def)
  then have "rj_id j \<in> rj_id ` set (put_job j' js)" if "unsettled j'"
    using that assms(3) by (auto simp: p image_iff)
  ultimately show ?thesis using assms(3,4,5) rs_value_running by (auto split: if_splits)
qed

lemma put_job_others:
  assumes "work_ok (x, js)" and "j \<in> set js" and "rj_id j' = rj_id j" and "rj_id k \<noteq> rj_id j"
  shows "k \<in> set (put_job j' js) \<longleftrightarrow> k \<in> set js"
proof -
  have d: "distinct (map rj_id js)" and n: "\<forall>k\<in>set js. rj_stage k \<noteq> Over"
    using assms(1) by (auto simp: job_ok_def)
  show ?thesis using assms(3,4) by (auto simp: put_job_set(1)[OF d assms(2,3) n])
qed

lemma work_step_run_ok:
  assumes "work_step l (x, js) (x', js')" and "work_ok (x, js)" and "run_ok i (x, js)" and "l \<noteq> W_break i"
  shows "run_ok i (x', js')"
proof (rule work_step_cases[OF assms(1)])
  fix kind task brain i' now b
  assume a: "js' = js @ [new_job i' kind task]" "submit kind task brain i' now (Inr b) x = (Inr i', x')"
  note rs = row_status_steps(1)[OF a(2)]
  then have "i' \<notin> rj_id ` set js" using assms(2) by fastforce
  then show ?thesis using assms(3) rs by (auto simp: a(1) new_job_def unsettled_def)
next
  fix j now k payload
  assume "js' = js" "emit now (rj_id j) k payload x = (Inr (), x')"
  then show ?thesis using assms(3) row_status_steps(2) by (intro other_run_ok[OF assms(3)]) auto
next
  fix i'
  assume "x' = snd (cancel i' x)" "js' = js"
  then show ?thesis using row_status_steps(3) by (intro other_run_ok[OF assms(3)]) auto
next
  fix j :: run_job
  assume "js = js'" "x' = calm (rj_id j) x"
  then show ?thesis by (intro other_run_ok[OF assms(3)]) auto
next
  fix j e
  assume a: "x' = x" "js' = put_job (enter e j) js" "j \<in> set js" "rj_stage j = Orchestrating"
  show ?thesis
  proof (cases "rj_id j = i")
    case True
    have "row_status x i = Some ''running''" using assms(3) a(3,4) True by (auto simp: unsettled_def)
    then show ?thesis unfolding a(1,2) True[symmetric]
      by (intro own_run_ok[OF assms(2) a(3)]) (simp_all add: unsettled_def settle_status)
  next
    case False
    then show ?thesis unfolding a(1,2)
      by (intro other_run_ok[OF assms(3)] put_job_others[OF assms(2) a(3)]) auto
  qed
next
  fix j now j'
  assume a: "js' = put_job j' js" "j \<in> set js" "rj_stage j \<noteq> Orchestrating" "proceed now (j, x) = (j', x')"
  have jo: "job_ok j" using assms(2) a(2) by simp
  note p = proceed_status[OF a(4)] proceed_job[OF a(4) _ a(3)]
  show ?thesis
  proof (cases "rj_id j = i")
    case True
    have rs: "row_status x i = Some (if unsettled j then ''running'' else rs_value (rj_final j))"
      using assms(3) a(2) True by auto
    have "row_status x' (rj_id j) = Some (if unsettled j' then ''running'' else rs_value (rj_final j'))"
      using jo rs True a(3) p(6,7)
      by (cases "rj_stage j") (auto simp: p(3) unsettled_def job_ok_def writes_status_def)
    then show ?thesis unfolding a(1) True[symmetric]
      by (intro own_run_ok[OF assms(2) a(2) p(1)]) (use jo p(7) in \<open>auto simp: job_ok_def\<close>)
  next
    case False
    then show ?thesis unfolding a(1)
      by (intro other_run_ok[OF assms(3)] put_job_others[OF assms(2) a(2) p(1)]) (auto simp: p(3))
  qed
next
  fix j committed now j'
  assume a: "l = W_break (rj_id j)" "js' = put_job j' js" "j \<in> set js" "rj_stage j \<noteq> Orchestrating"
    "break_off CancelledError committed now (j, calm (rj_id j) x) = (j', x')"
  note b = break_status[OF a(5,4)]
  have "rj_id j \<noteq> i" using a(1) assms(4) by simp
  then show ?thesis unfolding a(2)
    by (intro other_run_ok[OF assms(3)] put_job_others[OF assms(2) a(3) b(1)]) (auto simp: b(3))
next
  fix j e committed now j'
  assume a: "l = W_break (rj_id j)" "js' = put_job j' js" "j \<in> set js" "rj_stage j \<noteq> Orchestrating"
    "break_off e committed now (j, x) = (j', x')"
  note b = break_status[OF a(5,4)]
  have "rj_id j \<noteq> i" using a(1) assms(4) by simp
  then show ?thesis unfolding a(2)
    by (intro other_run_ok[OF assms(3)] put_job_others[OF assms(2) a(3) b(1)]) (auto simp: b(3))
qed

lemma work_run_ok:
  "work_run ls w w' \<Longrightarrow> work_ok w \<Longrightarrow> work_ok w' \<and> (run_ok i w \<longrightarrow> W_break i \<notin> set ls \<longrightarrow> run_ok i w')"
proof (induction rule: work_run.induct)
  case (more ls w w' l w'')
  then show ?case using work_step_ok work_step_run_ok by (cases w'; cases w'') (auto simp del: work_ok.simps run_ok.simps)
qed simp

text \<open>Where nothing breaks off, the cache stays coherent.\<close>

lemma work_run_coherent:
  "work_run ls w w' \<Longrightarrow> coherent (ex_store (fst w)) \<Longrightarrow> (\<forall>i. W_break i \<notin> set ls) \<Longrightarrow> coherent (ex_store (fst w'))"
proof (induction rule: work_run.induct)
  case (more ls w w' l w'')
  obtain x js x' js' where w: "w' = (x, js)" "w'' = (x', js')" by (cases w'; cases w'')
  have c: "coherent (ex_store x)" and l: "\<And>i. l \<noteq> W_break i" using more w by auto
  have "coherent (ex_store x')"
  proof (rule work_step_cases[OF more(2)[unfolded w]])
    fix kind task brain i now b
    assume "submit kind task brain i now (Inr b) x = (Inr i, x')"
    then show ?thesis using insert_run_coherent[OF c] by (auto simp: submit_def Let_def split: sum.splits)
  next
    fix j now k payload
    assume "emit now (rj_id j) k payload x = (Inr (), x')"
    then show ?thesis using append_event_coherent[OF c] by (auto simp: emit_def Let_def split: sum.splits)
  qed (use c l in \<open>auto simp: cancel_parts intro: proceed_status(5)\<close>)
  then show ?case using w by simp
qed simp

section \<open>One settlement\<close>

fun lost :: "await \<Rightarrow> bool" where
  "lost (Returned now) = False"
| "lost (Raised e committed now) = (\<not> committed)"

text \<open>No statement about the status took effect; the flag says that the handler is all that is left.\<close>

fun status_lost :: "bool \<Rightarrow> await list \<Rightarrow> bool" where
  "status_lost handler [] = True"
| "status_lost True (w # ws) = lost w"
| "status_lost False (w # ws) = (lost w \<and> status_lost True ws)"

fun awaits_left :: "stage \<Rightarrow> nat" where
  "awaits_left (Storing e) = (if e = None then 4 else 3)"
| "awaits_left Metrics = 2"
| "awaits_left Recording = 1"
| "awaits_left _ = 0"

lemma over_stays: "rj_stage j = Over \<Longrightarrow> foldl await_step (j, x) ws = (j, x)"
proof (induction ws)
  case (Cons w ws)
  then show ?case by (cases w) (simp_all add: proceed_def Let_def)
qed simp

lemma await_step_parts:
  assumes "await_step (j, x) w = (j', x')" and "rj_stage j \<notin> {Unstarted, Orchestrating, Over}"
  shows "rj_id j' = rj_id j" and "awaits_left (rj_stage j') < awaits_left (rj_stage j)"
    and "rj_stage j' \<notin> {Unstarted, Orchestrating}"
    and "row_status x' k = (if k = rj_id j \<and> \<not> lost w then map_option (writes_status j) (row_status x k) else row_status x k)"
    and "rj_stage j' = Over \<Longrightarrow> rj_id j \<notin> set (active_run_ids x')"
    and "lost w \<Longrightarrow> rj_stage j = Storing None \<Longrightarrow> \<exists>e. rj_stage j' = Storing (Some e)"
    and "\<not> (lost w \<and> rj_stage j = Storing None) \<Longrightarrow> \<not> lost w \<or> (\<forall>e. rj_stage j' \<noteq> Storing e)"
proof -
  have n: "rj_stage j \<noteq> Orchestrating" "rj_stage j \<noteq> Over" using assms(2) by auto
  have "rj_id j' = rj_id j \<and> awaits_left (rj_stage j') < awaits_left (rj_stage j) \<and>
      rj_stage j' \<notin> {Unstarted, Orchestrating} \<and>
      row_status x' k = (if k = rj_id j \<and> \<not> lost w then map_option (writes_status j) (row_status x k) else row_status x k) \<and>
      (rj_stage j' = Over \<longrightarrow> rj_id j \<notin> set (active_run_ids x')) \<and>
      (lost w \<longrightarrow> rj_stage j = Storing None \<longrightarrow> (\<exists>e. rj_stage j' = Storing (Some e))) \<and>
      (\<not> (lost w \<and> rj_stage j = Storing None) \<longrightarrow> \<not> lost w \<or> (\<forall>e. rj_stage j' \<noteq> Storing e))"
  proof (cases w)
    case (Returned now)
    then have p: "proceed now (j, x) = (j', x')" using assms(1) by simp
    note q = proceed_status[OF p] proceed_job(1)[OF p n(2,1)]
    show ?thesis using assms(2) Returned q(3)[of k]
      by (cases "rj_stage j") (auto simp: q(1,4,6) active_run_ids_def)
  next
    case (Raised e committed now)
    then have p: "break_off e committed now (j, x) = (j', x')" using assms(1) n(2) by simp
    note q = break_status[OF p n(1)]
    have "rj_stage j' = (case rj_stage j of Storing None \<Rightarrow> Storing (Some e) | Storing (Some e') \<Rightarrow> Metrics | _ \<Rightarrow> Over)"
      using p n by (cases "rj_stage j") (auto simp: break_off_def Let_def split: option.splits)
    then show ?thesis using assms(2) Raised q(3)[of k]
      by (cases "rj_stage j") (auto simp: q(1,4) active_run_ids_def split: option.splits)
  qed
  then show "rj_id j' = rj_id j" "awaits_left (rj_stage j') < awaits_left (rj_stage j)"
    "rj_stage j' \<notin> {Unstarted, Orchestrating}"
    "row_status x' k = (if k = rj_id j \<and> \<not> lost w then map_option (writes_status j) (row_status x k) else row_status x k)"
    "rj_stage j' = Over \<Longrightarrow> rj_id j \<notin> set (active_run_ids x')"
    "lost w \<Longrightarrow> rj_stage j = Storing None \<Longrightarrow> \<exists>e. rj_stage j' = Storing (Some e)"
    "\<not> (lost w \<and> rj_stage j = Storing None) \<Longrightarrow> \<not> lost w \<or> (\<forall>e. rj_stage j' \<noteq> Storing e)" by blast+
qed

lemma settles:
  assumes "foldl await_step (j, x) ws = (j', x')" and "rj_stage j \<notin> {Unstarted, Orchestrating}"
    and "awaits_left (rj_stage j) \<le> length ws" and "rj_stage j = Over \<Longrightarrow> rj_id j \<notin> set (active_run_ids x)"
  shows "rj_stage j' = Over \<and> rj_id j \<notin> set (active_run_ids x') \<and>
     (\<forall>k. k \<noteq> rj_id j \<longrightarrow> row_status x' k = row_status x k) \<and>
     (row_status x' (rj_id j) = Some ''running'' \<longleftrightarrow> row_status x (rj_id j) = Some ''running'' \<and>
        (\<forall>e. rj_stage j = Storing e \<longrightarrow> status_lost (e \<noteq> None) ws))"
  using assms
proof (induction ws arbitrary: j x)
  case Nil
  then show ?case by (cases "rj_stage j") (auto split: if_splits)
next
  case (Cons w ws)
  show ?case
  proof (cases "rj_stage j = Over")
    case True
    then show ?thesis using Cons.prems over_stays[OF True] by (auto simp del: foldl.simps)
  next
    case False
    obtain j1 x1 where s: "await_step (j, x) w = (j1, x1)" by (cases "await_step (j, x) w")
    have st: "rj_stage j \<notin> {Unstarted, Orchestrating, Over}" using Cons.prems(2) False by simp
    note a = await_step_parts[OF s st]
    have ih: "rj_stage j' = Over \<and> rj_id j1 \<notin> set (active_run_ids x') \<and>
       (\<forall>k. k \<noteq> rj_id j1 \<longrightarrow> row_status x' k = row_status x1 k) \<and>
       (row_status x' (rj_id j1) = Some ''running'' \<longleftrightarrow> row_status x1 (rj_id j1) = Some ''running'' \<and>
          (\<forall>e. rj_stage j1 = Storing e \<longrightarrow> status_lost (e \<noteq> None) ws))"
      by (rule Cons.IH) (use Cons.prems s a in \<open>auto simp: a(1)\<close>)
    have nw: "writes_status j y \<noteq> ''running''" if "rj_stage j = Storing e" for e y
      using that settle_status rs_value_running by (simp add: writes_status_def)
    have same: "writes_status j = (\<lambda>y. y)" if "\<And>e. rj_stage j \<noteq> Storing e"
      using that by (rule writes_no_status)
    show ?thesis
    proof (cases "rj_stage j")
      case (Storing e)
      have "row_status x1 (rj_id j) \<noteq> Some ''running''" if "\<not> lost w"
        using that nw[OF Storing] by (cases "row_status x (rj_id j)") (auto simp: a(4))
      moreover have "row_status x1 (rj_id j) = row_status x (rj_id j)" if "lost w" using that by (simp add: a(4))
      ultimately show ?thesis using ih a(1,4,6,7) Storing
        by (cases e; cases "lost w") (auto split: if_splits)
    qed (use ih a same st in \<open>auto simp: map_option_same split: if_splits\<close>)
  qed
qed

section \<open>A run that nobody works on\<close>

text \<open>It keeps its row, whatever the other tasks do.\<close>

lemma idle_row_step:
  assumes "work_step l (x, js) (x', js')" and "work_ok (x, js)" and "i \<notin> rj_id ` set js" and "row_status x i = Some st"
  shows "row_status x' i = Some st \<and> i \<notin> rj_id ` set js'"
proof (rule work_step_cases[OF assms(1)])
  fix kind task brain i' now b
  assume a: "js' = js @ [new_job i' kind task]" "submit kind task brain i' now (Inr b) x = (Inr i', x')"
  note rs = row_status_steps(1)[OF a(2)]
  then have "i' \<noteq> i" using assms(4) by force
  then show ?thesis using assms(3,4) rs by (auto simp: a(1) new_job_def)
next
  fix j now k payload
  assume "js' = js" "emit now (rj_id j) k payload x = (Inr (), x')"
  then show ?thesis using assms(3,4) row_status_steps(2) by fastforce
next
  fix i'
  assume "x' = snd (cancel i' x)" "js' = js"
  then show ?thesis using assms(3,4) by (simp add: row_status_steps(3))
next
  fix j :: run_job
  assume "js = js'" "x' = calm (rj_id j) x"
  then show ?thesis using assms(3,4) by simp
next
  fix j e
  assume a: "x' = x" "js' = put_job (enter e j) js" "j \<in> set js"
  then show ?thesis using assms(3,4) by (auto simp: put_job_def)
next
  fix j now j'
  assume a: "js' = put_job j' js" "j \<in> set js" "proceed now (j, x) = (j', x')"
  note p = proceed_status[OF a(3)]
  have "rj_id j \<noteq> i" using a(2) assms(3) by auto
  then show ?thesis using assms(3,4) p(1) by (auto simp: a(1) put_job_def p(3))
next
  fix j committed now j'
  assume a: "js' = put_job j' js" "j \<in> set js" "rj_stage j \<noteq> Orchestrating"
    "break_off CancelledError committed now (j, calm (rj_id j) x) = (j', x')"
  note b = break_status[OF a(4,3)]
  have "rj_id j \<noteq> i" using a(2) assms(3) by auto
  then show ?thesis using assms(3,4) b(1) by (auto simp: a(1) put_job_def b(3))
next
  fix j e committed now j'
  assume a: "js' = put_job j' js" "j \<in> set js" "rj_stage j \<noteq> Orchestrating"
    "break_off e committed now (j, x) = (j', x')"
  note b = break_status[OF a(4,3)]
  have "rj_id j \<noteq> i" using a(2) assms(3) by auto
  then show ?thesis using assms(3,4) b(1) by (auto simp: a(1) put_job_def b(3))
qed

lemma idle_row:
  assumes "work_run ls w w'" and "work_ok w" and "i \<notin> rj_id ` set (snd w)" and "row_status (fst w) i = Some st"
  shows "row_status (fst w') i = Some st \<and> i \<notin> rj_id ` set (snd w')"
  using assms
proof (induction rule: work_run.induct)
  case (more ls w w' l w'')
  obtain y ks y' ks' where w: "w' = (y, ks)" "w'' = (y', ks')" by (cases w'; cases w'')
  have "work_ok (y, ks)" using work_run_ok[OF more(1) more(4)] w(1) by blast
  moreover have "row_status y i = Some st" "i \<notin> rj_id ` set ks" using more w(1) by simp_all
  ultimately show ?case using idle_row_step[OF more(2)[unfolded w]] by (simp add: w(2))
qed simp

text \<open>A step of the job \<open>j\<close> that leaves it in \<open>j'\<close>.\<close>

lemma job_steps_on:
  assumes "work_run ls w (x, js)" and "work_step l (x, js) (x', put_job j' js)" and "work_ok w"
    and "j \<in> set js" and "rj_id j' = rj_id j"
  shows "work_run (ls @ [l]) w (x', put_job j' js)" and "work_ok (x', put_job j' js)"
    and "rj_stage j' \<noteq> Over \<Longrightarrow> j' \<in> set (put_job j' js)"
    and "rj_stage j' = Over \<Longrightarrow> rj_id j \<notin> rj_id ` set (put_job j' js)"
proof -
  have ok: "work_ok (x, js)" using work_run_ok[OF assms(1,3)] by blast
  show "work_run (ls @ [l]) w (x', put_job j' js)" by (rule work_run.more[OF assms(1,2)])
  show "work_ok (x', put_job j' js)" by (rule work_step_ok[OF assms(2) ok])
  have d: "distinct (map rj_id js)" and n: "\<forall>k\<in>set js. rj_stage k \<noteq> Over" using ok by (auto simp: job_ok_def)
  note p = put_job_set(1)[OF d assms(4,5) n]
  show "j' \<in> set (put_job j' js)" if "rj_stage j' \<noteq> Over" using that by (simp add: p)
  show "rj_id j \<notin> rj_id ` set (put_job j' js)" if "rj_stage j' = Over"
    using that d assms(4) by (auto simp: p distinct_map dest: inj_onD)
qed

lemma task_after:
  "map_of (ex_tasks (snd (cancel i x))) k = (if k = i \<and> map_of (ex_tasks x) i \<noteq> None then Some Cancelling else map_of (ex_tasks x) k)"
  "map_of (ex_tasks (calm i x)) k = (if k = i then map_option (\<lambda>_. Live) (map_of (ex_tasks x) i) else map_of (ex_tasks x) k)"
proof -
  show "map_of (ex_tasks (snd (cancel i x))) k = (if k = i \<and> map_of (ex_tasks x) i \<noteq> None then Some Cancelling else map_of (ex_tasks x) k)"
    by (cases "map_of (ex_tasks x) i") (auto simp: cancel_def update_conv')
  have "map_of (map (\<lambda>(k, st). (k, if k = i then Live else st)) ts) k =
      (if k = i then map_option (\<lambda>_. Live) (map_of ts i) else map_of ts k)" for ts :: "(string \<times> task_state) list"
    by (induction ts) auto
  then show "map_of (ex_tasks (calm i x)) k = (if k = i then map_option (\<lambda>_. Live) (map_of (ex_tasks x) i) else map_of (ex_tasks x) k)"
    by simp
qed

lemma has_task:
  assumes "work_ok (x, js)" and "j \<in> set js"
  shows "\<exists>st. map_of (ex_tasks x) (rj_id j) = Some st"
proof -
  have "rj_id j \<in> fst ` set (ex_tasks x)" using assms by (metis image_eqI work_ok.simps)
  then show ?thesis by (cases "map_of (ex_tasks x) (rj_id j)") (auto simp: map_of_eq_None_iff)
qed

lemma cancel_is_heard: "map_of (ex_tasks x) i = Some st \<Longrightarrow> fst (cancel i x)"
  by (simp add: cancel_def)

lemma second_cancel_path:
  assumes "work_ok (x, js)" and "j \<in> set js" and "rj_stage j = Orchestrating"
    and "row_status x (rj_id j) = Some ''running''"
  obtains x2 js2 x' js' where
    "work_run [W_cancel (rj_id j), W_go (rj_id j), W_go (rj_id j)] (x, js) (x2, js2)"
    "fst (cancel (rj_id j) x)" "fst (cancel (rj_id j) x2)"
    "work_run [W_cancel (rj_id j), W_break (rj_id j), W_go (rj_id j), W_go (rj_id j)] (x2, js2) (x', js')"
    "row_status x' (rj_id j) = Some ''running''" "cancel (rj_id j) x' = (False, x')"
    "map_option oc_outcome (sql_find oc_run (rj_id j) (db_outcomes (st_db (ex_store x')))) = Some ''partial''"
    "map fst (ex_tasks x2) = map fst (ex_tasks x)"
    "ex_tasks x' = filter (\<lambda>e. fst e \<noteq> rj_id j) (ex_tasks x')" "set (map fst (ex_tasks x')) \<subseteq> set (map fst (ex_tasks x))"
    "work_ok (x', js')"
proof -
  let ?i = "rj_id j"
  let ?x1 = "snd (cancel ?i x)" let ?x2 = "calm ?i ?x1"
  let ?j2 = "enter (Some CancelledError) j" let ?js2 = "put_job ?j2 js"
  let ?x3 = "snd (cancel ?i ?x2)" let ?x4 = "calm ?i ?x3"
  let ?j4 = "?j2\<lparr>rj_stage := Metrics\<rparr>"
  let ?js4 = "put_job ?j4 ?js2"
  obtain st where t: "map_of (ex_tasks x) ?i = Some st" using has_task[OF assms(1,2)] by blast
  have live: "map_of (ex_tasks ?x2) ?i = Some Live" "map_of (ex_tasks ?x4) ?i = Some Live"
    and cc: "map_of (ex_tasks ?x1) ?i = Some Cancelling" "map_of (ex_tasks ?x3) ?i = Some Cancelling"
    by (simp_all add: task_after t del: calm_simps(4))
  have "work_run [] (x, js) (x, js)" by (rule work_run.none)
  from work_run.more[OF this work_step.cancelled[of ?i]]
  have r1: "work_run [W_cancel ?i] (x, js) (?x1, js)" by simp
  from work_run.more[OF r1 work_step.unwinds[OF assms(2,3) cc(1)]]
  have r2: "work_run [W_cancel ?i, W_go ?i] (x, js) (?x2, js)" by simp
  note e2 = work_step.ends[OF assms(2,3) live(1), of "Some CancelledError"]
  have i2: "rj_id ?j2 = ?i" by simp
  note o2 = job_steps_on[OF r2 e2 assms(1,2) i2]
  have m2: "?j2 \<in> set ?js2" by (rule o2(3)) simp
  have r0: "work_run [] (?x2, ?js2) (?x2, ?js2)" by (rule work_run.none)
  from work_run.more[OF r0 work_step.cancelled[of ?i]]
  have r3: "work_run [W_cancel ?i] (?x2, ?js2) (?x3, ?js2)" by simp
  have b: "break_off CancelledError False 0 (?j2, calm (rj_id ?j2) ?x3) = (?j4, ?x4)" by (simp add: break_off_def)
  have "work_step (W_break (rj_id ?j2)) (?x3, ?js2) (?x4, ?js4)"
    by (rule work_step.thrown[OF m2 _ _ b]) (use cc(2) in simp_all)
  from job_steps_on[OF r3 this o2(2) m2]
  have r4: "work_run [W_cancel ?i, W_break ?i] (?x2, ?js2) (?x4, ?js4)" and m4: "?j4 \<in> set ?js4" by simp_all
  obtain j5 x5 where p5: "proceed 0 (?j4, ?x4) = (j5, x5)" by (cases "proceed 0 (?j4, ?x4)")
  note q5 = proceed_status[OF p5] proceed_job[OF p5]
  have "work_step (W_go (rj_id ?j4)) (?x4, ?js4) (x5, put_job j5 ?js4)"
    by (rule work_step.proceeds[OF m4 _ _ p5]) (use live(2) in simp_all)
  from job_steps_on[OF r4 this o2(2) m4 q5(1)]
  have r5: "work_run [W_cancel ?i, W_break ?i, W_go ?i] (?x2, ?js2) (x5, put_job j5 ?js4)"
    and m5: "j5 \<in> set (put_job j5 ?js4)" using q5(6) by simp_all
  have j5: "rj_id j5 = ?i" "rj_stage j5 = Recording" "rj_final j5 = Aborted"
    using q5 by (simp_all add: settle_def ended_with_def)
  have live5: "map_of (ex_tasks x5) ?i = Some Live" using q5(4) live(2) by simp
  obtain j6 x6 where p6: "proceed 0 (j5, x5) = (j6, x6)" by (cases "proceed 0 (j5, x5)")
  note q6 = proceed_status[OF p6] proceed_job[OF p6]
  let ?js6 = "put_job j6 (put_job j5 ?js4)"
  have "work_step (W_go (rj_id j5)) (x5, put_job j5 ?js4) (x6, ?js6)"
    by (rule work_step.proceeds[OF m5 _ _ p6]) (use j5 live5 in simp_all)
  note o6 = job_steps_on[OF r5 this o2(2) m5 q6(1)]
  have "row_status x5 ?i = Some ''running''" using assms(4) q5(3) by (simp add: writes_no_status map_option_same row_status_steps(3))
  then have run: "row_status x6 ?i = Some ''running''" by (simp add: q6(3) writes_no_status j5 map_option_same)
  have gone: "cancel ?i x6 = (False, x6)"
    using q6(4) j5 by (simp add: cancel_def map_of_filter_key)
  have oc: "map_option oc_outcome (sql_find oc_run ?i (db_outcomes (st_db (ex_store x6)))) = Some ''partial''"
  proof -
    have up: "map_option oc_outcome (sql_find oc_run i (sql_upsert oc_run (\<lambda>new old. new) o' rows)) = Some (oc_outcome o')"
      if "oc_run o' = i" for o' rows i
      using that by (induction rows) (auto simp: sql_upsert_def sql_update_def sql_find_def split: if_splits)
    have "ex_store x6 = statement 0 j5 (ex_store x5)" using p6 j5 by (auto simp: proceed_def Let_def)
    then show ?thesis
      by (simp add: statement_def j5 derive_from_status_def upsert_run_outcome_def upd_db_def up)
  qed
  have cn: "map fst (ex_tasks (snd (cancel k z))) = map fst (ex_tasks z)" for k z
    by (cases "map_of (ex_tasks z) k") (auto simp: cancel_def update_keys dest!: map_of_SomeD intro: rev_image_eqI)
  have cm: "map fst (ex_tasks (calm k z)) = map fst (ex_tasks z)" for k z by (simp add: comp_def case_prod_beta)
  have k2: "map fst (ex_tasks ?x2) = map fst (ex_tasks x)" "map fst (ex_tasks ?x4) = map fst (ex_tasks x)"
    by (simp_all only: cn cm)
  have e6: "ex_tasks x6 = filter (\<lambda>e. fst e \<noteq> ?i) (ex_tasks ?x4)"
    using q5(4) q6(4) j5 by (simp del: calm_simps(4))
  have t6: "ex_tasks x6 = filter (\<lambda>e. fst e \<noteq> ?i) (ex_tasks x6)" "set (map fst (ex_tasks x6)) \<subseteq> set (map fst (ex_tasks ?x4))"
    unfolding e6 by (auto simp del: calm_simps(4))
  have w1: "work_run [W_cancel ?i, W_go ?i, W_go ?i] (x, js) (?x2, ?js2)" using o2(1) by simp
  have w2: "work_run [W_cancel ?i, W_break ?i, W_go ?i, W_go ?i] (?x2, ?js2) (x6, ?js6)" using o6(1) j5 by simp
  show thesis
    by (rule that[OF w1 cancel_is_heard[OF t] cancel_is_heard[OF live(1)] w2 run gone oc k2(1) t6(1) _ o6(2)])
      (use t6(2)[unfolded k2(2)] in simp)
qed

section \<open>Properties\<close>

text \<open>
  The await-by-await description refines the one in a single operation: a settlement that nothing
  interrupts is \<open>finish\<close>, and one that starts with an error while the success is being stored is
  the settlement of a run whose orchestrator raised that error.
\<close>

theorem settling_is_finish:
  "snd (foldl await_step (enter e j, x) [Returned now, Returned now, Returned now]) =
     finish (rj_start j) now (rj_id j) (rj_kind j) (rj_task j) (ended_with e) x \<and>
   snd (foldl await_step (enter None j, x) [Raised err False t, Returned now, Returned now, Returned now]) =
     finish (rj_start j) now (rj_id j) (rj_kind j) (rj_task j) (Inl err) x"
proof -
  have fin: "snd (foldl await_step (enter e k, x) [Returned now, Returned now, Returned now]) =
      finish (rj_start k) now (rj_id k) (rj_kind k) (rj_task k) (ended_with e) x" for e k
  proof -
    obtain status err what payload where st: "settle (rj_kind k) (ended_with e) = (status, err, what, payload)"
      by (cases "settle (rj_kind k) (ended_with e)")
    obtain oc sc where d: "derive_from_status status = (oc, sc)" by fastforce
    show ?thesis
      by (simp add: proceed_def Let_def statement_def enter_def finish_def finished_payload_def publish_run_def
          drop_task_def st d)
  qed
  moreover have "await_step (enter None j, x) (Raised err False t) = (enter (Some err) (enter None j), x)"
    by (simp add: break_off_def)
  ultimately show ?thesis
    using fin[of "Some err" "enter None j"] by (simp add: ended_with_def) (simp add: enter_def)
qed

text \<open>
  C11: Whatever the awaits of a settlement do, it ends after at most four of them, the task is gone and no
  other run's row has changed; the row stays running exactly when no statement about the status took
  effect: neither the first one nor, after a success that could not be stored, the handler's.
\<close>

theorem settling_always_ends:
  assumes "rj_stage j = Storing e" and "row_status x (rj_id j) = Some ''running''" and "4 \<le> length ws"
    and "foldl await_step (j, x) ws = (j', x')"
  shows "rj_stage j' = Over \<and> rj_id j \<notin> set (active_run_ids x') \<and>
     (\<forall>k. k \<noteq> rj_id j \<longrightarrow> row_status x' k = row_status x k) \<and>
     (row_status x' (rj_id j) = Some ''running'' \<longleftrightarrow> status_lost (e \<noteq> None) ws)"
  using settles[OF assms(4)] assms(1,2,3) by auto

text \<open>
  C10: Tasks of many runs interleaved, with cancellations and errors anywhere: a run whose own settlement is
  not broken off is stored as running exactly while its task has not stored its end, and afterwards
  with its final status.
\<close>

theorem undisturbed_runs_are_stored_right:
  assumes "exec_inv x0" and "ex_tasks x0 = []" and "work_run ls (x0, []) (x, js)" and "W_break i \<notin> set ls"
  shows "(row_status x i = Some ''running'' \<longleftrightarrow> (\<exists>j\<in>set js. rj_id j = i \<and> unsettled j)) \<and>
     (\<forall>j\<in>set js. rj_id j = i \<and> \<not> unsettled j \<longrightarrow> row_status x i = Some (rs_value (rj_final j)))"
proof -
  have "work_ok (x0, [])" "run_ok i (x0, [])"
    using assms(1,2) by (auto simp: exec_inv_def active_run_ids_def)
  from work_run_ok[OF assms(3) this(1)] this(2) assms(4)
  have "work_ok (x, js)" and r: "run_ok i (x, js)" by blast+
  then have "rj_final j \<noteq> Running" if "j \<in> set js" for j using that by (auto simp: job_ok_def)
  then show ?thesis using r rs_value_running by (auto split: if_splits)
qed

text \<open>
  C37: Cancelling a run twice can leave it running for ever.  Any run in the orchestrator can be cancelled,
  stop, and be cancelled again while it waits to store its end; both requests are answered with yes.
  The task then goes on to record the run's outcome and to announce its end, but the row keeps the
  status running, the run is not active and cannot be cancelled, and nothing that other tasks do
  changes this.
\<close>

theorem second_cancel_strands_a_run:
  assumes "work_ok (x, js)" and "j \<in> set js" and "rj_stage j = Orchestrating"
    and "row_status x (rj_id j) = Some ''running''"
  shows "\<exists>x2 js2 x' js'.
     work_run [W_cancel (rj_id j), W_go (rj_id j), W_go (rj_id j)] (x, js) (x2, js2) \<and>
     fst (cancel (rj_id j) x) \<and> fst (cancel (rj_id j) x2) \<and>
     work_run [W_cancel (rj_id j), W_break (rj_id j), W_go (rj_id j), W_go (rj_id j)] (x2, js2) (x', js') \<and>
     row_status x' (rj_id j) = Some ''running'' \<and> cancel (rj_id j) x' = (False, x') \<and>
     map_option oc_outcome (sql_find oc_run (rj_id j) (db_outcomes (st_db (ex_store x')))) = Some ''partial'' \<and>
     (\<forall>ls y ks. work_run ls (x', js') (y, ks) \<longrightarrow> row_status y (rj_id j) = Some ''running'')"
proof -
  obtain x2 js2 x' js' where a: "work_run [W_cancel (rj_id j), W_go (rj_id j), W_go (rj_id j)] (x, js) (x2, js2)"
    "fst (cancel (rj_id j) x)" "fst (cancel (rj_id j) x2)"
    "work_run [W_cancel (rj_id j), W_break (rj_id j), W_go (rj_id j), W_go (rj_id j)] (x2, js2) (x', js')"
    "row_status x' (rj_id j) = Some ''running''" "cancel (rj_id j) x' = (False, x')"
    "map_option oc_outcome (sql_find oc_run (rj_id j) (db_outcomes (st_db (ex_store x')))) = Some ''partial''"
    and ok: "work_ok (x', js')"
    by (rule second_cancel_path[OF assms])
  have "map_of (ex_tasks x') (rj_id j) = None" using a(6) by (simp add: cancel_def split: option.splits)
  then have "rj_id j \<notin> rj_id ` set js'" using ok by (simp add: map_of_eq_None_iff)
  then have "\<forall>ls y ks. work_run ls (x', js') (y, ks) \<longrightarrow> row_status y (rj_id j) = Some ''running''"
    using idle_row[OF _ ok, of _ _ "rj_id j" "''running''"] a(5) by fastforce
  with a show ?thesis by blast
qed

text \<open>
  A cancellation that finds the statement in its thread leaves the cache behind: the database has the
  run's final status, and the cached record, which says running, is what later reads return.
\<close>

theorem interrupted_write_leaves_stale_cache:
  assumes "map_of (st_lru (ex_store x)) (rj_id j) = Some r" and "rn_status r = Running"
    and "row_status x (rj_id j) = Some ''running''" and "rj_stage j = Storing e"
    and "break_off CancelledError True now (j, x) = (j', x')"
  shows "row_status x' (rj_id j) = Some (rs_value (fst (settle (rj_kind j) (ended_with e)))) \<and>
     row_status x' (rj_id j) \<noteq> Some ''running'' \<and> fst (get_run (rj_id j) (ex_store x')) = Inr (Some r)"
proof -
  have n: "rj_stage j \<noteq> Orchestrating" using assms(4) by simp
  have "st_lru (ex_store x') = st_lru (ex_store x)"
    using assms(4,5) by (cases e) (auto simp: break_off_def commit_only_def Let_def)
  then have "fst (get_run (rj_id j) (ex_store x')) = Inr (Some r)" using assms(1) by (simp add: get_run_def)
  moreover have "row_status x' (rj_id j) = Some (rs_value (fst (settle (rj_kind j) (ended_with e))))"
    using break_status(3)[OF assms(5) n] assms(3,4) by (simp add: writes_status_def)
  ultimately show ?thesis using settle_status rs_value_running by simp
qed

section \<open>Witnesses\<close>

definition sample_job :: run_job where
  "sample_job = (new_job ''r1'' RK_run ''t'')\<lparr>rj_stage := Orchestrating, rj_start := 2\<rparr>"

lemma sample_work:
  "\<exists>x. work_run [W_submit ''r1'', W_go ''r1''] (new_executor, []) (x, [sample_job]) \<and>
     row_status x ''r1'' = Some ''running'' \<and> distinct (map fst (ex_tasks x))"
proof -
  obtain x where s: "submit RK_run ''t'' ''auto'' ''r1'' 1 (Inr (Claude_brain ''m'')) new_executor = (Inr ''r1'', x)"
    by (simp add: submit_def insert_run_def sql_insert_def new_executor_def empty_store_def empty_db_def Let_def)
  let ?j = "new_job ''r1'' RK_run ''t''"
  have "work_run [W_submit ''r1''] (new_executor, []) (x, [] @ [?j])"
    using work_run.more[OF work_run.none work_step.submitted[OF s, of "[]"]] by simp
  then have r: "work_run [W_submit ''r1''] (new_executor, []) (x, [?j])" by simp
  have t: "map_of (ex_tasks x) ''r1'' = Some Live" by (simp add: submit_parts[OF s] update_conv')
  have p: "proceed 2 (?j, x) = (sample_job, x)" by (simp add: proceed_def sample_job_def new_job_def Let_def)
  have "work_step (W_go (rj_id ?j)) (x, [?j]) (x, put_job sample_job [?j])"
    by (rule work_step.proceeds[OF _ _ _ p]) (use t in \<open>simp_all add: new_job_def\<close>)
  moreover have "put_job sample_job [?j] = [sample_job]" "rj_id ?j = ''r1''"
    by (simp_all add: put_job_def sample_job_def new_job_def)
  ultimately have "work_run [W_submit ''r1'', W_go ''r1''] (new_executor, []) (x, [sample_job])"
    using work_run.more[OF r] by fastforce
  moreover have "distinct (map fst (ex_tasks x))" by (simp add: submit_parts[OF s] new_executor_def)
  ultimately show ?thesis using row_status_steps(1)[OF s, of "''r1''"] by auto
qed

theorem settling_always_ends_witness:
  "\<exists>x j' x'. row_status x ''r1'' = Some ''running'' \<and>
     foldl await_step (enter None sample_job, x) [Raised TimeoutError False 1, Raised CancelledError False 2, Returned 3, Returned 4] = (j', x') \<and>
     rj_stage j' = Over \<and> row_status x' ''r1'' = Some ''running''"
proof -
  obtain x where x: "row_status x ''r1'' = Some ''running''" using sample_work by blast
  let ?ws = "[Raised TimeoutError False 1, Raised CancelledError False 2, Returned 3, Returned 4]"
  obtain j' x' where f: "foldl await_step (enter None sample_job, x) ?ws = (j', x')"
    by (cases "foldl await_step (enter None sample_job, x) ?ws")
  have i: "rj_id (enter None sample_job) = ''r1''" "rj_stage (enter None sample_job) = Storing None"
    by (simp_all add: sample_job_def new_job_def)
  from settling_always_ends[OF i(2), of x ?ws j' x'] x f
  have "rj_stage j' = Over \<and> row_status x' ''r1'' = Some ''running''" by (simp only: i(1)) simp
  with x f show ?thesis by blast
qed

theorem undisturbed_runs_are_stored_right_witness:
  "\<exists>x. work_run [W_submit ''r1'', W_go ''r1''] (new_executor, []) (x, [sample_job]) \<and>
     row_status x ''r1'' = Some ''running''"
proof -
  obtain x where r: "work_run [W_submit ''r1'', W_go ''r1''] (new_executor, []) (x, [sample_job])"
    using sample_work by blast
  have "\<exists>j\<in>set [sample_job]. rj_id j = ''r1'' \<and> unsettled j"
    by (simp add: sample_job_def new_job_def unsettled_def)
  with undisturbed_runs_are_stored_right[OF new_executor_inv _ r, of "''r1''"] r show ?thesis
    by (auto simp: new_executor_def)
qed

theorem second_cancel_strands_a_run_witness:
  "\<exists>x x2 js2 x' js'. row_status x ''r1'' = Some ''running'' \<and> fst (cancel ''r1'' x) \<and> fst (cancel ''r1'' x2) \<and>
     work_run [W_cancel ''r1'', W_go ''r1'', W_go ''r1''] (x, [sample_job]) (x2, js2) \<and>
     work_run [W_cancel ''r1'', W_break ''r1'', W_go ''r1'', W_go ''r1''] (x2, js2) (x', js') \<and>
     row_status x' ''r1'' = Some ''running'' \<and> cancel ''r1'' x' = (False, x')"
proof -
  obtain x where r: "work_run [W_submit ''r1'', W_go ''r1''] (new_executor, []) (x, [sample_job])"
    and s: "row_status x ''r1'' = Some ''running''" using sample_work by blast
  have "work_ok (new_executor, [])" by (simp add: new_executor_def)
  with work_run_ok[OF r] have ok: "work_ok (x, [sample_job])" by blast
  have j: "rj_id sample_job = ''r1''" "rj_stage sample_job = Orchestrating" by (simp_all add: sample_job_def new_job_def)
  from second_cancel_strands_a_run[OF ok _ j(2)] s j(1) show ?thesis by fastforce
qed

definition sample_record :: run_record where
  "sample_record = \<lparr>rn_id = ''r1'', rn_kind = RK_run, rn_task = ''t'', rn_brain = ''auto'', rn_status = Running,
     rn_started_at = 1, rn_ended_at = None, rn_error = None, rn_events = []\<rparr>"

theorem interrupted_write_leaves_stale_cache_witness:
  "\<exists>x j' x'. break_off CancelledError True 9 (enter (Some CancelledError) sample_job, x) = (j', x') \<and>
     row_status x' ''r1'' = Some ''aborted'' \<and> fst (get_run ''r1'' (ex_store x')) = Inr (Some sample_record)"
proof -
  obtain x where x: "row_status x ''r1'' = Some ''running''" using sample_work by blast
  let ?x = "x\<lparr>ex_store := (ex_store x)\<lparr>st_lru := [(''r1'', sample_record)]\<rparr>\<rparr>"
  let ?j = "enter (Some CancelledError) sample_job"
  obtain j' x' where b: "break_off CancelledError True 9 (?j, ?x) = (j', x')"
    by (cases "break_off CancelledError True 9 (?j, ?x)")
  have c: "map_of (st_lru (ex_store ?x)) (rj_id ?j) = Some sample_record" "rn_status sample_record = Running"
    "row_status ?x (rj_id ?j) = Some ''running''" "rj_stage ?j = Storing (Some CancelledError)" "rj_id ?j = ''r1''"
    "rj_kind ?j = RK_run"
    using x by (simp_all add: sample_job_def new_job_def sample_record_def row_status_def)
  from interrupted_write_leaves_stale_cache[OF c(1-4) b] b c(5,6) show ?thesis
    by (auto simp: settle_def ended_with_def)
qed

end
