(* ===== verification/Lifecycle.thy ===== *)
theory Lifecycle
  imports Settling
begin

text \<open>
  The life of the daemon over many starts and stops: \<open>run\<close> of \<open>daemon/main.py\<close>, \<open>serve\<close> of
  \<open>daemon/server.py\<close> and what a new process finds of the one before it.  The parts are those of
  \<open>Startup\<close> and \<open>Rpc\<close>; here are the phases, the socket file and the connections that keep the server
  from closing.
\<close>

section \<open>Phases\<close>

text \<open>
  \<open>Draining\<close> is from the signal until the server's task has ended, \<open>Closing\<close> from there to the end of
  \<open>AppState.close\<close>.
\<close>

datatype phase = Down | Up | Draining | Closing

text \<open>The socket file: none, left by a process that is gone, or that of the server.\<close>

datatype socket_file = Absent | Stale | Bound

text \<open>
  While the daemon is down, \<open>lf_daemon\<close> stands for what is on disk: the database and the files.
  \<open>lf_clients\<close> counts the open connections.
\<close>

record life =
  lf_phase :: phase
  lf_daemon :: daemon
  lf_registry :: registry
  lf_learner :: "(learner \<times> subscriber) option"
  lf_socket :: socket_file
  lf_clients :: nat

definition installed :: life where
  "installed = \<lparr>lf_phase = Down, lf_daemon = new_daemon, lf_registry = new_registry, lf_learner = None,
     lf_socket = Absent, lf_clients = 0\<rparr>"

text \<open>What a new process has of the store: the database; \<open>v\<close> tells whether the vector extension loads.\<close>

definition at_rest :: "bool \<Rightarrow> store \<Rightarrow> store" where
  "at_rest v s = s\<lparr>st_lru := [], st_vec_ok := v\<rparr>"

text \<open>The first part of the shutdown: the active runs are cancelled, the server stops listening.\<close>

definition begin_shutdown :: "life \<Rightarrow> life" where
  "begin_shutdown L = (let D = lf_daemon L
     in L\<lparr>lf_phase := Draining, lf_daemon := D\<lparr>dm_exec := cancel_all (dm_exec D)\<rparr>, lf_socket := Absent\<rparr>)"

text \<open>\<open>serve\<close>: a file that is there is removed before the socket is bound.\<close>

definition serve_socket :: "socket_file \<Rightarrow> socket_file" where
  "serve_socket f = (let f1 = (if f \<noteq> Absent then Absent else f) in if f1 = Absent then Bound else f1)"

definition lose_tasks :: "daemon \<Rightarrow> daemon" where
  "lose_tasks D = D\<lparr>dm_exec := (dm_exec D)\<lparr>ex_tasks := []\<rparr>\<rparr>"

datatype life_label = Start | Inside | Connect | Disconnect | Signal | Drained | Stopped | Killed

inductive life_step :: "life_label \<Rightarrow> life \<Rightarrow> life \<Rightarrow> bool" where
  start: "lf_phase L = Down \<Longrightarrow>
    open_state cfg E dir eps (at_rest v (dm_store (lf_daemon L))) (lf_daemon L) = Inr (D, rg, l) \<Longrightarrow>
    life_step Start L \<lparr>lf_phase = Up, lf_daemon = D, lf_registry = rg, lf_learner = l,
      lf_socket = serve_socket (lf_socket L), lf_clients = 0\<rparr>"
| inside: "lf_phase L \<noteq> Down \<Longrightarrow> daemon_step (lf_daemon L) D \<Longrightarrow> life_step Inside L (L\<lparr>lf_daemon := D\<rparr>)"
| connect: "lf_phase L = Up \<Longrightarrow> life_step Connect L (L\<lparr>lf_clients := Suc (lf_clients L)\<rparr>)"
| disconnect: "lf_phase L \<noteq> Down \<Longrightarrow> lf_clients L = Suc n \<Longrightarrow> life_step Disconnect L (L\<lparr>lf_clients := n\<rparr>)"
| signal: "lf_phase L = Up \<Longrightarrow> life_step Signal L (begin_shutdown L)"
| drained: "lf_phase L = Draining \<Longrightarrow> lf_clients L = 0 \<Longrightarrow>
    close_state (lf_registry L) (lf_learner L) (lf_daemon L) = (Inr (), rg, D) \<Longrightarrow>
    life_step Drained L (L\<lparr>lf_phase := Closing, lf_daemon := D, lf_registry := rg\<rparr>)"
| stopped: "lf_phase L = Closing \<Longrightarrow> active_run_ids (dm_exec (lf_daemon L)) = [] \<Longrightarrow>
    life_step Stopped L (L\<lparr>lf_phase := Down\<rparr>)"
| killed: "lf_phase L \<noteq> Down \<Longrightarrow> life_step Killed L (L\<lparr>lf_phase := Down, lf_daemon := lose_tasks (lf_daemon L),
    lf_socket := (if lf_socket L = Bound then Stale else lf_socket L), lf_clients := 0\<rparr>)"

inductive life_run :: "life_label list \<Rightarrow> life \<Rightarrow> life \<Rightarrow> bool" where
  none: "life_run [] L L"
| more: "life_run ls L L' \<Longrightarrow> life_step a L' L'' \<Longrightarrow> life_run (ls @ [a]) L L''"

inductive_cases life_step_cases: "life_step a L L'"

section \<open>Opening and closing once more\<close>

lemma opened_inv:
  assumes "open_state cfg E dir eps s files = Inr (D, rg, l)" and "st_lru s = []"
    and "\<And>i. status_of (st_db s) i \<noteq> Some ''running''"
    and "\<And>i. status_of (st_db s) i = None \<Longrightarrow> filter (\<lambda>e. er_run e = i) (db_events (st_db s)) = []"
  shows "exec_inv (dm_exec D)"
proof -
  note p = opened_parts[OF assms(1)]
  have "coherent s" using assms(2) by (simp add: coherent_def)
  then show ?thesis using p assms(3,4)
    by (simp add: exec_inv_def active_run_ids_def row_status_of seqs_of_def)
qed

lemma closed_parts:
  assumes "close_state rg l D = (Inr (), rg', D')"
  shows "\<exists>b. dm_exec D' = close_all ((dm_exec D)\<lparr>ex_bus := b\<rparr>) \<and> (bus_ok (ex_bus (dm_exec D)) \<longrightarrow> bus_ok b)"
proof -
  let ?b = "case l of None \<Rightarrow> ex_bus (dm_exec D) | Some (_, sub) \<Rightarrow> unsubscribe (ex_bus (dm_exec D)) T_runs (sb_id sub)"
  have "dm_exec D' = close_all ((dm_exec D)\<lparr>ex_bus := ?b\<rparr>)"
    using assms by (auto simp: close_state_def Let_def split: prod.splits sum.splits)
  moreover have "bus_ok (ex_bus (dm_exec D)) \<longrightarrow> bus_ok ?b"
    by (simp add: unsubscribe_ok split: option.split)
  ultimately show ?thesis by blast
qed

lemma exec_inv_bus: "exec_inv x \<Longrightarrow> bus_ok b \<Longrightarrow> exec_inv (x\<lparr>ex_bus := b\<rparr>)"
  by (simp add: exec_inv_def active_run_ids_def row_status_def seqs_of_def numbered_def)

lemma get_run_db: "st_db (snd (get_run i s)) = st_db s"
  by (simp add: get_run_def cache_run_def Let_def split: option.split sum.split)

text \<open>A run without a task keeps its row.\<close>

definition unworked :: "string \<Rightarrow> string \<Rightarrow> executor \<Rightarrow> bool" where
  "unworked i st x \<longleftrightarrow> row_status x i = Some st \<and> i \<notin> set (active_run_ids x)"

interpretation unworked: executor_property "unworked i st" for i st
proof
  fix x x' s j
  show "exec_step x x' \<Longrightarrow> unworked i st x \<Longrightarrow> unworked i st x'" unfolding unworked_def using idle_run_stays by blast
  assume q: "unworked i st x"
  then show "unworked i st (x\<lparr>ex_store := snd (get_run j (ex_store x))\<rparr>)"
    by (simp add: unworked_def row_status_def active_run_ids_def get_run_db)
  show "unworked i st (x\<lparr>ex_store := s\<rparr>)" if "same_runs (ex_store x) s"
    using q that by (simp add: unworked_def row_status_def active_run_ids_def same_runs_def)
  show "unworked i st (close_all x)"
    using q by (simp add: unworked_def row_status_def active_run_ids_def close_all_def comp_def case_prod_beta)
qed

section \<open>Invariants\<close>

text \<open>Up, the executor's invariant holds; down, no row is running and no event is without its run.\<close>

definition life_inv :: "life \<Rightarrow> bool" where
  "life_inv L \<longleftrightarrow> exec_inv (dm_exec (lf_daemon L)) \<and>
     (lf_phase L = Down \<longrightarrow> active_run_ids (dm_exec (lf_daemon L)) = [])"

lemma installed_inv: "life_inv installed"
  by (simp add: life_inv_def installed_def new_daemon_def new_executor_inv)
    (simp add: new_executor_def active_run_ids_def)

lemma life_step_inv:
  assumes "life_step a L L'" and "life_inv L" and "a \<noteq> Killed"
  shows "life_inv L'"
proof (rule life_step_cases[OF assms(1)])
  fix cfg E dir eps v D rg l
  assume a: "L' = \<lparr>lf_phase = Up, lf_daemon = D, lf_registry = rg, lf_learner = l,
      lf_socket = serve_socket (lf_socket L), lf_clients = 0\<rparr>" "lf_phase L = Down"
    "open_state cfg E dir eps (at_rest v (dm_store (lf_daemon L))) (lf_daemon L) = Inr (D, rg, l)"
  let ?x = "dm_exec (lf_daemon L)"
  have x: "exec_inv ?x" "active_run_ids ?x = []" using assms(2) a(2) by (simp_all add: life_inv_def)
  have db: "st_db (at_rest v (dm_store (lf_daemon L))) = st_db (ex_store ?x)"
    by (simp add: at_rest_def dm_store_def)
  have lru: "st_lru (at_rest v (dm_store (lf_daemon L))) = []" by (simp add: at_rest_def)
  have "row_status ?x i \<noteq> Some ''running''" for i using x by (simp add: exec_inv_def)
  moreover have "seqs_of ?x i = []" if "row_status ?x i = None" for i using x(1) that by (simp add: exec_inv_def)
  ultimately have "exec_inv (dm_exec D)"
    by (intro opened_inv[OF a(3)]) (simp_all add: lru db row_status_of seqs_of_def)
  then show ?thesis by (simp add: a(1) life_inv_def)
next
  fix D
  assume "L' = L\<lparr>lf_daemon := D\<rparr>" "lf_phase L \<noteq> Down" "daemon_step (lf_daemon L) D"
  then show ?thesis using assms(2) runs.daemon_step_keeps by (simp add: life_inv_def)
next
  fix rg D
  assume a: "L' = L\<lparr>lf_phase := Closing, lf_daemon := D, lf_registry := rg\<rparr>"
    "close_state (lf_registry L) (lf_learner L) (lf_daemon L) = (Inr (), rg, D)"
  obtain b where b: "dm_exec D = close_all ((dm_exec (lf_daemon L))\<lparr>ex_bus := b\<rparr>)"
    "bus_ok (ex_bus (dm_exec (lf_daemon L))) \<longrightarrow> bus_ok b" using closed_parts[OF a(2)] by blast
  have "exec_inv (dm_exec (lf_daemon L))" using assms(2) by (simp add: life_inv_def)
  then have "exec_inv ((dm_exec (lf_daemon L))\<lparr>ex_bus := b\<rparr>)"
    using b(2) by (intro exec_inv_bus) (auto simp: exec_inv_def)
  then show ?thesis using runs.closing by (simp add: a(1) b(1) life_inv_def)
qed (use assms(2,3) runs.cancel_all_keeps in \<open>auto simp: life_inv_def begin_shutdown_def Let_def\<close>)

lemma life_run_inv: "life_run ls L L' \<Longrightarrow> life_inv L \<Longrightarrow> Killed \<notin> set ls \<Longrightarrow> life_inv L'"
  by (induction rule: life_run.induct) (auto intro: life_step_inv)

lemma life_step_idle:
  assumes "life_step a L L'" and "unworked i st (dm_exec (lf_daemon L))"
  shows "unworked i st (dm_exec (lf_daemon L'))"
proof (rule life_step_cases[OF assms(1)])
  fix cfg E dir eps v D rg l
  assume a: "L' = \<lparr>lf_phase = Up, lf_daemon = D, lf_registry = rg, lf_learner = l,
      lf_socket = serve_socket (lf_socket L), lf_clients = 0\<rparr>"
    "open_state cfg E dir eps (at_rest v (dm_store (lf_daemon L))) (lf_daemon L) = Inr (D, rg, l)"
  show ?thesis using assms(2) opened_parts[OF a(2)]
    by (simp add: a(1) unworked_def row_status_def active_run_ids_def at_rest_def dm_store_def)
next
  fix D
  assume "L' = L\<lparr>lf_daemon := D\<rparr>" "daemon_step (lf_daemon L) D"
  then show ?thesis using assms(2) unworked.daemon_step_keeps by simp
next
  fix rg D
  assume a: "L' = L\<lparr>lf_phase := Closing, lf_daemon := D, lf_registry := rg\<rparr>"
    "close_state (lf_registry L) (lf_learner L) (lf_daemon L) = (Inr (), rg, D)"
  obtain b where b: "dm_exec D = close_all ((dm_exec (lf_daemon L))\<lparr>ex_bus := b\<rparr>)"
    using closed_parts[OF a(2)] by blast
  have "unworked i st ((dm_exec (lf_daemon L))\<lparr>ex_bus := b\<rparr>)"
    using assms(2) by (simp add: unworked_def row_status_def active_run_ids_def)
  then show ?thesis using unworked.closing by (simp add: a(1) b)
next
  assume "L' = begin_shutdown L"
  then show ?thesis using assms(2) unworked.cancel_all_keeps by (simp add: begin_shutdown_def Let_def)
qed (use assms(2) in \<open>auto simp: lose_tasks_def unworked_def row_status_def active_run_ids_def\<close>)

lemma life_run_idle:
  "life_run ls L L' \<Longrightarrow> unworked i st (dm_exec (lf_daemon L)) \<Longrightarrow> unworked i st (dm_exec (lf_daemon L'))"
  by (induction rule: life_run.induct) (auto intro: life_step_idle)

text \<open>Down means that there are no tasks, and the socket file tells the phase.\<close>

definition phase_inv :: "life \<Rightarrow> bool" where
  "phase_inv L \<longleftrightarrow> (lf_phase L = Down \<longrightarrow> active_run_ids (dm_exec (lf_daemon L)) = [] \<and> lf_socket L \<noteq> Bound) \<and>
     (lf_phase L = Up \<longrightarrow> lf_socket L = Bound) \<and> (lf_phase L \<in> {Draining, Closing} \<longrightarrow> lf_socket L = Absent) \<and>
     (lf_phase L = Closing \<longrightarrow> lf_clients L = 0)"

lemma phase_step: "life_step a L L' \<Longrightarrow> phase_inv L \<Longrightarrow> phase_inv L'"
  by (erule life_step_cases)
    (auto simp: phase_inv_def serve_socket_def begin_shutdown_def lose_tasks_def active_run_ids_def Let_def)

lemma phase_run: "life_run ls L L' \<Longrightarrow> phase_inv L \<Longrightarrow> phase_inv L'"
  by (induction rule: life_run.induct) (auto intro: phase_step)

lemma installed_phase: "phase_inv installed"
  by (simp add: phase_inv_def installed_def new_daemon_def new_executor_def active_run_ids_def)

section \<open>The two cancellations of a shutdown\<close>

lemma work_run_front:
  "work_run ls w w'' \<Longrightarrow> ls = l # ks \<Longrightarrow> \<exists>w'. work_step l w w' \<and> work_run ks w' w''"
proof (induction arbitrary: ks rule: work_run.induct)
  case (more ls w w' a w'')
  show ?case
  proof (cases ls)
    case Nil
    then have "w' = w" using more(1) by (auto elim: work_run.cases)
    moreover have "work_run [] w'' w''" by (rule work_run.none)
    ultimately show ?thesis using more(2,4) Nil by (intro exI[of _ w'']) auto
  next
    case (Cons b bs)
    then obtain v where "work_step l w v" "work_run bs v w'" using more(3)[of bs] more(4) by auto
    moreover have "ks = bs @ [a]" using more(4) Cons by simp
    ultimately show ?thesis using work_run.more[OF _ more(2)] by blast
  qed
qed simp

lemma cancel_label: "work_step (W_cancel i) (x, js) w \<Longrightarrow> w = (snd (cancel i x), js)"
  by (erule work_step.cases) auto

lemma cancel_only:
  assumes "ex_tasks x = [(i, st)]"
  shows "cancel_all x = snd (cancel i x)" and "close_all x = snd (cancel i x)"
  using assms by (simp_all add: cancel_all_def close_all_def active_run_ids_def cancel_def)

lemma only_task:
  assumes "work_ok (x, js)" and "distinct (map fst (ex_tasks x))" and "length js = 1" and "j \<in> set js"
  shows "\<exists>st. ex_tasks x = [(rj_id j, st)]"
proof -
  have js: "js = [j]" using assms(3,4) by (cases js) auto
  then have "set (map fst (ex_tasks x)) = {rj_id j}" using assms(1) by auto
  moreover have "length (ex_tasks x) = card (set (map fst (ex_tasks x)))"
    using distinct_card[OF assms(2)] by simp
  ultimately have "length (ex_tasks x) = 1" by simp
  then obtain e where "ex_tasks x = [e]" by (auto simp: length_Suc_conv)
  then show ?thesis using \<open>set (map fst (ex_tasks x)) = {rj_id j}\<close> by (cases e) simp
qed

section \<open>Properties\<close>


text \<open>
  C38: What the database says of a run when the daemon is down is final: no later life of the daemon, however
  it is started, used, stopped or killed, changes the status or can cancel the run.  A run that a
  kill interrupted is running for ever.
\<close>

theorem ended_lives_are_final:
  assumes "life_run ks installed L" and "lf_phase L = Down" and "row_status (dm_exec (lf_daemon L)) i = Some st"
    and "life_run ls L L'"
  shows "row_status (dm_exec (lf_daemon L')) i = Some st \<and>
     cancel i (dm_exec (lf_daemon L')) = (False, dm_exec (lf_daemon L'))"
proof -
  have "active_run_ids (dm_exec (lf_daemon L)) = []"
    using phase_run[OF assms(1) installed_phase] assms(2) by (simp add: phase_inv_def)
  then have "unworked i st (dm_exec (lf_daemon L))" using assms(3) by (simp add: unworked_def)
  from life_run_idle[OF assms(4) this] show ?thesis
    by (auto simp: unworked_def cancel_def active_run_ids_def map_of_eq_None_iff[symmetric] split: option.split)
qed

text \<open>
  C36: The shutdown waits for the clients.  Once the signal has come, the daemon stays as it is, with its
  socket file gone, until every client that is connected has left, whatever else it does; and the
  connections that are left are served: a task they submit becomes a run that nobody has asked to stop.
\<close>

theorem shutdown_waits_for_clients:
  assumes "life_run ks installed L" and "lf_phase L = Draining" and "0 < lf_clients L"
    and "life_run ls L L'" and "Disconnect \<notin> set ls" and "Killed \<notin> set ls"
  shows "lf_phase L' = Draining \<and> lf_socket L' = Absent \<and>
     (\<forall>E i t b. (\<forall>n. \<exists>br. re_brain E n = Inr br) \<longrightarrow> t \<noteq> [] \<longrightarrow>
        row_status (dm_exec (lf_daemon L')) (re_id E) = None \<longrightarrow>
        (\<exists>L''. life_run [Inside] L' L'' \<and> lf_phase L'' = Draining \<and>
           lf_daemon L'' = snd (dispatch E i M_run_task [(''task'', JStr t), (''brain'', JStr b)] (lf_daemon L')) \<and>
           map_of (ex_tasks (dm_exec (lf_daemon L''))) (re_id E) = Some Live))"
proof -
  have "lf_phase L' = Draining \<and> 0 < lf_clients L'" using assms(4,2,3,5,6)
  proof (induction rule: life_run.induct)
    case (more ls L L' a L'')
    then have "lf_phase L' = Draining" "0 < lf_clients L'" "a \<noteq> Disconnect" "a \<noteq> Killed" by auto
    note f = this
    show ?case by (rule life_step_cases[OF more(2)]) (use f in simp_all)
  qed simp
  moreover from this have "lf_socket L' = Absent"
    using phase_run[OF assms(4) phase_run[OF assms(1) installed_phase]] by (simp add: phase_inv_def)
  moreover have "\<exists>L''. life_run [Inside] L' L'' \<and> lf_phase L'' = Draining \<and>
      lf_daemon L'' = snd (dispatch E i M_run_task [(''task'', JStr t), (''brain'', JStr b)] (lf_daemon L')) \<and>
      map_of (ex_tasks (dm_exec (lf_daemon L''))) (re_id E) = Some Live"
    if E: "\<forall>n. \<exists>br. re_brain E n = Inr br" and t: "t \<noteq> []"
      and f: "row_status (dm_exec (lf_daemon L')) (re_id E) = None" for E i t b
  proof -
    let ?D = "snd (dispatch E i M_run_task [(''task'', JStr t), (''brain'', JStr b)] (lf_daemon L'))"
    obtain br where br: "re_brain E b = Inr br" using E by blast
    have "daemon_step (lf_daemon L') ?D" by (rule daemon_step.request) (use E in blast)
    then have "life_step Inside L' (L'\<lparr>lf_daemon := ?D\<rparr>)"
      using \<open>lf_phase L' = Draining \<and> 0 < lf_clients L'\<close> by (intro life_step.inside) simp_all
    then have "life_run [Inside] L' (L'\<lparr>lf_daemon := ?D\<rparr>)" using life_run.more[OF life_run.none] by fastforce
    moreover have "?D = started E RK_run t b (lf_daemon L')" using dispatch_start[OF f br t] by simp
    then have "map_of (ex_tasks (dm_exec ?D)) (re_id E) = Some Live"
      using started_active(2)[OF f br] by (simp add: update_conv')
    ultimately show ?thesis using \<open>lf_phase L' = Draining \<and> 0 < lf_clients L'\<close> by fastforce
  qed
  ultimately show ?thesis by blast
qed

text \<open>The socket file is there exactly while the daemon is up, or where a killed one left it.\<close>

theorem socket_file_tells_the_phase:
  assumes "life_run ls installed L"
  shows "(lf_socket L = Bound \<longleftrightarrow> lf_phase L = Up) \<and> (lf_socket L = Stale \<longrightarrow> lf_phase L = Down)"
  using phase_run[OF assms installed_phase]
  by (cases "lf_phase L"; cases "lf_socket L") (simp_all add: phase_inv_def)

text \<open>
  A shutdown cancels every run twice, once before the server closes and once in \<open>AppState.close\<close>.  For a
  run in the orchestrator there is always a course of the shutdown in which the second cancellation
  arrives while the run waits to store its end: the tasks are over, the row says running, and it says so
  in every later life of the daemon.
\<close>

theorem shutdown_can_strand_a_run:
  assumes "work_ok (x, [j])" and "distinct (map fst (ex_tasks x))" and "rj_stage j = Orchestrating"
    and "row_status x (rj_id j) = Some ''running''"
  shows "\<exists>x2 js2 x'. work_run [W_go (rj_id j), W_go (rj_id j)] (cancel_all x, [j]) (x2, js2) \<and>
     work_run [W_break (rj_id j), W_go (rj_id j), W_go (rj_id j)] (close_all x2, js2) (x', []) \<and>
     row_status x' (rj_id j) = Some ''running'' \<and> active_run_ids x' = [] \<and>
     (\<forall>L ls L'. dm_exec (lf_daemon L) = x' \<longrightarrow> life_run ls L L' \<longrightarrow>
        row_status (dm_exec (lf_daemon L')) (rj_id j) = Some ''running'')"
proof -
  let ?i = "rj_id j"
  have m: "j \<in> set [j]" by simp
  obtain x2 js2 x' js' where a: "work_run [W_cancel ?i, W_go ?i, W_go ?i] (x, [j]) (x2, js2)"
    and b: "work_run [W_cancel ?i, W_break ?i, W_go ?i, W_go ?i] (x2, js2) (x', js')"
    and r: "row_status x' ?i = Some ''running''"
    and k: "map fst (ex_tasks x2) = map fst (ex_tasks x)" "ex_tasks x' = filter (\<lambda>e. fst e \<noteq> ?i) (ex_tasks x')"
      "set (map fst (ex_tasks x')) \<subseteq> set (map fst (ex_tasks x))"
    and ok: "work_ok (x', js')"
    by (rule second_cancel_path[OF assms(1) m assms(3,4)])
  obtain st where t: "ex_tasks x = [(?i, st)]" using only_task[OF assms(1,2) _ m] by auto
  then obtain st2 where t2: "ex_tasks x2 = [(?i, st2)]" using k(1) by (cases "ex_tasks x2") auto
  have none: "ex_tasks x' = []"
  proof (rule ccontr)
    assume "ex_tasks x' \<noteq> []"
    then have "fst (hd (ex_tasks x')) \<in> set (map fst (ex_tasks x'))" "hd (ex_tasks x') \<in> set (filter (\<lambda>e. fst e \<noteq> ?i) (ex_tasks x'))"
      using k(2) by simp_all
    then show False using k(3) t by auto
  qed
  then have js': "js' = []" using ok by simp
  obtain v where v: "work_step (W_cancel ?i) (x, [j]) v" "work_run [W_go ?i, W_go ?i] v (x2, js2)"
    using work_run_front[OF a refl] by blast
  obtain u where u: "work_step (W_cancel ?i) (x2, js2) u" "work_run [W_break ?i, W_go ?i, W_go ?i] u (x', js')"
    using work_run_front[OF b refl] by blast
  have "work_run [W_go ?i, W_go ?i] (cancel_all x, [j]) (x2, js2)"
    using v(2) unfolding cancel_label[OF v(1)] cancel_only(1)[OF t] .
  moreover have "work_run [W_break ?i, W_go ?i, W_go ?i] (close_all x2, js2) (x', [])"
    using u(2) unfolding cancel_label[OF u(1)] cancel_only(2)[OF t2] js' .
  moreover have act: "active_run_ids x' = []" by (simp add: active_run_ids_def none)
  moreover have "row_status (dm_exec (lf_daemon L')) ?i = Some ''running''"
    if "dm_exec (lf_daemon L) = x'" "life_run ls L L'" for L ls L'
    using life_run_idle[OF that(2), of ?i "''running''"] that(1) r act by (simp add: unworked_def)
  ultimately show ?thesis using r by blast
qed

section \<open>Witnesses\<close>

lemma first_start:
  "\<exists>L. life_run [Start] installed L \<and> lf_phase L = Up \<and> lf_clients L = 0 \<and> row_status (dm_exec (lf_daemon L)) i = None"
proof -
  have d: "lf_phase installed = Down" by (simp add: installed_def)
  obtain D rg l where o: "open_state (default_agent_config ''/c'') sample_env ''/a'' []
      (at_rest True (dm_store (lf_daemon installed))) (lf_daemon installed) = Inr (D, rg, l)"
    using opens by blast
  obtain L where L: "life_step Start installed L" "lf_phase L = Up" "lf_clients L = 0" "lf_daemon L = D"
    using life_step.start[OF d o] by fastforce
  have "life_run ([] @ [Start]) installed L" by (rule life_run.more[OF life_run.none L(1)])
  moreover have "row_status (dm_exec D) i = None"
    using opened_parts(1)[OF o] new_daemon_run[of i] by (simp add: row_status_def at_rest_def dm_store_def installed_def)
  ultimately show ?thesis using L by (intro exI[of _ L]) simp
qed

text \<open>A daemon with one run, submitted by a client.\<close>

lemma with_a_run:
  "\<exists>L. life_run [Start, Connect, Inside] installed L \<and> lf_phase L = Up \<and> lf_clients L = 1 \<and>
     row_status (dm_exec (lf_daemon L)) ''r1'' = Some ''running'' \<and> ''r1'' \<in> set (active_run_ids (dm_exec (lf_daemon L)))"
proof -
  obtain L where L: "life_run [Start] installed L" "lf_phase L = Up" "lf_clients L = 0"
    "row_status (dm_exec (lf_daemon L)) ''r1'' = None" using first_start by blast
  let ?L1 = "L\<lparr>lf_clients := Suc 0\<rparr>"
  have "life_step Connect L ?L1" using life_step.connect[OF L(2)] L(3) by simp
  then have r1: "life_run [Start, Connect] installed ?L1" using life_run.more[OF L(1)] by fastforce
  have e: "re_id sample_env = ''r1''" "re_brain sample_env ''auto'' = Inr (Claude_brain ''m'')"
    by (simp_all add: sample_env_def)
  let ?D = "started sample_env RK_run ''t'' ''auto'' (lf_daemon L)"
  have f: "row_status (dm_exec (lf_daemon L)) (re_id sample_env) = None" using L(4) e(1) by simp
  have "daemon_step (lf_daemon L) (snd (dispatch sample_env ''q'' M_run_task
      [(''task'', JStr ''t''), (''brain'', JStr ''auto'')] (lf_daemon L)))"
    by (rule daemon_step.request) (simp add: sample_env_def)
  then have "daemon_step (lf_daemon L) ?D" using dispatch_start[OF f e(2), of "''t''" M_run_task RK_run "''q''"] by simp
  then have "life_step Inside ?L1 (?L1\<lparr>lf_daemon := ?D\<rparr>)" using L(2) by (intro life_step.inside) simp_all
  then have "life_run [Start, Connect, Inside] installed (?L1\<lparr>lf_daemon := ?D\<rparr>)" using life_run.more[OF r1] by fastforce
  moreover have "''r1'' \<in> set (active_run_ids (dm_exec ?D))"
    using started_active(2)[OF f e(2)] by (simp add: active_run_ids_def set_map_fst_update e(1))
  moreover obtain s where "insert_run (new_run ''r1'' RK_run ''t'' ''auto'' (re_now sample_env)) (ex_store (dm_exec (lf_daemon L))) = Inr s"
      "ex_store (dm_exec ?D) = s"
    using submit_fresh[OF f, of RK_run "''t''" "''auto''" "re_now sample_env" "Claude_brain ''m''"] by (auto simp: started_def e)
  then have "row_status (dm_exec ?D) ''r1'' = Some ''running''"
    using row_status_steps(1)[of RK_run "''t''" "''auto''" "''r1''" "re_now sample_env" "Claude_brain ''m''" "dm_exec (lf_daemon L)" "dm_exec ?D" "''r1''"]
      submit_fresh[OF L(4), of RK_run "''t''" "''auto''" "re_now sample_env" "Claude_brain ''m''"] by (auto simp: started_def e)
  ultimately show ?thesis using L(2) by (intro exI[of _ "?L1\<lparr>lf_daemon := ?D\<rparr>"]) simp
qed


theorem ended_lives_are_final_witness:
  "\<exists>L L'. life_run [Start, Connect, Inside, Killed] installed L \<and> lf_phase L = Down \<and> life_run [Start] L L' \<and> lf_phase L' = Up \<and>
     row_status (dm_exec (lf_daemon L')) ''r1'' = Some ''running'' \<and>
     cancel ''r1'' (dm_exec (lf_daemon L')) = (False, dm_exec (lf_daemon L'))"
proof -
  obtain L where L: "life_run [Start, Connect, Inside] installed L" "lf_phase L = Up"
    "row_status (dm_exec (lf_daemon L)) ''r1'' = Some ''running''" using with_a_run by blast
  obtain K where k: "life_step Killed L K" and K: "lf_phase K = Down" "lf_daemon K = lose_tasks (lf_daemon L)"
    using life_step.killed[of L] L(2) by fastforce
  have r: "life_run [Start, Connect, Inside, Killed] installed K" using life_run.more[OF L(1) k] by simp
  obtain D rg l where "open_state (default_agent_config ''/c'') sample_env ''/a'' [] (at_rest True (dm_store (lf_daemon K))) (lf_daemon K) = Inr (D, rg, l)"
    using opens by blast
  from life_step.start[OF K(1) this] obtain L' where s: "life_step Start K L'" "lf_phase L' = Up" by fastforce
  then have r': "life_run [Start] K L'" using life_run.more[OF life_run.none s(1)] by simp
  have "row_status (dm_exec (lf_daemon K)) ''r1'' = Some ''running''"
    using L(3) by (simp add: K(2) lose_tasks_def row_status_def)
  from ended_lives_are_final[OF r K(1) this r'] r r' K(1) s(2) show ?thesis by blast
qed

theorem shutdown_waits_for_clients_witness:
  "\<exists>L. life_run [Start, Connect, Inside, Signal] installed L \<and> lf_phase L = Draining \<and> lf_clients L = 1 \<and>
     lf_socket L = Absent"
proof -
  obtain L where L: "life_run [Start, Connect, Inside] installed L" "lf_phase L = Up" "lf_clients L = 1"
    using with_a_run by blast
  let ?L = "begin_shutdown L"
  have p: "lf_phase ?L = Draining" "lf_clients ?L = 1" using L(3) by (simp_all add: begin_shutdown_def Let_def)
  have r: "life_run [Start, Connect, Inside, Signal] installed ?L"
    using life_run.more[OF L(1) life_step.signal[OF L(2)]] by simp
  have "lf_socket ?L = Absent"
    using shutdown_waits_for_clients[OF r p(1) _ life_run.none] p(2) by simp
  with r p show ?thesis by blast
qed

theorem socket_file_tells_the_phase_witness:
  "\<exists>L. life_run [Start, Connect, Inside] installed L \<and> lf_socket L = Bound"
proof -
  obtain L where "life_run [Start, Connect, Inside] installed L" "lf_phase L = Up" using with_a_run by blast
  with socket_file_tells_the_phase[of _ L] show ?thesis by blast
qed

theorem shutdown_can_strand_a_run_witness:
  "\<exists>x x2 js2 x'. row_status x ''r1'' = Some ''running'' \<and>
     work_run [W_go ''r1'', W_go ''r1''] (cancel_all x, [sample_job]) (x2, js2) \<and>
     work_run [W_break ''r1'', W_go ''r1'', W_go ''r1''] (close_all x2, js2) (x', []) \<and>
     row_status x' ''r1'' = Some ''running'' \<and> active_run_ids x' = []"
proof -
  obtain x where r: "work_run [W_submit ''r1'', W_go ''r1''] (new_executor, []) (x, [sample_job])"
    and s: "row_status x ''r1'' = Some ''running''" and d: "distinct (map fst (ex_tasks x))" using sample_work by blast
  have "work_ok (new_executor, [])" by (simp add: new_executor_def)
  with work_run_ok[OF r] have ok: "work_ok (x, [sample_job])" by blast
  have j: "rj_id sample_job = ''r1''" "rj_stage sample_job = Orchestrating" by (simp_all add: sample_job_def new_job_def)
  from shutdown_can_strand_a_run[OF ok d j(2)] s j(1) show ?thesis by fastforce
qed

end
