(* ===== verification/Engines.thy ===== *)
theory Engines
  imports Panels Sidecar Memory
begin

text \<open>
  The models the program loads and fetches: the text embedder (\<open>memory/embedder.py\<close>), speech
  recognition and voice activity detection (\<open>voice/stt.py\<close>, \<open>voice/vad.py\<close>), which are loaded on first
  use, and the downloads (\<open>voice/download.py\<close> and the command \<open>models\<close> of \<open>cli/voice.py\<close>).  The
  libraries behind them are parameters.
\<close>

section \<open>Loading on first use\<close>

text \<open>A call of a library's constructor may fail, and another attempt may give something else: \<open>mk n\<close> is
  what the attempt after \<open>n\<close> others gives.  The attempts are counted.\<close>

record 'm lazy =
  lz_model :: "'m option"
  lz_tries :: nat

definition not_loaded :: "'m lazy" where
  "not_loaded = \<lparr>lz_model = None, lz_tries = 0\<rparr>"

definition load_once :: "(nat \<Rightarrow> 'm res) \<Rightarrow> 'm lazy \<Rightarrow> 'm res \<times> 'm lazy" where
  "load_once mk z = (case lz_model z of
      Some m \<Rightarrow> (Inr m, z)
    | None \<Rightarrow> (case mk (lz_tries z) of
        Inl e \<Rightarrow> (Inl e, z\<lparr>lz_tries := Suc (lz_tries z)\<rparr>)
      | Inr m \<Rightarrow> (Inr m, \<lparr>lz_model = Some m, lz_tries = Suc (lz_tries z)\<rparr>)))"

subsection \<open>The embedder\<close>

type_synonym embed_model = "string list \<Rightarrow> real list list res"

record embedder =
  em_name :: string
  em_lazy :: "embed_model lazy"

definition new_embedder :: "string \<Rightarrow> embedder" where
  "new_embedder name = \<lparr>em_name = name, em_lazy = not_loaded\<rparr>"

definition ensure_model :: "(string \<Rightarrow> nat \<Rightarrow> embed_model res) \<Rightarrow> embedder \<Rightarrow> embed_model res \<times> embedder" where
  "ensure_model lib e = (let (r, z) = load_once (lib (em_name e)) (em_lazy e) in (r, e\<lparr>em_lazy := z\<rparr>))"

definition embed_sync ::
  "(string \<Rightarrow> nat \<Rightarrow> embed_model res) \<Rightarrow> string list \<Rightarrow> embedder \<Rightarrow> real list list res \<times> embedder" where
  "embed_sync lib texts e = (let (r, e') = ensure_model lib e in (rbind r (\<lambda>m. m texts), e'))"

text \<open>\<open>(await embedder.embed([t]))[0]\<close>, as the memory asks for it.\<close>

definition embed_text ::
  "(string \<Rightarrow> nat \<Rightarrow> embed_model res) \<Rightarrow> embedder \<Rightarrow> string \<Rightarrow> real list res" where
  "embed_text lib e t = rbind (fst (embed_sync lib [t] e)) (\<lambda>vs. case vs of
     [] \<Rightarrow> Inl (IndexError ''list index out of range'') | v # _ \<Rightarrow> Inr v)"

subsection \<open>Speech recognition\<close>

type_synonym stt_model = "nat list \<Rightarrow> string list res"

record whisper =
  wh_name :: string
  wh_language :: "string option"
  wh_device :: string
  wh_compute :: string
  wh_lazy :: "stt_model lazy"

definition new_whisper ::
  "bool \<Rightarrow> string \<Rightarrow> string option \<Rightarrow> string \<Rightarrow> string \<Rightarrow> whisper res" where
  "new_whisper has_library name language device compute =
     (if \<not> has_library then Inl (RuntimeError (''faster-whisper is required for speech-to-text. '' @
        ''Install with: uv sync --extra voice  (or pip install hyprland-agent[voice])''))
      else Inr \<lparr>wh_name = name, wh_language = language, wh_device = device, wh_compute = compute,
        wh_lazy = not_loaded\<rparr>)"

text \<open>The library makes a model from its name, the device and the compute type.\<close>

definition lazy_load_model ::
  "(string \<Rightarrow> string \<Rightarrow> string \<Rightarrow> nat \<Rightarrow> stt_model res) \<Rightarrow> whisper \<Rightarrow> stt_model res \<times> whisper" where
  "lazy_load_model lib w =
     (let (r, z) = load_once (lib (wh_name w) (wh_device w) (wh_compute w)) (wh_lazy w) in (r, w\<lparr>wh_lazy := z\<rparr>))"

definition whisper_transcribe ::
  "(string \<Rightarrow> string \<Rightarrow> string \<Rightarrow> nat \<Rightarrow> stt_model res) \<Rightarrow> nat list \<Rightarrow> whisper \<Rightarrow> string res \<times> whisper" where
  "whisper_transcribe lib pcm w =
     (case lazy_load_model lib w of
        (Inl e, w') \<Rightarrow> (Inl e, w')
      | (Inr _, w') \<Rightarrow> (stt_transcribe (lz_model (wh_lazy w')) pcm, w'))"

definition whisper_close :: "whisper \<Rightarrow> whisper" where
  "whisper_close w = w\<lparr>wh_lazy := (wh_lazy w)\<lparr>lz_model := None\<rparr>\<rparr>"

subsection \<open>Voice activity\<close>

text \<open>The iterator of the library keeps a state from chunk to chunk.\<close>

record ('v, 'c) vad =
  va_threshold :: real
  va_lazy :: "'v lazy"

definition new_vad :: "bool \<Rightarrow> real \<Rightarrow> ('v, 'c) vad res" where
  "new_vad has_library threshold =
     (if \<not> has_library then Inl (RuntimeError (''silero-vad is required for voice activity detection. '' @
        ''Install with: uv sync --extra voice''))
      else Inr \<lparr>va_threshold = threshold, va_lazy = not_loaded\<rparr>)"

definition lazy_init :: "(nat \<Rightarrow> 'v res) \<Rightarrow> ('v, 'c) vad \<Rightarrow> 'v res \<times> ('v, 'c) vad" where
  "lazy_init lib v = (let (r, z) = load_once lib (va_lazy v) in (r, v\<lparr>va_lazy := z\<rparr>))"

definition is_speech ::
  "(nat \<Rightarrow> 'v res) \<Rightarrow> ('v \<Rightarrow> 'c \<Rightarrow> real \<times> 'v) \<Rightarrow> 'c \<Rightarrow> ('v, 'c) vad \<Rightarrow> bool res \<times> ('v, 'c) vad" where
  "is_speech lib process chunk v =
     (case lazy_init lib v of
        (Inl e, v') \<Rightarrow> (Inl e, v')
      | (Inr m, v') \<Rightarrow> (let (prob, m') = process m chunk
          in (Inr (va_threshold v' \<le> prob), v'\<lparr>va_lazy := (va_lazy v')\<lparr>lz_model := Some m'\<rparr>\<rparr>)))"

definition vad_reset :: "('v, 'c) vad \<Rightarrow> ('v, 'c) vad" where
  "vad_reset v = v\<lparr>va_lazy := (va_lazy v)\<lparr>lz_model := None\<rparr>\<rparr>"

section \<open>The contract of the loaders\<close>

fun uses :: "('s \<Rightarrow> 'm res \<times> 's) \<Rightarrow> nat \<Rightarrow> 's \<Rightarrow> 'm res list \<times> 's" where
  "uses op 0 s = ([], s)"
| "uses op (Suc n) s = (let (r, s1) = op s; (rs, s2) = uses op n s1 in (r # rs, s2))"

locale loader =
  fixes op :: "'s \<Rightarrow> 'm res \<times> 's" and held :: "'s \<Rightarrow> 'm option" and tries :: "'s \<Rightarrow> nat"
  assumes kept: "held s = Some m \<Longrightarrow> op s = (Inr m, s)"
    and loaded: "held s = None \<Longrightarrow> op s = (Inr m, s') \<Longrightarrow> held s' = Some m \<and> tries s' = Suc (tries s)"
    and failed: "held s = None \<Longrightarrow> op s = (Inl e, s') \<Longrightarrow> held s' = None \<and> tries s' = Suc (tries s)"
begin

lemma reused: "held s = Some m \<Longrightarrow> uses op n s = (replicate n (Inr m), s)"
  by (induction n) (simp_all add: kept)

text \<open>The failing attempts come first; from the first success on, everyone gets that model.\<close>

lemma uses_shape:
  assumes "held s = None"
  shows "\<exists>errs m. (\<forall>r\<in>set errs. \<exists>e. r = Inl e) \<and>
     (if length errs = n then fst (uses op n s) = errs \<and> tries (snd (uses op n s)) = tries s + n
      else length errs < n \<and> fst (uses op n s) = errs @ replicate (n - length errs) (Inr m) \<and>
        tries (snd (uses op n s)) = tries s + Suc (length errs))"
  using assms
proof (induction n arbitrary: s)
  case 0
  show ?case by (intro exI[of _ "[]"]) simp
next
  case (Suc n)
  obtain r s1 where r: "op s = (r, s1)" by (cases "op s")
  show ?case
  proof (cases r)
    case (Inl e)
    with failed[OF Suc.prems] r have f: "held s1 = None" "tries s1 = Suc (tries s)" by auto
    from Suc.IH[OF f(1)] obtain errs m where i: "\<forall>r\<in>set errs. \<exists>e. r = Inl e"
      "if length errs = n then fst (uses op n s1) = errs \<and> tries (snd (uses op n s1)) = tries s1 + n
       else length errs < n \<and> fst (uses op n s1) = errs @ replicate (n - length errs) (Inr m) \<and>
         tries (snd (uses op n s1)) = tries s1 + Suc (length errs)" by blast
    show ?thesis using i f(2) r Inl
      by (intro exI[of _ "Inl e # errs"] exI[of _ m]) (auto simp: case_prod_beta split: if_splits)
  next
    case (Inr m)
    with loaded[OF Suc.prems] r have f: "held s1 = Some m" "tries s1 = Suc (tries s)" by auto
    show ?thesis using reused[OF f(1), of n] f(2) r Inr
      by (intro exI[of _ "[]"] exI[of _ m]) simp
  qed
qed

end

interpretation embedding: loader "ensure_model lib" "\<lambda>e. lz_model (em_lazy e)" "\<lambda>e. lz_tries (em_lazy e)" for lib
  by unfold_locales (auto simp: ensure_model_def load_once_def split: sum.splits)

interpretation recognition: loader "lazy_load_model lib" "\<lambda>w. lz_model (wh_lazy w)" "\<lambda>w. lz_tries (wh_lazy w)" for lib
  by unfold_locales (auto simp: lazy_load_model_def load_once_def split: sum.splits)

interpretation activity: loader "lazy_init lib" "\<lambda>v. lz_model (va_lazy v)" "\<lambda>v. lz_tries (va_lazy v)" for lib
  by unfold_locales (auto simp: lazy_init_def load_once_def split: sum.splits)

section \<open>Callers in threads\<close>

text \<open>
  \<open>embed\<close> runs \<open>_embed_sync\<close> in a thread, so that several callers may be inside \<open>_ensure_model\<close>: the
  test, the construction, the assignment and the reading of the attribute are steps of their own.
  A model is known by the number of the construction that made it.
\<close>

datatype caller = Asking | Building nat | Reading | Given nat | Refused

record shared =
  sh_model :: "nat option"
  sh_built :: nat
  sh_callers :: "caller list"

definition callers :: "nat \<Rightarrow> shared" where
  "callers k = \<lparr>sh_model = None, sh_built = 0, sh_callers = replicate k Asking\<rparr>"

inductive ensure_step :: "shared \<Rightarrow> shared \<Rightarrow> bool" where
  misses: "i < length (sh_callers S) \<Longrightarrow> sh_callers S ! i = Asking \<Longrightarrow> sh_model S = None \<Longrightarrow>
    ensure_step S (S\<lparr>sh_built := Suc (sh_built S), sh_callers := (sh_callers S)[i := Building (sh_built S)]\<rparr>)"
| hits: "i < length (sh_callers S) \<Longrightarrow> sh_callers S ! i = Asking \<Longrightarrow> sh_model S = Some n \<Longrightarrow>
    ensure_step S (S\<lparr>sh_callers := (sh_callers S)[i := Reading]\<rparr>)"
| stores: "i < length (sh_callers S) \<Longrightarrow> sh_callers S ! i = Building n \<Longrightarrow>
    ensure_step S (S\<lparr>sh_model := Some n, sh_callers := (sh_callers S)[i := Reading]\<rparr>)"
| raises: "i < length (sh_callers S) \<Longrightarrow> sh_callers S ! i = Building n \<Longrightarrow>
    ensure_step S (S\<lparr>sh_callers := (sh_callers S)[i := Refused]\<rparr>)"
| reads: "i < length (sh_callers S) \<Longrightarrow> sh_callers S ! i = Reading \<Longrightarrow> sh_model S = Some n \<Longrightarrow>
    ensure_step S (S\<lparr>sh_callers := (sh_callers S)[i := Given n]\<rparr>)"

inductive ensure_reach :: "shared \<Rightarrow> shared \<Rightarrow> bool" where
  start: "ensure_reach S S"
| step: "ensure_reach S S' \<Longrightarrow> ensure_step S' S'' \<Longrightarrow> ensure_reach S S''"

inductive_cases ensure_step_cases: "ensure_step S S'"

definition asked :: "caller list \<Rightarrow> nat" where
  "asked cs = length (filter (\<lambda>c. c \<noteq> Asking) cs)"

lemma asked_simps [simp]: "asked [] = 0" "asked (c # cs) = (if c = Asking then 0 else 1) + asked cs"
  by (simp_all add: asked_def)

lemma asked_update:
  assumes "i < length cs"
  shows "asked (cs[i := c]) + (if cs ! i = Asking then 0 else 1) = asked cs + (if c = Asking then 0 else 1)"
  using assms
proof (induction cs arbitrary: i)
  case (Cons a cs)
  then show ?case by (cases i) auto
qed simp

text \<open>Every construction has its caller; whoever reads finds a model, of a construction that was begun.\<close>

definition shared_ok :: "shared \<Rightarrow> bool" where
  "shared_ok S \<longleftrightarrow> sh_built S \<le> asked (sh_callers S) \<and> (\<forall>n. sh_model S = Some n \<longrightarrow> n < sh_built S) \<and>
     (\<forall>c\<in>set (sh_callers S). (c = Reading \<longrightarrow> sh_model S \<noteq> None) \<and> (\<forall>n. c \<in> {Building n, Given n} \<longrightarrow> n < sh_built S))"

lemma set_update_cases: "c \<in> set (cs[i := d]) \<Longrightarrow> c = d \<or> c \<in> set cs"
  using set_update_subset_insert by fast

lemma ensure_step_ok:
  assumes "ensure_step S S'" and "shared_ok S"
  shows "shared_ok S' \<and> length (sh_callers S') = length (sh_callers S)"
proof (rule ensure_step_cases[OF assms(1)])
  fix i
  assume a: "S' = S\<lparr>sh_built := Suc (sh_built S), sh_callers := (sh_callers S)[i := Building (sh_built S)]\<rparr>"
    "i < length (sh_callers S)" "sh_callers S ! i = Asking"
  show ?thesis using assms(2) asked_update[OF a(2), of "Building (sh_built S)"] a(3)
    by (auto simp: a(1) shared_ok_def dest!: set_update_cases intro: less_SucI)
next
  fix i n
  assume a: "S' = S\<lparr>sh_callers := (sh_callers S)[i := Reading]\<rparr>" "i < length (sh_callers S)"
    "sh_callers S ! i = Asking" "sh_model S = Some n"
  show ?thesis using assms(2) asked_update[OF a(2), of Reading] a(3,4)
    by (auto simp: a(1) shared_ok_def dest!: set_update_cases)
next
  fix i n
  assume a: "S' = S\<lparr>sh_model := Some n, sh_callers := (sh_callers S)[i := Reading]\<rparr>" "i < length (sh_callers S)"
    "sh_callers S ! i = Building n"
  have "n < sh_built S" using assms(2) a(2,3) nth_mem by (force simp: shared_ok_def)
  then show ?thesis using assms(2) asked_update[OF a(2), of Reading] a(3)
    by (auto simp: a(1) shared_ok_def dest!: set_update_cases)
next
  fix i n
  assume a: "S' = S\<lparr>sh_callers := (sh_callers S)[i := Refused]\<rparr>" "i < length (sh_callers S)"
    "sh_callers S ! i = Building n"
  show ?thesis using assms(2) asked_update[OF a(2), of Refused] a(3)
    by (auto simp: a(1) shared_ok_def dest!: set_update_cases)
next
  fix i n
  assume a: "S' = S\<lparr>sh_callers := (sh_callers S)[i := Given n]\<rparr>" "i < length (sh_callers S)"
    "sh_callers S ! i = Reading" "sh_model S = Some n"
  show ?thesis using assms(2) asked_update[OF a(2), of "Given n"] a(3,4)
    by (auto simp: a(1) shared_ok_def dest!: set_update_cases)
qed

lemma ensure_reach_ok:
  "ensure_reach S S' \<Longrightarrow> shared_ok S \<Longrightarrow> shared_ok S' \<and> length (sh_callers S') = length (sh_callers S)"
  by (induction rule: ensure_reach.induct) (auto dest: ensure_step_ok)

lemma asked_all: "asked cs \<le> length cs"
  by (simp add: asked_def)

text \<open>The callers test one after the other, before anyone has stored.\<close>

lemma all_miss:
  "j \<le> k \<Longrightarrow> ensure_reach (callers k)
     \<lparr>sh_model = None, sh_built = j, sh_callers = map Building [0..<j] @ replicate (k - j) Asking\<rparr>"
proof (induction j)
  case 0
  show ?case by (simp add: callers_def[symmetric] ensure_reach.start)
next
  case (Suc j)
  let ?S = "\<lparr>sh_model = None, sh_built = j, sh_callers = map Building [0..<j] @ replicate (k - j) Asking\<rparr>"
  have "replicate (k - j) Asking = Asking # replicate (k - Suc j) Asking"
    using Suc.prems by (metis Suc_diff_le diff_Suc_Suc replicate_Suc)
  then have "ensure_step ?S \<lparr>sh_model = None, sh_built = Suc j,
      sh_callers = (map Building [0..<j] @ replicate (k - j) Asking)[j := Building j]\<rparr>"
    using ensure_step.misses[of j ?S] by (simp add: nth_append)
  moreover have "(map Building [0..<j] @ replicate (k - j) Asking)[j := Building j] =
      map Building [0..<Suc j] @ replicate (k - Suc j) Asking"
    using \<open>replicate (k - j) Asking = Asking # replicate (k - Suc j) Asking\<close> by (simp add: list_update_append)
  ultimately show ?case using Suc by (auto intro: ensure_reach.step)
qed

section \<open>Downloads\<close>

text \<open>
  The directory of the voices, by file name.  A response: the header with the length, the body, and the
  error that ends the connection, if one does; \<open>untar\<close> tells what an archive's bytes unpack to before the
  unpacking ends.
\<close>

type_synonym folder = "(string \<times> nat list) list"

record response =
  rp_length :: "string option"
  rp_body :: "nat list"
  rp_error :: "py_exc option"

definition chunk_size :: nat where "chunk_size = 8192"

text \<open>
  The loop of \<open>_download\<close>: what is read is written, and its running length is what \<open>_report\<close> is called
  with.  A read that runs into the error gives nothing of its chunk.
\<close>

function download_loop :: "py_exc option \<Rightarrow> nat list \<Rightarrow> nat \<Rightarrow> unit res \<times> nat list \<times> nat list" where
  "download_loop err rest so_far =
     (let chunk = take chunk_size rest in
      if length rest < chunk_size \<and> err \<noteq> None then (Inl (the err), [], [])
      else if chunk = [] then (Inr (), [], [])
      else (let n = so_far + length chunk; (r, bytes, counts) = download_loop err (drop chunk_size rest) n
            in (r, chunk @ bytes, n # counts)))"
  by pat_completeness auto
termination by (relation "measure (\<lambda>(err, rest, n). length rest)") (auto simp: chunk_size_def)

declare download_loop.simps [simp del]

text \<open>\<open>fmt\<close> is the format \<open>.0f\<close>.\<close>

definition report :: "(real \<Rightarrow> string) \<Rightarrow> int \<Rightarrow> nat \<Rightarrow> string list" where
  "report fmt len n =
     (if 0 < len then [CHR 0x0D # ''  '' @ fmt (real n / 1024) @ '' / '' @ fmt (of_int len / 1024) @ '' KB ('' @
        fmt (real n / of_int len * 100) @ ''%)''] else [])"

definition download ::
  "(real \<Rightarrow> string) \<Rightarrow> response res \<Rightarrow> string \<Rightarrow> folder \<Rightarrow> unit res \<times> string list \<times> folder" where
  "download fmt resp dest d = (case resp of
      Inl e \<Rightarrow> (Inl e, [], d)
    | Inr r \<Rightarrow> (case (case rp_length r of None \<Rightarrow> Inr 0 | Some h \<Rightarrow> py_int (JStr h)) of
        Inl e \<Rightarrow> (Inl e, [], d)
      | Inr len \<Rightarrow> (case download_loop (rp_error r) (rp_body r) 0 of
          (res, bytes, counts) \<Rightarrow>
            (res, concat (map (report fmt len) counts) @ (case res of Inl e \<Rightarrow> [] | Inr _ \<Rightarrow> [[]]),
             AList.update dest bytes d))))"

definition piper_base :: string where
  "piper_base = ''https://github.com/rhasspy/piper/releases/download/v0.1/models''"

definition download_piper ::
  "(real \<Rightarrow> string) \<Rightarrow> (string \<Rightarrow> response res) \<Rightarrow> (nat list \<Rightarrow> folder \<times> unit res) \<Rightarrow> string \<Rightarrow> string \<Rightarrow> folder
   \<Rightarrow> string res \<times> string list \<times> folder" where
  "download_piper fmt net untar dir voice d =
     (let onnx = voice @ ''.onnx''; tar = voice @ ''.tar.gz''; path = dir @ ''/'' @ onnx in
      if onnx \<in> fst ` set d \<and> voice @ ''.json'' \<in> fst ` set d then (Inr path, [], d)
      else case download fmt (net (piper_base @ ''/'' @ tar)) tar d of
             (Inl e, out, d1) \<Rightarrow> (Inl e, (''Downloading Piper model '' @ voice @ ''...'') # out, d1)
           | (Inr _, out, d1) \<Rightarrow>
               (let (members, r) = untar (case map_of d1 tar of None \<Rightarrow> [] | Some b \<Rightarrow> b);
                    d2 = foldl (\<lambda>d (k, b). AList.update k b d) d1 members;
                    lines = (''Downloading Piper model '' @ voice @ ''...'') # out @ [chr_nl # ''Extracting '' @ tar @ ''...'']
                in case r of
                     Inl e \<Rightarrow> (Inl e, lines, d2)
                   | Inr _ \<Rightarrow> (Inr path, lines, filter (\<lambda>e. fst e \<noteq> tar) d2)))"

text \<open>\<open>download_stt\<close>: an unknown model and a missing library are only logged.\<close>

definition download_stt :: "bool \<Rightarrow> (string \<Rightarrow> unit res) \<Rightarrow> string \<Rightarrow> string \<Rightarrow> string res \<times> string list" where
  "download_stt has_library fetch dir model =
     (if \<not> has_library then (Inr dir, [])
      else (rbind (fetch model) (\<lambda>_. Inr dir),
            [''Downloading faster-whisper model '' @ [CHR 0x27] @ model @ [CHR 0x27] @ '' (may take a while)...'']))"

section \<open>The command\<close>

definition models_list :: "string list" where
  "models_list =
     [''Voice models (M4: handsfree + TTS + STT):'', ''  TTS (Piper):'',
      ''    - it_IT-paola-medium  (~60 MB, Italian female)'', ''  STT (faster-whisper):'',
      ''    - tiny   (~75 MB, multilingual)'', ''    - base   (~150 MB, multilingual)'',
      ''    - small  (~500 MB, multilingual)'', ''    - medium (~1.5 GB, multilingual)'',
      ''  Wake word (openWakeWord):'', ''    - hey_computer  (built-in, ~2 MB)'', ''  VAD (Silero):'',
      ''    - built-in (shipped with silero-vad)'', [], ''Install:'',
      ''  agent voice models pull --tts it_IT-paola-medium'', ''  agent voice models pull --stt tiny'']"

text \<open>What the command needs of the outside.\<close>

record models_world =
  mw_fmt :: "real \<Rightarrow> string"
  mw_net :: "string \<Rightarrow> response res"
  mw_untar :: "nat list \<Rightarrow> folder \<times> unit res"
  mw_has_whisper :: bool
  mw_fetch :: "string \<Rightarrow> unit res"
  mw_tts_dir :: string
  mw_stt_dir :: string

definition pull_tts :: "models_world \<Rightarrow> string \<Rightarrow> folder \<Rightarrow> string list \<times> unit res \<times> folder" where
  "pull_tts W voice d =
     (if voice = [] then ([], Inr (), d)
      else case download_piper (mw_fmt W) (mw_net W) (mw_untar W) (mw_tts_dir W) voice d of
             (Inl e, out, d') \<Rightarrow> ((''Downloading Piper TTS model: '' @ voice) # out, Inl e, d')
           | (Inr path, out, d') \<Rightarrow> ((''Downloading Piper TTS model: '' @ voice) # out @ [''Done: '' @ path], Inr (), d'))"

definition pull_stt :: "models_world \<Rightarrow> string \<Rightarrow> string list \<times> unit res" where
  "pull_stt W model =
     (if model = [] then ([], Inr ())
      else case download_stt (mw_has_whisper W) (mw_fetch W) (mw_stt_dir W) model of
             (Inl e, out) \<Rightarrow> ((''Downloading STT model: '' @ model) # out, Inl e)
           | (Inr path, out) \<Rightarrow> ((''Downloading STT model: '' @ model) # out @ [''Done: '' @ path], Inr ()))"

text \<open>An option that is not given is the empty text here; the code treats both alike.\<close>

definition cmd_models :: "models_world \<Rightarrow> string \<Rightarrow> string \<Rightarrow> string \<Rightarrow> folder \<Rightarrow> cli_out \<times> folder" where
  "cmd_models W subcommand tts stt d =
     (let sub = lower subcommand in
      if sub = ''list'' then (says models_list, d)
      else if sub = ''pull'' then
        (case pull_tts W tts d of
           (out, Inl e, d') \<Rightarrow> (\<lparr>co_out = out, co_err = [], co_end = Crashes e\<rparr>, d')
         | (out, Inr _, d') \<Rightarrow>
             (case pull_stt W stt of
                (out', Inl e) \<Rightarrow> (\<lparr>co_out = out @ out', co_err = [], co_end = Crashes e\<rparr>, d')
              | (out', Inr _) \<Rightarrow>
                  if tts = [] \<and> stt = []
                  then (\<lparr>co_out = [''Specify --tts <voice> and/or --stt <model>''], co_err = [], co_end = Exits X_misuse\<rparr>, d')
                  else (says (out @ out'), d')))
      else (complains [''Unknown subcommand: '' @ repr_str subcommand] X_misuse, d))"

section \<open>Lemmas on downloads\<close>

lemma download_whole:
  "\<exists>counts. download_loop None rest n = (Inr (), rest, counts) \<and> (rest = [] \<longrightarrow> counts = []) \<and>
     (rest \<noteq> [] \<longrightarrow> counts \<noteq> [] \<and> last counts = n + length rest) \<and> sorted counts \<and> (\<forall>c\<in>set counts. n \<le> c)"
proof (induction "length rest" arbitrary: rest n rule: less_induct)
  case less
  show ?case
  proof (cases "rest = []")
    case True
    then show ?thesis by (simp add: download_loop.simps)
  next
    case False
    let ?d = "drop chunk_size rest" let ?m = "n + length (take chunk_size rest)"
    have "length ?d < length rest" using False by (simp add: chunk_size_def)
    from less.hyps[OF this, of ?m] obtain counts where c: "download_loop None ?d ?m = (Inr (), ?d, counts)"
      "?d = [] \<longrightarrow> counts = []" "?d \<noteq> [] \<longrightarrow> counts \<noteq> [] \<and> last counts = ?m + length ?d" "sorted counts"
      "\<forall>c\<in>set counts. ?m \<le> c" by blast
    have t: "take chunk_size rest \<noteq> []" using False by (simp add: chunk_size_def)
    have "download_loop None rest n = (Inr (), rest, ?m # counts)"
      using c(1) t by (simp add: download_loop.simps[of None rest] Let_def)
    moreover have "last (?m # counts) = n + length rest" using c(2,3) by (cases "?d = []") auto
    moreover have "sorted (?m # counts)" "\<forall>c\<in>set (?m # counts). n \<le> c" using c(4,5) by auto
    ultimately show ?thesis using False by (intro exI[of _ "?m # counts"]) simp
  qed
qed

text \<open>A connection that breaks leaves whole chunks.\<close>

lemma download_broken:
  "\<exists>bytes counts. download_loop (Some e) rest n = (Inl e, bytes, counts) \<and>
     bytes = take (chunk_size * (length rest div chunk_size)) rest"
proof (induction "length rest" arbitrary: rest n rule: less_induct)
  case less
  show ?case
  proof (cases "length rest < chunk_size")
    case True
    then show ?thesis by (simp add: download_loop.simps)
  next
    case False
    let ?d = "drop chunk_size rest" let ?m = "n + length (take chunk_size rest)"
    have l: "length ?d < length rest" using False by (simp add: chunk_size_def)
    from less.hyps[OF this, of ?m] obtain bytes counts where c: "download_loop (Some e) ?d ?m = (Inl e, bytes, counts)"
      "bytes = take (chunk_size * (length ?d div chunk_size)) ?d" by blast
    have t: "take chunk_size rest \<noteq> []" using False by (auto simp: chunk_size_def)
    have q: "length rest div chunk_size = Suc (length ?d div chunk_size)"
      using False by (simp add: chunk_size_def le_div_geq)
    have "take (chunk_size * (length rest div chunk_size)) rest = take chunk_size rest @ bytes"
      unfolding q c(2) by (simp add: take_add)
    then show ?thesis
      using c(1) t False by (simp add: download_loop.simps[of "Some e" rest] Let_def)
  qed
qed

fun embed_all ::
  "(string \<Rightarrow> nat \<Rightarrow> embed_model res) \<Rightarrow> string list list \<Rightarrow> embedder \<Rightarrow> real list list res list \<times> embedder" where
  "embed_all lib [] e = ([], e)"
| "embed_all lib (ts # tss) e =
     (let (r, e1) = embed_sync lib ts e; (rs, e2) = embed_all lib tss e1 in (r # rs, e2))"

lemma embed_all_uses:
  "embed_all lib tss e = (map2 (\<lambda>r ts. rbind r (\<lambda>m. m ts)) (fst (uses (ensure_model lib) (length tss) e)) tss,
     snd (uses (ensure_model lib) (length tss) e))"
  by (induction tss arbitrary: e) (simp_all add: embed_sync_def Let_def case_prod_beta)

lemma extracted_keys:
  "fst ` set (foldl (\<lambda>d (k, b). AList.update k b d) d members) = fst ` set d \<union> fst ` set members"
proof (induction members arbitrary: d)
  case (Cons m members)
  have "fst ` set (case m of (k, b) \<Rightarrow> AList.update k b d) = insert (fst m) (fst ` set d)"
    by (cases m) (simp add: set_map_fst_update)
  then show ?case using Cons by simp
qed simp

section \<open>Properties\<close>

text \<open>
  Called one after the other, the embedder loads its model once: the calls before the first load that
  succeeds raise the errors of the loads, all others are answered by one model, and the library was
  asked for a model once for each of the failures and once more.
\<close>

theorem embedder_loads_once:
  "\<exists>errs m. (\<forall>r\<in>set errs. \<exists>x. r = Inl x) \<and> length errs \<le> length tss \<and>
     fst (embed_all lib tss (new_embedder name)) = errs @ map m (drop (length errs) tss) \<and>
     lz_tries (em_lazy (snd (embed_all lib tss (new_embedder name)))) =
       (if length errs = length tss then length tss else Suc (length errs))"
proof -
  let ?e = "new_embedder name" let ?n = "length tss"
  have none: "lz_model (em_lazy ?e) = None" and zero: "lz_tries (em_lazy ?e) = 0"
    by (simp_all add: new_embedder_def not_loaded_def)
  obtain errs m where errs: "\<forall>r\<in>set errs. \<exists>x. r = Inl x"
    and u: "if length errs = ?n then fst (uses (ensure_model lib) ?n ?e) = errs \<and>
        lz_tries (em_lazy (snd (uses (ensure_model lib) ?n ?e))) = ?n
      else length errs < ?n \<and> fst (uses (ensure_model lib) ?n ?e) = errs @ replicate (?n - length errs) (Inr m) \<and>
        lz_tries (em_lazy (snd (uses (ensure_model lib) ?n ?e))) = Suc (length errs)"
    using embedding.uses_shape[OF none, where n = ?n and lib = lib, unfolded zero add_0] by blast
  let ?errs = "map2 (\<lambda>r ts. rbind r (\<lambda>m. m ts)) errs tss"
  have le: "length errs \<le> ?n" using u by (auto split: if_splits)
  have e': "\<forall>r\<in>set ?errs. \<exists>x. r = Inl x" using errs by (auto simp: set_zip) (metis nth_mem rbind.simps(1))
  have app: "map2 f (xs @ ys) zs = map2 f xs zs @ map2 f ys (drop (length xs) zs)" if "length xs \<le> length zs"
    for f :: "embed_model res \<Rightarrow> string list \<Rightarrow> real list list res" and xs ys zs
    using that by (induction xs arbitrary: zs) (auto simp: Suc_le_length_iff)
  have rep: "map2 (\<lambda>r ts. rbind r (\<lambda>m. m ts)) (replicate (length us) (Inr m)) us = map (\<lambda>ts. m ts) us" for us
    by (induction us) simp_all
  have "fst (embed_all lib tss ?e) = ?errs @ map (\<lambda>ts. m ts) (drop (length ?errs) tss)"
    using u le app[OF le, of "\<lambda>r ts. rbind r (\<lambda>m. m ts)" "replicate (?n - length errs) (Inr m)"]
      rep[of "drop (length errs) tss"]
    by (simp add: embed_all_uses split: if_splits)
  then show ?thesis using e' u le
    by (intro exI[of _ ?errs] exI[of _ m]) (simp add: embed_all_uses split: if_splits)
qed

text \<open>
  Called from several threads, it may load once for every caller: however \<open>k\<close> callers interleave, at
  most \<open>k\<close> models are built and nobody is given one that was not; and there is an interleaving in which
  all \<open>k\<close> callers build one.
\<close>

theorem parallel_callers_may_load_each:
  "(\<forall>S. ensure_reach (callers k) S \<longrightarrow> sh_built S \<le> k \<and> length (sh_callers S) = k \<and>
      (\<forall>n. Given n \<in> set (sh_callers S) \<longrightarrow> n < sh_built S)) \<and>
   (\<exists>S. ensure_reach (callers k) S \<and> sh_built S = k)"
proof -
  have "shared_ok (callers k)" by (simp add: shared_ok_def callers_def)
  then have "sh_built S \<le> k \<and> length (sh_callers S) = k \<and> (\<forall>n. Given n \<in> set (sh_callers S) \<longrightarrow> n < sh_built S)"
    if "ensure_reach (callers k) S" for S
    using ensure_reach_ok[OF that] asked_all[of "sh_callers S"] by (auto simp: shared_ok_def callers_def)
  moreover have "\<exists>S. ensure_reach (callers k) S \<and> sh_built S = k"
    using all_miss[of k k] by (intro exI conjI) auto
  ultimately show ?thesis by blast
qed

text \<open>
  Without the library the memory works on without vectors: a run is still ingested as an episode, its
  vector is not stored, and a recall finds nothing and leaves the store alone.
\<close>

theorem memory_without_embedder:
  assumes "\<And>n. \<exists>e. lib name n = Inl e"
  shows "db_evecs (st_db (ingest (embed_text lib (new_embedder name)) dumps now i s)) = db_evecs (st_db s) \<and>
     ingest (embed_text lib (new_embedder name)) dumps now i s = ingest (\<lambda>t. Inl (RuntimeError [])) dumps now i s \<and>
     recall (embed_text lib (new_embedder name)) vdist now task k ff s = ([], s)"
proof -
  obtain e where e: "lib name 0 = Inl e" using assms by blast
  have emb: "embed_text lib (new_embedder name) = (\<lambda>t. Inl e)"
    by (simp add: fun_eq_iff embed_text_def embed_sync_def ensure_model_def load_once_def new_embedder_def not_loaded_def e)
  have same: "ingest_record (\<lambda>t. Inl x) dumps now i r s = ingest_record (\<lambda>t. Inl y) dumps now i r s" for x y r s
    by (simp add: ingest_record_def)
  have "db_evecs (st_db s') = db_evecs (st_db s)" if "ingest_record (\<lambda>t. Inl x) dumps now i r s = Inr s'" for x r s s'
    using that by (auto simp: ingest_record_def insert_episode_def upd_db_def Let_def split: sum.splits)
  moreover have "st_db (snd (get_run i s)) = st_db s" for s
    by (simp add: get_run_def cache_run_def Let_def split: option.split sum.split)
  ultimately have "db_evecs (st_db (ingest (\<lambda>t. Inl e) dumps now i s)) = db_evecs (st_db s)"
    by (auto simp: ingest_def split: prod.split sum.split option.split) (metis snd_conv)+
  moreover have "ingest (\<lambda>t. Inl e) dumps now i s = ingest (\<lambda>t. Inl (RuntimeError [])) dumps now i s"
    unfolding ingest_def same[of e _ _ "RuntimeError []"] ..
  ultimately show ?thesis by (simp add: emb recall_def)
qed

theorem memory_without_embedder_witness:
  "recall (embed_text (\<lambda>name n. Inl (RuntimeError ''no model'')) (new_embedder ''e5'')) (\<lambda>a b. 0) 1 ''t'' 3 True empty_store =
     ([], empty_store)"
  using memory_without_embedder[where lib = "\<lambda>name n. Inl (RuntimeError ''no model'')" and name = "''e5''"] by blast

text \<open>
  A voice that was fetched is kept exactly if its archive was as the code expects.  After a successful
  fetch the answer is the path of the model; the next call is answered from the directory, without the
  network, just when both files of the voice are there, that is when the archive or the directory before
  had them.  So the path may be that of no file, and every call fetches again.
\<close>

theorem fetched_voice_is_kept_if_complete:
  assumes "download_piper fmt net untar dir voice d = (Inr path, out, d')" and "out \<noteq> []"
    and "net (piper_base @ ''/'' @ voice @ ''.tar.gz'') = Inr r"
    and "untar (rp_body r) = (members, Inr ())"
  shows "path = dir @ ''/'' @ voice @ ''.onnx'' \<and>
     (\<forall>k. k \<noteq> voice @ ''.tar.gz'' \<longrightarrow> (k \<in> fst ` set d' \<longleftrightarrow> k \<in> fst ` set d \<or> k \<in> fst ` set members)) \<and>
     voice @ ''.tar.gz'' \<notin> fst ` set d' \<and>
     (\<forall>fmt' net' untar'. download_piper fmt' net' untar' dir voice d' = (Inr path, [], d') \<longleftrightarrow>
        {voice @ ''.onnx'', voice @ ''.json''} \<subseteq> fst ` set d')"
proof -
  let ?tar = "voice @ ''.tar.gz''"
  from assms(1,2) have miss: "\<not> (voice @ ''.onnx'' \<in> fst ` set d \<and> voice @ ''.json'' \<in> fst ` set d)"
  proof -
    have "out = []" if h: "voice @ ''.onnx'' \<in> fst ` set d \<and> voice @ ''.json'' \<in> fst ` set d"
      using assms(1) unfolding download_piper_def Let_def if_P[OF h] by simp
    then show ?thesis using assms(2) by blast
  qed
  obtain out1 d1 where dl: "download fmt (Inr r) ?tar d = (Inr (), out1, d1)"
    using assms(1,3) miss by (auto simp: download_piper_def Let_def split: prod.splits sum.splits)
  obtain bytes where d1: "d1 = AList.update ?tar bytes d" and b: "rp_error r = None \<Longrightarrow> bytes = rp_body r"
    and ok: "rp_error r = None"
  proof -
    have "\<exists>bytes counts. download_loop (rp_error r) (rp_body r) 0 = (Inr (), bytes, counts) \<and> d1 = AList.update ?tar bytes d"
      using dl by (auto simp: download_def split: prod.splits sum.splits)
    moreover have "rp_error r = None"
    proof (rule ccontr)
      assume "rp_error r \<noteq> None"
      then obtain e where "rp_error r = Some e" by blast
      then show False using calculation download_broken[of e "rp_body r" 0] by auto
    qed
    ultimately show thesis using that download_whole[of "rp_body r" 0] by force
  qed
  have "path = dir @ ''/'' @ voice @ ''.onnx'' \<and>
      d' = filter (\<lambda>e. fst e \<noteq> ?tar) (foldl (\<lambda>d (k, b). AList.update k b d) d1 members)"
    using assms(1,3,4) miss dl d1 b[OF ok] by (auto simp: download_piper_def Let_def update_conv')
  then have p: "path = dir @ ''/'' @ voice @ ''.onnx''"
    and f: "d' = filter (\<lambda>e. fst e \<noteq> ?tar) (foldl (\<lambda>d (k, b). AList.update k b d) d1 members)" by blast+
  have "fst ` set (filter (\<lambda>e. fst e \<noteq> ?tar) l) = fst ` set l - {?tar}" for l :: folder by auto
  then have d': "fst ` set d' = (insert ?tar (fst ` set d) \<union> fst ` set members) - {?tar}"
    unfolding f by (simp only: extracted_keys d1 set_map_fst_update)
  have "(download_piper fmt' net' untar' dir voice d' = (Inr path, [], d')) \<longleftrightarrow>
      {voice @ ''.onnx'', voice @ ''.json''} \<subseteq> fst ` set d'" for fmt' net' untar'
    by (auto simp: download_piper_def Let_def p split: prod.splits sum.splits)
  then show ?thesis using p d' by auto
qed

theorem fetched_voice_is_kept_if_complete_witness:
  "\<exists>out. download_piper (\<lambda>x. []) (\<lambda>u. Inr \<lparr>rp_length = None, rp_body = [1, 2], rp_error = None\<rparr>)
       (\<lambda>b. ([(''v.onnx'', [1]), (''v.onnx.json'', [2])], Inr ())) ''/d'' ''v'' [] =
     (Inr ''/d/v.onnx'', out, [(''v.onnx'', [1]), (''v.onnx.json'', [2])]) \<and>
     \<not> download_piper (\<lambda>x. []) (\<lambda>u. Inl TimeoutError) (\<lambda>b. ([], Inr ())) ''/d'' ''v'' [(''v.onnx'', [1]), (''v.onnx.json'', [2])] =
       (Inr ''/d/v.onnx'', [], [(''v.onnx'', [1]), (''v.onnx.json'', [2])])"
proof -
  let ?r = "\<lparr>rp_length = None, rp_body = [1, 2], rp_error = None\<rparr> :: response"
  let ?m = "[(''v.onnx'', [1]), (''v.onnx.json'', [2])] :: folder"
  obtain counts where l: "download_loop None [1, 2] 0 = (Inr (), [1, 2], counts)" using download_whole by blast
  obtain out where d: "download_piper (\<lambda>x. []) (\<lambda>u. Inr ?r) (\<lambda>b. (?m, Inr ())) ''/d'' ''v'' [] = (Inr ''/d/v.onnx'', out, ?m)"
    and "out \<noteq> []"
    using l by (simp add: download_piper_def download_def report_def Let_def)
  from fetched_voice_is_kept_if_complete[OF d this(2) refl refl] d show ?thesis by auto
qed

text \<open>
  Pulling a recognition model without its library succeeds in words only: the command prints that it is
  done, with the directory, and exits with the code for success, though nothing was fetched.
\<close>

theorem stt_pull_without_library:
  assumes "lower subcommand = ''pull''" and "\<not> mw_has_whisper W" and "stt \<noteq> []"
  shows "cmd_models W subcommand [] stt d =
     (says [''Downloading STT model: '' @ stt, ''Done: '' @ mw_stt_dir W], d)"
  using assms by (simp add: cmd_models_def pull_tts_def pull_stt_def download_stt_def Let_def)

theorem stt_pull_without_library_witness:
  "\<exists>W. \<not> mw_has_whisper W \<and> cmd_models W ''pull'' [] ''tiny'' [] =
     (says [''Downloading STT model: tiny'', ''Done: /stt''], [])"
proof -
  let ?W = "\<lparr>mw_fmt = \<lambda>x. [], mw_net = \<lambda>u. Inl TimeoutError, mw_untar = \<lambda>b. ([], Inr ()), mw_has_whisper = False,
    mw_fetch = \<lambda>m. Inr (), mw_tts_dir = ''/tts'', mw_stt_dir = ''/stt''\<rparr>"
  have "lower ''pull'' = ''pull''" by (simp add: lower_def lower_char_def ordc_def)
  from stt_pull_without_library[OF this, of ?W "''tiny''" "[]"] show ?thesis by (intro exI[of _ ?W]) simp
qed

end
