(* ===== verification/Streams.thy ===== *)
theory Streams
  imports Lifecycle Engines Rules
begin

text \<open>
  The streams at the edge of the program: a request to the compositor and its reply, the lines of the
  event socket and the watcher that reads them (\<open>tools/hypr.py\<close>, \<open>tools/events.py\<close>,
  \<open>daemon/watcher_service.py\<close>), the D-Bus signals of the screen lock (\<open>integrations/idle.py\<close>), commands in
  terminals (\<open>tools/terminal.py\<close>), the clipboard and the mouse, and the push-to-talk socket of the
  sidecar (\<open>voice/ptt.py\<close>, \<open>cli/voice_sidecar.py\<close>).  \<open>dec\<close> is \<open>bytes.decode\<close>.
\<close>

section \<open>Requests to the compositor\<close>

text \<open>
  The compositor's reply arrives in pieces; when the reader of \<open>_send\<close> wakes up, the first and \<open>k\<close> more are
  there.  \<open>read(1 << 20)\<close> returns what is there.
\<close>

definition reply_max :: nat where "reply_max = 2 ^ 20"

definition read_reply :: "nat \<Rightarrow> nat list list \<Rightarrow> nat list" where
  "read_reply k pieces = take reply_max (concat (take (Suc k) pieces))"

definition hypr_send ::
  "(nat list \<Rightarrow> string res) \<Rightarrow> string dict \<Rightarrow> string \<Rightarrow> (string \<Rightarrow> string \<Rightarrow> nat list list res) \<Rightarrow> nat \<Rightarrow> string \<Rightarrow> string res" where
  "hypr_send dec env uid compositor k cmd =
     rbind (socket_path env uid ''.socket.sock'') (\<lambda>path.
     rbind (compositor path cmd) (\<lambda>pieces. dec (read_reply k pieces)))"

text \<open>\<open>loads\<close> is \<open>json.loads\<close>.\<close>

definition hypr_clients ::
  "(string \<Rightarrow> json res) \<Rightarrow> (params \<Rightarrow> window res) \<Rightarrow> (string \<Rightarrow> string res) \<Rightarrow> window list res" where
  "hypr_clients loads validate send = rbind (send ''j/clients'') (\<lambda>s. rbind (loads s) (parse_clients validate))"

definition hypr_active_window ::
  "(string \<Rightarrow> json res) \<Rightarrow> (params \<Rightarrow> window res) \<Rightarrow> (string \<Rightarrow> string res) \<Rightarrow> window option res" where
  "hypr_active_window loads validate send =
     rbind (send ''j/activewindow'') (\<lambda>s. rbind (loads s) (parse_active_window validate))"

section \<open>The event socket\<close>

definition stream_limit :: nat where "stream_limit = 65536"

text \<open>What \<open>readline\<close> takes from the bytes that are still to come; the stream ends with them.\<close>

fun next_line :: "nat list \<Rightarrow> nat list \<times> nat list" where
  "next_line [] = ([], [])"
| "next_line (b # bs) = (if b = 10 then ([10], bs) else (let (l, r) = next_line bs in (b # l, r)))"

lemma next_line_shorter: "bs \<noteq> [] \<Longrightarrow> length (snd (next_line bs)) < length bs"
proof (induction bs)
  case (Cons b bs)
  then show ?case by (cases "bs = []") (auto simp: case_prod_beta)
qed simp

definition rstrip_nl :: "string \<Rightarrow> string" where
  "rstrip_nl s = rev (dropWhile (\<lambda>c. c = chr_nl) (rev s))"

text \<open>
  \<open>subscribe\<close>: the events, and how the generator ends.  A line beyond the limit of the reader, or one
  that is not text, raises.
\<close>

function subscribe_events :: "(nat list \<Rightarrow> string res) \<Rightarrow> nat list \<Rightarrow> event list \<times> unit res" where
  "subscribe_events dec bs =
     (if bs = [] then ([], Inr ())
      else if stream_limit < length (takeWhile (\<lambda>b. b \<noteq> 10) bs)
      then ([], Inl (ValueError ''Separator is not found, and chunk exceed the limit''))
      else case dec (fst (next_line bs)) of
             Inl e \<Rightarrow> ([], Inl e)
           | Inr s \<Rightarrow> (let (es, r) = subscribe_events dec (snd (next_line bs)) in (parse_event (rstrip_nl s) # es, r)))"
  by pat_completeness auto
termination
  by (relation "measure (\<lambda>(dec, bs). length bs)") (auto dest: next_line_shorter)

declare subscribe_events.simps [simp del]

text \<open>The watcher on such a stream, without reloads: what it starts, and how its task ends.\<close>

definition watch_stream ::
  "(nat list \<Rightarrow> string res) \<Rightarrow> rule list \<Rightarrow> nat list \<Rightarrow> (rule \<times> event) list \<times> unit res" where
  "watch_stream dec rules bs =
     (let (es, r) = subscribe_events dec bs in (run_watcher rules (map (\<lambda>e. W_line (event_raw e)) es), r))"

section \<open>The screen lock\<close>

record dbus_msg =
  db_signal :: bool
  db_member :: "string option"
  db_body :: "json list"

text \<open>One round of \<open>_dbus_listen\<close>.\<close>

definition locks :: "dbus_msg \<Rightarrow> bool" where
  "locks m \<longleftrightarrow> db_signal m \<and> db_member m = Some ''ActiveChanged'' \<and>
     (case db_body m of [] \<Rightarrow> False | v # _ \<Rightarrow> truthy v)"

definition dbus_round :: "dbus_msg \<Rightarrow> daemon \<Rightarrow> daemon" where
  "dbus_round m D =
     (if \<not> db_signal m then D
      else if db_member m \<noteq> Some ''ActiveChanged'' then D
      else on_active_changed (case db_body m of [] \<Rightarrow> False | v # _ \<Rightarrow> truthy v) D)"

text \<open>
  \<open>_listen\<close>: the messages until the connection fails, if it does; the exception is logged and the
  listener is gone.
\<close>

definition dbus_listen :: "unit res \<Rightarrow> dbus_msg list \<Rightarrow> daemon \<Rightarrow> daemon" where
  "dbus_listen opened ms D = (case opened of Inl e \<Rightarrow> D | Inr _ \<Rightarrow> foldl (\<lambda>D m. dbus_round m D) D ms)"

section \<open>Commands, mouse and clipboard\<close>

definition run_command ::
  "(real \<Rightarrow> string) \<Rightarrow> (nat list \<Rightarrow> string) \<Rightarrow> string \<Rightarrow> string \<Rightarrow> real \<Rightarrow> real \<Rightarrow> bool \<Rightarrow> nat \<Rightarrow> term_wait
   \<Rightarrow> emission list \<times> (int \<times> string \<times> string \<times> nat) res" where
  "run_command fmt_g decode command run_id timeout hold_s visible cap w =
     (if visible then (case run_visible fmt_g command run_id timeout hold_s w of (argv, es, r) \<Rightarrow> (es, r))
      else run_capture decode command run_id timeout cap w)"

text \<open>The mouse moves, then clicks; \<open>spawn\<close> runs a program.\<close>

definition move_and_click ::
  "(json \<Rightarrow> string) \<Rightarrow> (string list \<Rightarrow> proc_wait) \<Rightarrow> json \<Rightarrow> json \<Rightarrow> string \<Rightarrow> string list list \<times> unit res" where
  "move_and_click str spawn x y button =
     (case run_checked (move_argv str x y) (spawn (move_argv str x y)) of
        Inl e \<Rightarrow> ([move_argv str x y], Inl e)
      | Inr _ \<Rightarrow> ([move_argv str x y, click_argv button], run_checked (click_argv button) (spawn (click_argv button))))"

definition clipboard_read :: "(string list \<Rightarrow> proc_wait) \<Rightarrow> string res" where
  "clipboard_read spawn = rbind (proc_run [''wl-paste'', ''--no-newline''] (spawn [''wl-paste'', ''--no-newline'']))
     (\<lambda>r. Inr (pr_stdout r))"

text \<open>The text goes to the standard input of \<open>wl-copy\<close>.\<close>

definition clipboard_write :: "(string list \<Rightarrow> string \<Rightarrow> proc_wait) \<Rightarrow> string \<Rightarrow> unit res" where
  "clipboard_write spawn t = rbind (proc_run [''wl-copy''] (spawn [''wl-copy''] t)) (\<lambda>r.
     if pr_returncode r \<noteq> 0 then Inl (RuntimeError (''wl-copy failed: '' @ pr_stderr r)) else Inr ())"

section \<open>The push-to-talk socket\<close>

text \<open>\<open>PttServer.start\<close> and \<open>stop\<close> on the socket file.\<close>

definition ptt_start :: "socket_file \<Rightarrow> socket_file" where
  "ptt_start f = serve_socket f"

definition ptt_stop :: "socket_file \<Rightarrow> socket_file" where
  "ptt_stop f = Absent"

text \<open>
  The life of a sidecar with push to talk: its start, and the end of \<open>_run_sidecar\<close>, which cancels the
  waiting task and no more; the process leaves its socket file behind.
\<close>

definition sidecar_started :: "voice_config \<Rightarrow> socket_file \<Rightarrow> socket_file" where
  "sidecar_started c f =
     (if \<exists>r t b. Serve_ptt r t b \<in> set (sidecar_tasks c) then ptt_start f else f)"

definition sidecar_ended :: "socket_file \<Rightarrow> socket_file" where
  "sidecar_ended f = (if f = Bound then Stale else f)"

text \<open>The command that triggers it: a file without a server behind it refuses the connection.\<close>

definition trigger :: "voice_config \<Rightarrow> string \<Rightarrow> socket_file \<Rightarrow> cli_out \<times> string option" where
  "trigger c runtime_dir f =
     cmd_ptt c runtime_dir (\<lambda>p. f \<noteq> Absent) (if f = Bound then None else Some ''[Errno 111] Connection refused'')"

text \<open>
  \<open>service start\<close>: the socket the daemon is run on, and how the command ends when the daemon does; an
  interrupt from the keyboard (\<open>None\<close>) is a normal end.
\<close>

definition service_socket :: "string option \<Rightarrow> string \<Rightarrow> string" where
  "service_socket given_path default_path = (case given_path of
      None \<Rightarrow> default_path | Some p \<Rightarrow> if p = [] then default_path else p)"

definition cmd_service_start :: "(string \<Rightarrow> unit res option) \<Rightarrow> string option \<Rightarrow> string \<Rightarrow> cli_out" where
  "cmd_service_start run_daemon given_path default_path =
     (case run_daemon (service_socket given_path default_path) of
        None \<Rightarrow> says [] | Some (Inl e) \<Rightarrow> crashes e | Some (Inr _) \<Rightarrow> says [])"

section \<open>Lemmas\<close>

lemma next_line_append: "10 \<notin> set l \<Longrightarrow> next_line (l @ 10 # rest) = (l @ [10], rest)"
  by (induction l) auto

lemma line_before_newline: "10 \<notin> set l \<Longrightarrow> takeWhile (\<lambda>b. b \<noteq> 10) (l @ 10 # rest) = (l :: nat list)"
  by (induction l) auto

lemma rstrip_nl_line: "chr_nl \<notin> set s \<Longrightarrow> rstrip_nl (s @ [chr_nl]) = s"
proof -
  assume "chr_nl \<notin> set s"
  then have "dropWhile (\<lambda>c. c = chr_nl) (rev s) = rev s" by (cases "rev s") (auto simp: dropWhile_eq_self_iff hd_rev)
  then show ?thesis by (simp add: rstrip_nl_def)
qed

text \<open>A line that can be read: short enough, and text.\<close>

definition readable :: "(nat list \<Rightarrow> string res) \<Rightarrow> nat list \<times> string \<Rightarrow> bool" where
  "readable dec ls = (case ls of (l, s) \<Rightarrow> 10 \<notin> set l \<and> length l \<le> stream_limit \<and> chr_nl \<notin> set s \<and>
     dec (l @ [10]) = Inr (s @ [chr_nl]))"

lemma subscribe_line:
  assumes "readable dec (l, s)"
  shows "subscribe_events dec (l @ 10 # rest) =
     (let (es, r) = subscribe_events dec rest in (parse_event s # es, r))"
  using assms
  by (simp add: subscribe_events.simps[of dec "l @ 10 # rest"] readable_def line_before_newline next_line_append rstrip_nl_line)

lemma subscribe_lines:
  assumes "\<forall>p\<in>set ls. readable dec p"
  shows "subscribe_events dec (concat (map (\<lambda>p. fst p @ [10]) ls) @ rest) =
     (let (es, r) = subscribe_events dec rest in (map (\<lambda>p. parse_event (snd p)) ls @ es, r))"
  using assms
proof (induction ls)
  case Nil
  then show ?case by (simp add: Let_def)
next
  case (Cons p ls)
  obtain l s where p: "p = (l, s)" by (cases p)
  have "subscribe_events dec (l @ 10 # (concat (map (\<lambda>p. fst p @ [10]) ls) @ rest)) =
      (let (es, r) = subscribe_events dec (concat (map (\<lambda>p. fst p @ [10]) ls) @ rest) in (parse_event s # es, r))"
    by (rule subscribe_line) (use Cons.prems p in simp)
  then show ?case using Cons p by (simp add: case_prod_beta Let_def)
qed

lemma watch_lines:
  "run_watcher rules (map (\<lambda>e. W_line (event_raw e)) (map parse_event ss)) =
     concat (map (\<lambda>s. map (\<lambda>r. (r, parse_event s)) (filter (\<lambda>r. match_event r (parse_event s)) rules)) ss)"
proof (induction ss)
  case (Cons s ss)
  have "event_raw (parse_event s) = s" by (simp add: parse_event_def Let_def split: prod.split)
  then show ?case using Cons by (simp add: Let_def)
qed simp

lemma dbus_round_locks: "dbus_round m D = (if locks m then D\<lparr>dm_exec := cancel_all (dm_exec D)\<rparr> else D)"
  by (auto simp: dbus_round_def locks_def on_active_changed_def)

lemma dbus_rounds:
  assumes "distinct (map fst (ex_tasks (dm_exec D)))"
  shows "ex_tasks (dm_exec (foldl (\<lambda>D m. dbus_round m D) D ms)) =
     (if \<exists>m\<in>set ms. locks m then map (\<lambda>(j, st). (j, Cancelling)) (ex_tasks (dm_exec D)) else ex_tasks (dm_exec D))"
  using assms
proof (induction ms arbitrary: D)
  case (Cons m ms)
  let ?D = "dbus_round m D"
  have t: "ex_tasks (dm_exec ?D) =
      (if locks m then map (\<lambda>(j, st). (j, Cancelling)) (ex_tasks (dm_exec D)) else ex_tasks (dm_exec D))"
    using cancel_all_tasks[OF Cons.prems] by (simp add: dbus_round_locks)
  have "distinct (map fst (ex_tasks (dm_exec ?D)))"
    using Cons.prems by (simp add: t comp_def case_prod_beta)
  from Cons.IH[OF this] show ?case by (auto simp: t)
qed simp

section \<open>Properties\<close>

text \<open>
  The reply of the compositor is complete exactly if it had all arrived when the reader woke up, and is
  not longer than a mebibyte; otherwise the program works on a proper beginning of it.
\<close>

theorem reply_is_whole_if_it_was_there:
  "(read_reply k pieces = concat pieces \<longleftrightarrow>
     length (concat pieces) \<le> reply_max \<and> concat (drop (Suc k) pieces) = []) \<and>
   (\<exists>rest. concat pieces = read_reply k pieces @ rest)"
proof -
  let ?a = "concat (take (Suc k) pieces)" let ?b = "concat (drop (Suc k) pieces)"
  have split: "concat pieces = ?a @ ?b" by (metis append_take_drop_id concat_append)
  have "length (concat pieces) \<le> reply_max \<and> ?b = []" if h: "read_reply k pieces = concat pieces"
  proof -
    have "length (concat pieces) = min reply_max (length ?a)" by (metis h length_take min.commute read_reply_def)
    moreover have "length (concat pieces) = length ?a + length ?b" by (simp only: split length_append)
    ultimately have "length ?b = 0" "length (concat pieces) \<le> reply_max" by linarith+
    then show ?thesis by (simp only: length_0_conv simp_thms)
  qed
  moreover have "read_reply k pieces = concat pieces" if "length (concat pieces) \<le> reply_max \<and> ?b = []"
  proof -
    have "concat pieces = ?a" using that split by (metis append_Nil2)
    then show ?thesis using that by (simp add: read_reply_def)
  qed
  moreover have "\<exists>rest. concat pieces = read_reply k pieces @ rest"
    unfolding read_reply_def split by (metis append.assoc append_take_drop_id)
  ultimately show ?thesis by blast
qed

text \<open>
  A reply that comes in two pieces makes the request fail: when the first piece is all that is there and
  the beginning of the document is not a document, the list of the windows is an error, for whoever asked.
\<close>

theorem split_reply_fails_the_request:
  assumes "socket_path env uid ''.socket.sock'' = Inr path" and "compositor path ''j/clients'' = Inr (p1 # p2 # ps)"
    and "length p1 \<le> reply_max" and "dec p1 = Inr s" and "loads s = Inl e" and "is_Exception e"
  shows "hypr_clients loads validate (hypr_send dec env uid compositor 0) = Inl e \<and>
     fst (dispatch (E\<lparr>re_clients := hypr_clients loads validate (hypr_send dec env uid compositor 0)\<rparr>) i M_list_windows p D) =
       Inr (make_error_response i (exc_str e) (error_code e))"
proof -
  have c: "hypr_clients loads validate (hypr_send dec env uid compositor 0) = Inl e"
    using assms(1-5) by (simp add: hypr_clients_def hypr_send_def read_reply_def)
  have h: "map_of dispatch_table M_list_windows = Some h_list_windows" by (simp add: dispatch_table_def)
  let ?E = "E\<lparr>re_clients := Inl e\<rparr>"
  have "h_list_windows ?E p D = (Inl e, D)" by (simp add: h_list_windows_def)
  from dispatch_error[OF h this assms(6)] c show ?thesis by simp
qed

theorem split_reply_fails_the_request_witness:
  "hypr_clients (\<lambda>s. if s = ''[]'' then Inr (JList []) else Inl (ValueError ''Expecting value'')) (\<lambda>d. Inl (ValueError []))
     (hypr_send (\<lambda>bs. Inr (map char_of bs)) [(''HYPRLAND_INSTANCE_SIGNATURE'', ''s'')] ''1''
       (\<lambda>path cmd. Inr [[91], [93]]) 0) = Inl (ValueError ''Expecting value'') \<and>
   hypr_clients (\<lambda>s. if s = ''[]'' then Inr (JList []) else Inl (ValueError ''Expecting value'')) (\<lambda>d. Inl (ValueError []))
     (hypr_send (\<lambda>bs. Inr (map char_of bs)) [(''HYPRLAND_INSTANCE_SIGNATURE'', ''s'')] ''1''
       (\<lambda>path cmd. Inr [[91], [93]]) 1) = Inr []"
proof -
  let ?env = "[(''HYPRLAND_INSTANCE_SIGNATURE'', ''s'')]"
  let ?loads = "\<lambda>s. if s = ''[]'' then Inr (JList []) else Inl (ValueError ''Expecting value'')"
  let ?dec = "\<lambda>bs :: nat list. Inr (map char_of bs) :: string res"
  let ?comp = "\<lambda>path cmd. Inr [[91], [93]] :: nat list list res"
  obtain path where p: "socket_path ?env ''1'' ''.socket.sock'' = Inr path" by (simp add: socket_path_def)
  have c: "?comp path ''j/clients'' = Inr ([91] # [93] # [])" by simp
  have l: "?loads (map char_of [91 :: nat]) = Inl (ValueError ''Expecting value'')" by (simp add: char_of_def)
  have d: "?dec [91] = Inr (map char_of [91 :: nat])" by simp
  have len: "length [91 :: nat] \<le> reply_max" by (simp add: reply_max_def)
  have brackets: "char_of (91 :: nat) = CHR ''[''" "char_of (93 :: nat) = CHR '']''" by code_simp+
  have x: "is_Exception (ValueError ''Expecting value'')" by simp
  note split_reply_fails_the_request[where compositor = ?comp and dec = ?dec and loads = ?loads, OF p c len d l x,
      of "\<lambda>d. Inl (ValueError [])"]
  then have "hypr_clients ?loads (\<lambda>d. Inl (ValueError [])) (hypr_send ?dec ?env ''1'' ?comp 0) = Inl (ValueError ''Expecting value'')"
    by blast
  moreover have "hypr_clients ?loads (\<lambda>d. Inl (ValueError [])) (hypr_send ?dec ?env ''1'' ?comp 1) = Inr []"
    using p by (simp add: hypr_clients_def hypr_send_def read_reply_def reply_max_def brackets)
  ultimately show ?thesis by blast
qed

text \<open>
  C5: The watcher reads the lines it is sent.  For any lines that are text and within the limit, whatever
  comes after them, it has looked at exactly their events in order and started exactly the rules that
  match; when the stream ends after them the watcher ends too, and so it does, with an exception, at the
  first line that is none, whatever follows.
\<close>

theorem watcher_follows_the_socket:
  assumes "\<forall>p\<in>set ls. readable dec p"
  shows "watch_stream dec rules (concat (map (\<lambda>p. fst p @ [10]) ls)) =
       (concat (map (\<lambda>s. map (\<lambda>r. (r, parse_event s)) (filter (\<lambda>r. match_event r (parse_event s)) rules)) (map snd ls)), Inr ()) \<and>
     (\<forall>l e rest. 10 \<notin> set l \<longrightarrow> length l \<le> stream_limit \<longrightarrow> dec (l @ [10]) = Inl e \<longrightarrow>
        watch_stream dec rules (concat (map (\<lambda>p. fst p @ [10]) ls) @ l @ 10 # rest) =
          (fst (watch_stream dec rules (concat (map (\<lambda>p. fst p @ [10]) ls))), Inl e)) \<and>
     (\<forall>l. stream_limit < length l \<longrightarrow> 10 \<notin> set l \<longrightarrow>
        (\<exists>e. \<forall>rest. watch_stream dec rules (concat (map (\<lambda>p. fst p @ [10]) ls) @ l @ rest) =
          (fst (watch_stream dec rules (concat (map (\<lambda>p. fst p @ [10]) ls))), Inl e)))"
proof -
  have none: "subscribe_events dec [] = ([], Inr ())" by (simp add: subscribe_events.simps)
  note sl = subscribe_lines[OF assms]
  have whole: "subscribe_events dec (concat (map (\<lambda>p. fst p @ [10]) ls)) = (map (\<lambda>p. parse_event (snd p)) ls, Inr ())"
    using sl[of "[]"] none by (simp add: Let_def)
  have rules: "run_watcher rules (map (\<lambda>e. W_line (event_raw e)) (map (\<lambda>p. parse_event (snd p)) ls)) =
      concat (map (\<lambda>s. map (\<lambda>r. (r, parse_event s)) (filter (\<lambda>r. match_event r (parse_event s)) rules)) (map snd ls))"
    using watch_lines[of rules "map snd ls"] by (simp add: comp_def)
  have "subscribe_events dec (l @ 10 # rest) = ([], Inl e)"
    if "10 \<notin> set l" "length l \<le> stream_limit" "dec (l @ [10]) = Inl e" for l e rest
    using that by (simp add: subscribe_events.simps[of dec "l @ 10 # rest"] line_before_newline next_line_append)
  moreover have "subscribe_events dec (l @ rest) = ([], Inl (ValueError ''Separator is not found, and chunk exceed the limit''))"
    if "stream_limit < length l" "10 \<notin> set l" for l rest
  proof -
    have "length l \<le> length (takeWhile (\<lambda>b. b \<noteq> 10) (l @ rest))"
      using that(2) by (subst takeWhile_append2) auto
    then show ?thesis using that(1) by (auto simp: subscribe_events.simps[of dec "l @ rest"])
  qed
  ultimately show ?thesis using rules by (simp add: watch_stream_def whole sl Let_def)
qed

theorem watcher_follows_the_socket_witness:
  "watch_stream (\<lambda>bs. if bs = [255, 10] then Inl (ValueError ''utf-8'') else Inr [CHR ''x'', chr_nl]) [] ([120, 10] @ [255] @ 10 # [120, 10]) =
     ([], Inl (ValueError ''utf-8''))"
proof -
  let ?dec = "\<lambda>bs. if bs = [255, 10] then Inl (ValueError ''utf-8'') else Inr [CHR ''x'', chr_nl]"
  have "\<forall>p\<in>set [([120], ''x'')]. readable ?dec p" by (simp add: readable_def stream_limit_def)
  note w = watcher_follows_the_socket[where rules = "[]", OF this]
  have "10 \<notin> set [255 :: nat]" "length [255 :: nat] \<le> stream_limit" "?dec ([255] @ [10]) = Inl (ValueError ''utf-8'')"
    by (simp_all add: stream_limit_def)
  then have "watch_stream ?dec [] (concat (map (\<lambda>p. fst p @ [10]) [([120], ''x'')]) @ [255] @ 10 # [120, 10]) =
      (fst (watch_stream ?dec [] (concat (map (\<lambda>p. fst p @ [10]) [([120], ''x'')]))), Inl (ValueError ''utf-8''))"
    using w[THEN conjunct2, THEN conjunct1] by blast
  moreover have "watch_stream ?dec [] (concat (map (\<lambda>p. fst p @ [10]) [([120], ''x'')])) = ([], Inr ())"
    using w[THEN conjunct1] by simp
  ultimately show ?thesis by simp
qed

text \<open>
  The listener of the lock stops the runs exactly when a lock signal comes: after any messages every
  active run has been asked to stop if one of them said that the screen is locked, and nothing at all
  has happened otherwise, nor when the bus could not be reached.
\<close>

theorem lock_signals_stop_runs:
  assumes "distinct (map fst (ex_tasks (dm_exec D)))"
  shows "ex_tasks (dm_exec (dbus_listen (Inr ()) ms D)) =
       (if \<exists>m\<in>set ms. locks m then map (\<lambda>(j, st). (j, Cancelling)) (ex_tasks (dm_exec D)) else ex_tasks (dm_exec D)) \<and>
     ((\<forall>m\<in>set ms. \<not> locks m) \<longrightarrow> dbus_listen (Inr ()) ms D = D) \<and> dbus_listen (Inl e) ms D = D"
proof -
  have "foldl (\<lambda>D m. dbus_round m D) D ms = D" if "\<forall>m\<in>set ms. \<not> locks m"
    using that by (induction ms) (simp_all add: dbus_round_locks)
  then show ?thesis using dbus_rounds[OF assms] by (simp add: dbus_listen_def)
qed

theorem lock_signals_stop_runs_witness:
  "\<exists>D. active_run_ids (dm_exec D) = [''r1''] \<and>
     ex_tasks (dm_exec (dbus_listen (Inr ()) [\<lparr>db_signal = True, db_member = Some ''ActiveChanged'', db_body = [JBool True]\<rparr>] D)) =
       [(''r1'', Cancelling)]"
proof -
  let ?D = "new_daemon\<lparr>dm_exec := new_executor\<lparr>ex_tasks := [(''r1'', Live)]\<rparr>\<rparr>"
  have "distinct (map fst (ex_tasks (dm_exec ?D)))" by simp
  from lock_signals_stop_runs[OF this, of "[\<lparr>db_signal = True, db_member = Some ''ActiveChanged'', db_body = [JBool True]\<rparr>]"]
  show ?thesis by (intro exI[of _ ?D]) (simp add: locks_def active_run_ids_def)
qed

text \<open>
  Every command is bracketed by two events: its start, and how it ended; both carry the title of the
  run's terminal, and the command succeeds exactly if the process exited with zero.
\<close>

theorem command_is_bracketed:
  assumes "run_command fmt_g decode command run_id timeout hold_s visible cap w = (es, r)"
  shows "map fst es = [''terminal_started'', (case w of T_timeout \<Rightarrow> ''terminal_timed_out''
       | T_cancelled \<Rightarrow> ''terminal_cancelled'' | T_exit code out err \<Rightarrow> ''terminal_exited'')] \<and>
     (\<forall>e\<in>set es. dget (snd e) ''title'' = Some (JStr (''hyprland-agent:'' @ run_id))) \<and>
     ((\<exists>v. r = Inr v) \<longleftrightarrow> (\<exists>out err. w = T_exit 0 out err))"
  using assms
  by (cases w) (auto simp: run_command_def run_visible_def run_capture_def Let_def split: if_splits)

theorem command_is_bracketed_witness:
  "map fst (fst (run_command (\<lambda>x. []) (map char_of) ''ls'' ''r1'' 300 0 False 10 T_timeout)) =
     [''terminal_started'', ''terminal_timed_out'']"
proof -
  obtain es r where e: "run_command (\<lambda>x. []) (map char_of) ''ls'' ''r1'' 300 0 False 10 T_timeout = (es, r)"
    by (cases "run_command (\<lambda>x. []) (map char_of) ''ls'' ''r1'' 300 0 False 10 T_timeout")
  from command_is_bracketed[OF e] e show ?thesis by simp
qed

text \<open>A failed paste reads as an empty clipboard: the exit code of \<open>wl-paste\<close> is not looked at.\<close>

theorem failed_paste_reads_as_text:
  "clipboard_read (\<lambda>argv. Exited (Some code) out err) = Inr (case out of None \<Rightarrow> [] | Some s \<Rightarrow> s)"
  by (simp add: clipboard_read_def proc_run_def)

text \<open>
  A click at a place is two programs, the move first; the click is not sent when the move fails.
\<close>

theorem no_click_without_the_move:
  assumes "move_and_click str spawn x y button = (argvs, r)"
  shows "hd argvs = move_argv str x y \<and>
     (click_argv button \<in> set (tl argvs) \<longleftrightarrow> run_checked (move_argv str x y) (spawn (move_argv str x y)) = Inr ()) \<and>
     (r = Inr () \<longleftrightarrow> (\<forall>a\<in>set [move_argv str x y, click_argv button]. run_checked a (spawn a) = Inr ()))"
  using assms by (auto simp: move_and_click_def split: sum.splits)

theorem no_click_without_the_move_witness:
  "fst (move_and_click (\<lambda>j. []) (\<lambda>a. Timed_out) (JInt 1) (JInt 2) ''left'') = [move_argv (\<lambda>j. []) (JInt 1) (JInt 2)]"
proof -
  obtain argvs r where m: "move_and_click (\<lambda>j. []) (\<lambda>a. Timed_out) (JInt 1) (JInt 2) ''left'' = (argvs, r)"
    by (cases "move_and_click (\<lambda>j. []) (\<lambda>a. Timed_out) (JInt 1) (JInt 2) ''left''")
  from no_click_without_the_move[OF m] m show ?thesis
    by (auto simp: move_and_click_def run_checked_def proc_run_def)
qed

text \<open>
  The sidecar leaves its socket behind when it ends, so that the trigger does not say that no sidecar
  runs: with push to talk configured the trigger works while the sidecar is up, and afterwards fails at
  the connection.  A new start removes the file first and works again.
\<close>

theorem trigger_after_the_sidecar:
  assumes "Serve_ptt r t b \<in> set (sidecar_tasks c)"
  shows "trigger c dir (sidecar_started c f) = (says [], Some (''record'' @ [chr_nl])) \<and>
     trigger c dir (sidecar_ended (sidecar_started c f)) =
       (complains [''Failed to send PTT trigger: [Errno 111] Connection refused''] X_daemon_unavailable, None) \<and>
     sidecar_started c (sidecar_ended (sidecar_started c f)) = Bound \<and>
     co_err (fst (trigger c dir (ptt_stop (sidecar_started c f)))) \<noteq>
       co_err (fst (trigger c dir (sidecar_ended (sidecar_started c f))))"
proof -
  have up: "sidecar_started c g = Bound" for g
    using assms by (auto simp: sidecar_started_def ptt_start_def serve_socket_def Let_def)
  show ?thesis
    by (simp add: up trigger_def cmd_ptt_def sidecar_ended_def ptt_stop_def says_def complains_def Let_def)
qed

theorem trigger_after_the_sidecar_witness:
  "\<exists>c. fst (trigger c ''/run'' (sidecar_ended (sidecar_started c Absent))) =
     complains [''Failed to send PTT trigger: [Errno 111] Connection refused''] X_daemon_unavailable"
proof -
  let ?c = "default_voice\<lparr>vo_ptt := default_ptt\<lparr>vpt_enabled := True\<rparr>\<rparr>"
  have "Serve_ptt (ptt_recorder ?c) 10 ''auto'' \<in> set (sidecar_tasks ?c)"
    by (simp add: sidecar_tasks_def default_voice_def default_ptt_def default_stt_def default_handsfree_def)
  from trigger_after_the_sidecar[OF this, of "''/run''" Absent] show ?thesis by (metis fst_conv)
qed

end
