(* ===== verification/Speech.thy ===== *)
theory Speech
  imports Streams "HOL-Library.Word"
begin

text \<open>
  From the microphone to the run: samples and their bytes (\<open>voice/audio.py\<close>, \<open>voice/stt.py\<close>), the
  capture stream, what the sidecar needs in order to start (\<open>cli/voice_sidecar.py\<close>), and the request both
  the pipeline and push to talk make (\<open>_submit\<close> of \<open>voice/pipeline.py\<close> and \<open>voice/ptt.py\<close>).
\<close>

section \<open>Samples and bytes\<close>

text \<open>
  \<open>(audio * 32767).astype(np.int16).tobytes()\<close>: two's complement in sixteen bits, the low byte first.
  Samples are real numbers here; the rounding of single precision is left out.
\<close>

definition sample :: "real \<Rightarrow> 16 word" where
  "sample x = word_of_int (trunc (x * 32767))"

definition le_bytes :: "16 word \<Rightarrow> nat list" where
  "le_bytes w = [unat w mod 256, unat w div 256]"

definition pcm_bytes :: "real list \<Rightarrow> nat list" where
  "pcm_bytes xs = concat (map (\<lambda>x. le_bytes (sample x)) xs)"

text \<open>\<open>np.frombuffer(data, dtype=np.int16)\<close>.\<close>

fun from_buffer :: "nat list \<Rightarrow> 16 word list res" where
  "from_buffer [] = Inr []"
| "from_buffer [b] = Inl (ValueError ''buffer size must be a multiple of element size'')"
| "from_buffer (a # b # bs) = rbind (from_buffer bs) (\<lambda>ws. Inr (word_of_nat (a + 256 * b) # ws))"

definition heard_samples :: "nat list \<Rightarrow> real list res" where
  "heard_samples pcm = rbind (from_buffer pcm) (\<lambda>ws. Inr (map (\<lambda>w. real_of_int (sint w) / 32767) ws))"

section \<open>The capture stream\<close>

text \<open>
  A stream of the sound library: opened, it is stopped; \<open>with\<close> starts it.  \<open>dev\<close> says what the
  read after \<open>n\<close> others gives on a stream that runs or does not.
\<close>

record input_stream =
  is_started :: bool
  is_reads :: nat

definition open_stream :: input_stream where
  "open_stream = \<lparr>is_started = False, is_reads = 0\<rparr>"

definition enter_stream :: "input_stream \<Rightarrow> input_stream" where
  "enter_stream s = s\<lparr>is_started := True\<rparr>"

definition read_stream :: "(bool \<Rightarrow> nat \<Rightarrow> 'a list res) \<Rightarrow> input_stream \<Rightarrow> 'a list res \<times> input_stream" where
  "read_stream dev s = (dev (is_started s) (is_reads s), s\<lparr>is_reads := Suc (is_reads s)\<rparr>)"

text \<open>
  The thread of \<open>start_stream\<close>, for at most \<open>n\<close> blocks: an exception of the read or of the callback ends
  it.  \<open>clock k\<close> and \<open>speech blk\<close> are what the callback sees.
\<close>

fun capture_thread ::
  "nat \<Rightarrow> (bool \<Rightarrow> nat \<Rightarrow> 'a list res) \<Rightarrow> (nat \<Rightarrow> real) \<Rightarrow> ('a list \<Rightarrow> bool) \<Rightarrow> input_stream
   \<Rightarrow> 'a pipeline \<times> 'a ring \<Rightarrow> 'a pipeline \<times> 'a ring" where
  "capture_thread 0 dev clock speech s pr = pr"
| "capture_thread (Suc n) dev clock speech s pr =
     (if \<not> pl_alive (fst pr) then pr
      else case read_stream dev s of
             (Inl e, s') \<Rightarrow> ((fst pr)\<lparr>pl_alive := False\<rparr>, snd pr)
           | (Inr blk, s') \<Rightarrow>
               capture_thread n dev clock speech s' (capture_block (clock (is_reads s)) (speech blk) blk pr))"

text \<open>\<open>HandsfreePipeline.start\<close>, whose loop of waiting does nothing more.\<close>

definition start_pipeline ::
  "nat \<Rightarrow> (bool \<Rightarrow> nat \<Rightarrow> 'a list res) \<Rightarrow> (nat \<Rightarrow> real) \<Rightarrow> ('a list \<Rightarrow> bool) \<Rightarrow> 'a pipeline \<times> 'a ring
   \<Rightarrow> 'a pipeline \<times> 'a ring" where
  "start_pipeline n dev clock speech pr =
     capture_thread n dev clock speech open_stream ((fst pr)\<lparr>pl_state := LISTENING\<rparr>, snd pr)"

section \<open>What the sidecar needs\<close>

text \<open>The optional libraries: sound, speech recognition, voice activity.\<close>

record voice_libs =
  lb_sound :: bool
  lb_whisper :: bool
  lb_vad :: bool

definition make_recorder :: "voice_libs \<Rightarrow> recorder \<Rightarrow> recorder res" where
  "make_recorder L r =
     (if \<not> lb_sound L then Inl (RuntimeError (''sounddevice is required for audio capture. '' @
        ''Install with: uv sync --extra voice  (or pip install hyprland-agent[voice])''))
      else Inr r)"

definition make_stt :: "voice_libs \<Rightarrow> voice_config \<Rightarrow> whisper res" where
  "make_stt L c = new_whisper (lb_whisper L) (vs_model (vo_stt c)) (vs_language (vo_stt c))
     (vs_device (vo_stt c)) (vs_compute_type (vo_stt c))"

text \<open>\<open>_start_ptt\<close>: the task and what becomes of the socket file.\<close>

definition start_ptt :: "voice_libs \<Rightarrow> voice_config \<Rightarrow> socket_file \<Rightarrow> sidecar_task res \<times> socket_file" where
  "start_ptt L c f =
     (case make_recorder L (ptt_recorder c) of
        Inl e \<Rightarrow> (Inl e, f)
      | Inr r \<Rightarrow> (case make_stt L c of
          Inl e \<Rightarrow> (Inl e, f)
        | Inr w \<Rightarrow> (Inr (Serve_ptt r (vpt_record_timeout (vo_ptt c)) (vpt_brain (vo_ptt c))), ptt_start f)))"

definition start_handsfree :: "voice_libs \<Rightarrow> voice_config \<Rightarrow> sidecar_task res" where
  "start_handsfree L c =
     rbind (new_vad (lb_vad L) (vv_threshold (vo_vad c)) :: (unit, unit) vad res) (\<lambda>v.
     rbind (make_stt L c) (\<lambda>w.
     rbind (make_recorder L (handsfree_recorder c)) (\<lambda>r.
     Inr (Handsfree r (vh_record_timeout (vo_handsfree c)) (vh_brain (vo_handsfree c))))))"

text \<open>
  \<open>_run_sidecar\<close> up to the wait for its end: the tasks that were created, and the exception, if there is
  one, which ends the process and them with it.
\<close>

definition wants_ptt :: "voice_config \<Rightarrow> bool" where
  "wants_ptt c \<longleftrightarrow> vpt_enabled (vo_ptt c) \<and> vs_engine (vo_stt c) \<noteq> []"

definition wants_handsfree :: "voice_config \<Rightarrow> bool" where
  "wants_handsfree c \<longleftrightarrow> vh_enabled (vo_handsfree c) \<and> vs_engine (vo_stt c) \<noteq> [] \<and>
     vw_engine (vo_wakeword c) \<noteq> [] \<and> vv_engine (vo_vad c) \<noteq> []"

definition start_sidecar ::
  "voice_libs \<Rightarrow> voice_config \<Rightarrow> socket_file \<Rightarrow> sidecar_task list \<times> unit res \<times> socket_file" where
  "start_sidecar L c f =
     (let tasks = (if vt_engine (vo_tts c) \<noteq> [] then [Watch_runs] else []);
          ptt = (if wants_ptt c then (case start_ptt L c f of (r, f1) \<Rightarrow> (rbind r (\<lambda>t. Inr [t]), f1)) else (Inr [], f))
      in case fst ptt of
           Inl e \<Rightarrow> (tasks, Inl e, snd ptt)
         | Inr ts \<Rightarrow>
             (if wants_handsfree c then
                (case start_handsfree L c of
                   Inl e \<Rightarrow> (tasks @ ts, Inl e, snd ptt)
                 | Inr h \<Rightarrow> (tasks @ ts @ [h], Inr (), snd ptt))
              else (tasks @ ts, Inr (), snd ptt)))"

text \<open>The tasks that are left when it waits, and the socket file; a process that ends leaves the file.\<close>

definition sidecar_runs :: "voice_libs \<Rightarrow> voice_config \<Rightarrow> socket_file \<Rightarrow> sidecar_task list \<times> socket_file" where
  "sidecar_runs L c f = (case start_sidecar L c f of
      (ts, Inl e, f') \<Rightarrow> ([], sidecar_ended f') | (ts, Inr _, f') \<Rightarrow> (ts, f'))"

section \<open>Submitting\<close>

text \<open>
  \<open>_submit\<close>: \<open>None\<close> is a request that is never answered; an error of the protocol is the only one that is
  not caught here.
\<close>

definition submit_spoken :: "'d api \<Rightarrow> string \<Rightarrow> string \<Rightarrow> 'd \<Rightarrow> (client_error + unit) option \<times> 'd" where
  "submit_spoken rq text brain d = (case rq M_run_task (run_request text brain) d of
      (None, d') \<Rightarrow> (None, d')
    | (Some (Inl (Protocol_mismatch m)), d') \<Rightarrow> (Some (Inl (Protocol_mismatch m)), d')
    | (Some (Inl _), d') \<Rightarrow> (Some (Inr ()), d')
    | (Some (Inr _), d') \<Rightarrow> (Some (Inr ()), d'))"

text \<open>\<open>_transcribe_and_submit\<close>: whatever the submission ends with, the pipeline listens again.\<close>

definition transcribe_and_submit ::
  "'d api \<Rightarrow> string res \<Rightarrow> string \<Rightarrow> 'a pipeline \<times> 'd \<Rightarrow> 'a pipeline \<times> 'd" where
  "transcribe_and_submit rq r brain s = (case transcribe r (fst s) of
      (None, p) \<Rightarrow> (p, snd s)
    | (Some text, p) \<Rightarrow> (case submit_spoken rq text brain (snd s) of
        (None, d) \<Rightarrow> (p, d)
      | (Some _, d) \<Rightarrow> (submitted p, d)))"

text \<open>The request on a connection \<open>k\<close> on which the frames \<open>rs\<close> are read after it.\<close>

definition connection_api :: "string \<Rightarrow> frame res list \<Rightarrow> client api" where
  "connection_api i rs m p k =
     (outcome i (client_read_all rs (send_request i m p k)), client_read_all rs (send_request i m p k))"

text \<open>One client of the push-to-talk socket; \<open>PttServer._handle_client\<close> logs every exception.\<close>

definition handle_ptt ::
  "'d api \<Rightarrow> string \<Rightarrow> string option \<Rightarrow> nat list res \<Rightarrow> string res \<Rightarrow> 'd \<Rightarrow> bool \<times> 'd" where
  "handle_ptt rq brain line pcm text d = (case ptt_handle line pcm text of
      None \<Rightarrow> (True, d)
    | Some t \<Rightarrow> (case submit_spoken rq t brain d of (None, d') \<Rightarrow> (False, d') | (Some _, d') \<Rightarrow> (True, d')))"

section \<open>Lemmas\<close>

lemma trunc_bounds: "\<bar>x - of_int (trunc x)\<bar> < 1"
  unfolding trunc_def by (simp; linarith)

lemma trunc_range: "\<bar>x\<bar> \<le> 1 \<Longrightarrow> \<bar>trunc (x * 32767)\<bar> \<le> 32767"
  unfolding trunc_def by (auto simp: abs_le_iff; linarith)

lemma trunc_smaller: "\<bar>of_int (trunc x)\<bar> \<le> \<bar>x\<bar>"
  unfolding trunc_def by (simp; linarith)

lemma sample_sint:
  assumes "\<bar>x\<bar> \<le> 1"
  shows "sint (sample x) = trunc (x * 32767)"
proof -
  let ?k = "trunc (x * 32767)"
  have "\<bar>?k\<bar> \<le> 32767" by (rule trunc_range[OF assms])
  then have "- (2 ^ 15) \<le> ?k" "?k < 2 ^ 15" by (simp_all add: abs_le_iff)
  then have "signed_take_bit 15 ?k = ?k" by (rule signed_take_bit_int_eq_self)
  then show ?thesis by (simp add: sample_def signed_of_int)
qed

lemma sample_signed: "\<bar>x\<bar> \<le> 1 \<Longrightarrow> (signed (sample x) :: real) = of_int (trunc (x * 32767))"
  by (metis of_int_sint sample_sint)

lemma bytes_of_word: "word_of_nat (unat w mod 256 + 256 * (unat w div 256)) = (w :: 16 word)"
  by simp

lemma from_buffer_pcm: "from_buffer (pcm_bytes xs) = Inr (map sample xs)"
  by (induction xs) (simp_all add: pcm_bytes_def le_bytes_def)

lemma request_unanswered:
  assumes "cl_reading k" and "list_all (other_frame i) fs"
  shows "outcome i (client_read_all (map Inr fs @ Inl e # later) (send_request i m p k)) = None"
proof -
  let ?k = "send_request i m p k"
  have "waits_for i ?k" "cl_reading ?k" using assms(1) by (simp_all add: send_request_def waits_for_def update_conv')
  then have w: "waits_for i (client_read_all (map Inr fs) ?k)" "cl_reading (client_read_all (map Inr fs) ?k)"
    using read_others[OF assms(2), of ?k] by simp_all
  then have "client_read (Inl e) (client_read_all (map Inr fs) ?k) = end_loop (client_read_all (map Inr fs) ?k)"
    by (simp add: client_read_def)
  then show ?thesis
    using w(1) by (simp add: not_reading end_loop_def outcome_def waits_for_def answer_of_def)
qed

lemma capture_submitting: "pl_state p = SUBMITTING \<Longrightarrow> capture now speech blk p = p"
  by (simp add: capture_def on_chunk_def)

lemma captures_submitting:
  "pl_state p = SUBMITTING \<Longrightarrow> foldl (\<lambda>p (now, speech, blk). capture now speech blk p) p blks = p"
  by (induction blks) (auto simp: capture_submitting)

lemma transcribe_some: "transcribe r p = (Some text, p') \<Longrightarrow> pl_state p' = SUBMITTING"
  by (auto simp: transcribe_def split: list.splits sum.splits if_splits)

section \<open>Properties\<close>

text \<open>
  C34: What was recorded is what is recognised: samples between -1 and 1 that the recorder writes as bytes
  are read back by the recogniser in their number and order, each within one step of the quantisation
  and never louder; an odd number of bytes is refused.
\<close>

theorem speech_is_heard_as_recorded:
  assumes "\<forall>x\<in>set xs. \<bar>x\<bar> \<le> 1"
  shows "(\<exists>ys. heard_samples (pcm_bytes xs) = Inr ys \<and> length ys = length xs \<and> length (pcm_bytes xs) = 2 * length xs \<and>
       (\<forall>i<length xs. \<bar>ys ! i - xs ! i\<bar> < 1 / 32767 \<and> \<bar>ys ! i\<bar> \<le> \<bar>xs ! i\<bar>)) \<and>
     heard_samples (pcm_bytes xs @ [b]) = Inl (ValueError ''buffer size must be a multiple of element size'')"
proof -
  let ?ys = "map (\<lambda>x. real_of_int (trunc (x * 32767)) / 32767) xs"
  have "heard_samples (pcm_bytes xs) = Inr ?ys"
    using assms by (simp add: heard_samples_def from_buffer_pcm sample_signed)
  moreover have "length (pcm_bytes xs) = 2 * length xs"
    by (induction xs) (simp_all add: pcm_bytes_def le_bytes_def)
  moreover have "\<bar>?ys ! i - xs ! i\<bar> < 1 / 32767 \<and> \<bar>?ys ! i\<bar> \<le> \<bar>xs ! i\<bar>" if "i < length xs" for i
  proof -
    have "\<bar>of_int (trunc (x * 32767)) / 32767 - x\<bar> < 1 / 32767" for x :: real
      using trunc_bounds[of "x * 32767"] by (auto simp: abs_less_iff field_simps)
    moreover have "\<bar>of_int (trunc (x * 32767)) / 32767\<bar> \<le> \<bar>x\<bar>" for x :: real
      using trunc_smaller[of "x * 32767"] by (simp add: abs_mult field_simps)
    ultimately show ?thesis using that by simp
  qed
  moreover have "from_buffer (pcm_bytes xs @ [b]) = Inl (ValueError ''buffer size must be a multiple of element size'')"
    by (induction xs) (simp_all add: pcm_bytes_def le_bytes_def)
  then have "heard_samples (pcm_bytes xs @ [b]) = Inl (ValueError ''buffer size must be a multiple of element size'')"
    by (simp add: heard_samples_def)
  ultimately show ?thesis by (auto intro!: exI[of _ ?ys])
qed

theorem speech_is_heard_as_recorded_witness:
  "\<exists>y z. heard_samples (pcm_bytes [1 / 2, -1]) = Inr [y, z] \<and> \<bar>y - 1 / 2\<bar> < 1 / 32767 \<and> \<bar>z + 1\<bar> < 1 / 32767"
proof -
  have "\<forall>x\<in>set [1 / 2, -1 :: real]. \<bar>x\<bar> \<le> 1" by simp
  from speech_is_heard_as_recorded[OF this] obtain ys where ys: "heard_samples (pcm_bytes [1 / 2, -1]) = Inr ys"
    "length ys = length [1 / 2, -1 :: real]" "\<forall>i<length [1 / 2, -1 :: real]. \<bar>ys ! i - [1 / 2, -1] ! i\<bar> < 1 / 32767"
    by blast
  from ys(2) obtain y z where "ys = [y, z]" by (auto simp: length_Suc_conv)
  with ys(1) ys(3)[rule_format, of 0] ys(3)[rule_format, of 1] show ?thesis by simp
qed

text \<open>
  The hands-free microphone hears nothing: the stream is opened but not started, and where a read of a
  stopped stream raises, as the sound library says, the capture thread ends before its first block and
  the pipeline listens to no one.  With the stream started, as the recorder of push to talk does, the
  blocks arrive.
\<close>

theorem stopped_stream_is_not_heard:
  assumes "\<And>n. dev False n = Inl e" and "pl_alive p" and "dev True 0 = Inr blk"
  shows "start_pipeline (Suc n) dev clock speech (p, ring) = (p\<lparr>pl_state := LISTENING, pl_alive := False\<rparr>, ring) \<and>
     capture_thread (Suc n) dev clock speech (enter_stream open_stream) (p, ring) =
       capture_thread n dev clock speech ((enter_stream open_stream)\<lparr>is_reads := 1\<rparr>)
         (capture_block (clock 0) (speech blk) blk (p, ring))"
  using assms by (simp add: start_pipeline_def read_stream_def open_stream_def enter_stream_def)

theorem stopped_stream_is_not_heard_witness:
  "pl_alive (fst (start_pipeline 5 (\<lambda>started n. if started then Inr [1 :: int] else Inl (OSError ''Stream is stopped''))
     real (\<lambda>b. True) (new_pipeline, new_ring 0 4))) = False"
proof -
  let ?dev = "\<lambda>started n :: nat. if started then Inr [1 :: int] else Inl (OSError ''Stream is stopped'')"
  have "?dev False n = Inl (OSError ''Stream is stopped'')" "pl_alive (new_pipeline :: int pipeline)" "?dev True 0 = Inr [1]" for n
    by (simp_all add: new_pipeline_def)
  from stopped_stream_is_not_heard[where dev = ?dev and p = "new_pipeline :: int pipeline", OF this, of 4 real "\<lambda>b. True" "new_ring 0 4"]
  show ?thesis by (simp add: numeral_eq_Suc)
qed

text \<open>
  The sidecar starts everything or nothing: with the libraries of what is switched on it runs exactly
  the configured tasks; if one of them is missing it ends, and with it the announcements, which need
  none of them.  When push to talk was already up by then, its socket is left behind.
\<close>

theorem sidecar_starts_all_or_nothing:
  "fst (sidecar_runs L c f) =
       (if (wants_ptt c \<longrightarrow> lb_sound L \<and> lb_whisper L) \<and> (wants_handsfree c \<longrightarrow> lb_sound L \<and> lb_whisper L \<and> lb_vad L)
        then sidecar_tasks c else []) \<and>
     (wants_ptt c \<and> wants_handsfree c \<and> lb_sound L \<and> lb_whisper L \<and> \<not> lb_vad L \<longrightarrow> snd (sidecar_runs L c f) = Stale)"
  by (auto simp: sidecar_runs_def start_sidecar_def start_ptt_def start_handsfree_def make_recorder_def make_stt_def
      new_whisper_def new_vad_def sidecar_tasks_def wants_ptt_def wants_handsfree_def ptt_start_def serve_socket_def
      sidecar_ended_def Let_def)

theorem sidecar_starts_all_or_nothing_witness:
  "\<exists>c. sidecar_tasks c \<noteq> [] \<and> sidecar_runs \<lparr>lb_sound = True, lb_whisper = True, lb_vad = False\<rparr> c Absent = ([], Stale)"
proof -
  let ?c = "default_voice\<lparr>vo_ptt := default_ptt\<lparr>vpt_enabled := True\<rparr>, vo_handsfree := default_handsfree\<lparr>vh_enabled := True\<rparr>\<rparr>"
  let ?L = "\<lparr>lb_sound = True, lb_whisper = True, lb_vad = False\<rparr>"
  have w: "wants_ptt ?c" "wants_handsfree ?c" "sidecar_tasks ?c \<noteq> []"
    by (simp_all add: wants_ptt_def wants_handsfree_def sidecar_tasks_def default_voice_def default_ptt_def default_stt_def
        default_handsfree_def default_wakeword_def default_vad_def default_tts_def)
  with sidecar_starts_all_or_nothing[of ?L ?c Absent] have "sidecar_runs ?L ?c Absent = ([], Stale)"
    by (simp add: prod_eq_iff)
  with w show ?thesis by blast
qed

text \<open>
  A daemon that goes away while a spoken task is submitted takes the pipeline with it: when the
  connection ends before the response, the submission never returns, the state stays SUBMITTING and no
  block of sound, however many follow, changes anything.  When the response comes, an error included,
  the pipeline listens again.
\<close>

theorem lost_daemon_deafens_the_pipeline:
  assumes "transcribe r p = (Some text, p')" and "cl_reading k" and "list_all (other_frame i) fs"
  shows "(let q = fst (transcribe_and_submit (connection_api i (map Inr fs @ Inl e # later)) r brain (p, k)) in
       pl_state q = SUBMITTING \<and> foldl (\<lambda>p (now, speech, blk). capture now speech blk p) q blks = q) \<and>
     fst (transcribe_and_submit (connection_api i (map Inr fs @ Inr (Response i res err) # later)) r brain (p, k)) =
       p'\<lparr>pl_state := LISTENING\<rparr>"
proof -
  have "submit_spoken (connection_api i (map Inr fs @ Inl e # later)) text brain k =
      (None, snd (connection_api i (map Inr fs @ Inl e # later) M_run_task (run_request text brain) k))"
    using request_unanswered[OF assms(2,3)] by (simp add: submit_spoken_def connection_api_def)
  moreover have "fst (submit_spoken (connection_api i (map Inr fs @ Inr (Response i res err) # later)) text brain k) = Some (Inr ())"
    using request_answered[OF assms(2,3), of res err later]
    by (simp add: submit_spoken_def connection_api_def answer_of_def split: option.splits list.splits)
  moreover have "pl_state p' = SUBMITTING" by (rule transcribe_some[OF assms(1)])
  ultimately show ?thesis using assms(1)
    by (auto simp: transcribe_and_submit_def captures_submitting submitted_def Let_def split: prod.splits option.splits)
qed

theorem lost_daemon_deafens_the_pipeline_witness:
  "pl_state (fst (transcribe_and_submit (connection_api ''q'' [Inl (FrameParseError [])]) (Inr ''open mail'') ''auto''
     (new_pipeline\<lparr>pl_audio := [[1 :: int]]\<rparr>, new_client\<lparr>cl_reading := True\<rparr>))) = SUBMITTING"
proof -
  obtain p' where p': "transcribe (Inr ''open mail'') (new_pipeline\<lparr>pl_audio := [[1 :: int]]\<rparr>) = (Some ''open mail'', p')"
    by (simp add: transcribe_def)
  have "cl_reading (new_client\<lparr>cl_reading := True\<rparr>)" "list_all (other_frame ''q'') []" by simp_all
  from lost_daemon_deafens_the_pipeline[OF p' this, of "FrameParseError []" "[]" "''auto''" "[]"]
  show ?thesis by (simp add: Let_def)
qed

end
