(* ===== verification/Crash.thy ===== *)
theory Crash
  imports Migrations
begin

text \<open>
  The opening of the database statement by statement (\<open>_init_db\<close> and the migrations of
  \<open>src/src/agent/daemon/store.py\<close>), when the process may be killed before any of them.  The connection
  is in the sqlite3 module's default mode: a statement on the schema takes effect at once, an
  \<open>UPDATE\<close> begins a transaction which the next commit ends; a kill or an exception leaves what was
  last committed.  Statements on indexes are left out; a row that lacks a column has its default.
\<close>

section \<open>The database on disk\<close>

record disk =
  dk_schema :: schema
  dk_rows :: "string \<Rightarrow> params list"

datatype stmt = Create_if string "string list" | Create_new string "string list" | Add_col string string
  | Copy_runs | Drop string | Rename string string | Backfill string real | User_version nat | Commit

definition drop_table :: "string \<Rightarrow> schema \<Rightarrow> schema" where
  "drop_table t s = s\<lparr>sc_tables := filter (\<lambda>e. fst e \<noteq> t) (sc_tables s)\<rparr>"

text \<open>The \<open>SELECT\<close> of the rebuild: the named columns of a row, its kind \<open>run\<close> if it has none.\<close>

definition copied_run :: "params \<Rightarrow> params" where
  "copied_run r = map (\<lambda>c. (c, let v = dget_or r c JNull in if c = ''kind'' \<and> v = JNull then JStr ''run'' else v)) run_columns"

definition touch_row :: "real \<Rightarrow> params \<Rightarrow> params" where
  "touch_row now r = (if dget_or r ''last_accessed_at'' JNull = JNull
     then AList.update ''last_accessed_at'' (JFloat now) r else r)"

definition exec_stmt :: "stmt \<Rightarrow> disk \<Rightarrow> disk res" where
  "exec_stmt st d = (let s = dk_schema d in case st of
      Create_if t cs \<Rightarrow> Inr (if has_table s t then d
        else \<lparr>dk_schema = create_table t cs s, dk_rows = (dk_rows d)(t := [])\<rparr>)
    | Create_new t cs \<Rightarrow> (if has_table s t then Inl (DatabaseError (''table '' @ t @ '' already exists''))
        else Inr \<lparr>dk_schema = create_table t cs s, dk_rows = (dk_rows d)(t := [])\<rparr>)
    | Add_col t c \<Rightarrow> (if \<not> has_table s t then Inl (DatabaseError (''no such table: '' @ t))
        else if c \<in> set (columns s t) then Inl (DatabaseError (''duplicate column name: '' @ c))
        else Inr (d\<lparr>dk_schema := add_column t c s\<rparr>))
    | Copy_runs \<Rightarrow> Inr (d\<lparr>dk_rows := (dk_rows d)(''runs_new'' := dk_rows d ''runs_new'' @ map copied_run (dk_rows d ''runs''))\<rparr>)
    | Drop t \<Rightarrow> (if \<not> has_table s t then Inl (DatabaseError (''no such table: '' @ t))
        else Inr \<lparr>dk_schema = drop_table t s, dk_rows = (dk_rows d)(t := [])\<rparr>)
    | Rename a b \<Rightarrow> (if \<not> has_table s a then Inl (DatabaseError (''no such table: '' @ a))
        else if has_table s b then Inl (DatabaseError (''there is already another table or index with this name: '' @ b))
        else Inr \<lparr>dk_schema = create_table b (columns s a) (drop_table a s),
          dk_rows = (dk_rows d)(b := dk_rows d a, a := [])\<rparr>)
    | Backfill t now \<Rightarrow> Inr (d\<lparr>dk_rows := (dk_rows d)(t := map (touch_row now) (dk_rows d t))\<rparr>)
    | User_version n \<Rightarrow> Inr (d\<lparr>dk_schema := set_version n s\<rparr>)
    | Commit \<Rightarrow> Inr d)"

section \<open>A session\<close>

record session =
  se_now :: disk
  se_saved :: disk
  se_open :: bool

definition sql_step :: "stmt \<Rightarrow> session \<Rightarrow> session res" where
  "sql_step st S = rbind (exec_stmt st (se_now S)) (\<lambda>d.
     let tx = (st \<noteq> Commit \<and> (se_open S \<or> (case st of Backfill t now \<Rightarrow> True | _ \<Rightarrow> False)))
     in Inr \<lparr>se_now = d, se_saved = (if tx then se_saved S else d), se_open = tx\<rparr>)"

text \<open>
  The statements of a script, of which \<open>n\<close> are executed before the kill, if they are that many:
  \<open>Ran m\<close> when \<open>m\<close> more could be.
\<close>

datatype progress = Ran nat | Cut | Broke py_exc

fun run_stmts :: "nat \<Rightarrow> stmt list \<Rightarrow> session \<Rightarrow> progress \<times> session" where
  "run_stmts n [] S = (Ran n, S)"
| "run_stmts n (st # sts) S = (case n of
      0 \<Rightarrow> (Cut, S)
    | Suc m \<Rightarrow> (case sql_step st S of Inl e \<Rightarrow> (Broke e, S) | Inr S' \<Rightarrow> run_stmts m sts S'))"

text \<open>Scripts are written after a look at the database as it is then.\<close>

fun run_scripts :: "nat \<Rightarrow> (schema \<Rightarrow> stmt list) list \<Rightarrow> session \<Rightarrow> progress \<times> session" where
  "run_scripts n [] S = (Ran n, S)"
| "run_scripts n (f # fs) S = (case run_stmts n (f (dk_schema (se_now S))) S of
      (Ran m, S') \<Rightarrow> run_scripts m fs S' | (p, S') \<Rightarrow> (p, S'))"

section \<open>Opening\<close>

definition creates :: "(string \<times> string list) list \<Rightarrow> stmt list" where
  "creates ts = map (\<lambda>(t, cs). Create_if t cs) ts"

definition adds :: "string \<Rightarrow> string list \<Rightarrow> schema \<Rightarrow> stmt list" where
  "adds t cs s = map (Add_col t) (filter (\<lambda>c. c \<notin> set (columns s t)) cs)"

definition base_tables :: "(string \<times> string list) list" where
  "base_tables = [(''runs'', run_columns), (''run_events'', event_columns)]"

definition rebuild_script :: "stmt list" where
  "rebuild_script = [Create_new ''runs_new'' run_columns, Copy_runs, Drop ''runs'', Rename ''runs_new'' ''runs'']"

definition repair_script :: "schema \<Rightarrow> stmt list" where
  "repair_script s = adds ''runs'' [''error_text'', ''kind''] s @
     (if ''dry_run'' \<in> set (columns s ''runs'') then rebuild_script else []) @ [Commit]"

definition metric_columns :: "string list" where
  "metric_columns = [''iterations'', ''action_count'', ''duration_s'']"

definition v2_tables :: "(string \<times> string list) list" where
  "v2_tables =
     [(''run_outcomes'', [''run_id'', ''outcome'', ''score'', ''source'', ''rationale'', ''decided_at'']),
      (''feedback'', [''feedback_id'', ''run_id'', ''kind'', ''comment'', ''created_at'']),
      (''action_outcomes'', [''run_id'', ''seq'', ''action_kind'', ''params_json'', ''result_kind'', ''stdout'',
         ''stderr'', ''returncode'', ''dispatch_response'', ''pre_state_hash'', ''post_state_hash'', ''duration_ms''])]"

definition v2_script :: "schema \<Rightarrow> stmt list" where
  "v2_script s = adds ''runs'' metric_columns s @ creates v2_tables @ [User_version 2, Commit]"

definition v3_tables :: "bool \<Rightarrow> (string \<times> string list) list" where
  "v3_tables vec =
     [(''episodes'', [''run_id'', ''task'', ''task_normalized'', ''outcome'', ''summary'', ''context_class'',
         ''actions_json'', ''created_at'']),
      (''reflections'', [''reflection_id'', ''run_id'', ''polarity'', ''text'', ''generated_by'', ''created_at''])] @
     (if vec then [(''episode_vecs'', [''run_id'', ''embedding''])] else [])"

definition v3_script :: "bool \<Rightarrow> schema \<Rightarrow> stmt list" where
  "v3_script vec s = creates (v3_tables vec) @ [User_version 3, Commit]"

definition v4_tables :: "bool \<Rightarrow> (string \<times> string list) list" where
  "v4_tables vec =
     [(''skills'', [''skill_id'', ''name'', ''description'', ''actions_json'', ''params_schema'',
         ''source_run_id'', ''created_at'', ''last_used_at'', ''status'']),
      (''skill_outcomes'', [''skill_id'', ''run_id'', ''outcome'', ''ts'']),
      (''learned_rules'', [''rule_id'', ''yaml'', ''confidence'', ''hit_count'', ''source_runs'', ''status'',
         ''proposed_at'', ''decided_at'']),
      (''allowlist_proposals'', [''proposal_id'', ''app_class'', ''title_pat'', ''hit_count'', ''last_seen'', ''status''])] @
     (if vec then [(''skill_vecs'', [''skill_id'', ''embedding''])] else [])"

definition v4_script :: "bool \<Rightarrow> schema \<Rightarrow> stmt list" where
  "v4_script vec s = creates (v4_tables vec) @ [User_version 4, Commit]"

definition decay_script :: "real \<Rightarrow> string \<Rightarrow> schema \<Rightarrow> stmt list" where
  "decay_script now t s = adds t [''decay_score'', ''last_accessed_at''] s @
     (if ''last_accessed_at'' \<in> set (columns s t) then [] else [Backfill t now])"

definition v5_scripts :: "real \<Rightarrow> (schema \<Rightarrow> stmt list) list" where
  "v5_scripts now = [decay_script now ''episodes'', decay_script now ''reflections'', decay_script now ''skills'',
     (\<lambda>s. [User_version 5, Commit])]"

definition upgrade_scripts :: "bool \<Rightarrow> real \<Rightarrow> nat \<Rightarrow> (schema \<Rightarrow> stmt list) list" where
  "upgrade_scripts vec now v =
     (if v < 2 then [v2_script] else []) @ (if v < 3 then [v3_script vec] else []) @
     (if v < 4 then [v4_script vec] else []) @
     (if v < 5 then v5_scripts now else [])"

text \<open>
  \<open>open\<close>: how far it comes when it is killed before the statement after \<open>n\<close> others, and what is on
  the disk then.
\<close>

definition left_behind :: "progress \<times> session \<Rightarrow> progress \<times> disk" where
  "left_behind r = (case r of (Ran m, S) \<Rightarrow> (Ran m, se_now S) | (p, S) \<Rightarrow> (p, se_saved S))"

definition open_until :: "nat \<Rightarrow> bool \<Rightarrow> real \<Rightarrow> disk \<Rightarrow> progress \<times> disk" where
  "open_until n vec now d = left_behind
     (case run_scripts n [\<lambda>s. creates base_tables, repair_script] \<lparr>se_now = d, se_saved = d, se_open = False\<rparr> of
        (Ran m, S) \<Rightarrow> run_scripts m (upgrade_scripts vec now (sc_version (dk_schema (se_now S)))) S
      | r \<Rightarrow> r)"

definition openings :: "(nat \<times> bool \<times> real) list \<Rightarrow> disk \<Rightarrow> disk" where
  "openings ks d = foldl (\<lambda>d (n, vec, now). snd (open_until n vec now d)) d ks"

section \<open>Statements one by one\<close>

text \<open>
  \<open>through P sts d d'\<close>: all statements succeed, from \<open>d\<close> to \<open>d'\<close>, and \<open>P\<close> holds before and after each.
\<close>

fun through :: "(disk \<Rightarrow> bool) \<Rightarrow> stmt list \<Rightarrow> disk \<Rightarrow> disk \<Rightarrow> bool" where
  "through P [] d d' \<longleftrightarrow> P d \<and> d' = d"
| "through P (st # sts) d d' \<longleftrightarrow> P d \<and> (\<exists>d1. exec_stmt st d = Inr d1 \<and> through P sts d1 d')"

lemma through_ends: "through P sts d d' \<Longrightarrow> P d \<and> P d'"
  by (induction sts arbitrary: d) auto

lemma through_append: "through P (a @ b) d d' \<longleftrightarrow> (\<exists>d1. through P a d d1 \<and> through P b d1 d')"
  by (induction a arbitrary: d) (use through_ends in \<open>fastforce+\<close>)

lemma through_run:
  assumes "through P sts (se_now S) d'" and "P (se_saved S)"
  shows "if n < length sts then \<exists>S'. run_stmts n sts S = (Cut, S') \<and> P (se_saved S')
     else \<exists>S'. run_stmts n sts S = (Ran (n - length sts), S') \<and> se_now S' = d' \<and> P (se_saved S')"
  using assms
proof (induction sts arbitrary: n S)
  case (Cons st sts)
  then obtain d1 where d1: "exec_stmt st (se_now S) = Inr d1" "through P sts d1 d'" by auto
  then obtain S1 where s: "sql_step st S = Inr S1" and now: "se_now S1 = d1"
    and saved: "se_saved S1 = se_saved S \<or> se_saved S1 = d1"
    by (auto simp: sql_step_def Let_def)
  have "P (se_saved S1)" using saved Cons.prems(2) through_ends[OF d1(2)] by auto
  from Cons.IH[of S1 "n - 1", unfolded now, OF d1(2) this] s show ?case
    by (cases n) (use Cons.prems(2) in auto)
qed simp

fun all_through :: "(disk \<Rightarrow> bool) \<Rightarrow> (schema \<Rightarrow> stmt list) list \<Rightarrow> nat \<Rightarrow> disk \<Rightarrow> disk \<Rightarrow> bool" where
  "all_through P [] k d d' \<longleftrightarrow> P d \<and> k = 0 \<and> d' = d"
| "all_through P (f # fs) k d d' \<longleftrightarrow>
     (\<exists>d1 j. through P (f (dk_schema d)) d d1 \<and> all_through P fs j d1 d' \<and> k = length (f (dk_schema d)) + j)"

lemma all_through_append:
  "all_through P (fs @ gs) k d d' \<longleftrightarrow> (\<exists>d1 i j. all_through P fs i d d1 \<and> all_through P gs j d1 d' \<and> k = i + j)"
proof (induction fs arbitrary: d k)
  case Nil
  have "all_through P gs k d d' \<Longrightarrow> P d" for k
  proof (cases gs)
    case (Cons g gs')
    then show "all_through P gs k d d' \<Longrightarrow> P d" by (auto dest: through_ends)
  qed auto
  then show ?case by auto
next
  case (Cons f fs)
  show ?case
  proof
    assume "all_through P ((f # fs) @ gs) k d d'"
    then obtain d1 j where a: "through P (f (dk_schema d)) d d1" "all_through P (fs @ gs) j d1 d'"
      "k = length (f (dk_schema d)) + j" by auto
    then obtain d2 i l where "all_through P fs i d1 d2" "all_through P gs l d2 d'" "j = i + l" using Cons by auto
    with a show "\<exists>d1 i j. all_through P (f # fs) i d d1 \<and> all_through P gs j d1 d' \<and> k = i + j"
      by (intro exI[of _ d2] exI[of _ "length (f (dk_schema d)) + i"] exI[of _ l]) auto
  next
    assume "\<exists>d1 i j. all_through P (f # fs) i d d1 \<and> all_through P gs j d1 d' \<and> k = i + j"
    then obtain d2 i l d1 j where a: "through P (f (dk_schema d)) d d1" "all_through P fs j d1 d2"
      "i = length (f (dk_schema d)) + j" "all_through P gs l d2 d'" "k = i + l" by auto
    then have "all_through P (fs @ gs) (j + l) d1 d'" using Cons by auto
    with a show "all_through P ((f # fs) @ gs) k d d'" by auto
  qed
qed

lemma all_through_run:
  assumes "all_through P fs k (se_now S) d'" and "P (se_saved S)"
  shows "if n < k then \<exists>S'. run_scripts n fs S = (Cut, S') \<and> P (se_saved S')
     else \<exists>S'. run_scripts n fs S = (Ran (n - k), S') \<and> se_now S' = d' \<and> P (se_saved S')"
  using assms
proof (induction fs arbitrary: n k S)
  case (Cons f fs)
  let ?sts = "f (dk_schema (se_now S))"
  obtain d1 j where a: "through P ?sts (se_now S) d1" "all_through P fs j d1 d'" "k = length ?sts + j"
    using Cons.prems(1) by auto
  note r = through_run[OF a(1) Cons.prems(2), of n]
  show ?case
  proof (cases "n < length ?sts")
    case True
    with r a(3) show ?thesis by auto
  next
    case False
    with r obtain S1 where s: "run_stmts n ?sts S = (Ran (n - length ?sts), S1)" "se_now S1 = d1" "P (se_saved S1)" by auto
    from Cons.IH[of j S1 "n - length ?sts", unfolded s(2), OF a(2) s(3)] False a(3) s(1) show ?thesis
      by (auto split: if_splits)
  qed
qed simp

section \<open>What stays true of a database while it is opened\<close>

text \<open>Which tables and columns there are from which version on (1: before the first).\<close>

definition tables_at :: "(nat \<times> string \<times> string list) list" where
  "tables_at = (1, ''runs'', [''run_id'', ''task'', ''brain'', ''status'', ''started_at'', ''ended_at'']) #
     (1, ''run_events'', event_columns) # map (Pair 2) v2_tables @ map (Pair 3) (v3_tables False) @
     map (Pair 4) (v4_tables False)"

definition decay_columns :: "string list" where
  "decay_columns = [''decay_score'', ''last_accessed_at'']"

definition columns_at :: "(nat \<times> string \<times> string list) list" where
  "columns_at = [(1, ''runs'', [''error_text'', ''kind'']), (2, ''runs'', metric_columns), (5, ''episodes'', decay_columns),
     (5, ''reflections'', decay_columns), (5, ''skills'', decay_columns)]"

definition staged :: "schema \<Rightarrow> bool" where
  "staged s \<longleftrightarrow> sc_version s \<le> 5 \<and> ''dry_run'' \<notin> set (columns s ''runs'') \<and>
     (\<forall>(k, t, cs)\<in>set tables_at. (k \<le> sc_version s \<longrightarrow> has_table s t) \<and> (has_table s t \<longrightarrow> set cs \<subseteq> set (columns s t))) \<and>
     (\<forall>(k, t, cs)\<in>set columns_at. k \<le> sc_version s \<longrightarrow> set cs \<subseteq> set (columns s t))"

definition good_table :: "string \<times> string list \<Rightarrow> bool" where
  "good_table tc \<longleftrightarrow> (fst tc = ''runs'' \<longrightarrow> ''dry_run'' \<notin> set (snd tc)) \<and>
     (\<forall>(k, t, cs)\<in>set tables_at. t = fst tc \<longrightarrow> set cs \<subseteq> set (snd tc))"

lemma good_tables: "list_all good_table (base_tables @ v2_tables @ v3_tables vec @ v4_tables vec)"
  by (cases vec) (simp_all add: good_table_def base_tables_def v2_tables_def v3_tables_def v4_tables_def tables_at_def
      run_columns_def event_columns_def)

lemma staged_tables:
  assumes "staged s" and "(k, t, cs) \<in> set tables_at"
  shows "k \<le> sc_version s \<Longrightarrow> has_table s t" and "has_table s t \<Longrightarrow> set cs \<subseteq> set (columns s t)"
  using assms unfolding staged_def by (auto dest: bspec[where x = "(k, t, cs)"])

lemma staged_columns: "staged s \<Longrightarrow> (k, t, cs) \<in> set columns_at \<Longrightarrow> k \<le> sc_version s \<Longrightarrow> set cs \<subseteq> set (columns s t)"
  unfolding staged_def by (auto dest: bspec[where x = "(k, t, cs)"])

lemma stagedI:
  assumes "sc_version s \<le> 5" and "''dry_run'' \<notin> set (columns s ''runs'')"
    and "\<And>k t cs. (k, t, cs) \<in> set tables_at \<Longrightarrow> k \<le> sc_version s \<Longrightarrow> has_table s t"
    and "\<And>k t cs. (k, t, cs) \<in> set tables_at \<Longrightarrow> has_table s t \<Longrightarrow> set cs \<subseteq> set (columns s t)"
    and "\<And>k t cs. (k, t, cs) \<in> set columns_at \<Longrightarrow> k \<le> sc_version s \<Longrightarrow> set cs \<subseteq> set (columns s t)"
  shows "staged s"
  using assms unfolding staged_def by blast

lemma staged_basics: "staged s \<Longrightarrow> sc_version s \<le> 5 \<and> ''dry_run'' \<notin> set (columns s ''runs'')"
  by (simp add: staged_def)

lemma staged_create:
  assumes s: "staged s" and g: "good_table (t, cs)"
  shows "staged (create_table t cs s)"
proof (cases "has_table s t")
  case True
  then show ?thesis using s by (simp add: create_table_def)
next
  case False
  then have c: "columns (create_table t cs s) t' = (if t' = t then cs else columns s t')" for t'
    by (simp add: columns_create)
  have g': "set cs' \<subseteq> set cs" if "(k, t, cs') \<in> set tables_at" for k cs'
    using g that unfolding good_table_def by (auto dest: bspec[where x = "(k, t, cs')"])
  have n: "columns s t = []" using False by (rule no_table_no_columns)
  show ?thesis
  proof (rule stagedI)
    show "sc_version (create_table t cs s) \<le> 5" using staged_basics[OF s] by simp
    show "''dry_run'' \<notin> set (columns (create_table t cs s) ''runs'')"
      using staged_basics[OF s] g by (auto simp: c good_table_def)
    fix k t' cs'
    show "has_table (create_table t cs s) t'" if "(k, t', cs') \<in> set tables_at" "k \<le> sc_version (create_table t cs s)"
      using staged_tables(1)[OF s that(1)] that(2) by simp
    show "set cs' \<subseteq> set (columns (create_table t cs s) t')" if "(k, t', cs') \<in> set tables_at" "has_table (create_table t cs s) t'"
      using staged_tables(2)[OF s that(1)] that g' by (auto simp: c)
    show "set cs' \<subseteq> set (columns (create_table t cs s) t')" if "(k, t', cs') \<in> set columns_at" "k \<le> sc_version (create_table t cs s)"
      using staged_columns[OF s that(1)] that(2) n by (auto simp: c)
  qed
qed

lemma staged_add:
  assumes s: "staged s" and "has_table s t" and "c \<noteq> ''dry_run''"
  shows "staged (add_column t c s)"
proof (rule stagedI)
  fix k t' cs'
  show "has_table (add_column t c s) t'" if "(k, t', cs') \<in> set tables_at" "k \<le> sc_version (add_column t c s)"
    using staged_tables(1)[OF s that(1)] that(2) by simp
  show "set cs' \<subseteq> set (columns (add_column t c s) t')" if "(k, t', cs') \<in> set tables_at" "has_table (add_column t c s) t'"
    using staged_tables(2)[OF s that(1)] that(2) assms(2) by auto
  show "set cs' \<subseteq> set (columns (add_column t c s) t')" if "(k, t', cs') \<in> set columns_at" "k \<le> sc_version (add_column t c s)"
    using staged_columns[OF s that(1)] that(2) by auto
qed (use staged_basics[OF s] assms(3) in auto)

definition reaches :: "nat \<Rightarrow> schema \<Rightarrow> bool" where
  "reaches v s \<longleftrightarrow> (\<forall>(k, t, cs)\<in>set tables_at. k \<le> v \<longrightarrow> has_table s t) \<and>
     (\<forall>(k, t, cs)\<in>set columns_at. k \<le> v \<longrightarrow> set cs \<subseteq> set (columns s t))"

lemma staged_version:
  assumes "staged s" and "v \<le> 5" and "reaches v s"
  shows "staged (set_version v s)"
  using assms by (simp add: staged_def reaches_def) blast

lemma staged_reaches: "staged s \<Longrightarrow> reaches (sc_version s) s"
  by (simp add: staged_def reaches_def) blast

lemma staged_complete: "staged s \<Longrightarrow> sc_version s = 5 \<Longrightarrow> complete s"
  by (simp add: staged_def complete_def required_def tables_at_def columns_at_def v2_tables_def v3_tables_def v4_tables_def
      run_columns_def metric_columns_def decay_columns_def)

lemma reaches_mono: "reaches v s \<Longrightarrow> k \<le> v \<Longrightarrow> reaches k s"
  unfolding reaches_def by fastforce

lemmas stage_tables = reaches_def tables_at_def columns_at_def v2_tables_def v3_tables_def v4_tables_def
  metric_columns_def decay_columns_def columns_create

lemma reaches_v2: "reaches 1 s \<Longrightarrow> reaches 2 (apply_v2 s)"
  by (simp add: stage_tables apply_v2_def)

lemma reaches_v3: "reaches 2 s \<Longrightarrow> reaches 3 (apply_v3 vec s)"
  by (cases vec) (simp_all add: stage_tables apply_v3_def)

lemma reaches_v4: "reaches 3 s \<Longrightarrow> reaches 4 (apply_v4 vec s)"
  by (cases vec) (simp_all add: stage_tables apply_v4_def)

lemma reaches_v5: "reaches 4 s \<Longrightarrow> reaches 5 (apply_v5 s)"
  by (simp add: stage_tables apply_v5_def)

lemma reaches_version [simp]: "reaches k (set_version v s) = reaches k s"
  by (simp add: reaches_def)

lemma length_adds: "length (adds t cs s) \<le> length cs"
  by (simp add: adds_def)

lemma adds_succeed:
  assumes "P d" and "has_table (dk_schema d) t" and "distinct cs"
    and "\<And>d c. P d \<Longrightarrow> has_table (dk_schema d) t \<Longrightarrow> c \<in> set cs \<Longrightarrow> P (d\<lparr>dk_schema := add_column t c (dk_schema d)\<rparr>)"
  shows "\<exists>d'. through P (adds t cs (dk_schema d)) d d' \<and> dk_rows d' = dk_rows d \<and>
     dk_schema d' = foldl (\<lambda>s c. add_column t c s) (dk_schema d) cs"
  using assms
proof (induction cs arbitrary: d)
  case (Cons c cs)
  show ?case
  proof (cases "c \<in> set (columns (dk_schema d) t)")
    case True
    then have "add_column t c (dk_schema d) = dk_schema d" "adds t (c # cs) (dk_schema d) = adds t cs (dk_schema d)"
      by (simp_all add: add_column_def adds_def)
    then show ?thesis using Cons by simp
  next
    case False
    let ?d = "d\<lparr>dk_schema := add_column t c (dk_schema d)\<rparr>"
    have "P ?d" using Cons.prems by simp
    from Cons.IH[OF this] Cons.prems obtain d' where d': "through P (adds t cs (dk_schema ?d)) ?d d'"
      "dk_rows d' = dk_rows d" "dk_schema d' = foldl (\<lambda>s c. add_column t c s) (add_column t c (dk_schema d)) cs" by auto
    have "filter (\<lambda>x. x \<noteq> c \<and> x \<notin> set (columns (dk_schema d) t)) cs = filter (\<lambda>x. x \<notin> set (columns (dk_schema d) t)) cs"
      using Cons.prems(3) by (intro filter_cong) auto
    then have "adds t (c # cs) (dk_schema d) = Add_col t c # adds t cs (dk_schema ?d)"
      using False by (simp add: adds_def)
    moreover have "exec_stmt (Add_col t c) d = Inr ?d"
      using False Cons.prems(2) by (simp add: exec_stmt_def Let_def)
    ultimately show ?thesis using d' Cons.prems(1) by (intro exI[of _ d']) simp
  qed
qed (simp add: adds_def)

text \<open>A predicate of databases that the statements of an opening without the old column keep.\<close>

definition touch_table :: "string \<Rightarrow> real \<Rightarrow> disk \<Rightarrow> disk" where
  "touch_table t now d = d\<lparr>dk_rows := (dk_rows d)(t := map (touch_row now) (dk_rows d t))\<rparr>"

definition sound_disk :: "(disk \<Rightarrow> bool) \<Rightarrow> disk \<Rightarrow> bool" where
  "sound_disk Q d \<longleftrightarrow> staged (dk_schema d) \<and> Q d"

locale disk_law =
  fixes Q :: "disk \<Rightarrow> bool"
  assumes created: "Q d \<Longrightarrow> \<not> has_table (dk_schema d) t \<Longrightarrow>
      Q \<lparr>dk_schema = create_table t cs (dk_schema d), dk_rows = (dk_rows d)(t := [])\<rparr>"
    and added: "Q d \<Longrightarrow> has_table (dk_schema d) t \<Longrightarrow> Q (d\<lparr>dk_schema := add_column t c (dk_schema d)\<rparr>)"
    and touched: "Q d \<Longrightarrow> ''last_accessed_at'' \<notin> set (columns (dk_schema d) t) \<Longrightarrow> Q d' \<Longrightarrow> Q (touch_table t now d')"
    and versioned: "Q d \<Longrightarrow> Q (d\<lparr>dk_schema := set_version n (dk_schema d)\<rparr>)"
begin

lemma creates_through:
  assumes "sound_disk Q d" and "list_all good_table ts"
  shows "\<exists>d'. through (sound_disk Q) (creates ts) d d' \<and>
     dk_schema d' = foldl (\<lambda>s (t, cs). create_table t cs s) (dk_schema d) ts"
  using assms
proof (induction ts arbitrary: d)
  case (Cons tc ts)
  obtain t cs where tc: "tc = (t, cs)" by fastforce
  let ?d = "if has_table (dk_schema d) t then d
    else \<lparr>dk_schema = create_table t cs (dk_schema d), dk_rows = (dk_rows d)(t := [])\<rparr>"
  have s: "dk_schema ?d = create_table t cs (dk_schema d)" by (simp add: create_table_def)
  have "sound_disk Q ?d"
    using Cons.prems tc created s staged_create[of "dk_schema d" t cs] by (auto simp: sound_disk_def)
  from Cons.IH[OF this] Cons.prems(2) obtain d' where "through (sound_disk Q) (creates ts) ?d d'"
    "dk_schema d' = foldl (\<lambda>s (t, cs). create_table t cs s) (create_table t cs (dk_schema d)) ts"
    unfolding s by auto
  moreover have "exec_stmt (Create_if t cs) d = Inr ?d" by (simp add: exec_stmt_def Let_def)
  ultimately show ?case using Cons.prems(1) by (intro exI[of _ d']) (simp add: creates_def tc)
qed (simp add: creates_def)

lemma adds_through:
  assumes "sound_disk Q d" and "has_table (dk_schema d) t" and "distinct cs" and "''dry_run'' \<notin> set cs"
  shows "\<exists>d'. through (sound_disk Q) (adds t cs (dk_schema d)) d d' \<and>
     dk_schema d' = foldl (\<lambda>s c. add_column t c s) (dk_schema d) cs"
proof -
  have "sound_disk Q (e\<lparr>dk_schema := add_column t c (dk_schema e)\<rparr>)"
    if "sound_disk Q e" "has_table (dk_schema e) t" "c \<in> set cs" for e c
    using that assms(4) added staged_add[of "dk_schema e" t c] by (auto simp: sound_disk_def)
  from adds_succeed[where P = "sound_disk Q", OF assms(1-3) this] show ?thesis by blast
qed

lemma version_through:
  assumes "sound_disk Q d" and "v \<le> 5" and "reaches v (dk_schema d)"
  shows "through (sound_disk Q) [User_version v, Commit] d (d\<lparr>dk_schema := set_version v (dk_schema d)\<rparr>)"
  using assms staged_version[OF _ assms(2,3)] versioned by (auto simp: sound_disk_def exec_stmt_def Let_def)

lemma decay_through:
  assumes "sound_disk Q d" and "has_table (dk_schema d) t"
  shows "\<exists>d'. through (sound_disk Q) (decay_script now t (dk_schema d)) d d' \<and>
     dk_schema d' = add_column t ''last_accessed_at'' (add_column t ''decay_score'' (dk_schema d))"
proof -
  obtain d1 where d1: "through (sound_disk Q) (adds t [''decay_score'', ''last_accessed_at''] (dk_schema d)) d d1"
    "dk_schema d1 = add_column t ''last_accessed_at'' (add_column t ''decay_score'' (dk_schema d))"
    using adds_through[OF assms, of "[''decay_score'', ''last_accessed_at'']"] by auto
  show ?thesis
  proof (cases "''last_accessed_at'' \<in> set (columns (dk_schema d) t)")
    case True
    then show ?thesis using d1 by (auto simp: decay_script_def)
  next
    case False
    have "sound_disk Q d1" using through_ends[OF d1(1)] by simp
    then have "sound_disk Q (touch_table t now d1)"
      using touched[of d t d1 now] assms(1) False by (simp add: sound_disk_def touch_table_def)
    moreover have "exec_stmt (Backfill t now) d1 = Inr (touch_table t now d1)"
      by (simp add: exec_stmt_def touch_table_def Let_def)
    ultimately have "through (sound_disk Q) [Backfill t now] d1 (touch_table t now d1)"
      using \<open>sound_disk Q d1\<close> by simp
    then show ?thesis using False d1
      by (intro exI[of _ "touch_table t now d1"]) (auto simp: decay_script_def through_append touch_table_def)
  qed
qed

end

lemma all_through_ends: "all_through P fs k d d' \<Longrightarrow> P d \<and> P d'"
  by (induction fs arbitrary: k d) (auto dest: through_ends)

lemma all_through_cons:
  "through P (f (dk_schema d)) d d1 \<Longrightarrow> all_through P fs j d1 d' \<Longrightarrow>
   all_through P (f # fs) (length (f (dk_schema d)) + j) d d'"
  by auto

section \<open>The scripts of an opening\<close>

context disk_law
begin

lemma v2_through:
  assumes "sound_disk Q d" and "reaches 1 (dk_schema d)"
  shows "\<exists>d'. through (sound_disk Q) (v2_script (dk_schema d)) d d' \<and> dk_schema d' = apply_v2 (dk_schema d)"
proof -
  have t: "has_table (dk_schema d) ''runs''" using assms(2) by (simp add: stage_tables)
  obtain d1 where d1: "through (sound_disk Q) (adds ''runs'' metric_columns (dk_schema d)) d d1"
    "dk_schema d1 = foldl (\<lambda>s c. add_column ''runs'' c s) (dk_schema d) metric_columns"
    using adds_through[OF assms(1) t, of metric_columns] by (auto simp: metric_columns_def)
  have g: "list_all good_table v2_tables" using good_tables by simp
  obtain d2 where d2: "through (sound_disk Q) (creates v2_tables) d1 d2"
    "dk_schema d2 = foldl (\<lambda>s (t, cs). create_table t cs s) (dk_schema d1) v2_tables"
    using creates_through[OF _ g, of d1] through_ends[OF d1(1)] by blast
  have a: "set_version 2 (dk_schema d2) = apply_v2 (dk_schema d)"
    unfolding d2(2) d1(2) by (simp add: metric_columns_def v2_tables_def apply_v2_def)
  then have "reaches 2 (dk_schema d2)" using reaches_v2[OF assms(2)] by (metis reaches_version)
  from version_through[OF _ _ this] through_ends[OF d2(1)]
  have "through (sound_disk Q) [User_version 2, Commit] d2 (d2\<lparr>dk_schema := set_version 2 (dk_schema d2)\<rparr>)" by simp
  with d1(1) d2(1) a show ?thesis
    by (intro exI[of _ "d2\<lparr>dk_schema := set_version 2 (dk_schema d2)\<rparr>"])
      (auto simp: v2_script_def through_append simp del: through.simps)
qed

lemma tables_through:
  assumes "sound_disk Q d" and "list_all good_table ts" and "v \<le> 5"
    and "dk_schema d = s" and "set_version v (foldl (\<lambda>s (t, cs). create_table t cs s) s ts) = s'" and "reaches v s'"
  shows "\<exists>d'. through (sound_disk Q) (creates ts @ [User_version v, Commit]) d d' \<and> dk_schema d' = s'"
proof -
  obtain d2 where d2: "through (sound_disk Q) (creates ts) d d2"
    "dk_schema d2 = foldl (\<lambda>s (t, cs). create_table t cs s) (dk_schema d) ts"
    using creates_through[OF assms(1,2)] by blast
  then have "reaches v (dk_schema d2)" using assms(4,5,6) by (metis reaches_version)
  from version_through[OF _ assms(3) this] through_ends[OF d2(1)]
  have "through (sound_disk Q) [User_version v, Commit] d2 (d2\<lparr>dk_schema := set_version v (dk_schema d2)\<rparr>)" by simp
  with d2 assms(4,5) show ?thesis
    by (intro exI[of _ "d2\<lparr>dk_schema := set_version v (dk_schema d2)\<rparr>"]) (auto simp: through_append simp del: through.simps)
qed

lemma v3_through:
  assumes "sound_disk Q d" and "reaches 2 (dk_schema d)"
  shows "\<exists>d'. through (sound_disk Q) (v3_script vec (dk_schema d)) d d' \<and> dk_schema d' = apply_v3 vec (dk_schema d)"
  unfolding v3_script_def
  by (rule tables_through[OF assms(1) _ _ refl _ reaches_v3[OF assms(2)]])
    (use good_tables[of vec] in \<open>simp_all add: v3_tables_def apply_v3_def\<close>)

lemma v4_through:
  assumes "sound_disk Q d" and "reaches 3 (dk_schema d)"
  shows "\<exists>d'. through (sound_disk Q) (v4_script vec (dk_schema d)) d d' \<and> dk_schema d' = apply_v4 vec (dk_schema d)"
  unfolding v4_script_def
  by (rule tables_through[OF assms(1) _ _ refl _ reaches_v4[OF assms(2)]])
    (use good_tables[of vec] in \<open>simp_all add: v4_tables_def apply_v4_def\<close>)

lemma v5_through:
  assumes "sound_disk Q d" and "reaches 4 (dk_schema d)"
  shows "\<exists>k d'. k \<le> 11 \<and> all_through (sound_disk Q) (v5_scripts now) k d d' \<and> dk_schema d' = apply_v5 (dk_schema d)"
proof -
  have len: "length (decay_script now t s) \<le> 3" for t s
    using length_adds[of t "[''decay_score'', ''last_accessed_at'']" s] by (simp add: decay_script_def)
  have t: "has_table (dk_schema d) ''episodes''" "has_table (dk_schema d) ''reflections''" "has_table (dk_schema d) ''skills''"
    using assms(2) by (simp_all add: stage_tables)
  obtain d1 where d1: "through (sound_disk Q) (decay_script now ''episodes'' (dk_schema d)) d d1"
    "dk_schema d1 = add_column ''episodes'' ''last_accessed_at'' (add_column ''episodes'' ''decay_score'' (dk_schema d))"
    using decay_through[OF assms(1) t(1)] by blast
  have "has_table (dk_schema d1) ''reflections''" by (simp add: d1(2) t)
  then obtain d2 where d2: "through (sound_disk Q) (decay_script now ''reflections'' (dk_schema d1)) d1 d2"
    "dk_schema d2 = add_column ''reflections'' ''last_accessed_at'' (add_column ''reflections'' ''decay_score'' (dk_schema d1))"
    using decay_through[of d1] through_ends[OF d1(1)] by blast
  have "has_table (dk_schema d2) ''skills''" by (simp add: d1(2) d2(2) t)
  then obtain d3 where d3: "through (sound_disk Q) (decay_script now ''skills'' (dk_schema d2)) d2 d3"
    "dk_schema d3 = add_column ''skills'' ''last_accessed_at'' (add_column ''skills'' ''decay_score'' (dk_schema d2))"
    using decay_through[of d2] through_ends[OF d2(1)] by blast
  have a: "set_version 5 (dk_schema d3) = apply_v5 (dk_schema d)"
    unfolding d3(2) d2(2) d1(2) by (simp add: apply_v5_def)
  then have "reaches 5 (dk_schema d3)" using reaches_v5[OF assms(2)] by (metis reaches_version)
  from version_through[OF _ _ this] through_ends[OF d3(1)]
  have v: "through (sound_disk Q) [User_version 5, Commit] d3 (d3\<lparr>dk_schema := set_version 5 (dk_schema d3)\<rparr>)" by simp
  let ?k = "length (decay_script now ''episodes'' (dk_schema d)) + (length (decay_script now ''reflections'' (dk_schema d1)) +
    (length (decay_script now ''skills'' (dk_schema d2)) + 2))"
  have "?k \<le> 11" using len[of "''episodes''" "dk_schema d"] len[of "''reflections''" "dk_schema d1"] len[of "''skills''" "dk_schema d2"]
    by linarith
  moreover have "all_through (sound_disk Q) (v5_scripts now) ?k d (d3\<lparr>dk_schema := set_version 5 (dk_schema d3)\<rparr>)"
  proof -
    have "all_through (sound_disk Q) [\<lambda>s. [User_version 5, Commit]] 2 d3 (d3\<lparr>dk_schema := set_version 5 (dk_schema d3)\<rparr>)"
      using v through_ends[OF v] by (simp del: through.simps)
    note this = all_through_cons[where f = "decay_script now ''skills''", OF d3(1) this]
    note this = all_through_cons[where f = "decay_script now ''reflections''", OF d2(1) this]
    note this = all_through_cons[where f = "decay_script now ''episodes''", OF d1(1) this]
    then show ?thesis unfolding v5_scripts_def .
  qed
  ultimately show ?thesis using a by (intro exI[of _ ?k] exI[of _ "d3\<lparr>dk_schema := set_version 5 (dk_schema d3)\<rparr>"]) simp
qed

text \<open>A script that is skipped when the version is already reached.\<close>

lemma maybe_through:
  assumes "sound_disk Q d" and "\<not> b \<Longrightarrow> reaches v (dk_schema d)"
    and "b \<Longrightarrow> \<exists>d'. through (sound_disk Q) (f (dk_schema d)) d d' \<and> dk_schema d' = g (dk_schema d)"
    and "b \<Longrightarrow> reaches v (g (dk_schema d))" and "length (f (dk_schema d)) \<le> m"
  shows "\<exists>k d'. k \<le> m \<and> all_through (sound_disk Q) (if b then [f] else []) k d d' \<and> sound_disk Q d' \<and>
     dk_schema d' = (if b then g (dk_schema d) else dk_schema d) \<and> reaches v (dk_schema d')"
proof (cases b)
  case True
  with assms(3) obtain d' where "through (sound_disk Q) (f (dk_schema d)) d d'" "dk_schema d' = g (dk_schema d)" by blast
  with True assms(4,5) through_ends[OF this(1)] show ?thesis
    by (intro exI[of _ "length (f (dk_schema d))"] exI[of _ d']) auto
qed (use assms(1,2) in auto)

lemma upgrade_through:
  assumes "sound_disk Q d" and "reaches 1 (dk_schema d)"
  shows "\<exists>k d'. k \<le> 31 \<and> all_through (sound_disk Q) (upgrade_scripts vec now (sc_version (dk_schema d))) k d d' \<and>
     dk_schema d' = upgrade vec (dk_schema d)"
proof -
  let ?s = "dk_schema d" let ?v = "sc_version ?s"
  have r: "reaches k (dk_schema d)" if "k \<le> ?v" for k
    using reaches_mono[OF staged_reaches that] assms(1) by (simp add: sound_disk_def)
  have l2: "length (v2_script s) \<le> 8" for s
    using length_adds[of "''runs''" metric_columns s] by (simp add: v2_script_def creates_def v2_tables_def metric_columns_def)
  have l3: "length (v3_script vec s) \<le> 5" for s by (simp add: v3_script_def creates_def v3_tables_def)
  have l4: "length (v4_script vec s) \<le> 7" for s by (simp add: v4_script_def creates_def v4_tables_def)
  obtain k2 d2 where d2: "k2 \<le> 8" "all_through (sound_disk Q) (if ?v < 2 then [v2_script] else []) k2 d d2" "sound_disk Q d2"
    "dk_schema d2 = (if ?v < 2 then apply_v2 ?s else ?s)" "reaches 2 (dk_schema d2)"
    using maybe_through[OF assms(1), of "?v < 2" 2 v2_script apply_v2 8] r[of 2] v2_through[OF assms] reaches_v2[OF assms(2)] l2 by auto
  have r2: "reaches k (dk_schema d2)" if "k \<le> ?v" "\<not> ?v < 2" for k using r[OF that(1)] that(2) by (simp add: d2(4))
  obtain k3 d3 where d3: "k3 \<le> 5" "all_through (sound_disk Q) (if ?v < 3 then [v3_script vec] else []) k3 d2 d3" "sound_disk Q d3"
    "dk_schema d3 = (if ?v < 3 then apply_v3 vec (dk_schema d2) else dk_schema d2)" "reaches 3 (dk_schema d3)"
    using maybe_through[OF d2(3), of "?v < 3" 3 "v3_script vec" "apply_v3 vec" 5] r2[of 3] v3_through[OF d2(3,5)] reaches_v3[OF d2(5)] l3
    by auto
  have r3: "reaches k (dk_schema d3)" if "k \<le> ?v" "\<not> ?v < 3" for k using r[OF that(1)] that(2) by (simp add: d2(4) d3(4))
  obtain k4 d4 where d4: "k4 \<le> 7" "all_through (sound_disk Q) (if ?v < 4 then [v4_script vec] else []) k4 d3 d4" "sound_disk Q d4"
    "dk_schema d4 = (if ?v < 4 then apply_v4 vec (dk_schema d3) else dk_schema d3)" "reaches 4 (dk_schema d4)"
    using maybe_through[OF d3(3), of "?v < 4" 4 "v4_script vec" "apply_v4 vec" 7] r3[of 4] v4_through[OF d3(3,5)] reaches_v4[OF d3(5)] l4
    by auto
  obtain k5 d5 where d5: "k5 \<le> 11" "all_through (sound_disk Q) (if ?v < 5 then v5_scripts now else []) k5 d4 d5"
    "dk_schema d5 = (if ?v < 5 then apply_v5 (dk_schema d4) else dk_schema d4)"
  proof (cases "?v < 5")
    case True
    with v5_through[OF d4(3,5), of now] that show ?thesis by auto
  next
    case False
    with that[of 0 d4] d4(3) show ?thesis by simp
  qed
  have "all_through (sound_disk Q) (upgrade_scripts vec now ?v) (k2 + (k3 + (k4 + k5))) d d5"
    unfolding upgrade_scripts_def all_through_append using d2(2) d3(2) d4(2) d5(2) by blast
  moreover have "dk_schema d5 = upgrade vec ?s"
    using d2(4) d3(4) d4(4) d5(3) by (simp add: upgrade_def Let_def)
  ultimately show ?thesis using d2(1) d3(1) d4(1) d5(1) by (intro exI[of _ "k2 + (k3 + (k4 + k5))"] exI[of _ d5]) simp
qed

lemma base_through:
  assumes "sound_disk Q d"
  shows "\<exists>k d'. k \<le> 5 \<and> all_through (sound_disk Q) [\<lambda>s. creates base_tables, repair_script] k d d' \<and>
     repair_runs (dk_schema d) = Inr (dk_schema d') \<and> reaches 1 (dk_schema d')"
proof -
  let ?s1 = "create_table ''run_events'' event_columns (create_table ''runs'' run_columns (dk_schema d))"
  have g: "list_all good_table base_tables" using good_tables by simp
  obtain d1 where d1: "through (sound_disk Q) (creates base_tables) d d1" "dk_schema d1 = ?s1"
    using creates_through[OF assms g] by (auto simp: base_tables_def)
  have s1: "sound_disk Q d1" using through_ends[OF d1(1)] by simp
  have t: "has_table (dk_schema d1) ''runs''" by (simp add: d1(2))
  obtain d2 where d2: "through (sound_disk Q) (adds ''runs'' [''error_text'', ''kind''] (dk_schema d1)) d1 d2"
    "dk_schema d2 = add_column ''runs'' ''kind'' (add_column ''runs'' ''error_text'' (dk_schema d1))"
    using adds_through[OF s1 t, of "[''error_text'', ''kind'']"] by auto
  have s2: "sound_disk Q d2" using through_ends[OF d2(1)] by simp
  have n: "''dry_run'' \<notin> set (columns (dk_schema d1) ''runs'')" using s1 staged_basics by (simp add: sound_disk_def)
  have "through (sound_disk Q) [Commit] d2 d2" using s2 by (simp add: exec_stmt_def Let_def)
  then have p: "through (sound_disk Q) (repair_script (dk_schema d1)) d1 d2"
    using d2(1) n by (auto simp: repair_script_def through_append simp del: through.simps)
  have "length (repair_script (dk_schema d1)) \<le> 3"
    using length_adds[of "''runs''" "[''error_text'', ''kind'']" "dk_schema d1"] n by (simp add: repair_script_def)
  moreover have "length (creates base_tables) = 2" by (simp add: creates_def base_tables_def)
  moreover have "all_through (sound_disk Q) [\<lambda>s. creates base_tables, repair_script]
      (length (creates base_tables) + length (repair_script (dk_schema d1))) d d2"
    using d1(1) p s2 by (auto simp del: through.simps)
  moreover have "repair_runs (dk_schema d) = Inr (dk_schema d2)"
    using n by (simp add: repair_runs_def d1(2) d2(2) Let_def)
  moreover have "reaches 1 (dk_schema d2)"
  proof -
    have "staged (dk_schema d2)" using s2 by (simp add: sound_disk_def)
    moreover have "has_table (dk_schema d2) ''runs''" "has_table (dk_schema d2) ''run_events''"
      "{''error_text'', ''kind''} \<subseteq> set (columns (dk_schema d2) ''runs'')" by (simp_all add: d2(2) d1(2))
    ultimately show ?thesis by (simp add: stage_tables)
  qed
  ultimately show ?thesis by (intro exI[of _ "length (creates base_tables) + length (repair_script (dk_schema d1))"] exI[of _ d2]) simp
qed

lemma opens_cut_or_ran:
  assumes "sound_disk Q d"
  shows "\<exists>k d'. k \<le> 36 \<and> init_db vec (dk_schema d) = Inr (dk_schema d') \<and> sound_disk Q d' \<and>
     (\<forall>n. if n < k then fst (open_until n vec now d) = Cut \<and> sound_disk Q (snd (open_until n vec now d))
        else open_until n vec now d = (Ran (n - k), d'))"
proof -
  obtain k1 d1 where d1: "k1 \<le> 5" "all_through (sound_disk Q) [\<lambda>s. creates base_tables, repair_script] k1 d d1"
    "repair_runs (dk_schema d) = Inr (dk_schema d1)" "reaches 1 (dk_schema d1)"
    using base_through[OF assms] by blast
  have a1: "sound_disk Q d1" using d1(2) by (auto dest: through_ends)
  obtain k2 d2 where d2: "k2 \<le> 31" "all_through (sound_disk Q) (upgrade_scripts vec now (sc_version (dk_schema d1))) k2 d1 d2"
    "dk_schema d2 = upgrade vec (dk_schema d1)"
    using upgrade_through[OF a1 d1(4)] by blast
  let ?S = "\<lparr>se_now = d, se_saved = d, se_open = False\<rparr>"
  have "if n < k1 + k2 then fst (open_until n vec now d) = Cut \<and> sound_disk Q (snd (open_until n vec now d))
      else open_until n vec now d = (Ran (n - (k1 + k2)), d2)" for n
  proof -
    note r1 = all_through_run[where P = "sound_disk Q" and S = ?S and n = n, unfolded session.simps, OF d1(2) assms]
    show ?thesis
    proof (cases "n < k1")
      case True
      with r1 show ?thesis by (auto simp: open_until_def left_behind_def simp del: run_scripts.simps)
    next
      case False
      with r1 obtain S1 where s: "run_scripts n [\<lambda>s. creates base_tables, repair_script] ?S = (Ran (n - k1), S1)"
        "se_now S1 = d1" "sound_disk Q (se_saved S1)" by auto
      note r2 = all_through_run[where P = "sound_disk Q" and S = S1 and n = "n - k1", unfolded s(2), OF d2(2) s(3)]
      show ?thesis
      proof (cases "n - k1 < k2")
        case t2: True
        with r2 obtain S2 where "run_scripts (n - k1) (upgrade_scripts vec now (sc_version (dk_schema d1))) S1 = (Cut, S2)"
          "sound_disk Q (se_saved S2)" by auto
        moreover have "n < k1 + k2" using False t2 by simp
        ultimately show ?thesis using s(1,2) by (simp add: open_until_def left_behind_def del: run_scripts.simps)
      next
        case f2: False
        with r2 obtain S2 where "run_scripts (n - k1) (upgrade_scripts vec now (sc_version (dk_schema d1))) S1 = (Ran (n - k1 - k2), S2)"
          "se_now S2 = d2" by auto
        moreover have "\<not> n < k1 + k2" using False f2 by simp
        ultimately show ?thesis using s(1,2) by (simp add: open_until_def left_behind_def del: run_scripts.simps)
      qed
    qed
  qed
  moreover have "init_db vec (dk_schema d) = Inr (dk_schema d2)" by (simp add: init_db_parts d1(3) d2(3))
  moreover have "sound_disk Q d2"
  proof (cases "upgrade_scripts vec now (sc_version (dk_schema d1))")
    case Nil
    then show ?thesis using d2(2) a1 by simp
  next
    case (Cons f fs)
    then show ?thesis using all_through_ends[OF d2(2)] by simp
  qed
  ultimately show ?thesis using d1(1) d2(1) by (intro exI[of _ "k1 + k2"] exI[of _ d2]) auto
qed

lemma openings_sound: "sound_disk Q d \<Longrightarrow> sound_disk Q (openings ks d)"
proof (induction ks arbitrary: d)
  case (Cons a ks)
  obtain n vec now where a: "a = (n, vec, now)" by (cases a)
  from opens_cut_or_ran[OF Cons.prems, of vec now] have "sound_disk Q (snd (open_until n vec now d))"
    by (metis snd_conv)
  from Cons.IH[OF this] show ?case by (simp add: openings_def a)
qed (simp add: openings_def)

lemma opens_alone:
  assumes "sound_disk Q d" and "40 \<le> n"
  shows "\<exists>m d'. open_until n vec now d = (Ran m, d') \<and> init_db vec (dk_schema d) = Inr (dk_schema d') \<and> sound_disk Q d'"
proof -
  obtain k d' where k: "k \<le> 36" "init_db vec (dk_schema d) = Inr (dk_schema d')" "sound_disk Q d'"
    "\<forall>n. if n < k then fst (open_until n vec now d) = Cut \<and> sound_disk Q (snd (open_until n vec now d))
        else open_until n vec now d = (Ran (n - k), d')"
    using opens_cut_or_ran[OF assms(1), of vec now] by blast
  have "\<not> n < k" using k(1) assms(2) by simp
  then have "open_until n vec now d = (Ran (n - k), d')" using k(4) by metis
  with k(2,3) show ?thesis by blast
qed

end

section \<open>What is kept\<close>

text \<open>A row without its time of access, and the rows of the tables there were.\<close>

definition bare :: "params \<Rightarrow> params" where
  "bare r = filter (\<lambda>e. fst e \<noteq> ''last_accessed_at'') r"

definition keeps :: "disk \<Rightarrow> disk \<Rightarrow> bool" where
  "keeps d0 d \<longleftrightarrow> (\<forall>t. has_table (dk_schema d0) t \<longrightarrow>
     has_table (dk_schema d) t \<and> map bare (dk_rows d t) = map bare (dk_rows d0 t))"

definition unfilled :: "params list \<Rightarrow> disk \<Rightarrow> bool" where
  "unfilled rows d \<longleftrightarrow> ''last_accessed_at'' \<in> set (columns (dk_schema d) ''episodes'') \<and> dk_rows d ''episodes'' = rows"

lemma bare_touch: "bare (touch_row now r) = bare r"
proof -
  have "bare (AList.update ''last_accessed_at'' v r) = bare r" for v
    by (induction r) (auto simp: bare_def)
  then show ?thesis by (simp add: touch_row_def)
qed

lemma bare_touches: "map bare (map (touch_row now) rs) = map bare rs"
  by (simp add: comp_def bare_touch)

lemma keeps_refl: "keeps d d"
  by (simp add: keeps_def)

lemma keeps_same_tables:
  "keeps d0 d \<Longrightarrow> (\<And>t. has_table s t = has_table (dk_schema d) t) \<Longrightarrow> keeps d0 (d\<lparr>dk_schema := s\<rparr>)"
  by (simp add: keeps_def)

interpretation keeping: disk_law "keeps d0" for d0
proof unfold_locales
  fix d t cs assume k: "keeps d0 d" "\<not> has_table (dk_schema d) t"
  then have "t' \<noteq> t" if "has_table (dk_schema d0) t'" for t' using that by (auto simp: keeps_def)
  then show "keeps d0 \<lparr>dk_schema = create_table t cs (dk_schema d), dk_rows = (dk_rows d)(t := [])\<rparr>"
    using k(1) by (auto simp: keeps_def)
next
  fix d t c assume "keeps d0 d" "has_table (dk_schema d) t"
  then show "keeps d0 (d\<lparr>dk_schema := add_column t c (dk_schema d)\<rparr>)" by (intro keeps_same_tables) auto
next
  fix d t d' now assume "keeps d0 d'"
  then show "keeps d0 (touch_table t now d')"
    using bare_touches[of now "dk_rows d' t"] by (auto simp: keeps_def touch_table_def simp del: map_map)
next
  fix d n assume "keeps d0 d"
  then show "keeps d0 (d\<lparr>dk_schema := set_version n (dk_schema d)\<rparr>)" by (intro keeps_same_tables) auto
qed

interpretation unfilled: disk_law "unfilled rows" for rows
proof unfold_locales
  fix d t cs assume u: "unfilled rows d" "\<not> has_table (dk_schema d) t"
  then have "t \<noteq> ''episodes''" using no_table_no_columns by (auto simp: unfilled_def)
  then show "unfilled rows \<lparr>dk_schema = create_table t cs (dk_schema d), dk_rows = (dk_rows d)(t := [])\<rparr>"
    using u(1) by (auto simp: unfilled_def columns_create)
next
  fix d t d' now assume "unfilled rows d" "''last_accessed_at'' \<notin> set (columns (dk_schema d) t)" "unfilled rows d'"
  then show "unfilled rows (touch_table t now d')" by (auto simp: unfilled_def touch_table_def)
qed (auto simp: unfilled_def)

lemma init_db_version:
  assumes "init_db vec s = Inr s'" and "sc_version s \<le> 5"
  shows "sc_version s' = 5"
proof -
  obtain s3 where s3: "repair_runs s = Inr s3" "s' = upgrade vec s3" using assms(1) by (auto simp: init_db_parts)
  have "sc_version s3 = sc_version s"
    using s3(1) by (auto simp: repair_runs_def rebuild_runs_table_def Let_def split: if_splits)
  then show ?thesis using s3(2) assms(2) by (auto simp: upgrade_def apply_v5_def Let_def)
qed

text \<open>A database whose rebuild was interrupted before the old table was dropped.\<close>

definition blocked :: "disk \<Rightarrow> bool" where
  "blocked d \<longleftrightarrow> has_table (dk_schema d) ''runs'' \<and> has_table (dk_schema d) ''run_events'' \<and>
     {''error_text'', ''kind'', ''dry_run''} \<subseteq> set (columns (dk_schema d) ''runs'') \<and> has_table (dk_schema d) ''runs_new''"

lemma blocked_stays:
  assumes "blocked d"
  shows "open_until n vec now d = ((if n < 3 then Cut else Broke (DatabaseError ''table runs_new already exists'')), d)"
proof -
  have base: "run_stmts n (creates base_tables) \<lparr>se_now = d, se_saved = d, se_open = False\<rparr> =
      (if n < 2 then Cut else Ran (n - 2), \<lparr>se_now = d, se_saved = d, se_open = False\<rparr>)" for n
    using assms by (auto simp: blocked_def creates_def base_tables_def sql_step_def exec_stmt_def Let_def numeral_2_eq_2 split: nat.split)
  have "run_stmts n (repair_script (dk_schema d)) \<lparr>se_now = d, se_saved = d, se_open = False\<rparr> =
      (if n = 0 then Cut else Broke (DatabaseError ''table runs_new already exists''), \<lparr>se_now = d, se_saved = d, se_open = False\<rparr>)" for n
    using assms by (auto simp: blocked_def repair_script_def adds_def rebuild_script_def sql_step_def exec_stmt_def Let_def split: nat.split)
  with base show ?thesis by (simp add: open_until_def left_behind_def)
qed

lemma blocked_for_ever: "blocked d \<Longrightarrow> openings ks d = d"
  by (induction ks) (auto simp: openings_def blocked_stays)

interpretation emptied: disk_law "\<lambda>d. dk_rows d ''runs'' = []"
  by unfold_locales (auto simp: touch_table_def)

lemma no_transaction:
  assumes "run_stmts n sts S = (p, S')" and "\<not> se_open S" and "se_saved S = se_now S"
    and "\<forall>st\<in>set sts. \<forall>t now. st \<noteq> Backfill t now"
  shows "\<not> se_open S' \<and> se_saved S' = se_now S'"
  using assms
proof (induction sts arbitrary: n S)
  case (Cons st sts)
  show ?case
  proof (cases n)
    case (Suc m)
    show ?thesis
    proof (cases "sql_step st S")
      case (Inr S1)
      then have "\<not> se_open S1 \<and> se_saved S1 = se_now S1"
        using Cons.prems(2,4) by (auto simp: sql_step_def Let_def split: stmt.splits)
      with Cons Suc Inr show ?thesis by simp
    qed (use Cons.prems Suc in auto)
  qed (use Cons.prems in auto)
qed simp

lemma run_stmts_append:
  "run_stmts n (a @ b) S = (case run_stmts n a S of (Ran m, S') \<Rightarrow> run_stmts m b S' | r \<Rightarrow> r)"
  by (induction a arbitrary: n S) (auto split: nat.split sum.split)

lemma dget_dropped: "dget (filter (\<lambda>e. fst e \<noteq> t) xs) t' = (if t' = t then None else dget xs t')"
  by (induction xs) auto

lemma drop_table_simps:
  "has_table (drop_table t s) t' \<longleftrightarrow> t' \<noteq> t \<and> has_table s t'"
  "columns (drop_table t s) t' = (if t' = t then [] else columns s t')" "sc_version (drop_table t s) = sc_version s"
  by (simp_all add: has_table_def columns_def dget_or_def drop_table_def dget_dropped)

text \<open>Before the rebuild: the old table has its new columns, and nothing else has changed.\<close>

lemma before_rebuild:
  assumes "pristine (dk_schema d)" and "has_table (dk_schema d) ''runs''" and "''dry_run'' \<in> set (columns (dk_schema d) ''runs'')"
  obtains k d2 where "\<forall>n vec now. open_until (k + n) vec now d = left_behind
        (case run_stmts n (rebuild_script @ [Commit]) \<lparr>se_now = d2, se_saved = d2, se_open = False\<rparr> of
           (Ran m, S) \<Rightarrow> run_scripts m (upgrade_scripts vec now (sc_version (dk_schema (se_now S)))) S | r \<Rightarrow> r)"
    and "dk_rows d2 ''runs'' = dk_rows d ''runs''"
    and "\<forall>t. has_table (dk_schema d2) t \<longleftrightarrow> t = ''run_events'' \<or> has_table (dk_schema d) t"
    and "{''error_text'', ''kind'', ''dry_run''} \<subseteq> set (columns (dk_schema d2) ''runs'')"
    and "set event_columns \<subseteq> set (columns (dk_schema d2) ''run_events'')" and "sc_version (dk_schema d2) = 0"
proof -
  let ?S = "\<lambda>d. \<lparr>se_now = d, se_saved = d, se_open = False\<rparr>"
  obtain d1 where d1: "exec_stmt (Create_if ''run_events'' event_columns) d = Inr d1"
    "dk_schema d1 = create_table ''run_events'' event_columns (dk_schema d)" "dk_rows d1 ''runs'' = dk_rows d ''runs''"
    by (simp add: exec_stmt_def create_table_def Let_def)
  have base: "run_stmts (Suc (Suc n)) (creates base_tables) (?S d) = (Ran n, ?S d1)" for n
  proof -
    have "sql_step (Create_if ''runs'' run_columns) (?S d) = Inr (?S d)"
      using assms(2) by (simp add: sql_step_def exec_stmt_def Let_def)
    moreover have "sql_step (Create_if ''run_events'' event_columns) (?S d) = Inr (?S d1)"
      using d1(1) by (simp add: sql_step_def Let_def)
    ultimately show ?thesis by (simp add: creates_def base_tables_def)
  qed
  have t: "has_table (dk_schema d1) ''runs''" by (simp add: d1(2) assms(2))
  obtain d2 where d2: "through (\<lambda>d. True) (adds ''runs'' [''error_text'', ''kind''] (dk_schema d1)) d1 d2" "dk_rows d2 = dk_rows d1"
    "dk_schema d2 = add_column ''runs'' ''kind'' (add_column ''runs'' ''error_text'' (dk_schema d1))"
    using adds_succeed[where P = "\<lambda>d. True", OF TrueI t, of "[''error_text'', ''kind'']"] by auto
  let ?a = "length (adds ''runs'' [''error_text'', ''kind''] (dk_schema d1))"
  have ad: "run_stmts (?a + n) (adds ''runs'' [''error_text'', ''kind''] (dk_schema d1)) (?S d1) = (Ran n, ?S d2)" for n
  proof -
    obtain S' where s: "run_stmts (?a + n) (adds ''runs'' [''error_text'', ''kind''] (dk_schema d1)) (?S d1) = (Ran n, S')" "se_now S' = d2"
      using through_run[of "\<lambda>d. True" "adds ''runs'' [''error_text'', ''kind''] (dk_schema d1)" "?S d1" d2 "?a + n"] d2(1) by auto
    from no_transaction[OF s(1)] have "\<not> se_open S' \<and> se_saved S' = se_now S'" by (auto simp: adds_def)
    with s show ?thesis by (cases S') auto
  qed
  have dr: "''dry_run'' \<in> set (columns (dk_schema d1) ''runs'')" using assms(2,3) by (simp add: d1(2) columns_create)
  then have rs: "repair_script (dk_schema d1) = adds ''runs'' [''error_text'', ''kind''] (dk_schema d1) @ rebuild_script @ [Commit]"
    by (simp add: repair_script_def)
  have "open_until (Suc (Suc ?a) + n) vec now d = left_behind
      (case run_stmts n (rebuild_script @ [Commit]) (?S d2) of
         (Ran m, S) \<Rightarrow> run_scripts m (upgrade_scripts vec now (sc_version (dk_schema (se_now S)))) S | r \<Rightarrow> r)" for n vec now
    by (simp add: open_until_def base rs run_stmts_append[of _ "adds ''runs'' [''error_text'', ''kind''] (dk_schema d1)"] ad
        del: run_stmts.simps split: prod.split progress.split)
  moreover have "dk_rows d2 ''runs'' = dk_rows d ''runs''" using d2(2) d1(3) by simp
  moreover have "has_table (dk_schema d2) t \<longleftrightarrow> t = ''run_events'' \<or> has_table (dk_schema d) t" for t
    using assms(2) by (auto simp: d2(3) d1(2))
  moreover have "{''error_text'', ''kind'', ''dry_run''} \<subseteq> set (columns (dk_schema d2) ''runs'')"
    using dr by (simp add: d2(3))
  moreover have "set event_columns \<subseteq> set (columns (dk_schema d2) ''run_events'')"
    using assms(1) by (auto simp: d2(3) d1(2) columns_create pristine_def)
  moreover have "sc_version (dk_schema d2) = 0" using assms(1) by (simp add: d2(3) d1(2) pristine_def)
  ultimately show ?thesis by (intro that[of "Suc (Suc ?a)" d2] allI)
qed

text \<open>Inside a transaction nothing is saved before the commit, which ends the last script.\<close>

lemma stmts_in_transaction:
  assumes "run_stmts n sts S = (p, S')" and "se_open S"
  shows "(p = Cut \<longrightarrow> Commit \<notin> set (butlast sts) \<longrightarrow> se_saved S' = se_saved S) \<and>
     (Commit \<notin> set sts \<longrightarrow> se_open S' \<and> se_saved S' = se_saved S)"
  using assms
proof (induction sts arbitrary: n S)
  case (Cons st sts)
  show ?case
  proof (cases n)
    case (Suc m)
    show ?thesis
    proof (cases "sql_step st S")
      case (Inl e)
      then show ?thesis using Cons.prems Suc by auto
    next
      case (Inr S1)
      then have s1: "st \<noteq> Commit \<Longrightarrow> se_open S1 \<and> se_saved S1 = se_saved S"
        using Cons.prems(2) by (auto simp: sql_step_def Let_def)
      have r: "run_stmts m sts S1 = (p, S')" using Cons.prems(1) Suc Inr by simp
      show ?thesis
      proof (cases "st = Commit")
        case True
        then show ?thesis using r by (cases sts) auto
      next
        case False
        with Cons.IH[OF r] s1 show ?thesis by (cases sts) auto
      qed
    qed
  qed (use Cons.prems in auto)
qed simp

lemma scripts_in_transaction:
  assumes "run_scripts n fs S = (Cut, S')" and "se_open S"
    and "\<forall>f\<in>set fs. \<forall>s. Commit \<notin> set (butlast (f s))" and "\<forall>f\<in>set (butlast fs). \<forall>s. Commit \<notin> set (f s)"
  shows "se_saved S' = se_saved S"
  using assms
proof (induction fs arbitrary: n S)
  case (Cons f fs)
  obtain p S1 where r: "run_stmts n (f (dk_schema (se_now S))) S = (p, S1)" by fastforce
  note t = stmts_in_transaction[OF r Cons.prems(2)]
  show ?case
  proof (cases p)
    case (Ran m)
    then have r2: "run_scripts m fs S1 = (Cut, S')" using Cons.prems(1) r by simp
    then have "fs \<noteq> []" by auto
    then have "se_open S1 \<and> se_saved S1 = se_saved S" using t Cons.prems(4) by simp
    moreover have "\<forall>g\<in>set (butlast fs). \<forall>s. Commit \<notin> set (g s)" using Cons.prems(4) \<open>fs \<noteq> []\<close> by simp
    ultimately show ?thesis using Cons.IH[OF r2] Cons.prems(3) by simp
  qed (use t r Cons.prems(1,3) in auto)
qed simp

definition spares_episodes :: "stmt \<Rightarrow> bool" where
  "spares_episodes st \<longleftrightarrow> (case st of Add_col t c \<Rightarrow> True | Backfill t now \<Rightarrow> t \<noteq> ''episodes'' | User_version n \<Rightarrow> True
     | Commit \<Rightarrow> True | _ \<Rightarrow> False)"

lemma scripts_spare_episodes:
  assumes "run_scripts n fs S = (p, S')" and "\<forall>f\<in>set fs. \<forall>s. list_all spares_episodes (f s)"
  shows "dk_rows (se_now S') ''episodes'' = dk_rows (se_now S) ''episodes''"
proof -
  have st: "dk_rows (se_now S2) ''episodes'' = dk_rows (se_now S) ''episodes''"
    if "run_stmts n sts S = (p, S2)" "list_all spares_episodes sts" for n sts S p S2
    using that
  proof (induction sts arbitrary: n S)
    case (Cons st sts)
    have "dk_rows (se_now S1) ''episodes'' = dk_rows (se_now S) ''episodes''" if "sql_step st S = Inr S1" for S1
      using that Cons.prems(2)
      by (cases st) (auto simp: sql_step_def exec_stmt_def spares_episodes_def Let_def split: if_splits)
    with Cons show ?case by (fastforce split: nat.splits sum.splits)
  qed simp
  show ?thesis using assms
  proof (induction fs arbitrary: n S)
    case (Cons f fs)
    obtain q S1 where r: "run_stmts n (f (dk_schema (se_now S))) S = (q, S1)" by fastforce
    have "dk_rows (se_now S1) ''episodes'' = dk_rows (se_now S) ''episodes''" using st[OF r] Cons.prems(2) by simp
    then show ?case using Cons r by (cases q) auto
  qed simp
qed

text \<open>Databases for the witnesses: an empty one, one of before the migrations, one of version 4.\<close>

definition empty_disk :: disk where
  "empty_disk = \<lparr>dk_schema = \<lparr>sc_tables = [], sc_version = 0\<rparr>, dk_rows = (\<lambda>t. [])\<rparr>"

definition old_disk :: disk where
  "old_disk = \<lparr>dk_schema = \<lparr>sc_tables = [(''runs'', [''run_id'', ''task'', ''brain'', ''status'', ''dry_run'', ''started_at'',
     ''ended_at''])], sc_version = 0\<rparr>, dk_rows = (\<lambda>t. [])(''runs'' := [[(''run_id'', JStr ''r1'')]])\<rparr>"

definition v4_disk :: disk where
  "v4_disk = \<lparr>dk_schema = apply_v4 False (apply_v3 False (apply_v2 \<lparr>sc_tables = base_tables, sc_version = 0\<rparr>)),
     dk_rows = (\<lambda>t. [])(''episodes'' := [[(''run_id'', JStr ''r1'')]])\<rparr>"

lemma staged_empty: "staged (dk_schema empty_disk)"
  by (simp add: staged_def empty_disk_def tables_at_def columns_at_def has_table_def columns_def dget_or_def v2_tables_def
      v3_tables_def v4_tables_def)

lemma staged_v4: "staged (dk_schema v4_disk)"
  by code_simp

section \<open>Properties\<close>

text \<open>
  Opening statement by statement is the opening in one piece: without a kill, forty statements are
  enough, the schema on the disk is what \<open>init_db\<close> says, and no row has changed but for its time of
  access.  With a kill anywhere, what is left on the disk can be opened all the same.
\<close>

theorem opening_is_init_db:
  assumes "staged (dk_schema d)" and "40 \<le> n"
  shows "\<exists>m d'. open_until n vec now d = (Ran m, d') \<and> init_db vec (dk_schema d) = Inr (dk_schema d') \<and> keeps d d' \<and>
     (\<forall>j. staged (dk_schema (snd (open_until j vec now d))))"
proof -
  have s: "sound_disk (keeps d) d" using assms(1) by (simp add: sound_disk_def keeps_refl)
  have "sound_disk (keeps d) (snd (open_until j vec now d))" for j
    using keeping.openings_sound[OF s, of "[(j, vec, now)]"] by (simp add: openings_def)
  with keeping.opens_alone[OF s assms(2), of vec now] show ?thesis by (auto simp: sound_disk_def)
qed

theorem opening_is_init_db_witness:
  "\<exists>m d'. open_until 40 True 1 empty_disk = (Ran m, d') \<and> init_db True (dk_schema empty_disk) = Inr (dk_schema d')"
  using opening_is_init_db[OF staged_empty, of 40 True 1] by fastforce



text \<open>
  A kill during the backfill is not made up for.  When the columns of the memory tables have been added but
  not everything committed, the rows there are keep no time of access through all later openings, because
  these find the column and fill nothing; left alone, the opening gives every row the present time.
\<close>

theorem backfill_is_not_made_up_for:
  assumes "staged (dk_schema d)" and "sc_version (dk_schema d) = 4" and "5 \<le> n" and "fst (open_until n vec now d) = Cut"
    and "set decay_columns \<inter> set (columns (dk_schema d) ''episodes'') = {}" and "40 \<le> n'"
  shows "dk_rows (openings ks (snd (open_until n vec now d))) ''episodes'' = dk_rows d ''episodes'' \<and>
     dk_rows (snd (open_until n' vec now d)) ''episodes'' = map (touch_row now) (dk_rows d ''episodes'')"
proof -
  let ?S = "\<lparr>se_now = d, se_saved = d, se_open = False\<rparr>"
  let ?d2 = "d\<lparr>dk_schema := add_column ''episodes'' ''last_accessed_at'' (add_column ''episodes'' ''decay_score'' (dk_schema d))\<rparr>"
  let ?S3 = "\<lparr>se_now = touch_table ''episodes'' now ?d2, se_saved = ?d2, se_open = True\<rparr>"
  let ?rest = "[decay_script now ''reflections'', decay_script now ''skills'', (\<lambda>s. [User_version 5, Commit])]"
  have r: "reaches 4 (dk_schema d)" using staged_reaches[OF assms(1)] assms(2) by simp
  then have t: "has_table (dk_schema d) ''runs''" "has_table (dk_schema d) ''run_events''" "has_table (dk_schema d) ''episodes''"
    "{''error_text'', ''kind''} \<subseteq> set (columns (dk_schema d) ''runs'')" by (simp_all add: stage_tables)
  have nd: "''dry_run'' \<notin> set (columns (dk_schema d) ''runs'')" using staged_basics[OF assms(1)] by simp
  have base: "run_scripts (Suc (Suc (Suc m))) [\<lambda>s. creates base_tables, repair_script] ?S = (Ran m, ?S)" for m
    using t nd by (simp add: creates_def base_tables_def sql_step_def exec_stmt_def repair_script_def adds_def Let_def)
  have new: "''decay_score'' \<notin> set (columns (dk_schema d) ''episodes'')" "''last_accessed_at'' \<notin> set (columns (dk_schema d) ''episodes'')"
    using assms(5) by (auto simp: decay_columns_def)
  have ds: "decay_script now ''episodes'' (dk_schema d) =
      [Add_col ''episodes'' ''decay_score'', Add_col ''episodes'' ''last_accessed_at'', Backfill ''episodes'' now]"
    using new by (simp add: decay_script_def adds_def)
  have first: "run_stmts (Suc (Suc m)) (decay_script now ''episodes'' (dk_schema d)) ?S =
      (case m of 0 \<Rightarrow> (Cut, \<lparr>se_now = ?d2, se_saved = ?d2, se_open = False\<rparr>) | Suc l \<Rightarrow> (Ran l, ?S3))" for m
    unfolding ds using new t(3)
    by (simp add: sql_step_def exec_stmt_def touch_table_def Let_def split: nat.split)
  have open_from: "open_until (Suc (Suc (Suc (Suc (Suc m))))) vec now d = left_behind
      (case m of 0 \<Rightarrow> (Cut, \<lparr>se_now = ?d2, se_saved = ?d2, se_open = False\<rparr>) | Suc l \<Rightarrow> run_scripts l ?rest ?S3)" for m
    unfolding open_until_def base
    by (simp add: upgrade_scripts_def v5_scripts_def assms(2) first del: run_stmts.simps split: nat.split)
  have "snd (open_until n vec now d) = ?d2"
  proof -
    obtain m where n: "n = Suc (Suc (Suc (Suc (Suc m))))" using assms(3) by (intro that[of "n - 5"]) simp
    show ?thesis
    proof (cases m)
      case 0
      then show ?thesis unfolding n open_from by (simp add: left_behind_def)
    next
      case (Suc l)
      obtain p S' where rs: "run_scripts l ?rest ?S3 = (p, S')" by fastforce
      then have "p = Cut" using assms(4) unfolding n open_from Suc by (cases p) (auto simp: left_behind_def)
      with rs have "se_saved S' = ?d2"
        using scripts_in_transaction[of l ?rest ?S3 S']
        by (auto simp: decay_script_def adds_def butlast_append)
      then show ?thesis unfolding n open_from Suc using rs \<open>p = Cut\<close> by (simp add: left_behind_def del: run_scripts.simps)
    qed
  qed
  moreover have "sound_disk (unfilled (dk_rows d ''episodes'')) ?d2"
    using staged_add[OF staged_add[OF assms(1) t(3)]] t(3) by (simp add: sound_disk_def unfilled_def)
  ultimately have "dk_rows (openings ks (snd (open_until n vec now d))) ''episodes'' = dk_rows d ''episodes''"
    using unfilled.openings_sound[of _ ?d2 ks] by (simp add: sound_disk_def unfilled_def)
  moreover have "dk_rows (snd (open_until n' vec now d)) ''episodes'' = map (touch_row now) (dk_rows d ''episodes'')"
  proof -
    obtain l where n': "n' = Suc (Suc (Suc (Suc (Suc (Suc l)))))" using assms(6) by (intro that[of "n' - 6"]) simp
    have "sound_disk (keeps d) d" using assms(1) by (simp add: sound_disk_def keeps_refl)
    from keeping.opens_alone[OF this assms(6), of vec now] obtain m d' where o: "open_until n' vec now d = (Ran m, d')" by blast
    obtain p S' where rs: "run_scripts l ?rest ?S3 = (p, S')" by fastforce
    have "snd (open_until n' vec now d) = se_now S'"
      using o rs unfolding n' open_from by (cases p) (auto simp: left_behind_def simp del: run_scripts.simps)
    moreover have "dk_rows (se_now S') ''episodes'' = dk_rows (se_now ?S3) ''episodes''"
      by (rule scripts_spare_episodes[OF rs]) (auto simp: decay_script_def adds_def spares_episodes_def list_all_iff)
    ultimately show ?thesis by (simp add: touch_table_def)
  qed
  ultimately show ?thesis by blast
qed

theorem backfill_is_not_made_up_for_witness:
  "dk_rows (openings [(40, False, 2)] (snd (open_until 6 False 1 v4_disk))) ''episodes'' = [[(''run_id'', JStr ''r1'')]]"
proof -
  have "fst (open_until 6 False 1 v4_disk) = Cut" "sc_version (dk_schema v4_disk) = 4"
    "set decay_columns \<inter> set (columns (dk_schema v4_disk) ''episodes'') = {}" by code_simp+
  from backfill_is_not_made_up_for[OF staged_v4 this(2) _ this(1,3), of 40 "[(40, False, 2)]"]
  show ?thesis by (simp add: v4_disk_def)
qed

lemma bare_copied_run: "bare (copied_run r) = copied_run r"
  by (simp add: bare_def copied_run_def run_columns_def)

text \<open>What the rebuild left of the runs, whatever is killed from then on: the table they were in has none, and the
copy stays in the table nobody reads.\<close>
lemma lost_for_ever:
  assumes "staged (dk_schema d)" and new: "has_table (dk_schema d) ''runs_new''" and "dk_rows d ''runs'' = []" and n: "40 \<le> n"
  shows "\<exists>m e'. open_until n vec now (openings ks d) = (Ran m, e') \<and> complete (dk_schema e') \<and> dk_rows e' ''runs'' = [] \<and>
     map bare (dk_rows e' ''runs_new'') = map bare (dk_rows d ''runs_new'')"
proof -
  have "sound_disk (keeps d) d" "sound_disk (\<lambda>d. dk_rows d ''runs'' = []) d"
    using assms(1,3) by (simp_all add: sound_disk_def keeps_refl)
  then have o1: "sound_disk (keeps d) (openings ks d)" and o2: "sound_disk (\<lambda>d. dk_rows d ''runs'' = []) (openings ks d)"
    by (auto intro: keeping.openings_sound emptied.openings_sound)
  obtain m e' where e: "open_until n vec now (openings ks d) = (Ran m, e')"
    "init_db vec (dk_schema (openings ks d)) = Inr (dk_schema e')" "sound_disk (keeps d) e'"
    using keeping.opens_alone[OF o1 n] by blast
  obtain m' e'' where "open_until n vec now (openings ks d) = (Ran m', e'')" "sound_disk (\<lambda>d. dk_rows d ''runs'' = []) e''"
    using emptied.opens_alone[OF o2 n] by blast
  then have "dk_rows e' ''runs'' = []" using e(1) by (simp add: sound_disk_def)
  moreover have "map bare (dk_rows e' ''runs_new'') = map bare (dk_rows d ''runs_new'')"
    using e(3) new by (simp add: sound_disk_def keeps_def)
  moreover have "staged (dk_schema (openings ks d))" using o1 by (simp add: sound_disk_def)
  then have "complete (dk_schema e')"
    using staged_complete init_db_version[OF e(2)] staged_basics e(3) by (auto simp: sound_disk_def)
  ultimately show ?thesis using e(1) by simp
qed

text \<open>
  C39: The rebuild of an old table does not survive kills.  A database of before the versioned migrations that
  has the column \<open>dry_run\<close> is rebuilt over a second table.  Killed after that one was created, or after
  it was filled, the database can never be opened again: every later opening finds the second table and
  raises.  Killed after the old table was dropped, it opens without an error and complete, with no run
  in the table of runs: all of them are in the second table, which nothing reads.
\<close>

theorem rebuild_does_not_survive_kills:
  assumes "pristine (dk_schema d)" and "has_table (dk_schema d) ''runs''" and "''dry_run'' \<in> set (columns (dk_schema d) ''runs'')"
  shows "\<exists>k. (\<forall>j\<in>{1, 2}. \<forall>ks n vec' now'. let e = snd (open_until (k + j) vec now d) in
       openings ks e = e \<and> (3 \<le> n \<longrightarrow> fst (open_until n vec' now' e) = Broke (DatabaseError ''table runs_new already exists''))) \<and>
     (\<forall>ks n vec' now'. let e = snd (open_until (k + 3) vec now d) in 40 \<le> n \<longrightarrow>
       (\<exists>m e'. open_until n vec' now' (openings ks e) = (Ran m, e') \<and> complete (dk_schema e') \<and> dk_rows e' ''runs'' = [] \<and>
          map bare (dk_rows e' ''runs_new'') = map copied_run (dk_rows d ''runs'')))"
proof -
  obtain k d2 where k: "\<forall>n vec now. open_until (k + n) vec now d = left_behind
        (case run_stmts n (rebuild_script @ [Commit]) \<lparr>se_now = d2, se_saved = d2, se_open = False\<rparr> of
           (Ran m, S) \<Rightarrow> run_scripts m (upgrade_scripts vec now (sc_version (dk_schema (se_now S)))) S | r \<Rightarrow> r)"
    and rows: "dk_rows d2 ''runs'' = dk_rows d ''runs''"
    and tables: "\<forall>t. has_table (dk_schema d2) t \<longleftrightarrow> t = ''run_events'' \<or> has_table (dk_schema d) t"
    and cols: "{''error_text'', ''kind'', ''dry_run''} \<subseteq> set (columns (dk_schema d2) ''runs'')"
      "set event_columns \<subseteq> set (columns (dk_schema d2) ''run_events'')" "sc_version (dk_schema d2) = 0"
    by (rule before_rebuild[OF assms])
  have fresh: "\<not> has_table (dk_schema d2) t" if "t \<in> set later_tables" for t
    using assms(1) that tables by (auto simp: pristine_def later_tables_def)
  then have nn: "\<not> has_table (dk_schema d2) ''runs_new''" by (simp add: later_tables_def)
  have runs: "has_table (dk_schema d2) ''runs''" using tables assms(2) by simp
  let ?new = "\<lambda>r. \<lparr>dk_schema = create_table ''runs_new'' run_columns (dk_schema d2), dk_rows = (dk_rows d2)(''runs_new'' := r)\<rparr>"
  let ?copy = "map copied_run (dk_rows d ''runs'')"
  let ?lost = "\<lparr>dk_schema = drop_table ''runs'' (dk_schema (?new ?copy)), dk_rows = (dk_rows (?new ?copy))(''runs'' := [])\<rparr>"
  note run = rebuild_script_def sql_step_def exec_stmt_def nn runs Let_def left_behind_def rows fun_upd_upd
  have e1: "snd (open_until (k + 1) vec now d) = ?new []" using k[rule_format, of 1 vec now] by (simp add: run)
  have e2: "snd (open_until (k + 2) vec now d) = ?new ?copy" using k[rule_format, of 2 vec now] by (simp add: run numeral_2_eq_2)
  have e3: "snd (open_until (k + 3) vec now d) = ?lost" using k[rule_format, of 3 vec now] by (simp add: run numeral_3_eq_3)
  have b: "blocked (?new r)" for r using cols(1) runs tables nn by (simp add: blocked_def columns_create)
  have "staged (dk_schema ?lost)"
    using fresh cols(2,3) by (simp add: staged_def tables_at_def columns_at_def drop_table_simps columns_create v2_tables_def
        v3_tables_def v4_tables_def later_tables_def)
  then have "\<exists>m e'. open_until n vec' now' (openings ks ?lost) = (Ran m, e') \<and> complete (dk_schema e') \<and> dk_rows e' ''runs'' = [] \<and>
      map bare (dk_rows e' ''runs_new'') = map bare (dk_rows ?lost ''runs_new'')" if "40 \<le> n" for ks n vec' now'
    by (rule lost_for_ever[OF _ _ _ that]) (simp_all add: drop_table_simps)
  then have second: "\<forall>ks n vec' now'. let e = snd (open_until (k + 3) vec now d) in 40 \<le> n \<longrightarrow>
      (\<exists>m e'. open_until n vec' now' (openings ks e) = (Ran m, e') \<and> complete (dk_schema e') \<and> dk_rows e' ''runs'' = [] \<and>
         map bare (dk_rows e' ''runs_new'') = ?copy)" unfolding e3 Let_def by (simp add: bare_copied_run comp_def)
  have "\<forall>j\<in>{1, 2}. \<forall>ks n vec' now'. let e = snd (open_until (k + j) vec now d) in
      openings ks e = e \<and> (3 \<le> n \<longrightarrow> fst (open_until n vec' now' e) = Broke (DatabaseError ''table runs_new already exists''))"
  proof (intro ballI allI)
    fix j :: nat and ks n vec' now' assume "j \<in> {1, 2}"
    then have "j = 1 \<or> j = 2" by simp
    then obtain r where r: "snd (open_until (k + j) vec now d) = ?new r" using e1 e2 by blast
    show "let e = snd (open_until (k + j) vec now d) in
        openings ks e = e \<and> (3 \<le> n \<longrightarrow> fst (open_until n vec' now' e) = Broke (DatabaseError ''table runs_new already exists''))"
      unfolding r Let_def using blocked_for_ever[OF b] blocked_stays[OF b] by simp
  qed
  with second show ?thesis by blast
qed


theorem rebuild_does_not_survive_kills_witness:
  "\<exists>k. fst (open_until 40 False 2 (openings [(40, False, 1)] (snd (open_until (k + 1) False 0 old_disk)))) =
     Broke (DatabaseError ''table runs_new already exists'')"
proof -
  have "pristine (dk_schema old_disk)" "has_table (dk_schema old_disk) ''runs''" "''dry_run'' \<in> set (columns (dk_schema old_disk) ''runs'')"
    by (simp_all add: old_disk_def pristine_def has_table_def later_tables_def columns_def dget_or_def)
  from rebuild_does_not_survive_kills[OF this, of False 0] obtain k where
    k: "\<forall>j\<in>{1, 2}. \<forall>ks n vec' now'. let e = snd (open_until (k + j) False 0 old_disk) in
       openings ks e = e \<and> (3 \<le> n \<longrightarrow> fst (open_until n vec' now' e) = Broke (DatabaseError ''table runs_new already exists''))"
    by blast
  have "(1 :: nat) \<in> {1, 2}" "3 \<le> (40 :: nat)" by simp_all
  with k show ?thesis unfolding Let_def by metis
qed

end
