(* ===== verification/Spec2Isabelle.thy ===== *)
theory Spec2Isabelle
  imports Orchestrator Run_Executor Rules Memory Learning Rpc Server Client Voice_Config Redact Audio
    Voice Integrations Diagnostics Cli Panels Tui Speech Crash
begin

text \<open>
  Verification library of hyprland-agent, a desktop agent for the Hyprland compositor: a daemon
  accepts tasks over a socket, asks a language model (a brain) which actions to take, executes
  them on the desktop behind safety gates, records every run in a database and publishes its
  events; command line programs, panels and a voice sidecar are its clients.  The Python sources
  are under \<open>src/src/agent\<close>; paths below are relative to it.

  Parts and theories, in the order the code builds on them.

  \<^item> \<open>Prelude\<close>: exceptions and JSON values of Python as datatypes, results as \<open>py_exc + 'a\<close> with
    their bind, dictionaries as association lists, the string operations the code uses, and the
    generic lemmas.  \<open>Schemas\<close> (\<open>schemas.py\<close>): the enumerations and records, with the locale
    \<open>str_enum\<close> for the enumerations whose values are strings.
  \<^item> Safety.  \<open>Fnmatch\<close>: the glob patterns of the standard library; \<open>Safety\<close>
    (\<open>safety/allowlist.py\<close>, \<open>confirm.py\<close>, \<open>killswitch.py\<close>); \<open>Regex\<close>: the regular expressions the
    code writes, as a syntax with a matcher that follows the order of Python's; \<open>Rate_Limit\<close>
    (\<open>safety/rate_limit.py\<close>).
  \<^item> \<open>Config\<close> (\<open>config.py\<close>), \<open>Tools\<close> (\<open>tools\<close>), \<open>Awareness\<close> (\<open>awareness\<close>, \<open>introspection\<close>,
    \<open>brain/context.py\<close>), \<open>Brain\<close> (\<open>brain\<close>): a model API is a function of the conversation.
  \<^item> \<open>Desktop\<close> and \<open>Orchestrator\<close> (\<open>orchestrator.py\<close>): a run is a state passing function that
    also returns its trace, the list of everything it read from and did to the desktop.  The
    locales \<open>trace_law\<close>, \<open>emit_law\<close>, \<open>plan_law\<close>, \<open>action_law\<close> and \<open>run_law\<close> say when a predicate of
    traces holds of every run; each safety property is one interpretation of them.
  \<^item> \<open>Ipc\<close> (\<open>ipc\<close>): frames, their validation and the framing of a byte stream.  \<open>Pubsub\<close>
    (\<open>daemon/pubsub.py\<close>): the bus, with bounded queues as the locale \<open>bounded_fifo\<close>.
  \<^item> \<open>Migrations\<close> and \<open>Store\<close> (\<open>daemon/store.py\<close>): tables as lists of rows, each method as an
    operation on them, and the cache of runs with its coherence; the locale \<open>store_write\<close> collects
    what every write keeps.  \<open>Crash\<close>: the opening of the database statement by statement, with the
    process killed anywhere; the locale \<open>disk_law\<close> says what of a database survives it.  \<open>Run_Executor\<close> (\<open>daemon/run_executor.py\<close>): submission, events,
    cancellation and end of runs as a step relation.
  \<^item> \<open>Shlex\<close>: \<open>shlex.split\<close>; \<open>Rules\<close> (\<open>daemon/rule_runner.py\<close>, \<open>daemon/watcher_service.py\<close>):
    loading, matching and execution of watch rules.  \<open>Memory\<close> (\<open>memory/episodic.py\<close>,
    \<open>learning/reflection.py\<close>, \<open>learning/consumer.py\<close>) and \<open>Learning\<close> (\<open>learning/api.py\<close>, the miners).
  \<^item> \<open>Rpc\<close> (\<open>daemon/rpc.py\<close>, the loops of \<open>daemon/main.py\<close>): the daemon's whole state, every
    handler, the dispatch, and the steps of the daemon; a predicate of the executor that satisfies the
    locale \<open>executor_property\<close> is kept by all of them.  \<open>Server\<close> (\<open>daemon/server.py\<close>): one
    connection as labelled steps of its reader, forwarders and writer in any interleaving, and
    any number of connections over one daemon.  \<open>Client\<close> (\<open>client/connection.py\<close>).
  \<^item> \<open>Voice_Config\<close>, \<open>Redact\<close>, \<open>Audio\<close>, \<open>Voice\<close> (\<open>voice\<close>, \<open>cli/voice_sidecar.py\<close>):
    configuration, redaction, ring buffer and recording loop, and the hands-free pipeline as steps
    of its capture thread and its event loop.
  \<^item> \<open>Integrations\<close> (\<open>integrations\<close>, \<open>daemon/state.py\<close>): the registry and the plugins.
    \<open>Diagnostics\<close> (\<open>diagnostics.py\<close>, \<open>paths.py\<close>): the doctor.  \<open>Cli\<close> (\<open>cli\<close>): the commands, as
    functions of an interface of requests that is instantiated with the model of the daemon.
    \<open>Panels\<close>: \<open>cli/waybar_module.py\<close>, \<open>fuzzel_launcher.py\<close>, \<open>voice.py\<close>, \<open>config.py\<close> and
    \<open>service.py\<close>.  \<open>Tui\<close> (\<open>tui\<close>): the state behind the widgets of the terminal interface; the run
    list beside the steps of the executor, the run detail beside the answers of the daemon.
  \<^item> \<open>Sidecar\<close> (\<open>cli/voice_sidecar.py\<close>, \<open>voice/engines/piper.py\<close>, \<open>voice/audio.py\<close>): speech, the
    loop that announces runs, and what the voice sidecar starts.  \<open>Startup\<close> (\<open>daemon/state.py\<close>,
    \<open>daemon/log_publisher.py\<close>, \<open>tools/screen.py\<close>): opening and closing the daemon, log records,
    monitors and screenshots.
  \<^item> \<open>Settling\<close> (\<open>_run_task\<close> of \<open>daemon/run_executor.py\<close>): the end of a run await by await, with
    cancellations and errors at each of them, and the tasks of all runs interleaved; the locale
    \<open>run_write\<close> collects what its statements keep.  \<open>Lifecycle\<close> (\<open>daemon/main.py\<close>, \<open>serve\<close> of
    \<open>daemon/server.py\<close>, \<open>daemon/state.py\<close>): the lives of the daemon, from start over the steps of \<open>Rpc\<close>
    to signal and shutdown, or a kill, and the next start on the same database.
  \<^item> \<open>Engines\<close> (\<open>memory/embedder.py\<close>, \<open>voice/stt.py\<close>, \<open>voice/vad.py\<close>, \<open>voice/download.py\<close>, \<open>models\<close> of
    \<open>cli/voice.py\<close>): models loaded on first use, as the locale \<open>loader\<close>, callers in threads, downloads.
    \<open>Streams\<close> (\<open>tools/hypr.py\<close>, \<open>tools/events.py\<close>, \<open>integrations/idle.py\<close>, \<open>tools/terminal.py\<close>,
    \<open>tools/clipboard.py\<close>, \<open>voice/ptt.py\<close>): requests to the compositor and their replies, the event
    socket and its watcher, the signals of the screen lock, and the socket of push to talk.  \<open>Speech\<close>
    (\<open>voice/audio.py\<close>, \<open>voice/stt.py\<close>, \<open>voice/pipeline.py\<close>, \<open>cli/voice_sidecar.py\<close>): samples and their
    bytes as sixteen-bit words, the capture stream, what the sidecar needs to start, and the
    submission of spoken tasks over the model of the client.

  What the lemmas show.  In the theories of the safety parts: what the gates admit and refuse,
  exactly, and that no trace of a run gets around them.  Of the store, the executor and the
  daemon: the cache and the run states are invariants of every interleaving and of every restart
  that lets the runs end, refinement of the database by the cache, numbering of events; the single
  operation \<open>finish\<close> is what the awaits of an undisturbed end amount to, and what the disturbed ones
  leave is described exactly.  Of the connection: handshake, order and
  completeness of responses and events, no leaked subscriptions, and for the client that it gets
  what the dispatch gave.  Of parsers and loaders: round trips and equivalence with declarative
  well-formedness.  Of loops: termination with the result.  Theorems whose text speaks of a
  defect show what the code does on inputs where that is not what it means to do.

  Bounds and fuel.  Recursion that is not structural has a termination proof; the search of the
  process tree by the processes not seen yet, the repetition of a regular expression by the
  progress each round must make; no function is cut off by fuel, and the capture thread of \<open>Speech\<close>
  is described for any number of blocks.  Integers are Python's unbounded ones, except the samples
  of \<open>Speech\<close>, which are words of sixteen bits; floating point numbers are real numbers, characters
  are bytes and only the ASCII behaviour of case and blanks is modelled; non-ASCII text of the program
  is spelled in UTF-8.

  Parameters.  The YAML and JSON codecs, pydantic's validation, SQLite's vector distance, the
  model APIs, subprocesses, the sound device, the data table of the terminal library, the clock,
  fresh identifiers and files outside the program's own are arguments or records of arguments.

  Not modelled.  Layout, styles and key bindings of the terminal interface; the embedding, speech
  and voice activity models themselves, the network and the archive format of their downloads; the
  scaling of images and the rounding of single precision; the configuration of logging; the parsing
  of command lines by typer.  They are calls of libraries, or declarations without behaviour of
  their own.
\<close>

end
